(* ===== verification/Prelude.thy ===== *)
theory Prelude
  imports Main "HOL-Library.Word" "HOL-Library.Multiset" "HOL-Library.List_Lexorder"
    "HOL-Library.Char_ord"
begin

text \<open>
  Shared vocabulary of the development: 64-bit machine integers and their reading as
  integers, fallible computations as sums with an explicit error type, and the list
  lemmas that the table operations of the repositories use.
\<close>

section \<open>Collections of rewrite rules\<close>

named_theorems i64_simps \<open>reading 64-bit words as integers\<close>
named_theorems res_simps \<open>sequencing of fallible computations\<close>
named_theorems tbl_simps \<open>rows of a table selected and updated by a predicate\<close>

section \<open>Machine integers\<close>

text \<open>Go's \<^verbatim>\<open>int64\<close> (and PostgreSQL's BIGINT) is a 64-bit word read by \<^const>\<open>sint\<close>.\<close>

type_synonym i64 = "64 word"

definition in_i64 :: "int \<Rightarrow> bool" where
  "in_i64 x \<longleftrightarrow> - (2 ^ 63) \<le> x \<and> x < 2 ^ 63"

lemma in_i64_sint [simp, intro]: "in_i64 (sint (w :: i64))"
  using sint_ge [of w] sint_lt [of w] by (simp add: in_i64_def)

lemma sint_bounds:
  fixes w :: i64
  shows "- 9223372036854775808 \<le> sint w" and "sint w \<le> 9223372036854775807"
  using sint_ge [of w] sint_lt [of w] by simp_all

lemma sint_of_int_i64 [i64_simps]: "in_i64 x \<Longrightarrow> sint (word_of_int x :: i64) = x"
  by (simp add: in_i64_def signed_of_int signed_take_bit_int_eq_self)

lemma word_of_sint [simp]: "(word_of_int (sint w) :: i64) = w"
  by simp

lemma sint_add_i64 [i64_simps]:
  "in_i64 (sint a + sint b) \<Longrightarrow> sint (a + b :: i64) = sint a + sint b"
  by (simp add: in_i64_def sint_word_add signed_take_bit_int_eq_self)

lemma sint_diff_i64 [i64_simps]:
  "in_i64 (sint a - sint b) \<Longrightarrow> sint (a - b :: i64) = sint a - sint b"
  by (simp add: in_i64_def sint_word_diff signed_take_bit_int_eq_self)

lemma sint_mult_i64 [i64_simps]:
  "in_i64 (sint a * sint b) \<Longrightarrow> sint (a * b :: i64) = sint a * sint b"
  by (simp add: in_i64_def sint_word_mult signed_take_bit_int_eq_self)

lemma sint_minus_i64 [i64_simps]:
  "in_i64 (- sint a) \<Longrightarrow> sint (- a :: i64) = - sint a"
  by (simp add: in_i64_def sint_word_minus signed_take_bit_int_eq_self)

lemma sint_eq_i64: "sint (a :: i64) = sint b \<longleftrightarrow> a = b"
  by (metis word_of_sint)

text \<open>Wrapping, once around, in either direction.\<close>

lemma sint_of_int_hi:
  assumes "2 ^ 63 \<le> x" "x < 2 ^ 64"
  shows "sint (word_of_int x :: i64) = x - 2 ^ 64"
proof -
  have "word_of_int x = (word_of_int (x - 2 ^ 64) :: i64)"
    by (rule word_of_int_eq_iff [THEN iffD2]) (simp add: take_bit_eq_mod)
  moreover have "sint (word_of_int (x - 2 ^ 64) :: i64) = x - 2 ^ 64"
    using assms by (intro sint_of_int_i64) (simp add: in_i64_def)
  ultimately show ?thesis by (simp only:)
qed

lemma sint_of_int_lo:
  assumes "- (2 ^ 64) \<le> x" "x < - (2 ^ 63)"
  shows "sint (word_of_int x :: i64) = x + 2 ^ 64"
proof -
  have "word_of_int x = (word_of_int (x + 2 ^ 64) :: i64)"
    by (rule word_of_int_eq_iff [THEN iffD2]) (simp add: take_bit_eq_mod)
  moreover have "sint (word_of_int (x + 2 ^ 64) :: i64) = x + 2 ^ 64"
    using assms by (intro sint_of_int_i64) (simp add: in_i64_def)
  ultimately show ?thesis by (simp only:)
qed

lemma word_of_int_sint_add: "(a + b :: i64) = word_of_int (sint a + sint b)"
  by (metis of_int_add word_of_sint)

lemma word_of_int_sint_mult: "(a * b :: i64) = word_of_int (sint a * sint b)"
  by (metis of_int_mult word_of_sint)

lemma word_of_int_sint_minus: "(- a :: i64) = word_of_int (- sint a)"
  by (metis of_int_minus word_of_sint)

text \<open>Go's integer division truncates towards zero; the remainder keeps the dividend's sign.\<close>

definition quo :: "int \<Rightarrow> int \<Rightarrow> int" where
  "quo a b = sgn a * sgn b * (\<bar>a\<bar> div \<bar>b\<bar>)"

definition rmd :: "int \<Rightarrow> int \<Rightarrow> int" where
  "rmd a b = a - quo a b * b"

lemma quo_nonneg: "0 \<le> a \<Longrightarrow> 0 < b \<Longrightarrow> quo a b = a div b"
  by (cases "a = 0") (simp_all add: quo_def)

lemma abs_rmd: "b \<noteq> 0 \<Longrightarrow> \<bar>rmd a b\<bar> = \<bar>a\<bar> mod \<bar>b\<bar>"
proof -
  assume b: "b \<noteq> 0"
  have "rmd a b = sgn a * (\<bar>a\<bar> mod \<bar>b\<bar>)"
  proof -
    have "a = sgn a * \<bar>a\<bar>" and "b = sgn b * \<bar>b\<bar>" by (simp_all add: sgn_mult_abs)
    then have "rmd a b = sgn a * \<bar>a\<bar> - sgn a * (sgn b * sgn b) * (\<bar>a\<bar> div \<bar>b\<bar> * \<bar>b\<bar>)"
      unfolding rmd_def quo_def by (metis (no_types, opaque_lifting) mult.assoc mult.commute)
    also have "sgn b * sgn b = 1" using b by (simp add: sgn_if)
    finally show ?thesis
      by (simp add: minus_div_mult_eq_mod right_diff_distrib [symmetric])
  qed
  with b show ?thesis by (cases "a = 0") (simp_all add: abs_mult abs_sgn_eq)
qed

section \<open>Decimal notation\<close>

text \<open>\<^verbatim>\<open>strconv.FormatInt(n, 10)\<close>, also the verb \<^verbatim>\<open>%d\<close>.\<close>

fun decimal :: "nat \<Rightarrow> string" where
  "decimal n = (if n < 10 then [char_of (48 + n)] else decimal (n div 10) @ [char_of (48 + n mod 10)])"

declare decimal.simps [simp del]

definition FormatInt :: "int \<Rightarrow> string" where
  "FormatInt i = (if i < 0 then ''-'' @ decimal (nat (- i)) else decimal (nat i))"

lemma digit_inj: "a < 10 \<Longrightarrow> b < 10 \<Longrightarrow> (char_of (48 + a) :: char) = char_of (48 + b) \<Longrightarrow> a = (b :: nat)"
  by (drule arg_cong [where f = "of_char :: char \<Rightarrow> nat"]) simp

lemma digit_neq: "a < (10 :: nat) \<Longrightarrow> of_char c < (48 :: nat) \<or> 58 \<le> (of_char c :: nat) \<Longrightarrow> (char_of (48 + a) :: char) \<noteq> c"
proof
  assume a: "a < 10" "of_char c < (48 :: nat) \<or> 58 \<le> (of_char c :: nat)" and "char_of (48 + a) = c"
  then have "of_char c = ((48 + a) mod 256 :: nat)" by (metis of_char_of)
  with a show False by simp
qed

lemma decimal_chars: "c \<in> set (decimal n) \<Longrightarrow> \<exists>d<10::nat. c = char_of (48 + d)"
proof (induction n rule: decimal.induct)
  case (1 n)
  show ?case
  proof (cases "n < 10")
    case True
    with 1 show ?thesis by (subst (asm) (2) decimal.simps) auto
  next
    case False
    with 1 have "c \<in> set (decimal (n div 10)) \<or> c = char_of (48 + n mod 10)"
      by (subst (asm) (2) decimal.simps) auto
    moreover have "n mod 10 < 10" by simp
    ultimately show ?thesis using False 1 by blast
  qed
qed

lemma decimal_nonempty [simp]: "decimal n \<noteq> []" "[] \<noteq> decimal n"
  by (subst decimal.simps, simp)+

lemma decimal_small_iff: "n < 10 \<Longrightarrow> decimal n = [char_of (48 + n)]"
  and decimal_large: "\<not> n < 10 \<Longrightarrow> decimal n = decimal (n div 10) @ [char_of (48 + n mod 10)]"
  by (subst decimal.simps, simp)+

lemma decimal_inj: "decimal m = decimal n \<Longrightarrow> m = n"
proof (induction m arbitrary: n rule: less_induct)
  case (less m)
  consider "m < 10" "n < 10" | "m < 10" "\<not> n < 10" | "\<not> m < 10" "n < 10" | "\<not> m < 10" "\<not> n < 10"
    by blast
  then show ?case
  proof cases
    case 1
    with less.prems digit_inj show ?thesis by (simp add: decimal_small_iff)
  next
    case 4
    with less.prems have "decimal (m div 10) = decimal (n div 10)"
      and d: "(char_of (48 + m mod 10) :: char) = char_of (48 + n mod 10)"
      by (simp_all add: decimal_large)
    with less.IH [of "m div 10" "n div 10"] 4 have "m div 10 = n div 10" by simp
    moreover have "m mod 10 = n mod 10" by (rule digit_inj [OF _ _ d]) simp_all
    ultimately show ?thesis by (metis div_mult_mod_eq)
  qed (use less.prems in \<open>simp_all add: decimal_small_iff decimal_large\<close>)
qed

lemma FormatInt_inj: "FormatInt i = FormatInt j \<Longrightarrow> i = j"
proof -
  have minus: "CHR ''-'' \<notin> set (decimal n)" for n
  proof
    assume "CHR ''-'' \<in> set (decimal n)"
    then obtain d :: nat where d: "d < 10" "char_of (48 + d) = CHR ''-''" using decimal_chars by metis
    have "of_char (CHR ''-'') < (48 :: nat)" by (simp add: of_char_def)
    with digit_neq [OF d(1)] d(2) show False by blast
  qed
  have cross: "CHR ''-'' # xs \<noteq> decimal n" for xs n using minus [of n] by (metis list.set_intros(1))
  assume eq: "FormatInt i = FormatInt j"
  show ?thesis
  proof (cases "i < 0"; cases "j < 0")
    assume "i < 0" "j < 0"
    with eq decimal_inj [of "nat (- i)" "nat (- j)"] show ?thesis by (simp add: FormatInt_def)
  next
    assume "\<not> i < 0" "\<not> j < 0"
    with eq decimal_inj [of "nat i" "nat j"] show ?thesis by (simp add: FormatInt_def)
  qed (use eq cross cross [symmetric] in \<open>simp_all add: FormatInt_def\<close>)
qed

section \<open>Fallible computations\<close>

text \<open>
  A Go call \<^verbatim>\<open>x, err := f(); if err != nil { return err }\<close> is \<open>andThen (f) (\<lambda>x. \<dots>)\<close>:
  the error leaves the function, the value goes on.
\<close>

definition andThen :: "'e + 'a \<Rightarrow> ('a \<Rightarrow> 'e + 'b) \<Rightarrow> 'e + 'b" where
  "andThen r f = (case r of Inl e \<Rightarrow> Inl e | Inr x \<Rightarrow> f x)"

text \<open>\<^verbatim>\<open>if cond { return err }\<close> before the rest.\<close>

definition orElse :: "bool \<Rightarrow> 'e \<Rightarrow> 'e + unit" where
  "orElse ok e = (if ok then Inr () else Inl e)"

lemma andThen_Inl [simp]: "andThen (Inl e) f = Inl e"
  and andThen_Inr [simp]: "andThen (Inr x) f = f x"
  by (simp_all add: andThen_def)

lemma andThen_Inr_iff [res_simps]: "andThen r f = Inr y \<longleftrightarrow> (\<exists>x. r = Inr x \<and> f x = Inr y)"
  by (cases r) simp_all

lemma andThen_Inl_iff: "andThen r f = Inl e \<longleftrightarrow> r = Inl e \<or> (\<exists>x. r = Inr x \<and> f x = Inl e)"
  by (cases r) simp_all

lemma if_Inl_Inr [res_simps]: "(if b then Inl e else x) = Inr y \<longleftrightarrow> \<not> b \<and> x = Inr y"
  by simp

lemma case_pair_Inr: "(case p of (a, b) \<Rightarrow> f a b) = Inr y \<longleftrightarrow> (\<exists>a b. p = (a, b) \<and> f a b = Inr y)"
  by (cases p) simp

lemma case_option_Inr: "(case x of None \<Rightarrow> Inl e | Some y \<Rightarrow> f y) = Inr z \<longleftrightarrow> (\<exists>y. x = Some y \<and> f y = Inr z)"
  by (cases x) auto

lemmas run_simps = andThen_Inr_iff if_Inl_Inr split_paired_Ex prod.case Let_def sum.inject prod.inject

lemma andThen_assoc: "andThen (andThen r f) g = andThen r (\<lambda>x. andThen (f x) g)"
  by (cases r) simp_all

lemma orElse_Inr [res_simps]: "orElse ok e = Inr u \<longleftrightarrow> ok"
  by (simp add: orElse_def)

lemma orElse_simps [simp]: "orElse True e = Inr ()" "orElse False e = Inl e"
  by (simp_all add: orElse_def)

section \<open>Tables\<close>

text \<open>
  A table is the list of its rows. An UPDATE applies a function to the rows its WHERE
  clause selects; RowsAffected counts those rows; a single-row query scans the first row.
\<close>

definition upd_where :: "('r \<Rightarrow> bool) \<Rightarrow> ('r \<Rightarrow> 'r) \<Rightarrow> 'r list \<Rightarrow> 'r list" where
  "upd_where p f rs = map (\<lambda>r. if p r then f r else r) rs"

lemma upd_where_Nil [simp]: "upd_where p f [] = []"
  and upd_where_Cons [simp]: "upd_where p f (r # rs) = (if p r then f r else r) # upd_where p f rs"
  by (simp_all add: upd_where_def)

lemma length_upd_where [simp]: "length (upd_where p f rs) = length rs"
  by (simp add: upd_where_def)

lemma upd_where_none [tbl_simps]: "\<not> (\<exists>r\<in>set rs. p r) \<Longrightarrow> upd_where p f rs = rs"
  by (induction rs) auto

lemma set_upd_where: "set (upd_where p f rs) = f ` {r \<in> set rs. p r} \<union> {r \<in> set rs. \<not> p r}"
  by (induction rs) auto

lemma in_upd_where: "r \<in> set rs \<Longrightarrow> p r \<Longrightarrow> f r \<in> set (upd_where p f rs)"
  by (auto simp: set_upd_where)

lemma upd_where_settled: "(\<And>r. \<not> p (f r)) \<Longrightarrow> q \<in> set (upd_where p f rs) \<Longrightarrow> \<not> p q"
  by (auto simp: set_upd_where)

lemma map_upd_where_key [tbl_simps]:
  "(\<And>r. k (f r) = k r) \<Longrightarrow> map k (upd_where p f rs) = map k rs"
  by (induction rs) auto

lemma filter_upd_where_frame:
  "(\<And>r. p r \<Longrightarrow> \<not> q r) \<Longrightarrow> (\<And>r. p r \<Longrightarrow> \<not> q (f r)) \<Longrightarrow>
   filter q (upd_where p f rs) = filter q rs"
  by (induction rs) auto

lemma list_all_upd_where:
  "list_all q rs \<Longrightarrow> (\<And>r. q r \<Longrightarrow> p r \<Longrightarrow> q (f r)) \<Longrightarrow> list_all q (upd_where p f rs)"
  by (induction rs) auto

lemma find_upd_where:
  "(\<And>r. q (f r) = q r) \<Longrightarrow>
   List.find q (upd_where p f rs) = map_option (\<lambda>r. if p r then f r else r) (List.find q rs)"
  by (induction rs) auto

text \<open>When the WHERE clause selects one row by key, a sum over the table moves by that row's share.\<close>

lemma upd_where_other: "(\<And>q. q \<in> set rs \<Longrightarrow> \<not> p q) \<Longrightarrow> upd_where p f rs = rs"
  by (induction rs) auto

lemma sum_upd_key:
  fixes w :: "'r \<Rightarrow> int"
  assumes "distinct (map k rs)" "r \<in> set rs" "p r" "\<And>q. p q \<Longrightarrow> k q = k r"
  shows "(\<Sum>q\<leftarrow>upd_where p f rs. w q) = (\<Sum>q\<leftarrow>rs. w q) + (w (f r) - w r)"
  using assms(1,2)
proof (induction rs)
  case (Cons q qs)
  show ?case
  proof (cases "q = r")
    case True
    with Cons.prems(1) have "upd_where p f qs = qs"
      by (intro upd_where_other) (metis assms(4) distinct.simps(2) image_eqI image_set list.simps(9))
    with True assms(3) show ?thesis by simp
  next
    case False
    with Cons have "\<not> p q" using assms(4) by (metis distinct.simps(2) image_eqI image_set list.simps(9) set_ConsD)
    with False Cons show ?thesis by simp
  qed
qed simp

lemma distinct_key_unique: "distinct (map k rs) \<Longrightarrow> r \<in> set rs \<Longrightarrow> q \<in> set rs \<Longrightarrow> k r = k q \<Longrightarrow> r = q"
  by (simp add: distinct_map inj_on_def)

lemma sum_list_update_int:
  "k < length xs \<Longrightarrow> sum_list (xs[k := x]) = sum_list xs + x - xs ! k" for x :: int
  by (induction xs arbitrary: k) (auto split: nat.splits)

lemma find_SomeD: "List.find p xs = Some x \<Longrightarrow> p x \<and> x \<in> set xs"
  by (induction xs) (auto split: if_splits)

lemma find_NoneD: "List.find p xs = None \<Longrightarrow> x \<in> set xs \<Longrightarrow> \<not> p x"
  by (simp add: find_None_iff)

end
