(* ===== verification/Money.thy ===== *)
theory Money
  imports Prelude
begin

text \<open>
  The \<^verbatim>\<open>entity.Money\<close> value type of \<^verbatim>\<open>entity/money.go\<close> and the error values of the
  platform. An amount is a 64-bit word; the unset zero value is the record with the empty
  currency. Every operation is the Go function on words; the lemmas read the words as
  integers and show that each operation is the integer operation, or an error when the
  integer result leaves the 64-bit range.
\<close>

section \<open>Money values and the platform's errors\<close>

record money =
  amount :: i64
  currency :: string

text \<open>
  Sentinel errors of the packages, one constructor each. A wrapped error
  (\<^verbatim>\<open>fmt.Errorf("%w: ...", ErrX)\<close>) is its sentinel, which is what \<^verbatim>\<open>errors.Is\<close> sees;
  \<open>Pg\<close> is a driver error with its SQLSTATE code and constraint name, \<open>Fmt\<close> an error with
  no sentinel, \<open>Panic\<close> a Go run-time panic.
\<close>

text \<open>The errors of \<^verbatim>\<open>usecase/origination\<close>.\<close>

datatype orig_err =
    ErrOfferNotFound | ErrOfferExpired | ErrOfferNotAcceptable | ErrProgrammeMismatch | ErrSubscriberIneligible
  | ErrProgrammeEconomicsNotSet | ErrProgrammeEconomicsInvalid | ErrRecoveryUnconfirmedHold
  | ErrSelfExclusionChannelNotAllowed | ErrNotSelfExcluded | ErrCoolOffNotElapsed | ErrOperatorReinstatementRequired
  | ErrDecisionUnavailable | ErrOverlayBlocked | OrigDivergentDuplicate
  | ErrDisclosureUnavailable | ErrDisclosureRequired | ErrDisclosureMismatch | ErrDisclosureExpired
  | ErrChannelNotAllowed | ErrAcceptanceEvidenceMissing | ErrConfirmReplayUnavailable | errReplayRace

text \<open>The errors of the governance packages: configuration, operator actions, held recharges.\<close>

datatype gov_err =
    ErrMakerChecker | ErrValidation | ErrTransitionNotAllowed | ErrSameActor | ErrOpenActionExists | ErrStatusDrift
  | ErrNotActionable

datatype err =
    ErrCurrencyMismatch | ErrInvalidCurrency | ErrMoneyOverflow | ErrMoneyUnset | ErrBadRatio
  | ErrNotFound | ErrConcurrentAdvanceBlocked | ErrOfferAlreadyUsed | ErrNoFundingCapacity
  | ErrStaleVersion | ErrIllegalTransition | ErrSelfApproval | ErrWriteOffExists | ErrSelfRearm
  | ErrUnbalanced | ErrUnknownAccount | ErrEmptyJournal | ErrBadLine | ErrDivergentDuplicate
  | ErrDivergentRecovery | ErrDivergentReversal
  | ErrNotEligible | ErrNotWritable | ErrDisputeBlocked
  | ErrProgrammeSuspended | BreachError string money money
  | ErrNotReproducible | Orig orig_err | Gov gov_err
  | Pg string string | Fmt string | Panic string

section \<open>Construction\<close>

definition Valid :: "string \<Rightarrow> bool" where
  "Valid c \<longleftrightarrow> length c = 3 \<and> list_all (\<lambda>r. CHR ''A'' \<le> r \<and> r \<le> CHR ''Z'') c"

definition unset :: money where
  "unset = \<lparr>amount = 0, currency = ''''\<rparr>"

definition NewMoney :: "i64 \<Rightarrow> string \<Rightarrow> err + money" where
  "NewMoney minor cur =
     (if \<not> Valid cur then Inl ErrInvalidCurrency else Inr \<lparr>amount = minor, currency = cur\<rparr>)"

definition MustMoney :: "i64 \<Rightarrow> string \<Rightarrow> err + money" where
  "MustMoney minor cur =
     (case NewMoney minor cur of Inl e \<Rightarrow> Inl (Panic ''MustMoney'') | Inr m \<Rightarrow> Inr m)"

definition ZeroMoney :: "string \<Rightarrow> err + money" where
  "ZeroMoney cur = NewMoney 0 cur"

definition IsSet :: "money \<Rightarrow> bool" where
  "IsSet m \<longleftrightarrow> currency m \<noteq> ''''"

definition IsZero :: "money \<Rightarrow> bool" where
  "IsZero m \<longleftrightarrow> IsSet m \<and> sint (amount m) = 0"

definition IsPositive :: "money \<Rightarrow> bool" where
  "IsPositive m \<longleftrightarrow> IsSet m \<and> sint (amount m) > 0"

definition IsNegative :: "money \<Rightarrow> bool" where
  "IsNegative m \<longleftrightarrow> IsSet m \<and> sint (amount m) < 0"

definition MoneyString :: "money \<Rightarrow> string" where
  "MoneyString m = (if \<not> IsSet m then ''Money(unset)'' else currency m @ '' '' @ FormatInt (sint (amount m)) @ ''(minor)'')"

definition sameCurrency :: "money \<Rightarrow> money \<Rightarrow> err + unit" where
  "sameCurrency m p =
     (if \<not> IsSet m \<or> \<not> IsSet p then Inl ErrMoneyUnset
      else if currency m \<noteq> currency p then Inl ErrCurrencyMismatch
      else Inr ())"

section \<open>Arithmetic\<close>

definition Add :: "money \<Rightarrow> money \<Rightarrow> err + money" where
  "Add m p = andThen (sameCurrency m p) (\<lambda>_.
     let s = amount m + amount p in
     if (sint (amount m) > 0 \<and> sint (amount p) > 0 \<and> sint s < 0)
        \<or> (sint (amount m) < 0 \<and> sint (amount p) < 0 \<and> sint s \<ge> 0)
     then Inl ErrMoneyOverflow
     else Inr \<lparr>amount = s, currency = currency m\<rparr>)"

definition Neg :: "money \<Rightarrow> err + money" where
  "Neg m =
     (if \<not> IsSet m then Inl ErrMoneyUnset
      else if sint (amount m) = - (2 ^ 63) then Inl ErrMoneyOverflow
      else Inr \<lparr>amount = - amount m, currency = currency m\<rparr>)"

definition Sub :: "money \<Rightarrow> money \<Rightarrow> err + money" where
  "Sub m p = andThen (sameCurrency m p) (\<lambda>_. andThen (Neg p) (\<lambda>n. Add m n))"

definition MulInt :: "money \<Rightarrow> i64 \<Rightarrow> err + money" where
  "MulInt m n =
     (if \<not> IsSet m then Inl ErrMoneyUnset
      else if amount m = 0 \<or> n = 0 then Inr \<lparr>amount = 0, currency = currency m\<rparr>
      else if sint (amount m) = - (2 ^ 63) \<and> sint n = -1 then Inl ErrMoneyOverflow
      else let p = amount m * n in
        if word_of_int (quo (sint p) (sint n)) \<noteq> amount m then Inl ErrMoneyOverflow
        else Inr \<lparr>amount = p, currency = currency m\<rparr>)"

definition Cmp :: "money \<Rightarrow> money \<Rightarrow> err + int" where
  "Cmp m p = andThen (sameCurrency m p) (\<lambda>_. Inr
     (if sint (amount m) < sint (amount p) then -1
      else if sint (amount m) > sint (amount p) then 1 else 0))"

definition PercentBps :: "money \<Rightarrow> i64 \<Rightarrow> err + money" where
  "PercentBps m bps =
     (if \<not> IsSet m then Inl ErrMoneyUnset
      else
        let num = sint (amount m) * sint bps;
            den = 10000;
            q = quo num den;
            r = \<bar>rmd num den\<bar>;
            q' = (if r * 2 \<ge> den then (if num \<ge> 0 then q + 1 else q - 1) else q)
        in if \<not> in_i64 q' then Inl ErrMoneyOverflow
           else Inr \<lparr>amount = word_of_int q', currency = currency m\<rparr>)"

section \<open>Largest-remainder allocation\<close>

text \<open>The inner scan of \<^verbatim>\<open>AllocateByRatio\<close>: the first index with the largest remainder.\<close>

fun scan_best :: "int list \<Rightarrow> nat \<Rightarrow> (nat \<times> int) option \<Rightarrow> (nat \<times> int) option" where
  "scan_best [] i best = best"
| "scan_best (r # rs) i best =
     (case best of
        None \<Rightarrow> scan_best rs (Suc i) (Some (i, r))
      | Some (b, v) \<Rightarrow> if r > v then scan_best rs (Suc i) (Some (i, r)) else scan_best rs (Suc i) best)"

text \<open>The outer loop hands out the leftover minor units one by one.\<close>

fun distribute :: "nat \<Rightarrow> i64 list \<Rightarrow> int list \<Rightarrow> err + i64 list" where
  "distribute 0 parts rems = Inr parts"
| "distribute (Suc n) parts rems =
     (case scan_best rems 0 None of
        None \<Rightarrow> Inl (Panic ''index out of range [-1]'')
      | Some (b, v) \<Rightarrow> distribute n (parts[b := parts ! b + 1]) (rems[b := -1]))"

definition AllocateByRatio :: "money \<Rightarrow> i64 list \<Rightarrow> err + money list" where
  "AllocateByRatio m ratios =
     (if \<not> IsSet m then Inl ErrMoneyUnset
      else if ratios = [] then Inl ErrBadRatio
      else if \<exists>r \<in> set ratios. sint r \<le> 0 then Inl ErrBadRatio
      else
        let total = sum_list (map sint ratios);
            negative = sint (amount m) < 0;
            absAmt = \<bar>sint (amount m)\<bar>;
            qs = map (\<lambda>r. quo (absAmt * sint r) total) ratios;
            rems = map (\<lambda>r. rmd (absAmt * sint r) total) ratios;
            floorSum = sum_list qs;
            leftover = sint (word_of_int (absAmt - floorSum) :: i64)
        in andThen (distribute (nat leftover) (map word_of_int qs) rems) (\<lambda>parts.
             Inr (map (\<lambda>a. \<lparr>amount = (if negative then - a else a), currency = currency m\<rparr>) parts)))"

section \<open>Wire form\<close>

record moneyJSON =
  AmountMinor :: i64
  JCurrency :: string

definition MarshalJSON :: "money \<Rightarrow> err + moneyJSON" where
  "MarshalJSON m = (if \<not> IsSet m then Inl ErrMoneyUnset
                    else Inr \<lparr>AmountMinor = amount m, JCurrency = currency m\<rparr>)"

definition UnmarshalJSON :: "moneyJSON \<Rightarrow> err + money" where
  "UnmarshalJSON w = NewMoney (AmountMinor w) (JCurrency w)"

section \<open>Well-formed amounts\<close>

lemma Valid_nonempty: "Valid c \<Longrightarrow> c \<noteq> ''''"
  by (auto simp: Valid_def)

lemma NewMoney_Inr [res_simps]:
  "NewMoney a c = Inr m \<longleftrightarrow> Valid c \<and> m = \<lparr>amount = a, currency = c\<rparr>"
  by (auto simp: NewMoney_def)

lemma NewMoney_valid [simp]: "Valid c \<Longrightarrow> NewMoney a c = Inr \<lparr>amount = a, currency = c\<rparr>"
  by (simp add: NewMoney_def)

lemma ZeroMoney_valid [simp]: "Valid c \<Longrightarrow> ZeroMoney c = Inr \<lparr>amount = 0, currency = c\<rparr>"
  by (simp add: ZeroMoney_def)

lemma IsSet_make [simp]: "IsSet \<lparr>amount = a, currency = c\<rparr> \<longleftrightarrow> c \<noteq> ''''"
  by (simp add: IsSet_def)

lemma IsPositive_make [simp]:
  "IsPositive \<lparr>amount = a, currency = c\<rparr> \<longleftrightarrow> c \<noteq> '''' \<and> 0 < sint a"
  by (simp add: IsPositive_def)

lemma IsZero_make [simp]:
  "IsZero \<lparr>amount = a, currency = c\<rparr> \<longleftrightarrow> c \<noteq> '''' \<and> a = 0"
  using sint_eq_i64 [of a 0] by (simp add: IsZero_def)

lemma IsPositive_IsSet: "IsPositive m \<Longrightarrow> IsSet m"
  by (simp add: IsPositive_def)

lemma sameCurrency_Inr [res_simps]:
  "sameCurrency m p = Inr u \<longleftrightarrow> IsSet m \<and> IsSet p \<and> currency m = currency p"
  by (auto simp: sameCurrency_def)

lemma sameCurrency_ok [simp]:
  "IsSet m \<Longrightarrow> currency p = currency m \<Longrightarrow> sameCurrency m p = Inr ()"
  by (auto simp: sameCurrency_def IsSet_def)

section \<open>Checked arithmetic is integer arithmetic\<close>

text \<open>The sign test on the wrapped sum is exactly the range test on the integer sum.\<close>

lemma add_sign_test:
  fixes a b :: i64
  shows "(sint a > 0 \<and> sint b > 0 \<and> sint (a + b) < 0) \<or> (sint a < 0 \<and> sint b < 0 \<and> sint (a + b) \<ge> 0)
     \<longleftrightarrow> \<not> in_i64 (sint a + sint b)"
proof -
  note bnd = sint_bounds [of a] sint_bounds [of b]
  consider "in_i64 (sint a + sint b)" | "2 ^ 63 \<le> sint a + sint b" | "sint a + sint b < - (2 ^ 63)"
    by (fastforce simp: in_i64_def)
  then show ?thesis
  proof cases
    case 1
    then have "sint (a + b) = sint a + sint b" by (rule sint_add_i64)
    with 1 show ?thesis by auto
  next
    case 2
    with bnd have "sint (a + b) = sint a + sint b - 2 ^ 64"
      unfolding word_of_int_sint_add by (intro sint_of_int_hi) simp_all
    with 2 bnd show ?thesis by (auto simp: in_i64_def)
  next
    case 3
    with bnd have "sint (a + b) = sint a + sint b + 2 ^ 64"
      unfolding word_of_int_sint_add by (intro sint_of_int_lo) simp_all
    with 3 bnd show ?thesis by (auto simp: in_i64_def)
  qed
qed

lemma Add_eq:
  "Add m p = andThen (sameCurrency m p) (\<lambda>_.
     if in_i64 (sint (amount m) + sint (amount p))
     then Inr \<lparr>amount = amount m + amount p, currency = currency m\<rparr> else Inl ErrMoneyOverflow)"
  unfolding Add_def Let_def add_sign_test by simp

lemma Add_Inr [res_simps]:
  "Add m p = Inr r \<longleftrightarrow>
     IsSet m \<and> IsSet p \<and> currency m = currency p \<and> in_i64 (sint (amount m) + sint (amount p))
     \<and> r = \<lparr>amount = amount m + amount p, currency = currency m\<rparr>"
  by (auto simp: Add_eq res_simps split: if_splits)

lemma Neg_eq:
  "Neg m = (if \<not> IsSet m then Inl ErrMoneyUnset
            else if in_i64 (- sint (amount m)) then Inr \<lparr>amount = - amount m, currency = currency m\<rparr>
            else Inl ErrMoneyOverflow)"
  using sint_bounds [of "amount m"] by (auto simp: Neg_def in_i64_def)

lemma Sub_Inr [res_simps]:
  "Sub m p = Inr r \<longleftrightarrow>
     IsSet m \<and> IsSet p \<and> currency m = currency p \<and> in_i64 (- sint (amount p))
     \<and> in_i64 (sint (amount m) - sint (amount p))
     \<and> r = \<lparr>amount = amount m - amount p, currency = currency m\<rparr>"
proof -
  have "in_i64 (- sint (amount p)) \<Longrightarrow> sint (- amount p) = - sint (amount p)"
    by (rule sint_minus_i64)
  then show ?thesis
    by (auto simp: Sub_def res_simps Neg_eq IsSet_def split: if_splits)
qed

lemma Cmp_Inr [res_simps]:
  "Cmp m p = Inr c \<longleftrightarrow> IsSet m \<and> IsSet p \<and> currency m = currency p
     \<and> c = (if sint (amount m) < sint (amount p) then -1
            else if sint (amount m) > sint (amount p) then 1 else 0)"
  by (auto simp: Cmp_def res_simps)

text \<open>Subtraction of an amount between zero and the minuend never fails.\<close>

lemma Sub_nonneg:
  assumes "IsSet m" "currency p = currency m" "0 \<le> sint (amount p)" "sint (amount p) \<le> sint (amount m)"
  shows "Sub m p = Inr \<lparr>amount = amount m - amount p, currency = currency m\<rparr>"
    and "sint (amount m - amount p) = sint (amount m) - sint (amount p)"
proof -
  note bnd = sint_bounds [of "amount m"] sint_bounds [of "amount p"]
  have r: "in_i64 (- sint (amount p))" "in_i64 (sint (amount m) - sint (amount p))"
    using assms bnd by (simp_all add: in_i64_def)
  with assms show "Sub m p = Inr \<lparr>amount = amount m - amount p, currency = currency m\<rparr>"
    by (simp add: Sub_Inr IsSet_def)
  from r(2) show "sint (amount m - amount p) = sint (amount m) - sint (amount p)"
    by (rule sint_diff_i64)
qed

text \<open>The quotient test after a wrapping product detects exactly the overflow.\<close>

lemma quo_mult_id: "n \<noteq> 0 \<Longrightarrow> quo (a * n) n = a"
proof -
  assume n: "n \<noteq> 0"
  have "sgn n * sgn n = 1" using n by (simp add: sgn_if)
  then have "quo (a * n) n = sgn a * \<bar>a\<bar>"
    using n unfolding quo_def by (simp add: abs_mult sgn_mult mult.assoc)
  then show ?thesis by (simp add: sgn_mult_abs)
qed

lemma abs_quo_le:
  assumes "n \<noteq> 0"
  shows "\<bar>quo p n\<bar> * \<bar>n\<bar> \<le> \<bar>p\<bar>"
proof -
  have "\<bar>quo p n\<bar> = \<bar>p\<bar> div \<bar>n\<bar>"
    using assms by (cases "p = 0") (simp_all add: quo_def abs_mult abs_sgn_eq pos_imp_zdiv_nonneg_iff)
  moreover have "\<bar>p\<bar> div \<bar>n\<bar> * \<bar>n\<bar> = \<bar>p\<bar> - \<bar>p\<bar> mod \<bar>n\<bar>"
    by (simp add: minus_mod_eq_div_mult)
  ultimately show ?thesis using assms by simp
qed

lemma quo_in_i64:
  fixes a n :: i64
  assumes n: "n \<noteq> 0" and nt: "\<not> (sint a = - (2 ^ 63) \<and> sint n = -1)"
    and eq: "word_of_int (quo (sint (a * n)) (sint n)) = a"
  shows "in_i64 (quo (sint (a * n)) (sint n))"
proof (rule ccontr)
  let ?p = "sint (a * n)"
  assume out: "\<not> in_i64 (quo ?p (sint n))"
  have n0: "sint n \<noteq> 0" using n sint_eq_i64 [of n 0] by simp
  have le: "\<bar>quo ?p (sint n)\<bar> * \<bar>sint n\<bar> \<le> 2 ^ 63"
    using abs_quo_le [OF n0, of ?p] sint_bounds [of "a * n"] by simp
  have "1 \<le> \<bar>sint n\<bar>" using n0 by linarith
  with le have le1: "\<bar>quo ?p (sint n)\<bar> \<le> 2 ^ 63"
    using mult_mono [of "\<bar>quo ?p (sint n)\<bar>" "\<bar>quo ?p (sint n)\<bar>" 1 "\<bar>sint n\<bar>"] by simp
  with out have top: "quo ?p (sint n) = 2 ^ 63" by (auto simp: in_i64_def)
  with eq have sa: "sint a = - (2 ^ 63)"
    using sint_of_int_hi [of "2 ^ 63"] by simp
  from le top n0 have "\<bar>sint n\<bar> = 1" by simp
  with sa nt have "sint n = 1" by auto
  then have "n = 1" using sint_eq_i64 [of n 1] by simp
  with sa top show False by (simp add: quo_def)
qed

lemma mul_quo_test:
  fixes a n :: i64
  assumes n: "n \<noteq> 0" and nt: "\<not> (sint a = - (2 ^ 63) \<and> sint n = -1)"
  shows "word_of_int (quo (sint (a * n)) (sint n)) = a \<longleftrightarrow> in_i64 (sint a * sint n)"
proof
  assume "in_i64 (sint a * sint n)"
  moreover have "sint n \<noteq> 0" using n sint_eq_i64 [of n 0] by simp
  ultimately show "word_of_int (quo (sint (a * n)) (sint n)) = a"
    by (simp add: sint_mult_i64 quo_mult_id)
next
  let ?p = "sint (a * n)"
  assume eq: "word_of_int (quo ?p (sint n)) = a"
  have n0: "sint n \<noteq> 0" using n sint_eq_i64 [of n 0] by simp
  have "quo ?p (sint n) = sint a"
    using eq quo_in_i64 [OF n nt eq] by (metis sint_of_int_i64)
  then have diff: "?p - sint a * sint n = rmd ?p (sint n)" by (simp add: rmd_def)
  have "word_of_int ?p = (word_of_int (sint a * sint n) :: i64)"
    by (simp add: word_of_int_sint_mult [symmetric])
  then have "?p mod 2 ^ 64 = (sint a * sint n) mod 2 ^ 64"
    unfolding word_of_int_eq_iff take_bit_eq_mod by simp
  then have "2 ^ 64 dvd (?p - sint a * sint n)" by (simp add: mod_eq_dvd_iff)
  moreover have "\<bar>?p - sint a * sint n\<bar> < 2 ^ 64"
  proof -
    have "\<bar>rmd ?p (sint n)\<bar> < \<bar>sint n\<bar>" using n0 by (simp add: abs_rmd)
    with diff sint_bounds [of n] show ?thesis by simp
  qed
  ultimately have "?p - sint a * sint n = 0"
    by (metis abs_of_nonneg dvd_imp_le_int linorder_not_le zero_le_power zero_le_numeral)
  then show "in_i64 (sint a * sint n)" using in_i64_sint [of "a * n"] by simp
qed

section \<open>Rounding\<close>

text \<open>Round half away from zero, in closed form.\<close>

definition half_up :: "int \<Rightarrow> int" where
  "half_up n = sgn n * ((2 * \<bar>n\<bar> + 10000) div 20000)"

lemma half_up_quo:
  "(if \<bar>rmd n 10000\<bar> * 2 \<ge> 10000 then (if n \<ge> 0 then quo n 10000 + 1 else quo n 10000 - 1)
    else quo n 10000) = half_up n"
proof -
  define k where "k = \<bar>n\<bar> div 10000"
  define r where "r = \<bar>n\<bar> mod 10000"
  have n: "\<bar>n\<bar> = 10000 * k + r" and r: "0 \<le> r" "r < 10000"
    by (simp_all add: k_def r_def)
  have q: "quo n 10000 = sgn n * k" by (simp add: quo_def k_def)
  have rm: "\<bar>rmd n 10000\<bar> = r" using abs_rmd [of 10000 n] by (simp add: r_def)
  have "(2 * \<bar>n\<bar> + 10000) div 20000 = k + (if r * 2 \<ge> 10000 then 1 else 0)"
    unfolding n using r
    by (intro int_div_pos_eq [of _ _ _ "if r * 2 \<ge> 10000 then 2 * r - 10000 else 2 * r + 10000"])
      (simp_all add: algebra_simps)
  moreover have "r * 2 \<ge> 10000 \<Longrightarrow> n \<noteq> 0" using r_def by auto
  ultimately show ?thesis
    unfolding half_up_def q rm by (auto simp: sgn_if algebra_simps)
qed

lemma PercentBps_eq:
  "PercentBps m bps =
     (if \<not> IsSet m then Inl ErrMoneyUnset
      else if in_i64 (half_up (sint (amount m) * sint bps))
      then Inr \<lparr>amount = word_of_int (half_up (sint (amount m) * sint bps)), currency = currency m\<rparr>
      else Inl ErrMoneyOverflow)"
  unfolding PercentBps_def Let_def half_up_quo by simp

lemma half_up_nonneg: "0 \<le> n \<Longrightarrow> half_up n = (2 * n + 10000) div 20000"
  by (cases "n = 0") (simp_all add: half_up_def)

lemma half_up_abs: "\<bar>half_up n\<bar> = half_up \<bar>n\<bar>"
proof (cases "n = 0")
  case False
  then show ?thesis by (simp add: half_up_def abs_mult abs_sgn_eq)
qed (simp add: half_up_def)

lemma half_up_bound_nonneg: "0 \<le> n \<Longrightarrow> 2 * \<bar>half_up n * 10000 - n\<bar> \<le> 10000"
proof -
  assume n: "0 \<le> n"
  define d where "d = (2 * n + 10000) div 20000"
  define e where "e = (2 * n + 10000) mod 20000"
  have "2 * n + 10000 = 20000 * d + e" "0 \<le> e" "e < 20000"
    by (simp_all add: d_def e_def)
  then show ?thesis using half_up_nonneg [OF n] by (simp add: d_def [symmetric] abs_le_iff)
qed

lemma half_up_uminus: "half_up (- n) = - half_up n"
  by (simp add: half_up_def)

lemma half_up_bound: "2 * \<bar>half_up n * 10000 - n\<bar> \<le> 10000"
proof (cases "0 \<le> n")
  case False
  then have "2 * \<bar>half_up (- n) * 10000 - (- n)\<bar> \<le> 10000"
    by (intro half_up_bound_nonneg) simp
  then show ?thesis by (simp add: half_up_uminus abs_le_iff)
qed (simp add: half_up_bound_nonneg)

lemma half_up_nonneg_le:
  "0 \<le> a \<Longrightarrow> 0 \<le> b \<Longrightarrow> b \<le> 10000 \<Longrightarrow> 0 \<le> half_up (a * b) \<and> half_up (a * b) \<le> a"
proof -
  assume h: "0 \<le> a" "0 \<le> b" "b \<le> 10000"
  have ab: "0 \<le> a * b" "a * b \<le> a * 10000" using h by (simp_all add: mult_left_mono)
  have "(2 * (a * b) + 10000) div 20000 \<le> (a * 20000 + 10000) div 20000"
    by (rule zdiv_mono1) (use ab in simp_all)
  also have "(a * 20000 + 10000) div 20000 = a" by simp
  finally show ?thesis using ab by (simp add: half_up_nonneg pos_imp_zdiv_nonneg_iff)
qed

section \<open>Largest remainder: the integer reference\<close>

text \<open>The same loop on integers, the reference that the word loop implements.\<close>

fun dist_int :: "nat \<Rightarrow> int list \<Rightarrow> int list \<Rightarrow> err + int list" where
  "dist_int 0 vs rems = Inr vs"
| "dist_int (Suc n) vs rems =
     (case scan_best rems 0 None of
        None \<Rightarrow> Inl (Panic ''index out of range [-1]'')
      | Some (b, v) \<Rightarrow> dist_int n (vs[b := vs ! b + 1]) (rems[b := -1]))"

lemma scan_best_Some:
  "scan_best rs i (Some (b, v)) = Some (c, w) \<Longrightarrow>
     v \<le> w \<and> (\<forall>r \<in> set rs. r \<le> w) \<and> (c = b \<and> w = v \<or> i \<le> c \<and> c < i + length rs \<and> rs ! (c - i) = w)"
proof (induction rs arbitrary: i b v)
  case (Cons r rs)
  show ?case
  proof (cases "r > v")
    case True
    with Cons.prems have "scan_best rs (Suc i) (Some (i, r)) = Some (c, w)" by simp
    from Cons.IH [OF this] True show ?thesis by (auto simp: nth_Cons' Suc_diff_le)
  next
    case False
    with Cons.prems have "scan_best rs (Suc i) (Some (b, v)) = Some (c, w)" by simp
    from Cons.IH [OF this] False show ?thesis by (auto simp: nth_Cons' Suc_diff_le)
  qed
qed simp

lemma scan_best_total: "scan_best rs i (Some p) \<noteq> None"
  by (induction rs arbitrary: i p) (auto split: prod.splits)

lemma scan_best_max:
  assumes "rs \<noteq> []"
  obtains b where "scan_best rs 0 None = Some (b, rs ! b)" "b < length rs"
    "\<And>r. r \<in> set rs \<Longrightarrow> r \<le> rs ! b"
proof -
  from assms obtain r rs' where rs: "rs = r # rs'" by (cases rs) auto
  then obtain c w where cw: "scan_best rs 0 None = Some (c, w)"
    using scan_best_total [of rs' "Suc 0" "(0, r)"] by auto
  then have "scan_best rs' (Suc 0) (Some (0, r)) = Some (c, w)" using rs by simp
  from scan_best_Some [OF this] rs have "c < length rs" "rs ! c = w" "\<forall>x \<in> set rs. x \<le> w"
    by (auto simp: nth_Cons')
  with cw that show ?thesis by blast
qed

lemma distribute_dist_int:
  "length vs = length rems \<Longrightarrow> rems \<noteq> [] \<Longrightarrow>
   distribute n (map word_of_int vs) rems =
     (case dist_int n vs rems of Inl e \<Rightarrow> Inl e | Inr ws \<Rightarrow> Inr (map word_of_int ws))"
proof (induction n arbitrary: vs rems)
  case (Suc n)
  obtain b where b: "scan_best rems 0 None = Some (b, rems ! b)" "b < length rems"
    using scan_best_max [OF Suc.prems(2)] by metis
  have "(map word_of_int vs :: i64 list)[b := map word_of_int vs ! b + 1]
      = map word_of_int (vs[b := vs ! b + 1])"
    using b(2) Suc.prems(1) by (simp add: map_update)
  moreover have "distribute n (map word_of_int (vs[b := vs ! b + 1])) (rems[b := -1]) =
     (case dist_int n (vs[b := vs ! b + 1]) (rems[b := -1]) of Inl e \<Rightarrow> Inl e
      | Inr ws \<Rightarrow> Inr (map word_of_int ws))"
    by (rule Suc.IH) (use Suc.prems in auto)
  ultimately show ?case using b(1) by simp
qed simp

definition pos_sum :: "int list \<Rightarrow> int" where
  "pos_sum rs = sum_list (map (max 0) rs)"

lemma pos_sum_update:
  "b < length rs \<Longrightarrow> 0 \<le> rs ! b \<Longrightarrow> pos_sum (rs[b := -1]) = pos_sum rs - rs ! b"
  by (simp add: pos_sum_def map_update sum_list_update_int)

lemma pos_sum_pos: "0 < pos_sum rs \<Longrightarrow> \<exists>r \<in> set rs. 0 < r"
proof (rule ccontr)
  assume "0 < pos_sum rs" and "\<not> (\<exists>r \<in> set rs. 0 < r)"
  then have "map (max 0) rs = map (\<lambda>_. 0) rs" by (auto simp: max_def not_less)
  then have "pos_sum rs = 0" by (simp only: pos_sum_def) simp
  with \<open>0 < pos_sum rs\<close> show False by simp
qed

text \<open>
  What the loop keeps: every share is untouched, or was raised by one when its remainder
  was positive, after which the remainder is the consumed mark.
\<close>

definition raised :: "int list \<Rightarrow> int list \<Rightarrow> int list \<Rightarrow> int list \<Rightarrow> bool" where
  "raised qs rems0 vs rems \<longleftrightarrow> length vs = length qs \<and> length rems = length qs \<and>
     (\<forall>i < length qs. (rems ! i = rems0 ! i \<and> vs ! i = qs ! i)
        \<or> (rems ! i = -1 \<and> 0 < rems0 ! i \<and> vs ! i = qs ! i + 1))"

lemma dist_int_correct:
  assumes "raised qs rems0 vs rems" "qs \<noteq> []" "\<forall>r \<in> set rems. r < T" "0 < T"
    "int n * T \<le> pos_sum rems"
  shows "\<exists>ws rems'. dist_int n vs rems = Inr ws \<and> raised qs rems0 ws rems'
           \<and> sum_list ws = sum_list vs + int n"
  using assms
proof (induction n arbitrary: vs rems)
  case (Suc n)
  have len: "length vs = length qs" "length rems = length qs"
    using Suc.prems(1) by (simp_all add: raised_def)
  with Suc.prems(2) have ne: "rems \<noteq> []" by auto
  obtain b where b: "scan_best rems 0 None = Some (b, rems ! b)" "b < length rems"
    "\<And>r. r \<in> set rems \<Longrightarrow> r \<le> rems ! b"
    using scan_best_max [OF ne] by metis
  have "0 < pos_sum rems"
    using Suc.prems(4,5) by (smt (verit) of_nat_Suc of_nat_0_le_iff zero_less_mult_iff)
  then have pos: "0 < rems ! b" using pos_sum_pos b(3) by force
  have "raised qs rems0 (vs[b := vs ! b + 1]) (rems[b := -1])"
    using Suc.prems(1) pos b(2) unfolding raised_def by (auto simp: nth_list_update)
  moreover have "\<forall>r \<in> set (rems[b := -1]). r < T"
    using Suc.prems(3,4) set_update_subset_insert [of rems b "-1"] by fastforce
  moreover have "int n * T \<le> pos_sum (rems[b := -1])"
  proof -
    have "rems ! b < T" using Suc.prems(3) b(2) by simp
    moreover have "int (Suc n) * T = int n * T + T" by (simp add: distrib_right)
    ultimately show ?thesis using Suc.prems(5) pos b(2) by (simp add: pos_sum_update)
  qed
  ultimately obtain ws rems' where
    "dist_int n (vs[b := vs ! b + 1]) (rems[b := -1]) = Inr ws" "raised qs rems0 ws rems'"
    "sum_list ws = sum_list (vs[b := vs ! b + 1]) + int n"
    using Suc.IH Suc.prems(2,4) by blast
  moreover have "sum_list (vs[b := vs ! b + 1]) = sum_list vs + 1"
    using b(2) len by (simp add: sum_list_update_int)
  ultimately show ?case using b(1) by auto
qed auto

lemma sum_list_div_mod:
  fixes T :: int
  assumes "0 < T"
  shows "sum_list (map f xs) = T * sum_list (map (\<lambda>x. f x div T) xs) + sum_list (map (\<lambda>x. f x mod T) xs)"
  by (induction xs) (simp_all add: distrib_left)

lemma sum_list_const_mult: "sum_list (map (\<lambda>x. c * f x) xs) = c * sum_list (map f xs)" for c :: int
  by (induction xs) (simp_all add: distrib_left)

lemma sum_list_mod_less:
  fixes T :: int
  assumes "0 < T" "xs \<noteq> []"
  shows "sum_list (map (\<lambda>x. f x mod T) xs) < int (length xs) * T"
  using assms(2)
proof (induction xs)
  case (Cons x xs)
  have "f x mod T < T" using assms(1) by simp
  with Cons show ?case by (cases "xs = []") (auto simp: distrib_right)
qed simp

lemma pos_sum_nonneg: "\<forall>r \<in> set rs. 0 \<le> r \<Longrightarrow> pos_sum rs = sum_list rs"
  by (induction rs) (auto simp: pos_sum_def)

lemma member_le_sum_list_pos: "r \<in> set rs \<Longrightarrow> \<forall>x \<in> set rs. 0 \<le> f x \<Longrightarrow> f r \<le> sum_list (map f rs)"
  for f :: "'a \<Rightarrow> int"
proof (induction rs)
  case (Cons x xs)
  have "0 \<le> sum_list (map f xs)" using Cons.prems(2) by (intro sum_list_nonneg) auto
  with Cons show ?case by auto
qed simp

text \<open>
  The integer loop, run on the floors and remainders of the proportional shares of \<open>A\<close>,
  returns shares that add up to \<open>A\<close>, lie between 0 and \<open>A\<close> and are less than one unit
  off the exact proportion.
\<close>

lemma dist_int_shares:
  fixes f :: "'a \<Rightarrow> int"
  assumes ne: "rs \<noteq> []" and pos: "\<forall>r \<in> set rs. 0 < f r" and A: "0 \<le> A"
  defines "T \<equiv> sum_list (map f rs)"
  defines "qs \<equiv> map (\<lambda>r. A * f r div T) rs" and "rems \<equiv> map (\<lambda>r. A * f r mod T) rs"
  shows "0 \<le> A - sum_list qs \<and> A - sum_list qs < int (length rs)"
    and "\<exists>ws. dist_int (nat (A - sum_list qs)) qs rems = Inr ws \<and> length ws = length rs
           \<and> sum_list ws = A \<and> (\<forall>i < length rs. 0 \<le> ws ! i \<and> ws ! i \<le> A
               \<and> \<bar>ws ! i * T - A * f (rs ! i)\<bar> < T)"
proof -
  obtain r0 where r0: "r0 \<in> set rs" using ne by (cases rs) auto
  have fle: "f r \<le> T" if "r \<in> set rs" for r
    unfolding T_def using that pos by (intro member_le_sum_list_pos) auto
  have T: "0 < T" using fle [OF r0] pos r0 by force
  have split: "A * T = T * sum_list qs + sum_list rems"
    using sum_list_div_mod [OF T, of "\<lambda>r. A * f r" rs]
    unfolding qs_def rems_def T_def sum_list_const_mult by simp
  then have L: "(A - sum_list qs) * T = sum_list rems" by (simp add: algebra_simps)
  have rems_nn: "\<forall>r \<in> set rems. 0 \<le> r" and rems_lt: "\<forall>r \<in> set rems. r < T"
    using T by (auto simp: rems_def)
  have "0 \<le> sum_list rems" using rems_nn by (intro sum_list_nonneg) auto
  moreover have "sum_list rems < int (length rs) * T"
    unfolding rems_def by (rule sum_list_mod_less [OF T ne])
  ultimately show bnd: "0 \<le> A - sum_list qs \<and> A - sum_list qs < int (length rs)"
    using T unfolding L [symmetric] by (simp add: zero_le_mult_iff mult_less_cancel_right)
  have "raised qs rems qs rems" by (auto simp: raised_def qs_def rems_def)
  moreover have "int (nat (A - sum_list qs)) * T \<le> pos_sum rems"
    using bnd L by (simp add: pos_sum_nonneg [OF rems_nn])
  moreover have "qs \<noteq> []" using ne by (simp add: qs_def)
  ultimately obtain ws rems' where ws: "dist_int (nat (A - sum_list qs)) qs rems = Inr ws"
    "raised qs rems ws rems'" "sum_list ws = sum_list qs + int (nat (A - sum_list qs))"
    using dist_int_correct [of qs rems qs rems T] rems_lt T by blast
  have "0 \<le> ws ! i \<and> ws ! i \<le> A \<and> \<bar>ws ! i * T - A * f (rs ! i)\<bar> < T" if i: "i < length rs" for i
  proof -
    define x where "x = A * f (rs ! i)"
    have fi: "0 < f (rs ! i)" "f (rs ! i) \<le> T" using pos fle i by simp_all
    then have x: "0 \<le> x" "x \<le> A * T" using A by (simp_all add: x_def mult_left_mono)
    have dm: "x div T * T = x - x mod T" "0 \<le> x mod T" "x mod T < T"
      using T by (simp_all add: minus_mod_eq_div_mult)
    have q: "0 \<le> x div T" "x div T \<le> A"
      using x T zdiv_mono1 [OF x(2) T] by (simp_all add: pos_imp_zdiv_nonneg_iff)
    have q1: "x div T + 1 \<le> A" if "0 < x mod T"
    proof -
      have "x div T * T < A * T" using dm(1) that x(2) by linarith
      then show ?thesis using T by (simp add: mult_less_cancel_right)
    qed
    have "ws ! i = x div T \<or> (0 < x mod T \<and> ws ! i = x div T + 1)"
      using ws(2) i unfolding raised_def by (auto simp: qs_def rems_def x_def)
    then show ?thesis unfolding x_def [symmetric]
      using q q1 dm(2,3) by (auto simp: distrib_right abs_less_iff dm(1))
  qed
  moreover have "length ws = length rs" using ws(2) by (simp add: raised_def qs_def)
  ultimately show "\<exists>ws. dist_int (nat (A - sum_list qs)) qs rems = Inr ws \<and> length ws = length rs
           \<and> sum_list ws = A \<and> (\<forall>i < length rs. 0 \<le> ws ! i \<and> ws ! i \<le> A
               \<and> \<bar>ws ! i * T - A * f (rs ! i)\<bar> < T)"
    using ws bnd by auto
qed

lemma sint_signed_share:
  fixes v :: int
  assumes "0 \<le> v" "v \<le> \<bar>sint (a :: i64)\<bar>"
  shows "sint (if sint a < 0 then - (word_of_int v) else word_of_int v :: i64) = (if sint a < 0 then - v else v)"
proof (cases "sint a < 0")
  case True
  have "- (word_of_int v) = (word_of_int (- v) :: i64)" by simp
  moreover have "in_i64 (- v)" using assms True sint_bounds [of a] by (simp add: in_i64_def)
  ultimately show ?thesis using True by (simp only: sint_of_int_i64 if_True)
next
  case False
  have "in_i64 v" using assms False sint_bounds [of a] by (simp add: in_i64_def)
  then show ?thesis using False by (simp add: sint_of_int_i64)
qed

lemma sum_list_signed:
  "sum_list (map (\<lambda>v. if n then - v else v) ws) = (if n then - sum_list ws else sum_list ws)"
  for ws :: "int list"
  by (induction ws) auto

lemma AllocateByRatio_run:
  assumes m: "IsSet m" and ne: "ratios \<noteq> []" and pos: "\<forall>r \<in> set ratios. 0 < sint r"
    and len: "length ratios < 2 ^ 63"
  obtains ws where
    "AllocateByRatio m ratios = Inr (map (\<lambda>v. \<lparr>amount = (if sint (amount m) < 0 then - (word_of_int v)
        else word_of_int v), currency = currency m\<rparr>) ws)"
    "length ws = length ratios" "sum_list ws = \<bar>sint (amount m)\<bar>"
    "\<forall>i < length ratios. 0 \<le> ws ! i \<and> ws ! i \<le> \<bar>sint (amount m)\<bar>
       \<and> \<bar>ws ! i * sum_list (map sint ratios) - \<bar>sint (amount m)\<bar> * sint (ratios ! i)\<bar>
          < sum_list (map sint ratios)"
proof -
  define A where "A = \<bar>sint (amount m)\<bar>"
  define T where "T = sum_list (map sint ratios)"
  define qs where "qs = map (\<lambda>r. A * sint r div T) ratios"
  define rems where "rems = map (\<lambda>r. A * sint r mod T) ratios"
  have A: "0 \<le> A" by (simp add: A_def)
  have T: "0 < T"
  proof -
    obtain r where r: "r \<in> set ratios" using ne by (cases ratios) auto
    then have "sint r \<le> T" unfolding T_def using pos by (intro member_le_sum_list_pos) auto
    with r pos show ?thesis by force
  qed
  have nn: "0 \<le> A * sint r" if "r \<in> set ratios" for r using A pos that by force
  have qeq: "map (\<lambda>r. quo (A * sint r) T) ratios = qs"
    using nn T by (auto simp: qs_def quo_nonneg)
  have req: "map (\<lambda>r. rmd (A * sint r) T) ratios = rems"
    using nn T by (auto simp: rems_def rmd_def quo_nonneg minus_div_mult_eq_mod)
  note sh = dist_int_shares [OF ne pos A, folded T_def, folded qs_def rems_def]
  then obtain ws where ws: "dist_int (nat (A - sum_list qs)) qs rems = Inr ws"
    "length ws = length ratios" "sum_list ws = A"
    "\<forall>i < length ratios. 0 \<le> ws ! i \<and> ws ! i \<le> A \<and> \<bar>ws ! i * T - A * sint (ratios ! i)\<bar> < T"
    by blast
  have "int (length ratios) < 2 ^ 63" using len by simp
  then have lo: "sint (word_of_int (A - sum_list qs) :: i64) = A - sum_list qs"
    using sh(1) by (intro sint_of_int_i64) (simp add: in_i64_def)
  have "distribute (nat (A - sum_list qs)) (map word_of_int qs) rems = Inr (map word_of_int ws)"
    using distribute_dist_int [of qs rems] ws(1) ne by (simp add: qs_def rems_def)
  then have "AllocateByRatio m ratios = Inr (map (\<lambda>v. \<lparr>amount = (if sint (amount m) < 0
      then - (word_of_int v) else word_of_int v), currency = currency m\<rparr>) ws)"
    unfolding AllocateByRatio_def Let_def A_def [symmetric] T_def [symmetric] qeq req lo
    using m ne pos by (auto simp: not_le o_def)
  then show ?thesis using that ws unfolding A_def T_def by blast
qed

section \<open>Exact operations as an interface\<close>

text \<open>
  What the components above rely on: a money operation that returns, returns the exact
  integer result in the common currency of its arguments; it never wraps and never mixes
  currencies.
\<close>

locale exact_op =
  fixes opr :: "money \<Rightarrow> money \<Rightarrow> err + money" and f :: "int \<Rightarrow> int \<Rightarrow> int"
  assumes exact: "opr m p = Inr r \<Longrightarrow> IsSet m \<and> IsSet p \<and> currency m = currency p
    \<and> currency r = currency m \<and> sint (amount r) = f (sint (amount m)) (sint (amount p))"
    and unset_fails: "\<not> IsSet m \<or> \<not> IsSet p \<Longrightarrow> opr m p = Inl ErrMoneyUnset"
begin

lemma result_set: "opr m p = Inr r \<Longrightarrow> IsSet r"
  using exact [of m p r] by (simp add: IsSet_def)

lemma no_currency_mixing: "currency m \<noteq> currency p \<Longrightarrow> opr m p \<noteq> Inr r"
  using exact [of m p r] by auto

text \<open>Two operations in sequence compose their integer meanings.\<close>

lemma chain:
  "opr m p = Inr r \<Longrightarrow> opr r q = Inr s \<Longrightarrow>
   sint (amount s) = f (f (sint (amount m)) (sint (amount p))) (sint (amount q)) \<and> currency s = currency m"
  using exact [of m p r] exact [of r q s] by simp

end

interpretation add: exact_op Add "(+)"
proof
  show "Add m p = Inr r \<Longrightarrow> IsSet m \<and> IsSet p \<and> currency m = currency p
    \<and> currency r = currency m \<and> sint (amount r) = sint (amount m) + sint (amount p)" for m p r
    by (auto simp: Add_Inr sint_add_i64)
  show "\<not> IsSet m \<or> \<not> IsSet p \<Longrightarrow> Add m p = Inl ErrMoneyUnset" for m p
    by (auto simp: Add_eq sameCurrency_def)
qed

interpretation sub: exact_op Sub "(-)"
proof
  show "Sub m p = Inr r \<Longrightarrow> IsSet m \<and> IsSet p \<and> currency m = currency p
    \<and> currency r = currency m \<and> sint (amount r) = sint (amount m) - sint (amount p)" for m p r
    by (auto simp: Sub_Inr sint_diff_i64)
  show "\<not> IsSet m \<or> \<not> IsSet p \<Longrightarrow> Sub m p = Inl ErrMoneyUnset" for m p
    by (auto simp: Sub_def sameCurrency_def)
qed

section \<open>Properties\<close>

text \<open>\<^verbatim>\<open>Money.Add\<close> on two set amounts of one currency is integer addition when the
  sum fits 64 bits and \<open>ErrMoneyOverflow\<close> otherwise: the sign test never misses a wrap and
  never refuses a representable sum.\<close>

theorem Add_exact:
  assumes "IsSet m" "IsSet p" "currency m = currency p"
  shows "Add m p = (if in_i64 (sint (amount m) + sint (amount p))
     then Inr \<lparr>amount = word_of_int (sint (amount m) + sint (amount p)), currency = currency m\<rparr>
     else Inl ErrMoneyOverflow)"
  using assms unfolding Add_eq word_of_int_sint_add [symmetric] by simp

theorem Add_exact_witness:
  "Add \<lparr>amount = 7, currency = ''NGN''\<rparr> \<lparr>amount = 5, currency = ''NGN''\<rparr>
     = Inr \<lparr>amount = 12, currency = ''NGN''\<rparr>
   \<and> Add \<lparr>amount = 9223372036854775807, currency = ''NGN''\<rparr> \<lparr>amount = 1, currency = ''NGN''\<rparr>
     = Inl ErrMoneyOverflow"
  using Add_exact [of "\<lparr>amount = 7, currency = ''NGN''\<rparr>" "\<lparr>amount = 5, currency = ''NGN''\<rparr>"]
    Add_exact [of "\<lparr>amount = 9223372036854775807, currency = ''NGN''\<rparr>" "\<lparr>amount = 1, currency = ''NGN''\<rparr>"]
  by (simp add: in_i64_def)

text \<open>\<^verbatim>\<open>Money.MulInt\<close> is integer multiplication when the product fits 64 bits and
  \<open>ErrMoneyOverflow\<close> otherwise; the test \<^verbatim>\<open>p/n != m.amount\<close> after the wrapping product and
  the special case of the most negative amount times minus one together detect every
  overflow.\<close>

theorem MulInt_exact:
  assumes "IsSet m"
  shows "MulInt m n = (if in_i64 (sint (amount m) * sint n)
     then Inr \<lparr>amount = word_of_int (sint (amount m) * sint n), currency = currency m\<rparr>
     else Inl ErrMoneyOverflow)"
proof (cases "amount m = 0 \<or> n = 0")
  case True
  with assms show ?thesis by (auto simp: MulInt_def in_i64_def)
next
  case False
  show ?thesis
  proof (cases "sint (amount m) = - (2 ^ 63) \<and> sint n = -1")
    case True
    with False assms show ?thesis by (simp add: MulInt_def in_i64_def)
  next
    case nt: False
    from mul_quo_test [OF _ nt] False assms nt show ?thesis
      unfolding MulInt_def Let_def word_of_int_sint_mult [symmetric] by auto
  qed
qed

theorem MulInt_exact_witness:
  "MulInt \<lparr>amount = 300, currency = ''NGN''\<rparr> 4 = Inr \<lparr>amount = 1200, currency = ''NGN''\<rparr>"
  using MulInt_exact [of "\<lparr>amount = 300, currency = ''NGN''\<rparr>" 4] by (simp add: in_i64_def)

text \<open>\<^verbatim>\<open>Money.PercentBps\<close>, the one rounding site, rounds the exact quotient
  \<open>amount * bps / 10000\<close> half away from zero (closed form), is never more than half a minor
  unit off, and refuses exactly the results outside 64 bits.\<close>

theorem PercentBps_half_up:
  assumes "IsSet m"
  shows "PercentBps m bps =
      (let v = sgn (sint (amount m) * sint bps) * ((2 * \<bar>sint (amount m) * sint bps\<bar> + 10000) div 20000)
       in if in_i64 v then Inr \<lparr>amount = word_of_int v, currency = currency m\<rparr> else Inl ErrMoneyOverflow)
    \<and> (\<forall>r. PercentBps m bps = Inr r \<longrightarrow>
          2 * \<bar>sint (amount r) * 10000 - sint (amount m) * sint bps\<bar> \<le> 10000)"
  using assms half_up_bound [of "sint (amount m) * sint bps"]
  by (auto simp: PercentBps_eq half_up_def [symmetric] Let_def sint_of_int_i64 split: if_splits)

theorem PercentBps_half_up_witness:
  "PercentBps \<lparr>amount = 12345, currency = ''NGN''\<rparr> 1000 = Inr \<lparr>amount = 1235, currency = ''NGN''\<rparr>
   \<and> 2 * \<bar>sint (1235 :: i64) * 10000 - sint (12345 :: i64) * sint (1000 :: i64)\<bar> \<le> 10000"
  using PercentBps_half_up [of "\<lparr>amount = 12345, currency = ''NGN''\<rparr>" 1000]
  by (simp add: in_i64_def)

text \<open>C10: \<^verbatim>\<open>Money.AllocateByRatio\<close> with positive ratios always returns (its leftover loop
  terminates without indexing out of range), one part per ratio in the same currency; the
  parts add up to the amount exactly and every part is less than one minor unit away from its
  exact proportional share. (A Go slice is shorter than \<open>2 ^ 63\<close>.)\<close>

theorem AllocateByRatio_exact:
  assumes "IsSet m" "ratios \<noteq> []" "\<forall>r \<in> set ratios. 0 < sint r" "length ratios < 2 ^ 63"
  shows "\<exists>parts. AllocateByRatio m ratios = Inr parts \<and> length parts = length ratios
    \<and> (\<forall>p \<in> set parts. currency p = currency m)
    \<and> sum_list (map (\<lambda>p. sint (amount p)) parts) = sint (amount m)
    \<and> (\<forall>i < length ratios. \<bar>sint (amount (parts ! i)) * sum_list (map sint ratios)
          - sint (amount m) * sint (ratios ! i)\<bar> < sum_list (map sint ratios))"
proof -
  let ?neg = "sint (amount m) < 0" and ?T = "sum_list (map sint ratios)"
  let ?mk = "\<lambda>v. \<lparr>amount = (if ?neg then - (word_of_int v) else word_of_int v), currency = currency m\<rparr>"
  obtain ws where ws: "AllocateByRatio m ratios = Inr (map ?mk ws)" "length ws = length ratios"
    "sum_list ws = \<bar>sint (amount m)\<bar>"
    "\<forall>i < length ratios. 0 \<le> ws ! i \<and> ws ! i \<le> \<bar>sint (amount m)\<bar>
       \<and> \<bar>ws ! i * ?T - \<bar>sint (amount m)\<bar> * sint (ratios ! i)\<bar> < ?T"
    using AllocateByRatio_run [OF assms] by blast
  have val: "sint (amount (?mk v)) = (if ?neg then - v else v)" if "v \<in> set ws" for v
    using ws(2,4) that by (metis in_set_conv_nth money.select_convs(1) sint_signed_share)
  then have "map (\<lambda>p. sint (amount p)) (map ?mk ws) = map (\<lambda>v. if ?neg then - v else v) ws"
    by (simp del: money.select_convs)
  then have "sum_list (map (\<lambda>p. sint (amount p)) (map ?mk ws)) = sint (amount m)"
    using ws(3) by (simp only: sum_list_signed) simp
  moreover have "\<bar>sint (amount (map ?mk ws ! i)) * ?T - sint (amount m) * sint (ratios ! i)\<bar> < ?T"
    if i: "i < length ratios" for i
  proof -
    have v: "sint (amount (map ?mk ws ! i)) = (if ?neg then - (ws ! i) else ws ! i)"
      using val [of "ws ! i"] i ws(2) by (simp del: money.select_convs)
    show ?thesis
    proof (cases ?neg)
      case True
      then show ?thesis unfolding v using ws(4) i by (simp add: abs_less_iff add.commute)
    next
      case False
      then show ?thesis unfolding v using ws(4) i by simp
    qed
  qed
  ultimately show ?thesis using ws(1,2) by auto
qed

theorem AllocateByRatio_exact_witness:
  "\<exists>parts. AllocateByRatio \<lparr>amount = 100, currency = ''NGN''\<rparr> [1, 1, 1] = Inr parts
    \<and> sum_list (map (\<lambda>p. sint (amount p)) parts) = 100"
  using AllocateByRatio_exact [of "\<lparr>amount = 100, currency = ''NGN''\<rparr>" "[1, 1, 1]"] by auto

text \<open>the wire form round-trips: what \<^verbatim>\<open>MarshalJSON\<close> emits for a constructed amount,
  \<^verbatim>\<open>UnmarshalJSON\<close> reads back as the same amount, and nothing is emitted for the unset value.\<close>

theorem money_json_roundtrip:
  "(NewMoney a c = Inr m \<longrightarrow> andThen (MarshalJSON m) UnmarshalJSON = Inr m)
   \<and> MarshalJSON unset = Inl ErrMoneyUnset"
  by (auto simp: MarshalJSON_def UnmarshalJSON_def NewMoney_Inr unset_def dest: Valid_nonempty)

theorem money_json_roundtrip_witness:
  "andThen (MarshalJSON \<lparr>amount = 5, currency = ''NGN''\<rparr>) UnmarshalJSON
     = Inr \<lparr>amount = 5, currency = ''NGN''\<rparr>"
  using money_json_roundtrip [of 5 "''NGN''" "\<lparr>amount = 5, currency = ''NGN''\<rparr>"]
  by (simp add: NewMoney_Inr Valid_def)

end
