(* ===== verification/Credit.thy ===== *)
theory Credit
  imports Money
begin

text \<open>
  The credit-core domain types of \<^verbatim>\<open>entity/credit.go\<close>: the advance state machine as its
  transition table, the aggregates as records, and the state enumerations. The lemmas
  describe the runs of the table as a graph: which states are terminal, which ways lead out
  of a closed advance, and what a written-off advance can never become again.
\<close>

section \<open>Advance states\<close>

datatype AdvanceState =
    AdvRequested | AdvValidated | AdvExposureReserved | AdvPendingFulfilment | AdvFulfilmentUnknown
  | AdvActive | AdvPartiallyRecovered | AdvClosed | AdvFulfilmentFailed | AdvDeclined | AdvWrittenOff

fun advanceTransitions :: "AdvanceState \<Rightarrow> AdvanceState list" where
  "advanceTransitions AdvRequested = [AdvValidated, AdvDeclined]"
| "advanceTransitions AdvValidated = [AdvExposureReserved, AdvDeclined]"
| "advanceTransitions AdvExposureReserved = [AdvPendingFulfilment, AdvDeclined]"
| "advanceTransitions AdvPendingFulfilment = [AdvActive, AdvFulfilmentFailed, AdvFulfilmentUnknown]"
| "advanceTransitions AdvFulfilmentUnknown = [AdvActive, AdvFulfilmentFailed]"
| "advanceTransitions AdvActive = [AdvPartiallyRecovered, AdvClosed, AdvWrittenOff]"
| "advanceTransitions AdvPartiallyRecovered = [AdvPartiallyRecovered, AdvClosed, AdvWrittenOff]"
| "advanceTransitions AdvClosed = [AdvPartiallyRecovered]"
| "advanceTransitions _ = []"

definition CanTransition :: "AdvanceState \<Rightarrow> AdvanceState \<Rightarrow> bool" where
  "CanTransition frm to \<longleftrightarrow> to \<in> set (advanceTransitions frm)"

definition AdvanceStates :: "AdvanceState list" where
  "AdvanceStates = [AdvRequested, AdvValidated, AdvExposureReserved, AdvPendingFulfilment,
     AdvFulfilmentUnknown, AdvActive, AdvPartiallyRecovered, AdvClosed,
     AdvFulfilmentFailed, AdvDeclined, AdvWrittenOff]"

definition OpenAdvanceStates :: "AdvanceState list" where
  "OpenAdvanceStates = [AdvRequested, AdvValidated, AdvExposureReserved, AdvPendingFulfilment,
     AdvFulfilmentUnknown, AdvActive, AdvPartiallyRecovered]"

section \<open>Aggregates\<close>

record SubscriberAccount =
  sub_id :: string
  sub_telco :: string
  sub_token :: string
  sub_status :: string
  sub_nin :: "bool option"
  sub_from :: int
  sub_to :: "int option"

datatype FeeModel = FeeDeductedUpfront | FeeAddedToRepayment | FeeModelOther string

definition FeeRecognitionUpfront :: string where
  "FeeRecognitionUpfront = ''UPFRONT''"

definition FeeRecognitionDeferred :: string where
  "FeeRecognitionDeferred = ''DEFERRED''"

datatype OfferState = OfferGenerated | OfferAccepted | OfferExpired | OfferWithdrawn | OfferSuperseded

record Offer =
  OfferID :: string
  OffTelcoID :: string
  OffProgrammeID :: string
  OffSubscriberID :: string
  DecisionSnapshotID :: string
  OffFaceValue :: money
  OffFee :: money
  OffDisbursed :: money
  Repayment :: money
  OffFeeModel :: FeeModel
  ProductConfigVersionID :: string
  OffState :: OfferState
  OffExpiresAt :: int

record DecisionSnapshot =
  DecID :: string
  DecTelcoID :: string
  DecSubscriberID :: string
  MaxFaceValue :: money
  IsCurrent :: bool
  DecConfigVersionID :: string
  TierCode :: string
  ScoringRunID :: string
  ValidUntil :: "int option"

record DisclosureSnapshot =
  DisclosureSnapshotID :: string
  DscTelcoID :: string
  DscProgrammeID :: string
  DscOfferID :: string
  TemplateID :: string
  TemplateVersion :: string
  Locale :: string
  DisclosureConfigVersionID :: string
  DscCurrency :: string
  DscFaceValue :: money
  DscFee :: money
  DscDisbursed :: money
  DscRepayment :: money
  RenderedBody :: string
  TotalCostText :: string
  ContentHash :: string
  IssuedAt :: int
  DscExpiresAt :: int

text \<open>An advance as the repositories read and write it (\<^verbatim>\<open>entity.Advance\<close>).\<close>

record Advance =
  AdvanceID :: string
  AdvTelcoID :: string
  AdvProgrammeID :: string
  AdvSubscriberID :: string
  AdvOfferID :: string
  FundingPoolID :: string
  IdempotencyKey :: string
  AdvCorrelationID :: string
  State :: AdvanceState
  Version :: int
  FaceValue :: money
  Fee :: money
  Disbursed :: money
  Outstanding :: money
  FeeRecognition :: string
  AcceptedAt :: int
  ActivatedAt :: "int option"
  ClosedAt :: "int option"
  UpdatedAt :: int

datatype FulfilmentAttemptState = AttemptSent | AttemptConfirmed | AttemptFailed | AttemptUnknown

record FulfilmentAttempt =
  AttemptID :: string
  AtpAdvanceID :: string
  AttemptNo :: int
  TelcoIdempotencyKey :: string
  AtpState :: FulfilmentAttemptState
  TelcoReference :: string
  SubmittedAt :: int
  NextEnquiryAt :: "int option"
  EnquiryCount :: int
  ResolvedAt :: "int option"

datatype RecoveryEventState =
  RecoveryPending | RecoveryAllocated | RecoveryQuarantined | RecoveryUnmatched | RecoveryReversed

record RecoveryEvent =
  RecoveryEventID :: string
  EvtTelcoID :: string
  SourceEventID :: string
  EvtSubscriberID :: string
  EvtMSISDNToken :: string
  EvtAmount :: money
  EvtState :: RecoveryEventState
  OccurredAt :: int

datatype AllocationComponent = ComponentFee | ComponentPrincipal | ComponentWriteoffIncome

record RecoveryAllocation =
  AllocationID :: string
  AlcEventID :: string
  AlcAdvanceID :: string
  Component :: AllocationComponent
  AlcAmount :: money

record FundingPool =
  PoolID :: string
  PoolProgrammeID :: string
  PoolTelcoID :: string
  PoolCurrency :: string
  Committed :: money
  Reserved :: money
  Utilised :: money
  PoolStatus :: string

section \<open>Runs of the advance machine\<close>

text \<open>A step of the machine is a move the table allows; a run is a sequence of steps.\<close>

inductive adv_run :: "AdvanceState \<Rightarrow> AdvanceState \<Rightarrow> bool" where
  run_refl: "adv_run s s"
| run_step: "adv_run s t \<Longrightarrow> CanTransition t u \<Longrightarrow> adv_run s u"

lemma all_states: "s \<in> set AdvanceStates"
  by (cases s) (simp_all add: AdvanceStates_def)

lemma CanTransition_simps [simp]:
  "CanTransition AdvWrittenOff s \<longleftrightarrow> False"
  "CanTransition AdvDeclined s \<longleftrightarrow> False"
  "CanTransition AdvFulfilmentFailed s \<longleftrightarrow> False"
  "CanTransition AdvClosed s \<longleftrightarrow> s = AdvPartiallyRecovered"
  "CanTransition AdvActive AdvClosed" "CanTransition AdvActive AdvPartiallyRecovered"
  "CanTransition AdvActive AdvWrittenOff"
  "CanTransition AdvPartiallyRecovered AdvClosed" "CanTransition AdvPartiallyRecovered AdvPartiallyRecovered"
  "CanTransition AdvPartiallyRecovered AdvWrittenOff"
  by (simp_all add: CanTransition_def)

text \<open>The states on the money-bearing side, which no run leaves.\<close>

definition booked :: "AdvanceState \<Rightarrow> bool" where
  "booked s \<longleftrightarrow> s \<in> {AdvActive, AdvPartiallyRecovered, AdvClosed, AdvWrittenOff}"

lemma booked_step: "booked s \<Longrightarrow> CanTransition s t \<Longrightarrow> booked t"
  by (cases s) (auto simp: booked_def CanTransition_def)

lemma booked_run: "adv_run s t \<Longrightarrow> booked s \<Longrightarrow> booked t"
  by (induction rule: adv_run.induct) (auto intro: booked_step)

lemma terminal_run:
  "adv_run s t \<Longrightarrow> s \<in> {AdvFulfilmentFailed, AdvDeclined, AdvWrittenOff} \<Longrightarrow> t = s"
  by (induction rule: adv_run.induct) auto

text \<open>Without a reversal (the one move out of \<open>AdvClosed\<close>), an advance only moves forward.\<close>

fun rank :: "AdvanceState \<Rightarrow> nat" where
  "rank AdvRequested = 0" | "rank AdvValidated = 1" | "rank AdvExposureReserved = 2"
| "rank AdvPendingFulfilment = 3" | "rank AdvFulfilmentUnknown = 4" | "rank AdvActive = 5"
| "rank AdvPartiallyRecovered = 6" | "rank _ = 7"

lemma rank_step:
  "CanTransition s t \<Longrightarrow> s \<noteq> AdvClosed \<Longrightarrow> rank s \<le> rank t \<and> (rank s = rank t \<longrightarrow> s = t)"
  by (cases s) (auto simp: CanTransition_def)

text \<open>the advance table of \<^verbatim>\<open>credit.go\<close> (V2-ADV-008). \<open>FULFILMENT_FAILED\<close>, \<open>DECLINED\<close> and
  \<open>WRITTEN_OFF\<close> are terminal for every run; once an advance is active it stays among the booked
  states; the only move out of \<open>CLOSED\<close> is the reversal move to \<open>PARTIALLY_RECOVERED\<close>; a run never
  reaches \<open>ACTIVE\<close> again from \<open>PARTIALLY_RECOVERED\<close>.\<close>

theorem advance_fsm_runs:
  "(adv_run s t \<and> s \<in> {AdvFulfilmentFailed, AdvDeclined, AdvWrittenOff} \<longrightarrow> t = s)
   \<and> (adv_run AdvActive t \<longrightarrow> t \<in> {AdvActive, AdvPartiallyRecovered, AdvClosed, AdvWrittenOff})
   \<and> (CanTransition AdvClosed t \<longleftrightarrow> t = AdvPartiallyRecovered)
   \<and> \<not> adv_run AdvPartiallyRecovered AdvActive
   \<and> (s \<in> set OpenAdvanceStates \<longleftrightarrow>
        s \<notin> {AdvClosed, AdvFulfilmentFailed, AdvDeclined, AdvWrittenOff})"
proof -
  have no_back: "adv_run x y \<Longrightarrow> x = AdvPartiallyRecovered \<Longrightarrow>
      y \<in> {AdvPartiallyRecovered, AdvClosed, AdvWrittenOff}" for x y
    by (induction rule: adv_run.induct) (auto simp: CanTransition_def)
  have "t \<in> {AdvActive, AdvPartiallyRecovered, AdvClosed, AdvWrittenOff}" if "adv_run AdvActive t"
    using booked_run [OF that] by (simp add: booked_def)
  moreover have "\<not> adv_run AdvPartiallyRecovered AdvActive" using no_back by blast
  moreover have "s \<in> set OpenAdvanceStates \<longleftrightarrow>
        s \<notin> {AdvClosed, AdvFulfilmentFailed, AdvDeclined, AdvWrittenOff}"
    by (cases s) (simp_all add: OpenAdvanceStates_def)
  ultimately show ?thesis using terminal_run by auto
qed

theorem advance_fsm_runs_witness:
  "adv_run AdvWrittenOff AdvWrittenOff \<and> adv_run AdvActive AdvClosed
   \<and> AdvClosed \<in> {AdvActive, AdvPartiallyRecovered, AdvClosed, AdvWrittenOff}"
proof -
  have "adv_run AdvActive AdvClosed" by (rule run_step [OF run_refl]) simp
  then show ?thesis
    using advance_fsm_runs [of AdvWrittenOff AdvClosed] run_refl by blast
qed

end
