(* ===== verification/Store.thy ===== *)
theory Store
  imports Credit
begin

text \<open>
  The database as the repositories see it: one list of rows per table, with the columns the
  code reads and writes and the constraints the schema (\<^verbatim>\<open>migrations/\<close>) enforces. A
  statement that violates a constraint is an error value with PostgreSQL's code and the
  constraint's name. Row-level security is the visibility of the rows of the session's
  telco. A transaction is a function from the database to an error or a result with the new
  database: an error leaves the old database, which is the rollback.
\<close>

section \<open>JSON values\<close>

datatype json = JStr string | JNum i64 | JBool bool | JArr "json list" | JObj "(string \<times> json) list"

fun jget :: "string \<Rightarrow> json \<Rightarrow> json option" where
  "jget k (JObj kvs) = map_of kvs k"
| "jget k _ = None"

section \<open>The platform\<close>

text \<open>
  What the code takes from outside: the clock (instants are microseconds since the epoch, the
  resolution of the database), the telco the transaction is bound to
  (\<^verbatim>\<open>app.telco_id\<close>, which drives row-level security), the ULID source (third-party package),
  SHA-256 in hexadecimal, JSON marshalling and decoding, the reading
  of a text into a JSONB column (\<open>None\<close> for a text the database rejects), the rendering of an instant the text of an
  error and Go's quoting of a text. A Go context is, for this code, the telco it
  carries, the empty string when it carries none.
\<close>

record env =
  now :: int
  tenant :: string
  new_id :: "string \<Rightarrow> nat \<Rightarrow> string"
  sha_hex :: "string \<Rightarrow> string"
  marshal :: "json \<Rightarrow> string"
  rfc3339nano :: "int \<Rightarrow> string"
  json_decode :: "string \<Rightarrow> json option"
  jsonb_in :: "string \<Rightarrow> json option"
  err_text :: "err \<Rightarrow> string"
  quoted :: "string \<Rightarrow> string"

type_synonym ctx = string

definition TenantFrom :: "ctx \<Rightarrow> err + string" where
  "TenantFrom c = (if c = '''' then Inl (Fmt ''no tenant context'') else Inr c)"

section \<open>Rows\<close>

record advance_row =
  a_id :: string
  a_telco :: string
  a_prog :: string
  a_sub :: string
  a_offer :: string
  a_pool :: "string option"
  a_idem :: string
  a_corr :: string
  a_state :: AdvanceState
  a_version :: int
  a_face :: i64
  a_fee :: i64
  a_disb :: i64
  a_out :: i64
  a_cur :: string
  a_accepted :: int
  a_activated :: "int option"
  a_closed :: "int option"
  a_updated :: int
  a_feerec :: "string option"
  a_bucket :: "string option"
  a_bucket_asof :: "int option"

record decision_row =
  d_id :: string
  d_telco :: string
  d_sub :: string
  d_max :: i64
  d_cur :: string
  d_current :: bool
  d_config :: string
  d_tier :: string
  d_run :: "string option"
  d_until :: "int option"

record offer_row =
  o_id :: string
  o_telco :: string
  o_prog :: string
  o_sub :: string
  o_dec :: string
  o_face :: i64
  o_fee :: i64
  o_disb :: i64
  o_rep :: i64
  o_cur :: string
  o_model :: FeeModel
  o_config :: string
  o_state :: OfferState
  o_expires :: int

record disclosure_row =
  ds_id :: string
  ds_telco :: string
  ds_prog :: string
  ds_offer :: string
  ds_tmpl :: string
  ds_tver :: string
  ds_locale :: string
  ds_config :: string
  ds_cur :: string
  ds_face :: i64
  ds_fee :: i64
  ds_disb :: i64
  ds_rep :: i64
  ds_body :: string
  ds_cost :: string
  ds_hash :: string
  ds_issued :: int
  ds_expires :: int

record attempt_row =
  at_id :: string
  at_adv :: string
  at_no :: int
  at_key :: string
  at_state :: FulfilmentAttemptState
  at_ref :: "string option"
  at_evidence :: json
  at_response :: "json option"
  at_submitted :: int
  at_next :: "int option"
  at_count :: int
  at_resolved :: "int option"

record pool_row =
  p_id :: string
  p_prog :: string
  p_telco :: string
  p_cur :: string
  p_committed :: i64
  p_reserved :: i64
  p_utilised :: i64
  p_status :: string

record event_row =
  e_id :: string
  e_telco :: string
  e_source :: string
  e_sub :: "string option"
  e_token :: "string option"
  e_amount :: i64
  e_cur :: string
  e_state :: RecoveryEventState
  e_occurred :: int

record alloc_row =
  al_id :: string
  al_event :: string
  al_adv :: string
  al_comp :: AllocationComponent
  al_amount :: i64
  al_cur :: string

record suspense_row =
  ss_id :: string
  ss_telco :: string
  ss_event :: string
  ss_amount :: i64
  ss_cur :: string
  ss_reason :: string

record journal_row =
  j_id :: string
  j_key :: string
  j_type :: string
  j_telco :: string
  j_prog :: "string option"
  j_adv :: "string option"
  j_corr :: string
  j_hash :: string
  j_tmpl :: "string option"
  j_posted :: int

record entry_row =
  en_id :: string
  en_journal :: string
  en_account :: string
  en_debit :: i64
  en_credit :: i64
  en_cur :: string

record idem_row =
  i_telco :: string
  i_op :: string
  i_key :: string
  i_hash :: string
  i_status :: int
  i_body :: json
  i_terminal :: bool

record pending_row =
  pr_id :: string
  pr_telco :: string
  pr_original :: string
  pr_reversal :: string
  pr_amount :: i64
  pr_cur :: string
  pr_state :: string
  pr_reason :: string
  pr_applied :: "int option"

record OutboxEvent =
  ob_id :: string
  ob_telco :: string
  ob_agg :: string
  ob_type :: string
  ob_payload :: json
  ob_at :: int

record outbox_row = OutboxEvent +
  ob_seq :: nat
  ob_published :: "int option"
  ob_attempts :: int
  ob_error :: "string option"
  ob_dead :: "int option"

record audit_row =
  au_telco :: string
  au_actor :: string
  au_action :: string
  au_ttype :: string
  au_target :: string
  au_reason :: string

record hold_row =
  h_telco :: string
  h_sub :: string
  h_adv :: string
  h_event :: string
  h_cleared :: "int option"

record writeoff_row =
  w_id :: string
  w_telco :: string
  w_adv :: string
  w_prin :: i64
  w_fee :: i64
  w_cur :: string
  w_reason :: string
  w_by :: string
  w_approver :: "string option"
  w_state :: string
  w_requested :: int
  w_decided :: "int option"
  w_posted :: "int option"

record trip_row =
  t_id :: string
  t_telco :: string
  t_prog :: string
  t_guardrail :: string
  t_measured :: i64
  t_limit :: i64
  t_cur :: string
  t_state :: string
  t_tripped :: int
  t_by :: "string option"
  t_approver :: "string option"
  t_rearmed :: "int option"

record programme_row =
  pg_id :: string
  pg_telco :: string
  pg_status :: string

record complaint_row =
  c_telco :: string
  c_sub :: string
  c_category :: string
  c_state :: string

record flag_row =
  f_id :: string
  f_telco :: string
  f_sub :: string
  f_flag :: string
  f_source :: string
  f_from :: int
  f_to :: "int option"

record selfexcl_row =
  sx_id :: string
  sx_telco :: string
  sx_sub :: string
  sx_state :: string
  sx_channel :: string
  sx_reason :: "string option"
  sx_requested :: int
  sx_until :: int
  sx_reinstated :: "int option"
  sx_rchannel :: "string option"

record consent_row =
  cn_id :: string
  cn_telco :: string
  cn_adv :: string
  cn_sub :: string
  cn_disc :: string
  cn_terms :: json
  cn_hash :: string
  cn_channel :: string
  cn_session :: string
  cn_accepted :: int
  cn_evidence :: "string option"
  cn_captured :: int

record config_row =
  cv_id :: string
  cv_domain :: string
  cv_scope :: string
  cv_no :: int
  cv_state :: string
  cv_content :: json
  cv_hash :: string
  cv_from :: "int option"
  cv_to :: "int option"
  cv_by :: string
  cv_approver :: "string option"
  cv_reason :: string

record statement_row =
  st_id :: string
  st_telco :: string
  st_prog :: string
  st_start :: int
  st_end :: int
  st_state :: string
  st_cur :: string
  st_hash :: "string option"
  st_terms :: string

record line_row =
  sl_id :: string
  sl_stmt :: string
  sl_telco :: string
  sl_code :: string
  sl_amount :: i64
  sl_cur :: string

record action_row =
  sa_id :: string
  sa_telco :: string
  sa_sub :: string
  sa_from :: string
  sa_to :: string
  sa_reason :: string
  sa_by :: string
  sa_approver :: "string option"
  sa_state :: string
  sa_requested :: int
  sa_decided :: "int option"
  sa_applied :: "int option"

record held_row =
  hl_id :: string
  hl_telco :: string
  hl_source :: string
  hl_token :: string
  hl_amount :: i64
  hl_cur :: string
  hl_occurred :: int
  hl_reason :: string
  hl_status :: string
  hl_by :: "string option"
  hl_approver :: "string option"
  hl_held :: int
  hl_resolved :: "int option"

record reserved_row =
  rv_telco :: string
  rv_source :: string
  rv_day :: int
  rv_amount :: i64

record daily_row =
  dr_telco :: string
  dr_day :: int
  dr_reserved :: i64

record run_row =
  rr_id :: string
  rr_telco :: string
  rr_prog :: string
  rr_layer :: string
  rr_start :: int
  rr_end :: int
  rr_src_count :: i64
  rr_src_sum :: i64
  rr_src_hash :: string
  rr_plat_count :: i64
  rr_plat_sum :: i64
  rr_matched_sum :: "i64 option"
  rr_matched :: i64
  rr_breaks :: i64
  rr_state :: string
  rr_successor :: "string option"
  rr_created :: int

record item_row =
  ri_id :: string
  ri_run :: string
  ri_telco :: string
  ri_type :: string
  ri_platform :: "string option"
  ri_ref :: "string option"
  ri_status :: string
  ri_detail :: json
  ri_key :: string
  ri_created :: int
  ri_assigned :: "string option"
  ri_proposer :: "string option"
  ri_prop_reason :: "string option"
  ri_resolved :: "int option"
  ri_resolver :: "string option"
  ri_resolution :: "string option"

record breakact_row =
  ba_telco :: string
  ba_item :: string
  ba_action :: string
  ba_actor :: string
  ba_reason :: string

record override_row =
  ov_id :: string
  ov_telco :: string
  ov_prog :: string
  ov_layer :: string
  ov_start :: int
  ov_end :: int
  ov_rejected :: string
  ov_baseline :: string
  ov_count :: i64
  ov_state :: string
  ov_by :: string
  ov_reason :: string
  ov_approver :: "string option"
  ov_consumer :: "string option"

record qual_row =
  qu_id :: string
  qu_run :: string
  qu_telco :: string
  qu_ratio :: "int \<times> int"
  qu_window :: int
  qu_config :: string
  qu_created :: int

record db =
  next_id :: nat
  subs :: "SubscriberAccount list"
  programmes :: "programme_row list"
  decisions :: "decision_row list"
  offers :: "offer_row list"
  disclosures :: "disclosure_row list"
  pools :: "pool_row list"
  advances :: "advance_row list"
  attempts :: "attempt_row list"
  events :: "event_row list"
  allocs :: "alloc_row list"
  suspense :: "suspense_row list"
  journals :: "journal_row list"
  entries :: "entry_row list"
  idem :: "idem_row list"
  pending :: "pending_row list"
  holds :: "hold_row list"
  writeoffs :: "writeoff_row list"
  trips :: "trip_row list"
  complaints :: "complaint_row list"
  flags :: "flag_row list"
  selfexcls :: "selfexcl_row list"
  consents :: "consent_row list"
  outbox :: "outbox_row list"
  audit :: "audit_row list"
  configs :: "config_row list"
  statements :: "statement_row list"
  stlines :: "line_row list"
  statusacts :: "action_row list"
  helds :: "held_row list"
  reserveds :: "reserved_row list"
  dailies :: "daily_row list"
  recon_runs :: "run_row list"
  recon_items :: "item_row list"
  break_actions :: "breakact_row list"
  overrides :: "override_row list"
  quals :: "qual_row list"

section \<open>Statements\<close>

definition NewID :: "env \<Rightarrow> string \<Rightarrow> db \<Rightarrow> string \<times> db" where
  "NewID E p s = (new_id E p (next_id s), s\<lparr>next_id := Suc (next_id s)\<rparr>)"

definition NULLIF_empty :: "string \<Rightarrow> string option" where
  "NULLIF_empty x = (if x = '''' then None else Some x)"

definition rls_check :: "env \<Rightarrow> string \<Rightarrow> err + unit" where
  "rls_check E telco = orElse (telco = tenant E) (Pg ''42501'' ''row-level security'')"

definition second :: int where
  "second = 1000000"

definition day :: int where
  "day = 86400 * 1000000"

text \<open>BIGINT addition and subtraction, an error outside the 64-bit range.\<close>

definition sql_add :: "i64 \<Rightarrow> i64 \<Rightarrow> err + i64" where
  "sql_add a b = (if in_i64 (sint a + sint b) then Inr (a + b) else Inl (Pg ''22003'' ''''))"

definition sql_sub :: "i64 \<Rightarrow> i64 \<Rightarrow> err + i64" where
  "sql_sub a b = (if in_i64 (sint a - sint b) then Inr (a - b) else Inl (Pg ''22003'' ''''))"

text \<open>The states of the partial index \<open>advances_one_active_uq\<close>.\<close>

definition open_state :: "AdvanceState \<Rightarrow> bool" where
  "open_state st \<longleftrightarrow> st \<in> set OpenAdvanceStates"

definition one_active :: "advance_row list \<Rightarrow> bool" where
  "one_active rows \<longleftrightarrow> distinct (map a_sub (filter (\<lambda>r. open_state (a_state r)) rows))"

definition advance_checks :: "advance_row \<Rightarrow> bool" where
  "advance_checks r \<longleftrightarrow> 0 < sint (a_face r) \<and> 0 \<le> sint (a_fee r) \<and> 0 < sint (a_disb r) \<and> 0 \<le> sint (a_out r)
     \<and> (a_pool r \<noteq> None \<or> a_state r \<in> {AdvRequested, AdvValidated, AdvDeclined})"

definition put_advances :: "advance_row list \<Rightarrow> db \<Rightarrow> err + db" where
  "put_advances rows s =
     (if \<not> list_all advance_checks rows then Inl (Pg ''23514'' ''advances_check'')
      else if \<not> one_active rows then Inl (Pg ''23505'' ''advances_one_active_uq'')
      else Inr (s\<lparr>advances := rows\<rparr>))"

definition pool_checks :: "pool_row \<Rightarrow> bool" where
  "pool_checks r \<longleftrightarrow> 0 \<le> sint (p_committed r) \<and> 0 \<le> sint (p_reserved r) \<and> 0 \<le> sint (p_utilised r)"

definition no_overallocation :: "pool_row \<Rightarrow> bool" where
  "no_overallocation r \<longleftrightarrow> sint (p_reserved r) + sint (p_utilised r) \<le> sint (p_committed r)"

definition put_pools :: "pool_row list \<Rightarrow> db \<Rightarrow> err + db" where
  "put_pools rows s =
     (if \<not> list_all (\<lambda>r. in_i64 (sint (p_reserved r) + sint (p_utilised r))) rows then Inl (Pg ''22003'' '''')
      else if \<not> list_all no_overallocation rows then Inl (Pg ''23514'' ''funding_no_overallocation'')
      else if \<not> list_all pool_checks rows then Inl (Pg ''23514'' ''funding_pools_check'')
      else Inr (s\<lparr>pools := rows\<rparr>))"

text \<open>
  \<^verbatim>\<open>repo.WithTenantTx\<close>: refuse without a tenant in the context, bind the transaction to it,
  commit on success, roll back on error.
\<close>

definition WithTenantTx :: "env \<Rightarrow> ctx \<Rightarrow> (env \<Rightarrow> db \<Rightarrow> err + 'a \<times> db) \<Rightarrow> db \<Rightarrow> (err + 'a) \<times> db" where
  "WithTenantTx E c body s =
     (case TenantFrom c of Inl e \<Rightarrow> (Inl e, s)
      | Inr t \<Rightarrow> (case body (E\<lparr>tenant := t\<rparr>) s of Inl e \<Rightarrow> (Inl e, s) | Inr (x, s') \<Rightarrow> (Inr x, s')))"

section \<open>Reading statements\<close>

lemma WithTenantTx_error: "WithTenantTx E c body s = (Inl e, s') \<Longrightarrow> s' = s"
  by (auto simp: WithTenantTx_def split: sum.splits prod.splits)

lemma WithTenantTx_Inr [res_simps]:
  "WithTenantTx E c body s = (Inr x, s') \<longleftrightarrow> c \<noteq> '''' \<and> body (E\<lparr>tenant := c\<rparr>) s = Inr (x, s')"
  by (auto simp: WithTenantTx_def TenantFrom_def split: sum.splits)

lemma TenantFrom_Inr [res_simps]: "TenantFrom c = Inr t \<longleftrightarrow> c \<noteq> '''' \<and> t = c"
  by (auto simp: TenantFrom_def)

lemma rls_check_Inr [res_simps]: "rls_check E t = Inr u \<longleftrightarrow> t = tenant E"
  by (simp add: rls_check_def res_simps)

lemma rls_check_tenant [simp]: "rls_check E (tenant E) = Inr ()"
  by (simp add: rls_check_def)

lemma sql_add_Inr [res_simps]: "sql_add a b = Inr c \<longleftrightarrow> in_i64 (sint a + sint b) \<and> c = a + b"
  by (auto simp: sql_add_def)

lemma sql_sub_Inr [res_simps]: "sql_sub a b = Inr c \<longleftrightarrow> in_i64 (sint a - sint b) \<and> c = a - b"
  by (auto simp: sql_sub_def)

lemma put_advances_Inr [res_simps]:
  "put_advances rows s = Inr s' \<longleftrightarrow>
     list_all advance_checks rows \<and> one_active rows \<and> s' = s\<lparr>advances := rows\<rparr>"
  by (auto simp: put_advances_def)

lemma put_pools_Inr [res_simps]:
  "put_pools rows s = Inr s' \<longleftrightarrow>
     list_all no_overallocation rows \<and> list_all pool_checks rows \<and> s' = s\<lparr>pools := rows\<rparr>"
proof -
  have "in_i64 (sint (p_reserved r) + sint (p_utilised r))" if "no_overallocation r" "pool_checks r" for r
    using that sint_bounds [of "p_committed r"] by (simp add: no_overallocation_def pool_checks_def in_i64_def)
  then show ?thesis by (auto simp: put_pools_def list_all_iff)
qed

section \<open>Two-person decisions\<close>

text \<open>
  The contract of a maker-checker decision: it is taken on a pending item by somebody other than
  the one who asked for it, and the item is pending no more.
\<close>

locale four_eyes =
  fixes decide :: "env \<Rightarrow> string \<Rightarrow> string \<Rightarrow> string \<Rightarrow> db \<Rightarrow> err + db"
    and maker :: "env \<Rightarrow> string \<Rightarrow> db \<Rightarrow> string option"
    and verdicts :: "string set"
  assumes distinct_actor: "decide E i a to s = Inr s' \<Longrightarrow> to \<in> verdicts \<Longrightarrow> \<exists>m. maker E i s = Some m \<and> m \<noteq> a"
    and settled: "decide E i a to s = Inr s' \<Longrightarrow> to \<in> verdicts \<Longrightarrow> maker E i s' = None"
begin

lemma self_refused: "maker E i s = Some a \<Longrightarrow> to \<in> verdicts \<Longrightarrow> decide E i a to s \<notin> range Inr"
  using distinct_actor by fastforce

lemma decided_once: "decide E i a to s = Inr s' \<Longrightarrow> to \<in> verdicts \<Longrightarrow> to' \<in> verdicts \<Longrightarrow> decide E i b to' s' \<notin> range Inr"
  using settled distinct_actor by fastforce

end

end
