(* ===== verification/RepoCredit.thy ===== *)
theory RepoCredit
  imports Store
begin

text \<open>
  The credit-core repositories of \<^verbatim>\<open>repo/credit.go\<close>: subscribers, decisions, offers,
  disclosure snapshots, funding pools, advances and fulfilment attempts. Each SQL statement
  is the list operation it denotes on the rows the session's telco sees, with its guards,
  RowsAffected tests and constraint errors. A SELECT of one row takes the first row in the
  statement's order; the row locks only order transactions, which run one after the other
  here.
\<close>

section \<open>Statement forms\<close>

text \<open>An UPDATE whose new values may overflow: the first failing row is the statement's error.\<close>

fun update_rows :: "('r \<Rightarrow> bool) \<Rightarrow> ('r \<Rightarrow> err + 'r) \<Rightarrow> 'r list \<Rightarrow> err + 'r list" where
  "update_rows p f [] = Inr []"
| "update_rows p f (r # rs) =
     andThen (if p r then f r else Inr r) (\<lambda>r'. andThen (update_rows p f rs) (\<lambda>rs'. Inr (r' # rs')))"

text \<open>The single-row query: the first row that satisfies the WHERE clause, or \<open>ErrNotFound\<close>.\<close>

definition queryRow :: "('r \<Rightarrow> bool) \<Rightarrow> 'r list \<Rightarrow> err + 'r" where
  "queryRow p rs = (case List.find p rs of None \<Rightarrow> Inl ErrNotFound | Some r \<Rightarrow> Inr r)"

definition constraintErr :: "err \<Rightarrow> err" where
  "constraintErr e =
     (case e of
        Pg code name \<Rightarrow>
          if code = ''23505'' \<and> name = ''advances_one_active_uq'' then ErrConcurrentAdvanceBlocked
          else if code = ''23505'' \<and> name = ''advances_offer_uq'' then ErrOfferAlreadyUsed
          else e
      | _ \<Rightarrow> e)"

definition scanMoney :: "i64 \<Rightarrow> string \<Rightarrow> err + money" where
  "scanMoney minor cur = NewMoney minor cur"

section \<open>Subscribers and decisions\<close>

definition GetLiveByToken :: "env \<Rightarrow> string \<Rightarrow> db \<Rightarrow> err + SubscriberAccount" where
  "GetLiveByToken E token s =
     queryRow (\<lambda>r. sub_telco r = tenant E \<and> sub_token r = token \<and> sub_to r = None) (subs s)"

definition Decisions_GetCurrent :: "env \<Rightarrow> string \<Rightarrow> db \<Rightarrow> err + DecisionSnapshot" where
  "Decisions_GetCurrent E sub s =
     andThen (queryRow (\<lambda>r. d_telco r = tenant E \<and> d_sub r = sub \<and> d_current r) (decisions s)) (\<lambda>r.
     andThen (scanMoney (d_max r) (d_cur r)) (\<lambda>m.
     Inr \<lparr>DecID = d_id r, DecTelcoID = d_telco r, DecSubscriberID = d_sub r, MaxFaceValue = m,
          IsCurrent = d_current r, DecConfigVersionID = d_config r, TierCode = d_tier r,
          ScoringRunID = (case d_run r of None \<Rightarrow> '''' | Some x \<Rightarrow> x), ValidUntil = d_until r\<rparr>))"

section \<open>Offers and disclosures\<close>

text \<open>The CHECK constraints of \<^verbatim>\<open>offers\<close>, \<open>offer_money_identity\<close> among them.\<close>

definition offer_checks :: "offer_row \<Rightarrow> bool" where
  "offer_checks r \<longleftrightarrow> 0 < sint (o_face r) \<and> 0 \<le> sint (o_fee r) \<and> 0 < sint (o_disb r) \<and> 0 < sint (o_rep r)
     \<and> o_model r \<in> {FeeDeductedUpfront, FeeAddedToRepayment}
     \<and> (sint (o_face r) = sint (o_disb r) + sint (o_fee r) \<or> o_model r \<noteq> FeeDeductedUpfront)"

definition Offers_Insert :: "env \<Rightarrow> Offer \<Rightarrow> db \<Rightarrow> err + db" where
  "Offers_Insert E o' s =
     andThen (rls_check E (OffTelcoID o')) (\<lambda>_.
     let r = \<lparr>o_id = OfferID o', o_telco = OffTelcoID o', o_prog = OffProgrammeID o', o_sub = OffSubscriberID o',
              o_dec = DecisionSnapshotID o', o_face = amount (OffFaceValue o'), o_fee = amount (OffFee o'),
              o_disb = amount (OffDisbursed o'), o_rep = amount (Repayment o'),
              o_cur = currency (OffFaceValue o'), o_model = OffFeeModel o',
              o_config = ProductConfigVersionID o', o_state = OffState o', o_expires = OffExpiresAt o'\<rparr>
     in if offer_checks r then Inr (s\<lparr>offers := offers s @ [r]\<rparr>) else Inl (Pg ''23514'' ''offers_check''))"

definition offerScan :: "offer_row \<Rightarrow> err + Offer" where
  "offerScan r =
     andThen (NewMoney (o_face r) (o_cur r)) (\<lambda>face. andThen (NewMoney (o_fee r) (o_cur r)) (\<lambda>fee.
     andThen (NewMoney (o_disb r) (o_cur r)) (\<lambda>disb. andThen (NewMoney (o_rep r) (o_cur r)) (\<lambda>rep.
     Inr \<lparr>OfferID = o_id r, OffTelcoID = o_telco r, OffProgrammeID = o_prog r, OffSubscriberID = o_sub r,
          DecisionSnapshotID = o_dec r, OffFaceValue = face, OffFee = fee, OffDisbursed = disb, Repayment = rep,
          OffFeeModel = o_model r, ProductConfigVersionID = o_config r, OffState = o_state r,
          OffExpiresAt = o_expires r\<rparr>))))"

definition Offers_GetForUpdate :: "env \<Rightarrow> string \<Rightarrow> db \<Rightarrow> err + Offer" where
  "Offers_GetForUpdate E oid s =
     andThen (queryRow (\<lambda>r. o_telco r = tenant E \<and> o_id r = oid) (offers s)) offerScan"

fun scan_all :: "('r \<Rightarrow> err + 'a) \<Rightarrow> 'r list \<Rightarrow> err + 'a list" where
  "scan_all f [] = Inr []"
| "scan_all f (r # rs) = andThen (f r) (\<lambda>x. andThen (scan_all f rs) (\<lambda>xs. Inr (x # xs)))"

definition Offers_ListValid :: "env \<Rightarrow> string \<Rightarrow> string \<Rightarrow> int \<Rightarrow> db \<Rightarrow> err + Offer list" where
  "Offers_ListValid E sub prog at s =
     scan_all offerScan (sort_key (\<lambda>r. sint (o_face r))
       (filter (\<lambda>r. o_telco r = tenant E \<and> o_sub r = sub \<and> o_prog r = prog
                    \<and> o_state r = OfferGenerated \<and> o_expires r > at) (offers s)))"

definition Offers_SetState :: "env \<Rightarrow> string \<Rightarrow> OfferState \<Rightarrow> OfferState \<Rightarrow> db \<Rightarrow> err + db" where
  "Offers_SetState E oid frm to s =
     (let p = (\<lambda>r. o_telco r = tenant E \<and> o_id r = oid \<and> o_state r = frm) in
      if filter p (offers s) = [] then Inl ErrNotFound
      else Inr (s\<lparr>offers := upd_where p (\<lambda>r. r\<lparr>o_state := to\<rparr>) (offers s)\<rparr>))"

definition DisclosureSnapshots_Insert :: "env \<Rightarrow> DisclosureSnapshot \<Rightarrow> db \<Rightarrow> err + db" where
  "DisclosureSnapshots_Insert E d s =
     andThen (rls_check E (DscTelcoID d)) (\<lambda>_. Inr (s\<lparr>disclosures := disclosures s @
       [\<lparr>ds_id = DisclosureSnapshotID d, ds_telco = DscTelcoID d, ds_prog = DscProgrammeID d,
         ds_offer = DscOfferID d, ds_tmpl = TemplateID d, ds_tver = TemplateVersion d, ds_locale = Locale d,
         ds_config = DisclosureConfigVersionID d, ds_cur = DscCurrency d,
         ds_face = amount (DscFaceValue d), ds_fee = amount (DscFee d), ds_disb = amount (DscDisbursed d),
         ds_rep = amount (DscRepayment d), ds_body = RenderedBody d, ds_cost = TotalCostText d,
         ds_hash = ContentHash d, ds_issued = now E, ds_expires = DscExpiresAt d\<rparr>]\<rparr>))"

definition disclosureScan :: "disclosure_row \<Rightarrow> err + DisclosureSnapshot" where
  "disclosureScan r =
     andThen (NewMoney (ds_face r) (ds_cur r)) (\<lambda>face. andThen (NewMoney (ds_fee r) (ds_cur r)) (\<lambda>fee.
     andThen (NewMoney (ds_disb r) (ds_cur r)) (\<lambda>disb. andThen (NewMoney (ds_rep r) (ds_cur r)) (\<lambda>rep.
     Inr \<lparr>DisclosureSnapshotID = ds_id r, DscTelcoID = ds_telco r, DscProgrammeID = ds_prog r,
          DscOfferID = ds_offer r, TemplateID = ds_tmpl r, TemplateVersion = ds_tver r, Locale = ds_locale r,
          DisclosureConfigVersionID = ds_config r, DscCurrency = ds_cur r, DscFaceValue = face, DscFee = fee,
          DscDisbursed = disb, DscRepayment = rep, RenderedBody = ds_body r, TotalCostText = ds_cost r,
          ContentHash = ds_hash r, IssuedAt = ds_issued r, DscExpiresAt = ds_expires r\<rparr>))))"

definition DisclosureSnapshots_GetByOffer :: "env \<Rightarrow> string \<Rightarrow> db \<Rightarrow> err + DisclosureSnapshot" where
  "DisclosureSnapshots_GetByOffer E oid s =
     andThen (queryRow (\<lambda>r. ds_telco r = tenant E \<and> ds_offer r = oid) (disclosures s)) disclosureScan"

section \<open>Funding pools\<close>

definition pool_visible :: "env \<Rightarrow> string \<Rightarrow> pool_row \<Rightarrow> bool" where
  "pool_visible E pid r \<longleftrightarrow> p_telco r = tenant E \<and> p_id r = pid"

text \<open>The subselect of \<^verbatim>\<open>Reserve\<close>: the first pool by id with the headroom.\<close>

definition reserve_candidates :: "env \<Rightarrow> string \<Rightarrow> money \<Rightarrow> db \<Rightarrow> pool_row list" where
  "reserve_candidates E prog amt s =
     sort_key p_id (filter (\<lambda>r. p_telco r = tenant E \<and> p_prog r = prog \<and> p_status r = ''ACTIVE''
        \<and> p_cur r = currency amt
        \<and> sint (p_committed r) - sint (p_reserved r) - sint (p_utilised r) \<ge> sint (amount amt)) (pools s))"

definition Reserve :: "env \<Rightarrow> string \<Rightarrow> money \<Rightarrow> db \<Rightarrow> err + string \<times> db" where
  "Reserve E prog amt s =
     (case reserve_candidates E prog amt s of
        [] \<Rightarrow> Inl ErrNoFundingCapacity
      | r # _ \<Rightarrow>
          andThen (update_rows (pool_visible E (p_id r))
             (\<lambda>q. andThen (sql_add (p_reserved q) (amount amt)) (\<lambda>v. Inr (q\<lparr>p_reserved := v\<rparr>))) (pools s)) (\<lambda>rows.
          andThen (put_pools rows s) (\<lambda>s'. Inr (p_id r, s'))))"

text \<open>
  The guarded updates share one shape: rows that satisfy the WHERE clause are changed, none
  is the underflow error.
\<close>

definition pool_update :: "(pool_row \<Rightarrow> bool) \<Rightarrow> (pool_row \<Rightarrow> err + pool_row) \<Rightarrow> err \<Rightarrow> db \<Rightarrow> err + db" where
  "pool_update p f none s =
     andThen (update_rows p f (pools s)) (\<lambda>rows.
     andThen (put_pools rows s) (\<lambda>s'.
     if filter p (pools s) = [] then Inl none else Inr s'))"

definition ConfirmUtilisation :: "env \<Rightarrow> string \<Rightarrow> money \<Rightarrow> db \<Rightarrow> err + db" where
  "ConfirmUtilisation E pid amt =
     pool_update (\<lambda>r. pool_visible E pid r \<and> sint (p_reserved r) \<ge> sint (amount amt))
       (\<lambda>r. andThen (sql_sub (p_reserved r) (amount amt)) (\<lambda>v.
            andThen (sql_add (p_utilised r) (amount amt)) (\<lambda>u. Inr (r\<lparr>p_reserved := v, p_utilised := u\<rparr>))))
       (Fmt ''reservation underflow confirming'')"

definition Release :: "env \<Rightarrow> string \<Rightarrow> money \<Rightarrow> db \<Rightarrow> err + db" where
  "Release E pid amt =
     pool_update (\<lambda>r. pool_visible E pid r \<and> sint (p_reserved r) \<ge> sint (amount amt))
       (\<lambda>r. andThen (sql_sub (p_reserved r) (amount amt)) (\<lambda>v. Inr (r\<lparr>p_reserved := v\<rparr>)))
       (Fmt ''reservation underflow releasing'')"

definition ReduceUtilisation :: "env \<Rightarrow> string \<Rightarrow> money \<Rightarrow> db \<Rightarrow> err + db" where
  "ReduceUtilisation E pid amt =
     pool_update (\<lambda>r. pool_visible E pid r \<and> sint (p_utilised r) \<ge> sint (amount amt))
       (\<lambda>r. andThen (sql_sub (p_utilised r) (amount amt)) (\<lambda>v. Inr (r\<lparr>p_utilised := v\<rparr>)))
       (Fmt ''utilisation underflow reducing'')"

definition ReAddUtilisation :: "env \<Rightarrow> string \<Rightarrow> money \<Rightarrow> db \<Rightarrow> err + db" where
  "ReAddUtilisation E pid amt =
     pool_update (pool_visible E pid)
       (\<lambda>r. andThen (sql_add (p_utilised r) (amount amt)) (\<lambda>v. Inr (r\<lparr>p_utilised := v\<rparr>)))
       ErrNotFound"

section \<open>Advances\<close>

definition advanceScan :: "advance_row \<Rightarrow> err + Advance" where
  "advanceScan r =
     andThen (NewMoney (a_face r) (a_cur r)) (\<lambda>face. andThen (NewMoney (a_fee r) (a_cur r)) (\<lambda>fee.
     andThen (NewMoney (a_disb r) (a_cur r)) (\<lambda>disb. andThen (NewMoney (a_out r) (a_cur r)) (\<lambda>out.
     Inr \<lparr>AdvanceID = a_id r, AdvTelcoID = a_telco r, AdvProgrammeID = a_prog r, AdvSubscriberID = a_sub r,
          AdvOfferID = a_offer r, FundingPoolID = (case a_pool r of None \<Rightarrow> '''' | Some x \<Rightarrow> x),
          IdempotencyKey = a_idem r, AdvCorrelationID = a_corr r, State = a_state r, Version = a_version r,
          FaceValue = face, Fee = fee, Disbursed = disb, Outstanding = out,
          FeeRecognition = (case a_feerec r of None \<Rightarrow> '''' | Some x \<Rightarrow> x), AcceptedAt = a_accepted r,
          ActivatedAt = a_activated r, ClosedAt = a_closed r, UpdatedAt = a_updated r\<rparr>))))"

definition Advances_Insert :: "env \<Rightarrow> Advance \<Rightarrow> db \<Rightarrow> err + bool \<times> db" where
  "Advances_Insert E a s =
     andThen (rls_check E (AdvTelcoID a)) (\<lambda>_.
     let r = \<lparr>a_id = AdvanceID a, a_telco = AdvTelcoID a, a_prog = AdvProgrammeID a, a_sub = AdvSubscriberID a,
              a_offer = AdvOfferID a, a_pool = None, a_idem = IdempotencyKey a, a_corr = AdvCorrelationID a,
              a_state = State a, a_version = 1, a_face = amount (FaceValue a), a_fee = amount (Fee a),
              a_disb = amount (Disbursed a), a_out = amount (Outstanding a), a_cur = currency (FaceValue a),
              a_accepted = now E, a_activated = None, a_closed = None, a_updated = now E,
              a_feerec = NULLIF_empty (FeeRecognition a), a_bucket = None, a_bucket_asof = None\<rparr>
     in if \<not> advance_checks r then Inl (constraintErr (Pg ''23514'' ''advances_check''))
        else if \<exists>q \<in> set (advances s). a_telco q = a_telco r \<and> a_idem q = a_idem r then Inr (False, s)
        else if \<exists>q \<in> set (advances s). a_id q = a_id r then Inl (constraintErr (Pg ''23505'' ''advances_pkey''))
        else if \<exists>q \<in> set (advances s). a_offer q = a_offer r
          then Inl (constraintErr (Pg ''23505'' ''advances_offer_uq''))
        else (case put_advances (advances s @ [r]) s of
                Inl e \<Rightarrow> Inl (constraintErr e) | Inr s' \<Rightarrow> Inr (True, s')))"

definition adv_update :: "(advance_row \<Rightarrow> bool) \<Rightarrow> (advance_row \<Rightarrow> advance_row) \<Rightarrow> db \<Rightarrow> err + db" where
  "adv_update p f s =
     andThen (put_advances (upd_where p f (advances s)) s) (\<lambda>s'.
     if filter p (advances s) = [] then Inl ErrStaleVersion else Inr s')"

definition adv_at :: "env \<Rightarrow> string \<Rightarrow> int \<Rightarrow> AdvanceState \<Rightarrow> advance_row \<Rightarrow> bool" where
  "adv_at E aid v st r \<longleftrightarrow> a_telco r = tenant E \<and> a_id r = aid \<and> a_version r = v \<and> a_state r = st"

definition ReserveTransition :: "env \<Rightarrow> string \<Rightarrow> int \<Rightarrow> string \<Rightarrow> db \<Rightarrow> err + db" where
  "ReserveTransition E aid v pid =
     adv_update (adv_at E aid v AdvValidated)
       (\<lambda>r. r\<lparr>a_state := AdvExposureReserved, a_pool := Some pid, a_version := a_version r + 1, a_updated := now E\<rparr>)"

definition Advances_Get :: "env \<Rightarrow> string \<Rightarrow> db \<Rightarrow> err + Advance" where
  "Advances_Get E aid s = andThen (queryRow (\<lambda>r. a_telco r = tenant E \<and> a_id r = aid) (advances s)) advanceScan"

definition Advances_GetByIdemKey :: "env \<Rightarrow> string \<Rightarrow> db \<Rightarrow> err + Advance" where
  "Advances_GetByIdemKey E k s =
     andThen (queryRow (\<lambda>r. a_telco r = tenant E \<and> a_idem r = k) (advances s)) advanceScan"

definition Transition :: "env \<Rightarrow> string \<Rightarrow> int \<Rightarrow> AdvanceState \<Rightarrow> AdvanceState \<Rightarrow> db \<Rightarrow> err + db" where
  "Transition E aid v frm to s =
     (if \<not> CanTransition frm to then Inl ErrIllegalTransition
      else adv_update (adv_at E aid v frm)
        (\<lambda>r. r\<lparr>a_state := to, a_version := a_version r + 1, a_updated := now E,
               a_activated := (if to = AdvActive then Some (now E) else a_activated r),
               a_closed := (if to \<in> {AdvClosed, AdvFulfilmentFailed, AdvDeclined} then Some (now E)
                            else a_closed r)\<rparr>) s)"

section \<open>Fulfilment attempts\<close>

text \<open>An attempt is visible when its advance is.\<close>

definition adv_visible :: "env \<Rightarrow> db \<Rightarrow> string \<Rightarrow> bool" where
  "adv_visible E s aid \<longleftrightarrow> (\<exists>r \<in> set (advances s). a_telco r = tenant E \<and> a_id r = aid)"

definition Attempts_Insert :: "env \<Rightarrow> FulfilmentAttempt \<Rightarrow> json \<Rightarrow> db \<Rightarrow> err + db" where
  "Attempts_Insert E at evidence s =
     (if \<not> adv_visible E s (AtpAdvanceID at) then Inl (Pg ''42501'' ''row-level security'')
      else if \<exists>q \<in> set (attempts s). at_adv q = AtpAdvanceID at \<and> at_no q = AttemptNo at
        then Inl (Pg ''23505'' ''fulfilment_attempts_advance_id_attempt_no_key'')
      else if \<exists>q \<in> set (attempts s). at_key q = TelcoIdempotencyKey at
        then Inl (Pg ''23505'' ''fulfilment_attempts_telco_idempotency_key_key'')
      else Inr (s\<lparr>attempts := attempts s @
        [\<lparr>at_id = AttemptID at, at_adv = AtpAdvanceID at, at_no = AttemptNo at, at_key = TelcoIdempotencyKey at,
          at_state = AtpState at, at_ref = None, at_evidence = evidence, at_response = None,
          at_submitted = now E, at_next = None, at_count = 0, at_resolved = None\<rparr>]\<rparr>))"

definition attempt_update :: "(attempt_row \<Rightarrow> bool) \<Rightarrow> (attempt_row \<Rightarrow> attempt_row) \<Rightarrow> db \<Rightarrow> err + db" where
  "attempt_update p f s =
     (if filter p (attempts s) = [] then Inl ErrNotFound
      else Inr (s\<lparr>attempts := upd_where p f (attempts s)\<rparr>))"

text \<open>A byte slice bound to a JSONB column: nil is NULL, a text that is not JSON fails the statement.\<close>

definition jsonb_param :: "env \<Rightarrow> string option \<Rightarrow> err + json option" where
  "jsonb_param E raw =
     (case raw of
        None \<Rightarrow> Inr None
      | Some b \<Rightarrow> (case jsonb_in E b of None \<Rightarrow> Inl (Pg ''22P02'' ''invalid input syntax for type json'') | Some j \<Rightarrow> Inr (Some j)))"

definition Attempts_Resolve ::
  "env \<Rightarrow> string \<Rightarrow> FulfilmentAttemptState \<Rightarrow> FulfilmentAttemptState \<Rightarrow> string \<Rightarrow> string option \<Rightarrow> int option
   \<Rightarrow> db \<Rightarrow> err + db" where
  "Attempts_Resolve E aid frm to ref resp nxt s =
     andThen (jsonb_param E resp) (\<lambda>body.
     attempt_update (\<lambda>r. adv_visible E s (at_adv r) \<and> at_id r = aid \<and> at_state r = frm)
       (\<lambda>r. r\<lparr>at_state := to, at_ref := NULLIF_empty ref, at_response := body, at_next := nxt,
              at_resolved := (if to \<in> {AttemptConfirmed, AttemptFailed} then Some (now E) else at_resolved r)\<rparr>) s)"

definition EnquireNow :: "env \<Rightarrow> string \<Rightarrow> db \<Rightarrow> err + db" where
  "EnquireNow E aid s =
     attempt_update (\<lambda>r. adv_visible E s (at_adv r) \<and> at_id r = aid \<and> at_state r \<in> {AttemptUnknown, AttemptSent})
       (\<lambda>r. r\<lparr>at_next := Some (now E)\<rparr>) s"

definition attemptScan :: "attempt_row \<Rightarrow> FulfilmentAttempt" where
  "attemptScan r =
     \<lparr>AttemptID = at_id r, AtpAdvanceID = at_adv r, AttemptNo = at_no r, TelcoIdempotencyKey = at_key r,
      AtpState = at_state r, TelcoReference = (case at_ref r of None \<Rightarrow> '''' | Some x \<Rightarrow> x),
      SubmittedAt = at_submitted r, NextEnquiryAt = at_next r, EnquiryCount = at_count r,
      ResolvedAt = at_resolved r\<rparr>"

definition Attempts_GetByAdvance :: "env \<Rightarrow> string \<Rightarrow> db \<Rightarrow> err + FulfilmentAttempt" where
  "Attempts_GetByAdvance E aid s =
     (case sort_key (\<lambda>r. - at_no r)
             (filter (\<lambda>r. adv_visible E s (at_adv r) \<and> at_adv r = aid) (attempts s)) of
        [] \<Rightarrow> Inl ErrNotFound | r # _ \<Rightarrow> Inr (attemptScan r))"

section \<open>What the statements do\<close>

lemma update_rows_Inr [res_simps]:
  "update_rows p f rs = Inr rs' \<longleftrightarrow>
     (\<forall>r \<in> set rs. p r \<longrightarrow> f r \<in> range Inr) \<and> rs' = upd_where p (projr \<circ> f) rs"
  by (induction rs arbitrary: rs') (auto simp: res_simps)

lemma queryRow_Inr [res_simps]: "queryRow p rs = Inr r \<longleftrightarrow> List.find p rs = Some r"
  by (auto simp: queryRow_def split: option.splits)

lemma queryRow_InrD: "queryRow p rs = Inr r \<Longrightarrow> p r \<and> r \<in> set rs"
  by (simp add: res_simps find_SomeD)

lemma upd_where_cong_on:
  "(\<And>r. r \<in> set rs \<Longrightarrow> p r \<Longrightarrow> f r = g r) \<Longrightarrow> upd_where p f rs = upd_where p g rs"
  by (induction rs) auto

lemma pool_update_Inr:
  assumes "pool_update p f e s = Inr s'"
    and "\<And>r q. p r \<Longrightarrow> f r = Inr q \<Longrightarrow> q = g r"
  shows "s' = s\<lparr>pools := upd_where p g (pools s)\<rparr> \<and> list_all no_overallocation (pools s')
    \<and> list_all pool_checks (pools s') \<and> (\<exists>r \<in> set (pools s). p r \<and> f r = Inr (g r))"
proof -
  from assms(1) obtain rows where rows: "update_rows p f (pools s) = Inr rows"
      "list_all no_overallocation rows" "list_all pool_checks rows" "s' = s\<lparr>pools := rows\<rparr>"
      "filter p (pools s) \<noteq> []"
    by (auto simp: pool_update_def res_simps split: if_splits)
  then have ok: "\<forall>r \<in> set (pools s). p r \<longrightarrow> f r \<in> range Inr" by (simp add: res_simps)
  with rows(1) assms(2) have "rows = upd_where p g (pools s)"
    by (auto simp: res_simps intro!: upd_where_cong_on)
  moreover from rows(5) obtain r where "r \<in> set (pools s)" "p r" by (auto simp: filter_empty_conv)
  ultimately show ?thesis using rows ok assms(2) by fastforce
qed

text \<open>Totals per pool; ids are primary keys, so each is one row's column.\<close>

definition utilised_of :: "db \<Rightarrow> string \<Rightarrow> int" where
  "utilised_of s pid = (\<Sum>r\<leftarrow>pools s. if p_id r = pid then sint (p_utilised r) else 0)"

definition reserved_of :: "db \<Rightarrow> string \<Rightarrow> int" where
  "reserved_of s pid = (\<Sum>r\<leftarrow>pools s. if p_id r = pid then sint (p_reserved r) else 0)"

definition pools_ok :: "db \<Rightarrow> bool" where
  "pools_ok s \<longleftrightarrow> distinct (map p_id (pools s)) \<and> list_all no_overallocation (pools s) \<and> list_all pool_checks (pools s)"

text \<open>
  What every guarded pool update promises its callers: it touches nothing but the pools, keeps
  the over-allocation invariant, and moves the named pool's totals by a fixed multiple of the
  amount and no other pool's.
\<close>

locale pool_op =
  fixes opf :: "env \<Rightarrow> string \<Rightarrow> money \<Rightarrow> db \<Rightarrow> err + db" and dr du :: int
  assumes frame: "opf E pid m s = Inr s' \<Longrightarrow> s' = s\<lparr>pools := pools s'\<rparr>"
    and keeps: "opf E pid m s = Inr s' \<Longrightarrow> distinct (map p_id (pools s)) \<Longrightarrow> pools_ok s'"
    and known: "opf E pid m s = Inr s' \<Longrightarrow> \<exists>r \<in> set (pools s). pool_visible E pid r"
    and reserved: "opf E pid m s = Inr s' \<Longrightarrow> distinct (map p_id (pools s)) \<Longrightarrow>
      reserved_of s' j = reserved_of s j + (if j = pid then dr * sint (amount m) else 0)"
    and utilised: "opf E pid m s = Inr s' \<Longrightarrow> distinct (map p_id (pools s)) \<Longrightarrow>
      utilised_of s' j = utilised_of s j + (if j = pid then du * sint (amount m) else 0)"
begin

lemma tables [simp]:
  assumes "opf E pid m s = Inr s'"
  shows "advances s' = advances s" "allocs s' = allocs s" "events s' = events s" "idem s' = idem s"
    "journals s' = journals s" "entries s' = entries s" "pending s' = pending s" "audit s' = audit s"
    "suspense s' = suspense s" "outbox s' = outbox s" "subs s' = subs s" "next_id s' = next_id s"
    "writeoffs s' = writeoffs s" "holds s' = holds s" "attempts s' = attempts s" "offers s' = offers s"
  by (subst frame [OF assms], simp)+

lemma exposure:
  "opf E pid m s = Inr s' \<Longrightarrow> distinct (map p_id (pools s)) \<Longrightarrow>
   reserved_of s' pid + utilised_of s' pid
     = reserved_of s pid + utilised_of s pid + (dr + du) * sint (amount m)"
  by (simp add: reserved utilised algebra_simps)

end

text \<open>Two operations with opposite effects undo each other's totals.\<close>

locale pool_inverse = f: pool_op f dr du + g: pool_op g "- dr" "- du"
  for f g :: "env \<Rightarrow> string \<Rightarrow> money \<Rightarrow> db \<Rightarrow> err + db" and dr du :: int
begin

lemma undo:
  assumes "f E pid m s = Inr t" "g E pid m t = Inr u" "distinct (map p_id (pools s))"
  shows "reserved_of u j = reserved_of s j \<and> utilised_of u j = utilised_of s j"
proof -
  have "distinct (map p_id (pools t))" using f.keeps [OF assms(1,3)] by (simp add: pools_ok_def)
  then show ?thesis
    using f.reserved [OF assms(1,3)] f.utilised [OF assms(1,3)] g.reserved [OF assms(2)] g.utilised [OF assms(2)]
    by simp
qed

end

text \<open>The shape all four share, from which their promises follow.\<close>

lemma pool_update_effects:
  assumes upd: "pool_update p f e s = Inr s'"
    and g: "\<And>r q. p r \<Longrightarrow> f r = Inr q \<Longrightarrow> q = g r"
    and p: "\<And>r. p r \<Longrightarrow> pool_visible E pid r"
    and id: "\<And>r. p_id (g r) = p_id r"
    and res: "\<And>r. p r \<Longrightarrow> f r = Inr (g r) \<Longrightarrow> sint (p_reserved (g r)) = sint (p_reserved r) + dr * d"
    and utl: "\<And>r. p r \<Longrightarrow> f r = Inr (g r) \<Longrightarrow> sint (p_utilised (g r)) = sint (p_utilised r) + du * d"
  shows "s' = s\<lparr>pools := pools s'\<rparr> \<and> (\<exists>r \<in> set (pools s). pool_visible E pid r)
    \<and> (distinct (map p_id (pools s)) \<longrightarrow> pools_ok s'
       \<and> reserved_of s' j = reserved_of s j + (if j = pid then dr * d else 0)
       \<and> utilised_of s' j = utilised_of s j + (if j = pid then du * d else 0))"
proof -
  note eff = pool_update_Inr [OF upd, of g, OF g]
  then obtain r where r: "r \<in> set (pools s)" "p r" "f r = Inr (g r)" by blast
  have rows: "pools s' = upd_where p g (pools s)" using eff by simp
  have key: "p q \<Longrightarrow> p_id q = p_id r" for q using p r(2) by (simp add: pool_visible_def)
  have pid: "p_id r = pid" using p [OF r(2)] by (simp add: pool_visible_def)
  have "map p_id (pools s') = map p_id (pools s)"
    unfolding rows by (rule map_upd_where_key) (rule id)
  moreover have "distinct (map p_id (pools s)) \<Longrightarrow>
      reserved_of s' j = reserved_of s j + (if j = pid then dr * d else 0)"
    unfolding reserved_of_def rows
    by (subst sum_upd_key [where k = p_id and p = p, OF _ r(1,2) key]) (simp_all add: id pid res [OF r(2,3)])
  moreover have "distinct (map p_id (pools s)) \<Longrightarrow>
      utilised_of s' j = utilised_of s j + (if j = pid then du * d else 0)"
    unfolding utilised_of_def rows
    by (subst sum_upd_key [where k = p_id and p = p, OF _ r(1,2) key]) (simp_all add: id pid utl [OF r(2,3)])
  ultimately show ?thesis using eff r p by (auto simp: pools_ok_def)
qed

lemma Reduce_effects:
  assumes "ReduceUtilisation E pid m s = Inr s'"
  shows "s' = s\<lparr>pools := pools s'\<rparr> \<and> (\<exists>r \<in> set (pools s). pool_visible E pid r)
    \<and> (distinct (map p_id (pools s)) \<longrightarrow> pools_ok s'
       \<and> reserved_of s' j = reserved_of s j + (if j = pid then 0 * sint (amount m) else 0)
       \<and> utilised_of s' j = utilised_of s j + (if j = pid then (-1) * sint (amount m) else 0))"
  by (rule pool_update_effects [OF assms [unfolded ReduceUtilisation_def],
        where g = "\<lambda>r. r\<lparr>p_utilised := p_utilised r - amount m\<rparr>"])
     (auto simp: res_simps i64_simps)

lemma ReAdd_effects:
  assumes "ReAddUtilisation E pid m s = Inr s'"
  shows "s' = s\<lparr>pools := pools s'\<rparr> \<and> (\<exists>r \<in> set (pools s). pool_visible E pid r)
    \<and> (distinct (map p_id (pools s)) \<longrightarrow> pools_ok s'
       \<and> reserved_of s' j = reserved_of s j + (if j = pid then - 0 * sint (amount m) else 0)
       \<and> utilised_of s' j = utilised_of s j + (if j = pid then - (-1) * sint (amount m) else 0))"
  by (rule pool_update_effects [OF assms [unfolded ReAddUtilisation_def],
        where g = "\<lambda>r. r\<lparr>p_utilised := p_utilised r + amount m\<rparr>"])
     (auto simp: res_simps i64_simps)

lemma Confirm_effects:
  assumes "ConfirmUtilisation E pid m s = Inr s'"
  shows "s' = s\<lparr>pools := pools s'\<rparr> \<and> (\<exists>r \<in> set (pools s). pool_visible E pid r)
    \<and> (distinct (map p_id (pools s)) \<longrightarrow> pools_ok s'
       \<and> reserved_of s' j = reserved_of s j + (if j = pid then (-1) * sint (amount m) else 0)
       \<and> utilised_of s' j = utilised_of s j + (if j = pid then 1 * sint (amount m) else 0))"
  by (rule pool_update_effects [OF assms [unfolded ConfirmUtilisation_def],
        where g = "\<lambda>r. r\<lparr>p_reserved := p_reserved r - amount m, p_utilised := p_utilised r + amount m\<rparr>"])
     (auto simp: res_simps i64_simps)

lemma Release_effects:
  assumes "Release E pid m s = Inr s'"
  shows "s' = s\<lparr>pools := pools s'\<rparr> \<and> (\<exists>r \<in> set (pools s). pool_visible E pid r)
    \<and> (distinct (map p_id (pools s)) \<longrightarrow> pools_ok s'
       \<and> reserved_of s' j = reserved_of s j + (if j = pid then (-1) * sint (amount m) else 0)
       \<and> utilised_of s' j = utilised_of s j + (if j = pid then 0 * sint (amount m) else 0))"
  by (rule pool_update_effects [OF assms [unfolded Release_def],
        where g = "\<lambda>r. r\<lparr>p_reserved := p_reserved r - amount m\<rparr>"])
     (auto simp: res_simps i64_simps)

interpretation reduce: pool_op ReduceUtilisation 0 "-1"
  by unfold_locales (blast dest: Reduce_effects)+

interpretation readd: pool_op ReAddUtilisation "- 0" "- (-1)"
  by unfold_locales (blast dest: ReAdd_effects)+

interpretation confirm: pool_op ConfirmUtilisation "-1" 1
  by unfold_locales (blast dest: Confirm_effects)+

interpretation release: pool_op Release "-1" 0
  by unfold_locales (blast dest: Release_effects)+

interpretation claw: pool_inverse ReduceUtilisation ReAddUtilisation 0 "-1"
  by unfold_locales

section \<open>Advance rows\<close>

text \<open>The value a scan builds from a row whose currency is valid.\<close>

definition advance_of :: "advance_row \<Rightarrow> Advance" where
  "advance_of r =
     \<lparr>AdvanceID = a_id r, AdvTelcoID = a_telco r, AdvProgrammeID = a_prog r, AdvSubscriberID = a_sub r,
      AdvOfferID = a_offer r, FundingPoolID = (case a_pool r of None \<Rightarrow> '''' | Some x \<Rightarrow> x),
      IdempotencyKey = a_idem r, AdvCorrelationID = a_corr r, State = a_state r, Version = a_version r,
      FaceValue = \<lparr>amount = a_face r, currency = a_cur r\<rparr>, Fee = \<lparr>amount = a_fee r, currency = a_cur r\<rparr>,
      Disbursed = \<lparr>amount = a_disb r, currency = a_cur r\<rparr>,
      Outstanding = \<lparr>amount = a_out r, currency = a_cur r\<rparr>,
      FeeRecognition = (case a_feerec r of None \<Rightarrow> '''' | Some x \<Rightarrow> x), AcceptedAt = a_accepted r,
      ActivatedAt = a_activated r, ClosedAt = a_closed r, UpdatedAt = a_updated r\<rparr>"

lemma advance_of_simps [simp]:
  "AdvanceID (advance_of r) = a_id r" "AdvTelcoID (advance_of r) = a_telco r"
  "AdvProgrammeID (advance_of r) = a_prog r" "AdvSubscriberID (advance_of r) = a_sub r"
  "State (advance_of r) = a_state r" "Version (advance_of r) = a_version r"
  "amount (Outstanding (advance_of r)) = a_out r" "currency (Outstanding (advance_of r)) = a_cur r"
  "amount (Fee (advance_of r)) = a_fee r" "currency (Fee (advance_of r)) = a_cur r"
  "FundingPoolID (advance_of r) = (case a_pool r of None \<Rightarrow> '''' | Some x \<Rightarrow> x)"
  by (simp_all add: advance_of_def)

lemma Outstanding_advance_of: "Outstanding (advance_of r) = \<lparr>amount = a_out r, currency = a_cur r\<rparr>"
  by (simp add: advance_of_def)

lemma advanceScan_Inr [res_simps]: "advanceScan r = Inr a \<longleftrightarrow> Valid (a_cur r) \<and> a = advance_of r"
  by (auto simp: advanceScan_def advance_of_def res_simps)

lemma Advances_Get_InrD:
  "Advances_Get E aid s = Inr a \<Longrightarrow>
   \<exists>r \<in> set (advances s). a_telco r = tenant E \<and> a_id r = aid \<and> Valid (a_cur r) \<and> a = advance_of r"
  by (auto simp: Advances_Get_def res_simps dest!: find_SomeD)

lemma adv_update_Inr [res_simps]:
  "adv_update p f s = Inr s' \<longleftrightarrow>
     list_all advance_checks (upd_where p f (advances s)) \<and> one_active (upd_where p f (advances s))
     \<and> (\<exists>r \<in> set (advances s). p r) \<and> s' = s\<lparr>advances := upd_where p f (advances s)\<rparr>"
  by (auto simp: adv_update_def res_simps filter_empty_conv split: if_splits)

text \<open>
  The book: per funding pool, what its advances still owe, and what is promised to advances
  whose fulfilment is open.
\<close>

definition lent_state :: "AdvanceState \<Rightarrow> bool" where
  "lent_state st \<longleftrightarrow> st \<in> {AdvActive, AdvPartiallyRecovered, AdvClosed, AdvWrittenOff}"

definition held_state :: "AdvanceState \<Rightarrow> bool" where
  "held_state st \<longleftrightarrow> st \<in> {AdvExposureReserved, AdvPendingFulfilment, AdvFulfilmentUnknown}"

definition lent :: "db \<Rightarrow> string \<Rightarrow> int" where
  "lent s pid = (\<Sum>r\<leftarrow>advances s. if a_pool r = Some pid \<and> lent_state (a_state r) then sint (a_out r) else 0)"

definition held :: "db \<Rightarrow> string \<Rightarrow> int" where
  "held s pid = (\<Sum>r\<leftarrow>advances s. if a_pool r = Some pid \<and> held_state (a_state r) then sint (a_out r) else 0)"

text \<open>
  The invariant that ties treasury to the advance book: a pool's utilised amount is exactly what
  its advances owe and its reserved amount is exactly what is held for open fulfilments.
\<close>

definition funded :: "db \<Rightarrow> bool" where
  "funded s \<longleftrightarrow> distinct (map p_id (pools s)) \<and> distinct (map a_id (advances s))
     \<and> (\<forall>pid. utilised_of s pid = lent s pid \<and> reserved_of s pid = held s pid)"

lemma funded_distinct: "funded s \<Longrightarrow> distinct (map p_id (pools s)) \<and> distinct (map a_id (advances s))"
  by (simp add: funded_def)

text \<open>The invariant reads only the two tables.\<close>

lemma funded_frame:
  "advances s' = advances s \<Longrightarrow> pools s' = pools s \<Longrightarrow> funded s' \<longleftrightarrow> funded s"
  by (simp add: funded_def utilised_of_def reserved_of_def lent_def held_def)

text \<open>
  Changing one advance's outstanding within the lent states and moving its pool's utilisation by
  the same amount keeps the book funded; so does the activation that turns a reservation into
  utilisation, and the failure that releases it.
\<close>

lemma adv_update_effects:
  assumes ok: "adv_update p f s = Inr s'" and r: "r \<in> set (advances s)" "p r"
    and key: "\<And>q. p q \<Longrightarrow> a_id q = a_id r" and dst: "distinct (map a_id (advances s))"
    and id: "\<And>q. a_id (f q) = a_id q"
  shows "distinct (map a_id (advances s'))
    \<and> lent s' pid = lent s pid
        + ((if a_pool (f r) = Some pid \<and> lent_state (a_state (f r)) then sint (a_out (f r)) else 0)
         - (if a_pool r = Some pid \<and> lent_state (a_state r) then sint (a_out r) else 0))
    \<and> held s' pid = held s pid
        + ((if a_pool (f r) = Some pid \<and> held_state (a_state (f r)) then sint (a_out (f r)) else 0)
         - (if a_pool r = Some pid \<and> held_state (a_state r) then sint (a_out r) else 0))"
proof -
  have rows: "advances s' = upd_where p f (advances s)" using ok by (auto simp: res_simps)
  have "map a_id (advances s') = map a_id (advances s)"
    unfolding rows by (rule map_upd_where_key) (rule id)
  with dst show ?thesis
    unfolding lent_def held_def rows
    by (simp add: sum_upd_key [where k = a_id and p = p and r = r, OF dst r key])
qed

section \<open>Properties of the pools\<close>

lemma head_sort_key_least:
  "sort_key k xs = r # rs \<Longrightarrow> r \<in> set xs \<and> (\<forall>q \<in> set xs. k r \<le> k q)"
  by (metis list.set_intros(1) set_ConsD set_sort sorted_sort_key sorted_simps(2) list.simps(9) order_refl
      image_eqI image_set)

lemma pools_ok_sum: "pools_ok s \<Longrightarrow> r \<in> set (pools s) \<Longrightarrow>
  0 \<le> sint (p_reserved r) \<and> 0 \<le> sint (p_utilised r)
  \<and> sint (p_reserved r) + sint (p_utilised r) \<le> sint (p_committed r)"
  by (auto simp: pools_ok_def list_all_iff no_overallocation_def pool_checks_def)

lemma Reserve_effects:
  assumes ok: "pools_ok s" and cand: "reserve_candidates E prog amt s = r # rs" and pos: "0 < sint (amount amt)"
  shows "\<exists>s'. Reserve E prog amt s = Inr (p_id r, s') \<and> s' = s\<lparr>pools := pools s'\<rparr> \<and> pools_ok s'
     \<and> (\<forall>j. reserved_of s' j = reserved_of s j + (if j = p_id r then sint (amount amt) else 0)
            \<and> utilised_of s' j = utilised_of s j)"
proof -
  from cand have r: "r \<in> set (pools s)" "p_telco r = tenant E"
      "sint (p_committed r) - sint (p_reserved r) - sint (p_utilised r) \<ge> sint (amount amt)"
    using head_sort_key_least [OF cand [unfolded reserve_candidates_def]] by simp_all
  let ?p = "pool_visible E (p_id r)"
  let ?g = "\<lambda>q. q\<lparr>p_reserved := p_reserved q + amount amt\<rparr>"
  let ?rows = "upd_where ?p ?g (pools s)"
  have dst: "distinct (map p_id (pools s))" using ok by (simp add: pools_ok_def)
  have only: "q = r" if "q \<in> set (pools s)" "?p q" for q
    using distinct_key_unique [OF dst that(1) r(1)] that(2) by (simp add: pool_visible_def)
  have pr: "?p r" using r by (simp add: pool_visible_def)
  have rng: "in_i64 (sint (p_reserved r) + sint (amount amt))"
    using pools_ok_sum [OF ok r(1)] r(3) pos sint_bounds [of "p_committed r"] by (simp add: in_i64_def)
  have grow: "sint (p_reserved (?g r)) = sint (p_reserved r) + sint (amount amt)"
    using rng by (simp add: i64_simps)
  have upd: "update_rows ?p (\<lambda>q. andThen (sql_add (p_reserved q) (amount amt)) (\<lambda>v. Inr (q\<lparr>p_reserved := v\<rparr>)))
      (pools s) = Inr ?rows"
    using only rng by (auto simp: res_simps sql_add_def dest: only intro!: upd_where_cong_on)
  have gr: "no_overallocation (?g r) \<and> pool_checks (?g r)"
    using pools_ok_sum [OF ok r(1)] r(3) grow pos by (simp add: no_overallocation_def pool_checks_def)
  have checks: "list_all no_overallocation ?rows" "list_all pool_checks ?rows"
    using ok gr only by (auto simp: pools_ok_def list_all_iff set_upd_where)
  have key: "?p q \<Longrightarrow> p_id q = p_id r" for q by (simp add: pool_visible_def)
  note mv = sum_upd_key [where k = p_id and p = ?p, OF dst r(1) pr key]
  have "Reserve E prog amt s = Inr (p_id r, s\<lparr>pools := ?rows\<rparr>)"
    using cand upd checks by (simp add: Reserve_def andThen_Inr_iff put_pools_Inr)
  moreover have "map p_id ?rows = map p_id (pools s)" by (rule map_upd_where_key) simp
  ultimately show ?thesis
    using checks dst grow by (auto simp: pools_ok_def reserved_of_def utilised_of_def mv)
qed

text \<open>\<^verbatim>\<open>FundingPools.Reserve\<close> decides capacity exactly (V2-TRE-002). When a pool of the programme is
  active, in the amount's currency, the session's own and has headroom for the amount, the call
  reserves the amount in the first such pool by id, in no other, and the table stays free of
  over-allocation; otherwise it is \<open>ErrNoFundingCapacity\<close>. No constraint error can occur.\<close>

theorem Reserve_exact:
  assumes "pools_ok s" and "0 < sint (amount amt)"
  shows "case Reserve E prog amt s of
     Inl e \<Rightarrow> e = ErrNoFundingCapacity \<and> \<not> (\<exists>r \<in> set (pools s). p_telco r = tenant E \<and> p_prog r = prog
        \<and> p_status r = ''ACTIVE'' \<and> p_cur r = currency amt
        \<and> sint (p_reserved r) + sint (p_utilised r) + sint (amount amt) \<le> sint (p_committed r))
   | Inr (pid, s') \<Rightarrow> (\<exists>r \<in> set (pools s). p_id r = pid \<and> p_telco r = tenant E \<and> p_prog r = prog
        \<and> p_status r = ''ACTIVE'' \<and> p_cur r = currency amt
        \<and> sint (p_reserved r) + sint (p_utilised r) + sint (amount amt) \<le> sint (p_committed r))
      \<and> s' = s\<lparr>pools := pools s'\<rparr> \<and> pools_ok s'
      \<and> (\<forall>j. reserved_of s' j = reserved_of s j + (if j = pid then sint (amount amt) else 0)
             \<and> utilised_of s' j = utilised_of s j)"
proof (cases "reserve_candidates E prog amt s")
  case Nil
  then have "filter (\<lambda>r. p_telco r = tenant E \<and> p_prog r = prog \<and> p_status r = ''ACTIVE''
        \<and> p_cur r = currency amt
        \<and> sint (p_committed r) - sint (p_reserved r) - sint (p_utilised r) \<ge> sint (amount amt)) (pools s) = []"
    unfolding reserve_candidates_def by (metis (no_types, lifting) set_empty set_sort)
  then have "\<not> (\<exists>r \<in> set (pools s). p_telco r = tenant E \<and> p_prog r = prog \<and> p_status r = ''ACTIVE''
        \<and> p_cur r = currency amt
        \<and> sint (p_reserved r) + sint (p_utilised r) + sint (amount amt) \<le> sint (p_committed r))"
    by (auto simp: filter_empty_conv)
  with Nil show ?thesis by (simp add: Reserve_def)
next
  case (Cons r rs)
  then have "r \<in> set (pools s)" "p_telco r = tenant E" "p_prog r = prog" "p_status r = ''ACTIVE''"
      "p_cur r = currency amt"
      "sint (p_reserved r) + sint (p_utilised r) + sint (amount amt) \<le> sint (p_committed r)"
    using head_sort_key_least [OF Cons [unfolded reserve_candidates_def]] by simp_all
  with Reserve_effects [OF assms(1) Cons assms(2)] show ?thesis by auto
qed

definition sample_pool :: pool_row where
  "sample_pool = \<lparr>p_id = ''pool_1'', p_prog = ''prg_1'', p_telco = ''MTN_NG'', p_cur = ''NGN'', p_committed = 1000,
     p_reserved = 200, p_utilised = 300, p_status = ''ACTIVE''\<rparr>"

definition empty_db :: db where
  "empty_db = \<lparr>next_id = 0, subs = [], programmes = [], decisions = [], offers = [], disclosures = [],
     pools = [], advances = [], attempts = [], events = [], allocs = [], suspense = [], journals = [], entries = [],
     idem = [], pending = [], holds = [], writeoffs = [], trips = [], complaints = [],
     flags = [], selfexcls = [], consents = [], outbox = [], audit = [],
     configs = [], statements = [], stlines = [], statusacts = [], helds = [], reserveds = [], dailies = [], recon_runs = [], recon_items = [], break_actions = [], overrides = [], quals = []\<rparr>"

definition sample_env :: env where
  "sample_env = \<lparr>now = 1000, tenant = ''MTN_NG'', new_id = (\<lambda>p n. p @ ''_'' @ FormatInt (int n)),
     sha_hex = id, marshal = (\<lambda>_. ''''), rfc3339nano = FormatInt, json_decode = (\<lambda>_. None), jsonb_in = (\<lambda>b. if b = ''{}'' then Some (JObj []) else None), err_text = (\<lambda>_. ''error''), quoted = id\<rparr>"

theorem Reserve_exact_witness:
  "\<exists>pid s'. Reserve sample_env ''prg_1'' \<lparr>amount = 500, currency = ''NGN''\<rparr> (empty_db\<lparr>pools := [sample_pool]\<rparr>)
     = Inr (pid, s') \<and> pid = ''pool_1'' \<and> reserved_of s' ''pool_1'' = 700"
proof -
  let ?s = "empty_db\<lparr>pools := [sample_pool]\<rparr>" and ?m = "\<lparr>amount = 500, currency = ''NGN''\<rparr>"
  have "pools_ok ?s" "0 < sint (amount ?m)"
    by (simp_all add: pools_ok_def sample_pool_def no_overallocation_def pool_checks_def)
  from Reserve_exact [OF this, of sample_env "''prg_1''"]
  show ?thesis
    by (auto simp: sample_pool_def sample_env_def reserved_of_def split: sum.splits prod.splits)
qed

end
