(* ===== verification/RepoRecovery.thy ===== *)
theory RepoRecovery
  imports RepoCredit
begin

text \<open>
  The repositories behind recovery: events, allocations and suspense
  (\<^verbatim>\<open>repo/recovery.go\<close>), reversal parking and the reversal mutations
  (\<^verbatim>\<open>repo/reversals.go\<close>), idempotency records (\<^verbatim>\<open>repo/idempotency.go\<close>), the
  re-origination holds (\<^verbatim>\<open>repo/recoveryholds.go\<close>), and the outbox and audit appends.
  Idempotency records are an interface of their own: a locale states what a client may rely
  on, and the repository's operations interpret it.
\<close>

section \<open>Recovery events\<close>

definition RecoveryEvents_Insert :: "env \<Rightarrow> RecoveryEvent \<Rightarrow> db \<Rightarrow> err + bool \<times> db" where
  "RecoveryEvents_Insert E e s =
     andThen (rls_check E (EvtTelcoID e)) (\<lambda>_.
     if sint (amount (EvtAmount e)) \<le> 0 then Inl (Pg ''23514'' ''recovery_events_amount_minor_check'')
     else if \<exists>r \<in> set (events s). e_telco r = EvtTelcoID e \<and> e_source r = SourceEventID e then Inr (False, s)
     else Inr (True, s\<lparr>events := events s @
       [\<lparr>e_id = RecoveryEventID e, e_telco = EvtTelcoID e, e_source = SourceEventID e,
         e_sub = NULLIF_empty (EvtSubscriberID e), e_token = NULLIF_empty (EvtMSISDNToken e),
         e_amount = amount (EvtAmount e), e_cur = currency (EvtAmount e), e_state = EvtState e,
         e_occurred = OccurredAt e\<rparr>]\<rparr>))"

definition RecoveryEvents_GetBySource :: "env \<Rightarrow> string \<Rightarrow> db \<Rightarrow> err + RecoveryEvent" where
  "RecoveryEvents_GetBySource E src s =
     andThen (queryRow (\<lambda>r. e_telco r = tenant E \<and> e_source r = src) (events s)) (\<lambda>r.
     andThen (scanMoney (e_amount r) (e_cur r)) (\<lambda>m.
     Inr \<lparr>RecoveryEventID = e_id r, EvtTelcoID = e_telco r, SourceEventID = e_source r,
          EvtSubscriberID = (case e_sub r of None \<Rightarrow> '''' | Some x \<Rightarrow> x), EvtMSISDNToken = '''',
          EvtAmount = m, EvtState = e_state r, OccurredAt = e_occurred r\<rparr>))"

definition RecoveryEvents_SetState ::
  "env \<Rightarrow> string \<Rightarrow> RecoveryEventState \<Rightarrow> RecoveryEventState \<Rightarrow> db \<Rightarrow> err + db" where
  "RecoveryEvents_SetState E rid frm to s =
     (let p = (\<lambda>r. e_telco r = tenant E \<and> e_id r = rid \<and> e_state r = frm) in
      if filter p (events s) = [] then Inl ErrNotFound
      else Inr (s\<lparr>events := upd_where p (\<lambda>r. r\<lparr>e_state := to\<rparr>) (events s)\<rparr>))"

section \<open>Allocations and suspense\<close>

definition Allocations_Insert :: "env \<Rightarrow> RecoveryAllocation \<Rightarrow> db \<Rightarrow> err + db" where
  "Allocations_Insert E a s =
     (if \<not> adv_visible E s (AlcAdvanceID a) then Inl (Pg ''42501'' ''row-level security'')
      else if amount (AlcAmount a) = 0 then Inl (Pg ''23514'' ''recovery_allocations_amount_nonzero_ck'')
      else Inr (s\<lparr>allocs := allocs s @
        [\<lparr>al_id = AllocationID a, al_event = AlcEventID a, al_adv = AlcAdvanceID a, al_comp = Component a,
          al_amount = amount (AlcAmount a), al_cur = currency (AlcAmount a)\<rparr>]\<rparr>))"

text \<open>A NUMERIC aggregate scanned into an \<^verbatim>\<open>int64\<close>.\<close>

definition scan_int64 :: "int \<Rightarrow> err + i64" where
  "scan_int64 x = (if in_i64 x then Inr (word_of_int x) else Inl (Fmt ''cannot scan into int64''))"

definition sum_amounts :: "alloc_row list \<Rightarrow> int" where
  "sum_amounts rows = (\<Sum>r\<leftarrow>rows. sint (al_amount r))"

type_synonym by_component = "AllocationComponent \<Rightarrow> money option"

fun sum_groups :: "alloc_row list \<Rightarrow> (AllocationComponent \<times> string) list \<Rightarrow> by_component \<Rightarrow> err + by_component" where
  "sum_groups rows [] out = Inr out"
| "sum_groups rows ((c, cur) # gs) out =
     andThen (scan_int64 (sum_amounts (filter (\<lambda>r. al_comp r = c \<and> al_cur r = cur) rows))) (\<lambda>v.
     andThen (scanMoney v cur) (\<lambda>m.
     if out c \<noteq> None then Inl (Fmt ''allocation component spans currencies'')
     else sum_groups rows gs (out(c \<mapsto> m))))"

definition SumByComponent :: "env \<Rightarrow> string \<Rightarrow> db \<Rightarrow> err + by_component" where
  "SumByComponent E aid s =
     (let rows = filter (\<lambda>r. adv_visible E s (al_adv r) \<and> al_adv r = aid) (allocs s) in
      sum_groups rows (remdups (map (\<lambda>r. (al_comp r, al_cur r)) rows)) Map.empty)"

definition Suspense_Insert :: "env \<Rightarrow> string \<Rightarrow> string \<Rightarrow> money \<Rightarrow> string \<Rightarrow> db \<Rightarrow> err + db" where
  "Suspense_Insert E telco rid amt reason s =
     andThen (rls_check E telco) (\<lambda>_.
     if sint (amount amt) \<le> 0 then Inl (Pg ''23514'' ''suspense_items_amount_minor_check'')
     else if \<exists>r \<in> set (suspense s). ss_id r = ''ssp_'' @ rid then Inl (Pg ''23505'' ''suspense_items_pkey'')
     else Inr (s\<lparr>suspense := suspense s @
       [\<lparr>ss_id = ''ssp_'' @ rid, ss_telco = telco, ss_event = rid, ss_amount = amount amt, ss_cur = currency amt,
         ss_reason = reason\<rparr>]\<rparr>))"

section \<open>Advance-side mutations\<close>

definition FindOpenBySubscriber :: "env \<Rightarrow> string \<Rightarrow> db \<Rightarrow> err + Advance" where
  "FindOpenBySubscriber E sub s =
     (case sort_key a_accepted (filter (\<lambda>r. a_telco r = tenant E \<and> a_sub r = sub
             \<and> a_state r \<in> {AdvActive, AdvPartiallyRecovered}) (advances s)) of
        [] \<Rightarrow> Inl ErrNotFound | r # _ \<Rightarrow> advanceScan r)"

definition ApplyRecovery ::
  "env \<Rightarrow> string \<Rightarrow> int \<Rightarrow> AdvanceState \<Rightarrow> AdvanceState \<Rightarrow> money \<Rightarrow> db \<Rightarrow> err + db" where
  "ApplyRecovery E aid v frm to newOut s =
     (if \<not> CanTransition frm to \<and> frm \<noteq> to then Inl ErrIllegalTransition
      else adv_update (adv_at E aid v frm)
        (\<lambda>r. r\<lparr>a_out := amount newOut, a_state := to, a_version := a_version r + 1, a_updated := now E,
               a_closed := (if to = AdvClosed then Some (now E) else a_closed r)\<rparr>) s)"

definition FindWrittenOffBySubscriber :: "env \<Rightarrow> string \<Rightarrow> db \<Rightarrow> err + Advance" where
  "FindWrittenOffBySubscriber E sub s =
     (case sort_key (\<lambda>r. - a_updated r) (filter (\<lambda>r. a_telco r = tenant E \<and> a_sub r = sub
             \<and> a_state r = AdvWrittenOff) (advances s)) of
        [] \<Rightarrow> Inl ErrNotFound | r # _ \<Rightarrow> advanceScan r)"

definition ApplyReversal ::
  "env \<Rightarrow> string \<Rightarrow> int \<Rightarrow> AdvanceState \<Rightarrow> AdvanceState \<Rightarrow> money \<Rightarrow> db \<Rightarrow> err + db" where
  "ApplyReversal E aid v frm to newOut s =
     (if \<not> CanTransition frm to \<and> frm \<noteq> to then Inl ErrIllegalTransition
      else adv_update (adv_at E aid v frm)
        (\<lambda>r. r\<lparr>a_state := to, a_out := amount newOut, a_version := a_version r + 1, a_closed := None,
               a_updated := now E\<rparr>) s)"

definition DueEnquiries :: "env \<Rightarrow> int \<Rightarrow> int \<Rightarrow> nat \<Rightarrow> db \<Rightarrow> FulfilmentAttempt list" where
  "DueEnquiries E at staleSentBefore limit s =
     map attemptScan (take limit (sort_key at_submitted (filter (\<lambda>r. adv_visible E s (at_adv r) \<and>
        ((at_state r = AttemptUnknown \<and> (case at_next r of None \<Rightarrow> False | Some n \<Rightarrow> n \<le> at))
         \<or> (at_state r = AttemptSent \<and> at_submitted r < staleSentBefore))) (attempts s))))"

definition RescheduleEnquiry :: "env \<Rightarrow> string \<Rightarrow> int \<Rightarrow> db \<Rightarrow> err + db" where
  "RescheduleEnquiry E aid nextAt s =
     Inr (s\<lparr>attempts := upd_where (\<lambda>r. adv_visible E s (at_adv r) \<and> at_id r = aid)
        (\<lambda>r. r\<lparr>at_count := at_count r + 1, at_next := Some nextAt,
               at_state := (if at_state r = AttemptSent then AttemptUnknown else at_state r)\<rparr>) (attempts s)\<rparr>)"

section \<open>Parked reversals\<close>

record PendingReversal =
  PendingReversalID :: string
  PrvTelcoID :: string
  OriginalSourceEventID :: string
  ReversalSourceEventID :: string
  PrvAmount :: money
  PrvState :: string
  ParkReason :: string
  AppliedAt :: "int option"

definition Park :: "env \<Rightarrow> PendingReversal \<Rightarrow> db \<Rightarrow> err + bool \<times> db" where
  "Park E p s =
     (let reason = (if ParkReason p = '''' then ''ORIGINAL_UNSEEN'' else ParkReason p) in
      andThen (rls_check E (PrvTelcoID p)) (\<lambda>_.
      if sint (amount (PrvAmount p)) \<le> 0 then Inl (Pg ''23514'' ''pending_reversals_amount_minor_check'')
      else if \<exists>r \<in> set (pending s). pr_id r = PendingReversalID p
           \<or> (pr_telco r = PrvTelcoID p \<and> (pr_original r = OriginalSourceEventID p
                                          \<or> pr_reversal r = ReversalSourceEventID p)) then Inr (False, s)
      else Inr (True, s\<lparr>pending := pending s @
        [\<lparr>pr_id = PendingReversalID p, pr_telco = PrvTelcoID p, pr_original = OriginalSourceEventID p,
          pr_reversal = ReversalSourceEventID p, pr_amount = amount (PrvAmount p),
          pr_cur = currency (PrvAmount p), pr_state = ''PARKED'', pr_reason = reason, pr_applied = None\<rparr>]\<rparr>)))"

definition is_parked :: "env \<Rightarrow> string \<Rightarrow> pending_row \<Rightarrow> bool" where
  "is_parked E pid r \<longleftrightarrow> pr_telco r = tenant E \<and> pr_id r = pid \<and> pr_state r = ''PARKED''"

definition SetParkReason :: "env \<Rightarrow> string \<Rightarrow> string \<Rightarrow> db \<Rightarrow> err + db" where
  "SetParkReason E pid reason s =
     Inr (s\<lparr>pending := upd_where (is_parked E pid) (\<lambda>r. r\<lparr>pr_reason := reason\<rparr>) (pending s)\<rparr>)"

definition pendingScan :: "pending_row \<Rightarrow> err + PendingReversal" where
  "pendingScan r =
     andThen (scanMoney (pr_amount r) (pr_cur r)) (\<lambda>m.
     Inr \<lparr>PendingReversalID = pr_id r, PrvTelcoID = pr_telco r, OriginalSourceEventID = pr_original r,
          ReversalSourceEventID = pr_reversal r, PrvAmount = m, PrvState = pr_state r, ParkReason = pr_reason r,
          AppliedAt = pr_applied r\<rparr>)"

definition FindParkedForOriginal :: "env \<Rightarrow> string \<Rightarrow> db \<Rightarrow> err + PendingReversal" where
  "FindParkedForOriginal E src s =
     andThen (queryRow (\<lambda>r. pr_telco r = tenant E \<and> pr_original r = src \<and> pr_state r = ''PARKED'') (pending s))
       pendingScan"

definition ClaimParkedByID :: "env \<Rightarrow> string \<Rightarrow> db \<Rightarrow> err + PendingReversal" where
  "ClaimParkedByID E pid s = andThen (queryRow (is_parked E pid) (pending s)) pendingScan"

definition MarkApplied :: "env \<Rightarrow> string \<Rightarrow> db \<Rightarrow> err + db" where
  "MarkApplied E pid s =
     (if filter (is_parked E pid) (pending s) = [] then Inl ErrNotFound
      else Inr (s\<lparr>pending := upd_where (is_parked E pid)
             (\<lambda>r. r\<lparr>pr_state := ''APPLIED'', pr_applied := Some (now E)\<rparr>) (pending s)\<rparr>))"

text \<open>The receivable rows of an event: fee and principal, reversal rows included.\<close>

definition receivable_rows :: "env \<Rightarrow> string \<Rightarrow> db \<Rightarrow> alloc_row list" where
  "receivable_rows E rid s = filter (\<lambda>r. adv_visible E s (al_adv r) \<and> al_event r = rid
      \<and> al_comp r \<in> {ComponentFee, ComponentPrincipal}) (allocs s)"

definition NetAppliedByEvent :: "env \<Rightarrow> string \<Rightarrow> db \<Rightarrow> err + money \<times> string" where
  "NetAppliedByEvent E rid s =
     (let rows = receivable_rows E rid s in
      andThen (scan_int64 (sum_amounts rows)) (\<lambda>v.
      if rows = [] then Inl ErrNotFound
      else andThen (scanMoney v (Min (set (map al_cur rows)))) (\<lambda>m. Inr (m, Min (set (map al_adv rows))))))"

fun net_groups :: "alloc_row list \<Rightarrow> AllocationComponent list \<Rightarrow> by_component \<Rightarrow> err + by_component" where
  "net_groups rows [] out = Inr out"
| "net_groups rows (c # cs) out =
     (let mine = filter (\<lambda>r. al_comp r = c) rows in
      andThen (scan_int64 (sum_amounts mine)) (\<lambda>v.
      andThen (scanMoney v (Min (set (map al_cur mine)))) (\<lambda>m. net_groups rows cs (out(c \<mapsto> m)))))"

definition ListNetByEventComponent :: "env \<Rightarrow> string \<Rightarrow> db \<Rightarrow> err + by_component" where
  "ListNetByEventComponent E rid s =
     (let rows = filter (\<lambda>r. adv_visible E s (al_adv r) \<and> al_event r = rid) (allocs s) in
      net_groups rows (remdups (map al_comp rows)) Map.empty)"

section \<open>Idempotency records\<close>

definition is_idem :: "env \<Rightarrow> string \<Rightarrow> string \<Rightarrow> string \<Rightarrow> idem_row \<Rightarrow> bool" where
  "is_idem E telco op key r \<longleftrightarrow> i_telco r = tenant E \<and> i_telco r = telco \<and> i_op r = op \<and> i_key r = key"

definition Idempotency_Get :: "env \<Rightarrow> string \<Rightarrow> string \<Rightarrow> string \<Rightarrow> db \<Rightarrow> err + idem_row" where
  "Idempotency_Get E telco op key s = queryRow (is_idem E telco op key) (idem s)"

definition PutIfAbsent :: "env \<Rightarrow> idem_row \<Rightarrow> db \<Rightarrow> err + (idem_row \<times> bool) \<times> db" where
  "PutIfAbsent E rec s =
     andThen (rls_check E (i_telco rec)) (\<lambda>_.
     if \<exists>r \<in> set (idem s). i_telco r = i_telco rec \<and> i_op r = i_op rec \<and> i_key r = i_key rec
     then andThen (Idempotency_Get E (i_telco rec) (i_op rec) (i_key rec) s) (\<lambda>ex. Inr ((ex, False), s))
     else Inr ((rec, True), s\<lparr>idem := idem s @ [rec]\<rparr>))"

text \<open>The write-once trigger of migration 0029 on the rows an UPDATE touches.\<close>

definition write_once :: "int \<Rightarrow> json \<Rightarrow> idem_row \<Rightarrow> err + idem_row" where
  "write_once st body r =
     (if i_status r \<noteq> 0 \<and> (st \<noteq> i_status r \<or> body \<noteq> i_body r)
      then Inl (Pg ''P0001'' ''idempotency_response_write_once'')
      else Inr (r\<lparr>i_status := st, i_body := body\<rparr>))"

definition SetResponse :: "env \<Rightarrow> string \<Rightarrow> string \<Rightarrow> string \<Rightarrow> int \<Rightarrow> json \<Rightarrow> db \<Rightarrow> err + db" where
  "SetResponse E telco op key st body s =
     andThen (update_rows (is_idem E telco op key) (write_once st body) (idem s)) (\<lambda>rows.
     if filter (is_idem E telco op key) (idem s) = [] then Inl ErrNotFound else Inr (s\<lparr>idem := rows\<rparr>))"

definition SetResponseIfAbsent :: "env \<Rightarrow> string \<Rightarrow> string \<Rightarrow> string \<Rightarrow> int \<Rightarrow> json \<Rightarrow> db \<Rightarrow> err + bool \<times> db" where
  "SetResponseIfAbsent E telco op key st body s =
     (let p = (\<lambda>r. is_idem E telco op key r \<and> i_status r = 0) in
      andThen (update_rows p (write_once st body) (idem s)) (\<lambda>rows.
      if length (filter p (idem s)) = 1 then Inr (True, s\<lparr>idem := rows\<rparr>)
      else if \<not> (\<exists>r \<in> set (idem s). is_idem E telco op key r) then Inl ErrNotFound
      else Inr (False, s\<lparr>idem := rows\<rparr>)))"

definition MarkTerminal :: "env \<Rightarrow> string \<Rightarrow> string \<Rightarrow> string \<Rightarrow> db \<Rightarrow> err + db" where
  "MarkTerminal E telco op key s =
     Inr (s\<lparr>idem := upd_where (is_idem E telco op key) (\<lambda>r. r\<lparr>i_terminal := True\<rparr>) (idem s)\<rparr>)"

section \<open>Holds, outbox, audit\<close>

definition RecoveryHolds_Insert :: "env \<Rightarrow> string \<Rightarrow> string \<Rightarrow> string \<Rightarrow> string \<Rightarrow> db \<Rightarrow> err + db" where
  "RecoveryHolds_Insert E telco sub aid rid s =
     (let (hid, s) = NewID E ''ruc'' s in
      andThen (rls_check E telco) (\<lambda>_.
      if \<exists>r \<in> set (holds s). h_event r = rid then Inr s
      else Inr (s\<lparr>holds := holds s @
        [\<lparr>h_telco = telco, h_sub = sub, h_adv = aid, h_event = rid, h_cleared = None\<rparr>]\<rparr>)))"

definition HasUncleared :: "env \<Rightarrow> string \<Rightarrow> db \<Rightarrow> bool" where
  "HasUncleared E sub s \<longleftrightarrow> (\<exists>r \<in> set (holds s). h_telco r = tenant E \<and> h_sub r = sub \<and> h_cleared r = None)"

text \<open>
  The sequence number is assigned by the database, above every earlier one; a fresh event is
  unpublished, with no attempt behind it.
\<close>

definition next_seq :: "outbox_row list \<Rightarrow> nat" where
  "next_seq rows = Suc (foldr max (map ob_seq rows) 0)"

definition outbox_entry :: "nat \<Rightarrow> OutboxEvent \<Rightarrow> outbox_row" where
  "outbox_entry n e = OutboxEvent.extend e
     \<lparr>ob_seq = n, ob_published = None, ob_attempts = 0, ob_error = None, ob_dead = None\<rparr>"

definition Outbox_Append :: "env \<Rightarrow> OutboxEvent \<Rightarrow> db \<Rightarrow> err + db" where
  "Outbox_Append E e s = andThen (rls_check E (ob_telco e)) (\<lambda>_.
     Inr (s\<lparr>outbox := outbox s @ [outbox_entry (next_seq (outbox s)) e]\<rparr>))"

definition Audit_Insert :: "env \<Rightarrow> audit_row \<Rightarrow> db \<Rightarrow> err + db" where
  "Audit_Insert E e s =
     andThen (if au_telco e = '''' then Inr () else rls_check E (au_telco e))
       (\<lambda>_. Inr (s\<lparr>audit := audit s @ [e]\<rparr>))"

section \<open>What the statements do\<close>

lemma RecoveryEvents_Insert_Inr:
  "RecoveryEvents_Insert E e s = Inr (c, s') \<Longrightarrow>
     EvtTelcoID e = tenant E \<and> 0 < sint (amount (EvtAmount e))
     \<and> (if c then s' = s\<lparr>events := events s'\<rparr> \<and> (\<exists>r. events s' = events s @ [r] \<and> e_id r = RecoveryEventID e
            \<and> e_telco r = EvtTelcoID e \<and> e_source r = SourceEventID e \<and> e_amount r = amount (EvtAmount e)
            \<and> e_cur r = currency (EvtAmount e) \<and> e_state r = EvtState e)
        else s' = s \<and> (\<exists>r \<in> set (events s). e_telco r = EvtTelcoID e \<and> e_source r = SourceEventID e))"
  by (auto simp: RecoveryEvents_Insert_def res_simps split: if_splits)

lemma RecoveryEvents_SetState_Inr [res_simps]:
  "RecoveryEvents_SetState E rid frm to s = Inr s' \<longleftrightarrow>
     (\<exists>r \<in> set (events s). e_telco r = tenant E \<and> e_id r = rid \<and> e_state r = frm)
     \<and> s' = s\<lparr>events := upd_where (\<lambda>r. e_telco r = tenant E \<and> e_id r = rid \<and> e_state r = frm)
                          (\<lambda>r. r\<lparr>e_state := to\<rparr>) (events s)\<rparr>"
  by (auto simp: RecoveryEvents_SetState_def filter_empty_conv)

lemma Allocations_Insert_Inr [res_simps]:
  "Allocations_Insert E a s = Inr s' \<longleftrightarrow> adv_visible E s (AlcAdvanceID a) \<and> amount (AlcAmount a) \<noteq> 0
     \<and> s' = s\<lparr>allocs := allocs s @
        [\<lparr>al_id = AllocationID a, al_event = AlcEventID a, al_adv = AlcAdvanceID a, al_comp = Component a,
          al_amount = amount (AlcAmount a), al_cur = currency (AlcAmount a)\<rparr>]\<rparr>"
  by (auto simp: Allocations_Insert_def)

lemma Suspense_Insert_Inr [res_simps]:
  "Suspense_Insert E telco rid amt reason s = Inr s' \<longleftrightarrow>
     telco = tenant E \<and> 0 < sint (amount amt) \<and> (\<forall>r \<in> set (suspense s). ss_id r \<noteq> ''ssp_'' @ rid)
     \<and> s' = s\<lparr>suspense := suspense s @
       [\<lparr>ss_id = ''ssp_'' @ rid, ss_telco = telco, ss_event = rid, ss_amount = amount amt, ss_cur = currency amt,
         ss_reason = reason\<rparr>]\<rparr>"
  by (auto simp: Suspense_Insert_def res_simps split: if_splits)

lemma scan_int64_Inr [res_simps]: "scan_int64 x = Inr v \<longleftrightarrow> in_i64 x \<and> v = word_of_int x"
  by (auto simp: scan_int64_def)

lemma scanMoney_Inr [res_simps]:
  "scanMoney a c = Inr m \<longleftrightarrow> Valid c \<and> m = \<lparr>amount = a, currency = c\<rparr>"
  by (simp add: scanMoney_def res_simps)

lemma FindOpen_InrD:
  "FindOpenBySubscriber E sub s = Inr a \<Longrightarrow>
   \<exists>r \<in> set (advances s). a_telco r = tenant E \<and> a_sub r = sub
     \<and> a_state r \<in> {AdvActive, AdvPartiallyRecovered} \<and> Valid (a_cur r) \<and> a = advance_of r"
  by (auto simp: FindOpenBySubscriber_def res_simps split: list.splits dest!: head_sort_key_least)

lemma FindWrittenOff_InrD:
  "FindWrittenOffBySubscriber E sub s = Inr a \<Longrightarrow>
   \<exists>r \<in> set (advances s). a_telco r = tenant E \<and> a_sub r = sub
     \<and> a_state r = AdvWrittenOff \<and> Valid (a_cur r) \<and> a = advance_of r"
  by (auto simp: FindWrittenOffBySubscriber_def res_simps split: list.splits dest!: head_sort_key_least)

lemma Park_Inr:
  "Park E p s = Inr (c, s') \<Longrightarrow> s' = s\<lparr>pending := pending s'\<rparr> \<and> (\<not> c \<longrightarrow> s' = s)"
  by (auto simp: Park_def res_simps Let_def split: if_splits)

lemma SetParkReason_Inr [res_simps]:
  "SetParkReason E pid reason s = Inr s' \<longleftrightarrow>
     s' = s\<lparr>pending := upd_where (is_parked E pid) (\<lambda>r. r\<lparr>pr_reason := reason\<rparr>) (pending s)\<rparr>"
  by (auto simp: SetParkReason_def)

lemma MarkApplied_Inr [res_simps]:
  "MarkApplied E pid s = Inr s' \<longleftrightarrow> (\<exists>r \<in> set (pending s). is_parked E pid r)
     \<and> s' = s\<lparr>pending := upd_where (is_parked E pid)
             (\<lambda>r. r\<lparr>pr_state := ''APPLIED'', pr_applied := Some (now E)\<rparr>) (pending s)\<rparr>"
  by (auto simp: MarkApplied_def filter_empty_conv)

lemma pendingScan_Inr [res_simps]:
  "pendingScan r = Inr p \<longleftrightarrow> Valid (pr_cur r) \<and>
     p = \<lparr>PendingReversalID = pr_id r, PrvTelcoID = pr_telco r, OriginalSourceEventID = pr_original r,
          ReversalSourceEventID = pr_reversal r, PrvAmount = \<lparr>amount = pr_amount r, currency = pr_cur r\<rparr>,
          PrvState = pr_state r, ParkReason = pr_reason r, AppliedAt = pr_applied r\<rparr>"
  by (auto simp: pendingScan_def res_simps)

lemma Outbox_Append_Inr [res_simps]:
  "Outbox_Append E e s = Inr s' \<longleftrightarrow> ob_telco e = tenant E \<and> s' = s\<lparr>outbox := outbox s @ [outbox_entry (next_seq (outbox s)) e]\<rparr>"
  by (auto simp: Outbox_Append_def res_simps)

lemma Audit_Insert_Inr [res_simps]:
  "Audit_Insert E e s = Inr s' \<longleftrightarrow>
     (au_telco e = '''' \<or> au_telco e = tenant E) \<and> s' = s\<lparr>audit := audit s @ [e]\<rparr>"
  by (auto simp: Audit_Insert_def res_simps)

lemma RecoveryHolds_Insert_Inr:
  "RecoveryHolds_Insert E telco sub aid rid s = Inr s' \<Longrightarrow>
     telco = tenant E \<and> s' = s\<lparr>next_id := Suc (next_id s), holds := holds s'\<rparr>
     \<and> (\<exists>r \<in> set (holds s'). h_event r = rid)"
  by (auto simp: RecoveryHolds_Insert_def NewID_def res_simps split: if_splits)

section \<open>The contract of the idempotency records\<close>

text \<open>
  What the money paths rely on: a claim is stored once, a second claim returns the stored record
  and changes nothing, a response is recorded on the claimed record only, and a recorded response
  is never replaced.
\<close>

locale idempotency_store =
  fixes put :: "env \<Rightarrow> idem_row \<Rightarrow> db \<Rightarrow> err + (idem_row \<times> bool) \<times> db"
    and get :: "env \<Rightarrow> string \<Rightarrow> string \<Rightarrow> string \<Rightarrow> db \<Rightarrow> err + idem_row"
    and resp :: "env \<Rightarrow> string \<Rightarrow> string \<Rightarrow> string \<Rightarrow> int \<Rightarrow> json \<Rightarrow> db \<Rightarrow> err + db"
  assumes put_new: "put E rec s = Inr ((r, True), s') \<Longrightarrow>
      r = rec \<and> get E (i_telco rec) (i_op rec) (i_key rec) s' = Inr rec \<and> s' = s\<lparr>idem := idem s'\<rparr>"
    and put_old: "get E t op k s = Inr r \<Longrightarrow> i_telco rec = t \<Longrightarrow> i_op rec = op \<Longrightarrow> i_key rec = k \<Longrightarrow>
      put E rec s = Inr ((r, False), s)"
    and put_dup: "put E rec s = Inr ((r, False), s') \<Longrightarrow>
      s' = s \<and> get E (i_telco rec) (i_op rec) (i_key rec) s = Inr r"
    and resp_get: "resp E t op k st b s = Inr s' \<Longrightarrow>
      s' = s\<lparr>idem := idem s'\<rparr> \<and> (\<exists>r. get E t op k s = Inr r \<and> get E t op k s' = Inr (r\<lparr>i_status := st, i_body := b\<rparr>))"
    and resp_once: "get E t op k s = Inr r \<Longrightarrow> i_status r \<noteq> 0 \<Longrightarrow> (st, b) \<noteq> (i_status r, i_body r) \<Longrightarrow>
      resp E t op k st b s \<notin> range Inr"
    and get_frame: "idem s' = idem s \<Longrightarrow> get E t op k s' = get E t op k s"
begin

text \<open>A claimed and answered command replays its answer, however often it is claimed again.\<close>

lemma replay:
  assumes "get E t op k s = Inr rec" "resp E t op k st b s = Inr s'"
    and "i_telco rec' = t" "i_op rec' = op" "i_key rec' = k"
  shows "put E rec' s' = Inr ((rec\<lparr>i_status := st, i_body := b\<rparr>, False), s')"
proof -
  from resp_get [OF assms(2)] assms(1) have "get E t op k s' = Inr (rec\<lparr>i_status := st, i_body := b\<rparr>)" by simp
  from put_old [OF this assms(3-5)] show ?thesis .
qed

end

lemma is_idem_fields [simp]:
  "is_idem E t op k (r\<lparr>i_status := st, i_body := b\<rparr>) = is_idem E t op k r"
  by (simp add: is_idem_def)

lemma PutIfAbsent_new:
  assumes "PutIfAbsent E rec s = Inr ((r, True), s')"
  shows "r = rec \<and> Idempotency_Get E (i_telco rec) (i_op rec) (i_key rec) s' = Inr rec \<and> s' = s\<lparr>idem := idem s'\<rparr>"
proof -
  from assms have "List.find (is_idem E (i_telco rec) (i_op rec) (i_key rec)) (idem s) = None"
    by (auto simp: PutIfAbsent_def res_simps find_None_iff is_idem_def split: if_splits)
  moreover have "find p (xs @ [x]) = (if find p xs = None then (if p x then Some x else None) else find p xs)"
    for p and xs :: "idem_row list" and x by (induction xs) auto
  ultimately show ?thesis
    using assms by (auto simp: PutIfAbsent_def Idempotency_Get_def res_simps is_idem_def split: if_splits)
qed

lemma Get_present: "Idempotency_Get E t op k s = Inr r \<Longrightarrow>
  t = tenant E \<and> r \<in> set (idem s) \<and> i_telco r = t \<and> i_op r = op \<and> i_key r = k"
  by (auto simp: Idempotency_Get_def is_idem_def dest!: queryRow_InrD)

lemma SetResponse_Inr:
  "SetResponse E t op k st b s = Inr s' \<Longrightarrow>
     s' = s\<lparr>idem := upd_where (is_idem E t op k) (\<lambda>r. r\<lparr>i_status := st, i_body := b\<rparr>) (idem s)\<rparr>
     \<and> (\<exists>r \<in> set (idem s). is_idem E t op k r)
     \<and> (\<forall>r \<in> set (idem s). is_idem E t op k r \<longrightarrow> i_status r \<noteq> 0 \<longrightarrow> (st, b) = (i_status r, i_body r))"
proof -
  assume "SetResponse E t op k st b s = Inr s'"
  then have ok: "\<forall>r \<in> set (idem s). is_idem E t op k r \<longrightarrow> write_once st b r \<in> range Inr"
    and s': "s' = s\<lparr>idem := upd_where (is_idem E t op k) (projr \<circ> write_once st b) (idem s)\<rparr>"
    and ex: "\<exists>r \<in> set (idem s). is_idem E t op k r"
    by (auto simp: SetResponse_def res_simps filter_empty_conv split: if_splits)
  have once: "write_once st b r \<in> range Inr \<Longrightarrow> write_once st b r = Inr (r\<lparr>i_status := st, i_body := b\<rparr>)
      \<and> (i_status r \<noteq> 0 \<longrightarrow> (st, b) = (i_status r, i_body r))" for r
    by (cases "i_status r \<noteq> 0 \<and> (st \<noteq> i_status r \<or> b \<noteq> i_body r)") (auto simp: write_once_def)
  from ok have "\<forall>r \<in> set (idem s). is_idem E t op k r \<longrightarrow>
      write_once st b r = Inr (r\<lparr>i_status := st, i_body := b\<rparr>)
      \<and> (i_status r \<noteq> 0 \<longrightarrow> (st, b) = (i_status r, i_body r))"
    using once by blast
  then show ?thesis unfolding s' using ex by (auto intro!: arg_cong [where f = "\<lambda>x. s\<lparr>idem := x\<rparr>"] upd_where_cong_on)
qed

lemma find_matching: "List.find p xs = None \<or> (\<exists>r. List.find p xs = Some r \<and> p r \<and> r \<in> set xs)"
  by (metis find_SomeD not_None_eq)

interpretation idem: idempotency_store PutIfAbsent Idempotency_Get SetResponse
proof
  fix E rec s r s' t op k st b
  show "PutIfAbsent E rec s = Inr ((r, True), s') \<Longrightarrow>
      r = rec \<and> Idempotency_Get E (i_telco rec) (i_op rec) (i_key rec) s' = Inr rec \<and> s' = s\<lparr>idem := idem s'\<rparr>"
    by (rule PutIfAbsent_new)
  show "Idempotency_Get E t op k s = Inr r \<Longrightarrow> i_telco rec = t \<Longrightarrow> i_op rec = op \<Longrightarrow> i_key rec = k \<Longrightarrow>
      PutIfAbsent E rec s = Inr ((r, False), s)"
    using Get_present [of E t op k s r] by (auto simp: PutIfAbsent_def)
  show "PutIfAbsent E rec s = Inr ((r, False), s') \<Longrightarrow>
      s' = s \<and> Idempotency_Get E (i_telco rec) (i_op rec) (i_key rec) s = Inr r"
    by (auto simp: PutIfAbsent_def andThen_Inr_iff split: if_splits)
  show "idem s' = idem s \<Longrightarrow> Idempotency_Get E t op k s' = Idempotency_Get E t op k s"
    by (simp add: Idempotency_Get_def)
  show "s' = s\<lparr>idem := idem s'\<rparr> \<and> (\<exists>r. Idempotency_Get E t op k s = Inr r
      \<and> Idempotency_Get E t op k s' = Inr (r\<lparr>i_status := st, i_body := b\<rparr>))"
    if "SetResponse E t op k st b s = Inr s'"
  proof -
    note eff = SetResponse_Inr [OF that]
    then obtain q where q: "List.find (is_idem E t op k) (idem s) = Some q" "is_idem E t op k q"
      using find_matching [of "is_idem E t op k" "idem s"] by (auto simp: find_None_iff)
    then have "List.find (is_idem E t op k) (idem s') = Some (q\<lparr>i_status := st, i_body := b\<rparr>)"
      using eff by (simp add: find_upd_where)
    with eff q show ?thesis by (auto simp: Idempotency_Get_def queryRow_def)
  qed
  show "Idempotency_Get E t op k s = Inr r \<Longrightarrow> i_status r \<noteq> 0 \<Longrightarrow> (st, b) \<noteq> (i_status r, i_body r) \<Longrightarrow>
      SetResponse E t op k st b s \<notin> range Inr"
    using Get_present [of E t op k s r] SetResponse_Inr [of E t op k st b s] by (fastforce simp: is_idem_def)
qed

end
