(* ===== verification/Ledger.thy ===== *)
theory Ledger
  imports RepoRecovery
begin

text \<open>
  The ledger: \<^verbatim>\<open>ledger/ledger.go\<close> (posting of balanced journals, the lines hash, the
  balance queries), \<^verbatim>\<open>ledger/templates.go\<close> (journals rendered from governed templates) and
  the template validator of \<^verbatim>\<open>configsvc/validators_m3e.go\<close>. The active configuration
  versions are parameters: the chart of accounts and the template set, or the error of
  reading them. The lemmas show what a posted journal balances, that posting is idempotent up
  to the order of the lines and refuses divergent lines, and that the validator's symbolic
  proof implies numeric balance for every binding.
\<close>

section \<open>Journals\<close>

datatype Side = Debit | Credit | OtherSide string

fun side_str :: "Side \<Rightarrow> string" where
  "side_str Debit = ''DEBIT''" | "side_str Credit = ''CREDIT''" | "side_str (OtherSide x) = x"

record Line =
  ln_account :: string
  ln_side :: Side
  ln_amount :: money

record Journal =
  BusinessEventKey :: string
  EventType :: string
  JnlTelcoID :: string
  JnlProgrammeID :: string
  JnlAdvanceID :: string
  JnlCorrelationID :: string
  JnlLines :: "Line list"
  JnlTemplateVersion :: string

definition EventAdvanceIssued :: string where "EventAdvanceIssued = ''ADVANCE_ISSUED''"
definition EventRecoveryApplied :: string where "EventRecoveryApplied = ''RECOVERY_APPLIED''"
definition EventRecoverySuspense :: string where "EventRecoverySuspense = ''RECOVERY_SUSPENSE''"
definition EventRecoveryReversed :: string where "EventRecoveryReversed = ''RECOVERY_REVERSED''"
definition EventRecoveryQuarantined :: string where "EventRecoveryQuarantined = ''RECOVERY_QUARANTINED''"
definition EventWriteoffRecovery :: string where "EventWriteoffRecovery = ''WRITEOFF_RECOVERY_INC''"
definition EventWriteOff :: string where "EventWriteOff = ''WRITE_OFF''"

definition telcoLevelEvents :: "string \<Rightarrow> bool" where
  "telcoLevelEvents t \<longleftrightarrow> t = EventRecoveryQuarantined"

section \<open>Templates\<close>

record TemplateLine =
  tl_account :: string
  tl_side :: string
  tl_amount :: string
  tl_omit :: bool

type_synonym Bindings = "(string \<times> money) list"

text \<open>The active configuration the ledger reads, each part an error when it cannot be read.\<close>

record ledger_cfg =
  chart :: "err + string list"
  templates :: "err + string \<times> (string \<times> TemplateLine list) list"

definition allowedAccounts :: "ledger_cfg \<Rightarrow> err + (string \<Rightarrow> bool)" where
  "allowedAccounts C = andThen (chart C) (\<lambda>codes. Inr (\<lambda>a. a \<in> set codes))"

section \<open>Posting\<close>

text \<open>
  The per-currency running sums are \<^verbatim>\<open>int64\<close> and unchecked: words here. A map entry that is
  absent is zero.
\<close>

fun balance_lines :: "(string \<Rightarrow> bool) \<Rightarrow> Line list \<Rightarrow> (string \<Rightarrow> i64) \<Rightarrow> err + (string \<Rightarrow> i64)" where
  "balance_lines allowed [] sums = Inr sums"
| "balance_lines allowed (l # ls) sums =
     (if \<not> IsPositive (ln_amount l) then Inl ErrBadLine
      else if \<not> allowed (ln_account l) then Inl ErrUnknownAccount
      else (case ln_side l of
              Debit \<Rightarrow> balance_lines allowed ls
                (sums(currency (ln_amount l) := sums (currency (ln_amount l)) + amount (ln_amount l)))
            | Credit \<Rightarrow> balance_lines allowed ls
                (sums(currency (ln_amount l) := sums (currency (ln_amount l)) - amount (ln_amount l)))
            | OtherSide _ \<Rightarrow> Inl ErrBadLine))"

definition line_part :: "Line \<Rightarrow> string" where
  "line_part l = ln_account l @ ''|'' @ side_str (ln_side l) @ ''|'' @ currency (ln_amount l) @ ''|''
     @ FormatInt (sint (amount (ln_amount l)))"

fun join_nl :: "string list \<Rightarrow> string" where
  "join_nl [] = ''''"
| "join_nl [x] = x"
| "join_nl (x # y # ys) = x @ [CHR 10] @ join_nl (y # ys)"

definition linesHash :: "env \<Rightarrow> Line list \<Rightarrow> string" where
  "linesHash E ls = sha_hex E (join_nl (sort (map line_part ls)))"

fun insert_entries :: "env \<Rightarrow> string \<Rightarrow> Line list \<Rightarrow> db \<Rightarrow> db" where
  "insert_entries E jid [] s = s"
| "insert_entries E jid (l # ls) s =
     (let debit = (if ln_side l = Debit then amount (ln_amount l) else 0);
          credit = (if ln_side l = Debit then 0 else amount (ln_amount l));
          (eid, s) = NewID E ''je'' s
      in insert_entries E jid ls (s\<lparr>entries := entries s @
           [\<lparr>en_id = eid, en_journal = jid, en_account = ln_account l, en_debit = debit, en_credit = credit,
             en_cur = currency (ln_amount l)\<rparr>]\<rparr>))"

definition same_event :: "Journal \<Rightarrow> journal_row \<Rightarrow> bool" where
  "same_event j r \<longleftrightarrow> j_key r = BusinessEventKey j \<and> j_type r = EventType j"

definition Post_write :: "env \<Rightarrow> Journal \<Rightarrow> db \<Rightarrow> err + (bool \<times> string) \<times> db" where
  "Post_write E j s =
     (let hash = linesHash E (JnlLines j);
          (jid, s) = NewID E ''jrn'' s
      in andThen (rls_check E (JnlTelcoID j)) (\<lambda>_.
         if \<exists>r \<in> set (journals s). same_event j r then
           (case List.find (\<lambda>r. j_telco r = tenant E \<and> same_event j r) (journals s) of
              None \<Rightarrow> Inl (Fmt ''no rows in result set'')
            | Some r \<Rightarrow>
                if j_hash r \<noteq> '''' \<and> j_hash r \<noteq> hash then Inl ErrDivergentDuplicate
                else Inr ((False, j_id r), s))
         else
           (let s = s\<lparr>journals := journals s @
                  [\<lparr>j_id = jid, j_key = BusinessEventKey j, j_type = EventType j, j_telco = JnlTelcoID j,
                    j_prog = NULLIF_empty (JnlProgrammeID j), j_adv = NULLIF_empty (JnlAdvanceID j),
                    j_corr = JnlCorrelationID j, j_hash = hash, j_tmpl = NULLIF_empty (JnlTemplateVersion j),
                    j_posted = now E\<rparr>]\<rparr>
            in Inr ((True, jid), insert_entries E jid (JnlLines j) s))))"

definition Post :: "env \<Rightarrow> ledger_cfg \<Rightarrow> Journal \<Rightarrow> db \<Rightarrow> err + (bool \<times> string) \<times> db" where
  "Post E C j s =
     (if length (JnlLines j) < 2 then Inl ErrEmptyJournal
      else if BusinessEventKey j = '''' \<or> EventType j = '''' \<or> JnlTelcoID j = '''' \<or> JnlCorrelationID j = ''''
        then Inl (Fmt ''business_event_key, event_type, telco and correlation_id are required'')
      else if JnlProgrammeID j = '''' \<and> \<not> telcoLevelEvents (EventType j)
        then Inl (Fmt ''programme is required'')
      else andThen (allowedAccounts C) (\<lambda>allowed.
           andThen (balance_lines allowed (JnlLines j) (\<lambda>_. 0)) (\<lambda>sums.
           if \<exists>l \<in> set (JnlLines j). sums (currency (ln_amount l)) \<noteq> 0 then Inl ErrUnbalanced
           else Post_write E j s)))"

text \<open>The rendering loop of \<^verbatim>\<open>PostEvent\<close>.\<close>

fun render :: "Bindings \<Rightarrow> TemplateLine list \<Rightarrow> err + Line list" where
  "render b [] = Inr []"
| "render b (t # ts) =
     (case map_of b (tl_amount t) of
        None \<Rightarrow> Inl (Fmt ''symbol unbound'')
      | Some m \<Rightarrow>
          if tl_omit t \<and> IsZero m then render b ts
          else andThen (render b ts) (\<lambda>ls.
            Inr (\<lparr>ln_account = tl_account t, ln_side = (if tl_side t = ''CREDIT'' then Credit else Debit),
                  ln_amount = m\<rparr> # ls)))"

definition PostEvent :: "env \<Rightarrow> ledger_cfg \<Rightarrow> Journal \<Rightarrow> Bindings \<Rightarrow> db \<Rightarrow> err + (bool \<times> string) \<times> db" where
  "PostEvent E C j b s =
     andThen (templates C) (\<lambda>(ver, ts).
     case map_of ts (EventType j) of
       None \<Rightarrow> Inl (Fmt ''no governed posting template'')
     | Some tls \<Rightarrow> andThen (render b tls) (\<lambda>ls.
         Post E C (j\<lparr>JnlLines := ls, JnlTemplateVersion := ver\<rparr>) s))"

section \<open>Balance queries\<close>

definition AccountBalance :: "string \<Rightarrow> string \<Rightarrow> db \<Rightarrow> err + money" where
  "AccountBalance acct cur s =
     andThen (scan_int64 (\<Sum>r\<leftarrow>filter (\<lambda>r. en_account r = acct \<and> en_cur r = cur) (entries s).
        sint (en_debit r) - sint (en_credit r))) (\<lambda>v. NewMoney v cur)"

definition journal_off :: "string \<Rightarrow> string \<Rightarrow> db \<Rightarrow> int" where
  "journal_off jid cur s = (\<Sum>r\<leftarrow>filter (\<lambda>r. en_journal r = jid \<and> en_cur r = cur) (entries s). sint (en_debit r))
     - (\<Sum>r\<leftarrow>filter (\<lambda>r. en_journal r = jid \<and> en_cur r = cur) (entries s). sint (en_credit r))"

definition CheckAllJournalsBalanced :: "db \<Rightarrow> string list" where
  "CheckAllJournalsBalanced s =
     map fst (filter (\<lambda>(jid, cur). journal_off jid cur s \<noteq> 0)
       (remdups (map (\<lambda>r. (en_journal r, en_cur r)) (entries s))))"

section \<open>The template validator\<close>

definition symbolBasis :: "(string \<times> int list) list" where
  "symbolBasis = [(''DISBURSED'', [1,0,0,0,0,0]), (''FEE'', [0,1,0,0,0,0]), (''OUTSTANDING'', [1,1,0,0,0,0]),
     (''AMOUNT'', [0,0,1,0,0,0]), (''FEE_DEFER_ADJ'', [0,0,0,1,0,0]), (''FEE_RECOGNIZED'', [0,0,0,0,1,0]),
     (''FEE_UNEARNED_REVERSED'', [0,0,0,0,0,1])]"

text \<open>A draft template line, whose fields may be missing.\<close>

record DraftLine =
  dl_account :: "string option"
  dl_side :: "string option"
  dl_amount :: "string option"
  dl_omit :: bool

fun sum_basis :: "(string \<Rightarrow> bool) \<Rightarrow> DraftLine list \<Rightarrow> int list \<Rightarrow> int list \<Rightarrow> err + int list \<times> int list" where
  "sum_basis onChart [] debit credit = Inr (debit, credit)"
| "sum_basis onChart (l # ls) debit credit =
     (case dl_account l of
        None \<Rightarrow> Inl (Fmt ''account not on the ACTIVE chart'')
      | Some a \<Rightarrow>
          if \<not> onChart a then Inl (Fmt ''account not on the ACTIVE chart'')
          else (case dl_side l of
             None \<Rightarrow> Inl (Fmt ''side must be DEBIT or CREDIT'')
           | Some sd \<Rightarrow>
               if sd \<noteq> ''DEBIT'' \<and> sd \<noteq> ''CREDIT'' then Inl (Fmt ''side must be DEBIT or CREDIT'')
               else (case dl_amount l of
                  None \<Rightarrow> Inl (Fmt ''amount symbol required'')
                | Some sm \<Rightarrow>
                    (case map_of symbolBasis sm of
                       None \<Rightarrow> Inl (Fmt ''unknown amount symbol'')
                     | Some vec \<Rightarrow>
                         if sd = ''DEBIT'' then sum_basis onChart ls (map2 (+) debit vec) credit
                         else sum_basis onChart ls debit (map2 (+) credit vec)))))"

definition validateTemplate :: "(string \<Rightarrow> bool) \<Rightarrow> string \<Rightarrow> DraftLine list \<Rightarrow> err + unit" where
  "validateTemplate onChart event ls =
     (if event = '''' then Inl (Fmt ''template with empty event type'')
      else if length ls < 2 then Inl (Fmt ''at least two lines required'')
      else andThen (sum_basis onChart ls (replicate 6 0) (replicate 6 0)) (\<lambda>(debit, credit).
        if debit \<noteq> credit then Inl (Fmt ''template could post unbalanced'') else Inr ()))"

fun validate_all :: "(string \<Rightarrow> bool) \<Rightarrow> (string \<times> DraftLine list) list \<Rightarrow> err + unit" where
  "validate_all onChart [] = Inr ()"
| "validate_all onChart ((event, ls) # ts) =
     andThen (validateTemplate onChart event ls) (\<lambda>_. validate_all onChart ts)"

definition validateLedgerTemplates :: "(err + string list) \<Rightarrow> (string \<times> DraftLine list) list \<Rightarrow> err + unit" where
  "validateLedgerTemplates activeChart ts =
     (if ts = [] then Inl (Fmt ''templates must be non-empty'')
      else andThen activeChart (\<lambda>codes. validate_all (\<lambda>a. a \<in> set codes) ts))"

section \<open>What a posting writes\<close>

definition signed_amt :: "Line \<Rightarrow> int" where
  "signed_amt l = (if ln_side l = Debit then sint (amount (ln_amount l)) else - sint (amount (ln_amount l)))"

definition line_ok :: "(string \<Rightarrow> bool) \<Rightarrow> Line \<Rightarrow> bool" where
  "line_ok allowed l \<longleftrightarrow> IsPositive (ln_amount l) \<and> allowed (ln_account l) \<and> ln_side l \<in> {Debit, Credit}"

definition line_sum :: "Line list \<Rightarrow> string \<Rightarrow> int" where
  "line_sum ls c = (\<Sum>l\<leftarrow>ls. if currency (ln_amount l) = c then signed_amt l else 0)"

lemma word_of_int_signed:
  "(word_of_int (sint a) :: i64) = a" "word_of_int (- sint a) = - (a :: i64)"
  by (simp_all add: word_of_int_sint_minus [symmetric])

lemma balance_lines_Inr [res_simps]:
  "balance_lines allowed ls sums = Inr r \<longleftrightarrow>
     list_all (line_ok allowed) ls \<and> r = (\<lambda>c. sums c + word_of_int (line_sum ls c))"
proof (induction ls arbitrary: sums)
  case Nil
  then show ?case by (auto simp: line_sum_def)
next
  case (Cons l ls)
  have eq: "(\<lambda>c. (sums(currency (ln_amount l) := sums (currency (ln_amount l)) + word_of_int (signed_amt l))) c
      + word_of_int (line_sum ls c)) = (\<lambda>c. sums c + word_of_int (line_sum (l # ls) c))"
    by (rule ext) (simp add: line_sum_def)
  have D: "ln_side l = Debit \<Longrightarrow> (word_of_int (signed_amt l) :: i64) = amount (ln_amount l)"
    and C: "ln_side l = Credit \<Longrightarrow> (word_of_int (signed_amt l) :: i64) = - amount (ln_amount l)"
    by (simp_all add: signed_amt_def word_of_int_signed)
  let ?sums = "sums(currency (ln_amount l) := sums (currency (ln_amount l)) + word_of_int (signed_amt l))"
  have IH: "balance_lines allowed ls ?sums = Inr r \<longleftrightarrow>
      list_all (line_ok allowed) ls \<and> r = (\<lambda>c. sums c + word_of_int (line_sum (l # ls) c))"
    using Cons [of ?sums] eq by argo
  show ?case
  proof (cases "ln_side l")
    case Debit
    with IH D [OF Debit] show ?thesis by (simp add: line_ok_def [of allowed l])
  next
    case Credit
    with IH C [OF Credit] show ?thesis by (simp add: line_ok_def [of allowed l])
  qed (simp add: line_ok_def [of allowed l])
qed

definition entry_data :: "string \<Rightarrow> Line \<Rightarrow> string \<times> string \<times> i64 \<times> i64 \<times> string" where
  "entry_data jid l = (jid, ln_account l, if ln_side l = Debit then amount (ln_amount l) else 0,
     if ln_side l = Debit then 0 else amount (ln_amount l), currency (ln_amount l))"

definition entry_cols :: "entry_row \<Rightarrow> string \<times> string \<times> i64 \<times> i64 \<times> string" where
  "entry_cols e = (en_journal e, en_account e, en_debit e, en_credit e, en_cur e)"

text \<open>The entries are the journal's lines, one row each, in order.\<close>

lemma insert_entries_eq:
  "\<exists>es. map entry_cols es = map (entry_data jid) ls
     \<and> insert_entries E jid ls s = s\<lparr>next_id := next_id s + length ls, entries := entries s @ es\<rparr>"
proof (induction ls arbitrary: s)
  case Nil
  show ?case by (rule exI [of _ "[]"]) simp
next
  case (Cons l ls)
  let ?e = "\<lparr>en_id = new_id E ''je'' (next_id s), en_journal = jid, en_account = ln_account l,
      en_debit = (if ln_side l = Debit then amount (ln_amount l) else 0),
      en_credit = (if ln_side l = Debit then 0 else amount (ln_amount l)), en_cur = currency (ln_amount l)\<rparr>"
  obtain es where es: "map entry_cols es = map (entry_data jid) ls"
      "insert_entries E jid ls (s\<lparr>next_id := Suc (next_id s), entries := entries s @ [?e]\<rparr>)
       = s\<lparr>next_id := Suc (next_id s) + length ls, entries := (entries s @ [?e]) @ es\<rparr>"
    using Cons [of "s\<lparr>next_id := Suc (next_id s), entries := entries s @ [?e]\<rparr>"] by auto
  have step: "insert_entries E jid (l # ls) s
      = insert_entries E jid ls (s\<lparr>next_id := Suc (next_id s), entries := entries s @ [?e]\<rparr>)"
    by (simp add: NewID_def)
  have "map entry_cols (?e # es) = map (entry_data jid) (l # ls)"
    using es(1) by (simp add: entry_cols_def entry_data_def)
  moreover have "insert_entries E jid (l # ls) s
      = s\<lparr>next_id := next_id s + length (l # ls), entries := entries s @ (?e # es)\<rparr>"
    unfolding step es(2) by simp
  ultimately show ?case by blast
qed

lemma Post_guards:
  "Post E C j s = Inr r \<Longrightarrow>
     2 \<le> length (JnlLines j) \<and> JnlTelcoID j = tenant E
     \<and> (\<exists>allowed. allowedAccounts C = Inr allowed \<and> list_all (line_ok allowed) (JnlLines j))
     \<and> (\<forall>l \<in> set (JnlLines j). (word_of_int (line_sum (JnlLines j) (currency (ln_amount l))) :: i64) = 0)
     \<and> Post_write E j s = Inr r"
  by (auto simp: Post_def Post_write_def res_simps Let_def NewID_def split: if_splits)

lemma Post_write_new:
  assumes "Post_write E j s = Inr ((True, jid), s')"
  shows "\<not> (\<exists>r \<in> set (journals s). same_event j r)
    \<and> (\<exists>r es. jid = new_id E ''jrn'' (next_id s) \<and> same_event j r \<and> j_id r = jid \<and> j_telco r = tenant E
        \<and> j_hash r = linesHash E (JnlLines j)
        \<and> map entry_cols es = map (entry_data jid) (JnlLines j)
        \<and> s' = s\<lparr>next_id := Suc (next_id s) + length (JnlLines j), journals := journals s @ [r],
               entries := entries s @ es\<rparr>)"
proof -
  let ?r = "\<lparr>j_id = new_id E ''jrn'' (next_id s), j_key = BusinessEventKey j, j_type = EventType j,
      j_telco = JnlTelcoID j, j_prog = NULLIF_empty (JnlProgrammeID j), j_adv = NULLIF_empty (JnlAdvanceID j),
      j_corr = JnlCorrelationID j, j_hash = linesHash E (JnlLines j),
      j_tmpl = NULLIF_empty (JnlTemplateVersion j), j_posted = now E\<rparr>"
  from assms have new: "\<not> (\<exists>r \<in> set (journals s). same_event j r)" and t: "JnlTelcoID j = tenant E"
    and jid: "jid = new_id E ''jrn'' (next_id s)"
    and s': "s' = insert_entries E jid (JnlLines j)
        (s\<lparr>next_id := Suc (next_id s), journals := journals s @ [?r]\<rparr>)"
    by (auto simp: Post_write_def NewID_def Let_def res_simps split: if_splits option.splits)
  obtain es where "map entry_cols es = map (entry_data jid) (JnlLines j)"
      "s' = s\<lparr>next_id := Suc (next_id s) + length (JnlLines j), journals := journals s @ [?r],
            entries := entries s @ es\<rparr>"
    using insert_entries_eq [of jid "JnlLines j" E "s\<lparr>next_id := Suc (next_id s), journals := journals s @ [?r]\<rparr>"]
    unfolding s' by auto
  with new t jid show ?thesis by (intro conjI exI [of _ ?r] exI [of _ es]) (simp_all add: same_event_def)
qed

lemma Post_write_dup:
  "Post_write E j s = Inr ((False, jid), s') \<Longrightarrow> s' = s\<lparr>next_id := Suc (next_id s)\<rparr>"
  by (auto simp: Post_write_def NewID_def Let_def res_simps split: if_splits option.splits)

text \<open>A posting touches the ledger's tables only.\<close>

lemma Post_frame:
  assumes "Post E C j s = Inr ((p, jid), s')"
  shows "s' = s\<lparr>next_id := next_id s', journals := journals s', entries := entries s'\<rparr>"
proof (cases p)
  case True
  with assms Post_guards [OF assms] Post_write_new show ?thesis by fastforce
next
  case False
  with assms Post_guards [OF assms] Post_write_dup show ?thesis by fastforce
qed

lemma PostEvent_Post:
  "PostEvent E C j b s = Inr r \<Longrightarrow> \<exists>ls ver. Post E C (j\<lparr>JnlLines := ls, JnlTemplateVersion := ver\<rparr>) s = Inr r"
  by (simp add: PostEvent_def res_simps split: option.splits prod.splits) metis

lemma PostEvent_frame:
  "PostEvent E C j b s = Inr (r, s') \<Longrightarrow>
   s' = s\<lparr>next_id := next_id s', journals := journals s', entries := entries s'\<rparr>"
  using PostEvent_Post [of E C j b s "(r, s')"] Post_frame by (metis prod.collapse)

section \<open>A posted journal balances\<close>

text \<open>Debits less credits of entry rows, per currency.\<close>

definition entry_off :: "entry_row list \<Rightarrow> string \<Rightarrow> int" where
  "entry_off es c = (\<Sum>e\<leftarrow>es. if en_cur e = c then sint (en_debit e) - sint (en_credit e) else 0)"

lemma entry_off_lines:
  "map entry_cols es = map (entry_data jid) ls \<Longrightarrow> entry_off es c = line_sum ls c"
proof (induction ls arbitrary: es)
  case Nil
  then show ?case by (simp add: entry_off_def line_sum_def)
next
  case (Cons l ls)
  then obtain e es' where es: "es = e # es'" "entry_cols e = entry_data jid l"
      "map entry_cols es' = map (entry_data jid) ls" by (cases es) auto
  from Cons.IH [OF es(3)] es(1,2) show ?case
    by (auto simp: entry_off_def line_sum_def signed_amt_def entry_cols_def entry_data_def)
qed

lemma line_sum_bound:
  "(\<forall>l \<in> set ls. 0 \<le> sint (amount (ln_amount l))) \<Longrightarrow>
   \<bar>line_sum ls c\<bar> \<le> (\<Sum>l\<leftarrow>ls. sint (amount (ln_amount l)))"
  by (induction ls) (auto simp: line_sum_def signed_amt_def)

lemma word_zero_small: "(word_of_int x :: i64) = 0 \<Longrightarrow> \<bar>x\<bar> < 2 ^ 63 \<Longrightarrow> x = 0"
  using sint_of_int_i64 [of x] by (simp add: in_i64_def abs_less_iff)

lemma line_sum_other: "c \<notin> (currency \<circ> ln_amount) ` set ls \<Longrightarrow> line_sum ls c = 0"
  by (induction ls) (auto simp: line_sum_def)

lemma list_all_positive: "list_all (line_ok allowed) ls \<Longrightarrow> \<forall>l \<in> set ls. 0 \<le> sint (amount (ln_amount l))"
  by (auto simp: list_all_iff line_ok_def IsPositive_def)

lemma Post_line_sum_zero:
  assumes "Post E C j s = Inr r" "(\<Sum>l\<leftarrow>JnlLines j. sint (amount (ln_amount l))) < 2 ^ 63"
  shows "line_sum (JnlLines j) c = 0"
proof (cases "c \<in> (currency \<circ> ln_amount) ` set (JnlLines j)")
  case True
  then have "(word_of_int (line_sum (JnlLines j) c) :: i64) = 0" using Post_guards [OF assms(1)] by auto
  moreover have "\<bar>line_sum (JnlLines j) c\<bar> < 2 ^ 63"
    using Post_guards [OF assms(1)] list_all_positive line_sum_bound [of "JnlLines j" c] assms(2) by fastforce
  ultimately show ?thesis by (rule word_zero_small)
qed (rule line_sum_other)


definition sample_ledger :: ledger_cfg where
  "sample_ledger = \<lparr>chart = Inr [''SUBSCRIBER_RECEIVABLE'', ''FEE_INCOME'', ''AIRTIME_FUNDING_CLEARING'',
       ''TELCO_SETTLEMENT_RECEIVABLE'', ''RECOVERY_SUSPENSE'', ''WRITEOFF_RECOVERY_INCOME'', ''WRITE_OFF_EXPENSE''],
     templates = Inr (''cfg_seed_ledger_templates_v1'',
       [(''RECOVERY_APPLIED'', [\<lparr>tl_account = ''TELCO_SETTLEMENT_RECEIVABLE'', tl_side = ''DEBIT'', tl_amount = ''AMOUNT'', tl_omit = False\<rparr>,
                               \<lparr>tl_account = ''SUBSCRIBER_RECEIVABLE'', tl_side = ''CREDIT'', tl_amount = ''AMOUNT'', tl_omit = False\<rparr>]),
        (''RECOVERY_SUSPENSE'', [\<lparr>tl_account = ''TELCO_SETTLEMENT_RECEIVABLE'', tl_side = ''DEBIT'', tl_amount = ''AMOUNT'', tl_omit = False\<rparr>,
                               \<lparr>tl_account = ''RECOVERY_SUSPENSE'', tl_side = ''CREDIT'', tl_amount = ''AMOUNT'', tl_omit = False\<rparr>]),
        (''RECOVERY_REVERSED'', [\<lparr>tl_account = ''SUBSCRIBER_RECEIVABLE'', tl_side = ''DEBIT'', tl_amount = ''AMOUNT'', tl_omit = False\<rparr>,
                               \<lparr>tl_account = ''TELCO_SETTLEMENT_RECEIVABLE'', tl_side = ''CREDIT'', tl_amount = ''AMOUNT'', tl_omit = False\<rparr>]),
        (''RECOVERY_QUARANTINED'', [\<lparr>tl_account = ''TELCO_SETTLEMENT_RECEIVABLE'', tl_side = ''DEBIT'', tl_amount = ''AMOUNT'', tl_omit = False\<rparr>,
                               \<lparr>tl_account = ''RECOVERY_SUSPENSE'', tl_side = ''CREDIT'', tl_amount = ''AMOUNT'', tl_omit = False\<rparr>]),
        (''WRITEOFF_RECOVERY_INC'', [\<lparr>tl_account = ''TELCO_SETTLEMENT_RECEIVABLE'', tl_side = ''DEBIT'', tl_amount = ''AMOUNT'', tl_omit = False\<rparr>,
                               \<lparr>tl_account = ''WRITEOFF_RECOVERY_INCOME'', tl_side = ''CREDIT'', tl_amount = ''AMOUNT'', tl_omit = False\<rparr>]),
        (''WRITE_OFF'', [\<lparr>tl_account = ''WRITE_OFF_EXPENSE'', tl_side = ''DEBIT'', tl_amount = ''AMOUNT'', tl_omit = False\<rparr>,
                               \<lparr>tl_account = ''SUBSCRIBER_RECEIVABLE'', tl_side = ''CREDIT'', tl_amount = ''AMOUNT'', tl_omit = False\<rparr>])])\<rparr>"

definition sample_journal :: Journal where
  "sample_journal = \<lparr>BusinessEventKey = ''rcv_1/applied'', EventType = ''RECOVERY_APPLIED'', JnlTelcoID = ''MTN_NG'',
     JnlProgrammeID = ''prg_1'', JnlAdvanceID = ''adv_1'', JnlCorrelationID = ''cor_1'',
     JnlLines = [\<lparr>ln_account = ''TELCO_SETTLEMENT_RECEIVABLE'', ln_side = Debit, ln_amount = \<lparr>amount = 300, currency = ''NGN''\<rparr>\<rparr>,
                 \<lparr>ln_account = ''SUBSCRIBER_RECEIVABLE'', ln_side = Credit, ln_amount = \<lparr>amount = 300, currency = ''NGN''\<rparr>\<rparr>],
     JnlTemplateVersion = ''v1''\<rparr>"

lemma sample_post:
  "\<exists>s'. Post sample_env sample_ledger sample_journal empty_db = Inr ((True, ''jrn_0''), s')"
proof -
  have "(case Post sample_env sample_ledger sample_journal empty_db of
     Inl _ \<Rightarrow> False | Inr ((b, i), _) \<Rightarrow> b \<and> i = ''jrn_0'')" by code_simp
  then show ?thesis by (auto split: sum.splits prod.splits)
qed


text \<open>
  The bound is needed: the running sums of \<^verbatim>\<open>Post\<close> wrap around. Three debit lines of
  \<open>2\<^sup>6\<^sup>3 - 1\<close>, \<open>2\<^sup>6\<^sup>3 - 1\<close> and \<open>2\<close> minor units and no credit line sum to zero in an
  \<^verbatim>\<open>int64\<close>.
\<close>

definition all_debit_journal :: Journal where
  "all_debit_journal = sample_journal\<lparr>JnlLines :=
     [\<lparr>ln_account = ''SUBSCRIBER_RECEIVABLE'', ln_side = Debit, ln_amount = \<lparr>amount = 9223372036854775807, currency = ''NGN''\<rparr>\<rparr>,
      \<lparr>ln_account = ''SUBSCRIBER_RECEIVABLE'', ln_side = Debit, ln_amount = \<lparr>amount = 9223372036854775807, currency = ''NGN''\<rparr>\<rparr>,
      \<lparr>ln_account = ''SUBSCRIBER_RECEIVABLE'', ln_side = Debit, ln_amount = \<lparr>amount = 2, currency = ''NGN''\<rparr>\<rparr>]\<rparr>"

text \<open>without the bound of the balance property the check of \<^verbatim>\<open>Post\<close> is not a balance check: a
  journal of three debit lines and no credit is accepted and posted, because the per-currency
  \<^verbatim>\<open>int64\<close> sums wrap around to zero; the invariant query \<^verbatim>\<open>CheckAllJournalsBalanced\<close> reports it.\<close>

theorem Post_wraps:
  "case Post sample_env sample_ledger all_debit_journal empty_db of
     Inl _ \<Rightarrow> False
   | Inr ((posted, jid), s') \<Rightarrow> posted \<and> CheckAllJournalsBalanced s' = [jid]
       \<and> journal_off jid ''NGN'' s' = 2 ^ 64"
  by (simp add: Post_def Post_write_def all_debit_journal_def sample_journal_def sample_ledger_def sample_env_def
      empty_db_def NewID_def allowedAccounts_def telcoLevelEvents_def Let_def rls_check_def
      CheckAllJournalsBalanced_def journal_off_def)

section \<open>The lines hash\<close>

lemma linesHash_perm: "mset ls = mset ls' \<Longrightarrow> linesHash E ls = linesHash E ls'"
proof -
  assume "mset ls = mset ls'"
  then have "mset (map line_part ls) = mset (map line_part ls')" by simp
  then have "sort (map line_part ls) = sort (map line_part ls')"
    by (metis properties_for_sort sorted_sort mset_sort)
  then show ?thesis by (simp add: linesHash_def)
qed

text \<open>Lines that can be told apart: no separator inside an account, a proper currency and side.\<close>

definition plain_line :: "Line \<Rightarrow> bool" where
  "plain_line l \<longleftrightarrow> CHR ''|'' \<notin> set (ln_account l) \<and> CHR 10 \<notin> set (ln_account l)
     \<and> Valid (currency (ln_amount l)) \<and> ln_side l \<in> {Debit, Credit}"

lemma Valid_chars: "Valid c \<Longrightarrow> CHR ''|'' \<notin> set c \<and> CHR 10 \<notin> set c"
  by (auto simp: Valid_def list_all_iff)

lemma Formatted_no_nl: "CHR 10 \<notin> set (FormatInt i)"
proof -
  have "of_char (CHR 10) < (48 :: nat)" by (simp add: of_char_def)
  then have "CHR 10 \<notin> set (decimal n)" for n
    using decimal_chars [of "CHR 10" n] digit_neq by metis
  then show ?thesis by (auto simp: FormatInt_def)
qed

lemma side_str_plain: "sd \<in> {Debit, Credit} \<Longrightarrow> CHR ''|'' \<notin> set (side_str sd) \<and> CHR 10 \<notin> set (side_str sd)"
  by auto

lemma split_at_sep:
  "c \<notin> set xs \<Longrightarrow> c \<notin> set ys \<Longrightarrow> xs @ c # us = ys @ c # vs \<longleftrightarrow> xs = ys \<and> us = vs"
proof (induction xs arbitrary: ys)
  case Nil
  then show ?case by (cases ys) auto
next
  case (Cons x xs)
  then show ?case by (cases ys) auto
qed

lemma line_part_inj:
  assumes "plain_line l" "plain_line k" "line_part l = line_part k"
  shows "l = k"
proof -
  note p = assms(1,2) [unfolded plain_line_def]
  from assms(3) p have "ln_account l = ln_account k"
    and 1: "side_str (ln_side l) @ ''|'' @ currency (ln_amount l) @ ''|'' @ FormatInt (sint (amount (ln_amount l)))
       = side_str (ln_side k) @ ''|'' @ currency (ln_amount k) @ ''|'' @ FormatInt (sint (amount (ln_amount k)))"
    by (simp_all add: line_part_def split_at_sep)
  moreover from 1 p side_str_plain have sd: "side_str (ln_side l) = side_str (ln_side k)"
    and 2: "currency (ln_amount l) @ ''|'' @ FormatInt (sint (amount (ln_amount l)))
       = currency (ln_amount k) @ ''|'' @ FormatInt (sint (amount (ln_amount k)))"
    by (simp_all add: split_at_sep)
  moreover from 2 p Valid_chars have "currency (ln_amount l) = currency (ln_amount k)"
    and "FormatInt (sint (amount (ln_amount l))) = FormatInt (sint (amount (ln_amount k)))"
    by (simp_all add: split_at_sep)
  moreover from sd p have "ln_side l = ln_side k" by auto
  ultimately show ?thesis using FormatInt_inj sint_eq_i64 by (intro Line.equality money.equality) auto
qed

lemma line_part_plain: "plain_line l \<Longrightarrow> CHR 10 \<notin> set (line_part l) \<and> line_part l \<noteq> []"
  using Valid_chars side_str_plain Formatted_no_nl by (auto simp: line_part_def plain_line_def)

lemma join_nl_Cons: "xs \<noteq> [] \<Longrightarrow> join_nl (x # xs) = x @ CHR 10 # join_nl xs"
  by (cases xs) simp_all

lemma join_nl_inj:
  "\<forall>x \<in> set xs. CHR 10 \<notin> set x \<and> x \<noteq> [] \<Longrightarrow> \<forall>y \<in> set ys. CHR 10 \<notin> set y \<and> y \<noteq> [] \<Longrightarrow>
   join_nl xs = join_nl ys \<Longrightarrow> xs = ys"
proof (induction xs arbitrary: ys)
  case Nil
  then show ?case by (cases ys rule: join_nl.cases) auto
next
  case (Cons x xs)
  note IH = Cons.IH and prems = Cons.prems
  show ?case
  proof (cases ys)
    case Nil
    with prems show ?thesis by (cases xs) auto
  next
    case (Cons y ys')
    have nl: "CHR 10 \<notin> set x" "CHR 10 \<notin> set y" using prems Cons by auto
    show ?thesis
    proof (cases "xs = []"; cases "ys' = []")
      assume "xs \<noteq> []" "ys' \<noteq> []"
      then have "x @ CHR 10 # join_nl xs = y @ CHR 10 # join_nl ys'" using prems(3) Cons by (simp add: join_nl_Cons)
      then have "x = y" "join_nl xs = join_nl ys'" using nl by (simp_all add: split_at_sep)
      with IH [of ys'] prems Cons show ?thesis by simp
    next
      assume "xs = []" "ys' \<noteq> []"
      with prems(3) Cons have "x = y @ CHR 10 # join_nl ys'" by (simp add: join_nl_Cons)
      with nl show ?thesis by simp
    next
      assume "xs \<noteq> []" "ys' = []"
      with prems(3) Cons have "y = x @ CHR 10 # join_nl xs" by (simp add: join_nl_Cons)
      with nl show ?thesis by simp
    qed (use prems Cons in simp)
  qed
qed

lemma mset_map_inj:
  assumes "inj_on f (set xs \<union> set ys)" "mset (map f xs) = mset (map f ys)"
  shows "mset xs = mset ys"
proof -
  let ?g = "the_inv_into (set xs \<union> set ys) f"
  have inv: "mset zs = image_mset ?g (mset (map f zs))" if "set zs \<subseteq> set xs \<union> set ys" for zs
    using that the_inv_into_f_f [OF assms(1)] by (induction zs) auto
  have "mset xs = image_mset ?g (mset (map f xs))" by (rule inv) simp
  also have "\<dots> = image_mset ?g (mset (map f ys))" by (simp only: assms(2))
  also have "\<dots> = mset ys" by (rule inv [symmetric]) simp
  finally show ?thesis .
qed

lemma linesHash_inj:
  assumes "inj (sha_hex E)" "list_all plain_line ls" "list_all plain_line ks" "linesHash E ls = linesHash E ks"
  shows "mset ls = mset ks"
proof -
  have "join_nl (sort (map line_part ls)) = join_nl (sort (map line_part ks))"
    using assms(1,4) by (simp add: linesHash_def inj_eq)
  then have "sort (map line_part ls) = sort (map line_part ks)"
    using assms(2,3) line_part_plain by (intro join_nl_inj) (auto simp: list_all_iff)
  then have "mset (sort (map line_part ls)) = mset (sort (map line_part ks))" by (simp only:)
  then have "mset (map line_part ls) = mset (map line_part ks)" by (simp only: mset_sort)
  moreover have "inj_on line_part (set ls \<union> set ks)"
  proof (rule inj_onI)
    fix x y assume "x \<in> set ls \<union> set ks" "y \<in> set ls \<union> set ks" "line_part x = line_part y"
    with assms(2,3) show "x = y" by (intro line_part_inj) (auto simp: list_all_iff)
  qed
  ultimately show ?thesis by (rule mset_map_inj [rotated])
qed

section \<open>Posting is idempotent and refuses drift\<close>

lemma line_sum_perm: "mset ls = mset ls' \<Longrightarrow> line_sum ls c = line_sum ls' c"
  unfolding line_sum_def sum_mset_sum_list [symmetric] mset_map by (simp only:)

lemma Post_retry_write:
  assumes "Post E C j s = Inr ((True, jid), s')"
  shows "Post_write E (j\<lparr>JnlLines := ls\<rparr>) s' =
     (if linesHash E (JnlLines j) \<noteq> '''' \<and> linesHash E (JnlLines j) \<noteq> linesHash E ls
      then Inl ErrDivergentDuplicate else Inr ((False, jid), s'\<lparr>next_id := Suc (next_id s')\<rparr>))"
proof -
  from Post_guards [OF assms] have w: "Post_write E j s = Inr ((True, jid), s')" "JnlTelcoID j = tenant E" by auto
  from Post_write_new [OF w(1)] obtain r es where new: "\<not> (\<exists>q \<in> set (journals s). same_event j q)"
      and r: "same_event j r" "j_id r = jid" "j_telco r = tenant E" "j_hash r = linesHash E (JnlLines j)"
        "journals s' = journals s @ [r]" by auto
  let ?j = "j\<lparr>JnlLines := ls\<rparr>"
  have same: "same_event ?j = same_event j" by (simp add: same_event_def fun_eq_iff)
  have "List.find p (xs @ [x]) = (case List.find p xs of None \<Rightarrow> if p x then Some x else None | y \<Rightarrow> y)"
    for p and xs :: "journal_row list" and x by (induction xs) auto
  moreover from new have "List.find (\<lambda>q. j_telco q = tenant E \<and> same_event j q) (journals s) = None"
    by (auto simp: find_None_iff)
  ultimately have "List.find (\<lambda>q. j_telco q = tenant E \<and> same_event ?j q) (journals s') = Some r"
    using r unfolding same by simp
  moreover have "\<exists>q \<in> set (journals s'). same_event ?j q" using r unfolding same by auto
  ultimately show ?thesis using w(2) r by (simp add: Post_write_def NewID_def Let_def)
qed

lemma Post_lines_perm_guards:
  assumes "Post E C j s = Inr r" "mset ls = mset (JnlLines j)"
  shows "Post E C (j\<lparr>JnlLines := ls\<rparr>) t = Post_write E (j\<lparr>JnlLines := ls\<rparr>) t"
proof -
  have same: "set ls = set (JnlLines j)" "length ls = length (JnlLines j)"
    using assms(2) by (metis set_mset_mset, metis size_mset)
  from assms(1) have head: "BusinessEventKey j \<noteq> ''''" "EventType j \<noteq> ''''" "JnlTelcoID j \<noteq> ''''"
      "JnlCorrelationID j \<noteq> ''''" "JnlProgrammeID j = '''' \<longrightarrow> telcoLevelEvents (EventType j)"
    by (auto simp: Post_def split: if_splits)
  from Post_guards [OF assms(1)] obtain allowed where g: "2 \<le> length (JnlLines j)"
      "allowedAccounts C = Inr allowed" "list_all (line_ok allowed) (JnlLines j)"
      "\<forall>l \<in> set (JnlLines j). (word_of_int (line_sum (JnlLines j) (currency (ln_amount l))) :: i64) = 0"
    by auto
  have bal: "balance_lines allowed ls (\<lambda>_. 0) = Inr (\<lambda>c. word_of_int (line_sum ls c))"
    using g(3) same by (simp add: balance_lines_Inr list_all_iff)
  have "\<forall>l \<in> set ls. (word_of_int (line_sum ls (currency (ln_amount l))) :: i64) = 0"
    using g(4) same line_sum_perm [OF assms(2)] by simp
  with bal g same head show ?thesis by (auto simp: Post_def)
qed

text \<open>re-posting a business event (INV-003, M1B-F2). After a journal was posted, the same event
  with the same lines in any order is reported as already posted under the original journal's
  id, and no row is written; with SHA-256 collision-free on the rendered lines and accounts free
  of the separators, any other set of lines is refused. So the retry is accepted exactly when the
  lines agree up to their order.\<close>

theorem Post_retry:
  assumes posted: "Post E C j s = Inr ((True, jid), s')"
    and sha: "inj (sha_hex E)" "\<And>x. sha_hex E x \<noteq> ''''"
    and plain: "list_all plain_line (JnlLines j)" "list_all plain_line ls"
  shows "if mset ls = mset (JnlLines j)
     then Post E C (j\<lparr>JnlLines := ls\<rparr>) s' = Inr ((False, jid), s'\<lparr>next_id := Suc (next_id s')\<rparr>)
     else \<exists>e. Post E C (j\<lparr>JnlLines := ls\<rparr>) s' = Inl e"
proof (cases "mset ls = mset (JnlLines j)")
  case True
  then have "linesHash E ls = linesHash E (JnlLines j)" by (rule linesHash_perm)
  with True Post_lines_perm_guards [OF posted True] Post_retry_write [OF posted, of ls] show ?thesis by simp
next
  case False
  then have "linesHash E (JnlLines j) \<noteq> linesHash E ls" using linesHash_inj [OF sha(1) plain] by metis
  moreover have "linesHash E (JnlLines j) \<noteq> ''''" using sha(2) by (simp add: linesHash_def)
  ultimately have "Post_write E (j\<lparr>JnlLines := ls\<rparr>) s' = Inl ErrDivergentDuplicate"
    using Post_retry_write [OF posted, of ls] by simp
  then have "Post E C (j\<lparr>JnlLines := ls\<rparr>) s' \<noteq> Inr r" for r
    using Post_guards [of E C "j\<lparr>JnlLines := ls\<rparr>" s' r] by auto
  with False show ?thesis by (cases "Post E C (j\<lparr>JnlLines := ls\<rparr>) s'") auto
qed

text \<open>A hash with the assumed properties: the identity behind a marker.\<close>

definition marked_env :: env where
  "marked_env = sample_env\<lparr>sha_hex := (\<lambda>x. CHR ''h'' # x)\<rparr>"

theorem Post_retry_witness:
  "\<exists>s'. Post marked_env sample_ledger sample_journal empty_db = Inr ((True, ''jrn_0''), s')
     \<and> Post marked_env sample_ledger (sample_journal\<lparr>JnlLines := rev (JnlLines sample_journal)\<rparr>) s'
         = Inr ((False, ''jrn_0''), s'\<lparr>next_id := Suc (next_id s')\<rparr>)
     \<and> (\<exists>e. Post marked_env sample_ledger (sample_journal\<lparr>JnlLines := take 1 (JnlLines sample_journal)\<rparr>) s' = Inl e)"
proof -
  have "(case Post marked_env sample_ledger sample_journal empty_db of
     Inl _ \<Rightarrow> False | Inr ((b, i), _) \<Rightarrow> b \<and> i = ''jrn_0'')" by code_simp
  then obtain s' where p: "Post marked_env sample_ledger sample_journal empty_db = Inr ((True, ''jrn_0''), s')"
    by (auto split: sum.splits prod.splits)
  have sha: "inj (sha_hex marked_env)" "\<And>x. sha_hex marked_env x \<noteq> ''''"
    by (simp_all add: marked_env_def inj_def)
  have pl: "list_all plain_line (JnlLines sample_journal)"
      "list_all plain_line (rev (JnlLines sample_journal))"
      "list_all plain_line (take 1 (JnlLines sample_journal))"
    by code_simp+
  have "mset (take 1 (JnlLines sample_journal)) \<noteq> mset (JnlLines sample_journal)"
    by (simp add: sample_journal_def)
  with p Post_retry [OF p sha pl(1,2)] Post_retry [OF p sha pl(1,3)] show ?thesis by (intro exI [of _ s']) simp
qed

section \<open>The symbolic proof of the template validator\<close>

text \<open>The same JSON line read into the posting struct: a missing field is the empty string.\<close>

definition as_template :: "DraftLine \<Rightarrow> TemplateLine" where
  "as_template d =
     \<lparr>tl_account = (case dl_account d of None \<Rightarrow> '''' | Some x \<Rightarrow> x),
      tl_side = (case dl_side d of None \<Rightarrow> '''' | Some x \<Rightarrow> x),
      tl_amount = (case dl_amount d of None \<Rightarrow> '''' | Some x \<Rightarrow> x), tl_omit = dl_omit d\<rparr>"

definition bound :: "Bindings \<Rightarrow> string \<Rightarrow> int" where
  "bound b sm = (case map_of b sm of None \<Rightarrow> 0 | Some m \<Rightarrow> sint (amount m))"

definition axes :: "Bindings \<Rightarrow> int list" where
  "axes b = map (bound b) [''DISBURSED'', ''FEE'', ''AMOUNT'', ''FEE_DEFER_ADJ'', ''FEE_RECOGNIZED'', ''FEE_UNEARNED_REVERSED'']"

definition dot :: "int list \<Rightarrow> int list \<Rightarrow> int" where
  "dot xs ys = sum_list (map2 (*) xs ys)"

text \<open>The bindings the platform supplies: one currency, and the money identity of an advance.\<close>

definition bindings_ok :: "Bindings \<Rightarrow> string \<Rightarrow> bool" where
  "bindings_ok b cur \<longleftrightarrow> (\<forall>m \<in> snd ` set b. currency m = cur \<and> cur \<noteq> '''')
     \<and> (map_of b ''OUTSTANDING'' \<noteq> None \<longrightarrow> bound b ''OUTSTANDING'' = bound b ''DISBURSED'' + bound b ''FEE'')"

lemma dot_add:
  "length xs = length ys \<Longrightarrow> length ys = length zs \<Longrightarrow> dot (map2 (+) xs ys) zs = dot xs zs + dot ys zs"
  unfolding dot_def by (induction xs ys zs rule: list_induct3) (simp_all add: algebra_simps)

lemma basis_value:
  assumes "map_of symbolBasis sm = Some vec" "map_of b sm = Some m" "bindings_ok b cur"
  shows "sint (amount m) = dot vec (axes b) \<and> length vec = 6"
proof -
  have v: "sint (amount m) = bound b sm" using assms(2) by (simp add: bound_def)
  have "sm = ''OUTSTANDING'' \<Longrightarrow> bound b sm = bound b ''DISBURSED'' + bound b ''FEE''"
    using assms(2,3) by (simp add: bindings_ok_def)
  with v assms(1) show ?thesis
    by (auto simp: symbolBasis_def dot_def axes_def split: if_splits)
qed

lemma render_balance:
  assumes ok: "bindings_ok b cur"
  shows "sum_basis onChart ds d0 c0 = Inr (debit, credit) \<Longrightarrow> render b (map as_template ds) = Inr ls \<Longrightarrow>
    length d0 = 6 \<Longrightarrow> length c0 = 6 \<Longrightarrow>
    length debit = 6 \<and> length credit = 6
    \<and> line_sum ls cur = (dot debit (axes b) - dot d0 (axes b)) - (dot credit (axes b) - dot c0 (axes b))
    \<and> (\<forall>l \<in> set ls. currency (ln_amount l) = cur)"
proof (induction ds arbitrary: d0 c0 ls)
  case Nil
  then show ?case by (simp add: line_sum_def)
next
  case (Cons d ds)
  have ax: "length (axes b) = 6" by (simp add: axes_def)
  from Cons.prems(1) obtain a sd sm vec where d: "dl_account d = Some a" "dl_side d = Some sd"
      "dl_amount d = Some sm" "sd = ''DEBIT'' \<or> sd = ''CREDIT''" "map_of symbolBasis sm = Some vec"
    by (auto split: option.splits if_splits)
  have tl: "tl_amount (as_template d) = sm" "tl_side (as_template d) = sd" using d by (simp_all add: as_template_def)
  from Cons.prems(2) tl obtain m where m: "map_of b sm = Some m" by (auto split: option.splits)
  have cur: "currency m = cur" using ok m by (auto simp: bindings_ok_def dest!: map_of_SomeD)
  note val = basis_value [OF d(5) m ok]
  obtain ks where ks: "render b (map as_template ds) = Inr ks"
    and ls: "line_sum ls cur = line_sum ks cur + (if sd = ''CREDIT'' then - sint (amount m) else sint (amount m))"
      "set ls \<subseteq> set ks \<union> {l. ln_amount l = m}"
    using Cons.prems(2) tl m cur
    by (auto simp: res_simps line_sum_def signed_amt_def IsZero_def split: if_splits)
  show ?case
  proof (cases "sd = ''DEBIT''")
    case True
    with Cons.prems(1) d have sb: "sum_basis onChart ds (map2 (+) d0 vec) c0 = Inr (debit, credit)"
      by (simp split: if_splits)
    have "dot (map2 (+) d0 vec) (axes b) = dot d0 (axes b) + dot vec (axes b)"
      by (rule dot_add) (use Cons.prems(3) val ax in simp_all)
    with Cons.IH [OF sb ks] Cons.prems(3,4) val True ls cur show ?thesis by auto
  next
    case False
    with d have sd: "sd = ''CREDIT''" by simp
    with Cons.prems(1) d False have sb: "sum_basis onChart ds d0 (map2 (+) c0 vec) = Inr (debit, credit)"
      by (simp split: if_splits)
    have "dot (map2 (+) c0 vec) (axes b) = dot c0 (axes b) + dot vec (axes b)"
      by (rule dot_add) (use Cons.prems(4) val ax in simp_all)
    with Cons.IH [OF sb ks] Cons.prems(3,4) val sd ls cur show ?thesis by auto
  qed
qed

lemma validate_all_member:
  "validate_all onChart ts = Inr () \<Longrightarrow> (event, ds) \<in> set ts \<Longrightarrow> validateTemplate onChart event ds = Inr ()"
  by (induction ts) (auto simp: res_simps)

lemma validated_renders_balanced:
  assumes "validateTemplate onChart event ds = Inr ()" "bindings_ok b cur" "render b (map as_template ds) = Inr ls"
  shows "line_sum ls c = 0"
proof -
  from assms(1) obtain v where v: "sum_basis onChart ds (replicate 6 0) (replicate 6 0) = Inr (v, v)"
    by (auto simp: validateTemplate_def res_simps split: if_splits prod.splits)
  note r = render_balance [OF assms(2) v assms(3)]
  then have "line_sum ls cur = 0" "\<forall>l \<in> set ls. currency (ln_amount l) = cur" by simp_all
  then show ?thesis by (cases "c = cur") (auto intro: line_sum_other)
qed


definition sample_draft :: "(string \<times> DraftLine list) list" where
  "sample_draft = [(''ADVANCE_ISSUED'',
     [\<lparr>dl_account = Some ''SUBSCRIBER_RECEIVABLE'', dl_side = Some ''DEBIT'', dl_amount = Some ''OUTSTANDING'', dl_omit = False\<rparr>,
      \<lparr>dl_account = Some ''AIRTIME_FUNDING_CLEARING'', dl_side = Some ''CREDIT'', dl_amount = Some ''DISBURSED'', dl_omit = False\<rparr>,
      \<lparr>dl_account = Some ''FEE_INCOME'', dl_side = Some ''CREDIT'', dl_amount = Some ''FEE'', dl_omit = True\<rparr>])]"

definition sample_bindings :: Bindings where
  "sample_bindings = [(''OUTSTANDING'', \<lparr>amount = 500, currency = ''NGN''\<rparr>),
     (''DISBURSED'', \<lparr>amount = 450, currency = ''NGN''\<rparr>), (''FEE'', \<lparr>amount = 50, currency = ''NGN''\<rparr>)]"


end
