(* ===== verification/Recovery.thy ===== *)
theory Recovery
  imports Ledger
begin

text \<open>
  The recovery use case of \<^verbatim>\<open>usecase/recovery/recovery.go\<close>: ingest of a telco recovery
  event (idempotency claim, subscriber match, waterfall allocation, advance and pool update,
  journals, suspense, hold, outbox), reversal of a recovery (immediate, parked, retried by an
  operator) and the paths for written-off and missing advances. Every call that changes a
  table is in the model, in the order of the source. A pointer result that the source fills
  is returned.
\<close>

section \<open>Commands, results, configuration\<close>

record IngestCmd =
  ic_source :: string
  ic_token :: string
  ic_amount :: money
  ic_occurred :: int
  ic_corr :: string

record IngestResult =
  ir_event :: string
  ir_state :: string
  ir_applied :: money
  ir_excess :: money
  ir_closed :: bool
  ir_replayed :: bool

record ReverseCmd =
  rc_reversal :: string
  rc_original :: string
  rc_amount :: money
  rc_corr :: string

record ReverseResult =
  rr_parked :: bool
  rr_applied :: money
  rr_reopened :: bool
  rr_replayed :: bool
  rr_pending :: string

record RetryResult =
  rt_applied :: bool
  rt_reason :: string

text \<open>
  The active configuration: the ledger's, and the \<^verbatim>\<open>recovery.allocation\<close> waterfall of a
  programme, each an error when it cannot be read.
\<close>

record recovery_cfg =
  cfg_ledger :: ledger_cfg
  cfg_waterfall :: "string \<Rightarrow> err + string list"

fun state_name :: "RecoveryEventState \<Rightarrow> string" where
  "state_name RecoveryPending = ''PENDING''"
| "state_name RecoveryAllocated = ''ALLOCATED''"
| "state_name RecoveryQuarantined = ''QUARANTINED''"
| "state_name RecoveryUnmatched = ''UNMATCHED''"
| "state_name RecoveryReversed = ''REVERSED''"

definition no_result :: IngestResult where
  "no_result = \<lparr>ir_event = '''', ir_state = '''', ir_applied = unset, ir_excess = unset, ir_closed = False,
     ir_replayed = False\<rparr>"

definition no_reverse :: ReverseResult where
  "no_reverse = \<lparr>rr_parked = False, rr_applied = unset, rr_reopened = False, rr_replayed = False, rr_pending = ''''\<rparr>"

definition component_of :: "string \<Rightarrow> AllocationComponent option" where
  "component_of c = (if c = ''FEE'' then Some ComponentFee else if c = ''PRINCIPAL'' then Some ComponentPrincipal
     else if c = ''WRITEOFF_INCOME'' then Some ComponentWriteoffIncome else None)"

text \<open>\<^verbatim>\<open>x, _ := entity.ZeroMoney(cur)\<close>.\<close>

definition zero_of :: "string \<Rightarrow> money" where
  "zero_of cur = (case ZeroMoney cur of Inl _ \<Rightarrow> unset | Inr m \<Rightarrow> m)"

section \<open>Fingerprints and stored results\<close>

definition recoverySourceHash :: "env \<Rightarrow> string \<Rightarrow> IngestCmd \<Rightarrow> string" where
  "recoverySourceHash E telco cmd = sha_hex E (marshal E (JObj
     [(''telco_id'', JStr telco), (''source_event_id'', JStr (ic_source cmd)),
      (''amount_minor'', JNum (amount (ic_amount cmd))), (''currency'', JStr (currency (ic_amount cmd))),
      (''msisdn_token'', JStr (ic_token cmd)), (''occurred_at'', JStr (rfc3339nano E (ic_occurred cmd)))]))"

definition reversalSourceHash :: "env \<Rightarrow> string \<Rightarrow> string \<Rightarrow> string \<Rightarrow> money \<Rightarrow> string" where
  "reversalSourceHash E telco rv orig amt = sha_hex E (marshal E (JObj
     [(''telco_id'', JStr telco), (''reversal_source_event_id'', JStr rv), (''original_source_event_id'', JStr orig),
      (''amount_minor'', JNum (amount amt)), (''currency'', JStr (currency amt))]))"

text \<open>Reading a field into a Go struct: a missing key is the zero value, a wrong type an error.\<close>

definition field_str :: "string \<Rightarrow> json \<Rightarrow> err + string" where
  "field_str k j = (case jget k j of None \<Rightarrow> Inr '''' | Some (JStr x) \<Rightarrow> Inr x | Some _ \<Rightarrow> Inl (Fmt ''json type''))"

definition field_num :: "string \<Rightarrow> json \<Rightarrow> err + i64" where
  "field_num k j = (case jget k j of None \<Rightarrow> Inr 0 | Some (JNum x) \<Rightarrow> Inr x | Some _ \<Rightarrow> Inl (Fmt ''json type''))"

definition field_bool :: "string \<Rightarrow> json \<Rightarrow> err + bool" where
  "field_bool k j = (case jget k j of None \<Rightarrow> Inr False | Some (JBool x) \<Rightarrow> Inr x | Some _ \<Rightarrow> Inl (Fmt ''json type''))"

definition encodeIngestResult :: "IngestResult \<Rightarrow> json" where
  "encodeIngestResult r =
     (let (am, ac) = (if IsSet (ir_applied r) then (amount (ir_applied r), currency (ir_applied r)) else (0, ''''));
          (em, ec) = (if IsSet (ir_excess r) then (amount (ir_excess r), currency (ir_excess r)) else (0, ''''))
      in JObj [(''recovery_event_id'', JStr (ir_event r)), (''state'', JStr (ir_state r)),
               (''applied_minor'', JNum am), (''applied_currency'', JStr ac),
               (''excess_minor'', JNum em), (''excess_currency'', JStr ec),
               (''advance_closed'', JBool (ir_closed r))])"

definition decodeIngestResult :: "json \<Rightarrow> err + IngestResult" where
  "decodeIngestResult b =
     andThen (field_str ''recovery_event_id'' b) (\<lambda>eid. andThen (field_str ''state'' b) (\<lambda>st.
     andThen (field_num ''applied_minor'' b) (\<lambda>am. andThen (field_str ''applied_currency'' b) (\<lambda>ac.
     andThen (field_num ''excess_minor'' b) (\<lambda>em. andThen (field_str ''excess_currency'' b) (\<lambda>ec.
     andThen (field_bool ''advance_closed'' b) (\<lambda>cl.
     andThen (if ac \<noteq> '''' then MustMoney am ac else Inr unset) (\<lambda>applied.
     andThen (if ec \<noteq> '''' then MustMoney em ec else Inr unset) (\<lambda>excess.
     Inr \<lparr>ir_event = eid, ir_state = st, ir_applied = applied, ir_excess = excess, ir_closed = cl,
          ir_replayed = False\<rparr>)))))))))"

definition encodeReverseApply :: "ReverseResult \<Rightarrow> json" where
  "encodeReverseApply r =
     (let (am, ac) = (if IsSet (rr_applied r) then (amount (rr_applied r), currency (rr_applied r)) else (0, ''''))
      in JObj [(''applied_minor'', JNum am), (''applied_cur'', JStr ac), (''advance_reopened'', JBool (rr_reopened r))])"

definition decodeReverseApply :: "json \<Rightarrow> err + ReverseResult" where
  "decodeReverseApply b =
     andThen (field_num ''applied_minor'' b) (\<lambda>am. andThen (field_str ''applied_cur'' b) (\<lambda>ac.
     andThen (field_bool ''advance_reopened'' b) (\<lambda>ro.
     andThen (if ac \<noteq> '''' then MustMoney am ac else Inr unset) (\<lambda>applied.
     Inr (no_reverse\<lparr>rr_applied := applied, rr_reopened := ro\<rparr>)))))"

section \<open>The waterfall\<close>

definition recoveredOf :: "string \<Rightarrow> by_component \<Rightarrow> AllocationComponent \<Rightarrow> err + money" where
  "recoveredOf cur recovered c = (case recovered c of Some m \<Rightarrow> Inr m | None \<Rightarrow> ZeroMoney cur)"

text \<open>\<^verbatim>\<open>take := remaining; if take > limit { take = limit }\<close>.\<close>

definition take_up_to :: "money \<Rightarrow> money \<Rightarrow> err + money" where
  "take_up_to remaining limit = andThen (Cmp remaining limit) (\<lambda>c. Inr (if c > 0 then limit else remaining))"

definition insert_alloc :: "env \<Rightarrow> string \<Rightarrow> string \<Rightarrow> AllocationComponent \<Rightarrow> money \<Rightarrow> db \<Rightarrow> err + db" where
  "insert_alloc E evt aid c m s =
     (let (alc, s) = NewID E ''alc'' s in
      Allocations_Insert E \<lparr>AllocationID = alc, AlcEventID = evt, AlcAdvanceID = aid, Component = c, AlcAmount = m\<rparr> s)"

fun allocate_loop ::
  "env \<Rightarrow> string \<Rightarrow> Advance \<Rightarrow> money \<Rightarrow> by_component \<Rightarrow> string list \<Rightarrow> money \<Rightarrow> money \<Rightarrow> db \<Rightarrow> err + (money \<times> money) \<times> db" where
  "allocate_loop E evt adv gross recovered [] remaining feeTake s = Inr ((remaining, feeTake), s)"
| "allocate_loop E evt adv gross recovered (w # ws) remaining feeTake s =
     (if \<not> IsPositive remaining then Inr ((remaining, feeTake), s)
      else
        andThen (case component_of w of
                   Some ComponentFee \<Rightarrow> Inr (ComponentFee, Fee adv)
                 | Some ComponentPrincipal \<Rightarrow> andThen (Sub gross (Fee adv)) (\<lambda>m. Inr (ComponentPrincipal, m))
                 | _ \<Rightarrow> Inl (Fmt ''unknown waterfall component'')) (\<lambda>(c, compTotal).
        andThen (recoveredOf (currency (Outstanding adv)) recovered c) (\<lambda>compRecovered.
        andThen (Sub compTotal compRecovered) (\<lambda>compRemaining.
        if \<not> IsPositive compRemaining then allocate_loop E evt adv gross recovered ws remaining feeTake s
        else
          andThen (take_up_to remaining compRemaining) (\<lambda>tk.
          andThen (insert_alloc E evt (AdvanceID adv) c tk s) (\<lambda>s'.
          andThen (Sub remaining tk) (\<lambda>remaining'.
          allocate_loop E evt adv gross recovered ws remaining' (if c = ComponentFee then tk else feeTake) s')))))))"

definition allocate :: "env \<Rightarrow> recovery_cfg \<Rightarrow> string \<Rightarrow> Advance \<Rightarrow> money \<Rightarrow> db \<Rightarrow> err + money \<times> db" where
  "allocate E C evt adv applied s =
     (let cur = currency (Outstanding adv) in
      andThen (cfg_waterfall C (AdvProgrammeID adv)) (\<lambda>waterfall.
      andThen (SumByComponent E (AdvanceID adv) s) (\<lambda>recovered.
      andThen (recoveredOf cur recovered ComponentFee) (\<lambda>feeRec.
      andThen (recoveredOf cur recovered ComponentPrincipal) (\<lambda>prinRec.
      andThen (Add feeRec prinRec) (\<lambda>totalRecovered.
      andThen (Add (Outstanding adv) totalRecovered) (\<lambda>gross.
      andThen (allocate_loop E evt adv gross recovered waterfall applied (zero_of cur) s) (\<lambda>((remaining, feeTake), s').
      if IsPositive remaining then Inl (Fmt ''allocation waterfall did not consume applied amount'')
      else Inr (feeTake, s')))))))))"

section \<open>Reversal\<close>

text \<open>The reverse waterfall: the loop runs over the components from the last to the first.\<close>

fun unallocate_loop ::
  "env \<Rightarrow> string \<Rightarrow> string \<Rightarrow> by_component \<Rightarrow> string list \<Rightarrow> money \<Rightarrow> money \<Rightarrow> db \<Rightarrow> err + (money \<times> money) \<times> db" where
  "unallocate_loop E evt aid perComp [] remaining feeReversed s = Inr ((remaining, feeReversed), s)"
| "unallocate_loop E evt aid perComp (w # ws) remaining feeReversed s =
     (if \<not> IsPositive remaining then Inr ((remaining, feeReversed), s)
      else (case Option.bind (component_of w) (\<lambda>c. map_option (Pair c) (perComp c)) of
         None \<Rightarrow> unallocate_loop E evt aid perComp ws remaining feeReversed s
       | Some (c, have_c) \<Rightarrow>
           if \<not> IsPositive have_c then unallocate_loop E evt aid perComp ws remaining feeReversed s
           else
             andThen (take_up_to remaining have_c) (\<lambda>tk.
             andThen (Neg tk) (\<lambda>neg.
             andThen (insert_alloc E evt aid c neg s) (\<lambda>s'.
             andThen (Sub remaining tk) (\<lambda>remaining'.
             unallocate_loop E evt aid perComp ws remaining' (if c = ComponentFee then tk else feeReversed) s'))))))"

text \<open>The claim that every apply path takes first: replay, refusal or a fresh record.\<close>

definition reverse_claim :: "env \<Rightarrow> string \<Rightarrow> RecoveryEvent \<Rightarrow> money \<Rightarrow> string \<Rightarrow> db \<Rightarrow> err + ReverseResult option \<times> db" where
  "reverse_claim E telco original amt rsid s =
     (let hash = reversalSourceHash E telco rsid (SourceEventID original) amt in
      andThen (PutIfAbsent E \<lparr>i_telco = telco, i_op = ''recovery.reverse'', i_key = rsid, i_hash = hash,
          i_status = 0, i_body = JObj [], i_terminal = False\<rparr> s) (\<lambda>((rec, stored), s').
      if stored then Inr (None, s')
      else if i_hash rec \<noteq> hash then Inl ErrDivergentReversal
      else andThen (decodeReverseApply (i_body rec)) (\<lambda>rp.
        Inr (Some (no_reverse\<lparr>rr_applied := rr_applied rp, rr_reopened := rr_reopened rp, rr_replayed := True\<rparr>), s'))))"

text \<open>Book restoration and the mirrored journal, after the components were un-allocated.\<close>

definition reverse_book ::
  "env \<Rightarrow> recovery_cfg \<Rightarrow> RecoveryEvent \<Rightarrow> money \<Rightarrow> string \<Rightarrow> string \<Rightarrow> Advance \<Rightarrow> money \<Rightarrow> db \<Rightarrow> err + bool \<times> db" where
  "reverse_book E C original amt corr rsid adv feeReversed s =
     andThen (Add (Outstanding adv) amt) (\<lambda>newOutstanding.
     let reopened = (State adv = AdvClosed);
         toState = (if reopened then AdvPartiallyRecovered else State adv) in
     andThen (ApplyReversal E (AdvanceID adv) (Version adv) (State adv) toState newOutstanding s) (\<lambda>s.
     andThen (ReAddUtilisation E (FundingPoolID adv) amt s) (\<lambda>s.
     let feeRecog = (if FeeRecognition adv = FeeRecognitionDeferred then feeReversed else zero_of (currency amt)) in
     andThen (PostEvent E (cfg_ledger C)
        \<lparr>BusinessEventKey = RecoveryEventID original @ ''/reversed/'' @ rsid, EventType = EventRecoveryReversed,
         JnlTelcoID = EvtTelcoID original, JnlProgrammeID = AdvProgrammeID adv, JnlAdvanceID = AdvanceID adv,
         JnlCorrelationID = corr, JnlLines = [], JnlTemplateVersion = ''''\<rparr>
        [(''AMOUNT'', amt), (''FEE_RECOGNIZED'', feeRecog)] s) (\<lambda>(_, s). Inr (reopened, s)))))"

text \<open>A reversal whose claim is fresh: the limit, the un-allocation, the book and the stored answer.\<close>

definition reverse_fresh ::
  "env \<Rightarrow> recovery_cfg \<Rightarrow> string \<Rightarrow> RecoveryEvent \<Rightarrow> money \<Rightarrow> string \<Rightarrow> string \<Rightarrow> db \<Rightarrow> err + ReverseResult \<times> db" where
  "reverse_fresh E C telco original amt corr rsid s =
     andThen (NetAppliedByEvent E (RecoveryEventID original) s) (\<lambda>(netApplied, aid).
     andThen (Cmp amt netApplied) (\<lambda>c1.
     if c1 > 0 then Inl (Fmt ''reversal exceeds the event net applied'')
     else
     andThen (Advances_Get E aid s) (\<lambda>adv.
     if State adv \<notin> {AdvActive, AdvPartiallyRecovered, AdvClosed}
     then Inl (Fmt ''reversal requires operator resolution'')
     else
     andThen (ListNetByEventComponent E (RecoveryEventID original) s) (\<lambda>perComp.
     andThen (cfg_waterfall C (AdvProgrammeID adv)) (\<lambda>waterfall.
     andThen (unallocate_loop E (RecoveryEventID original) (AdvanceID adv) perComp (rev waterfall) amt
                (zero_of (currency amt)) s) (\<lambda>((remaining, feeReversed), s).
     if IsPositive remaining then Inl (Fmt ''reversal un-allocation did not consume'')
     else
     andThen (reverse_book E C original amt corr rsid adv feeReversed s) (\<lambda>(reopened, s).
     andThen (if Cmp amt netApplied = Inr 0
              then RecoveryEvents_SetState E (RecoveryEventID original) RecoveryAllocated RecoveryReversed s
              else Inr s) (\<lambda>s.
     let out = no_reverse\<lparr>rr_applied := amt, rr_reopened := reopened\<rparr> in
     andThen (SetResponse E telco ''recovery.reverse'' rsid 200 (encodeReverseApply out) s) (\<lambda>s.
     Inr (out, s))))))))))"

definition applyReversal ::
  "env \<Rightarrow> recovery_cfg \<Rightarrow> ctx \<Rightarrow> RecoveryEvent \<Rightarrow> money \<Rightarrow> string \<Rightarrow> string \<Rightarrow> db \<Rightarrow> err + ReverseResult \<times> db" where
  "applyReversal E C c original amt corr rsid s =
     andThen (TenantFrom c) (\<lambda>telco.
     andThen (reverse_claim E telco original amt rsid s) (\<lambda>(replay, s).
     case replay of
       Some rp \<Rightarrow> Inr (rp, s)
     | None \<Rightarrow> reverse_fresh E C telco original amt corr rsid s))"

text \<open>
  The savepoint: an error undoes the attempt, and the two collisions become a park reason with
  the outer transaction intact.
\<close>

definition collision_reason :: "err \<Rightarrow> string option" where
  "collision_reason e =
     (if e = Pg ''23505'' ''advances_one_active_uq'' then Some ''SUBSCRIBER_HAS_OPEN_ADVANCE''
      else if e = Pg ''23514'' ''funding_no_overallocation'' then Some ''POOL_HEADROOM'' else None)"

datatype guarded = Applied ReverseResult | Collision string

definition applyReversalGuarded ::
  "env \<Rightarrow> recovery_cfg \<Rightarrow> ctx \<Rightarrow> RecoveryEvent \<Rightarrow> money \<Rightarrow> string \<Rightarrow> string \<Rightarrow> db \<Rightarrow> err + guarded \<times> db" where
  "applyReversalGuarded E C c original amt corr rsid s =
     (case applyReversal E C c original amt corr rsid s of
        Inr (out, s') \<Rightarrow> Inr (Applied out, s')
      | Inl e \<Rightarrow> (case collision_reason e of None \<Rightarrow> Inl e | Some reason \<Rightarrow> Inr (Collision reason, s)))"

definition applyParkedIfAny :: "env \<Rightarrow> recovery_cfg \<Rightarrow> ctx \<Rightarrow> IngestCmd \<Rightarrow> db \<Rightarrow> err + db" where
  "applyParkedIfAny E C c cmd s =
     (case FindParkedForOriginal E (ic_source cmd) s of
        Inl e \<Rightarrow> if e = ErrNotFound then Inr s else Inl e
      | Inr parked \<Rightarrow>
          andThen (RecoveryEvents_GetBySource E (ic_source cmd) s) (\<lambda>original.
          andThen (applyReversalGuarded E C c original (PrvAmount parked) (ic_corr cmd)
                     (ReversalSourceEventID parked) s) (\<lambda>(g, s).
          case g of Collision reason \<Rightarrow> SetParkReason E (PendingReversalID parked) reason s
          | Applied _ \<Rightarrow> MarkApplied E (PendingReversalID parked) s)))"

section \<open>Ingest\<close>

definition journal_for :: "string \<Rightarrow> string \<Rightarrow> string \<Rightarrow> string \<Rightarrow> string \<Rightarrow> string \<Rightarrow> Journal" where
  "journal_for key type telco prog aid corr =
     \<lparr>BusinessEventKey = key, EventType = type, JnlTelcoID = telco, JnlProgrammeID = prog, JnlAdvanceID = aid,
      JnlCorrelationID = corr, JnlLines = [], JnlTemplateVersion = ''''\<rparr>"

definition writeoffIncome :: "env \<Rightarrow> recovery_cfg \<Rightarrow> RecoveryEvent \<Rightarrow> Advance \<Rightarrow> IngestCmd \<Rightarrow> db \<Rightarrow> err + IngestResult \<times> db" where
  "writeoffIncome E C evt wo cmd s =
     andThen (insert_alloc E (RecoveryEventID evt) (AdvanceID wo) ComponentWriteoffIncome (ic_amount cmd) s) (\<lambda>s.
     andThen (PostEvent E (cfg_ledger C)
        (journal_for (RecoveryEventID evt @ ''/writeoff-income'') EventWriteoffRecovery (EvtTelcoID evt)
           (AdvProgrammeID wo) (AdvanceID wo) (ic_corr cmd)) [(''AMOUNT'', ic_amount cmd)] s) (\<lambda>(_, s).
     andThen (RecoveryEvents_SetState E (RecoveryEventID evt) RecoveryPending RecoveryAllocated s) (\<lambda>s.
     Inr (no_result\<lparr>ir_event := RecoveryEventID evt, ir_state := state_name RecoveryAllocated,
                    ir_applied := ic_amount cmd\<rparr>, s))))"

definition quarantine :: "env \<Rightarrow> recovery_cfg \<Rightarrow> RecoveryEvent \<Rightarrow> money \<Rightarrow> string \<Rightarrow> string \<Rightarrow> db \<Rightarrow> err + IngestResult \<times> db" where
  "quarantine E C evt amt reason corr s =
     andThen (Suspense_Insert E (EvtTelcoID evt) (RecoveryEventID evt) amt reason s) (\<lambda>s.
     andThen (PostEvent E (cfg_ledger C)
        (journal_for (RecoveryEventID evt @ ''/quarantined'') EventRecoveryQuarantined (EvtTelcoID evt) '''' '''' corr)
        [(''AMOUNT'', amt)] s) (\<lambda>(_, s).
     andThen (RecoveryEvents_SetState E (RecoveryEventID evt) RecoveryPending RecoveryQuarantined s) (\<lambda>s.
     Inr (no_result\<lparr>ir_event := RecoveryEventID evt, ir_state := state_name RecoveryQuarantined,
                    ir_excess := amt\<rparr>, s))))"

text \<open>Applied and excess parts of the amount against what is outstanding.\<close>

definition split_amount :: "money \<Rightarrow> money \<Rightarrow> err + money \<times> money" where
  "split_amount amt outstanding =
     andThen (Cmp amt outstanding) (\<lambda>c.
     if c > 0 then andThen (Sub amt outstanding) (\<lambda>ex. Inr (outstanding, ex)) else Inr (amt, unset))"

text \<open>The advance and pool side of a matched event: outstanding, state, utilisation and hold.\<close>

definition apply_book ::
  "env \<Rightarrow> string \<Rightarrow> string \<Rightarrow> RecoveryEvent \<Rightarrow> Advance \<Rightarrow> money \<Rightarrow> db \<Rightarrow> err + bool \<times> db" where
  "apply_book E telco sub evt adv applied s =
     andThen (Sub (Outstanding adv) applied) (\<lambda>newOutstanding.
     let closed = IsZero newOutstanding;
         toState = (if closed then AdvClosed else AdvPartiallyRecovered) in
     andThen (ApplyRecovery E (AdvanceID adv) (Version adv) (State adv) toState newOutstanding s) (\<lambda>s.
     andThen (ReduceUtilisation E (FundingPoolID adv) applied s) (\<lambda>s.
     andThen (if closed \<and> take 3 (SourceEventID evt) = ''wh:''
              then RecoveryHolds_Insert E telco sub (AdvanceID adv) (RecoveryEventID evt) s else Inr s) (\<lambda>s.
     Inr (closed, s)))))"

text \<open>The journals of a matched event, the excess held in suspense.\<close>

definition apply_journals ::
  "env \<Rightarrow> recovery_cfg \<Rightarrow> string \<Rightarrow> RecoveryEvent \<Rightarrow> Advance \<Rightarrow> IngestCmd \<Rightarrow> money \<Rightarrow> money \<Rightarrow> money \<Rightarrow> db \<Rightarrow> err + db" where
  "apply_journals E C telco evt adv cmd applied excess feeTake s =
     (let feeRecog = (if FeeRecognition adv = FeeRecognitionDeferred then feeTake else zero_of (currency applied)) in
      andThen (PostEvent E (cfg_ledger C)
         (journal_for (RecoveryEventID evt @ ''/applied'') EventRecoveryApplied telco (AdvProgrammeID adv) (AdvanceID adv)
            (ic_corr cmd)) [(''AMOUNT'', applied), (''FEE_RECOGNIZED'', feeRecog)] s) (\<lambda>(_, s).
      if IsSet excess \<and> IsPositive excess then
        andThen (Suspense_Insert E telco (RecoveryEventID evt) excess ''OVER_RECOVERY'' s) (\<lambda>s.
        andThen (PostEvent E (cfg_ledger C)
           (journal_for (RecoveryEventID evt @ ''/suspense'') EventRecoverySuspense telco (AdvProgrammeID adv) (AdvanceID adv)
              (ic_corr cmd)) [(''AMOUNT'', excess)] s) (\<lambda>(_, s). Inr s))
      else Inr s))"

definition apply_matched ::
  "env \<Rightarrow> recovery_cfg \<Rightarrow> ctx \<Rightarrow> string \<Rightarrow> string \<Rightarrow> RecoveryEvent \<Rightarrow> Advance \<Rightarrow> IngestCmd \<Rightarrow> db \<Rightarrow> err + IngestResult \<times> db" where
  "apply_matched E C c telco sub evt adv cmd s =
     andThen (split_amount (ic_amount cmd) (Outstanding adv)) (\<lambda>(applied, excess).
     andThen (allocate E C (RecoveryEventID evt) adv applied s) (\<lambda>(feeTake, s).
     andThen (apply_book E telco sub evt adv applied s) (\<lambda>(closed, s).
     andThen (apply_journals E C telco evt adv cmd applied excess feeTake s) (\<lambda>s.
     andThen (RecoveryEvents_SetState E (RecoveryEventID evt) RecoveryPending RecoveryAllocated s) (\<lambda>s.
     let (oid, s) = NewID E ''evt'' s in
     andThen (Outbox_Append E \<lparr>ob_id = oid, ob_telco = telco, ob_agg = AdvanceID adv,
         ob_type = ''advance.RecoveryApplied'',
         ob_payload = JObj [(''recovery_event_id'', JStr (RecoveryEventID evt)), (''advance_id'', JStr (AdvanceID adv)),
                            (''correlation_id'', JStr (ic_corr cmd))], ob_at = now E\<rparr> s) (\<lambda>s.
     andThen (applyParkedIfAny E C c cmd s) (\<lambda>s.
     Inr (\<lparr>ir_event = RecoveryEventID evt, ir_state = state_name RecoveryAllocated, ir_applied = applied,
          ir_excess = excess, ir_closed = closed, ir_replayed = False\<rparr>, s))))))))"

definition classifyAndApply ::
  "env \<Rightarrow> recovery_cfg \<Rightarrow> ctx \<Rightarrow> string \<Rightarrow> IngestCmd \<Rightarrow> db \<Rightarrow> err + IngestResult \<times> db" where
  "classifyAndApply E C c telco cmd s =
     andThen (case GetLiveByToken E (ic_token cmd) s of
                Inr sub \<Rightarrow> Inr (sub_id sub)
              | Inl e \<Rightarrow> if e = ErrNotFound then Inr '''' else Inl e) (\<lambda>sub.
     let (rid, s) = NewID E ''rcv'' s;
         evt = \<lparr>RecoveryEventID = rid, EvtTelcoID = telco, SourceEventID = ic_source cmd, EvtSubscriberID = sub,
                EvtMSISDNToken = ic_token cmd, EvtAmount = ic_amount cmd, EvtState = RecoveryPending,
                OccurredAt = ic_occurred cmd\<rparr> in
     andThen (RecoveryEvents_Insert E evt s) (\<lambda>(created, s).
     if \<not> created then
       andThen (RecoveryEvents_GetBySource E (ic_source cmd) s) (\<lambda>ex.
       Inr (no_result\<lparr>ir_event := RecoveryEventID ex, ir_state := state_name (EvtState ex), ir_replayed := True\<rparr>, s))
     else if sub = '''' then
       andThen (RecoveryEvents_SetState E rid RecoveryPending RecoveryUnmatched s) (\<lambda>s.
       Inr (no_result\<lparr>ir_event := rid, ir_state := state_name RecoveryUnmatched\<rparr>, s))
     else
       (case FindOpenBySubscriber E sub s of
          Inr adv \<Rightarrow> apply_matched E C c telco sub evt adv cmd s
        | Inl e \<Rightarrow>
            if e \<noteq> ErrNotFound then Inl e
            else (case FindWrittenOffBySubscriber E sub s of
                    Inr wo \<Rightarrow> writeoffIncome E C evt wo cmd s
                  | Inl e' \<Rightarrow> if e' \<noteq> ErrNotFound then Inl e'
                             else quarantine E C evt (ic_amount cmd) ''NO_OPEN_ADVANCE'' (ic_corr cmd) s))))"

definition ingest_tx ::
  "recovery_cfg \<Rightarrow> ctx \<Rightarrow> string \<Rightarrow> IngestCmd \<Rightarrow> env \<Rightarrow> db \<Rightarrow> err + IngestResult \<times> db" where
  "ingest_tx C c telco cmd E s =
     (let hash = recoverySourceHash E telco cmd in
      andThen (PutIfAbsent E \<lparr>i_telco = telco, i_op = ''recovery.ingest'', i_key = ic_source cmd, i_hash = hash,
          i_status = 0, i_body = JObj [], i_terminal = False\<rparr> s) (\<lambda>((rec, stored), s).
      if \<not> stored then
        (if i_hash rec \<noteq> hash then Inl ErrDivergentRecovery
         else andThen (decodeIngestResult (i_body rec)) (\<lambda>res. Inr (res\<lparr>ir_replayed := True\<rparr>, s)))
      else
        andThen (classifyAndApply E C c telco cmd s) (\<lambda>(res, s).
        andThen (SetResponse E telco ''recovery.ingest'' (ic_source cmd) 200 (encodeIngestResult res) s) (\<lambda>s.
        Inr (res, s)))))"

definition audit_tx :: "audit_row \<Rightarrow> env \<Rightarrow> db \<Rightarrow> err + unit \<times> db" where
  "audit_tx row E s = (let (_, s) = NewID E ''aud'' s in andThen (Audit_Insert E row s) (\<lambda>s. Inr ((), s)))"

definition recordDivergentRecovery :: "env \<Rightarrow> string \<Rightarrow> IngestCmd \<Rightarrow> string \<Rightarrow> db \<Rightarrow> db" where
  "recordDivergentRecovery E telco cmd hash s =
     snd (WithTenantTx E telco (audit_tx
       \<lparr>au_telco = telco, au_actor = ''channel:telco'', au_action = ''recovery.ingest.divergent_duplicate'',
        au_ttype = ''source_event_id'', au_target = ic_source cmd,
        au_reason = ''recovery source event reused with a divergent payload (amount='' @
          FormatInt (sint (amount (ic_amount cmd))) @ '' '' @ currency (ic_amount cmd) @ '' hash='' @ hash @ '')''\<rparr>) s)"

definition Ingest :: "env \<Rightarrow> recovery_cfg \<Rightarrow> ctx \<Rightarrow> IngestCmd \<Rightarrow> db \<Rightarrow> (err + IngestResult) \<times> db" where
  "Ingest E C c cmd s =
     (if ic_source cmd = '''' \<or> ic_corr cmd = '''' then (Inl (Fmt ''source_event_id and correlation id are required''), s)
      else if \<not> IsPositive (ic_amount cmd) then (Inl (Fmt ''recovery amount must be positive''), s)
      else (case TenantFrom c of
         Inl e \<Rightarrow> (Inl e, s)
       | Inr telco \<Rightarrow>
           (case WithTenantTx E c (ingest_tx C c telco cmd) s of
              (Inl e, s') \<Rightarrow>
                if e = ErrDivergentRecovery
                then (Inl ErrDivergentRecovery, recordDivergentRecovery E telco cmd (recoverySourceHash E telco cmd) s')
                else (Inl e, s')
            | (Inr r, s') \<Rightarrow> (Inr r, s'))))"

section \<open>Reverse and retry\<close>

definition park_cmd :: "env \<Rightarrow> string \<Rightarrow> ReverseCmd \<Rightarrow> string \<Rightarrow> db \<Rightarrow> err + bool \<times> db" where
  "park_cmd E telco cmd reason s =
     (let (pid, s) = NewID E ''prv'' s in
      Park E \<lparr>PendingReversalID = pid, PrvTelcoID = telco, OriginalSourceEventID = rc_original cmd,
             ReversalSourceEventID = rc_reversal cmd, PrvAmount = rc_amount cmd, PrvState = '''',
             ParkReason = reason, AppliedAt = None\<rparr> s)"

text \<open>The park of a collision: the freshest reason is kept when a row was parked before.\<close>

definition park_collision :: "env \<Rightarrow> string \<Rightarrow> ReverseCmd \<Rightarrow> string \<Rightarrow> db \<Rightarrow> err + ReverseResult \<times> db" where
  "park_collision E telco cmd reason s =
     andThen (park_cmd E telco cmd reason s) (\<lambda>(created, s).
     andThen (if created then Inr s
              else andThen (FindParkedForOriginal E (rc_original cmd) s) (\<lambda>parked.
                   SetParkReason E (PendingReversalID parked) reason s)) (\<lambda>s.
     Inr (no_reverse\<lparr>rr_parked := True, rr_replayed := \<not> created\<rparr>, s)))"

text \<open>The path of a reversal that no completed record answers.\<close>

definition reverse_route :: "env \<Rightarrow> recovery_cfg \<Rightarrow> ctx \<Rightarrow> string \<Rightarrow> ReverseCmd \<Rightarrow> db \<Rightarrow> err + ReverseResult \<times> db" where
  "reverse_route E C c telco cmd s =
     (case RecoveryEvents_GetBySource E (rc_original cmd) s of
        Inl e \<Rightarrow>
          if e \<noteq> ErrNotFound then Inl e
          else andThen (park_cmd E telco cmd '''' s) (\<lambda>(created, s).
               andThen (FindParkedForOriginal E (rc_original cmd) s) (\<lambda>parked.
               Inr (no_reverse\<lparr>rr_parked := True, rr_replayed := \<not> created,
                               rr_pending := PendingReversalID parked\<rparr>, s)))
      | Inr original \<Rightarrow>
          if EvtState original \<noteq> RecoveryAllocated then
            andThen (park_cmd E telco cmd ''ORIGINAL_NOT_ALLOCATED'' s) (\<lambda>(created, s).
            Inr (no_reverse\<lparr>rr_parked := True, rr_replayed := \<not> created\<rparr>, s))
          else
            andThen (applyReversalGuarded E C c original (rc_amount cmd) (rc_corr cmd) (rc_reversal cmd) s) (\<lambda>(g, s).
            case g of
              Collision reason \<Rightarrow> park_collision E telco cmd reason s
            | Applied out \<Rightarrow>
                (case FindParkedForOriginal E (rc_original cmd) s of
                   Inr parked \<Rightarrow> andThen (MarkApplied E (PendingReversalID parked) s) (\<lambda>s. Inr (out, s))
                 | Inl e \<Rightarrow> if e = ErrNotFound then Inr (out, s) else Inl e)))"

definition reverse_tx :: "recovery_cfg \<Rightarrow> ctx \<Rightarrow> ReverseCmd \<Rightarrow> env \<Rightarrow> db \<Rightarrow> err + ReverseResult \<times> db" where
  "reverse_tx C c cmd E s =
     andThen (TenantFrom c) (\<lambda>telco.
     let revHash = reversalSourceHash E telco (rc_reversal cmd) (rc_original cmd) (rc_amount cmd) in
     case Idempotency_Get E telco ''recovery.reverse'' (rc_reversal cmd) s of
       Inr ex \<Rightarrow>
         if i_hash ex \<noteq> revHash then Inl ErrDivergentReversal
         else if i_status ex = 200 then
           andThen (decodeReverseApply (i_body ex)) (\<lambda>rp.
           Inr (no_reverse\<lparr>rr_applied := rr_applied rp, rr_reopened := rr_reopened rp, rr_replayed := True\<rparr>, s))
         else reverse_route E C c telco cmd s
     | Inl e \<Rightarrow> if e \<noteq> ErrNotFound then Inl e else reverse_route E C c telco cmd s)"

definition recordDivergentReversal :: "env \<Rightarrow> ctx \<Rightarrow> ReverseCmd \<Rightarrow> db \<Rightarrow> db" where
  "recordDivergentReversal E c cmd s =
     (case TenantFrom c of
        Inl _ \<Rightarrow> s
      | Inr telco \<Rightarrow> snd (WithTenantTx E telco (audit_tx
          \<lparr>au_telco = telco, au_actor = ''channel:telco'', au_action = ''recovery.reverse.divergent_duplicate'',
           au_ttype = ''reversal_source_event_id'', au_target = rc_reversal cmd,
           au_reason = ''reversal source event reused with a divergent payload (original='' @ rc_original cmd
             @ '' amount='' @ FormatInt (sint (amount (rc_amount cmd))) @ '' '' @ currency (rc_amount cmd) @ '')''\<rparr>) s))"

definition Reverse :: "env \<Rightarrow> recovery_cfg \<Rightarrow> ctx \<Rightarrow> ReverseCmd \<Rightarrow> db \<Rightarrow> (err + ReverseResult) \<times> db" where
  "Reverse E C c cmd s =
     (if rc_reversal cmd = '''' \<or> rc_original cmd = '''' \<or> rc_corr cmd = ''''
      then (Inl (Fmt ''reversal source, original source and correlation id are required''), s)
      else if \<not> IsPositive (rc_amount cmd) then (Inl (Fmt ''reversal amount must be positive''), s)
      else (case WithTenantTx E c (reverse_tx C c cmd) s of
              (Inl e, s') \<Rightarrow>
                if e = ErrDivergentReversal then (Inl ErrDivergentReversal, recordDivergentReversal E c cmd s')
                else (Inl e, s')
            | (Inr r, s') \<Rightarrow> (Inr r, s')))"

definition auditRetry :: "env \<Rightarrow> string \<Rightarrow> string \<Rightarrow> string \<Rightarrow> string \<Rightarrow> db \<Rightarrow> err + db" where
  "auditRetry E telco actor pid outcome s =
     (let (_, s) = NewID E ''aud'' s in
      Audit_Insert E \<lparr>au_telco = telco, au_actor = actor, au_action = ''reversal.retry'',
        au_ttype = ''pending_reversal'', au_target = pid, au_reason = outcome\<rparr> s)"

definition retry_blocked :: "env \<Rightarrow> string \<Rightarrow> string \<Rightarrow> string \<Rightarrow> string \<Rightarrow> db \<Rightarrow> err + RetryResult \<times> db" where
  "retry_blocked E telco actor pid reason s =
     andThen (SetParkReason E pid reason s) (\<lambda>s.
     andThen (auditRetry E telco actor pid (''blocked: '' @ reason) s) (\<lambda>s.
     Inr (\<lparr>rt_applied = False, rt_reason = reason\<rparr>, s)))"

text \<open>
  The transaction is bound to \<^verbatim>\<open>telcoID\<close>, the calls inside it get the caller's context
  \<open>c\<close>, as in the source.
\<close>

definition retry_tx :: "recovery_cfg \<Rightarrow> ctx \<Rightarrow> string \<Rightarrow> string \<Rightarrow> string \<Rightarrow> env \<Rightarrow> db \<Rightarrow> err + RetryResult \<times> db" where
  "retry_tx C c telco pid actor E s =
     andThen (ClaimParkedByID E pid s) (\<lambda>parked.
     case RecoveryEvents_GetBySource E (OriginalSourceEventID parked) s of
       Inl e \<Rightarrow> if e = ErrNotFound then retry_blocked E telco actor (PendingReversalID parked) ''ORIGINAL_UNSEEN'' s
                else Inl e
     | Inr original \<Rightarrow>
         if EvtState original \<noteq> RecoveryAllocated
         then retry_blocked E telco actor (PendingReversalID parked) ''ORIGINAL_NOT_ALLOCATED'' s
         else
           (let (corr, s) = NewID E ''cor'' s in
            andThen (applyReversalGuarded E C c original (PrvAmount parked) corr (ReversalSourceEventID parked) s) (\<lambda>(g, s).
            case g of
              Collision reason \<Rightarrow> retry_blocked E telco actor (PendingReversalID parked) reason s
            | Applied _ \<Rightarrow>
                andThen (MarkApplied E (PendingReversalID parked) s) (\<lambda>s.
                andThen (auditRetry E telco actor (PendingReversalID parked) ''applied'' s) (\<lambda>s.
                Inr (\<lparr>rt_applied = True, rt_reason = ''''\<rparr>, s))))))"

definition RetryParked :: "env \<Rightarrow> recovery_cfg \<Rightarrow> ctx \<Rightarrow> string \<Rightarrow> string \<Rightarrow> string \<Rightarrow> db \<Rightarrow> (err + RetryResult) \<times> db" where
  "RetryParked E C c telco pid actor s = WithTenantTx E telco (retry_tx C c telco pid actor) s"

end
