(* ===== verification/RecoveryBook.thy ===== *)
theory RecoveryBook
  imports Recovery
begin

text \<open>
  What recovery does to the book: the money of an event is split exactly, an advance's debt and
  its allocations always add up to the same repayment, and the pools stay funded. The lemmas
  follow the call structure of the use case; each operation either leaves the book's tables
  alone or moves them together.
\<close>

section \<open>The book\<close>

definition owed :: "db \<Rightarrow> string \<Rightarrow> int" where
  "owed s aid = (\<Sum>r\<leftarrow>advances s. if a_id r = aid then sint (a_out r) else 0)"

definition receivable :: "AllocationComponent \<Rightarrow> bool" where
  "receivable c \<longleftrightarrow> c \<in> {ComponentFee, ComponentPrincipal}"

definition repaid :: "db \<Rightarrow> string \<Rightarrow> int" where
  "repaid s aid = (\<Sum>r\<leftarrow>allocs s. if al_adv r = aid \<and> receivable (al_comp r) then sint (al_amount r) else 0)"

definition gross :: "db \<Rightarrow> string \<Rightarrow> int" where
  "gross s aid = owed s aid + repaid s aid"

text \<open>The CHECKs on parked amounts and outstanding amounts, and the invariant of the book.\<close>

definition schema_ok :: "db \<Rightarrow> bool" where
  "schema_ok s \<longleftrightarrow> list_all (\<lambda>r. 0 < sint (pr_amount r)) (pending s)
     \<and> list_all (\<lambda>r. 0 \<le> sint (a_out r)) (advances s)"

definition book_ok :: "db \<Rightarrow> bool" where
  "book_ok s \<longleftrightarrow> funded s \<and> schema_ok s"

text \<open>A step keeps the book: the pools stay funded and no advance's repayment changes.\<close>

definition keeps_book :: "db \<Rightarrow> db \<Rightarrow> bool" where
  "keeps_book s s' \<longleftrightarrow> (book_ok s \<longrightarrow> book_ok s' \<and> (\<forall>aid. gross s' aid = gross s aid))"

lemma keeps_book_refl [simp, intro]: "keeps_book s s"
  by (simp add: keeps_book_def)

lemma keeps_book_trans: "keeps_book s t \<Longrightarrow> keeps_book t u \<Longrightarrow> keeps_book s u"
  by (auto simp: keeps_book_def)

definition same_book :: "db \<Rightarrow> db \<Rightarrow> bool" where
  "same_book s s' \<longleftrightarrow> pools s' = pools s \<and> advances s' = advances s \<and> allocs s' = allocs s
     \<and> (schema_ok s \<longrightarrow> schema_ok s')"

lemma same_book_keeps: "same_book s s' \<Longrightarrow> keeps_book s s'"
  using funded_frame [of s' s] by (simp add: same_book_def keeps_book_def book_ok_def gross_def owed_def repaid_def)

lemma same_book_refl [simp, intro]: "same_book s s"
  by (simp add: same_book_def)

lemma same_book_trans: "same_book s t \<Longrightarrow> same_book t u \<Longrightarrow> same_book s u"
  by (simp add: same_book_def)

named_theorems book_frame \<open>operations that leave the book's tables alone\<close>

lemma same_book_NewID [book_frame]: "NewID E p s = (i, s') \<Longrightarrow> same_book s s'"
  by (auto simp: NewID_def same_book_def schema_ok_def)

lemma same_book_PostEvent [book_frame]: "PostEvent E C j b s = Inr (r, s') \<Longrightarrow> same_book s s'"
proof -
  assume "PostEvent E C j b s = Inr (r, s')"
  note f = PostEvent_frame [OF this]
  show ?thesis
    using arg_cong [OF f, of pools] arg_cong [OF f, of advances] arg_cong [OF f, of allocs] arg_cong [OF f, of pending]
    by (simp add: same_book_def schema_ok_def)
qed

lemma same_book_SetState [book_frame]: "RecoveryEvents_SetState E rid f t s = Inr s' \<Longrightarrow> same_book s s'"
  by (auto simp: res_simps same_book_def schema_ok_def)

lemma same_book_Suspense [book_frame]: "Suspense_Insert E t rid m x s = Inr s' \<Longrightarrow> same_book s s'"
  by (auto simp: res_simps same_book_def schema_ok_def)

lemma same_book_Outbox [book_frame]: "Outbox_Append E e s = Inr s' \<Longrightarrow> same_book s s'"
  by (auto simp: res_simps same_book_def schema_ok_def)

lemma same_book_Audit [book_frame]: "Audit_Insert E e s = Inr s' \<Longrightarrow> same_book s s'"
  by (auto simp: res_simps same_book_def schema_ok_def)

lemma same_book_SetParkReason [book_frame]: "SetParkReason E p x s = Inr s' \<Longrightarrow> same_book s s'"
  by (auto simp: res_simps same_book_def schema_ok_def intro: list_all_upd_where)

lemma same_book_MarkApplied [book_frame]: "MarkApplied E p s = Inr s' \<Longrightarrow> same_book s s'"
  by (auto simp: res_simps same_book_def schema_ok_def intro: list_all_upd_where)

lemma same_book_Park [book_frame]: "Park E p s = Inr (c, s') \<Longrightarrow> same_book s s'"
  by (auto simp: Park_def res_simps Let_def same_book_def schema_ok_def split: if_splits)

lemma same_book_SetResponse [book_frame]: "SetResponse E t op k st b s = Inr s' \<Longrightarrow> same_book s s'"
  by (auto simp: same_book_def schema_ok_def dest!: SetResponse_Inr)

lemma same_book_PutIfAbsent [book_frame]: "PutIfAbsent E rec s = Inr (r, s') \<Longrightarrow> same_book s s'"
  by (auto simp: PutIfAbsent_def res_simps same_book_def schema_ok_def split: if_splits)

lemma same_book_Holds [book_frame]: "RecoveryHolds_Insert E t sub aid rid s = Inr s' \<Longrightarrow> same_book s s'"
  by (auto simp: RecoveryHolds_Insert_def NewID_def res_simps same_book_def schema_ok_def split: if_splits)

lemma same_book_EventInsert [book_frame]: "RecoveryEvents_Insert E e s = Inr (c, s') \<Longrightarrow> same_book s s'"
  by (auto simp: RecoveryEvents_Insert_def res_simps same_book_def schema_ok_def split: if_splits)

section \<open>The waterfall consumes the amount exactly\<close>

lemma take_up_to_Inr:
  assumes "take_up_to r l = Inr t" "IsPositive r" "IsPositive l"
  shows "IsPositive t \<and> currency t = currency r \<and> currency l = currency r
    \<and> sint (amount t) = min (sint (amount r)) (sint (amount l))"
  using assms by (auto simp: take_up_to_def Cmp_def res_simps IsPositive_def split: if_splits)

definition rows_for :: "string \<Rightarrow> string \<Rightarrow> alloc_row list \<Rightarrow> bool" where
  "rows_for evt aid rows \<longleftrightarrow> list_all (\<lambda>r. al_event r = evt \<and> al_adv r = aid) rows"

lemma insert_alloc_Inr:
  "insert_alloc E evt aid c m s = Inr s' \<Longrightarrow>
   \<exists>r. s' = s\<lparr>next_id := Suc (next_id s), allocs := allocs s @ [r]\<rparr> \<and> al_event r = evt \<and> al_adv r = aid
     \<and> al_comp r = c \<and> al_amount r = amount m \<and> al_cur r = currency m"
  by (auto simp: insert_alloc_def NewID_def res_simps)

lemma Sub_exact:
  "Sub m p = Inr r \<Longrightarrow> IsSet r \<and> currency r = currency m \<and> sint (amount r) = sint (amount m) - sint (amount p)"
  by (auto simp: res_simps IsSet_def i64_simps)

lemma Add_exact_eq:
  "Add m p = Inr r \<Longrightarrow> IsSet r \<and> currency r = currency m \<and> sint (amount r) = sint (amount m) + sint (amount p)"
  by (auto simp: res_simps IsSet_def i64_simps)

lemma Neg_exact:
  "Neg m = Inr r \<Longrightarrow> currency r = currency m \<and> sint (amount r) = - sint (amount m)"
  by (auto simp: Neg_eq i64_simps split: if_splits)

lemma allocate_loop_exact:
  assumes "allocate_loop E evt adv g recovered ws rem fee s = Inr ((rem', fee'), s')"
    and "IsSet rem" "0 \<le> sint (amount rem)"
  shows "\<exists>new. s' = s\<lparr>next_id := next_id s', allocs := allocs s @ new\<rparr>
    \<and> sum_amounts new = sint (amount rem) - sint (amount rem') \<and> IsSet rem' \<and> 0 \<le> sint (amount rem')
    \<and> rows_for evt (AdvanceID adv) new
    \<and> list_all (\<lambda>r. receivable (al_comp r) \<and> 0 < sint (al_amount r) \<and> al_cur r = currency rem) new"
  using assms
proof (induction ws arbitrary: rem fee s)
  case Nil
  then show ?case by (intro exI [of _ "[]"]) (auto simp: sum_amounts_def rows_for_def)
next
  case (Cons w ws)
  show ?case
  proof (cases "IsPositive rem")
    case False
    with Cons.prems show ?thesis by (intro exI [of _ "[]"]) (auto simp: sum_amounts_def rows_for_def)
  next
    case True
    from Cons.prems(1) True obtain c total rec left where
      c: "receivable c" and rest: "(if \<not> IsPositive left then allocate_loop E evt adv g recovered ws rem fee s
        else andThen (take_up_to rem left) (\<lambda>tk. andThen (insert_alloc E evt (AdvanceID adv) c tk s) (\<lambda>s'.
          andThen (Sub rem tk) (\<lambda>rem'. allocate_loop E evt adv g recovered ws rem'
             (if c = ComponentFee then tk else fee) s')))) = Inr ((rem', fee'), s')"
      by (auto simp: andThen_Inr_iff receivable_def split: option.splits AllocationComponent.splits)
    show ?thesis
    proof (cases "IsPositive left")
      case False
      with rest Cons.IH [OF _ Cons.prems(2,3)] show ?thesis by simp
    next
      case pos: True
      from rest pos obtain tk s1 rem1 where
        tk: "take_up_to rem left = Inr tk" and ins: "insert_alloc E evt (AdvanceID adv) c tk s = Inr s1"
        and sub: "Sub rem tk = Inr rem1"
        and rec: "allocate_loop E evt adv g recovered ws rem1 (if c = ComponentFee then tk else fee) s1 = Inr ((rem', fee'), s')"
        by (auto simp: andThen_Inr_iff)
      note t = take_up_to_Inr [OF tk True pos]
      have tpos: "0 < sint (amount tk)" using t unfolding IsPositive_def by blast
      note e = Sub_exact [OF sub]
      have rem1: "IsSet rem1" "0 \<le> sint (amount rem1)" using e t by auto
      from insert_alloc_Inr [OF ins] obtain r where r:
        "s1 = s\<lparr>next_id := Suc (next_id s), allocs := allocs s @ [r]\<rparr>" "al_event r = evt" "al_adv r = AdvanceID adv"
        "al_comp r = c" "al_amount r = amount tk" "al_cur r = currency tk" by blast
      from Cons.IH [OF rec rem1] obtain new where n:
        "s' = s1\<lparr>next_id := next_id s', allocs := allocs s1 @ new\<rparr>"
        "sum_amounts new = sint (amount rem1) - sint (amount rem')" "IsSet rem'" "0 \<le> sint (amount rem')"
        "rows_for evt (AdvanceID adv) new"
        "list_all (\<lambda>r. receivable (al_comp r) \<and> 0 < sint (al_amount r) \<and> al_cur r = currency rem1) new" by blast
      show ?thesis
      proof (intro exI [of _ "r # new"] conjI)
        show "s' = s\<lparr>next_id := next_id s', allocs := allocs s @ r # new\<rparr>"
          by (subst n(1), subst r(1)) (simp add: r(1))
        show "sum_amounts (r # new) = sint (amount rem) - sint (amount rem')"
          using n(2) e r by (simp add: sum_amounts_def)
      qed (use n r c t e tpos in \<open>simp_all add: rows_for_def\<close>)
    qed
  qed
qed

lemma allocate_rows:
  assumes "allocate E C evt adv applied s = Inr (feeTake, s')" and pos: "IsSet applied" "0 \<le> sint (amount applied)"
  shows "\<exists>new. s' = s\<lparr>next_id := next_id s', allocs := allocs s @ new\<rparr> \<and> sum_amounts new = sint (amount applied)
    \<and> rows_for evt (AdvanceID adv) new
    \<and> list_all (\<lambda>r. receivable (al_comp r) \<and> 0 < sint (al_amount r) \<and> al_cur r = currency applied) new"
proof -
  from assms(1) obtain g recovered ws rem where
    loop: "allocate_loop E evt adv g recovered ws applied (zero_of (currency (Outstanding adv))) s = Inr ((rem, feeTake), s')"
    and fin: "\<not> IsPositive rem"
    by (auto simp: allocate_def Let_def andThen_Inr_iff split: if_splits)
  from allocate_loop_exact [OF loop pos] fin show ?thesis
    by (fastforce simp: IsPositive_def)
qed

lemma unallocate_loop_exact:
  assumes "unallocate_loop E evt aid perComp ws rem fee s = Inr ((rem', fee'), s')"
    and "IsSet rem" "0 \<le> sint (amount rem)"
  shows "\<exists>new. s' = s\<lparr>next_id := next_id s', allocs := allocs s @ new\<rparr>
    \<and> sum_amounts new = sint (amount rem') - sint (amount rem) \<and> IsSet rem' \<and> 0 \<le> sint (amount rem')
    \<and> rows_for evt aid new \<and> list_all (\<lambda>r. sint (al_amount r) < 0 \<and> al_cur r = currency rem) new
    \<and> list_all (\<lambda>r. Some (al_comp r) \<in> component_of ` set ws) new"
  using assms
proof (induction ws arbitrary: rem fee s)
  case Nil
  then show ?case by (intro exI [of _ "[]"]) (auto simp: sum_amounts_def rows_for_def)
next
  case (Cons w ws)
  note IH = Cons.IH [OF _ Cons.prems(2,3)]
  show ?case
  proof (cases "IsPositive rem")
    case False
    with Cons.prems show ?thesis by (intro exI [of _ "[]"]) (auto simp: sum_amounts_def rows_for_def)
  next
    case True
    show ?thesis
    proof (cases "Option.bind (component_of w) (\<lambda>c. map_option (Pair c) (perComp c))")
      case None
      with Cons.prems(1) True have "unallocate_loop E evt aid perComp ws rem fee s = Inr ((rem', fee'), s')" by simp
      from IH [OF this] show ?thesis by (fastforce simp: list_all_iff)
    next
      case (Some p)
      then obtain c have_c where c: "p = (c, have_c)" "component_of w = Some c"
        by (cases "component_of w") auto
      show ?thesis
      proof (cases "IsPositive have_c")
        case False
        with Cons.prems(1) True Some c have "unallocate_loop E evt aid perComp ws rem fee s = Inr ((rem', fee'), s')"
          by simp
        from IH [OF this] show ?thesis by (fastforce simp: list_all_iff)
      next
        case pos: True
        from Cons.prems(1) True Some c pos obtain tk neg s1 rem1 where
          tk: "take_up_to rem have_c = Inr tk" and ng: "Neg tk = Inr neg"
          and ins: "insert_alloc E evt aid c neg s = Inr s1" and sub: "Sub rem tk = Inr rem1"
          and rec: "unallocate_loop E evt aid perComp ws rem1 (if c = ComponentFee then tk else fee) s1
             = Inr ((rem', fee'), s')"
          by (auto simp: andThen_Inr_iff)
        note t = take_up_to_Inr [OF tk True pos]
        have tpos: "0 < sint (amount tk)" using t unfolding IsPositive_def by blast
        note e = Sub_exact [OF sub] and ne = Neg_exact [OF ng]
        have rem1: "IsSet rem1" "0 \<le> sint (amount rem1)" using e t by auto
        from insert_alloc_Inr [OF ins] obtain r where r:
          "s1 = s\<lparr>next_id := Suc (next_id s), allocs := allocs s @ [r]\<rparr>" "al_event r = evt" "al_adv r = aid"
          "al_comp r = c" "al_amount r = amount neg" "al_cur r = currency neg" by blast
        from Cons.IH [OF rec rem1] obtain new where n:
          "s' = s1\<lparr>next_id := next_id s', allocs := allocs s1 @ new\<rparr>"
          "sum_amounts new = sint (amount rem') - sint (amount rem1)" "IsSet rem'" "0 \<le> sint (amount rem')"
          "rows_for evt aid new" "list_all (\<lambda>r. sint (al_amount r) < 0 \<and> al_cur r = currency rem1) new"
          "list_all (\<lambda>r. Some (al_comp r) \<in> component_of ` set ws) new" by blast
        show ?thesis
        proof (intro exI [of _ "r # new"] conjI)
          show "s' = s\<lparr>next_id := next_id s', allocs := allocs s @ r # new\<rparr>"
            by (subst n(1), subst r(1)) (simp add: r(1))
          show "sum_amounts (r # new) = sint (amount rem') - sint (amount rem)"
            using n(2) e ne r by (simp add: sum_amounts_def)
          show "list_all (\<lambda>r. Some (al_comp r) \<in> component_of ` set (w # ws)) (r # new)"
            using n(7) r(4) c(2) by (auto simp: list_all_iff)
        qed (use n r t e ne tpos in \<open>simp_all add: rows_for_def\<close>)
      qed
    qed
  qed
qed

section \<open>Rows appended to the allocations\<close>

lemma repaid_append:
  "repaid (s\<lparr>next_id := n, allocs := allocs s @ new\<rparr>) aid = repaid s aid
     + (\<Sum>r\<leftarrow>new. if al_adv r = aid \<and> receivable (al_comp r) then sint (al_amount r) else 0)"
  by (simp add: repaid_def)

lemma rows_for_sum:
  "rows_for evt a new \<Longrightarrow> list_all (\<lambda>r. receivable (al_comp r)) new \<Longrightarrow>
   (\<Sum>r\<leftarrow>new. if al_adv r = aid \<and> receivable (al_comp r) then sint (al_amount r) else 0)
     = (if aid = a then sum_amounts new else 0)"
  by (induction new) (auto simp: rows_for_def sum_amounts_def)

text \<open>
  One advance changes its outstanding by \<open>d\<close>, its pool's utilisation moves by \<open>d\<close> and its
  receivable allocations by \<open>- d\<close>: the book is kept.
\<close>

lemma owed_update:
  assumes "distinct (map a_id (advances s))" "r \<in> set (advances s)" "p r" "\<And>q. p q \<Longrightarrow> a_id q = a_id r"
    and "\<And>q. a_id (f q) = a_id q" "advances s' = upd_where p f (advances s)"
  shows "owed s' aid = owed s aid + (if aid = a_id r then sint (a_out (f r)) - sint (a_out r) else 0)"
  unfolding owed_def assms(6)
  by (subst sum_upd_key [where k = a_id and p = p, OF assms(1,2,3,4)]) (simp_all add: assms(5))

lemma ApplyRecovery_reduce:
  assumes app: "ApplyRecovery E (a_id r) (a_version r) (a_state r) to newOut s = Inr s1"
    and red: "ReduceUtilisation E (case a_pool r of None \<Rightarrow> '''' | Some x \<Rightarrow> x) m s1 = Inr s2"
    and out: "sint (amount newOut) = sint (a_out r) - sint (amount m)"
    and r: "r \<in> set (advances s)" "a_telco r = tenant E" "a_state r \<in> {AdvActive, AdvPartiallyRecovered}"
    and to: "to \<in> {AdvClosed, AdvPartiallyRecovered, AdvWrittenOff}" and book: "funded s"
  shows "funded s2 \<and> allocs s2 = allocs s \<and> (schema_ok s \<longrightarrow> schema_ok s2)
    \<and> (\<forall>aid. owed s2 aid = owed s aid - (if aid = a_id r then sint (amount m) else 0))"
proof -
  let ?f = "\<lambda>q. q\<lparr>a_out := amount newOut, a_state := to, a_version := a_version q + 1, a_updated := now E,
               a_closed := (if to = AdvClosed then Some (now E) else a_closed q)\<rparr>"
  let ?p = "adv_at E (a_id r) (a_version r) (a_state r)"
  have upd: "adv_update ?p ?f s = Inr s1" using app by (simp add: ApplyRecovery_def split: if_splits)
  have pr: "?p r" using r by (simp add: adv_at_def)
  have key: "?p q \<Longrightarrow> a_id q = a_id r" for q by (simp add: adv_at_def)
  note dst = funded_distinct [OF book]
  have idf: "a_id (?f q) = a_id q" for q by simp
  note eff = adv_update_effects [OF upd r(1) pr key conjunct2 [OF dst] idf]
  have s1: "advances s1 = upd_where ?p ?f (advances s)" "pools s1 = pools s" "allocs s1 = allocs s" "pending s1 = pending s"
    and chk: "list_all advance_checks (upd_where ?p ?f (advances s))"
    using upd by (auto simp: res_simps)
  have nn: "list_all (\<lambda>q. 0 \<le> sint (a_out q)) (advances s1)"
    using chk unfolding s1(1) by (simp add: list_all_iff advance_checks_def)
  have "?f r \<in> set (upd_where ?p ?f (advances s))" using r(1) pr by (auto simp: set_upd_where)
  with chk have "advance_checks (?f r)" by (simp add: list_all_iff)
  then obtain pid where pid: "a_pool r = Some pid" using to by (auto simp: advance_checks_def)
  have red': "ReduceUtilisation E pid m s1 = Inr s2" using red pid by simp
  have d1: "distinct (map p_id (pools s1))" using dst s1 by simp
  have lent_f: "lent_state to" "lent_state (a_state r)" "\<not> held_state to" "\<not> held_state (a_state r)"
    using r(3) to by (auto simp: lent_state_def held_state_def)
  have "utilised_of s2 j = lent s2 j \<and> reserved_of s2 j = held s2 j" for j
  proof -
    have s2adv: "lent s2 j = lent s1 j" "held s2 j = held s1 j"
      using reduce.tables [OF red'] by (simp_all add: lent_def held_def)
    have s1pool: "utilised_of s1 j = utilised_of s j" "reserved_of s1 j = reserved_of s j"
      using s1 by (simp_all add: utilised_of_def reserved_of_def)
    show ?thesis
      using eff [where pid = j] book lent_f out pid
        reduce.utilised [OF red' d1, of j] reduce.reserved [OF red' d1, of j] s2adv s1pool
      by (auto simp: funded_def)
  qed
  moreover have "distinct (map a_id (advances s2))" "distinct (map p_id (pools s2))"
    using eff [where pid = pid] reduce.tables [OF red'] reduce.keeps [OF red' d1] by (simp_all add: pools_ok_def)
  ultimately have f2: "funded s2" by (simp add: funded_def)
  have ow: "owed s2 aid = owed s aid - (if aid = a_id r then sint (amount m) else 0)" for aid
    using owed_update [OF conjunct2 [OF dst] r(1) pr key idf s1(1)] out reduce.tables [OF red']
    by (simp add: owed_def)
  from f2 ow s1 reduce.tables [OF red'] show ?thesis using nn by (auto simp: schema_ok_def)
qed

lemma apply_book_keeps:
  assumes ok: "apply_book E telco sub evt (advance_of r) applied s = Inr (closed, s')"
    and r: "r \<in> set (advances s)" "a_telco r = tenant E" "a_state r \<in> {AdvActive, AdvPartiallyRecovered}"
    and book: "funded s"
  shows "funded s' \<and> allocs s' = allocs s \<and> (schema_ok s \<longrightarrow> schema_ok s')
    \<and> (\<forall>aid. owed s' aid = owed s aid - (if aid = a_id r then sint (amount applied) else 0))"
proof -
  from ok obtain newOut s1 s2 where sub: "Sub (Outstanding (advance_of r)) applied = Inr newOut"
    and app: "ApplyRecovery E (a_id r) (a_version r) (a_state r) (if IsZero newOut then AdvClosed else AdvPartiallyRecovered) newOut s = Inr s1"
    and red: "ReduceUtilisation E (case a_pool r of None \<Rightarrow> '''' | Some x \<Rightarrow> x) applied s1 = Inr s2"
    and hold: "(if IsZero newOut \<and> take 3 (SourceEventID evt) = ''wh:''
              then RecoveryHolds_Insert E telco sub (a_id r) (RecoveryEventID evt) s2 else Inr s2) = Inr s'"
    by (simp only: apply_book_def andThen_Inr_iff Let_def advance_of_simps sum.inject prod.inject) blast
  have "sint (amount newOut) = sint (a_out r) - sint (amount applied)" using Sub_exact [OF sub] by simp
  from ApplyRecovery_reduce [OF app red this r _ book]
  have "funded s2 \<and> allocs s2 = allocs s \<and> (schema_ok s \<longrightarrow> schema_ok s2)
    \<and> (\<forall>aid. owed s2 aid = owed s aid - (if aid = a_id r then sint (amount applied) else 0))" by simp
  moreover have "same_book s2 s'" using hold by (auto split: if_splits dest: same_book_Holds)
  ultimately show ?thesis using funded_frame [of s' s2] by (auto simp: same_book_def owed_def)
qed

lemma reverse_book_keeps:
  assumes ok: "reverse_book E C original amt corr rsid (advance_of r) fee s = Inr (reopened, s')"
    and r: "r \<in> set (advances s)" "a_telco r = tenant E" "a_state r \<in> {AdvActive, AdvPartiallyRecovered, AdvClosed}"
    and book: "funded s"
  shows "funded s' \<and> allocs s' = allocs s \<and> (schema_ok s \<longrightarrow> schema_ok s')
    \<and> (\<forall>aid. owed s' aid = owed s aid + (if aid = a_id r then sint (amount amt) else 0))"
proof -
  let ?to = "if a_state r = AdvClosed then AdvPartiallyRecovered else a_state r"
  from ok obtain newOut s1 s2 pr where add: "Add (Outstanding (advance_of r)) amt = Inr newOut"
    and app: "ApplyReversal E (a_id r) (a_version r) (a_state r) ?to newOut s = Inr s1"
    and red: "ReAddUtilisation E (case a_pool r of None \<Rightarrow> '''' | Some x \<Rightarrow> x) amt s1 = Inr s2"
    and post: "\<exists>j b res. PostEvent E (cfg_ledger C) j b s2 = Inr (res, s')"
    by (simp only: reverse_book_def andThen_Inr_iff Let_def advance_of_simps sum.inject prod.inject split_paired_Ex
        prod.case) blast
  let ?f = "\<lambda>q. q\<lparr>a_state := ?to, a_out := amount newOut, a_version := a_version q + 1, a_closed := None,
               a_updated := now E\<rparr>"
  let ?p = "adv_at E (a_id r) (a_version r) (a_state r)"
  have upd: "adv_update ?p ?f s = Inr s1" using app by (simp add: ApplyReversal_def split: if_splits)
  have pr: "?p r" using r by (simp add: adv_at_def)
  have key: "?p q \<Longrightarrow> a_id q = a_id r" for q by (simp add: adv_at_def)
  note dst = funded_distinct [OF book]
  have idf: "a_id (?f q) = a_id q" for q by simp
  note eff = adv_update_effects [OF upd r(1) pr key conjunct2 [OF dst] idf]
  have s1: "advances s1 = upd_where ?p ?f (advances s)" "pools s1 = pools s" "allocs s1 = allocs s" "pending s1 = pending s"
    and chk: "list_all advance_checks (upd_where ?p ?f (advances s))"
    using upd by (auto simp: res_simps)
  have nn: "list_all (\<lambda>q. 0 \<le> sint (a_out q)) (advances s1)"
    using chk unfolding s1(1) by (simp add: list_all_iff advance_checks_def)
  have out: "sint (amount newOut) = sint (a_out r) + sint (amount amt)"
    using Add_exact_eq [OF add] by simp
  have "?f r \<in> set (upd_where ?p ?f (advances s))" using r(1) pr by (auto simp: set_upd_where)
  with chk have "advance_checks (?f r)" by (simp add: list_all_iff)
  then obtain pid where pid: "a_pool r = Some pid" using r(3) by (auto simp: advance_checks_def split: if_splits)
  have red': "ReAddUtilisation E pid amt s1 = Inr s2" using red pid by simp
  have d1: "distinct (map p_id (pools s1))" using dst s1 by simp
  have lent_f: "lent_state ?to" "lent_state (a_state r)" "\<not> held_state ?to" "\<not> held_state (a_state r)"
    using r(3) by (auto simp: lent_state_def held_state_def)
  have "utilised_of s2 j = lent s2 j \<and> reserved_of s2 j = held s2 j" for j
  proof -
    have s2adv: "lent s2 j = lent s1 j" "held s2 j = held s1 j"
      using readd.tables [OF red'] by (simp_all add: lent_def held_def)
    have s1pool: "utilised_of s1 j = utilised_of s j" "reserved_of s1 j = reserved_of s j"
      using s1 by (simp_all add: utilised_of_def reserved_of_def)
    show ?thesis
      using eff [where pid = j] book lent_f out pid
        readd.utilised [OF red' d1, of j] readd.reserved [OF red' d1, of j] s2adv s1pool
      by (auto simp: funded_def)
  qed
  moreover have "distinct (map a_id (advances s2))" "distinct (map p_id (pools s2))"
    using eff [where pid = pid] readd.tables [OF red'] readd.keeps [OF red' d1] by (simp_all add: pools_ok_def)
  ultimately have f2: "funded s2" by (simp add: funded_def)
  have same: "same_book s2 s'" using post by (auto dest: same_book_PostEvent)
  have ow: "owed s2 aid = owed s aid + (if aid = a_id r then sint (amount amt) else 0)" for aid
    using owed_update [OF conjunct2 [OF dst] r(1) pr key idf s1(1)] out readd.tables [OF red']
    by (simp add: owed_def)
  from same f2 ow s1 readd.tables [OF red'] show ?thesis
    using funded_frame [of s' s2] nn by (auto simp: same_book_def owed_def schema_ok_def)
qed

section \<open>Every path keeps the book\<close>

text \<open>What the \<^verbatim>\<open>recovery.allocation\<close> validator requires of a waterfall, as far as it matters here.\<close>

definition waterfall_ok :: "recovery_cfg \<Rightarrow> bool" where
  "waterfall_ok C \<longleftrightarrow> (\<forall>prog ws. cfg_waterfall C prog = Inr ws \<longrightarrow> set ws \<subseteq> {''FEE'', ''PRINCIPAL''})"

lemma waterfall_receivable:
  "set ws \<subseteq> {''FEE'', ''PRINCIPAL''} \<Longrightarrow> Some c \<in> component_of ` set (rev ws) \<Longrightarrow> receivable c"
  by (auto simp: component_of_def receivable_def split: if_splits)

lemma funded_allocs: "funded (s\<lparr>next_id := n, allocs := as\<rparr>) = funded s"
  and owed_allocs: "owed (s\<lparr>next_id := n, allocs := as\<rparr>) aid = owed s aid"
  by (rule funded_frame, simp_all add: owed_def)

lemma reverse_claim_same: "reverse_claim E telco original amt rsid s = Inr (r, s') \<Longrightarrow> same_book s s'"
  by (auto simp: reverse_claim_def Let_def andThen_Inr_iff split: if_splits dest: same_book_PutIfAbsent)

lemma reverse_fresh_steps:
  assumes "reverse_fresh E C telco original amt corr rsid s = Inr (out, s')"
  obtains net aid adv c1 perComp ws rem feeRev s2 s3 s4 reopened where
    "NetAppliedByEvent E (RecoveryEventID original) s = Inr (net, aid)" "Cmp amt net = Inr c1" "\<not> c1 > 0"
    "Advances_Get E aid s = Inr adv" "State adv \<in> {AdvActive, AdvPartiallyRecovered, AdvClosed}"
    "ListNetByEventComponent E (RecoveryEventID original) s = Inr perComp"
    "cfg_waterfall C (AdvProgrammeID adv) = Inr ws"
    "unallocate_loop E (RecoveryEventID original) (AdvanceID adv) perComp (rev ws) amt
       (zero_of (currency amt)) s = Inr ((rem, feeRev), s2)" "\<not> IsPositive rem"
    "reverse_book E C original amt corr rsid adv feeRev s2 = Inr (reopened, s3)"
    "(if Cmp amt net = Inr 0
      then RecoveryEvents_SetState E (RecoveryEventID original) RecoveryAllocated RecoveryReversed s3
      else Inr s3) = Inr s4"
    "out = no_reverse\<lparr>rr_applied := amt, rr_reopened := reopened\<rparr>"
    "SetResponse E telco ''recovery.reverse'' rsid 200
       (encodeReverseApply (no_reverse\<lparr>rr_applied := amt, rr_reopened := reopened\<rparr>)) s4 = Inr s'"
  using assms [unfolded reverse_fresh_def run_simps]
  by (elim exE conjE) (rule that, (assumption | simp)+)

text \<open>The net amount an event of the telco has applied to receivables.\<close>

definition net_applied :: "env \<Rightarrow> string \<Rightarrow> db \<Rightarrow> int" where
  "net_applied E rid s = sum_amounts (receivable_rows E rid s)"

lemma adv_update_visible:
  assumes "adv_update p f s = Inr s'" "\<And>q. a_id (f q) = a_id q" "\<And>q. a_telco (f q) = a_telco q"
  shows "adv_visible E s' = adv_visible E s"
proof -
  have "(\<exists>r \<in> set (upd_where p f xs). a_telco r = tenant E \<and> a_id r = x)
      = (\<exists>r \<in> set xs. a_telco r = tenant E \<and> a_id r = x)" for xs x
    using assms(2,3) by (induction xs) auto
  with assms(1) show ?thesis by (auto simp: adv_update_Inr adv_visible_def fun_eq_iff)
qed

lemma reverse_book_visible:
  assumes "reverse_book E C original amt corr rsid adv fee s = Inr (ro, s')"
  shows "adv_visible E s' = adv_visible E s"
proof -
  from assms obtain m s1 s2 j b res where
    ap: "ApplyReversal E (AdvanceID adv) (Version adv) (State adv) (if State adv = AdvClosed then AdvPartiallyRecovered else State adv) m s = Inr s1"
    and red: "ReAddUtilisation E (FundingPoolID adv) amt s1 = Inr s2"
    and p: "PostEvent E (cfg_ledger C) j b s2 = Inr (res, s')"
    by (simp only: reverse_book_def andThen_Inr_iff Let_def sum.inject prod.inject split_paired_Ex prod.case) blast
  have "adv_visible E s1 = adv_visible E s"
    using ap by (auto simp: ApplyReversal_def split: if_splits elim!: adv_update_visible)
  moreover have "advances s2 = advances s1" using readd.tables [OF red] by simp
  moreover have "advances s' = advances s2" using same_book_PostEvent [OF p] by (simp add: same_book_def)
  ultimately show ?thesis by (simp add: adv_visible_def fun_eq_iff)
qed

lemma net_applied_append:
  assumes "adv_visible E s' = adv_visible E s" "allocs s' = allocs s @ new" "rows_for rid aid new"
    and "adv_visible E s aid" "list_all (\<lambda>r. receivable (al_comp r)) new"
  shows "net_applied E rid s' = net_applied E rid s + sum_amounts new"
proof -
  have "filter (\<lambda>r. adv_visible E s (al_adv r) \<and> al_event r = rid \<and> al_comp r \<in> {ComponentFee, ComponentPrincipal}) new = new"
    using assms(3-5) by (auto simp: filter_id_conv rows_for_def list_all_iff receivable_def)
  then show ?thesis
    using assms(1,2) by (simp add: net_applied_def receivable_rows_def sum_amounts_def)
qed

lemma NetApplied_covers:
  assumes "NetAppliedByEvent E rid s = Inr (net, aid)" "Cmp amt net = Inr c1" "\<not> c1 > 0"
  shows "sint (amount amt) \<le> net_applied E rid s"
  using assms by (auto simp: NetAppliedByEvent_def net_applied_def Let_def res_simps Cmp_def i64_simps split: if_splits)

lemma reverse_fresh_exact:
  assumes ok: "reverse_fresh E C telco original amt corr rsid s = Inr (out, s')"
    and cfg: "waterfall_ok C" and amt: "IsPositive amt" and bok: "book_ok s"
  shows "book_ok s' \<and> (\<forall>j. gross s' j = gross s j)
    \<and> (\<exists>aid. adv_visible E s aid \<and> (\<forall>j. owed s' j = owed s j + (if j = aid then sint (amount amt) else 0)))
    \<and> net_applied E (RecoveryEventID original) s' = net_applied E (RecoveryEventID original) s - sint (amount amt)
    \<and> 0 \<le> net_applied E (RecoveryEventID original) s'
    \<and> rr_applied out = amt \<and> \<not> rr_parked out \<and> \<not> rr_replayed out"
proof -
  have book: "funded s" using bok by (simp add: book_ok_def)
  from ok obtain net aid adv c1 perComp ws rem feeRev s2 s3 s4 reopened where
    lim: "NetAppliedByEvent E (RecoveryEventID original) s = Inr (net, aid)" "Cmp amt net = Inr c1" "\<not> c1 > 0"
    and get: "Advances_Get E aid s = Inr adv" and st: "State adv \<in> {AdvActive, AdvPartiallyRecovered, AdvClosed}"
    and "ListNetByEventComponent E (RecoveryEventID original) s = Inr perComp"
    and wf: "cfg_waterfall C (AdvProgrammeID adv) = Inr ws"
    and un: "unallocate_loop E (RecoveryEventID original) (AdvanceID adv) perComp (rev ws) amt
                (zero_of (currency amt)) s = Inr ((rem, feeRev), s2)"
    and rem: "\<not> IsPositive rem"
    and bk: "reverse_book E C original amt corr rsid adv feeRev s2 = Inr (reopened, s3)"
    and s4: "(if Cmp amt net = Inr 0
      then RecoveryEvents_SetState E (RecoveryEventID original) RecoveryAllocated RecoveryReversed s3
      else Inr s3) = Inr s4"
    and out: "out = no_reverse\<lparr>rr_applied := amt, rr_reopened := reopened\<rparr>"
    and resp: "SetResponse E telco ''recovery.reverse'' rsid 200
       (encodeReverseApply (no_reverse\<lparr>rr_applied := amt, rr_reopened := reopened\<rparr>)) s4 = Inr s'"
    by (rule reverse_fresh_steps)
  from Advances_Get_InrD [OF get] obtain r where r: "r \<in> set (advances s)" "a_telco r = tenant E"
      "adv = advance_of r" by blast
  have pos: "IsSet amt" "0 \<le> sint (amount amt)" using amt by (auto simp: IsPositive_def)
  from unallocate_loop_exact [OF un pos] obtain new where
    n: "s2 = s\<lparr>next_id := next_id s2, allocs := allocs s @ new\<rparr>" "sum_amounts new = - sint (amount amt)"
      "rows_for (RecoveryEventID original) (a_id r) new" "list_all (\<lambda>q. Some (al_comp q) \<in> component_of ` set (rev ws)) new"
    using rem r(3) by (auto simp: IsPositive_def)
  have rec: "list_all (\<lambda>q. receivable (al_comp q)) new"
    using n(4) waterfall_receivable cfg wf unfolding list_all_iff waterfall_ok_def by blast
  have f2: "funded s2" using book by (subst n(1)) (simp add: funded_allocs)
  have r2: "r \<in> set (advances s2)" using r(1) by (subst n(1)) simp
  have b3: "funded s3" "allocs s3 = allocs s2" "schema_ok s2 \<Longrightarrow> schema_ok s3"
      "owed s3 j = owed s2 j + (if j = a_id r then sint (amount amt) else 0)" for j
    using reverse_book_keeps [OF bk [unfolded r(3)] r2 r(2) _ f2] st r(3) by auto
  have rp: "repaid s2 j = repaid s j - (if j = a_id r then sint (amount amt) else 0)" for j
    by (subst n(1)) (simp add: repaid_append rows_for_sum [OF n(3) rec] n(2))
  have ow: "owed s2 j = owed s j" for j by (subst n(1)) (simp add: owed_allocs)
  have "same_book s3 s4" using s4 same_book_SetState by (auto split: if_splits)
  then have same: "same_book s3 s'" using same_book_SetResponse [OF resp] by (rule same_book_trans)
  have "gross s' j = gross s j" for j
    using same b3 rp ow by (simp add: gross_def same_book_def owed_def repaid_def)
  moreover have "funded s'" using same b3(1) funded_frame [of s' s3] by (simp add: same_book_def)
  moreover have "schema_ok s2" using bok by (subst n(1)) (simp add: book_ok_def schema_ok_def)
  then have "schema_ok s'" using b3(3) same by (simp add: same_book_def)
  moreover have "owed s' j = owed s j + (if j = a_id r then sint (amount amt) else 0)" for j
    using same b3(4) ow by (simp add: owed_def same_book_def)
  moreover have vis: "adv_visible E s (a_id r)" using r by (auto simp: adv_visible_def)
  have al: "adv_visible E s2 = adv_visible E s" "allocs s2 = allocs s @ new"
    by (subst n(1), simp add: adv_visible_def fun_eq_iff, subst n(1), simp)
  have "adv_visible E s' = adv_visible E s" "allocs s' = allocs s @ new"
    using same reverse_book_visible [OF bk] b3(2) al by (auto simp: same_book_def adv_visible_def fun_eq_iff)
  from net_applied_append [OF this n(3) vis rec] n(2) NetApplied_covers [OF lim]
  have "net_applied E (RecoveryEventID original) s' = net_applied E (RecoveryEventID original) s - sint (amount amt)
    \<and> 0 \<le> net_applied E (RecoveryEventID original) s'" by linarith
  ultimately show ?thesis using vis out by (auto simp: book_ok_def no_reverse_def)
qed

lemma reverse_fresh_keeps:
  assumes "reverse_fresh E C telco original amt corr rsid s = Inr (out, s')" "waterfall_ok C" "IsPositive amt"
  shows "keeps_book s s'"
  using reverse_fresh_exact [OF assms] by (simp add: keeps_book_def)

lemma applyReversal_keeps:
  assumes ok: "applyReversal E C c original amt corr rsid s = Inr (out, s')"
    and cfg: "waterfall_ok C" and amt: "IsPositive amt"
  shows "keeps_book s s'"
proof -
  from ok obtain telco replay s1 where cl: "reverse_claim E telco original amt rsid s = Inr (replay, s1)"
    and rest: "(case replay of Some rp \<Rightarrow> Inr (rp, s1) | None \<Rightarrow> reverse_fresh E C telco original amt corr rsid s1)
       = Inr (out, s')"
    unfolding applyReversal_def by (simp only: run_simps) blast
  from reverse_claim_same [OF cl] have k1: "keeps_book s s1" by (rule same_book_keeps)
  show ?thesis
  proof (cases replay)
    case None
    with rest reverse_fresh_keeps [OF _ cfg amt] have "keeps_book s1 s'" by simp
    with k1 show ?thesis by (rule keeps_book_trans)
  qed (use rest k1 in simp)
qed

lemma keeps_same: "keeps_book s t \<Longrightarrow> same_book t u \<Longrightarrow> keeps_book s u"
  by (blast intro: keeps_book_trans same_book_keeps)

lemma guarded_keeps:
  assumes "applyReversalGuarded E C c original amt corr rsid s = Inr (g, s')"
    and "waterfall_ok C" "IsPositive amt"
  shows "keeps_book s s'"
  using assms applyReversal_keeps
  by (auto simp: applyReversalGuarded_def split: sum.splits option.splits)

lemma parked_positive:
  assumes "queryRow p (pending s) = Inr r" "pendingScan r = Inr parked" "schema_ok s"
  shows "IsPositive (PrvAmount parked)"
  using assms queryRow_InrD [OF assms(1)] Valid_nonempty
  by (auto simp: pendingScan_Inr schema_ok_def list_all_iff)

lemma guarded_parked_keeps:
  assumes "applyReversalGuarded E C c original (PrvAmount parked) corr rsid t = Inr (g, s')"
    and "andThen (queryRow p (pending s)) pendingScan = Inr parked" "same_book s t" "waterfall_ok C"
  shows "keeps_book s s'"
  unfolding keeps_book_def
proof
  assume "book_ok s"
  with assms(2) have "IsPositive (PrvAmount parked)"
    by (auto simp: andThen_Inr_iff book_ok_def intro: parked_positive)
  from keeps_book_trans [OF same_book_keeps [OF assms(3)] guarded_keeps [OF assms(1,4) this]] \<open>book_ok s\<close>
  show "book_ok s' \<and> (\<forall>aid. gross s' aid = gross s aid)" by (simp add: keeps_book_def)
qed

lemma applyParkedIfAny_keeps:
  assumes "applyParkedIfAny E C c cmd s = Inr s'" "waterfall_ok C"
  shows "keeps_book s s'"
proof (cases "FindParkedForOriginal E (ic_source cmd) s")
  case (Inl e)
  with assms(1) show ?thesis by (auto simp: applyParkedIfAny_def split: if_splits)
next
  case (Inr parked)
  with assms(1) obtain original g s1 where
    g: "applyReversalGuarded E C c original (PrvAmount parked) (ic_corr cmd) (ReversalSourceEventID parked) s = Inr (g, s1)"
    and fin: "(case g of Collision reason \<Rightarrow> SetParkReason E (PendingReversalID parked) reason s1
          | Applied _ \<Rightarrow> MarkApplied E (PendingReversalID parked) s1) = Inr s'"
    by (auto simp: applyParkedIfAny_def andThen_Inr_iff)
  have "keeps_book s s1"
    using guarded_parked_keeps [OF g Inr [unfolded FindParkedForOriginal_def] same_book_refl assms(2)] .
  moreover have "same_book s1 s'" using fin by (cases g) (auto dest: book_frame)
  ultimately show ?thesis by (rule keeps_same)
qed

lemma apply_journals_same:
  "apply_journals E C telco evt adv cmd applied excess feeTake s = Inr s' \<Longrightarrow> same_book s s'"
  by (auto simp: apply_journals_def andThen_Inr_iff Let_def split: if_splits
      dest!: same_book_PostEvent same_book_Suspense intro: same_book_trans)

lemma split_amount_Inr:
  assumes "split_amount amt out = Inr (applied, excess)" "IsPositive amt"
  shows "IsSet applied \<and> currency applied = currency amt \<and> currency out = currency amt
    \<and> sint (amount applied) = min (sint (amount amt)) (sint (amount out))
    \<and> (if sint (amount out) < sint (amount amt) then excess = \<lparr>amount = amount amt - amount out, currency = currency amt\<rparr>
         \<and> sint (amount excess) = sint (amount amt) - sint (amount out)
       else excess = unset)"
  using assms
  by (auto simp: split_amount_def Cmp_def andThen_Inr_iff sameCurrency_Inr Sub_Inr IsPositive_def i64_simps split: if_splits)

lemma matched_core_keeps:
  assumes al: "allocate E C (RecoveryEventID evt) (advance_of r) applied s = Inr (feeTake, s1)"
    and bk: "apply_book E telco sub evt (advance_of r) applied s1 = Inr (closed, s2)"
    and r: "r \<in> set (advances s)" "a_telco r = tenant E" "a_state r \<in> {AdvActive, AdvPartiallyRecovered}"
    and pos: "IsSet applied" "0 \<le> sint (amount applied)"
  shows "keeps_book s s2"
  unfolding keeps_book_def
proof
  assume bok: "book_ok s"
  from allocate_rows [OF al pos] obtain new where
    n: "s1 = s\<lparr>next_id := next_id s1, allocs := allocs s @ new\<rparr>" "sum_amounts new = sint (amount applied)"
      "rows_for (RecoveryEventID evt) (a_id r) new"
      "list_all (\<lambda>q. receivable (al_comp q) \<and> 0 < sint (al_amount q) \<and> al_cur q = currency applied) new"
    by auto
  have rec: "list_all (\<lambda>q. receivable (al_comp q)) new" using n(4) by (simp add: list_all_iff)
  have f1: "funded s1" using bok by (subst n(1)) (simp add: funded_allocs book_ok_def)
  have r1: "r \<in> set (advances s1)" using r(1) by (subst n(1)) simp
  have sc: "schema_ok s1" using bok by (subst n(1)) (simp add: book_ok_def schema_ok_def)
  note b = apply_book_keeps [OF bk r1 r(2,3) f1]
  have rp: "repaid s1 j = repaid s j + (if j = a_id r then sint (amount applied) else 0)" for j
    by (subst n(1)) (simp add: repaid_append rows_for_sum [OF n(3) rec] n(2))
  have ow: "owed s1 j = owed s j" for j by (subst n(1)) (simp add: owed_allocs)
  show "book_ok s2 \<and> (\<forall>j. gross s2 j = gross s j)"
    using b sc rp ow by (simp add: book_ok_def gross_def repaid_def)
qed

lemma apply_matched_keeps:
  assumes ok: "apply_matched E C c telco sub evt (advance_of r) cmd s = Inr (res, s')"
    and r: "r \<in> set (advances s)" "a_telco r = tenant E" "a_state r \<in> {AdvActive, AdvPartiallyRecovered}"
    and cmd: "IsPositive (ic_amount cmd)" and cfg: "waterfall_ok C"
  shows "keeps_book s s'"
  unfolding keeps_book_def
proof
  assume bok: "book_ok s"
  from ok obtain applied excess feeTake s1 closed s2 s3 s4 oid s5 s6 e where
    sp: "split_amount (ic_amount cmd) (Outstanding (advance_of r)) = Inr (applied, excess)"
    and al: "allocate E C (RecoveryEventID evt) (advance_of r) applied s = Inr (feeTake, s1)"
    and bk: "apply_book E telco sub evt (advance_of r) applied s1 = Inr (closed, s2)"
    and jn: "apply_journals E C telco evt (advance_of r) cmd applied excess feeTake s2 = Inr s3"
    and st: "RecoveryEvents_SetState E (RecoveryEventID evt) RecoveryPending RecoveryAllocated s3 = Inr s4"
    and id: "NewID E ''evt'' s4 = (oid, s5)" and ob: "Outbox_Append E e s5 = Inr s6"
    and pk: "applyParkedIfAny E C c cmd s6 = Inr s'"
    by (auto simp: apply_matched_def andThen_Inr_iff Let_def case_pair_Inr)
  have "0 \<le> sint (a_out r)" using bok r(1) by (auto simp: book_ok_def schema_ok_def list_all_iff)
  then have pos: "IsSet applied" "0 \<le> sint (amount applied)"
    using split_amount_Inr [OF sp cmd] cmd by (auto simp: IsPositive_def)
  note k = matched_core_keeps [OF al bk r pos]
  have "keeps_book s s6"
    using keeps_same [OF keeps_same [OF keeps_same [OF keeps_same [OF k apply_journals_same [OF jn]]
      same_book_SetState [OF st]] same_book_NewID [OF id]] same_book_Outbox [OF ob]] .
  from keeps_book_trans [OF this applyParkedIfAny_keeps [OF pk cfg]] bok
  show "book_ok s' \<and> (\<forall>aid. gross s' aid = gross s aid)" by (simp add: keeps_book_def)
qed

lemma writeoff_alloc_keeps:
  assumes "insert_alloc E evt aid ComponentWriteoffIncome m s = Inr s'"
  shows "keeps_book s s'"
proof -
  from insert_alloc_Inr [OF assms] obtain r where
    r: "s' = s\<lparr>next_id := Suc (next_id s), allocs := allocs s @ [r]\<rparr>" "al_comp r = ComponentWriteoffIncome" by blast
  then show ?thesis
    by (simp add: keeps_book_def book_ok_def funded_allocs schema_ok_def gross_def owed_allocs repaid_append receivable_def)
qed

lemma writeoffIncome_keeps: "writeoffIncome E C evt wo cmd s = Inr (res, s') \<Longrightarrow> keeps_book s s'"
  by (auto simp: writeoffIncome_def andThen_Inr_iff
      dest!: writeoff_alloc_keeps same_book_PostEvent same_book_SetState intro: keeps_same)

lemma quarantine_same: "quarantine E C evt amt reason corr s = Inr (res, s') \<Longrightarrow> same_book s s'"
  by (auto simp: quarantine_def andThen_Inr_iff
      dest!: same_book_Suspense same_book_PostEvent same_book_SetState intro: same_book_trans)

lemma classify_keeps:
  assumes ok: "classifyAndApply E C c telco cmd s = Inr (res, s')"
    and cmd: "IsPositive (ic_amount cmd)" and cfg: "waterfall_ok C"
  shows "keeps_book s s'"
proof -
  from ok obtain sub rid s1 evt created s2 where
    id: "NewID E ''rcv'' s = (rid, s1)" and ins: "RecoveryEvents_Insert E evt s1 = Inr (created, s2)"
    and rest: "(if \<not> created then
       andThen (RecoveryEvents_GetBySource E (ic_source cmd) s2) (\<lambda>ex.
       Inr (no_result\<lparr>ir_event := RecoveryEventID ex, ir_state := state_name (EvtState ex), ir_replayed := True\<rparr>, s2))
     else if sub = '''' then
       andThen (RecoveryEvents_SetState E rid RecoveryPending RecoveryUnmatched s2) (\<lambda>s.
       Inr (no_result\<lparr>ir_event := rid, ir_state := state_name RecoveryUnmatched\<rparr>, s))
     else
       (case FindOpenBySubscriber E sub s2 of
          Inr adv \<Rightarrow> apply_matched E C c telco sub evt adv cmd s2
        | Inl e \<Rightarrow>
            if e \<noteq> ErrNotFound then Inl e
            else (case FindWrittenOffBySubscriber E sub s2 of
                    Inr wo \<Rightarrow> writeoffIncome E C evt wo cmd s2
                  | Inl e' \<Rightarrow> if e' \<noteq> ErrNotFound then Inl e'
                             else quarantine E C evt (ic_amount cmd) ''NO_OPEN_ADVANCE'' (ic_corr cmd) s2))) = Inr (res, s')"
    unfolding classifyAndApply_def Let_def andThen_Inr_iff case_pair_Inr split_paired_Ex prod.case sum.inject prod.inject by blast
  have k: "keeps_book s s2"
    using same_book_keeps [OF same_book_trans [OF same_book_NewID [OF id] same_book_EventInsert [OF ins]]] .
  have "keeps_book s2 s'"
  proof (cases "FindOpenBySubscriber E sub s2")
    case (Inr adv)
    from FindOpen_InrD [OF this] obtain r where r: "r \<in> set (advances s2)" "a_telco r = tenant E"
        "a_state r \<in> {AdvActive, AdvPartiallyRecovered}" "adv = advance_of r" by blast
    from rest Inr show ?thesis
      using apply_matched_keeps [OF _ r(1-3) cmd cfg]
      by (auto simp: andThen_Inr_iff r(4) split: if_splits dest: same_book_SetState intro: same_book_keeps)
  next
    case (Inl e)
    with rest show ?thesis
      by (auto simp: andThen_Inr_iff split: if_splits sum.splits
          dest: same_book_SetState writeoffIncome_keeps quarantine_same intro: same_book_keeps)
  qed
  with k show ?thesis by (rule keeps_book_trans)
qed

abbreviation ingest_claim :: "env \<Rightarrow> string \<Rightarrow> IngestCmd \<Rightarrow> idem_row" where
  "ingest_claim E telco cmd \<equiv> \<lparr>i_telco = telco, i_op = ''recovery.ingest'', i_key = ic_source cmd,
     i_hash = recoverySourceHash E telco cmd, i_status = 0, i_body = JObj [], i_terminal = False\<rparr>"

lemma ingest_tx_cases:
  assumes "ingest_tx C c telco cmd E s = Inr (res, s')"
  obtains (replay) rec r where "PutIfAbsent E (ingest_claim E telco cmd) s = Inr ((rec, False), s')"
      "i_hash rec = recoverySourceHash E telco cmd" "decodeIngestResult (i_body rec) = Inr r"
      "res = r\<lparr>ir_replayed := True\<rparr>"
    | (fresh) rec s1 s2 where "PutIfAbsent E (ingest_claim E telco cmd) s = Inr ((rec, True), s1)"
      "classifyAndApply E C c telco cmd s1 = Inr (res, s2)"
      "SetResponse E telco ''recovery.ingest'' (ic_source cmd) 200 (encodeIngestResult res) s2 = Inr s'"
proof -
  from assms obtain rec stored s1 where
    put: "PutIfAbsent E (ingest_claim E telco cmd) s = Inr ((rec, stored), s1)"
    and rest: "(if \<not> stored then
        (if i_hash rec \<noteq> recoverySourceHash E telco cmd then Inl ErrDivergentRecovery
         else andThen (decodeIngestResult (i_body rec)) (\<lambda>res. Inr (res\<lparr>ir_replayed := True\<rparr>, s1)))
      else
        andThen (classifyAndApply E C c telco cmd s1) (\<lambda>(res, s).
        andThen (SetResponse E telco ''recovery.ingest'' (ic_source cmd) 200 (encodeIngestResult res) s) (\<lambda>s.
        Inr (res, s)))) = Inr (res, s')"
    unfolding ingest_tx_def Let_def andThen_Inr_iff [of "PutIfAbsent _ _ _"] split_paired_Ex prod.case by blast
  show thesis
  proof (cases stored)
    case True
    with put rest show thesis by (auto simp: andThen_Inr_iff intro: fresh)
  next
    case False
    with put rest show thesis by (auto simp: andThen_Inr_iff split: if_splits intro: replay)
  qed
qed

lemma ingest_tx_keeps:
  assumes ok: "ingest_tx C c telco cmd E s = Inr (res, s')"
    and cmd: "IsPositive (ic_amount cmd)" and cfg: "waterfall_ok C"
  shows "keeps_book s s'"
  using ok
proof (cases rule: ingest_tx_cases)
  case (replay rec r)
  then show ?thesis by (auto intro: same_book_keeps same_book_PutIfAbsent)
next
  case (fresh rec s1 s2)
  have "keeps_book s s1" using same_book_keeps [OF same_book_PutIfAbsent [OF fresh(1)]] .
  from keeps_same [OF keeps_book_trans [OF this classify_keeps [OF fresh(2) cmd cfg]] same_book_SetResponse [OF fresh(3)]]
  show ?thesis .
qed

lemma audit_tx_same: "WithTenantTx E c (audit_tx row) s = (r, s') \<Longrightarrow> same_book s s'"
  by (auto simp: WithTenantTx_def audit_tx_def NewID_def Let_def andThen_Inr_iff Audit_Insert_Inr same_book_def schema_ok_def
      split: sum.splits)

lemma snd_audit_same: "same_book s (snd (WithTenantTx E c (audit_tx row) s))"
  using audit_tx_same by (metis prod.collapse)

lemma keeps_snd: "keeps_book s s' \<Longrightarrow> book_ok s \<Longrightarrow> book_ok s' \<and> (\<forall>aid. gross s' aid = gross s aid)"
  by (simp add: keeps_book_def)

lemma Ingest_keeps:
  assumes "waterfall_ok C"
  shows "keeps_book s (snd (Ingest E C c cmd s))"
proof (cases "ic_source cmd = '''' \<or> ic_corr cmd = '''' \<or> \<not> IsPositive (ic_amount cmd) \<or> c = ''''")
  case True
  then show ?thesis by (auto simp: Ingest_def TenantFrom_def)
next
  case False
  obtain r s' where tx: "WithTenantTx E c (ingest_tx C c c cmd) s = (r, s')" by (cases "WithTenantTx E c (ingest_tx C c c cmd) s")
  show ?thesis
  proof (cases r)
    case (Inl e)
    with tx have s: "s' = s" using WithTenantTx_error by fastforce
    have "same_book s (recordDivergentRecovery E c cmd h s)" for h
      unfolding recordDivergentRecovery_def by (rule snd_audit_same)
    with False tx Inl s show ?thesis by (auto simp: Ingest_def TenantFrom_def intro: same_book_keeps)
  next
    case (Inr x)
    with tx have "ingest_tx C c c cmd (E\<lparr>tenant := c\<rparr>) s = Inr (x, s')" by (simp add: WithTenantTx_Inr)
    with ingest_tx_keeps [OF this] False assms tx Inr show ?thesis by (simp add: Ingest_def TenantFrom_def)
  qed
qed

lemma park_cmd_same: "park_cmd E telco cmd reason s = Inr (cr, s') \<Longrightarrow> same_book s s'"
  by (auto simp: park_cmd_def case_pair_Inr dest!: same_book_NewID same_book_Park intro: same_book_trans)

lemma park_collision_same: "park_collision E telco cmd reason s = Inr (res, s') \<Longrightarrow> same_book s s'"
  by (auto simp: park_collision_def andThen_Inr_iff split: if_splits
      dest!: park_cmd_same same_book_SetParkReason intro: same_book_trans)

lemma reverse_route_keeps:
  assumes ok: "reverse_route E C c telco cmd s = Inr (res, s')"
    and cmd: "IsPositive (rc_amount cmd)" and cfg: "waterfall_ok C"
  shows "keeps_book s s'"
proof (cases "RecoveryEvents_GetBySource E (rc_original cmd) s")
  case (Inl e)
  with ok show ?thesis
    by (auto simp: reverse_route_def andThen_Inr_iff split: if_splits dest!: park_cmd_same intro: same_book_keeps)
next
  case (Inr original)
  show ?thesis
  proof (cases "EvtState original = RecoveryAllocated")
    case False
    with ok Inr show ?thesis
      by (auto simp: reverse_route_def andThen_Inr_iff dest!: park_cmd_same intro: same_book_keeps)
  next
    case True
    with ok Inr obtain g s1 where
      g: "applyReversalGuarded E C c original (rc_amount cmd) (rc_corr cmd) (rc_reversal cmd) s = Inr (g, s1)"
      and rest: "(case g of
              Collision reason \<Rightarrow> park_collision E telco cmd reason s1
            | Applied out \<Rightarrow>
                (case FindParkedForOriginal E (rc_original cmd) s1 of
                   Inr parked \<Rightarrow> andThen (MarkApplied E (PendingReversalID parked) s1) (\<lambda>s. Inr (out, s))
                 | Inl e \<Rightarrow> if e = ErrNotFound then Inr (out, s1) else Inl e)) = Inr (res, s')"
      by (auto simp: reverse_route_def andThen_Inr_iff)
    have "same_book s1 s'" using rest
      by (auto simp: andThen_Inr_iff split: guarded.splits sum.splits if_splits
          dest!: park_collision_same same_book_MarkApplied)
    from keeps_same [OF guarded_keeps [OF g cfg cmd] this] show ?thesis .
  qed
qed

lemma Reverse_keeps:
  assumes "waterfall_ok C"
  shows "keeps_book s (snd (Reverse E C c cmd s))"
proof (cases "rc_reversal cmd = '''' \<or> rc_original cmd = '''' \<or> rc_corr cmd = '''' \<or> \<not> IsPositive (rc_amount cmd)")
  case True
  then show ?thesis by (auto simp: Reverse_def)
next
  case False
  obtain r s' where tx: "WithTenantTx E c (reverse_tx C c cmd) s = (r, s')" by (cases "WithTenantTx E c (reverse_tx C c cmd) s")
  show ?thesis
  proof (cases r)
    case (Inl e)
    with tx have s: "s' = s" using WithTenantTx_error by fastforce
    have "same_book s (recordDivergentReversal E c cmd s)"
      unfolding recordDivergentReversal_def by (auto split: sum.splits intro: snd_audit_same)
    with False tx Inl s show ?thesis by (auto simp: Reverse_def intro: same_book_keeps)
  next
    case (Inr x)
    with tx have "reverse_tx C c cmd (E\<lparr>tenant := c\<rparr>) s = Inr (x, s')" by (simp add: WithTenantTx_Inr)
    then have "s' = s \<or> reverse_route (E\<lparr>tenant := c\<rparr>) C c c cmd s = Inr (x, s')"
      by (auto simp: reverse_tx_def andThen_Inr_iff TenantFrom_Inr Let_def split: sum.splits if_splits)
    with reverse_route_keeps assms False have "keeps_book s s'" by auto
    with False tx Inr show ?thesis by (simp add: Reverse_def)
  qed
qed

lemma retry_blocked_same: "retry_blocked E telco actor pid reason s = Inr (res, s') \<Longrightarrow> same_book s s'"
  by (auto simp: retry_blocked_def auditRetry_def andThen_Inr_iff case_pair_Inr
      dest!: same_book_SetParkReason same_book_NewID same_book_Audit intro: same_book_trans)

lemma auditRetry_same: "auditRetry E telco actor pid outcome s = Inr s' \<Longrightarrow> same_book s s'"
  by (auto simp: auditRetry_def case_pair_Inr dest!: same_book_NewID same_book_Audit intro: same_book_trans)

lemma RetryParked_keeps:
  assumes "waterfall_ok C"
  shows "keeps_book s (snd (RetryParked E C c telco pid actor s))"
proof -
  obtain r s' where tx: "WithTenantTx E telco (retry_tx C c telco pid actor) s = (r, s')"
    by (cases "WithTenantTx E telco (retry_tx C c telco pid actor) s")
  have "keeps_book s s'"
  proof (cases r)
    case (Inl e)
    with tx show ?thesis using WithTenantTx_error by fastforce
  next
    case (Inr x)
    let ?E = "E\<lparr>tenant := telco\<rparr>"
    from Inr tx have ok: "retry_tx C c telco pid actor ?E s = Inr (x, s')" by (simp add: WithTenantTx_Inr)
    then obtain parked where cl: "ClaimParkedByID ?E pid s = Inr parked" by (auto simp: retry_tx_def andThen_Inr_iff)
    have "same_book s s' \<or> (\<exists>original corr t g s1. NewID ?E ''cor'' s = (corr, t)
        \<and> applyReversalGuarded ?E C c original (PrvAmount parked) corr (ReversalSourceEventID parked) t = Inr (g, s1)
        \<and> same_book s1 s')"
    proof (cases "RecoveryEvents_GetBySource ?E (OriginalSourceEventID parked) s")
      case (Inl e)
      with ok cl show ?thesis
        by (auto simp: retry_tx_def split: if_splits dest: retry_blocked_same)
    next
      case (Inr original)
      show ?thesis
      proof (cases "EvtState original = RecoveryAllocated")
        case False
        with ok cl Inr show ?thesis by (auto simp: retry_tx_def dest: retry_blocked_same)
      next
        case True
        with ok cl Inr obtain corr t g s1 where id: "NewID ?E ''cor'' s = (corr, t)"
          and g: "applyReversalGuarded ?E C c original (PrvAmount parked) corr (ReversalSourceEventID parked) t = Inr (g, s1)"
          and rest: "(case g of
              Collision reason \<Rightarrow> retry_blocked ?E telco actor (PendingReversalID parked) reason s1
            | Applied _ \<Rightarrow>
                andThen (MarkApplied ?E (PendingReversalID parked) s1) (\<lambda>s.
                andThen (auditRetry ?E telco actor (PendingReversalID parked) ''applied'' s) (\<lambda>s.
                Inr (\<lparr>rt_applied = True, rt_reason = ''''\<rparr>, s)))) = Inr (x, s')"
          by (auto simp: retry_tx_def andThen_Inr_iff case_pair_Inr)
        have "same_book s1 s'" using rest
          by (cases g) (auto simp: andThen_Inr_iff
              dest!: retry_blocked_same same_book_MarkApplied auditRetry_same intro: same_book_trans)
        with id g show ?thesis by blast
      qed
    qed
    then show ?thesis
      using guarded_parked_keeps [OF _ cl [unfolded ClaimParkedByID_def] same_book_NewID assms] keeps_same
        same_book_keeps by blast
  qed
  with tx show ?thesis by (simp add: RetryParked_def)
qed

end
