(* ===== verification/RecoveryProps.thy ===== *)
theory RecoveryProps
  imports RecoveryBook
begin

text \<open>
  The properties of the recovery use case: the book invariant over every entry point, the exact
  split of an event's money, replay and divergence of retried commands, the limits of a
  reversal, and two behaviours the source's comments do not describe.
\<close>

section \<open>A sample book\<close>

definition sample_advance :: advance_row where
  "sample_advance = \<lparr>a_id = ''adv_1'', a_telco = ''MTN_NG'', a_prog = ''prg_1'', a_sub = ''sub_1'', a_offer = ''off_1'',
     a_pool = Some ''pool_1'', a_idem = ''idem_1'', a_corr = ''cor_1'', a_state = AdvActive, a_version = 5,
     a_face = 500, a_fee = 50, a_disb = 450, a_out = 500, a_cur = ''NGN'', a_accepted = 10, a_activated = Some 11,
     a_closed = None, a_updated = 11, a_feerec = None, a_bucket = None, a_bucket_asof = None\<rparr>"

definition sample_sub :: SubscriberAccount where
  "sample_sub = \<lparr>sub_id = ''sub_1'', sub_telco = ''MTN_NG'', sub_token = ''tok_1'', sub_status = ''ACTIVE'',
     sub_nin = None, sub_from = 0, sub_to = None\<rparr>"

definition sample_db :: db where
  "sample_db = empty_db\<lparr>subs := [sample_sub], advances := [sample_advance],
     pools := [\<lparr>p_id = ''pool_1'', p_prog = ''prg_1'', p_telco = ''MTN_NG'', p_cur = ''NGN'', p_committed = 1000,
       p_reserved = 0, p_utilised = 500, p_status = ''ACTIVE''\<rparr>]\<rparr>"

definition sample_cfg :: recovery_cfg where
  "sample_cfg = \<lparr>cfg_ledger = sample_ledger, cfg_waterfall = (\<lambda>_. Inr [''FEE'', ''PRINCIPAL''])\<rparr>"

definition sample_cmd :: IngestCmd where
  "sample_cmd = \<lparr>ic_source = ''src_1'', ic_token = ''tok_1'', ic_amount = \<lparr>amount = 600, currency = ''NGN''\<rparr>,
     ic_occurred = 900, ic_corr = ''cor_9''\<rparr>"

definition sample_rev :: ReverseCmd where
  "sample_rev = \<lparr>rc_reversal = ''rev_1'', rc_original = ''src_1'', rc_amount = \<lparr>amount = 200, currency = ''NGN''\<rparr>,
     rc_corr = ''cor_10''\<rparr>"

lemma sample_waterfall: "waterfall_ok sample_cfg"
  by (simp add: waterfall_ok_def sample_cfg_def)

lemma sample_book: "book_ok sample_db"
  by (simp add: book_ok_def funded_def schema_ok_def sample_db_def sample_advance_def empty_db_def utilised_of_def
      reserved_of_def lent_def held_def lent_state_def held_state_def)

section \<open>The book invariant\<close>

text \<open>C1: ingest keeps the book. From a state in which every pool's utilised and reserved amounts are
  exactly what its advances owe and hold, \<^verbatim>\<open>Ingest\<close>, whatever the event, its outcome or its error
  (matched, over-recovered, written off, quarantined, unmatched, replayed, divergent, with a parked
  reversal applied on the way), leads to such a state again, and for every advance the amount
  outstanding plus the net receivable allocations is what it was (V2-COL-005, INV-006).\<close>

theorem Ingest_keeps_book:
  assumes "waterfall_ok C" and "book_ok s"
  shows "book_ok (snd (Ingest E C c cmd s)) \<and> (\<forall>aid. gross (snd (Ingest E C c cmd s)) aid = gross s aid)"
  using keeps_snd [OF Ingest_keeps [OF assms(1)] assms(2)] .

theorem Ingest_keeps_book_witness:
  "book_ok (snd (Ingest sample_env sample_cfg ''MTN_NG'' sample_cmd sample_db))
   \<and> gross (snd (Ingest sample_env sample_cfg ''MTN_NG'' sample_cmd sample_db)) ''adv_1'' = 500
   \<and> fst (Ingest sample_env sample_cfg ''MTN_NG'' sample_cmd sample_db) \<in> range Inr"
proof -
  have "gross sample_db ''adv_1'' = 500"
    by (simp add: gross_def owed_def repaid_def sample_db_def sample_advance_def empty_db_def)
  moreover have "(case fst (Ingest sample_env sample_cfg ''MTN_NG'' sample_cmd sample_db) of Inl _ \<Rightarrow> False | Inr _ \<Rightarrow> True)"
    by code_simp
  then have "fst (Ingest sample_env sample_cfg ''MTN_NG'' sample_cmd sample_db) \<in> range Inr"
    by (auto split: sum.splits)
  ultimately show ?thesis
    using Ingest_keeps_book [OF sample_waterfall sample_book, of sample_env "''MTN_NG''" sample_cmd] by simp
qed

text \<open>C2: reversal keeps the book. The same holds for \<^verbatim>\<open>Reverse\<close> (applied, parked, collided and
  parked, replayed, refused) and for the operator's \<^verbatim>\<open>RetryParked\<close>: utilisation is re-added
  exactly where outstanding grows back, and no retry can claw back twice.\<close>

theorem Reverse_keeps_book:
  assumes "waterfall_ok C" and "book_ok s"
  shows "book_ok (snd (Reverse E C c rcmd s)) \<and> (\<forall>aid. gross (snd (Reverse E C c rcmd s)) aid = gross s aid)
    \<and> book_ok (snd (RetryParked E C c telco pid actor s))
    \<and> (\<forall>aid. gross (snd (RetryParked E C c telco pid actor s)) aid = gross s aid)"
  using keeps_snd [OF Reverse_keeps [OF assms(1)] assms(2)]
    keeps_snd [OF RetryParked_keeps [OF assms(1)] assms(2)] by blast

theorem Reverse_keeps_book_witness:
  "book_ok (snd (Reverse sample_env sample_cfg ''MTN_NG'' sample_rev
     (snd (Ingest sample_env sample_cfg ''MTN_NG'' sample_cmd sample_db))))"
  using Reverse_keeps_book [OF sample_waterfall keeps_snd [OF Ingest_keeps [OF sample_waterfall] sample_book, THEN conjunct1]]
  by blast

section \<open>Stored results read back\<close>

lemma MustMoney_back: "Valid (currency m) \<Longrightarrow> MustMoney (amount m) (currency m) = Inr m"
  by (simp add: MustMoney_def)

definition money_or_unset :: "money \<Rightarrow> bool" where
  "money_or_unset m \<longleftrightarrow> m = unset \<or> Valid (currency m)"

text \<open>the results stored on idempotency records read back exactly (P0-003, R-P0-2). An ingest or
  reversal result whose amounts are unset or in a valid currency is decoded to itself, apart from
  the fields the stored form does not carry.\<close>

theorem stored_results_roundtrip:
  assumes "money_or_unset (ir_applied r)" "money_or_unset (ir_excess r)" "money_or_unset (rr_applied q)"
  shows "decodeIngestResult (encodeIngestResult r) = Inr (r\<lparr>ir_replayed := False\<rparr>)
    \<and> decodeReverseApply (encodeReverseApply q) = Inr (no_reverse\<lparr>rr_applied := rr_applied q, rr_reopened := rr_reopened q\<rparr>)"
  using assms Valid_nonempty
  by (auto simp: decodeIngestResult_def encodeIngestResult_def decodeReverseApply_def encodeReverseApply_def field_str_def
      field_num_def field_bool_def money_or_unset_def IsSet_def unset_def MustMoney_back Let_def no_reverse_def)

theorem stored_results_roundtrip_witness:
  "decodeReverseApply (encodeReverseApply (no_reverse\<lparr>rr_applied := \<lparr>amount = 7, currency = ''NGN''\<rparr>, rr_reopened := True\<rparr>))
     = Inr (no_reverse\<lparr>rr_applied := \<lparr>amount = 7, currency = ''NGN''\<rparr>, rr_reopened := True\<rparr>)
   \<and> decodeIngestResult (encodeIngestResult no_result) = Inr no_result"
proof -
  have "Valid ''NGN''" by (simp add: Valid_def less_eq_char_def of_char_def)
  then have "money_or_unset (ir_applied no_result)" "money_or_unset (ir_excess no_result)"
    "money_or_unset (rr_applied (no_reverse\<lparr>rr_applied := \<lparr>amount = 7, currency = ''NGN''\<rparr>, rr_reopened := True\<rparr>))"
    by (simp_all add: money_or_unset_def no_result_def)
  from stored_results_roundtrip [OF this] show ?thesis by (simp add: no_result_def no_reverse_def)
qed

section \<open>An operator retry needs a tenant in the caller's context\<close>

text \<open>\<^verbatim>\<open>RetryParked\<close> binds its transaction to the telco it is given but passes the caller's own
  context to the apply step, which asks that context for the tenant. A caller whose context carries
  none, such as an operator session of the portal, therefore never gets a parked reversal applied:
  the call is an error or reports a blocked reversal, and nothing of the book changes.\<close>

theorem RetryParked_without_tenant:
  "case RetryParked E C '''' telco pid actor s of
     (Inl e, s') \<Rightarrow> s' = s
   | (Inr res, s') \<Rightarrow> \<not> rt_applied res \<and> rt_reason res \<in> {''ORIGINAL_UNSEEN'', ''ORIGINAL_NOT_ALLOCATED''}
       \<and> advances s' = advances s \<and> pools s' = pools s \<and> allocs s' = allocs s \<and> journals s' = journals s"
proof -
  have fail: "applyReversalGuarded E' C '''' original amt corr rsid t = Inl (Fmt ''no tenant context'')"
    for E' original amt corr rsid t
    by (simp add: applyReversalGuarded_def applyReversal_def TenantFrom_def collision_reason_def)
  have blocked: "retry_blocked E' telco actor p reason t = Inr (res, t') \<Longrightarrow>
      \<not> rt_applied res \<and> rt_reason res = reason \<and> advances t' = advances t \<and> pools t' = pools t
      \<and> allocs t' = allocs t \<and> journals t' = journals t" for E' p reason t res t'
    by (auto simp: retry_blocked_def auditRetry_def NewID_def res_simps)
  have only: "\<exists>p. retry_blocked E' telco actor p ''ORIGINAL_UNSEEN'' s = Inr (res, s')
      \<or> retry_blocked E' telco actor p ''ORIGINAL_NOT_ALLOCATED'' s = Inr (res, s')"
    if "retry_tx C '''' telco pid actor E' s = Inr (res, s')" for E' res s'
  proof -
    from that obtain parked where cl: "ClaimParkedByID E' pid s = Inr parked" by (auto simp: retry_tx_def andThen_Inr_iff)
    show ?thesis
      using that cl by (cases "RecoveryEvents_GetBySource E' (OriginalSourceEventID parked) s")
        (auto simp: retry_tx_def fail NewID_def split: if_splits)
  qed
  show ?thesis
  proof (cases "RetryParked E C '''' telco pid actor s")
    case (Pair r s')
    show ?thesis
    proof (cases r)
      case (Inl e)
      with Pair show ?thesis using WithTenantTx_error by (fastforce simp: RetryParked_def)
    next
      case (Inr res)
      with Pair have "retry_tx C '''' telco pid actor (E\<lparr>tenant := telco\<rparr>) s = Inr (res, s')"
        by (simp add: RetryParked_def WithTenantTx_Inr)
      from only [OF this] Pair Inr show ?thesis by (auto dest!: blocked)
    qed
  qed
qed

section \<open>What ingest leaves alone\<close>

text \<open>Steps that neither hold money in suspense nor touch the claims of ingest.\<close>

definition quiet :: "db \<Rightarrow> db \<Rightarrow> bool" where
  "quiet s s' \<longleftrightarrow> suspense s' = suspense s
     \<and> (\<forall>E t k. Idempotency_Get E t ''recovery.ingest'' k s' = Idempotency_Get E t ''recovery.ingest'' k s)"

named_theorems quiet_frame \<open>operations that are quiet\<close>

lemma quiet_refl [simp, intro]: "quiet s s"
  by (simp add: quiet_def)

lemma quiet_trans: "quiet s t \<Longrightarrow> quiet t u \<Longrightarrow> quiet s u"
  by (simp add: quiet_def)

lemma quiet_same: "suspense s' = suspense s \<Longrightarrow> idem s' = idem s \<Longrightarrow> quiet s s'"
  by (simp add: quiet_def Idempotency_Get_def)

lemma quiet_NewID [quiet_frame]: "NewID E p s = (i, s') \<Longrightarrow> quiet s s'"
  by (auto simp: NewID_def intro!: quiet_same)

lemma quiet_PostEvent [quiet_frame]:
  assumes "PostEvent E C j b s = Inr (r, s')"
  shows "quiet s s'"
  using arg_cong [OF PostEvent_frame [OF assms], of suspense] arg_cong [OF PostEvent_frame [OF assms], of idem]
  by (auto intro!: quiet_same)

lemma quiet_SetState [quiet_frame]: "RecoveryEvents_SetState E rid f t s = Inr s' \<Longrightarrow> quiet s s'"
  by (auto simp: res_simps intro!: quiet_same)

lemma quiet_Outbox [quiet_frame]: "Outbox_Append E e s = Inr s' \<Longrightarrow> quiet s s'"
  by (auto simp: res_simps intro!: quiet_same)

lemma quiet_SetParkReason [quiet_frame]: "SetParkReason E p x s = Inr s' \<Longrightarrow> quiet s s'"
  by (auto simp: res_simps intro!: quiet_same)

lemma quiet_MarkApplied [quiet_frame]: "MarkApplied E p s = Inr s' \<Longrightarrow> quiet s s'"
  by (auto simp: res_simps intro!: quiet_same)

lemma quiet_Holds [quiet_frame]: "RecoveryHolds_Insert E t sub aid rid s = Inr s' \<Longrightarrow> quiet s s'"
  by (auto simp: RecoveryHolds_Insert_def NewID_def res_simps split: if_splits intro!: quiet_same)

lemma quiet_EventInsert [quiet_frame]: "RecoveryEvents_Insert E e s = Inr (c, s') \<Longrightarrow> quiet s s'"
  by (auto simp: RecoveryEvents_Insert_def res_simps split: if_splits intro!: quiet_same)

lemma find_other_idem:
  "(\<And>q. q \<in> set rows \<Longrightarrow> \<not> p q) \<Longrightarrow> List.find p (xs @ rows) = List.find p xs"
  by (induction xs) (auto simp: find_None_iff)

lemma quiet_Put_reverse [quiet_frame]:
  assumes "PutIfAbsent E rec s = Inr (r, s')" "i_op rec = ''recovery.reverse''"
  shows "quiet s s'"
proof -
  from assms(1) consider "s' = s" | "s' = s\<lparr>idem := idem s @ [rec]\<rparr>"
    by (auto simp: PutIfAbsent_def andThen_Inr_iff split: if_splits)
  then show ?thesis
  proof cases
    case 2
    have "List.find (is_idem E' t' ''recovery.ingest'' k') (idem s @ [rec])
        = List.find (is_idem E' t' ''recovery.ingest'' k') (idem s)" for E' t' k'
      by (rule find_other_idem) (use assms(2) in \<open>auto simp: is_idem_def\<close>)
    then show ?thesis unfolding 2 by (simp add: quiet_def Idempotency_Get_def queryRow_def)
  qed simp
qed

lemma find_upd_other:
  "(\<And>q. p q \<Longrightarrow> \<not> w q) \<Longrightarrow> (\<And>q. p (f q) = p q) \<Longrightarrow> List.find p (upd_where w f xs) = List.find p xs"
  by (induction xs) auto

lemma quiet_SetResponse_reverse [quiet_frame]:
  assumes "SetResponse E t ''recovery.reverse'' k st b s = Inr s'"
  shows "quiet s s'"
proof -
  let ?w = "is_idem E t ''recovery.reverse'' k" and ?f = "\<lambda>r. r\<lparr>i_status := st, i_body := b\<rparr>"
  from SetResponse_Inr [OF assms] have s': "s' = s\<lparr>idem := upd_where ?w ?f (idem s)\<rparr>" by blast
  have "List.find (is_idem E' t' ''recovery.ingest'' k') (upd_where ?w ?f (idem s))
      = List.find (is_idem E' t' ''recovery.ingest'' k') (idem s)" for E' t' k'
    by (rule find_upd_other) (auto simp: is_idem_def)
  then show ?thesis unfolding s' by (simp add: quiet_def Idempotency_Get_def queryRow_def)
qed

lemma quiet_allocate:
  assumes "allocate E C evt adv applied s = Inr (f, s')" "IsSet applied" "0 \<le> sint (amount applied)"
  shows "quiet s s'"
proof -
  from allocate_rows [OF assms] obtain new where n: "s' = s\<lparr>next_id := next_id s', allocs := allocs s @ new\<rparr>" by blast
  show ?thesis by (rule quiet_same; subst n) simp_all
qed

lemma quiet_unallocate:
  assumes "unallocate_loop E evt aid pc ws rem fee s = Inr (r, s')" "IsPositive rem"
  shows "quiet s s'"
proof -
  obtain x y where r: "r = (x, y)" by (cases r)
  have pos: "IsSet rem" "0 \<le> sint (amount rem)" using assms(2) by (auto simp: IsPositive_def)
  from unallocate_loop_exact [OF assms(1) [unfolded r] pos] obtain new where
    n: "s' = s\<lparr>next_id := next_id s', allocs := allocs s @ new\<rparr>" by blast
  show ?thesis by (rule quiet_same; subst n) simp_all
qed

lemma quiet_apply_book:
  assumes "apply_book E telco sub evt adv applied s = Inr (closed, s')"
  shows "quiet s s'"
proof -
  from assms obtain m s1 s2 where
    "ApplyRecovery E (AdvanceID adv) (Version adv) (State adv) (if IsZero m then AdvClosed else AdvPartiallyRecovered) m s = Inr s1"
    and red: "ReduceUtilisation E (FundingPoolID adv) applied s1 = Inr s2"
    and h: "(if IsZero m \<and> take 3 (SourceEventID evt) = ''wh:''
              then RecoveryHolds_Insert E telco sub (AdvanceID adv) (RecoveryEventID evt) s2 else Inr s2) = Inr s'"
    by (simp only: apply_book_def andThen_Inr_iff Let_def sum.inject prod.inject) blast
  then have "quiet s s1" by (auto simp: ApplyRecovery_def adv_update_Inr split: if_splits intro!: quiet_same)
  moreover have "quiet s1 s2" using reduce.tables [OF red] by (intro quiet_same)
  moreover have "quiet s2 s'" using h by (auto split: if_splits dest: quiet_Holds)
  ultimately show ?thesis by (blast intro: quiet_trans)
qed

lemma quiet_reverse_book:
  assumes "reverse_book E C original amt corr rsid adv fee s = Inr (ro, s')"
  shows "quiet s s'"
proof -
  from assms obtain m s1 s2 j b res where
    "ApplyReversal E (AdvanceID adv) (Version adv) (State adv) (if State adv = AdvClosed then AdvPartiallyRecovered else State adv) m s = Inr s1"
    and red: "ReAddUtilisation E (FundingPoolID adv) amt s1 = Inr s2"
    and p: "PostEvent E (cfg_ledger C) j b s2 = Inr (res, s')"
    by (simp only: reverse_book_def andThen_Inr_iff Let_def sum.inject prod.inject split_paired_Ex prod.case) blast
  then have "quiet s s1" by (auto simp: ApplyReversal_def adv_update_Inr split: if_splits intro!: quiet_same)
  moreover have "quiet s1 s2" using readd.tables [OF red] by (intro quiet_same)
  ultimately show ?thesis using quiet_PostEvent [OF p] by (blast intro: quiet_trans)
qed

lemma quiet_applyReversal:
  assumes "applyReversal E C c original amt corr rsid s = Inr (out, s')" "IsPositive amt"
  shows "quiet s s'"
proof -
  from assms(1) obtain telco replay s1 where cl: "reverse_claim E telco original amt rsid s = Inr (replay, s1)"
    and rest: "(case replay of Some rp \<Rightarrow> Inr (rp, s1) | None \<Rightarrow> reverse_fresh E C telco original amt corr rsid s1)
       = Inr (out, s')"
    unfolding applyReversal_def by (simp only: run_simps) blast
  have q1: "quiet s s1"
    using cl by (auto simp: reverse_claim_def Let_def andThen_Inr_iff split: if_splits intro: quiet_Put_reverse)
  show ?thesis
  proof (cases replay)
    case None
    with rest have "reverse_fresh E C telco original amt corr rsid s1 = Inr (out, s')" by simp
    then show ?thesis
    proof (rule reverse_fresh_steps)
      fix net aid adv c1 perComp ws rem feeRev s2 s3 s4 reopened
      assume un: "unallocate_loop E (RecoveryEventID original) (AdvanceID adv) perComp (rev ws) amt
          (zero_of (currency amt)) s1 = Inr ((rem, feeRev), s2)"
        and bk: "reverse_book E C original amt corr rsid adv feeRev s2 = Inr (reopened, s3)"
        and s4: "(if Cmp amt net = Inr 0
          then RecoveryEvents_SetState E (RecoveryEventID original) RecoveryAllocated RecoveryReversed s3
          else Inr s3) = Inr s4"
        and sr: "SetResponse E telco ''recovery.reverse'' rsid 200
          (encodeReverseApply (no_reverse\<lparr>rr_applied := amt, rr_reopened := reopened\<rparr>)) s4 = Inr s'"
      have "quiet s3 s4" using s4 by (auto split: if_splits dest: quiet_SetState)
      then show ?thesis
        using q1 quiet_unallocate [OF un assms(2)] quiet_reverse_book [OF bk] quiet_SetResponse_reverse [OF sr]
        by (blast intro: quiet_trans)
    qed
  qed (use rest q1 in simp)
qed

lemma quiet_parked:
  assumes "applyParkedIfAny E C c cmd s = Inr s'" "schema_ok s"
  shows "quiet s s'"
proof (cases "FindParkedForOriginal E (ic_source cmd) s")
  case (Inl e)
  with assms(1) show ?thesis by (auto simp: applyParkedIfAny_def split: if_splits)
next
  case (Inr parked)
  with assms(1) obtain original g s1 where
    g: "applyReversalGuarded E C c original (PrvAmount parked) (ic_corr cmd) (ReversalSourceEventID parked) s = Inr (g, s1)"
    and fin: "(case g of Collision reason \<Rightarrow> SetParkReason E (PendingReversalID parked) reason s1
          | Applied _ \<Rightarrow> MarkApplied E (PendingReversalID parked) s1) = Inr s'"
    by (auto simp: applyParkedIfAny_def andThen_Inr_iff)
  have "IsPositive (PrvAmount parked)"
    using Inr assms(2) by (auto simp: FindParkedForOriginal_def andThen_Inr_iff intro: parked_positive)
  then have "quiet s s1"
    using g by (auto simp: applyReversalGuarded_def split: sum.splits option.splits dest: quiet_applyReversal)
  moreover have "quiet s1 s'" using fin by (cases g) (auto dest: quiet_SetParkReason quiet_MarkApplied)
  ultimately show ?thesis by (rule quiet_trans)
qed

section \<open>Where the money of an event goes\<close>

text \<open>
  \<open>held_rows\<close>: the step appended suspense rows worth the given amount and left the claims of
  ingest alone.
\<close>

definition held_rows :: "int \<Rightarrow> db \<Rightarrow> db \<Rightarrow> bool" where
  "held_rows v s s' \<longleftrightarrow>
     (\<exists>rows. suspense s' = suspense s @ rows \<and> (\<Sum>r\<leftarrow>rows. sint (ss_amount r)) = v)
     \<and> (\<forall>E t k. Idempotency_Get E t ''recovery.ingest'' k s' = Idempotency_Get E t ''recovery.ingest'' k s)"

lemma held_quiet: "quiet s s' \<Longrightarrow> held_rows 0 s s'"
  by (auto simp: quiet_def held_rows_def)

lemma held_trans: "held_rows v s t \<Longrightarrow> held_rows w t u \<Longrightarrow> held_rows (v + w) s u"
  by (fastforce simp: held_rows_def)

lemma held_then_quiet: "held_rows v s t \<Longrightarrow> quiet t u \<Longrightarrow> held_rows v s u"
  using held_trans [of v s t 0 u] held_quiet by simp

lemma quiet_then_held: "quiet s t \<Longrightarrow> held_rows v t u \<Longrightarrow> held_rows v s u"
  using held_trans [of 0 s t v u] held_quiet by simp

lemma held_Suspense: "Suspense_Insert E telco rid m reason s = Inr s' \<Longrightarrow> held_rows (sint (amount m)) s s'"
  by (auto simp: Suspense_Insert_Inr held_rows_def Idempotency_Get_def)

lemma held_journals:
  assumes "apply_journals E C telco evt adv cmd applied excess feeTake s = Inr s'" "excess = unset \<or> IsPositive excess"
  shows "held_rows (sint (amount excess)) s s'"
proof -
  from assms(1) obtain r s1 where p: "\<exists>j b. PostEvent E (cfg_ledger C) j b s = Inr (r, s1)"
    and rest: "(if IsSet excess \<and> IsPositive excess then
        andThen (Suspense_Insert E telco (RecoveryEventID evt) excess ''OVER_RECOVERY'' s1) (\<lambda>s.
        andThen (PostEvent E (cfg_ledger C)
           (journal_for (RecoveryEventID evt @ ''/suspense'') EventRecoverySuspense telco (AdvProgrammeID adv) (AdvanceID adv)
              (ic_corr cmd)) [(''AMOUNT'', excess)] s) (\<lambda>(_, s). Inr s))
      else Inr s1) = Inr s'"
    unfolding apply_journals_def Let_def andThen_Inr_iff [of "PostEvent _ _ _ _ s"] split_paired_Ex prod.case by blast
  have q: "quiet s s1" using p quiet_PostEvent by blast
  show ?thesis
  proof (cases "IsPositive excess")
    case True
    with rest IsPositive_IsSet obtain s2 r2 where su: "Suspense_Insert E telco (RecoveryEventID evt) excess ''OVER_RECOVERY'' s1 = Inr s2"
      and p2: "PostEvent E (cfg_ledger C)
           (journal_for (RecoveryEventID evt @ ''/suspense'') EventRecoverySuspense telco (AdvProgrammeID adv) (AdvanceID adv)
              (ic_corr cmd)) [(''AMOUNT'', excess)] s2 = Inr (r2, s')"
      by (auto simp: andThen_Inr_iff)
    from held_then_quiet [OF quiet_then_held [OF q held_Suspense [OF su]] quiet_PostEvent [OF p2]] show ?thesis .
  next
    case False
    with rest q assms(2) show ?thesis by (auto simp: unset_def dest: held_quiet)
  qed
qed

text \<open>The outcome of an event whose claim is fresh.\<close>

definition conserved :: "IngestCmd \<Rightarrow> IngestResult \<Rightarrow> db \<Rightarrow> db \<Rightarrow> bool" where
  "conserved cmd res s s' \<longleftrightarrow>
     ir_state res \<in> {''ALLOCATED'', ''QUARANTINED'', ''UNMATCHED''}
     \<and> 0 \<le> sint (amount (ir_applied res)) \<and> 0 \<le> sint (amount (ir_excess res))
     \<and> sint (amount (ir_applied res)) + sint (amount (ir_excess res))
         = (if ir_state res = ''UNMATCHED'' then 0 else sint (amount (ic_amount cmd)))
     \<and> held_rows (sint (amount (ir_excess res))) s s'
     \<and> (Valid (currency (ic_amount cmd)) \<longrightarrow> money_or_unset (ir_applied res) \<and> money_or_unset (ir_excess res))"

lemma conserved_pre: "quiet s t \<Longrightarrow> conserved cmd res t u \<Longrightarrow> conserved cmd res s u"
  using quiet_then_held unfolding conserved_def by blast

lemma conserved_post: "conserved cmd res s t \<Longrightarrow> quiet t u \<Longrightarrow> conserved cmd res s u"
  using held_then_quiet unfolding conserved_def by blast

lemma matched_conserves:
  assumes ok: "apply_matched E C c telco sub evt (advance_of r) cmd s = Inr (res, s')"
    and r: "r \<in> set (advances s)" "a_telco r = tenant E" "a_state r \<in> {AdvActive, AdvPartiallyRecovered}"
    and cmd: "IsPositive (ic_amount cmd)" and cfg: "waterfall_ok C" and bok: "book_ok s"
  shows "conserved cmd res s s' \<and> \<not> ir_replayed res"
proof -
  from ok obtain applied excess feeTake s1 closed s2 s3 s4 oid s5 s6 e where
    sp: "split_amount (ic_amount cmd) (Outstanding (advance_of r)) = Inr (applied, excess)"
    and al: "allocate E C (RecoveryEventID evt) (advance_of r) applied s = Inr (feeTake, s1)"
    and bk: "apply_book E telco sub evt (advance_of r) applied s1 = Inr (closed, s2)"
    and jn: "apply_journals E C telco evt (advance_of r) cmd applied excess feeTake s2 = Inr s3"
    and st: "RecoveryEvents_SetState E (RecoveryEventID evt) RecoveryPending RecoveryAllocated s3 = Inr s4"
    and id: "NewID E ''evt'' s4 = (oid, s5)" and ob: "Outbox_Append E e s5 = Inr s6"
    and pk: "applyParkedIfAny E C c cmd s6 = Inr s'"
    and res: "res = \<lparr>ir_event = RecoveryEventID evt, ir_state = ''ALLOCATED'', ir_applied = applied,
          ir_excess = excess, ir_closed = closed, ir_replayed = False\<rparr>"
    by (auto simp: apply_matched_def andThen_Inr_iff Let_def case_pair_Inr)
  have out: "0 \<le> sint (a_out r)" using bok r(1) by (auto simp: book_ok_def schema_ok_def list_all_iff)
  note sa = split_amount_Inr [OF sp cmd]
  have pos: "IsSet applied" "0 \<le> sint (amount applied)" using sa cmd out by (auto simp: IsPositive_def)
  have ex: "excess = unset \<or> IsPositive excess" using sa cmd by (auto simp: IsPositive_def IsSet_def split: if_splits)
  have "keeps_book s s6"
    using keeps_same [OF keeps_same [OF keeps_same [OF keeps_same [OF matched_core_keeps [OF al bk r pos]
      apply_journals_same [OF jn]] same_book_SetState [OF st]] same_book_NewID [OF id]] same_book_Outbox [OF ob]] .
  then have sc: "schema_ok s6" using bok by (simp add: keeps_book_def book_ok_def)
  have "quiet s s2" using quiet_trans [OF quiet_allocate [OF al pos] quiet_apply_book [OF bk]] .
  moreover have "quiet s3 s'"
    using quiet_SetState [OF st] quiet_NewID [OF id] quiet_Outbox [OF ob] quiet_parked [OF pk sc]
    by (blast intro: quiet_trans)
  ultimately have "held_rows (sint (amount excess)) s s'"
    using held_journals [OF jn ex] by (blast intro: held_then_quiet quiet_then_held)
  moreover have "sint (amount applied) + sint (amount excess) = sint (amount (ic_amount cmd)) \<and> 0 \<le> sint (amount excess)"
    using sa cmd by (auto simp: unset_def IsPositive_def split: if_splits)
  ultimately show ?thesis
    using res pos sa by (auto simp: conserved_def money_or_unset_def split: if_splits)
qed


lemma writeoff_conserves:
  assumes "writeoffIncome E C evt wo cmd s = Inr (res, s')" "IsPositive (ic_amount cmd)"
  shows "conserved cmd res s s' \<and> \<not> ir_replayed res"
proof -
  from assms(1) obtain s1 s2 r where al: "insert_alloc E (RecoveryEventID evt) (AdvanceID wo) ComponentWriteoffIncome (ic_amount cmd) s = Inr s1"
    and p: "\<exists>j b. PostEvent E (cfg_ledger C) j b s1 = Inr (r, s2)"
    and st: "RecoveryEvents_SetState E (RecoveryEventID evt) RecoveryPending RecoveryAllocated s2 = Inr s'"
    and res: "res = no_result\<lparr>ir_event := RecoveryEventID evt, ir_state := ''ALLOCATED'', ir_applied := ic_amount cmd\<rparr>"
    unfolding writeoffIncome_def run_simps state_name.simps by blast
  have "quiet s s1" using al by (auto simp: insert_alloc_def NewID_def Allocations_Insert_Inr intro!: quiet_same)
  moreover have "quiet s1 s2" using p quiet_PostEvent by blast
  ultimately have "held_rows 0 s s'" using quiet_SetState [OF st] by (blast intro: held_quiet quiet_trans)
  then show ?thesis using res assms(2) by (simp add: conserved_def no_result_def money_or_unset_def IsPositive_def unset_def)
qed

lemma quarantine_conserves:
  assumes "quarantine E C evt (ic_amount cmd) reason corr s = Inr (res, s')"
  shows "conserved cmd res s s' \<and> \<not> ir_replayed res"
proof -
  from assms obtain s1 s2 r where su: "Suspense_Insert E (EvtTelcoID evt) (RecoveryEventID evt) (ic_amount cmd) reason s = Inr s1"
    and p: "\<exists>j b. PostEvent E (cfg_ledger C) j b s1 = Inr (r, s2)"
    and st: "RecoveryEvents_SetState E (RecoveryEventID evt) RecoveryPending RecoveryQuarantined s2 = Inr s'"
    and res: "res = no_result\<lparr>ir_event := RecoveryEventID evt, ir_state := ''QUARANTINED'', ir_excess := ic_amount cmd\<rparr>"
    unfolding quarantine_def run_simps state_name.simps by blast
  have "quiet s1 s'" using p quiet_PostEvent quiet_SetState [OF st] quiet_trans by blast
  from held_then_quiet [OF held_Suspense [OF su] this] su res show ?thesis
    by (simp add: conserved_def no_result_def money_or_unset_def unset_def Suspense_Insert_Inr)
qed

lemma classify_conserves:
  assumes ok: "classifyAndApply E C c telco cmd s = Inr (res, s')"
    and cmd: "IsPositive (ic_amount cmd)" and cfg: "waterfall_ok C" and bok: "book_ok s"
  shows "if ir_replayed res then quiet s s' \<and> ir_applied res = unset \<and> ir_excess res = unset else conserved cmd res s s'"
proof -
  from ok obtain sub rid s1 created s2 evt where
    id: "NewID E ''rcv'' s = (rid, s1)" and ins: "RecoveryEvents_Insert E evt s1 = Inr (created, s2)"
    and evt: "evt = \<lparr>RecoveryEventID = rid, EvtTelcoID = telco, SourceEventID = ic_source cmd, EvtSubscriberID = sub,
                EvtMSISDNToken = ic_token cmd, EvtAmount = ic_amount cmd, EvtState = RecoveryPending,
                OccurredAt = ic_occurred cmd\<rparr>"
    and rest: "(if \<not> created then
       andThen (RecoveryEvents_GetBySource E (ic_source cmd) s2) (\<lambda>ex.
       Inr (no_result\<lparr>ir_event := RecoveryEventID ex, ir_state := state_name (EvtState ex), ir_replayed := True\<rparr>, s2))
     else if sub = '''' then
       andThen (RecoveryEvents_SetState E rid RecoveryPending RecoveryUnmatched s2) (\<lambda>s.
       Inr (no_result\<lparr>ir_event := rid, ir_state := state_name RecoveryUnmatched\<rparr>, s))
     else
       (case FindOpenBySubscriber E sub s2 of
          Inr adv \<Rightarrow> apply_matched E C c telco sub evt adv cmd s2
        | Inl e \<Rightarrow>
            if e \<noteq> ErrNotFound then Inl e
            else (case FindWrittenOffBySubscriber E sub s2 of
                    Inr wo \<Rightarrow> writeoffIncome E C evt wo cmd s2
                  | Inl e' \<Rightarrow> if e' \<noteq> ErrNotFound then Inl e'
                             else quarantine E C evt (ic_amount cmd) ''NO_OPEN_ADVANCE'' (ic_corr cmd) s2))) = Inr (res, s')"
    unfolding classifyAndApply_def Let_def by (auto simp: andThen_Inr_iff case_pair_Inr)
  have q: "quiet s s2" using quiet_trans [OF quiet_NewID [OF id] quiet_EventInsert [OF ins]] .
  have bok2: "book_ok s2"
    using keeps_snd [OF same_book_keeps [OF same_book_trans [OF same_book_NewID [OF id] same_book_EventInsert [OF ins]]] bok] by blast
  show ?thesis
  proof (cases created)
    case False
    with rest q show ?thesis by (auto simp: andThen_Inr_iff no_result_def)
  next
    case created: True
    show ?thesis
  proof (cases "sub = ''''")
    case True
    with rest created obtain st: "RecoveryEvents_SetState E rid RecoveryPending RecoveryUnmatched s2 = Inr s'"
      and res: "res = no_result\<lparr>ir_event := rid, ir_state := ''UNMATCHED''\<rparr>" by (auto simp: andThen_Inr_iff)
    from held_quiet [OF quiet_trans [OF q quiet_SetState [OF st]]] res show ?thesis
      by (simp add: conserved_def no_result_def money_or_unset_def unset_def)
  next
    case False
    show ?thesis
    proof (cases "FindOpenBySubscriber E sub s2")
      case (Inr adv)
      with FindOpen_InrD obtain r where r: "r \<in> set (advances s2)" "a_telco r = tenant E"
        "a_state r \<in> {AdvActive, AdvPartiallyRecovered}" "adv = advance_of r" by blast
      with rest created False Inr have "apply_matched E C c telco sub evt (advance_of r) cmd s2 = Inr (res, s')" by simp
      from matched_conserves [OF this r(1-3) cmd cfg bok2] show ?thesis using conserved_pre [OF q] by simp
    next
      case (Inl e)
      with rest created False have "(\<exists>wo. writeoffIncome E C evt wo cmd s2 = Inr (res, s'))
          \<or> quarantine E C evt (ic_amount cmd) ''NO_OPEN_ADVANCE'' (ic_corr cmd) s2 = Inr (res, s')"
        by (auto split: if_splits sum.splits)
      then show ?thesis
        using writeoff_conserves [OF _ cmd] quarantine_conserves conserved_pre [OF q] by (metis (full_types))
    qed
  qed
  qed
qed

lemma Ingest_commits:
  assumes "Ingest E C c cmd s = (Inr res, s')"
  shows "ingest_tx C c c cmd (E\<lparr>tenant := c\<rparr>) s = Inr (res, s') \<and> IsPositive (ic_amount cmd)
    \<and> ic_source cmd \<noteq> '''' \<and> ic_corr cmd \<noteq> '''' \<and> c \<noteq> ''''"
  using assms by (auto simp: Ingest_def TenantFrom_def WithTenantTx_def split: if_splits sum.splits prod.splits)

lemma stored_ingest_back:
  assumes "money_or_unset (ir_applied r)" "money_or_unset (ir_excess r)"
  shows "decodeIngestResult (encodeIngestResult r) = Inr (r\<lparr>ir_replayed := False\<rparr>)"
  using assms Valid_nonempty
  by (auto simp: decodeIngestResult_def encodeIngestResult_def field_str_def field_num_def field_bool_def
      money_or_unset_def IsSet_def unset_def MustMoney_back Let_def)

lemma stored_reverse_back:
  assumes "money_or_unset (rr_applied q)"
  shows "decodeReverseApply (encodeReverseApply q) = Inr (no_reverse\<lparr>rr_applied := rr_applied q, rr_reopened := rr_reopened q\<rparr>)"
  using assms Valid_nonempty
  by (auto simp: decodeReverseApply_def encodeReverseApply_def field_str_def field_num_def field_bool_def
      money_or_unset_def IsSet_def unset_def MustMoney_back Let_def no_reverse_def)

lemma is_idem_tenant: "tenant E' = tenant E \<Longrightarrow> is_idem E' = is_idem E"
  by (simp add: is_idem_def fun_eq_iff)

lemma audit_tx_commits:
  "au_telco row = c \<Longrightarrow> c \<noteq> '''' \<Longrightarrow>
   snd (WithTenantTx E c (audit_tx row) s) = s\<lparr>next_id := Suc (next_id s), audit := audit s @ [row]\<rparr>"
  by (simp add: WithTenantTx_def audit_tx_def NewID_def Audit_Insert_def rls_check_def TenantFrom_def)

text \<open>What a committed ingest leaves on its idempotency record.\<close>

lemma ingest_claimed:
  assumes ok: "ingest_tx C c c cmd E s = Inr (res, s')" and cmd: "IsPositive (ic_amount cmd)"
    and cfg: "waterfall_ok C" and bok: "book_ok s"
  obtains rec where "Idempotency_Get E c ''recovery.ingest'' (ic_source cmd) s' = Inr rec"
    "i_hash rec = recoverySourceHash E c cmd"
    "Valid (currency (ic_amount cmd)) \<Longrightarrow> \<exists>r. decodeIngestResult (i_body rec) = Inr r \<and> r\<lparr>ir_replayed := True\<rparr> = res\<lparr>ir_replayed := True\<rparr>"
  using ok
proof (cases rule: ingest_tx_cases)
  case (replay rec r)
  from idem.put_dup [OF replay(1)] have "Idempotency_Get E c ''recovery.ingest'' (ic_source cmd) s' = Inr rec" by simp
  with replay show thesis by (intro that [of rec]) auto
next
  case (fresh rec s1 s2)
  from idem.put_new [OF fresh(1)] have g: "Idempotency_Get E c ''recovery.ingest'' (ic_source cmd) s1 = Inr (ingest_claim E c cmd)"
    by simp
  have "book_ok s1" using keeps_snd [OF same_book_keeps [OF same_book_PutIfAbsent [OF fresh(1)]] bok] by blast
  note cons = classify_conserves [OF fresh(2) cmd cfg this]
  then have "Idempotency_Get E c ''recovery.ingest'' (ic_source cmd) s2 = Inr (ingest_claim E c cmd)"
    using g by (auto simp: quiet_def conserved_def held_rows_def split: if_splits)
  with idem.resp_get [OF fresh(3)]
  have g': "Idempotency_Get E c ''recovery.ingest'' (ic_source cmd) s'
      = Inr ((ingest_claim E c cmd)\<lparr>i_status := 200, i_body := encodeIngestResult res\<rparr>)" by simp
  show thesis
  proof (rule that [OF g'])
    assume "Valid (currency (ic_amount cmd))"
    with cons have "money_or_unset (ir_applied res)" "money_or_unset (ir_excess res)"
      by (auto simp: conserved_def money_or_unset_def split: if_splits)
    from stored_ingest_back [OF this]
    show "\<exists>r. decodeIngestResult (i_body ((ingest_claim E c cmd)\<lparr>i_status := 200, i_body := encodeIngestResult res\<rparr>)) = Inr r
        \<and> r\<lparr>ir_replayed := True\<rparr> = res\<lparr>ir_replayed := True\<rparr>" by simp
  qed simp
qed

section \<open>Conservation, replay and divergence of ingest\<close>


definition sample_first :: "(err + IngestResult) \<times> db" where
  "sample_first = Ingest sample_env sample_cfg ''MTN_NG'' sample_cmd sample_db"

lemma sample_first_result:
  "fst sample_first = Inr \<lparr>ir_event = new_id sample_env ''rcv'' 0, ir_state = ''ALLOCATED'',
     ir_applied = \<lparr>amount = 500, currency = ''NGN''\<rparr>, ir_excess = \<lparr>amount = 100, currency = ''NGN''\<rparr>,
     ir_closed = True, ir_replayed = False\<rparr>"
  by code_simp

lemma sample_first_run:
  "Ingest sample_env sample_cfg ''MTN_NG'' sample_cmd sample_db = (Inr (projr (fst sample_first)), snd sample_first)"
  using sample_first_result by (cases sample_first) (simp add: sample_first_def)

lemma sample_currency: "Valid ''NGN''"
  by (simp add: Valid_def less_eq_char_def of_char_def)


text \<open>C7: a committed ingest replays (P0-003). After \<^verbatim>\<open>Ingest\<close> answered a command, the same command, at any
  later time and under any later configuration, gets the same answer marked as a replay and leaves
  the database exactly as it was.\<close>

theorem Ingest_replay:
  assumes "Ingest E C c cmd s = (Inr res, s')" and "Valid (currency (ic_amount cmd))"
    and "waterfall_ok C" and "book_ok s"
  shows "Ingest (E\<lparr>now := t, new_id := ids\<rparr>) C' c cmd s' = (Inr (res\<lparr>ir_replayed := True\<rparr>), s')"
proof -
  let ?E = "E\<lparr>tenant := c\<rparr>" and ?E' = "E\<lparr>now := t, new_id := ids, tenant := c\<rparr>"
  note cm = Ingest_commits [OF assms(1)]
  then obtain rec r where g: "Idempotency_Get ?E c ''recovery.ingest'' (ic_source cmd) s' = Inr rec"
    and h: "i_hash rec = recoverySourceHash ?E c cmd"
    and d: "decodeIngestResult (i_body rec) = Inr r" "r\<lparr>ir_replayed := True\<rparr> = res\<lparr>ir_replayed := True\<rparr>"
    using ingest_claimed [of C c cmd ?E s res s'] assms(2-4) by metis
  have g': "Idempotency_Get ?E' c ''recovery.ingest'' (ic_source cmd) s' = Inr rec"
    using g is_idem_tenant [of ?E' ?E] by (simp add: Idempotency_Get_def)
  have h': "i_hash rec = recoverySourceHash ?E' c cmd" using h by (simp add: recoverySourceHash_def)
  from idem.put_old [OF g', of "ingest_claim ?E' c cmd"]
  have "ingest_tx C' c c cmd ?E' s' = Inr (res\<lparr>ir_replayed := True\<rparr>, s')"
    using h' d by (simp add: ingest_tx_def)
  then show ?thesis using cm by (simp add: Ingest_def TenantFrom_def WithTenantTx_def)
qed

theorem Ingest_replay_witness:
  "Ingest (sample_env\<lparr>now := 5000, new_id := \<lambda>p n. p\<rparr>) sample_cfg ''MTN_NG'' sample_cmd (snd sample_first)
     = (Inr ((projr (fst sample_first))\<lparr>ir_replayed := True\<rparr>), snd sample_first)"
  using Ingest_replay [OF sample_first_run _ sample_waterfall sample_book] sample_currency
  by (simp add: sample_cmd_def)

text \<open>a source event id reused with another payload is refused (P0-003). After \<^verbatim>\<open>Ingest\<close> answered a
  command, another command with the same source event id but a different fingerprint gets
  \<^verbatim>\<open>ErrDivergentRecovery\<close>; all it changes is one audit row that names the event (and the
  counter of ids).\<close>

theorem Ingest_divergent:
  assumes "Ingest E C c cmd s = (Inr res, s')" and "waterfall_ok C" and "book_ok s"
    and "ic_source cmd' = ic_source cmd" and "ic_corr cmd' \<noteq> ''''" and "IsPositive (ic_amount cmd')"
    and "recoverySourceHash E c cmd' \<noteq> recoverySourceHash E c cmd"
  shows "\<exists>row. Ingest E C c cmd' s' = (Inl ErrDivergentRecovery, s'\<lparr>next_id := Suc (next_id s'), audit := audit s' @ [row]\<rparr>)
    \<and> au_telco row = c \<and> au_action row = ''recovery.ingest.divergent_duplicate'' \<and> au_target row = ic_source cmd"
proof -
  let ?E = "E\<lparr>tenant := c\<rparr>"
  have hash: "recoverySourceHash ?E c x = recoverySourceHash E c x" for x by (simp add: recoverySourceHash_def)
  note cm = Ingest_commits [OF assms(1)]
  then obtain rec where g: "Idempotency_Get ?E c ''recovery.ingest'' (ic_source cmd) s' = Inr rec"
    and h: "i_hash rec = recoverySourceHash ?E c cmd"
    using ingest_claimed [of C c cmd ?E s res s'] assms(2,3) by metis
  from idem.put_old [OF g, of "ingest_claim ?E c cmd'"] assms(4,7) h
  have "ingest_tx C c c cmd' ?E s' = Inl ErrDivergentRecovery" by (simp add: ingest_tx_def hash)
  then have run: "Ingest E C c cmd' s' = (Inl ErrDivergentRecovery, recordDivergentRecovery E c cmd' (recoverySourceHash E c cmd') s')"
    using cm assms(4-6) by (simp add: Ingest_def TenantFrom_def WithTenantTx_def)
  show ?thesis
    unfolding run recordDivergentRecovery_def
    by (subst audit_tx_commits, simp, use cm in simp, rule exI, intro conjI, rule refl) (use assms(4) in simp_all)
qed

text \<open>An environment whose fingerprints tell amounts apart.\<close>

definition amount_env :: env where
  "amount_env = sample_env\<lparr>marshal := (\<lambda>j. case jget ''amount_minor'' j of Some (JNum n) \<Rightarrow> FormatInt (sint n) | _ \<Rightarrow> '''')\<rparr>"

theorem Ingest_divergent_witness:
  "\<exists>res s'. Ingest amount_env sample_cfg ''MTN_NG'' sample_cmd sample_db = (Inr res, s')
   \<and> fst (Ingest amount_env sample_cfg ''MTN_NG'' (sample_cmd\<lparr>ic_amount := \<lparr>amount = 700, currency = ''NGN''\<rparr>\<rparr>) s')
       = Inl ErrDivergentRecovery"
proof -
  let ?c = "sample_cmd\<lparr>ic_amount := \<lparr>amount = 700, currency = ''NGN''\<rparr>\<rparr>"
  have "case Ingest amount_env sample_cfg ''MTN_NG'' sample_cmd sample_db of (Inr _, _) \<Rightarrow> True | _ \<Rightarrow> False"
    by code_simp
  then obtain res s' where run: "Ingest amount_env sample_cfg ''MTN_NG'' sample_cmd sample_db = (Inr res, s')"
    by (auto split: prod.splits sum.splits)
  have "recoverySourceHash amount_env ''MTN_NG'' ?c \<noteq> recoverySourceHash amount_env ''MTN_NG'' sample_cmd"
    by code_simp
  from Ingest_divergent [OF run sample_waterfall sample_book, of ?c, OF _ _ _ this] run
  show ?thesis by (auto simp: sample_cmd_def IsPositive_def IsSet_def)
qed


section \<open>Reversal\<close>

lemma same_book_sums:
  "same_book s s' \<Longrightarrow> owed s' = owed s \<and> net_applied E rid s' = net_applied E rid s \<and> adv_visible E s' = adv_visible E s"
  by (simp add: same_book_def owed_def net_applied_def receivable_rows_def adv_visible_def fun_eq_iff)

lemma GetBySource_InrD:
  "RecoveryEvents_GetBySource E src s = Inr ev \<Longrightarrow>
   \<exists>r \<in> set (events s). e_telco r = tenant E \<and> e_source r = src \<and> e_id r = RecoveryEventID ev \<and> e_state r = EvtState ev"
  by (auto simp: RecoveryEvents_GetBySource_def andThen_Inr_iff dest!: queryRow_InrD)

definition reversed_by :: "env \<Rightarrow> string \<Rightarrow> int \<Rightarrow> db \<Rightarrow> db \<Rightarrow> bool" where
  "reversed_by E rid v s s' \<longleftrightarrow>
     (\<exists>aid. adv_visible E s aid \<and> (\<forall>j. owed s' j = owed s j + (if j = aid then v else 0)))
     \<and> net_applied E rid s' = net_applied E rid s - v \<and> 0 \<le> net_applied E rid s'"

lemma applyReversal_exact:
  assumes "applyReversal E C c original amt corr rsid s = Inr (out, s')" "\<not> rr_replayed out"
    and "waterfall_ok C" "IsPositive amt" "book_ok s"
  shows "reversed_by E (RecoveryEventID original) (sint (amount amt)) s s' \<and> rr_applied out = amt"
proof -
  from assms(1) obtain telco replay s1 where cl: "reverse_claim E telco original amt rsid s = Inr (replay, s1)"
    and rest: "(case replay of Some rp \<Rightarrow> Inr (rp, s1) | None \<Rightarrow> reverse_fresh E C telco original amt corr rsid s1)
       = Inr (out, s')"
    unfolding applyReversal_def by (simp only: run_simps) blast
  have "replay = None"
    using cl rest assms(2) by (auto simp: reverse_claim_def Let_def andThen_Inr_iff split: if_splits)
  with rest have fr: "reverse_fresh E C telco original amt corr rsid s1 = Inr (out, s')" by simp
  note sb = reverse_claim_same [OF cl]
  have "book_ok s1" using keeps_snd [OF same_book_keeps [OF sb] assms(5)] by blast
  from reverse_fresh_exact [OF fr assms(3,4) this] show ?thesis
    using same_book_sums [OF sb, of E "RecoveryEventID original"] unfolding reversed_by_def by simp
qed

lemma reverse_route_exact:
  assumes ok: "reverse_route E C c telco cmd s = Inr (res, s')" "\<not> rr_parked res" "\<not> rr_replayed res"
    and "waterfall_ok C" "IsPositive (rc_amount cmd)" "book_ok s"
  shows "\<exists>ev \<in> set (events s). e_telco ev = tenant E \<and> e_source ev = rc_original cmd \<and> e_state ev = RecoveryAllocated
    \<and> reversed_by E (e_id ev) (sint (amount (rc_amount cmd))) s s' \<and> rr_applied res = rc_amount cmd"
proof -
  have "\<exists>original. RecoveryEvents_GetBySource E (rc_original cmd) s = Inr original \<and> EvtState original = RecoveryAllocated"
    using ok(1,2) by (cases "RecoveryEvents_GetBySource E (rc_original cmd) s")
      (auto simp: reverse_route_def andThen_Inr_iff split: if_splits)
  then obtain original where get: "RecoveryEvents_GetBySource E (rc_original cmd) s = Inr original"
    and st: "EvtState original = RecoveryAllocated" by blast
  with ok(1) obtain g s1 where
    g: "applyReversalGuarded E C c original (rc_amount cmd) (rc_corr cmd) (rc_reversal cmd) s = Inr (g, s1)"
    and rest: "(case g of
              Collision reason \<Rightarrow> park_collision E telco cmd reason s1
            | Applied out \<Rightarrow>
                (case FindParkedForOriginal E (rc_original cmd) s1 of
                   Inr parked \<Rightarrow> andThen (MarkApplied E (PendingReversalID parked) s1) (\<lambda>s. Inr (out, s))
                 | Inl e \<Rightarrow> if e = ErrNotFound then Inr (out, s1) else Inl e)) = Inr (res, s')"
    by (auto simp: reverse_route_def andThen_Inr_iff)
  have "g = Applied res \<and> same_book s1 s'"
  proof (cases g)
    case (Applied out)
    then show ?thesis
      using rest by (cases "FindParkedForOriginal E (rc_original cmd) s1")
        (auto simp: andThen_Inr_iff split: if_splits dest: same_book_MarkApplied)
  next
    case (Collision reason)
    with rest have "park_collision E telco cmd reason s1 = Inr (res, s')" by simp
    then have "rr_parked res" by (auto simp: park_collision_def andThen_Inr_iff)
    with ok(2) show ?thesis by blast
  qed
  then have ap: "g = Applied res" and sb: "same_book s1 s'" by auto
  from ap g have "applyReversal E C c original (rc_amount cmd) (rc_corr cmd) (rc_reversal cmd) s = Inr (res, s1)"
    by (auto simp: applyReversalGuarded_def split: sum.splits option.splits)
  from applyReversal_exact [OF this ok(3) assms(4-6)]
  have "reversed_by E (RecoveryEventID original) (sint (amount (rc_amount cmd))) s s' \<and> rr_applied res = rc_amount cmd"
    using same_book_sums [OF sb, of E "RecoveryEventID original"] by (simp add: reversed_by_def)
  with GetBySource_InrD [OF get] st show ?thesis by metis
qed

lemma Reverse_commits:
  assumes "Reverse E C c cmd s = (Inr res, s')"
  shows "reverse_tx C c cmd (E\<lparr>tenant := c\<rparr>) s = Inr (res, s') \<and> IsPositive (rc_amount cmd)
    \<and> rc_reversal cmd \<noteq> '''' \<and> rc_original cmd \<noteq> '''' \<and> rc_corr cmd \<noteq> '''' \<and> c \<noteq> ''''"
  using assms by (auto simp: Reverse_def TenantFrom_def WithTenantTx_def reverse_tx_def split: if_splits sum.splits prod.splits)

text \<open>C4: a reversal takes back exactly its amount, and never more than its event applied (RCV-REV-004).
  When \<^verbatim>\<open>Reverse\<close> answers that it applied a reversal for the first time, its original is an
  allocated event of the caller's tenant, one advance of that tenant owes exactly the reversal's
  amount more and every other advance owes what it owed, the event's net allocations are down by
  the same amount, and they are still not negative.\<close>

theorem Reverse_exact:
  assumes "Reverse E C c cmd s = (Inr res, s')" and "\<not> rr_parked res" and "\<not> rr_replayed res"
    and "waterfall_ok C" and "book_ok s"
  shows "rr_applied res = rc_amount cmd
    \<and> (\<exists>ev \<in> set (events s). e_telco ev = c \<and> e_source ev = rc_original cmd \<and> e_state ev = RecoveryAllocated
        \<and> reversed_by (E\<lparr>tenant := c\<rparr>) (e_id ev) (sint (amount (rc_amount cmd))) s s')"
proof -
  note cm = Reverse_commits [OF assms(1)]
  then have "s' = s \<and> rr_replayed res \<or> reverse_route (E\<lparr>tenant := c\<rparr>) C c c cmd s = Inr (res, s')"
    by (auto simp: reverse_tx_def andThen_Inr_iff TenantFrom_Inr Let_def split: sum.splits if_splits)
  with reverse_route_exact [OF _ assms(2-4) _ assms(5)] assms(3) cm show ?thesis by fastforce
qed

definition sample_reversed :: "(err + ReverseResult) \<times> db" where
  "sample_reversed = Reverse sample_env sample_cfg ''MTN_NG'' sample_rev (snd sample_first)"

lemma sample_reversed_result:
  "fst sample_reversed = Inr (no_reverse\<lparr>rr_applied := \<lparr>amount = 200, currency = ''NGN''\<rparr>, rr_reopened := True\<rparr>)"
  by code_simp

lemma sample_reversed_run:
  "Reverse sample_env sample_cfg ''MTN_NG'' sample_rev (snd sample_first) = (Inr (projr (fst sample_reversed)), snd sample_reversed)"
  using sample_reversed_result by (cases sample_reversed) (simp add: sample_reversed_def)

lemma sample_first_book: "book_ok (snd sample_first)"
  unfolding sample_first_def using keeps_snd [OF Ingest_keeps [OF sample_waterfall] sample_book] by blast

theorem Reverse_exact_witness:
  "\<exists>ev \<in> set (events (snd sample_first)). e_source ev = ''src_1''
     \<and> reversed_by (sample_env\<lparr>tenant := ''MTN_NG''\<rparr>) (e_id ev) 200 (snd sample_first) (snd sample_reversed)"
  using Reverse_exact [OF sample_reversed_run _ _ sample_waterfall sample_first_book]
  by (auto simp: sample_reversed_result sample_rev_def no_reverse_def)

end
