(* ===== verification/Collections.thy ===== *)
theory Collections
  imports RecoveryProps
begin

text \<open>
  Delinquency and write-off: \<^verbatim>\<open>usecase/collections/collections.go\<close> over
  \<^verbatim>\<open>repo/writeoffs.go\<close> and the dispute query of \<^verbatim>\<open>repo/portalcollections.go\<close>. Classification
  stamps buckets and moves no money; a write-off is requested by one actor, decided by another,
  and crystallises the loss in the transaction of its approval.
\<close>

section \<open>The write-off table\<close>

record WriteOff =
  wo_id :: string
  wo_telco :: string
  wo_adv :: string
  wo_principal :: money
  wo_fee :: money
  wo_reason :: string
  wo_by :: string
  wo_approver :: string
  wo_state :: string
  wo_requested :: int
  wo_decided :: "int option"
  wo_posted :: "int option"

text \<open>The CHECKs of \<^verbatim>\<open>write_offs\<close>: amounts, and a distinct actor behind every decision.\<close>

definition writeoff_checks :: "writeoff_row \<Rightarrow> bool" where
  "writeoff_checks r \<longleftrightarrow> 0 \<le> sint (w_prin r) \<and> 0 \<le> sint (w_fee r) \<and> 0 < sint (w_prin r) + sint (w_fee r)
     \<and> (w_state r \<in> {''APPROVED'', ''POSTED'', ''REJECTED''} \<longrightarrow> w_approver r \<noteq> None \<and> w_approver r \<noteq> Some (w_by r))"

definition one_live :: "writeoff_row list \<Rightarrow> bool" where
  "one_live rows \<longleftrightarrow> distinct (map w_adv (filter (\<lambda>r. w_state r \<noteq> ''REJECTED'') rows))"

definition put_writeoffs :: "writeoff_row list \<Rightarrow> db \<Rightarrow> err + db" where
  "put_writeoffs rows s =
     (if \<not> list_all (\<lambda>r. in_i64 (sint (w_prin r) + sint (w_fee r))) rows then Inl (Pg ''22003'' '''')
      else if \<not> list_all writeoff_checks rows then Inl (Pg ''23514'' ''write_offs_check'')
      else if \<not> distinct (map w_id rows) then Inl (Pg ''23505'' ''write_offs_pkey'')
      else if \<not> one_live rows then Inl (Pg ''23505'' ''write_offs_one_live_per_advance'')
      else Inr (s\<lparr>writeoffs := rows\<rparr>))"

text \<open>The trigger \<^verbatim>\<open>write_off_immutable\<close> on an updated row.\<close>

definition write_off_immutable :: "writeoff_row \<Rightarrow> writeoff_row \<Rightarrow> err + writeoff_row" where
  "write_off_immutable old new =
     (if w_state old \<in> {''POSTED'', ''REJECTED''} then Inl (Pg ''P0001'' ''write_offs: immutable'')
      else if (w_id new, w_telco new, w_adv new, w_prin new, w_fee new, w_cur new, w_reason new, w_by new)
            \<noteq> (w_id old, w_telco old, w_adv old, w_prin old, w_fee old, w_cur old, w_reason old, w_by old)
        then Inl (Pg ''P0001'' ''write_offs: identity'')
      else if w_approver old \<noteq> None \<and> w_approver new \<noteq> w_approver old then Inl (Pg ''P0001'' ''write_offs: approved_by'')
      else Inr new)"

definition writeoff_update :: "env \<Rightarrow> string \<Rightarrow> string \<Rightarrow> (writeoff_row \<Rightarrow> writeoff_row) \<Rightarrow> db \<Rightarrow> err + db" where
  "writeoff_update E wid frm f s =
     (let p = (\<lambda>r. w_telco r = tenant E \<and> w_id r = wid \<and> w_state r = frm) in
      andThen (update_rows p (\<lambda>r. write_off_immutable r (f r)) (writeoffs s)) (\<lambda>rows.
      andThen (put_writeoffs rows s) (\<lambda>s'.
      if filter p (writeoffs s) = [] then Inl ErrNotFound else Inr s')))"

definition WriteOffs_Insert :: "env \<Rightarrow> WriteOff \<Rightarrow> db \<Rightarrow> err + db" where
  "WriteOffs_Insert E w s =
     (case andThen (rls_check E (wo_telco w)) (\<lambda>_. put_writeoffs (writeoffs s @
        [\<lparr>w_id = wo_id w, w_telco = wo_telco w, w_adv = wo_adv w, w_prin = amount (wo_principal w),
          w_fee = amount (wo_fee w), w_cur = currency (wo_principal w), w_reason = wo_reason w, w_by = wo_by w,
          w_approver = None, w_state = ''REQUESTED'', w_requested = now E, w_decided = None, w_posted = None\<rparr>]) s) of
        Inr s' \<Rightarrow> Inr s'
      | Inl e \<Rightarrow> Inl (if e = Pg ''23505'' ''write_offs_one_live_per_advance'' then ErrWriteOffExists else e))"

definition WriteOffs_Get :: "env \<Rightarrow> string \<Rightarrow> db \<Rightarrow> err + WriteOff" where
  "WriteOffs_Get E wid s =
     andThen (queryRow (\<lambda>r. w_telco r = tenant E \<and> w_id r = wid) (writeoffs s)) (\<lambda>r.
     andThen (scanMoney (w_prin r) (w_cur r)) (\<lambda>prin.
     andThen (scanMoney (w_fee r) (w_cur r)) (\<lambda>fee.
     Inr \<lparr>wo_id = w_id r, wo_telco = w_telco r, wo_adv = w_adv r, wo_principal = prin, wo_fee = fee,
          wo_reason = w_reason r, wo_by = w_by r, wo_approver = (case w_approver r of None \<Rightarrow> '''' | Some x \<Rightarrow> x),
          wo_state = w_state r, wo_requested = w_requested r, wo_decided = w_decided r, wo_posted = w_posted r\<rparr>)))"

definition WriteOffs_Decide :: "env \<Rightarrow> string \<Rightarrow> string \<Rightarrow> string \<Rightarrow> db \<Rightarrow> err + db" where
  "WriteOffs_Decide E wid approver to s =
     (case writeoff_update E wid ''REQUESTED''
             (\<lambda>r. r\<lparr>w_state := to, w_approver := Some approver, w_decided := Some (now E)\<rparr>) s of
        Inr s' \<Rightarrow> Inr s'
      | Inl e \<Rightarrow> Inl (case e of Pg code _ \<Rightarrow> if code = ''23514'' then ErrSelfApproval else e | _ \<Rightarrow> e))"

definition MarkPosted :: "env \<Rightarrow> string \<Rightarrow> db \<Rightarrow> err + db" where
  "MarkPosted E wid s =
     writeoff_update E wid ''APPROVED'' (\<lambda>r. r\<lparr>w_state := ''POSTED'', w_posted := Some (now E)\<rparr>) s"

section \<open>Delinquency classification\<close>

record DelinquencyBucket =
  Code :: string
  MinDaysPastDue :: int

text \<open>The cast of a number of days to an integer rounds to the nearest, halves away from zero.\<close>

definition whole_days :: "int \<Rightarrow> int" where
  "whole_days d = (if 0 \<le> d then (2 * d + day) div (2 * day) else - ((2 * - d + day) div (2 * day)))"

definition days_past_due :: "int \<Rightarrow> int \<Rightarrow> int \<Rightarrow> int" where
  "days_past_due asOf activated grace = max 0 (whole_days (asOf - activated) - grace)"

definition bucket_for :: "DelinquencyBucket list \<Rightarrow> int \<Rightarrow> string option" where
  "bucket_for ladder dpd =
     (case sort_key (\<lambda>b. - MinDaysPastDue b) (filter (\<lambda>b. MinDaysPastDue b \<le> dpd) ladder) of
        [] \<Rightarrow> None | b # _ \<Rightarrow> Some (Code b))"

definition assigned_bucket :: "DelinquencyBucket list \<Rightarrow> int \<Rightarrow> int \<Rightarrow> advance_row \<Rightarrow> string option" where
  "assigned_bucket ladder grace asOf r =
     (case a_activated r of None \<Rightarrow> None | Some t \<Rightarrow> bucket_for ladder (days_past_due asOf t grace))"

definition ClassifyDelinquency ::
  "env \<Rightarrow> string \<Rightarrow> DelinquencyBucket list \<Rightarrow> int \<Rightarrow> int \<Rightarrow> db \<Rightarrow> err + nat \<times> db" where
  "ClassifyDelinquency E prog ladder grace asOf s =
     (let p = (\<lambda>r. a_telco r = tenant E \<and> a_prog r = prog \<and> a_state r \<in> {AdvActive, AdvPartiallyRecovered}
                 \<and> a_activated r \<noteq> None \<and> a_bucket r \<noteq> assigned_bucket ladder grace asOf r) in
      Inr (length (filter p (advances s)),
           s\<lparr>advances := upd_where p (\<lambda>r. r\<lparr>a_bucket := assigned_bucket ladder grace asOf r,
                                          a_bucket_asof := Some asOf\<rparr>) (advances s)\<rparr>))"

definition HasOpenDebtDisputeTx :: "env \<Rightarrow> string \<Rightarrow> string list \<Rightarrow> db \<Rightarrow> bool" where
  "HasOpenDebtDisputeTx E aid categories s \<longleftrightarrow>
     categories \<noteq> [] \<and> (\<exists>a \<in> set (advances s). \<exists>c \<in> set (complaints s).
        a_telco a = tenant E \<and> c_telco c = tenant E \<and> c_sub c = a_sub a \<and> a_id a = aid
        \<and> c_state c \<in> {''OPEN'', ''IN_REVIEW''} \<and> c_category c \<in> set categories)"

section \<open>The use case\<close>

text \<open>
  The active configuration per programme: the aging ladder with its grace days, the minimum
  bucket of the write-off policy, the dispute categories of the collections policy, each an error
  when it cannot be read.
\<close>

record collections_cfg =
  cc_ledger :: ledger_cfg
  cc_buckets :: "string \<Rightarrow> err + DelinquencyBucket list \<times> int"
  cc_min_bucket :: "string \<Rightarrow> err + string"
  cc_disputes :: "string \<Rightarrow> err + string list"

definition Classify :: "env \<Rightarrow> collections_cfg \<Rightarrow> string \<Rightarrow> string \<Rightarrow> db \<Rightarrow> (err + nat) \<times> db" where
  "Classify E C telco prog s =
     (case cc_buckets C prog of
        Inl e \<Rightarrow> (Inl e, s)
      | Inr (ladder, grace) \<Rightarrow>
          WithTenantTx E telco (\<lambda>E s. ClassifyDelinquency E prog ladder grace (now E) s) s)"

text \<open>The rank of a code on the ladder: the map is filled in order, so a later entry wins.\<close>

definition rank_of :: "DelinquencyBucket list \<Rightarrow> string \<Rightarrow> nat option" where
  "rank_of ladder = map_of (rev (zip (map Code ladder) [0..<length ladder]))"

definition checkBucketEligibility :: "env \<Rightarrow> collections_cfg \<Rightarrow> Advance \<Rightarrow> db \<Rightarrow> err + unit" where
  "checkBucketEligibility E C adv s =
     andThen (cc_min_bucket C (AdvProgrammeID adv)) (\<lambda>minb.
     andThen (cc_buckets C (AdvProgrammeID adv)) (\<lambda>(ladder, _).
     case rank_of ladder minb of
       None \<Rightarrow> Inl (Fmt ''min_bucket not on the delinquency ladder'')
     | Some minRank \<Rightarrow>
         andThen (queryRow (\<lambda>r. a_telco r = tenant E \<and> a_id r = AdvanceID adv) (advances s)) (\<lambda>r.
         case rank_of ladder (case a_bucket r of None \<Rightarrow> '''' | Some b \<Rightarrow> b) of
           None \<Rightarrow> Inl ErrNotEligible
         | Some curRank \<Rightarrow> if curRank < minRank then Inl ErrNotEligible else Inr ())))"

definition debtDisputeCategories :: "collections_cfg \<Rightarrow> string \<Rightarrow> string list" where
  "debtDisputeCategories C prog =
     (let strict = [''DISPUTED_ADVANCE'', ''DISPUTED_RECOVERY''] in
      case cc_disputes C prog of Inl _ \<Rightarrow> strict | Inr cs \<Rightarrow> if cs = [] then strict else cs)"

definition auditRow :: "env \<Rightarrow> string \<Rightarrow> string \<Rightarrow> string \<Rightarrow> string \<Rightarrow> string \<Rightarrow> db \<Rightarrow> err + unit \<times> db" where
  "auditRow E telco actor action aid reason s =
     (let (_, s) = NewID E ''aud'' s in
      andThen (Audit_Insert E \<lparr>au_telco = telco, au_actor = actor, au_action = action, au_ttype = ''advance'',
        au_target = aid, au_reason = reason\<rparr> s) (\<lambda>s. Inr ((), s)))"

definition outstandingSplit :: "env \<Rightarrow> Advance \<Rightarrow> db \<Rightarrow> err + money \<times> money" where
  "outstandingSplit E adv s =
     (let cur = currency (Outstanding adv) in
      andThen (SumByComponent E (AdvanceID adv) s) (\<lambda>recovered.
      andThen (recoveredOf cur recovered ComponentFee) (\<lambda>feeRec.
      andThen (Sub (Fee adv) feeRec) (\<lambda>fee0.
      andThen (if IsNegative fee0 then ZeroMoney cur else Inr fee0) (\<lambda>fee.
      andThen (Sub (Outstanding adv) fee) (\<lambda>principal. Inr (fee, principal)))))))"

definition request_tx :: "collections_cfg \<Rightarrow> string \<Rightarrow> string \<Rightarrow> string \<Rightarrow> string \<Rightarrow> env \<Rightarrow> db \<Rightarrow> err + WriteOff \<times> db" where
  "request_tx C telco aid actor reason E s =
     andThen (Advances_Get E aid s) (\<lambda>adv.
     if State adv \<noteq> AdvActive \<and> State adv \<noteq> AdvPartiallyRecovered then Inl ErrNotWritable
     else
     andThen (checkBucketEligibility E C adv s) (\<lambda>_.
     andThen (outstandingSplit E adv s) (\<lambda>(fee, prin).
     let (wid, s) = NewID E ''wof'' s;
         out = \<lparr>wo_id = wid, wo_telco = telco, wo_adv = aid, wo_principal = prin, wo_fee = fee, wo_reason = reason,
                wo_by = actor, wo_approver = '''', wo_state = ''REQUESTED'', wo_requested = 0, wo_decided = None,
                wo_posted = None\<rparr> in
     andThen (WriteOffs_Insert E out s) (\<lambda>s.
     andThen (auditRow E telco actor ''writeoff.requested'' aid reason s) (\<lambda>(_, s).
     Inr (out, s))))))"

definition RequestWriteOff ::
  "env \<Rightarrow> collections_cfg \<Rightarrow> string \<Rightarrow> string \<Rightarrow> string \<Rightarrow> string \<Rightarrow> db \<Rightarrow> (err + WriteOff) \<times> db" where
  "RequestWriteOff E C telco aid actor reason s =
     (if actor = '''' \<or> reason = '''' then (Inl (Fmt ''actor and reason are required''), s)
      else WithTenantTx E telco (request_tx C telco aid actor reason) s)"

text \<open>The loss crystallises: advance, pool, journal, evidence.\<close>

definition crystallise ::
  "env \<Rightarrow> collections_cfg \<Rightarrow> string \<Rightarrow> WriteOff \<Rightarrow> string \<Rightarrow> string \<Rightarrow> Advance \<Rightarrow> db \<Rightarrow> err + unit \<times> db" where
  "crystallise E C telco wo approver corr adv s =
     andThen (ZeroMoney (currency (Outstanding adv))) (\<lambda>zero.
     andThen (ApplyRecovery E (AdvanceID adv) (Version adv) (State adv) AdvWrittenOff zero s) (\<lambda>s.
     andThen (ReduceUtilisation E (FundingPoolID adv) (Outstanding adv) s) (\<lambda>s.
     andThen (outstandingSplit E adv s) (\<lambda>(feeRem, _).
     let unearnedRev = (if FeeRecognition adv = FeeRecognitionDeferred then feeRem
                        else zero_of (currency (Outstanding adv))) in
     andThen (PostEvent E (cc_ledger C)
        (journal_for (wo_id wo @ ''/posted'') EventWriteOff telco (AdvProgrammeID adv) (AdvanceID adv) corr)
        [(''AMOUNT'', Outstanding adv), (''FEE_UNEARNED_REVERSED'', unearnedRev)] s) (\<lambda>(_, s).
     andThen (MarkPosted E (wo_id wo) s) (\<lambda>s.
     auditRow E telco approver ''writeoff.approved'' (wo_adv wo) (wo_reason wo) s))))))"

definition approve_tx ::
  "collections_cfg \<Rightarrow> string \<Rightarrow> string \<Rightarrow> string \<Rightarrow> string \<Rightarrow> bool \<Rightarrow> env \<Rightarrow> db \<Rightarrow> err + unit \<times> db" where
  "approve_tx C telco wid approver corr override E s =
     andThen (WriteOffs_Decide E wid approver ''APPROVED'' s) (\<lambda>s.
     andThen (WriteOffs_Get E wid s) (\<lambda>wo.
     andThen (Advances_Get E (wo_adv wo) s) (\<lambda>adv.
     if State adv \<noteq> AdvActive \<and> State adv \<noteq> AdvPartiallyRecovered then Inl ErrNotWritable
     else if \<not> override \<and> HasOpenDebtDisputeTx E (AdvanceID adv) (debtDisputeCategories C (AdvProgrammeID adv)) s
       then Inl ErrDisputeBlocked
     else crystallise E C telco wo approver corr adv s)))"

definition ApproveWriteOff ::
  "env \<Rightarrow> collections_cfg \<Rightarrow> string \<Rightarrow> string \<Rightarrow> string \<Rightarrow> string \<Rightarrow> bool \<Rightarrow> db \<Rightarrow> (err + unit) \<times> db" where
  "ApproveWriteOff E C telco wid approver corr override s =
     (if approver = '''' \<or> corr = '''' then (Inl (Fmt ''approver and correlation id are required''), s)
      else WithTenantTx E telco (approve_tx C telco wid approver corr override) s)"

definition reject_tx :: "string \<Rightarrow> string \<Rightarrow> string \<Rightarrow> string \<Rightarrow> env \<Rightarrow> db \<Rightarrow> err + unit \<times> db" where
  "reject_tx telco wid approver reason E s =
     andThen (WriteOffs_Decide E wid approver ''REJECTED'' s) (\<lambda>s.
     andThen (WriteOffs_Get E wid s) (\<lambda>wo.
     auditRow E telco approver ''writeoff.rejected'' (wo_adv wo) reason s))"

definition RejectWriteOff :: "env \<Rightarrow> string \<Rightarrow> string \<Rightarrow> string \<Rightarrow> string \<Rightarrow> db \<Rightarrow> (err + unit) \<times> db" where
  "RejectWriteOff E telco wid approver reason s = WithTenantTx E telco (reject_tx telco wid approver reason) s"


section \<open>What the statements do\<close>

lemma put_writeoffs_Inr [res_simps]:
  "put_writeoffs rows s = Inr s' \<longleftrightarrow> list_all (\<lambda>r. in_i64 (sint (w_prin r) + sint (w_fee r))) rows
     \<and> list_all writeoff_checks rows \<and> distinct (map w_id rows) \<and> one_live rows \<and> s' = s\<lparr>writeoffs := rows\<rparr>"
  by (auto simp: put_writeoffs_def)

abbreviation wo_at :: "env \<Rightarrow> string \<Rightarrow> string \<Rightarrow> writeoff_row \<Rightarrow> bool" where
  "wo_at E wid st r \<equiv> w_telco r = tenant E \<and> w_id r = wid \<and> w_state r = st"

text \<open>The well-formedness of the table that the schema guarantees.\<close>

definition writeoffs_ok :: "db \<Rightarrow> bool" where
  "writeoffs_ok s \<longleftrightarrow> list_all writeoff_checks (writeoffs s) \<and> distinct (map w_id (writeoffs s)) \<and> one_live (writeoffs s)"

lemma writeoff_update_Inr:
  assumes "writeoff_update E wid frm f s = Inr s'"
  shows "s' = s\<lparr>writeoffs := upd_where (wo_at E wid frm) f (writeoffs s)\<rparr> \<and> writeoffs_ok s'
    \<and> (\<exists>r \<in> set (writeoffs s). wo_at E wid frm r)"
proof -
  let ?g = "\<lambda>r. write_off_immutable r (f r)"
  from assms have ok: "\<forall>r \<in> set (writeoffs s). wo_at E wid frm r \<longrightarrow> ?g r \<in> range Inr"
    and put: "put_writeoffs (upd_where (wo_at E wid frm) (projr \<circ> ?g) (writeoffs s)) s = Inr s'"
    and ex: "\<exists>r \<in> set (writeoffs s). wo_at E wid frm r"
    by (auto simp: writeoff_update_def Let_def andThen_Inr_iff update_rows_Inr filter_empty_conv split: if_splits)
  have "?g r \<in> range Inr \<Longrightarrow> projr (?g r) = f r" for r by (auto simp: write_off_immutable_def split: if_splits)
  with ok have "upd_where (wo_at E wid frm) (projr \<circ> ?g) (writeoffs s) = upd_where (wo_at E wid frm) f (writeoffs s)"
    by (intro upd_where_cong_on) auto
  with put ex show ?thesis by (auto simp: put_writeoffs_Inr writeoffs_ok_def)
qed

lemma Decide_Inr:
  assumes "WriteOffs_Decide E wid approver to s = Inr s'"
  shows "s' = s\<lparr>writeoffs := upd_where (wo_at E wid ''REQUESTED'')
      (\<lambda>r. r\<lparr>w_state := to, w_approver := Some approver, w_decided := Some (now E)\<rparr>) (writeoffs s)\<rparr> \<and> writeoffs_ok s'
    \<and> (\<exists>r \<in> set (writeoffs s). wo_at E wid ''REQUESTED'' r)"
  using assms writeoff_update_Inr by (auto simp: WriteOffs_Decide_def split: sum.splits)

lemma WriteOffs_Insert_Inr:
  assumes "WriteOffs_Insert E w s = Inr s'"
  shows "wo_telco w = tenant E \<and> writeoffs_ok s' \<and> s' = s\<lparr>writeoffs := writeoffs s'\<rparr>
    \<and> (\<exists>r. writeoffs s' = writeoffs s @ [r] \<and> w_id r = wo_id w \<and> w_adv r = wo_adv w \<and> w_state r = ''REQUESTED''
        \<and> w_by r = wo_by w \<and> w_prin r = amount (wo_principal w) \<and> w_fee r = amount (wo_fee w) \<and> writeoff_checks r)"
  using assms by (auto simp: WriteOffs_Insert_def andThen_Inr_iff rls_check_Inr put_writeoffs_Inr writeoffs_ok_def split: sum.splits)

lemma auditRow_Inr:
  "auditRow E telco actor action aid reason s = Inr (u, s') \<Longrightarrow> s' = s\<lparr>next_id := Suc (next_id s), audit := audit s'\<rparr>"
  by (auto simp: auditRow_def NewID_def andThen_Inr_iff Audit_Insert_Inr)

lemma auditRow_same [book_frame]: "auditRow E telco actor action aid reason s = Inr (u, s') \<Longrightarrow> same_book s s'"
  by (auto simp: auditRow_def NewID_def andThen_Inr_iff Audit_Insert_Inr same_book_def schema_ok_def)

lemma Insert_same [book_frame]: "WriteOffs_Insert E w s = Inr s' \<Longrightarrow> same_book s s'"
  by (auto simp: WriteOffs_Insert_def andThen_Inr_iff put_writeoffs_Inr same_book_def schema_ok_def split: sum.splits)

lemma Decide_same [book_frame]: "WriteOffs_Decide E wid a to s = Inr s' \<Longrightarrow> same_book s s'"
  using Decide_Inr [of E wid a to s s'] by (auto simp: same_book_def schema_ok_def)

section \<open>Four eyes\<close>

definition writeoff_maker :: "env \<Rightarrow> string \<Rightarrow> db \<Rightarrow> string option" where
  "writeoff_maker E wid s = map_option w_by (List.find (wo_at E wid ''REQUESTED'') (writeoffs s))"

interpretation wo: four_eyes WriteOffs_Decide writeoff_maker "{''APPROVED'', ''REJECTED''}"
proof
  fix E i a to s s'
  assume dec: "WriteOffs_Decide E i a to s = Inr s'" and to: "to \<in> {''APPROVED'', ''REJECTED''}"
  note eff = Decide_Inr [OF dec]
  then obtain r where r: "List.find (wo_at E i ''REQUESTED'') (writeoffs s) = Some r" "r \<in> set (writeoffs s)" "wo_at E i ''REQUESTED'' r"
    using find_matching [of "wo_at E i ''REQUESTED''" "writeoffs s"] by (auto simp: find_None_iff)
  have "r\<lparr>w_state := to, w_approver := Some a, w_decided := Some (now E)\<rparr> \<in> set (writeoffs s')"
    using eff r by (auto simp: set_upd_where)
  then have "writeoff_checks (r\<lparr>w_state := to, w_approver := Some a, w_decided := Some (now E)\<rparr>)"
    using eff by (simp add: writeoffs_ok_def list_all_iff)
  with to r show "\<exists>m. writeoff_maker E i s = Some m \<and> m \<noteq> a"
    by (auto simp: writeoff_checks_def writeoff_maker_def)
  show "writeoff_maker E i s' = None"
    using eff to by (auto simp: writeoff_maker_def find_None_iff set_upd_where)
qed

section \<open>Every operation keeps the table well formed\<close>

lemma crystallise_steps:
  assumes "crystallise E C telco wo approver corr adv s = Inr (u, s')"
  obtains zero s1 s2 split unearned res s3 s4 where "ZeroMoney (currency (Outstanding adv)) = Inr zero"
    "ApplyRecovery E (AdvanceID adv) (Version adv) (State adv) AdvWrittenOff zero s = Inr s1"
    "ReduceUtilisation E (FundingPoolID adv) (Outstanding adv) s1 = Inr s2"
    "outstandingSplit E adv s2 = Inr split"
    "PostEvent E (cc_ledger C)
        (journal_for (wo_id wo @ ''/posted'') EventWriteOff telco (AdvProgrammeID adv) (AdvanceID adv) corr)
        [(''AMOUNT'', Outstanding adv), (''FEE_UNEARNED_REVERSED'', unearned)] s2 = Inr (res, s3)"
    "MarkPosted E (wo_id wo) s3 = Inr s4"
    "auditRow E telco approver ''writeoff.approved'' (wo_adv wo) (wo_reason wo) s4 = Inr (u, s')"
  using assms [unfolded crystallise_def run_simps] by (elim exE conjE) (rule that, (assumption | simp)+)

lemma PostEvent_writeoffs:
  assumes "PostEvent E C j b s = Inr (r, s')"
  shows "writeoffs s' = writeoffs s"
  using arg_cong [OF PostEvent_frame [OF assms], of writeoffs] by simp

lemma MarkPosted_Inr:
  assumes "MarkPosted E wid s = Inr s'"
  shows "s' = s\<lparr>writeoffs := upd_where (wo_at E wid ''APPROVED'')
      (\<lambda>r. r\<lparr>w_state := ''POSTED'', w_posted := Some (now E)\<rparr>) (writeoffs s)\<rparr> \<and> writeoffs_ok s'"
  using writeoff_update_Inr [OF assms [unfolded MarkPosted_def]] by blast

lemma WriteOffs_Get_InrD:
  "WriteOffs_Get E wid s = Inr wo \<Longrightarrow> \<exists>r \<in> set (writeoffs s). w_telco r = tenant E \<and> w_id r = wid
     \<and> wo_id wo = wid \<and> wo_adv wo = w_adv r \<and> wo_by wo = w_by r"
  by (auto simp: WriteOffs_Get_def andThen_Inr_iff dest!: queryRow_InrD)

lemma approve_tx_steps:
  assumes "approve_tx C telco wid approver corr override E s = Inr (u, s')"
  obtains s1 wo adv where "WriteOffs_Decide E wid approver ''APPROVED'' s = Inr s1"
    "WriteOffs_Get E wid s1 = Inr wo" "Advances_Get E (wo_adv wo) s1 = Inr adv"
    "State adv \<in> {AdvActive, AdvPartiallyRecovered}"
    "override \<or> \<not> HasOpenDebtDisputeTx E (AdvanceID adv) (debtDisputeCategories C (AdvProgrammeID adv)) s1"
    "crystallise E C telco wo approver corr adv s1 = Inr (u, s')"
  using assms [unfolded approve_tx_def run_simps] by (elim exE conjE) (rule that, (assumption | blast)+)

lemma owed_one:
  assumes "distinct (map a_id (advances s))" "r \<in> set (advances s)"
  shows "owed s (a_id r) = sint (a_out r)"
proof -
  have none: "a \<notin> a_id ` set xs \<Longrightarrow> (\<Sum>q\<leftarrow>xs. if a_id q = a then sint (a_out q) else 0) = 0" for a xs
    by (induction xs) auto
  have "distinct (map a_id xs) \<Longrightarrow> r \<in> set xs \<Longrightarrow>
      (\<Sum>q\<leftarrow>xs. if a_id q = a_id r then sint (a_out q) else 0) = sint (a_out r)" for xs
    by (induction xs) (auto simp: none)
  with assms show ?thesis by (simp add: owed_def)
qed

text \<open>The tables of the book after a crystallised loss.\<close>

lemma crystallise_exact:
  assumes ok: "crystallise E C telco wo approver corr (advance_of r) s = Inr (u, s')"
    and r: "r \<in> set (advances s)" "a_telco r = tenant E" "a_state r \<in> {AdvActive, AdvPartiallyRecovered}"
    and bok: "book_ok s"
  shows "book_ok s' \<and> allocs s' = allocs s
    \<and> (\<forall>aid. owed s' aid = owed s aid - (if aid = a_id r then sint (a_out r) else 0))
    \<and> writeoffs s' = upd_where (wo_at E (wo_id wo) ''APPROVED'')
        (\<lambda>r. r\<lparr>w_state := ''POSTED'', w_posted := Some (now E)\<rparr>) (writeoffs s)"
  using ok
proof (rule crystallise_steps)
  fix zero s1 s2 split unearned res s3 s4
  assume z: "ZeroMoney (currency (Outstanding (advance_of r))) = Inr zero"
    and app: "ApplyRecovery E (AdvanceID (advance_of r)) (Version (advance_of r)) (State (advance_of r)) AdvWrittenOff zero s = Inr s1"
    and red: "ReduceUtilisation E (FundingPoolID (advance_of r)) (Outstanding (advance_of r)) s1 = Inr s2"
    and post: "PostEvent E (cc_ledger C)
        (journal_for (wo_id wo @ ''/posted'') EventWriteOff telco (AdvProgrammeID (advance_of r)) (AdvanceID (advance_of r)) corr)
        [(''AMOUNT'', Outstanding (advance_of r)), (''FEE_UNEARNED_REVERSED'', unearned)] s2 = Inr (res, s3)"
    and mark: "MarkPosted E (wo_id wo) s3 = Inr s4"
    and aud: "auditRow E telco approver ''writeoff.approved'' (wo_adv wo) (wo_reason wo) s4 = Inr (u, s')"
  have out: "sint (amount zero) = sint (a_out r) - sint (amount (Outstanding (advance_of r)))"
    using z by (auto simp: ZeroMoney_def NewMoney_def split: if_splits)
  have k: "funded s2 \<and> allocs s2 = allocs s \<and> (schema_ok s \<longrightarrow> schema_ok s2)
      \<and> (\<forall>aid. owed s2 aid = owed s aid - (if aid = a_id r then sint (a_out r) else 0))"
    using ApplyRecovery_reduce [OF app [unfolded advance_of_simps] red [unfolded advance_of_simps] out r _ ]
      bok by (simp add: book_ok_def)
  have "same_book s3 s4" using MarkPosted_Inr [OF mark] by (auto simp: same_book_def schema_ok_def)
  moreover have "same_book s4 s'" using auditRow_same [OF aud] .
  ultimately have same: "same_book s2 s'" using same_book_PostEvent [OF post] same_book_trans by blast
  have "writeoffs s2 = writeoffs s"
    using app reduce.tables [OF red] by (auto simp: ApplyRecovery_def adv_update_Inr split: if_splits)
  moreover have "writeoffs s' = writeoffs s4" using arg_cong [OF auditRow_Inr [OF aud], of writeoffs] by simp
  ultimately have "writeoffs s' = upd_where (wo_at E (wo_id wo) ''APPROVED'')
        (\<lambda>r. r\<lparr>w_state := ''POSTED'', w_posted := Some (now E)\<rparr>) (writeoffs s)"
    using MarkPosted_Inr [OF mark] PostEvent_writeoffs [OF post] by simp
  with k same bok funded_frame [of s' s2] show ?thesis by (auto simp: same_book_def book_ok_def owed_def)
qed


section \<open>Write-off properties\<close>

definition sample_collections :: collections_cfg where
  "sample_collections = \<lparr>cc_ledger = sample_ledger, cc_buckets = (\<lambda>_. Inr ([\<lparr>Code = ''B0'', MinDaysPastDue = 0\<rparr>,
     \<lparr>Code = ''B30'', MinDaysPastDue = 30\<rparr>, \<lparr>Code = ''B90'', MinDaysPastDue = 90\<rparr>], 3)),
     cc_min_bucket = (\<lambda>_. Inr ''B30''), cc_disputes = (\<lambda>_. Inl ErrNotFound)\<rparr>"

definition overdue_db :: db where
  "overdue_db = sample_db\<lparr>advances := [sample_advance\<lparr>a_bucket := Some ''B90''\<rparr>]\<rparr>"

definition requested_db :: db where
  "requested_db = snd (RequestWriteOff sample_env sample_collections ''MTN_NG'' ''adv_1'' ''maker'' ''gone'' overdue_db)"

lemma overdue_book: "book_ok overdue_db"
  by (simp add: overdue_db_def book_ok_def funded_def schema_ok_def sample_db_def sample_advance_def empty_db_def utilised_of_def
      reserved_of_def lent_def held_def lent_state_def held_state_def)

lemma request_same: "RequestWriteOff E C telco aid actor reason s = (Inr w, s') \<Longrightarrow> same_book s s'"
proof -
  assume "RequestWriteOff E C telco aid actor reason s = (Inr w, s')"
  then have "request_tx C telco aid actor reason (E\<lparr>tenant := telco\<rparr>) s = Inr (w, s')"
    by (simp add: RequestWriteOff_def WithTenantTx_Inr split: if_splits)
  then obtain wid s1 w0 s2 u where id: "NewID (E\<lparr>tenant := telco\<rparr>) ''wof'' s = (wid, s1)"
    and ins: "WriteOffs_Insert (E\<lparr>tenant := telco\<rparr>) w0 s1 = Inr s2"
    and aud: "auditRow (E\<lparr>tenant := telco\<rparr>) telco actor ''writeoff.requested'' aid reason s2 = Inr (u, s')"
    unfolding request_tx_def run_simps case_pair_Inr by blast
  from same_book_NewID [OF id] Insert_same [OF ins] auditRow_same [OF aud] show ?thesis by (blast intro: same_book_trans)
qed




text \<open>write-off decisions take four eyes and are taken once. Whoever approves or rejects a write-off,
  it was pending and requested by somebody else, and afterwards nobody can approve or reject it
  again; the maker's own approval or rejection is refused and rolls back.\<close>

theorem writeoff_four_eyes:
  "(case ApproveWriteOff E C telco wid actor corr override s of
      (Inl e, s') \<Rightarrow> s' = s
    | (Inr u, s') \<Rightarrow> (\<exists>m. writeoff_maker (E\<lparr>tenant := telco\<rparr>) wid s = Some m \<and> m \<noteq> actor))
   \<and> (case RejectWriteOff E telco wid actor reason s of
      (Inl e, s') \<Rightarrow> s' = s
    | (Inr u, s') \<Rightarrow> (\<exists>m. writeoff_maker (E\<lparr>tenant := telco\<rparr>) wid s = Some m \<and> m \<noteq> actor)
        \<and> fst (RejectWriteOff E telco wid other reason' s') \<notin> range Inr
        \<and> fst (ApproveWriteOff E C telco wid other corr' override' s') \<notin> range Inr)"
proof
  let ?E = "E\<lparr>tenant := telco\<rparr>"
  show "case ApproveWriteOff E C telco wid actor corr override s of
      (Inl e, s') \<Rightarrow> s' = s
    | (Inr u, s') \<Rightarrow> (\<exists>m. writeoff_maker ?E wid s = Some m \<and> m \<noteq> actor)"
  proof (cases "ApproveWriteOff E C telco wid actor corr override s")
    case (Pair r s')
    show ?thesis
    proof (cases r)
      case (Inl e)
      with Pair show ?thesis by (auto simp: ApproveWriteOff_def split: if_splits dest: WithTenantTx_error)
    next
      case (Inr u)
      with Pair have "approve_tx C telco wid actor corr override ?E s = Inr (u, s')"
        by (simp add: ApproveWriteOff_def WithTenantTx_Inr split: if_splits)
      then obtain s1 where "WriteOffs_Decide ?E wid actor ''APPROVED'' s = Inr s1" by (rule approve_tx_steps)
      with wo.distinct_actor Inr Pair show ?thesis by simp
    qed
  qed
  show "case RejectWriteOff E telco wid actor reason s of
      (Inl e, s') \<Rightarrow> s' = s
    | (Inr u, s') \<Rightarrow> (\<exists>m. writeoff_maker ?E wid s = Some m \<and> m \<noteq> actor)
        \<and> fst (RejectWriteOff E telco wid other reason' s') \<notin> range Inr
        \<and> fst (ApproveWriteOff E C telco wid other corr' override' s') \<notin> range Inr"
  proof (cases "RejectWriteOff E telco wid actor reason s")
    case (Pair r s')
    show ?thesis
    proof (cases r)
      case (Inl e)
      with Pair show ?thesis by (auto simp: RejectWriteOff_def dest: WithTenantTx_error)
    next
      case (Inr u)
      with Pair have "reject_tx telco wid actor reason ?E s = Inr (u, s')" by (simp add: RejectWriteOff_def WithTenantTx_Inr)
      then obtain s1 and wo :: WriteOff where dec: "WriteOffs_Decide ?E wid actor ''REJECTED'' s = Inr s1"
        and aud: "auditRow ?E telco actor ''writeoff.rejected'' (wo_adv wo) reason s1 = Inr (u, s')"
        unfolding reject_tx_def run_simps by blast
      have "writeoffs s' = writeoffs s1" using arg_cong [OF auditRow_Inr [OF aud], of writeoffs] by simp
      with wo.settled [OF dec] have none: "writeoff_maker ?E wid s' = None" by (simp add: writeoff_maker_def)
      have no: "WriteOffs_Decide ?E wid other to s' \<noteq> Inr t" if "to \<in> {''APPROVED'', ''REJECTED''}" for to t
        using wo.distinct_actor [of ?E wid other to s' t] that none by auto
      have "fst (RejectWriteOff E telco wid other reason' s') \<notin> range Inr"
        using no by (auto simp: RejectWriteOff_def WithTenantTx_def reject_tx_def TenantFrom_def andThen_Inr_iff
            split: sum.splits if_splits)
      moreover have "fst (ApproveWriteOff E C telco wid other corr' override' s') \<notin> range Inr"
        using no by (auto simp: ApproveWriteOff_def WithTenantTx_def TenantFrom_def split: sum.splits if_splits
            elim!: approve_tx_steps)
      ultimately show ?thesis using wo.distinct_actor [OF dec] Inr Pair by simp
    qed
  qed
qed


text \<open>no loss is crystallised over an open debt dispute. Without an authorised override,
  \<^verbatim>\<open>ApproveWriteOff\<close> on a write-off whose subscriber has an open or in-review complaint in one of the
  programme's debt-dispute categories fails and changes nothing, and a missing or empty policy
  leaves the strict categories in force.\<close>

theorem ApproveWriteOff_disputed:
  assumes "w \<in> set (writeoffs s)" "w_id w = wid" "distinct (map w_id (writeoffs s))"
    and "a \<in> set (advances s)" "a_id a = w_adv w" "distinct (map a_id (advances s))"
    and "c \<in> set (complaints s)" "c_telco c = telco" "c_sub c = a_sub a" "c_state c \<in> {''OPEN'', ''IN_REVIEW''}"
    and "c_category c \<in> set (debtDisputeCategories C (a_prog a))"
  shows "\<exists>e. ApproveWriteOff E C telco wid approver corr False s = (Inl e, s)"
proof (rule ccontr)
  let ?E = "E\<lparr>tenant := telco\<rparr>"
  assume no: "\<nexists>e. ApproveWriteOff E C telco wid approver corr False s = (Inl e, s)"
  obtain r s' where run: "ApproveWriteOff E C telco wid approver corr False s = (r, s')"
    by (cases "ApproveWriteOff E C telco wid approver corr False s")
  with no obtain u where "r = Inr u"
    by (cases r) (auto simp: ApproveWriteOff_def split: if_splits dest: WithTenantTx_error)
  with run have "approve_tx C telco wid approver corr False ?E s = Inr (u, s')"
    by (simp add: ApproveWriteOff_def WithTenantTx_Inr split: if_splits)
  then obtain s1 wo adv where dec: "WriteOffs_Decide ?E wid approver ''APPROVED'' s = Inr s1"
    and get: "WriteOffs_Get ?E wid s1 = Inr wo" and adv: "Advances_Get ?E (wo_adv wo) s1 = Inr adv"
    and clear: "False \<or> \<not> HasOpenDebtDisputeTx ?E (AdvanceID adv) (debtDisputeCategories C (AdvProgrammeID adv)) s1"
    by (rule approve_tx_steps)
  note eff = Decide_Inr [OF dec]
  have tabs: "advances s1 = advances s" "complaints s1 = complaints s"
    using arg_cong [OF conjunct1 [OF eff], of advances] arg_cong [OF conjunct1 [OF eff], of complaints] by simp_all
  from WriteOffs_Get_InrD [OF get] obtain q where q: "q \<in> set (writeoffs s1)" "w_id q = wid" "wo_adv wo = w_adv q" by blast
  have "writeoffs s1 = upd_where (wo_at ?E wid ''REQUESTED'')
      (\<lambda>r. r\<lparr>w_state := ''APPROVED'', w_approver := Some approver, w_decided := Some (now ?E)\<rparr>) (writeoffs s)"
    using arg_cong [OF conjunct1 [OF eff], of writeoffs] by simp
  then have "map (\<lambda>r. (w_id r, w_adv r)) (writeoffs s1) = map (\<lambda>r. (w_id r, w_adv r)) (writeoffs s)"
    by (simp add: map_upd_where_key)
  from arg_cong [OF this, of set] q(1) have "(w_id q, w_adv q) \<in> (\<lambda>r. (w_id r, w_adv r)) ` set (writeoffs s)" by auto
  then obtain q0 where q0: "q0 \<in> set (writeoffs s)" "w_id q0 = wid" "w_adv q0 = w_adv q" using q(2) by auto
  have "q0 = w" using distinct_key_unique [OF assms(3) q0(1) assms(1)] q0(2) assms(2) by simp
  with q q0 have adv_id: "wo_adv wo = w_adv w" by simp
  from Advances_Get_InrD [OF adv] obtain r where r: "r \<in> set (advances s1)" "a_telco r = telco" "a_id r = wo_adv wo" "adv = advance_of r"
    by auto
  have "r = a" using distinct_key_unique [OF assms(6), of r a] r adv_id assms(4,5) tabs by simp
  then have "HasOpenDebtDisputeTx ?E (AdvanceID adv) (debtDisputeCategories C (AdvProgrammeID adv)) s1"
    unfolding HasOpenDebtDisputeTx_def tabs using r assms(4,7-11)
    by (intro conjI bexI [of _ a] bexI [of _ c]) auto
  with clear show False by simp
qed


definition disputed_db :: db where
  "disputed_db = requested_db\<lparr>complaints := [\<lparr>c_telco = ''MTN_NG'', c_sub = ''sub_1'', c_category = ''DISPUTED_ADVANCE'',
     c_state = ''OPEN''\<rparr>]\<rparr>"

theorem ApproveWriteOff_disputed_witness:
  "\<exists>e. ApproveWriteOff sample_env sample_collections ''MTN_NG'' ''wof_0'' ''checker'' ''cor_1'' False disputed_db = (Inl e, disputed_db)"
proof -
  have w: "map w_id (writeoffs disputed_db) = [''wof_0''] \<and> map w_adv (writeoffs disputed_db) = [''adv_1''] \<and>
      map a_id (advances disputed_db) = [''adv_1''] \<and> map a_sub (advances disputed_db) = [''sub_1'']" by code_simp
  then obtain w a where "writeoffs disputed_db = [w]" "w_id w = ''wof_0''" "w_adv w = ''adv_1''"
    "advances disputed_db = [a]" "a_id a = ''adv_1''" "a_sub a = ''sub_1''" by auto
  then show ?thesis
    by (intro ApproveWriteOff_disputed [where w = w and a = a and c = "hd (complaints disputed_db)"])
      (simp_all add: disputed_db_def debtDisputeCategories_def sample_collections_def)
qed

section \<open>Requests\<close>

lemma outstandingSplit_Inr:
  "outstandingSplit E adv s = Inr (fee, prin) \<Longrightarrow>
     0 \<le> sint (amount fee) \<and> sint (amount fee) + sint (amount prin) = sint (amount (Outstanding adv))
     \<and> currency prin = currency (Outstanding adv)"
  by (auto simp: outstandingSplit_def andThen_Inr_iff Let_def IsNegative_def ZeroMoney_def NewMoney_def split: if_splits
      dest!: Sub_exact)

lemma eligible_Inr:
  assumes "checkBucketEligibility E C adv s = Inr u"
  obtains minb ladder grace n b k where "cc_min_bucket C (AdvProgrammeID adv) = Inr minb"
    "cc_buckets C (AdvProgrammeID adv) = Inr (ladder, grace)" "rank_of ladder minb = Some n"
    "b \<in> set (advances s)" "a_id b = AdvanceID adv"
    "rank_of ladder (case a_bucket b of None \<Rightarrow> '''' | Some x \<Rightarrow> x) = Some k" "\<not> k < n"
  using assms [unfolded checkBucketEligibility_def run_simps case_option_Inr]
  by (elim exE conjE) (drule queryRow_InrD, elim conjE, rule that, assumption+)

text \<open>a request crystallises nothing and itemises exactly what is owed. When \<^verbatim>\<open>RequestWriteOff\<close>
  succeeds, the advance is open, its stamped bucket has a rank on the programme's ladder at or past
  the policy's minimum, the new pending row splits the outstanding amount into non-negative fee and
  principal parts, no live write-off of that advance existed, and only the write-off table, the
  audit trail and the counter of ids differ.\<close>

theorem RequestWriteOff_exact:
  assumes "RequestWriteOff E C telco aid actor reason s = (Inr w, s')"
  shows "\<exists>a \<in> set (advances s). \<exists>row ladder grace minb n k.
    a_id a = aid \<and> a_telco a = telco \<and> a_state a \<in> {AdvActive, AdvPartiallyRecovered}
    \<and> cc_buckets C (a_prog a) = Inr (ladder, grace) \<and> cc_min_bucket C (a_prog a) = Inr minb
    \<and> rank_of ladder minb = Some n \<and> n \<le> k
    \<and> (\<exists>b \<in> set (advances s). a_id b = aid \<and> rank_of ladder (case a_bucket b of None \<Rightarrow> '''' | Some x \<Rightarrow> x) = Some k)
    \<and> writeoffs s' = writeoffs s @ [row] \<and> w_adv row = aid \<and> w_state row = ''REQUESTED'' \<and> w_by row = actor
    \<and> 0 \<le> sint (w_prin row) \<and> 0 \<le> sint (w_fee row) \<and> sint (w_prin row) + sint (w_fee row) = sint (a_out a)
    \<and> (\<forall>q \<in> set (writeoffs s). w_adv q = aid \<longrightarrow> w_state q = ''REJECTED'')
    \<and> s' = s\<lparr>next_id := next_id s', writeoffs := writeoffs s', audit := audit s'\<rparr>"
proof -
  let ?E = "E\<lparr>tenant := telco\<rparr>"
  from assms have "request_tx C telco aid actor reason ?E s = Inr (w, s')"
    by (simp add: RequestWriteOff_def WithTenantTx_Inr split: if_splits)
  then obtain adv fee prin wid s1 s2 u where get: "Advances_Get ?E aid s = Inr adv"
    and st: "\<not> (State adv \<noteq> AdvActive \<and> State adv \<noteq> AdvPartiallyRecovered)"
    and el: "checkBucketEligibility ?E C adv s = Inr ()" and sp: "outstandingSplit ?E adv s = Inr (fee, prin)"
    and id: "NewID ?E ''wof'' s = (wid, s1)"
    and ins: "WriteOffs_Insert ?E \<lparr>wo_id = wid, wo_telco = telco, wo_adv = aid, wo_principal = prin, wo_fee = fee, wo_reason = reason,
                wo_by = actor, wo_approver = '''', wo_state = ''REQUESTED'', wo_requested = 0, wo_decided = None,
                wo_posted = None\<rparr> s1 = Inr s2"
    and aud: "auditRow ?E telco actor ''writeoff.requested'' aid reason s2 = Inr (u, s')"
    unfolding request_tx_def run_simps case_pair_Inr by (metis (full_types) old.unit.exhaust)
  from Advances_Get_InrD [OF get] obtain a where a: "a \<in> set (advances s)" "a_telco a = telco" "a_id a = aid" "adv = advance_of a"
    by auto
  from el obtain minb ladder grace n b k where e: "cc_min_bucket C (a_prog a) = Inr minb" "cc_buckets C (a_prog a) = Inr (ladder, grace)"
    "rank_of ladder minb = Some n" "b \<in> set (advances s)" "a_id b = aid"
    "rank_of ladder (case a_bucket b of None \<Rightarrow> '''' | Some x \<Rightarrow> x) = Some k" "\<not> k < n"
    using a by (rule_tac eligible_Inr [OF el]) auto
  note i = WriteOffs_Insert_Inr [OF ins]
  then obtain row where row: "writeoffs s2 = writeoffs s1 @ [row]" "w_adv row = aid" "w_state row = ''REQUESTED''" "w_by row = actor"
    "w_prin row = amount prin" "w_fee row = amount fee" "writeoff_checks row" by auto
  have ws: "writeoffs s1 = writeoffs s" using id by (auto simp: NewID_def)
  have ws': "writeoffs s' = writeoffs s2" using arg_cong [OF auditRow_Inr [OF aud], of writeoffs] by simp
  have "one_live (writeoffs s2)" using i by (simp add: writeoffs_ok_def)
  then have "aid \<notin> w_adv ` {q \<in> set (writeoffs s). w_state q \<noteq> ''REJECTED''}"
    using row(1-3) ws by (simp add: one_live_def)
  then have live: "\<forall>q \<in> set (writeoffs s). w_adv q = aid \<longrightarrow> w_state q = ''REJECTED''" by blast
  have frame: "s' = s\<lparr>next_id := next_id s', writeoffs := writeoffs s', audit := audit s'\<rparr>"
    using id ins aud by (auto simp: NewID_def WriteOffs_Insert_def auditRow_def andThen_Inr_iff put_writeoffs_Inr Audit_Insert_Inr
        split: sum.splits)
  have amounts: "0 \<le> sint (w_prin row)" "0 \<le> sint (w_fee row)" "sint (w_prin row) + sint (w_fee row) = sint (a_out a)"
    using row(5-7) outstandingSplit_Inr [OF sp] a(4) by (simp_all add: writeoff_checks_def)
  have "n \<le> k" "a_state a \<in> {AdvActive, AdvPartiallyRecovered}" "writeoffs s' = writeoffs s @ [row]"
    using e(7) st a(4) ws ws' row(1) by auto
  then show ?thesis
    by (intro bexI [OF _ a(1)] exI [of _ row] exI [of _ ladder] exI [of _ grace] exI [of _ minb] exI [of _ n] exI [of _ k]
        conjI bexI [OF _ e(4)] a(2,3) e(1-3,5,6) row(2-4) amounts live frame)
qed

theorem RequestWriteOff_exact_witness:
  "\<exists>w row. RequestWriteOff sample_env sample_collections ''MTN_NG'' ''adv_1'' ''maker'' ''gone'' overdue_db = (Inr w, requested_db)
     \<and> writeoffs requested_db = writeoffs overdue_db @ [row] \<and> sint (w_prin row) + sint (w_fee row) = 500"
proof -
  have "case RequestWriteOff sample_env sample_collections ''MTN_NG'' ''adv_1'' ''maker'' ''gone'' overdue_db of
      (Inr w, _) \<Rightarrow> True | _ \<Rightarrow> False" by code_simp
  then obtain w where run: "RequestWriteOff sample_env sample_collections ''MTN_NG'' ''adv_1'' ''maker'' ''gone'' overdue_db
      = (Inr w, requested_db)" unfolding requested_db_def by (auto split: prod.splits sum.splits)
  have "\<forall>a \<in> set (advances overdue_db). sint (a_out a) = 500"
    by (simp add: overdue_db_def sample_db_def sample_advance_def)
  with RequestWriteOff_exact [OF run] run show ?thesis by metis
qed

section \<open>Classification\<close>

text \<open>The bucket of the highest rung that an age clears.\<close>

definition highest_rung :: "DelinquencyBucket list \<Rightarrow> int \<Rightarrow> string option \<Rightarrow> bool" where
  "highest_rung ladder dpd bucket \<longleftrightarrow>
     (case bucket of
        None \<Rightarrow> \<forall>b \<in> set ladder. dpd < MinDaysPastDue b
      | Some code \<Rightarrow> \<exists>b \<in> set ladder. code = Code b \<and> MinDaysPastDue b \<le> dpd
          \<and> (\<forall>b' \<in> set ladder. MinDaysPastDue b' \<le> dpd \<longrightarrow> MinDaysPastDue b' \<le> MinDaysPastDue b))"

lemma bucket_for_highest: "highest_rung ladder dpd (bucket_for ladder dpd)"
proof (cases "sort_key (\<lambda>b. - MinDaysPastDue b) (filter (\<lambda>b. MinDaysPastDue b \<le> dpd) ladder)")
  case Nil
  then have "set (filter (\<lambda>b. MinDaysPastDue b \<le> dpd) ladder) = {}" by (metis set_sort list.set(1))
  then have "\<forall>b \<in> set ladder. dpd < MinDaysPastDue b" by (auto simp: not_le)
  with Nil show ?thesis by (simp add: bucket_for_def highest_rung_def)
next
  case (Cons b bs)
  from head_sort_key_least [OF this] Cons show ?thesis by (auto simp: bucket_for_def highest_rung_def)
qed

definition ages :: "string \<Rightarrow> string \<Rightarrow> advance_row \<Rightarrow> bool" where
  "ages telco prog r \<longleftrightarrow> a_telco r = telco \<and> a_prog r = prog \<and> a_state r \<in> {AdvActive, AdvPartiallyRecovered}
     \<and> a_activated r \<noteq> None"

text \<open>classification is an overlay and lands on the highest rung (V2 section 15). After \<^verbatim>\<open>Classify\<close>, every
  open activated advance of the programme carries the code of a rung it clears such that no cleared
  rung asks for more days (or no bucket, when it clears none); every advance is otherwise what it
  was, the pools and all other tables are untouched, and running it again at the same time
  changes nothing.\<close>

theorem Classify_exact:
  assumes "Classify E C telco prog s = (Inr n, s')" and "cc_buckets C prog = Inr (ladder, grace)"
  shows "list_all2 (\<lambda>r r'. r' = r\<lparr>a_bucket := a_bucket r', a_bucket_asof := a_bucket_asof r'\<rparr>
      \<and> (if ages telco prog r
         then highest_rung ladder (days_past_due (now E) (the (a_activated r)) grace) (a_bucket r')
         else r' = r)) (advances s) (advances s')
    \<and> s' = s\<lparr>advances := advances s'\<rparr> \<and> Classify E C telco prog s' = (Inr 0, s')"
proof -
  let ?as = "assigned_bucket ladder grace (now E)"
  let ?p = "\<lambda>r. a_telco r = telco \<and> a_prog r = prog \<and> a_state r \<in> {AdvActive, AdvPartiallyRecovered}
                 \<and> a_activated r \<noteq> None \<and> a_bucket r \<noteq> ?as r"
  let ?f = "\<lambda>r. r\<lparr>a_bucket := ?as r, a_bucket_asof := Some (now E)\<rparr>"
  have run: "Classify E C telco prog t = (if telco = '''' then (Inl (Fmt ''no tenant context''), t)
      else (Inr (length (filter ?p (advances t))), t\<lparr>advances := upd_where ?p ?f (advances t)\<rparr>))" for t
    using assms(2) by (simp add: Classify_def WithTenantTx_def TenantFrom_def ClassifyDelinquency_def Let_def)
  from run [of s] assms(1) have t: "telco \<noteq> ''''" and s': "s' = s\<lparr>advances := upd_where ?p ?f (advances s)\<rparr>"
    by (auto split: if_splits)
  have same: "?as (?f r) = ?as r" for r by (simp add: assigned_bucket_def)
  have "\<not> ?p (?f r)" for r by (simp add: same)
  then have none: "\<not> ?p q" if "q \<in> set (upd_where ?p ?f xs)" for q xs
    using upd_where_settled [of ?p ?f q xs] that by blast
  have again: "Classify E C telco prog s' = (Inr 0, s')"
    unfolding run s' using t none [of _ "advances s"] upd_where_other [of "upd_where ?p ?f (advances s)" ?p ?f]
    by (simp add: filter_empty_conv)
  have "highest_rung ladder (days_past_due (now E) (the (a_activated r)) grace) (a_bucket (if ?p r then ?f r else r))"
    if "ages telco prog r" for r
  proof -
    have "a_bucket (if ?p r then ?f r else r) = ?as r" using that by (auto simp: ages_def)
    moreover have "?as r = bucket_for ladder (days_past_due (now E) (the (a_activated r)) grace)"
      using that by (auto simp: ages_def assigned_bucket_def)
    ultimately show ?thesis using bucket_for_highest by simp
  qed
  then have "list_all2 (\<lambda>r r'. r' = r\<lparr>a_bucket := a_bucket r', a_bucket_asof := a_bucket_asof r'\<rparr>
      \<and> (if ages telco prog r
         then highest_rung ladder (days_past_due (now E) (the (a_activated r)) grace) (a_bucket r')
         else r' = r)) xs (upd_where ?p ?f xs)" for xs
    by (induction xs) (auto simp: ages_def)
  with again s' show ?thesis by simp
qed

theorem Classify_exact_witness:
  "\<exists>s'. Classify (sample_env\<lparr>now := 100 * day\<rparr>) sample_collections ''MTN_NG'' ''prg_1'' sample_db = (Inr 1, s')
     \<and> s' = sample_db\<lparr>advances := advances s'\<rparr> \<and> map a_bucket (advances s') = [Some ''B90'']"
proof -
  let ?E = "sample_env\<lparr>now := 100 * day\<rparr>"
  have "map_prod (map_sum (\<lambda>_. ()) id) (map a_bucket \<circ> advances) (Classify ?E sample_collections ''MTN_NG'' ''prg_1'' sample_db)
      = (Inr 1, [Some ''B90''])" by code_simp
  then obtain s' where run: "Classify ?E sample_collections ''MTN_NG'' ''prg_1'' sample_db = (Inr 1, s')"
    and b: "map a_bucket (advances s') = [Some ''B90'']"
    by (cases "Classify ?E sample_collections ''MTN_NG'' ''prg_1'' sample_db"; cases "fst (Classify ?E sample_collections ''MTN_NG'' ''prg_1'' sample_db)")
      auto
  have cfg: "cc_buckets sample_collections ''prg_1'' = Inr ([\<lparr>Code = ''B0'', MinDaysPastDue = 0\<rparr>,
     \<lparr>Code = ''B30'', MinDaysPastDue = 30\<rparr>, \<lparr>Code = ''B90'', MinDaysPastDue = 90\<rparr>], 3)" by (simp add: sample_collections_def)
  note x = Classify_exact [OF run cfg]
  show ?thesis by (intro exI [of _ s'] conjI run b conjunct1 [OF conjunct2 [OF x]])
qed


text \<open>the age in days is the nearest whole number, not the number of whole days. The cast of the
  statement rounds: the result is within half a day of the elapsed time, so an advance activated
  twelve hours ago is already one day old, where the comment above the statement speaks of whole
  days.\<close>

theorem whole_days_rounds:
  "2 * \<bar>whole_days d * day - d\<bar> \<le> day \<and> whole_days (day div 2) = 1 \<and> days_past_due (t + day div 2) t 0 = 1"
proof -
  have pos: "0 < day" by (simp add: day_def)
  have "2 * \<bar>((2 * e + day) div (2 * day)) * day - e\<bar> \<le> day" for e
  proof -
    have "2 * day * ((2 * e + day) div (2 * day)) + (2 * e + day) mod (2 * day) = 2 * e + day" by (rule mult_div_mod_eq)
    moreover have "0 \<le> (2 * e + day) mod (2 * day)" "(2 * e + day) mod (2 * day) < 2 * day" using pos by simp_all
    ultimately have "- day \<le> 2 * (((2 * e + day) div (2 * day)) * day - e)" "2 * (((2 * e + day) div (2 * day)) * day - e) \<le> day"
      by (simp_all add: algebra_simps)
    then show ?thesis by linarith
  qed
  from this [of d] this [of "- d"] have "2 * \<bar>whole_days d * day - d\<bar> \<le> day"
    by (auto simp: whole_days_def abs_minus_commute algebra_simps)
  then show ?thesis by (simp add: whole_days_def days_past_due_def day_def)
qed

end
