(* ===== verification/Treasury.thy ===== *)
theory Treasury
  imports RepoRecovery
begin

text \<open>
  Treasury guardrails: \<^verbatim>\<open>usecase/treasury/treasury.go\<close> over \<^verbatim>\<open>repo/guardrails.go\<close>. A breach
  measured inside the confirm transaction trips the guardrail, the trip suspends the programme,
  and lending resumes by a two-person re-arm once no trip is open.
\<close>

section \<open>Guardrail trips\<close>

record GuardrailTrip =
  TripID :: string
  TrpTelcoID :: string
  TrpProgrammeID :: string
  Guardrail :: string
  Measured :: money
  Limit :: money
  TrpState :: string
  TrippedAt :: int
  RearmRequestedBy :: string
  RearmApprovedBy :: string
  RearmedAt :: "int option"

text \<open>The CHECKs of \<^verbatim>\<open>guardrail_trips\<close> and its partial unique index.\<close>

definition trip_checks :: "trip_row \<Rightarrow> bool" where
  "trip_checks r \<longleftrightarrow> t_guardrail r \<in> {''DAILY_DISBURSED'', ''OPEN_EXPOSURE''}
     \<and> t_state r \<in> {''TRIPPED'', ''REARM_REQUESTED'', ''REARMED''}
     \<and> (t_state r = ''REARMED'' \<longrightarrow> t_by r \<noteq> None \<and> t_approver r \<noteq> None \<and> t_approver r \<noteq> t_by r)"

definition open_trip_uq :: "trip_row list \<Rightarrow> bool" where
  "open_trip_uq rows \<longleftrightarrow> distinct (map (\<lambda>r. (t_prog r, t_guardrail r)) (filter (\<lambda>r. t_state r \<noteq> ''REARMED'') rows))"

definition put_trips :: "trip_row list \<Rightarrow> db \<Rightarrow> err + db" where
  "put_trips rows s =
     (if \<not> list_all trip_checks rows then Inl (Pg ''23514'' ''guardrail_trips_check'')
      else if \<not> distinct (map t_id rows) then Inl (Pg ''23505'' ''guardrail_trips_pkey'')
      else if \<not> open_trip_uq rows then Inl (Pg ''23505'' ''guardrail_open_trip_uq'')
      else Inr (s\<lparr>trips := rows\<rparr>))"

text \<open>The row of an INSERT, and the conflict that the ON CONFLICT clause skips.\<close>

definition trip_row_of :: "env \<Rightarrow> GuardrailTrip \<Rightarrow> trip_row" where
  "trip_row_of E t =
     \<lparr>t_id = TripID t, t_telco = TrpTelcoID t, t_prog = TrpProgrammeID t, t_guardrail = Guardrail t,
      t_measured = amount (Measured t), t_limit = amount (Limit t), t_cur = currency (Measured t),
      t_state = ''TRIPPED'', t_tripped = now E, t_by = None, t_approver = None, t_rearmed = None\<rparr>"

definition open_trip :: "string \<Rightarrow> string \<Rightarrow> trip_row \<Rightarrow> bool" where
  "open_trip prog g r \<longleftrightarrow> t_prog r = prog \<and> t_guardrail r = g \<and> t_state r \<noteq> ''REARMED''"

definition Trips_Insert :: "env \<Rightarrow> GuardrailTrip \<Rightarrow> db \<Rightarrow> err + bool \<times> db" where
  "Trips_Insert E t s =
     andThen (rls_check E (TrpTelcoID t)) (\<lambda>_.
     if \<not> trip_checks (trip_row_of E t) then Inl (Pg ''23514'' ''guardrail_trips_check'')
     else if \<exists>r \<in> set (trips s). open_trip (TrpProgrammeID t) (Guardrail t) r then Inr (False, s)
     else andThen (put_trips (trips s @ [trip_row_of E t]) s) (\<lambda>s. Inr (True, s)))"

definition trip_update :: "env \<Rightarrow> string \<Rightarrow> string \<Rightarrow> (trip_row \<Rightarrow> trip_row) \<Rightarrow> db \<Rightarrow> err + db" where
  "trip_update E tid frm f s =
     (let p = (\<lambda>r. t_telco r = tenant E \<and> t_id r = tid \<and> t_state r = frm) in
      andThen (put_trips (upd_where p f (trips s)) s) (\<lambda>s'.
      if filter p (trips s) = [] then Inl ErrNotFound else Inr s'))"

definition Trips_RequestRearm :: "env \<Rightarrow> string \<Rightarrow> string \<Rightarrow> db \<Rightarrow> err + db" where
  "Trips_RequestRearm E tid actor s =
     trip_update E tid ''TRIPPED'' (\<lambda>r. r\<lparr>t_state := ''REARM_REQUESTED'', t_by := Some actor\<rparr>) s"

definition Trips_Get :: "env \<Rightarrow> string \<Rightarrow> db \<Rightarrow> err + GuardrailTrip" where
  "Trips_Get E tid s =
     andThen (queryRow (\<lambda>r. t_telco r = tenant E \<and> t_id r = tid) (trips s)) (\<lambda>r.
     andThen (scanMoney (t_measured r) (t_cur r)) (\<lambda>measured.
     andThen (scanMoney (t_limit r) (t_cur r)) (\<lambda>limit.
     Inr \<lparr>TripID = t_id r, TrpTelcoID = t_telco r, TrpProgrammeID = t_prog r, Guardrail = t_guardrail r,
          Measured = measured, Limit = limit, TrpState = t_state r, TrippedAt = t_tripped r,
          RearmRequestedBy = (case t_by r of None \<Rightarrow> '''' | Some x \<Rightarrow> x),
          RearmApprovedBy = (case t_approver r of None \<Rightarrow> '''' | Some x \<Rightarrow> x), RearmedAt = t_rearmed r\<rparr>)))"

text \<open>The checker's UPDATE, with the CHECK violation read as a self-approval.\<close>

definition rearm_update :: "env \<Rightarrow> string \<Rightarrow> string \<Rightarrow> db \<Rightarrow> err + db" where
  "rearm_update E tid approver s =
     (case trip_update E tid ''REARM_REQUESTED''
             (\<lambda>r. r\<lparr>t_state := ''REARMED'', t_approver := Some approver, t_rearmed := Some (now E)\<rparr>) s of
        Inr s' \<Rightarrow> Inr s'
      | Inl e \<Rightarrow> Inl (case e of Pg code _ \<Rightarrow> if code = ''23514'' then ErrSelfRearm else e | _ \<Rightarrow> e))"

definition Trips_ApproveRearm :: "env \<Rightarrow> string \<Rightarrow> string \<Rightarrow> db \<Rightarrow> err + GuardrailTrip \<times> db" where
  "Trips_ApproveRearm E tid approver s =
     andThen (rearm_update E tid approver s) (\<lambda>s. andThen (Trips_Get E tid s) (\<lambda>t. Inr (t, s)))"

definition CountOpenForProgramme :: "env \<Rightarrow> string \<Rightarrow> db \<Rightarrow> nat" where
  "CountOpenForProgramme E prog s =
     length (filter (\<lambda>r. t_telco r = tenant E \<and> t_prog r = prog \<and> t_state r \<noteq> ''REARMED'') (trips s))"

section \<open>Programme status\<close>

definition ProgrammeActive :: string where
  "ProgrammeActive = ''ACTIVE''"

definition ProgrammeSuspended :: string where
  "ProgrammeSuspended = ''SUSPENDED''"

definition Programmes_SetStatus :: "env \<Rightarrow> string \<Rightarrow> string \<Rightarrow> string \<Rightarrow> db \<Rightarrow> err + db" where
  "Programmes_SetStatus E prog frm to s =
     (let p = (\<lambda>r. pg_telco r = tenant E \<and> pg_id r = prog \<and> pg_status r = frm) in
      if filter p (programmes s) = [] then Inl ErrNotFound
      else Inr (s\<lparr>programmes := upd_where p (\<lambda>r. r\<lparr>pg_status := to\<rparr>) (programmes s)\<rparr>))"

definition Programmes_GetStatus :: "env \<Rightarrow> string \<Rightarrow> db \<Rightarrow> err + string" where
  "Programmes_GetStatus E prog s =
     andThen (queryRow (\<lambda>r. pg_telco r = tenant E \<and> pg_id r = prog) (programmes s)) (\<lambda>r. Inr (pg_status r))"

section \<open>The use case\<close>

record guardrailCfg =
  MaxDailyDisbursedMinor :: i64
  MaxOpenExposureBpsCommitted :: i64

type_synonym guardrails_cfg = "string \<Rightarrow> err + guardrailCfg"

text \<open>The start of the day of an instant, in UTC.\<close>

definition date_trunc_day :: "int \<Rightarrow> int" where
  "date_trunc_day t = t - t mod day"

definition counts_today :: "env \<Rightarrow> string \<Rightarrow> advance_row \<Rightarrow> bool" where
  "counts_today E prog r \<longleftrightarrow> a_telco r = tenant E \<and> a_prog r = prog \<and> date_trunc_day (now E) \<le> a_accepted r
     \<and> a_state r \<notin> {AdvDeclined, AdvFulfilmentFailed}"

definition today_sum :: "env \<Rightarrow> string \<Rightarrow> db \<Rightarrow> int" where
  "today_sum E prog s = (\<Sum>r\<leftarrow>filter (counts_today E prog) (advances s). sint (a_disb r))"

definition EvaluateInTx :: "env \<Rightarrow> guardrails_cfg \<Rightarrow> string \<Rightarrow> string \<Rightarrow> money \<Rightarrow> db \<Rightarrow> err + unit" where
  "EvaluateInTx E G prog poolID includeDisbursed s =
     andThen (G prog) (\<lambda>gc.
     let cur = currency includeDisbursed in
     andThen (scan_int64 (today_sum E prog s)) (\<lambda>todayMinor.
     andThen (NewMoney todayMinor cur) (\<lambda>today.
     andThen (NewMoney (MaxDailyDisbursedMinor gc) cur) (\<lambda>limit.
     andThen (Cmp today limit) (\<lambda>c.
     if c > 0 then Inl (BreachError ''DAILY_DISBURSED'' today limit)
     else
       case List.find (pool_visible E poolID) (pools s) of
         None \<Rightarrow> Inl (Fmt ''no rows in result set'')
       | Some r \<Rightarrow>
           andThen (NewMoney (p_reserved r + p_utilised r) cur) (\<lambda>openM.
           andThen (NewMoney (p_committed r) cur) (\<lambda>committedM.
           andThen (PercentBps committedM (MaxOpenExposureBpsCommitted gc)) (\<lambda>expLimit.
           andThen (Cmp openM expLimit) (\<lambda>c.
           if c > 0 then Inl (BreachError ''OPEN_EXPOSURE'' openM expLimit) else Inr ())))))))))"

definition breach_text :: "string \<Rightarrow> money \<Rightarrow> money \<Rightarrow> string" where
  "breach_text g measured limit =
     ''treasury guardrail '' @ g @ '' breached: measured '' @ MoneyString measured @ '', limit '' @ MoneyString limit"

definition guardrail_audit :: "env \<Rightarrow> string \<Rightarrow> string \<Rightarrow> string \<Rightarrow> string \<Rightarrow> string \<Rightarrow> string \<Rightarrow> db \<Rightarrow> err + unit \<times> db" where
  "guardrail_audit E telco actor action ttype target reason s =
     (let (_, s) = NewID E ''aud'' s in
      andThen (Audit_Insert E \<lparr>au_telco = telco, au_actor = actor, au_action = action, au_ttype = ttype,
        au_target = target, au_reason = reason\<rparr> s) (\<lambda>s. Inr ((), s)))"

definition trip_tx :: "string \<Rightarrow> string \<Rightarrow> string \<Rightarrow> money \<Rightarrow> money \<Rightarrow> env \<Rightarrow> db \<Rightarrow> err + unit \<times> db" where
  "trip_tx telco prog g measured limit E s =
     (let (tid, s) = NewID E ''trp'' s in
      andThen (Trips_Insert E \<lparr>TripID = tid, TrpTelcoID = telco, TrpProgrammeID = prog, Guardrail = g,
        Measured = measured, Limit = limit, TrpState = '''', TrippedAt = 0, RearmRequestedBy = '''',
        RearmApprovedBy = '''', RearmedAt = None\<rparr> s) (\<lambda>(created, s).
      andThen (case Programmes_SetStatus E prog ProgrammeActive ProgrammeSuspended s of
          Inr s' \<Rightarrow> Inr s' | Inl e \<Rightarrow> if e = ErrNotFound then Inr s else Inl e) (\<lambda>s.
      guardrail_audit E telco ''system:guardrail'' ''guardrail.tripped'' ''programme'' prog
        (breach_text g measured limit) s)))"

definition RecordTrip :: "env \<Rightarrow> string \<Rightarrow> string \<Rightarrow> string \<Rightarrow> money \<Rightarrow> money \<Rightarrow> db \<Rightarrow> (err + unit) \<times> db" where
  "RecordTrip E telco prog g measured limit s = WithTenantTx E telco (trip_tx telco prog g measured limit) s"

definition rearm_request_tx :: "string \<Rightarrow> string \<Rightarrow> string \<Rightarrow> string \<Rightarrow> env \<Rightarrow> db \<Rightarrow> err + unit \<times> db" where
  "rearm_request_tx telco tid actor reason E s =
     andThen (Trips_RequestRearm E tid actor s) (\<lambda>s.
     guardrail_audit E telco actor ''guardrail.rearm_requested'' ''guardrail_trip'' tid reason s)"

definition RequestRearm :: "env \<Rightarrow> string \<Rightarrow> string \<Rightarrow> string \<Rightarrow> string \<Rightarrow> db \<Rightarrow> (err + unit) \<times> db" where
  "RequestRearm E telco tid actor reason s =
     (if actor = '''' \<or> reason = '''' then (Inl (Fmt ''actor and reason are required''), s)
      else WithTenantTx E telco (rearm_request_tx telco tid actor reason) s)"

definition rearm_approve_tx :: "string \<Rightarrow> string \<Rightarrow> string \<Rightarrow> env \<Rightarrow> db \<Rightarrow> err + unit \<times> db" where
  "rearm_approve_tx telco tid approver E s =
     andThen (Trips_ApproveRearm E tid approver s) (\<lambda>(trip, s).
     andThen (if CountOpenForProgramme E (TrpProgrammeID trip) s = 0
              then Programmes_SetStatus E (TrpProgrammeID trip) ProgrammeSuspended ProgrammeActive s
              else Inr s) (\<lambda>s.
     guardrail_audit E telco approver ''guardrail.rearmed'' ''guardrail_trip'' tid ''re-arm approved'' s))"

definition ApproveRearm :: "env \<Rightarrow> string \<Rightarrow> string \<Rightarrow> string \<Rightarrow> db \<Rightarrow> (err + unit) \<times> db" where
  "ApproveRearm E telco tid approver s =
     (if approver = '''' then (Inl (Fmt ''approver is required''), s)
      else WithTenantTx E telco (rearm_approve_tx telco tid approver) s)"


section \<open>What the statements do\<close>

abbreviation trip_at :: "env \<Rightarrow> string \<Rightarrow> string \<Rightarrow> trip_row \<Rightarrow> bool" where
  "trip_at E tid st r \<equiv> t_telco r = tenant E \<and> t_id r = tid \<and> t_state r = st"

abbreviation prog_at :: "env \<Rightarrow> string \<Rightarrow> string \<Rightarrow> programme_row \<Rightarrow> bool" where
  "prog_at E prog st r \<equiv> pg_telco r = tenant E \<and> pg_id r = prog \<and> pg_status r = st"

lemma put_trips_Inr [res_simps]:
  "put_trips rows s = Inr s' \<longleftrightarrow>
     list_all trip_checks rows \<and> distinct (map t_id rows) \<and> open_trip_uq rows \<and> s' = s\<lparr>trips := rows\<rparr>"
  by (auto simp: put_trips_def)

lemma trip_update_Inr [res_simps]:
  "trip_update E tid frm f s = Inr s' \<longleftrightarrow>
     put_trips (upd_where (trip_at E tid frm) f (trips s)) s = Inr s' \<and> (\<exists>r \<in> set (trips s). trip_at E tid frm r)"
  by (auto simp: trip_update_def Let_def andThen_Inr_iff filter_empty_conv split: if_splits)

lemma rearm_update_Inr [res_simps]:
  "rearm_update E tid approver s = Inr s' \<longleftrightarrow> trip_update E tid ''REARM_REQUESTED''
     (\<lambda>r. r\<lparr>t_state := ''REARMED'', t_approver := Some approver, t_rearmed := Some (now E)\<rparr>) s = Inr s'"
  by (auto simp: rearm_update_def split: sum.splits)

lemma Trips_Insert_Inr [res_simps]:
  "Trips_Insert E t s = Inr (b, s') \<longleftrightarrow> TrpTelcoID t = tenant E \<and> trip_checks (trip_row_of E t)
     \<and> (if \<exists>r \<in> set (trips s). open_trip (TrpProgrammeID t) (Guardrail t) r then \<not> b \<and> s' = s
        else b \<and> put_trips (trips s @ [trip_row_of E t]) s = Inr s')"
  by (auto simp: Trips_Insert_def andThen_Inr_iff rls_check_Inr split: if_splits)

lemma SetStatus_Inr [res_simps]:
  "Programmes_SetStatus E prog frm to s = Inr s' \<longleftrightarrow> (\<exists>r \<in> set (programmes s). prog_at E prog frm r)
     \<and> s' = s\<lparr>programmes := upd_where (prog_at E prog frm) (\<lambda>r. r\<lparr>pg_status := to\<rparr>) (programmes s)\<rparr>"
  by (auto simp: Programmes_SetStatus_def Let_def filter_empty_conv)

lemma SetStatus_Inl:
  "Programmes_SetStatus E prog frm to s = Inl e \<longleftrightarrow> e = ErrNotFound \<and> (\<forall>r \<in> set (programmes s). \<not> prog_at E prog frm r)"
  by (auto simp: Programmes_SetStatus_def Let_def filter_empty_conv)

lemma guardrail_audit_Inr:
  "guardrail_audit E telco actor action ttype target reason s = Inr (u, s') \<Longrightarrow>
   \<exists>a. s' = s\<lparr>next_id := Suc (next_id s), audit := audit s @ [a]\<rparr>"
  by (auto simp: guardrail_audit_def NewID_def res_simps)

lemma Trips_Get_InrD:
  "Trips_Get E tid s = Inr t \<Longrightarrow> \<exists>r \<in> set (trips s). t_telco r = tenant E \<and> t_id r = tid \<and> TrpProgrammeID t = t_prog r"
  by (auto simp: Trips_Get_def andThen_Inr_iff queryRow_Inr dest: find_SomeD)

lemma CountOpen_zero:
  "CountOpenForProgramme E prog s = 0 \<longleftrightarrow>
     (\<forall>r \<in> set (trips s). t_telco r = tenant E \<longrightarrow> t_prog r = prog \<longrightarrow> t_state r = ''REARMED'')"
  by (auto simp: CountOpenForProgramme_def filter_empty_conv)

section \<open>The transactions\<close>

text \<open>A trip: at most one new open row, and no active programme of the telco under that id.\<close>

definition suspend :: "env \<Rightarrow> string \<Rightarrow> programme_row list \<Rightarrow> programme_row list" where
  "suspend E prog = upd_where (prog_at E prog ProgrammeActive) (\<lambda>r. r\<lparr>pg_status := ProgrammeSuspended\<rparr>)"

definition resume :: "env \<Rightarrow> string \<Rightarrow> programme_row list \<Rightarrow> programme_row list" where
  "resume E prog = upd_where (prog_at E prog ProgrammeSuspended) (\<lambda>r. r\<lparr>pg_status := ProgrammeActive\<rparr>)"

lemma trip_tx_Inr:
  assumes "trip_tx telco prog g measured limit E s = Inr (u, s')"
  shows "telco = tenant E \<and> s' = s\<lparr>next_id := next_id s', trips := trips s', audit := audit s', programmes := suspend E prog (programmes s)\<rparr>
    \<and> (\<exists>r \<in> set (trips s'). open_trip prog g r)
    \<and> (trips s' = trips s \<or> (\<exists>r. trips s' = trips s @ [r] \<and> t_telco r = telco \<and> t_prog r = prog \<and> t_guardrail r = g
          \<and> t_state r = ''TRIPPED''))"
proof -
  let ?s0 = "s\<lparr>next_id := Suc (next_id s)\<rparr>"
  let ?t = "\<lparr>TripID = new_id E ''trp'' (next_id s), TrpTelcoID = telco, TrpProgrammeID = prog, Guardrail = g,
        Measured = measured, Limit = limit, TrpState = '''', TrippedAt = 0, RearmRequestedBy = '''',
        RearmApprovedBy = '''', RearmedAt = None\<rparr>"
  from assms obtain b s1 s2 where ins: "Trips_Insert E ?t ?s0 = Inr (b, s1)"
    and st: "(case Programmes_SetStatus E prog ProgrammeActive ProgrammeSuspended s1 of
          Inr s' \<Rightarrow> Inr s' | Inl e \<Rightarrow> if e = ErrNotFound then Inr s1 else Inl e) = Inr s2"
    and aud: "guardrail_audit E telco ''system:guardrail'' ''guardrail.tripped'' ''programme'' prog
        (breach_text g measured limit) s2 = Inr (u, s')"
    unfolding trip_tx_def NewID_def run_simps by blast
  have s2: "s2 = s1\<lparr>programmes := suspend E prog (programmes s1)\<rparr>"
  proof (cases "Programmes_SetStatus E prog ProgrammeActive ProgrammeSuspended s1")
    case (Inl e)
    then have "suspend E prog (programmes s1) = programmes s1"
      unfolding suspend_def SetStatus_Inl by (intro upd_where_other) blast
    moreover have "e = ErrNotFound" using Inl SetStatus_Inl by blast
    ultimately show ?thesis using Inl st by simp
  next
    case (Inr x)
    with st show ?thesis by (simp add: SetStatus_Inr suspend_def)
  qed
  obtain a where s': "s' = s2\<lparr>next_id := Suc (next_id s2), audit := audit s2 @ [a]\<rparr>" using guardrail_audit_Inr [OF aud] ..
  have tel: "telco = tenant E" and s1: "s1 = ?s0 \<and> (\<exists>r \<in> set (trips s). open_trip prog g r)
      \<or> s1 = ?s0\<lparr>trips := trips s @ [trip_row_of E ?t]\<rparr>"
    using ins by (auto simp: Trips_Insert_Inr put_trips_Inr split: if_splits)
  from s1 show ?thesis
    by (elim disjE) (auto simp: s' s2 tel trip_row_of_def open_trip_def)
qed

lemma rearm_request_tx_Inr:
  assumes "rearm_request_tx telco tid actor reason E s = Inr (u, s')"
  shows "s' = s\<lparr>next_id := next_id s', audit := audit s', trips := trips s'\<rparr>
    \<and> trips s' = upd_where (trip_at E tid ''TRIPPED'') (\<lambda>r. r\<lparr>t_state := ''REARM_REQUESTED'', t_by := Some actor\<rparr>) (trips s)"
proof -
  from assms obtain s1 where upd: "Trips_RequestRearm E tid actor s = Inr s1"
    and aud: "guardrail_audit E telco actor ''guardrail.rearm_requested'' ''guardrail_trip'' tid reason s1 = Inr (u, s')"
    unfolding rearm_request_tx_def run_simps by blast
  obtain a where "s' = s1\<lparr>next_id := Suc (next_id s1), audit := audit s1 @ [a]\<rparr>" using guardrail_audit_Inr [OF aud] ..
  with upd show ?thesis by (auto simp: Trips_RequestRearm_def trip_update_Inr put_trips_Inr)
qed

text \<open>The approved re-arm: one trip closes under a second name, and the programme resumes with the last one.\<close>

lemma rearm_approve_tx_Inr:
  assumes "rearm_approve_tx telco tid approver E s = Inr (u, s')"
  obtains t where "t \<in> set (trips s)" "trip_at E tid ''REARM_REQUESTED'' t" "t_by t \<noteq> None" "t_by t \<noteq> Some approver"
    "t\<lparr>t_state := ''REARMED'', t_approver := Some approver, t_rearmed := Some (now E)\<rparr> \<in> set (trips s')"
    "trips s' = upd_where (trip_at E tid ''REARM_REQUESTED'')
       (\<lambda>r. r\<lparr>t_state := ''REARMED'', t_approver := Some approver, t_rearmed := Some (now E)\<rparr>) (trips s)"
    "programmes s' = (if CountOpenForProgramme E (t_prog t) s' = 0 then resume E (t_prog t) (programmes s) else programmes s)"
    "CountOpenForProgramme E (t_prog t) s' = 0 \<longrightarrow> (\<exists>p \<in> set (programmes s). prog_at E (t_prog t) ProgrammeSuspended p)"
    "s' = s\<lparr>next_id := next_id s', audit := audit s', trips := trips s', programmes := programmes s'\<rparr>"
proof -
  let ?f = "\<lambda>r. r\<lparr>t_state := ''REARMED'', t_approver := Some approver, t_rearmed := Some (now E)\<rparr>"
  from assms obtain s1 and trip :: GuardrailTrip and s2 where upd: "rearm_update E tid approver s = Inr s1"
    and get: "Trips_Get E tid s1 = Inr trip"
    and st: "(if CountOpenForProgramme E (TrpProgrammeID trip) s1 = 0
              then Programmes_SetStatus E (TrpProgrammeID trip) ProgrammeSuspended ProgrammeActive s1
              else Inr s1) = Inr s2"
    and aud: "guardrail_audit E telco approver ''guardrail.rearmed'' ''guardrail_trip'' tid ''re-arm approved'' s2 = Inr (u, s')"
    unfolding rearm_approve_tx_def Trips_ApproveRearm_def run_simps by blast
  have s1: "s1 = s\<lparr>trips := upd_where (trip_at E tid ''REARM_REQUESTED'') ?f (trips s)\<rparr>"
    and ok: "list_all trip_checks (trips s1)" "distinct (map t_id (trips s1))"
    using upd by (auto simp: rearm_update_Inr trip_update_Inr put_trips_Inr)
  from upd obtain t where t: "t \<in> set (trips s)" "trip_at E tid ''REARM_REQUESTED'' t"
    by (auto simp: rearm_update_Inr trip_update_Inr)
  have ft: "?f t \<in> set (trips s1)" using t by (auto simp: s1 set_upd_where)
  from ok(1) ft have "trip_checks (?f t)" by (simp add: list_all_iff)
  then have four: "t_by t \<noteq> None" "t_by t \<noteq> Some approver" by (auto simp: trip_checks_def)
  from Trips_Get_InrD [OF get] obtain q where q: "q \<in> set (trips s1)" "t_id q = tid" "TrpProgrammeID trip = t_prog q" by blast
  from distinct_key_unique [OF ok(2) q(1) ft] q t have prog: "TrpProgrammeID trip = t_prog t" by simp
  obtain a where s': "s' = s2\<lparr>next_id := Suc (next_id s2), audit := audit s2 @ [a]\<rparr>" using guardrail_audit_Inr [OF aud] ..
  obtain P where s2: "s2 = s1\<lparr>programmes := P\<rparr>" and P: "P = (if CountOpenForProgramme E (t_prog t) s1 = 0
      then resume E (t_prog t) (programmes s) else programmes s)"
    and held: "CountOpenForProgramme E (t_prog t) s1 = 0 \<longrightarrow> (\<exists>p \<in> set (programmes s). prog_at E (t_prog t) ProgrammeSuspended p)"
    using st by (cases "CountOpenForProgramme E (t_prog t) s1 = 0") (auto simp: prog SetStatus_Inr resume_def s1)
  have trs: "trips s' = trips s1" by (simp add: s' s2)
  then have cnt: "CountOpenForProgramme E (t_prog t) s' = CountOpenForProgramme E (t_prog t) s1"
    by (simp add: CountOpenForProgramme_def)
  show ?thesis
  proof (rule that [OF t four])
    show "?f t \<in> set (trips s')" using ft trs by simp
    show "trips s' = upd_where (trip_at E tid ''REARM_REQUESTED'') ?f (trips s)" using trs s1 by simp
    show "programmes s' = (if CountOpenForProgramme E (t_prog t) s' = 0 then resume E (t_prog t) (programmes s) else programmes s)"
      using P cnt by (simp add: s' s2)
    show "CountOpenForProgramme E (t_prog t) s' = 0 \<longrightarrow> (\<exists>p \<in> set (programmes s). prog_at E (t_prog t) ProgrammeSuspended p)"
      using held cnt by simp
    show "s' = s\<lparr>next_id := next_id s', audit := audit s', trips := trips s', programmes := programmes s'\<rparr>"
      by (simp add: s' s2 s1)
  qed
qed


section \<open>Runs of the guardrail machine\<close>

text \<open>
  A step is one operation of the service, by any telco at any time and whatever its answer, or any
  step of the rest of the system, which writes neither trips nor programme states.
\<close>

inductive guardrail_run :: "db \<Rightarrow> db \<Rightarrow> bool" where
  run_start: "guardrail_run s s"
| run_trip: "guardrail_run s t \<Longrightarrow> guardrail_run s (snd (RecordTrip E telco prog g measured limit t))"
| run_request: "guardrail_run s t \<Longrightarrow> guardrail_run s (snd (RequestRearm E telco tid actor reason t))"
| run_approve: "guardrail_run s t \<Longrightarrow> guardrail_run s (snd (ApproveRearm E telco tid approver t))"
| run_other: "guardrail_run s t \<Longrightarrow> trips u = trips t \<Longrightarrow> programmes u = programmes t \<Longrightarrow> guardrail_run s u"

text \<open>No open trip beside an active programme.\<close>

definition tripped_safe :: "db \<Rightarrow> bool" where
  "tripped_safe s \<longleftrightarrow> (\<forall>t \<in> set (trips s). t_state t \<noteq> ''REARMED'' \<longrightarrow>
     (\<forall>p \<in> set (programmes s). pg_telco p = t_telco t \<longrightarrow> pg_id p = t_prog t \<longrightarrow> pg_status p \<noteq> ProgrammeActive))"

text \<open>Closed trips stay, and an active programme was active before or was re-armed by two people.\<close>

definition two_person :: "trip_row \<Rightarrow> bool" where
  "two_person t \<longleftrightarrow> t_state t = ''REARMED'' \<and> t_by t \<noteq> None \<and> t_approver t \<noteq> None \<and> t_by t \<noteq> t_approver t"

definition resumed_by_two :: "db \<Rightarrow> db \<Rightarrow> bool" where
  "resumed_by_two s s' \<longleftrightarrow>
     {t \<in> set (trips s). t_state t = ''REARMED''} \<subseteq> set (trips s')
   \<and> (\<forall>p \<in> set (programmes s'). pg_status p = ProgrammeActive \<longrightarrow> p \<in> set (programmes s)
        \<or> (\<exists>t \<in> set (trips s'). t_telco t = pg_telco p \<and> t_prog t = pg_id p \<and> two_person t))"

lemma resumed_by_two_refl: "resumed_by_two s s"
  by (auto simp: resumed_by_two_def)

lemma resumed_by_two_trans:
  assumes "resumed_by_two s t" "resumed_by_two t u"
  shows "resumed_by_two s u"
proof -
  have closed: "q \<in> set (trips u)" if "q \<in> set (trips t)" "two_person q" for q
    using assms(2) that by (auto simp: resumed_by_two_def two_person_def)
  show ?thesis unfolding resumed_by_two_def
  proof (intro conjI ballI impI)
    show "{t \<in> set (trips s). t_state t = ''REARMED''} \<subseteq> set (trips u)"
      using assms by (auto simp: resumed_by_two_def)
    fix p assume "p \<in> set (programmes u)" "pg_status p = ProgrammeActive"
    with assms closed show "p \<in> set (programmes s)
        \<or> (\<exists>t \<in> set (trips u). t_telco t = pg_telco p \<and> t_prog t = pg_id p \<and> two_person t)"
      unfolding resumed_by_two_def by meson
  qed
qed

definition guarded_step :: "db \<Rightarrow> db \<Rightarrow> bool" where
  "guarded_step s s' \<longleftrightarrow> (tripped_safe s \<longrightarrow> tripped_safe s') \<and> resumed_by_two s s'"

lemma guarded_same: "trips s' = trips s \<Longrightarrow> programmes s' = programmes s \<Longrightarrow> guarded_step s s'"
  by (auto simp: guarded_step_def tripped_safe_def resumed_by_two_def)

lemma in_suspend:
  "p \<in> set (suspend E prog ps) \<Longrightarrow> pg_status p = ProgrammeActive \<Longrightarrow>
   p \<in> set ps \<and> \<not> (pg_telco p = tenant E \<and> pg_id p = prog)"
  by (auto simp: suspend_def set_upd_where ProgrammeActive_def ProgrammeSuspended_def)

lemma in_resume:
  "p \<in> set (resume E prog ps) \<Longrightarrow> p \<in> set ps \<or> pg_telco p = tenant E \<and> pg_id p = prog"
  by (auto simp: resume_def set_upd_where)

lemma trip_guarded: "guarded_step s (snd (RecordTrip E telco prog g measured limit s))"
proof (cases "RecordTrip E telco prog g measured limit s")
  case (Pair r s')
  show ?thesis
  proof (cases r)
    case (Inl e)
    with Pair show ?thesis by (auto simp: RecordTrip_def dest: WithTenantTx_error intro: guarded_same)
  next
    case (Inr u)
    let ?E = "E\<lparr>tenant := telco\<rparr>"
    from Inr Pair have tx: "trip_tx telco prog g measured limit ?E s = Inr (u, s')"
      by (simp add: RecordTrip_def WithTenantTx_Inr)
    note eff = trip_tx_Inr [OF tx]
    have prg: "programmes s' = suspend ?E prog (programmes s)"
      using arg_cong [OF conjunct1 [OF conjunct2 [OF eff]], of programmes] by simp
    have new: "t \<in> set (trips s) \<or> t_telco t = telco \<and> t_prog t = prog" if "t \<in> set (trips s')" for t
      using eff that by auto
    have old: "set (trips s) \<subseteq> set (trips s')" using eff by auto
    have act: "p \<in> set (programmes s) \<and> \<not> (pg_telco p = telco \<and> pg_id p = prog)"
      if "p \<in> set (programmes s')" "pg_status p = ProgrammeActive" for p
      using in_suspend [of p ?E prog "programmes s"] that prg by simp
    have "tripped_safe s \<longrightarrow> tripped_safe s'" unfolding tripped_safe_def using new act by metis
    moreover have "resumed_by_two s s'" using old act by (auto simp: resumed_by_two_def)
    ultimately show ?thesis using Pair by (simp add: guarded_step_def)
  qed
qed

lemma request_guarded: "guarded_step s (snd (RequestRearm E telco tid actor reason s))"
proof (cases "RequestRearm E telco tid actor reason s")
  case (Pair r s')
  show ?thesis
  proof (cases r)
    case (Inl e)
    with Pair show ?thesis
      by (auto simp: RequestRearm_def split: if_splits dest: WithTenantTx_error intro: guarded_same)
  next
    case (Inr u)
    let ?E = "E\<lparr>tenant := telco\<rparr>"
    from Inr Pair have tx: "rearm_request_tx telco tid actor reason ?E s = Inr (u, s')"
      by (simp add: RequestRearm_def WithTenantTx_Inr split: if_splits)
    note eff = rearm_request_tx_Inr [OF tx]
    have prg: "programmes s' = programmes s" using arg_cong [OF conjunct1 [OF eff], of programmes] by simp
    have "tripped_safe s \<longrightarrow> tripped_safe s'" using eff prg by (auto simp: tripped_safe_def set_upd_where)
    moreover have "resumed_by_two s s'" using eff prg by (auto simp: resumed_by_two_def set_upd_where)
    ultimately show ?thesis using Pair by (simp add: guarded_step_def)
  qed
qed

lemma approve_guarded: "guarded_step s (snd (ApproveRearm E telco tid approver s))"
proof (cases "ApproveRearm E telco tid approver s")
  case (Pair r s')
  show ?thesis
  proof (cases r)
    case (Inl e)
    with Pair show ?thesis
      by (auto simp: ApproveRearm_def split: if_splits dest: WithTenantTx_error intro: guarded_same)
  next
    case (Inr u)
    let ?E = "E\<lparr>tenant := telco\<rparr>"
    let ?f = "\<lambda>r. r\<lparr>t_state := ''REARMED'', t_approver := Some approver, t_rearmed := Some (now ?E)\<rparr>"
    from Inr Pair have tx: "rearm_approve_tx telco tid approver ?E s = Inr (u, s')"
      by (simp add: ApproveRearm_def WithTenantTx_Inr split: if_splits)
    obtain t where "t \<in> set (trips s)" and t: "trip_at ?E tid ''REARM_REQUESTED'' t" "t_by t \<noteq> None"
      "t_by t \<noteq> Some approver" "?f t \<in> set (trips s')"
      and trs: "trips s' = upd_where (trip_at ?E tid ''REARM_REQUESTED'') ?f (trips s)"
      and prg: "programmes s' = (if CountOpenForProgramme ?E (t_prog t) s' = 0
          then resume ?E (t_prog t) (programmes s) else programmes s)"
      by (rule rearm_approve_tx_Inr [OF tx])
    have act: "p \<in> set (programmes s) \<or> pg_telco p = telco \<and> pg_id p = t_prog t \<and> CountOpenForProgramme ?E (t_prog t) s' = 0"
      if "p \<in> set (programmes s')" for p
      using in_resume [of p ?E "t_prog t" "programmes s"] that prg by (auto split: if_splits)
    have opn: "q \<in> set (trips s)" if "q \<in> set (trips s')" "t_state q \<noteq> ''REARMED''" for q
      using that trs by (auto simp: set_upd_where)
    have "tripped_safe s \<longrightarrow> tripped_safe s'"
      unfolding tripped_safe_def using act opn CountOpen_zero [of ?E "t_prog t" s'] by fastforce
    moreover have "two_person (?f t)" using t by (simp add: two_person_def)
    then have witness: "\<exists>q \<in> set (trips s'). t_telco q = telco \<and> t_prog q = t_prog t \<and> two_person q"
      using t(1,4) by (intro bexI [of _ "?f t"]) simp_all
    have closed: "{t \<in> set (trips s). t_state t = ''REARMED''} \<subseteq> set (trips s')" using trs by (auto simp: set_upd_where)
    have "resumed_by_two s s'" unfolding resumed_by_two_def
    proof (intro conjI ballI impI)
      fix p assume "p \<in> set (programmes s')"
      with act [of p] witness show "p \<in> set (programmes s)
          \<or> (\<exists>t \<in> set (trips s'). t_telco t = pg_telco p \<and> t_prog t = pg_id p \<and> two_person t)" by auto
    qed (rule closed)
    ultimately show ?thesis using Pair by (simp add: guarded_step_def)
  qed
qed

lemma run_guarded: "guardrail_run s s' \<Longrightarrow> guarded_step s s'"
proof (induction rule: guardrail_run.induct)
  case (run_start s)
  show ?case by (rule guarded_same) simp_all
next
  case (run_trip s t E telco prog g measured limit)
  with trip_guarded [of t E telco prog g measured limit] resumed_by_two_trans show ?case by (auto simp: guarded_step_def)
next
  case (run_request s t E telco tid actor reason)
  with request_guarded [of t E telco tid actor reason] resumed_by_two_trans show ?case by (auto simp: guarded_step_def)
next
  case (run_approve s t E telco tid approver)
  with approve_guarded [of t E telco tid approver] resumed_by_two_trans show ?case by (auto simp: guarded_step_def)
next
  case (run_other s t u)
  with guarded_same [of u t] resumed_by_two_trans show ?case by (auto simp: guarded_step_def)
qed


section \<open>Two people re-arm\<close>

definition rearm_maker :: "env \<Rightarrow> string \<Rightarrow> db \<Rightarrow> string option" where
  "rearm_maker E tid s = (case List.find (trip_at E tid ''REARM_REQUESTED'') (trips s) of None \<Rightarrow> None | Some r \<Rightarrow> t_by r)"

text \<open>The re-arm decision keeps the contract of a maker-checker decision.\<close>

interpretation rearm: four_eyes "\<lambda>E tid a to. rearm_update E tid a" rearm_maker "{''REARMED''}"
proof
  fix E i a and to :: string and s s'
  assume dec: "rearm_update E i a s = Inr s'"
  let ?f = "\<lambda>r. r\<lparr>t_state := ''REARMED'', t_approver := Some a, t_rearmed := Some (now E)\<rparr>"
  from dec have trs: "trips s' = upd_where (trip_at E i ''REARM_REQUESTED'') ?f (trips s)"
    and ok: "list_all trip_checks (trips s')" and ex: "\<exists>r \<in> set (trips s). trip_at E i ''REARM_REQUESTED'' r"
    by (auto simp: rearm_update_Inr trip_update_Inr put_trips_Inr)
  from ex obtain r where r: "List.find (trip_at E i ''REARM_REQUESTED'') (trips s) = Some r"
      "r \<in> set (trips s)" "trip_at E i ''REARM_REQUESTED'' r"
    using find_matching [of "trip_at E i ''REARM_REQUESTED''" "trips s"] by (auto simp: find_None_iff)
  have "?f r \<in> set (trips s')" using r trs by (auto simp: set_upd_where)
  with ok have "trip_checks (?f r)" by (simp add: list_all_iff)
  then have "t_by r \<noteq> None" "t_by r \<noteq> Some a" by (auto simp: trip_checks_def)
  moreover have "rearm_maker E i s = t_by r" using r(1) by (simp add: rearm_maker_def)
  ultimately show "\<exists>m. rearm_maker E i s = Some m \<and> m \<noteq> a" by (cases "t_by r") simp_all
  have "List.find (trip_at E i ''REARM_REQUESTED'') (trips s') = None"
    unfolding find_None_iff
  proof
    assume "\<exists>q. q \<in> set (trips s') \<and> trip_at E i ''REARM_REQUESTED'' q"
    then obtain q where "q \<in> set (trips s')" "trip_at E i ''REARM_REQUESTED'' q" by blast
    then show False unfolding trs using upd_where_settled [of "trip_at E i ''REARM_REQUESTED''" ?f q] by simp
  qed
  then show "rearm_maker E i s' = None" by (simp add: rearm_maker_def)
qed

section \<open>Properties\<close>


definition lending_db :: db where
  "lending_db = empty_db\<lparr>programmes := [\<lparr>pg_id = ''prg_1'', pg_telco = ''MTN_NG'', pg_status = ''ACTIVE''\<rparr>],
     pools := [sample_pool]\<rparr>"

definition ngn :: "i64 \<Rightarrow> money" where
  "ngn n = \<lparr>amount = n, currency = ''NGN''\<rparr>"

definition tripped_db :: db where
  "tripped_db = snd (RecordTrip sample_env ''MTN_NG'' ''prg_1'' ''OPEN_EXPOSURE'' (ngn 500) (ngn 400) lending_db)"

definition rearming_db :: db where
  "rearming_db = snd (RequestRearm sample_env ''MTN_NG'' ''trp_0'' ''ops_1'' ''cause removed'' tripped_db)"

lemma rearming_trips:
  "map (\<lambda>t. (t_id t, t_telco t, t_prog t, t_state t)) (trips rearming_db) = [(''trp_0'', ''MTN_NG'', ''prg_1'', ''REARM_REQUESTED'')]"
  "map pg_status (programmes rearming_db) = [''SUSPENDED'']"
  by code_simp+



text \<open>C13: the guardrails measure exactly. With a policy whose exposure ceiling is at most the whole
  commitment, \<^verbatim>\<open>EvaluateInTx\<close> reports a daily breach exactly when the disbursed amounts of the
  programme's advances accepted since midnight, declined and failed ones apart, exceed the daily
  limit; an exposure breach exactly when they do not and the pool's reserved and utilised amounts
  together exceed the ceiling, rounded half up; and lets the confirm proceed otherwise. The int64
  sum of reserved and utilised never wraps.\<close>

theorem EvaluateInTx_exact:
  assumes "G prog = Inr gc" and "Valid (currency m)" and "pools_ok s" and "r \<in> set (pools s)" and "pool_visible E pid r"
    and "in_i64 (today_sum E prog s)"
    and "0 \<le> sint (MaxOpenExposureBpsCommitted gc)" and "sint (MaxOpenExposureBpsCommitted gc) \<le> 10000"
  shows "EvaluateInTx E G prog pid m s =
    (let today = (\<Sum>a\<leftarrow>advances s. if counts_today E prog a then sint (a_disb a) else 0);
         opened = sint (p_reserved r) + sint (p_utilised r);
         ceiling = (2 * sint (p_committed r) * sint (MaxOpenExposureBpsCommitted gc) + 10000) div 20000;
         money = (\<lambda>x. \<lparr>amount = word_of_int x, currency = currency m\<rparr>) in
     if sint (MaxDailyDisbursedMinor gc) < today
       then Inl (BreachError ''DAILY_DISBURSED'' (money today) (money (sint (MaxDailyDisbursedMinor gc))))
     else if ceiling < opened then Inl (BreachError ''OPEN_EXPOSURE'' (money opened) (money ceiling))
     else Inr ())"
proof -
  let ?n = "sint (p_committed r) * sint (MaxOpenExposureBpsCommitted gc)" and ?c = "currency m"
  have today: "(\<Sum>a\<leftarrow>advances s. if counts_today E prog a then sint (a_disb a) else 0) = today_sum E prog s"
    unfolding today_sum_def by (simp add: sum_list_map_filter')
  have find: "List.find (pool_visible E pid) (pools s) = Some r"
  proof -
    from find_matching obtain q where "List.find (pool_visible E pid) (pools s) = Some q" "pool_visible E pid q" "q \<in> set (pools s)"
      using assms(4,5) by (metis find_None_iff)
    moreover from this have "q = r"
      using distinct_key_unique [of p_id "pools s" q r] assms(3,4,5) by (simp add: pools_ok_def pool_visible_def)
    ultimately show ?thesis by simp
  qed
  note bounds = pools_ok_sum [OF assms(3,4)] sint_bounds [of "p_committed r"]
  define opened where "opened = sint (p_reserved r) + sint (p_utilised r)"
  have open_sum: "in_i64 opened" using bounds by (simp add: in_i64_def opened_def)
  have word: "p_reserved r + p_utilised r = word_of_int opened" unfolding opened_def by (rule word_of_int_sint_add)
  have pos: "0 \<le> sint (p_committed r)" using bounds by linarith
  from half_up_nonneg_le [OF pos assms(7,8)] bounds have rng: "in_i64 (half_up ?n)" by (simp add: in_i64_def)
  have ceil: "half_up ?n = (2 * ?n + 10000) div 20000" using pos assms(7) by (intro half_up_nonneg) simp
  show ?thesis
    unfolding today opened_def [symmetric] mult.assoc ceil [symmetric]
    using assms(1,2,6) Valid_nonempty [OF assms(2)] find rng open_sum
    by (simp add: EvaluateInTx_def Let_def scan_int64_def PercentBps_eq word Cmp_def sameCurrency_def sint_of_int_i64)
qed


definition strict_guardrails :: guardrails_cfg where
  "strict_guardrails prog = Inr \<lparr>MaxDailyDisbursedMinor = 10000, MaxOpenExposureBpsCommitted = 4000\<rparr>"

theorem EvaluateInTx_exact_witness:
  "EvaluateInTx sample_env strict_guardrails ''prg_1'' ''pool_1'' (ngn 10) lending_db
     = Inl (BreachError ''OPEN_EXPOSURE'' (ngn 500) (ngn 400))"
proof -
  have "pools_ok lending_db"
    by (simp add: lending_db_def pools_ok_def sample_pool_def no_overallocation_def pool_checks_def)
  moreover have "sample_pool \<in> set (pools lending_db)" by (simp add: lending_db_def)
  moreover have "pool_visible sample_env ''pool_1'' sample_pool"
    by (simp add: pool_visible_def sample_pool_def sample_env_def)
  moreover have "Valid (currency (ngn 10))" "in_i64 (today_sum sample_env ''prg_1'' lending_db)"
    by (simp_all add: ngn_def Valid_def today_sum_def lending_db_def empty_db_def in_i64_def)
  ultimately show ?thesis
    using EvaluateInTx_exact [of strict_guardrails "''prg_1''" "\<lparr>MaxDailyDisbursedMinor = 10000, MaxOpenExposureBpsCommitted = 4000\<rparr>"
        "ngn 10" lending_db sample_pool sample_env "''pool_1''"]
    by (simp add: strict_guardrails_def lending_db_def empty_db_def sample_pool_def ngn_def Let_def)
qed

text \<open>re-arming takes two people and resumes lending only with the last trip. Whatever
  \<^verbatim>\<open>ApproveRearm\<close> is asked, either it fails and changes nothing, or the trip was awaiting a decision
  asked for by somebody else, the decision cannot be taken again, and the programme resumes exactly
  when no trip of it is left open.\<close>

theorem ApproveRearm_exact:
  "case ApproveRearm E telco tid approver s of
     (Inl e, s') \<Rightarrow> s' = s
   | (Inr u, s') \<Rightarrow> fst (ApproveRearm E' telco tid other s') \<notin> range Inr
       \<and> (\<exists>t \<in> set (trips s). t_telco t = telco \<and> t_id t = tid \<and> t_state t = ''REARM_REQUESTED''
            \<and> t_by t \<noteq> None \<and> t_by t \<noteq> Some approver
            \<and> programmes s' =
                (if \<exists>q \<in> set (trips s'). t_telco q = telco \<and> t_prog q = t_prog t \<and> t_state q \<noteq> ''REARMED'' then programmes s
                 else upd_where (\<lambda>p. pg_telco p = telco \<and> pg_id p = t_prog t \<and> pg_status p = ProgrammeSuspended)
                        (\<lambda>p. p\<lparr>pg_status := ProgrammeActive\<rparr>) (programmes s)))"
proof (cases "ApproveRearm E telco tid approver s")
  case (Pair r s')
  let ?E = "E\<lparr>tenant := telco\<rparr>" and ?E' = "E'\<lparr>tenant := telco\<rparr>"
  show ?thesis
  proof (cases r)
    case (Inl e)
    with Pair show ?thesis by (auto simp: ApproveRearm_def split: if_splits dest: WithTenantTx_error)
  next
    case (Inr u)
    from Inr Pair have tx: "rearm_approve_tx telco tid approver ?E s = Inr (u, s')"
      by (simp add: ApproveRearm_def WithTenantTx_Inr split: if_splits)
    obtain t where t: "t \<in> set (trips s)" "trip_at ?E tid ''REARM_REQUESTED'' t" "t_by t \<noteq> None" "t_by t \<noteq> Some approver"
      and ft: "t\<lparr>t_state := ''REARMED'', t_approver := Some approver, t_rearmed := Some (now ?E)\<rparr> \<in> set (trips s')"
      and trs: "trips s' = upd_where (trip_at ?E tid ''REARM_REQUESTED'')
          (\<lambda>r. r\<lparr>t_state := ''REARMED'', t_approver := Some approver, t_rearmed := Some (now ?E)\<rparr>) (trips s)"
      and prg: "programmes s' = (if CountOpenForProgramme ?E (t_prog t) s' = 0
          then resume ?E (t_prog t) (programmes s) else programmes s)"
      by (rule rearm_approve_tx_Inr [OF tx])
    have gone: "\<not> trip_at ?E' tid ''REARM_REQUESTED'' q" if "q \<in> set (trips s')" for q
      using that upd_where_settled [of "trip_at ?E tid ''REARM_REQUESTED''"
          "\<lambda>r. r\<lparr>t_state := ''REARMED'', t_approver := Some approver, t_rearmed := Some (now ?E)\<rparr>" q "trips s"]
      unfolding trs by simp
    have "rearm_approve_tx telco tid other ?E' s' \<noteq> Inr x" for x
    proof
      assume "rearm_approve_tx telco tid other ?E' s' = Inr x"
      then show False using gone by (cases x) (blast elim: rearm_approve_tx_Inr)
    qed
    then have "fst (ApproveRearm E' telco tid other s') \<notin> range Inr"
      by (auto simp: ApproveRearm_def WithTenantTx_def TenantFrom_def split: sum.splits)
    moreover have "programmes s' = (if \<exists>q \<in> set (trips s'). t_telco q = telco \<and> t_prog q = t_prog t \<and> t_state q \<noteq> ''REARMED''
        then programmes s else upd_where (prog_at ?E (t_prog t) ProgrammeSuspended) (\<lambda>p. p\<lparr>pg_status := ProgrammeActive\<rparr>) (programmes s))"
      unfolding prg CountOpen_zero resume_def by (auto split: if_splits)
    ultimately show ?thesis using Pair Inr t by (auto split: if_splits)
  qed
qed

end
