(* ===== verification/RepoEngagement.thy ===== *)
theory RepoEngagement
  imports RepoRecovery
begin

text \<open>
  The statements the origination flow uses beside the credit core: overlay flags, consent
  evidence and decision reads of \<^verbatim>\<open>repo/engagement.go\<close>, and the self-exclusion register of
  \<^verbatim>\<open>repo/selfexclusion.go\<close>.
\<close>

section \<open>Overlay flags\<close>

record OpenFlag =
  Flag :: string
  EffectiveFrom :: int

definition ListOpen :: "env \<Rightarrow> string \<Rightarrow> db \<Rightarrow> OpenFlag list" where
  "ListOpen E sub s =
     map (\<lambda>r. \<lparr>Flag = f_flag r, EffectiveFrom = f_from r\<rparr>)
       (filter (\<lambda>r. f_telco r = tenant E \<and> f_sub r = sub \<and> f_to r = None) (flags s))"

definition Flags_Raise :: "env \<Rightarrow> string \<Rightarrow> string \<Rightarrow> string \<Rightarrow> string \<Rightarrow> string \<Rightarrow> db \<Rightarrow> err + bool \<times> db" where
  "Flags_Raise E fid telco sub flag source s =
     andThen (rls_check E telco) (\<lambda>_.
     if flag \<notin> {''SIM_SWAP'', ''BARRED'', ''SELF_EXCLUDED'', ''FRAUD_SUSPECT'', ''DECEASED''}
       then Inl (Pg ''23514'' ''subscriber_flags_flag_check'')
     else if \<exists>r \<in> set (flags s). f_sub r = sub \<and> f_flag r = flag \<and> f_to r = None then Inr (False, s)
     else if \<exists>r \<in> set (flags s). f_id r = fid then Inl (Pg ''23505'' ''subscriber_flags_pkey'')
     else Inr (True, s\<lparr>flags := flags s @ [\<lparr>f_id = fid, f_telco = telco, f_sub = sub, f_flag = flag,
        f_source = source, f_from = now E, f_to = None\<rparr>]\<rparr>))"

definition Flags_Clear :: "env \<Rightarrow> string \<Rightarrow> string \<Rightarrow> db \<Rightarrow> err + db" where
  "Flags_Clear E sub flag s =
     Inr (s\<lparr>flags := upd_where (\<lambda>r. f_telco r = tenant E \<and> f_sub r = sub \<and> f_flag r = flag \<and> f_to r = None)
        (\<lambda>r. r\<lparr>f_to := Some (now E)\<rparr>) (flags s)\<rparr>)"

section \<open>Consent evidence\<close>

record Consent =
  ConsentID :: string
  CnsTelcoID :: string
  CnsAdvanceID :: string
  CnsSubscriberID :: string
  CnsDisclosureID :: string
  DisclosedTerms :: json
  CnsContentHash :: string
  CnsChannel :: string
  CnsSessionID :: string
  CnsAcceptedAt :: int
  CnsTelcoEvidence :: "string option"

text \<open>The evidence is a byte slice bound to a JSONB column; one consent per advance.\<close>

definition Consents_Insert :: "env \<Rightarrow> Consent \<Rightarrow> db \<Rightarrow> err + db" where
  "Consents_Insert E c s =
     andThen (jsonb_param E (CnsTelcoEvidence c)) (\<lambda>_.
     andThen (rls_check E (CnsTelcoID c)) (\<lambda>_.
     if \<exists>r \<in> set (consents s). cn_id r = ConsentID c then Inl (Pg ''23505'' ''consents_pkey'')
     else if \<exists>r \<in> set (consents s). cn_adv r = CnsAdvanceID c then Inl (Pg ''23505'' ''consents_advance_id_key'')
     else Inr (s\<lparr>consents := consents s @ [\<lparr>cn_id = ConsentID c, cn_telco = CnsTelcoID c, cn_adv = CnsAdvanceID c,
        cn_sub = CnsSubscriberID c, cn_disc = CnsDisclosureID c, cn_terms = DisclosedTerms c, cn_hash = CnsContentHash c,
        cn_channel = CnsChannel c, cn_session = CnsSessionID c, cn_accepted = CnsAcceptedAt c,
        cn_evidence = CnsTelcoEvidence c, cn_captured = now E\<rparr>]\<rparr>)))"

definition Consents_GetByAdvance :: "env \<Rightarrow> string \<Rightarrow> db \<Rightarrow> err + consent_row" where
  "Consents_GetByAdvance E aid s = queryRow (\<lambda>r. cn_telco r = tenant E \<and> cn_adv r = aid) (consents s)"

section \<open>Decisions and subscribers\<close>

definition Decisions_Get :: "env \<Rightarrow> string \<Rightarrow> db \<Rightarrow> err + DecisionSnapshot" where
  "Decisions_Get E did s =
     andThen (queryRow (\<lambda>r. d_telco r = tenant E \<and> d_id r = did) (decisions s)) (\<lambda>r.
     andThen (scanMoney (d_max r) (d_cur r)) (\<lambda>m.
     Inr \<lparr>DecID = d_id r, DecTelcoID = d_telco r, DecSubscriberID = d_sub r, MaxFaceValue = m,
          IsCurrent = d_current r, DecConfigVersionID = d_config r, TierCode = d_tier r,
          ScoringRunID = (case d_run r of None \<Rightarrow> '''' | Some x \<Rightarrow> x), ValidUntil = d_until r\<rparr>))"

text \<open>The scan of \<^verbatim>\<open>GetByID\<close> leaves the identity flag unset.\<close>

definition Subscribers_GetByID :: "env \<Rightarrow> string \<Rightarrow> db \<Rightarrow> err + SubscriberAccount" where
  "Subscribers_GetByID E sid s =
     andThen (queryRow (\<lambda>r. sub_telco r = tenant E \<and> sub_id r = sid) (subs s)) (\<lambda>r. Inr (r\<lparr>sub_nin := None\<rparr>))"

definition Subscribers_SetStatus :: "env \<Rightarrow> string \<Rightarrow> string \<Rightarrow> string \<Rightarrow> db \<Rightarrow> err + db" where
  "Subscribers_SetStatus E sid frm to s =
     (let p = (\<lambda>r. sub_telco r = tenant E \<and> sub_id r = sid \<and> sub_status r = frm \<and> sub_to r = None) in
      if filter p (subs s) = [] then Inl ErrNotFound
      else Inr (s\<lparr>subs := upd_where p (\<lambda>r. r\<lparr>sub_status := to\<rparr>) (subs s)\<rparr>))"

section \<open>The self-exclusion register\<close>

record SelfExclusion =
  ExclusionID :: string
  SxcTelcoID :: string
  SxcSubscriberID :: string
  SxcState :: string
  SxcChannel :: string
  SxcReason :: string
  SxcRequestedAt :: int
  MinUntil :: int

definition SelfExclusions_Insert :: "env \<Rightarrow> SelfExclusion \<Rightarrow> db \<Rightarrow> err + db" where
  "SelfExclusions_Insert E e s =
     andThen (rls_check E (SxcTelcoID e)) (\<lambda>_.
     if MinUntil e < now E then Inl (Pg ''23514'' ''self_exclusions_check'')
     else if \<exists>r \<in> set (selfexcls s). sx_id r = ExclusionID e then Inl (Pg ''23505'' ''self_exclusions_pkey'')
     else if \<exists>r \<in> set (selfexcls s). sx_sub r = SxcSubscriberID e \<and> sx_state r = ''ACTIVE''
       then Inl (Pg ''23505'' ''self_exclusions_active_uq'')
     else Inr (s\<lparr>selfexcls := selfexcls s @ [\<lparr>sx_id = ExclusionID e, sx_telco = SxcTelcoID e,
        sx_sub = SxcSubscriberID e, sx_state = ''ACTIVE'', sx_channel = SxcChannel e,
        sx_reason = NULLIF_empty (SxcReason e), sx_requested = now E, sx_until = MinUntil e,
        sx_reinstated = None, sx_rchannel = None\<rparr>]\<rparr>))"

definition active_exclusion :: "env \<Rightarrow> string \<Rightarrow> selfexcl_row \<Rightarrow> bool" where
  "active_exclusion E sub r \<longleftrightarrow> sx_telco r = tenant E \<and> sx_sub r = sub \<and> sx_state r = ''ACTIVE''"

definition GetActiveBySubscriber :: "env \<Rightarrow> string \<Rightarrow> db \<Rightarrow> SelfExclusion option" where
  "GetActiveBySubscriber E sub s =
     map_option (\<lambda>r. \<lparr>ExclusionID = sx_id r, SxcTelcoID = sx_telco r, SxcSubscriberID = sx_sub r,
        SxcState = sx_state r, SxcChannel = sx_channel r,
        SxcReason = (case sx_reason r of None \<Rightarrow> '''' | Some x \<Rightarrow> x), SxcRequestedAt = sx_requested r,
        MinUntil = sx_until r\<rparr>)
       (List.find (active_exclusion E sub) (selfexcls s))"

definition MarkReinstated :: "env \<Rightarrow> string \<Rightarrow> string \<Rightarrow> db \<Rightarrow> err + bool \<times> db" where
  "MarkReinstated E xid channel s =
     (let p = (\<lambda>r. sx_telco r = tenant E \<and> sx_id r = xid \<and> sx_state r = ''ACTIVE'' \<and> sx_until r \<le> now E) in
      Inr (length (filter p (selfexcls s)) = 1,
           s\<lparr>selfexcls := upd_where p (\<lambda>r. r\<lparr>sx_state := ''REINSTATED'', sx_reinstated := Some (now E),
               sx_rchannel := Some channel\<rparr>) (selfexcls s)\<rparr>))"

section \<open>What the statements do\<close>

lemma jsonb_param_Inr [res_simps]:
  "jsonb_param E raw = Inr v \<longleftrightarrow> (case raw of None \<Rightarrow> v = None | Some b \<Rightarrow> v \<noteq> None \<and> v = jsonb_in E b)"
  by (auto simp: jsonb_param_def split: option.splits)

lemma Consents_Insert_Inr:
  "Consents_Insert E c s = Inr s' \<Longrightarrow> CnsTelcoID c = tenant E \<and> (\<exists>r. s' = s\<lparr>consents := consents s @ [r]\<rparr>
     \<and> cn_adv r = CnsAdvanceID c \<and> cn_disc r = CnsDisclosureID c \<and> cn_hash r = CnsContentHash c
     \<and> cn_channel r = CnsChannel c \<and> cn_session r = CnsSessionID c \<and> cn_accepted r = CnsAcceptedAt c)"
  by (auto simp: Consents_Insert_def andThen_Inr_iff rls_check_Inr split: if_splits)

lemma Subscribers_SetStatus_Inr [res_simps]:
  "Subscribers_SetStatus E sid frm to s = Inr s' \<longleftrightarrow>
     (\<exists>r \<in> set (subs s). sub_telco r = tenant E \<and> sub_id r = sid \<and> sub_status r = frm \<and> sub_to r = None)
     \<and> s' = s\<lparr>subs := upd_where (\<lambda>r. sub_telco r = tenant E \<and> sub_id r = sid \<and> sub_status r = frm \<and> sub_to r = None)
               (\<lambda>r. r\<lparr>sub_status := to\<rparr>) (subs s)\<rparr>"
  by (auto simp: Subscribers_SetStatus_def Let_def filter_empty_conv)

lemma SelfExclusions_Insert_Inr:
  "SelfExclusions_Insert E e s = Inr s' \<Longrightarrow> SxcTelcoID e = tenant E \<and> now E \<le> MinUntil e
     \<and> (\<forall>r \<in> set (selfexcls s). sx_sub r = SxcSubscriberID e \<longrightarrow> sx_state r \<noteq> ''ACTIVE'')
     \<and> (\<exists>r. s' = s\<lparr>selfexcls := selfexcls s @ [r]\<rparr> \<and> sx_id r = ExclusionID e \<and> sx_telco r = tenant E
          \<and> sx_sub r = SxcSubscriberID e \<and> sx_state r = ''ACTIVE'' \<and> sx_until r = MinUntil e)"
  by (auto simp: SelfExclusions_Insert_def andThen_Inr_iff rls_check_Inr split: if_splits)

lemma GetActive_Some:
  "GetActiveBySubscriber E sub s = Some e \<Longrightarrow>
   \<exists>r \<in> set (selfexcls s). active_exclusion E sub r \<and> ExclusionID e = sx_id r \<and> MinUntil e = sx_until r"
  by (auto simp: GetActiveBySubscriber_def dest!: find_SomeD)

lemma GetActive_None:
  "GetActiveBySubscriber E sub s = None \<longleftrightarrow> (\<forall>r \<in> set (selfexcls s). \<not> active_exclusion E sub r)"
  by (auto simp: GetActiveBySubscriber_def find_None_iff)

end
