(* ===== verification/Adapter.thy ===== *)
theory Adapter
  imports Store
begin

text \<open>
  The telco adapter of \<^verbatim>\<open>mno/\<close>: the circuit breaker (\<^verbatim>\<open>breaker.go\<close>), outbound partner
  authentication with its token cache (\<^verbatim>\<open>auth.go\<close>) and the classification of a submission and of
  a status enquiry (\<^verbatim>\<open>adapter.go\<close>). The network, the process environment and the encodings of the
  standard library are parameters. The ring buffer of the breaker is shown to be the list of the
  last outcomes.
\<close>

section \<open>The circuit breaker\<close>

datatype breakerState = breakerClosed | breakerOpen | breakerHalfOpen

record breakerCfg =
  thresholdPct :: int
  minRequests :: int
  cooldown :: int

record breaker =
  b_cfg :: breakerCfg
  b_state :: breakerState
  window :: "bool list"
  pos :: nat
  filled :: nat
  failures :: int
  openUntil :: int

definition newBreaker :: "breakerCfg \<Rightarrow> breaker" where
  "newBreaker cfg =
     (let size = (if minRequests cfg < 1 then 1 else minRequests cfg) in
      \<lparr>b_cfg = cfg, b_state = breakerClosed, window = replicate (nat size) False, pos = 0, filled = 0, failures = 0,
       openUntil = 0\<rparr>)"

definition allow :: "int \<Rightarrow> breaker \<Rightarrow> bool \<times> breaker" where
  "allow t b =
     (case b_state b of
        breakerOpen \<Rightarrow> if t < openUntil b then (False, b) else (True, b\<lparr>b_state := breakerHalfOpen\<rparr>)
      | breakerHalfOpen \<Rightarrow> (False, b)
      | breakerClosed \<Rightarrow> (True, b))"

definition clearWindow :: "breaker \<Rightarrow> breaker" where
  "clearWindow b = b\<lparr>window := map (\<lambda>_. False) (window b), pos := 0, filled := 0, failures := 0\<rparr>"

definition trip :: "int \<Rightarrow> breaker \<Rightarrow> breaker" where
  "trip t b = clearWindow (b\<lparr>b_state := breakerOpen, openUntil := t + cooldown (b_cfg b)\<rparr>)"

definition reset :: "breaker \<Rightarrow> breaker" where
  "reset b = clearWindow (b\<lparr>b_state := breakerClosed\<rparr>)"

text \<open>The window slides by one sample.\<close>

definition slide :: "bool \<Rightarrow> breaker \<Rightarrow> breaker" where
  "slide success b =
     (let b = (if filled b = length (window b)
               then (if window b ! pos b then b\<lparr>failures := failures b - 1\<rparr> else b)
               else b\<lparr>filled := filled b + 1\<rparr>);
          b = b\<lparr>window := (window b)[pos b := \<not> success]\<rparr>;
          b = (if \<not> success then b\<lparr>failures := failures b + 1\<rparr> else b)
      in b\<lparr>pos := (pos b + 1) mod length (window b)\<rparr>)"

definition record_outcome :: "int \<Rightarrow> bool \<Rightarrow> breaker \<Rightarrow> breaker" where
  "record_outcome t success b =
     (if b_state b = breakerHalfOpen then (if success then reset b else trip t b)
      else
        let b = slide success b in
        if int (filled b) \<ge> minRequests (b_cfg b) \<and> failures b * 100 \<ge> thresholdPct (b_cfg b) * int (filled b)
        then trip t b else b)"

section \<open>Requests and results\<close>

datatype Outcome = OutcomeConfirmed | OutcomeFailed | OutcomeUnknown | OutcomeNotFound | OtherOutcome string

definition definitiveRejection :: "int \<Rightarrow> bool" where
  "definitiveRejection code \<longleftrightarrow> code \<in> {400, 401, 403, 404, 409, 422}"

record FulfilmentRequest =
  PlatformRequestID :: string
  ReqSubscriberID :: string
  ReqMSISDNToken :: string
  ProductType :: string
  ReqFaceValue :: money
  OfferSnapshotID :: string

record Result =
  outcome :: Outcome
  TelcoRef :: string
  RequestEvidence :: "string option"
  ResponseEvidence :: "string option"
  NotSent :: bool

definition noResult :: Result where
  "noResult = \<lparr>outcome = OtherOutcome '''', TelcoRef = '''', RequestEvidence = None, ResponseEvidence = None, NotSent = False\<rparr>"

record authCfg =
  Scheme :: string
  Header :: string
  SecretEnv :: string
  TokenURL :: string
  ClientID :: string
  ClientSecretEnv :: string
  Scope :: string
  Audience :: string

record adapterCfg =
  FulfilmentURL :: string
  CircuitErrThreshPct :: int
  CircuitMinRequests :: int
  CircuitCooldownSeconds :: int
  Auth :: "authCfg option"

text \<open>
  What the adapter meets outside: environment variables, request construction, the wire, and the
  encodings. A response is a status code, the bytes read of its body and the error that ended the
  reading early, if any.
\<close>

record http_req =
  hr_method :: string
  hr_url :: string
  hr_headers :: "(string \<times> string) list"
  hr_body :: string

record http_resp =
  StatusCode :: int
  resp_raw :: string
  resp_err :: "err option"

record world =
  getenv :: "string \<Rightarrow> string"
  newRequest :: "string \<Rightarrow> err + unit"
  send :: "http_req \<Rightarrow> err + http_resp"
  form_encode :: "(string \<times> string) list \<Rightarrow> string"
  token_json :: "string \<Rightarrow> err + string \<times> int"
  wire_json :: "string \<Rightarrow> err + string \<times> string"

record adapter =
  breakers :: "string \<Rightarrow> breaker option"
  tokens :: "string \<Rightarrow> (string \<times> int) option"

section \<open>Partner authentication\<close>

definition token_request :: "world \<Rightarrow> authCfg \<Rightarrow> http_req" where
  "token_request W au =
     \<lparr>hr_method = ''POST'', hr_url = TokenURL au,
      hr_headers = [(''Content-Type'', ''application/x-www-form-urlencoded''), (''Accept'', ''application/json'')],
      hr_body = form_encode W ([(''grant_type'', ''client_credentials''), (''client_id'', ClientID au),
            (''client_secret'', getenv W (ClientSecretEnv au))]
          @ (if Scope au \<noteq> '''' then [(''scope'', Scope au)] else [])
          @ (if Audience au \<noteq> '''' then [(''audience'', Audience au)] else []))\<rparr>"

definition token_of :: "world \<Rightarrow> http_resp \<Rightarrow> err + string \<times> int" where
  "token_of W resp =
     (if StatusCode resp \<noteq> 200 then Inl (Fmt ''oauth2 token endpoint status'')
      else andThen (token_json W (resp_raw resp)) (\<lambda>(tok, expiresIn).
      if tok = '''' then Inl (Fmt ''oauth2 token endpoint returned no access_token'')
      else Inr (tok, if expiresIn < 60 then 60 else expiresIn)))"

definition fetch_token :: "env \<Rightarrow> world \<Rightarrow> string \<Rightarrow> authCfg \<Rightarrow> adapter \<Rightarrow> (err + string) \<times> adapter" where
  "fetch_token E W key au a =
     (case (if getenv W (ClientSecretEnv au) = '''' then Inl (Fmt ''oauth2 client secret env is empty'')
            else andThen (newRequest W (TokenURL au)) (\<lambda>_.
            andThen (send W (token_request W au)) (token_of W))) of
        Inl e \<Rightarrow> (Inl e, a)
      | Inr (tok, ttl) \<Rightarrow> (Inr tok, a\<lparr>tokens := (tokens a)(key \<mapsto> (tok, now E + ttl * second))\<rparr>))"

definition oauthToken :: "env \<Rightarrow> world \<Rightarrow> string \<Rightarrow> authCfg \<Rightarrow> adapter \<Rightarrow> (err + string) \<times> adapter" where
  "oauthToken E W telco au a =
     (let key = telco @ ''|'' @ TokenURL au @ ''|'' @ ClientID au in
      case tokens a key of
        Some (tok, expiry) \<Rightarrow> if now E < expiry - 30 * second then (Inr tok, a) else fetch_token E W key au a
      | None \<Rightarrow> fetch_token E W key au a)"

text \<open>The authentication of a request is the header it adds, if any.\<close>

definition applyAuth :: "env \<Rightarrow> world \<Rightarrow> string \<Rightarrow> adapterCfg \<Rightarrow> adapter \<Rightarrow> (err + (string \<times> string) list) \<times> adapter" where
  "applyAuth E W telco cfg a =
     (case Auth cfg of
        None \<Rightarrow> (Inr [], a)
      | Some au \<Rightarrow>
          if Scheme au = '''' \<or> Scheme au = ''none'' then (Inr [], a)
          else if Scheme au = ''apikey'' then
            (let secret = getenv W (SecretEnv au) in
             if secret = '''' then (Inl (Fmt ''apikey secret env is empty''), a) else (Inr [(Header au, secret)], a))
          else if Scheme au = ''oauth2'' then
            (case oauthToken E W telco au a of
               (Inl e, a) \<Rightarrow> (Inl e, a)
             | (Inr tok, a) \<Rightarrow> (Inr [(''Authorization'', ''Bearer '' @ tok)], a))
          else (Inl (Fmt ''unsupported outbound auth scheme''), a))"

section \<open>Submission and enquiry\<close>

definition breakerFor :: "string \<Rightarrow> adapterCfg \<Rightarrow> adapter \<Rightarrow> breaker" where
  "breakerFor telco cfg a =
     (case breakers a telco of
        Some b \<Rightarrow> b
      | None \<Rightarrow> newBreaker \<lparr>thresholdPct = CircuitErrThreshPct cfg, minRequests = CircuitMinRequests cfg,
                  cooldown = CircuitCooldownSeconds cfg * second\<rparr>)"

definition not_sent :: "string \<Rightarrow> Result \<Rightarrow> Result" where
  "not_sent reason res = res\<lparr>outcome := OutcomeFailed, NotSent := True,
     ResponseEvidence := Some (''{\"not_sent\":true,\"reason\":'' @ reason @ ''}'')\<rparr>"

definition unknown_because :: "env \<Rightarrow> string \<Rightarrow> string \<Rightarrow> Result \<Rightarrow> Result" where
  "unknown_because E what reason res = res\<lparr>outcome := OutcomeUnknown,
     ResponseEvidence := Some (''{\"'' @ what @ ''\":'' @ quoted E reason @ ''}'')\<rparr>"

definition wire_status :: "world \<Rightarrow> string \<Rightarrow> Result \<Rightarrow> Result" where
  "wire_status W raw res =
     (case wire_json W raw of
        Inl _ \<Rightarrow> res\<lparr>outcome := OutcomeUnknown\<rparr>
      | Inr (ref, status) \<Rightarrow> res\<lparr>TelcoRef := ref, outcome :=
          (if status = ''SUCCESS'' then OutcomeConfirmed else if status = ''FAILED'' then OutcomeFailed else OutcomeUnknown)\<rparr>)"

definition submit_body :: "env \<Rightarrow> FulfilmentRequest \<Rightarrow> string" where
  "submit_body E req = marshal E (JObj [(''platform_request_id'', JStr (PlatformRequestID req)),
     (''subscriber_account_id'', JStr (ReqSubscriberID req)), (''msisdn_token'', JStr (ReqMSISDNToken req)),
     (''product_type'', JStr (ProductType req)), (''face_value_minor'', JNum (amount (ReqFaceValue req))),
     (''currency'', JStr (currency (ReqFaceValue req))), (''offer_snapshot_id'', JStr (OfferSnapshotID req))])"

text \<open>What the answer of the telco, or its absence, says about the submission.\<close>

definition classify_submit :: "env \<Rightarrow> world \<Rightarrow> http_resp \<Rightarrow> Result \<Rightarrow> Result" where
  "classify_submit E W resp res =
     (case resp_err resp of
        Some e \<Rightarrow> unknown_because E ''read_error'' (err_text E e) res
      | None \<Rightarrow>
          let res = res\<lparr>ResponseEvidence := Some (resp_raw resp)\<rparr> in
          if StatusCode resp \<noteq> 200
          then res\<lparr>outcome := (if definitiveRejection (StatusCode resp) then OutcomeFailed else OutcomeUnknown)\<rparr>
          else wire_status W (resp_raw resp) res)"

definition SubmitFulfilment ::
  "env \<Rightarrow> world \<Rightarrow> (string \<Rightarrow> err + adapterCfg) \<Rightarrow> string \<Rightarrow> string \<Rightarrow> FulfilmentRequest \<Rightarrow> adapter \<Rightarrow> Result \<times> adapter" where
  "SubmitFulfilment E W cfgFor telco key req a =
     (case cfgFor telco of
        Inl e \<Rightarrow> (not_sent (quoted E (''adapter config load failed: '' @ err_text E e)) noResult, a)
      | Inr cfg \<Rightarrow>
          let body = submit_body E req;
              res = noResult\<lparr>RequestEvidence := Some body\<rparr>;
              (ok, br) = allow (now E) (breakerFor telco cfg a);
              a = a\<lparr>breakers := (breakers a)(telco \<mapsto> br)\<rparr>;
              url = FulfilmentURL cfg @ ''/v1/telcos/'' @ telco @ ''/fulfilments'' in
          if \<not> ok then (not_sent ''\"circuit_open\"'' res, a)
          else case newRequest W url of
            Inl e \<Rightarrow> (not_sent (quoted E (''build request failed: '' @ err_text E e)) res, a)
          | Inr _ \<Rightarrow>
             (case applyAuth E W telco cfg a of
                (Inl e, a) \<Rightarrow> (not_sent (quoted E (''outbound auth failed: '' @ err_text E e)) res, a)
              | (Inr auth, a) \<Rightarrow>
                 (case send W \<lparr>hr_method = ''POST'', hr_url = url, hr_headers = [(''Content-Type'', ''application/json''),
                      (''Idempotency-Key'', key)] @ auth, hr_body = body\<rparr> of
                    Inl e \<Rightarrow> (unknown_because E ''transport_error'' (err_text E e) res,
                             a\<lparr>breakers := (breakers a)(telco \<mapsto> record_outcome (now E) False br)\<rparr>)
                  | Inr resp \<Rightarrow> (classify_submit E W resp res,
                             a\<lparr>breakers := (breakers a)(telco \<mapsto> record_outcome (now E) (StatusCode resp < 500) br)\<rparr>))))"

definition EnquireStatus ::
  "env \<Rightarrow> world \<Rightarrow> (string \<Rightarrow> err + adapterCfg) \<Rightarrow> string \<Rightarrow> string \<Rightarrow> adapter \<Rightarrow> (err + Result) \<times> adapter" where
  "EnquireStatus E W cfgFor telco reqID a =
     (case cfgFor telco of
        Inl e \<Rightarrow> (Inl (Fmt ''mno: adapter config missing''), a)
      | Inr cfg \<Rightarrow>
          let url = FulfilmentURL cfg @ ''/v1/telcos/'' @ telco @ ''/fulfilments/'' @ reqID in
          case newRequest W url of
            Inl e \<Rightarrow> (Inl e, a)
          | Inr _ \<Rightarrow>
             (case applyAuth E W telco cfg a of
                (Inl e, a) \<Rightarrow> (Inl e, a)
              | (Inr auth, a) \<Rightarrow>
                 (case send W \<lparr>hr_method = ''GET'', hr_url = url, hr_headers = auth, hr_body = ''''\<rparr> of
                    Inl e \<Rightarrow> (Inr (unknown_because E ''transport_error'' (err_text E e) noResult), a)
                  | Inr resp \<Rightarrow>
                      let res = noResult\<lparr>ResponseEvidence := Some (resp_raw resp)\<rparr> in
                      (Inr (if StatusCode resp = 404 then res\<lparr>outcome := OutcomeNotFound\<rparr>
                            else if StatusCode resp = 200 then wire_status W (resp_raw resp) res
                            else res\<lparr>outcome := OutcomeUnknown\<rparr>), a))))"


section \<open>The ring buffer is the list of the last outcomes\<close>

text \<open>The samples a breaker holds, oldest first.\<close>

definition recent :: "breaker \<Rightarrow> bool list" where
  "recent b = (if filled b = length (window b) then drop (pos b) (window b) @ take (pos b) (window b)
               else take (filled b) (window b))"

definition fails :: "bool list \<Rightarrow> int" where
  "fails h = int (length (filter id h))"

definition last_n :: "nat \<Rightarrow> 'a list \<Rightarrow> 'a list" where
  "last_n n xs = drop (length xs - n) xs"

definition breaker_ok :: "breaker \<Rightarrow> bool" where
  "breaker_ok b \<longleftrightarrow> length (window b) = nat (max 1 (minRequests (b_cfg b))) \<and> pos b < length (window b)
     \<and> filled b \<le> length (window b) \<and> (filled b < length (window b) \<longrightarrow> pos b = filled b)
     \<and> failures b = fails (recent b)"

lemma fails_append [simp]: "fails (xs @ ys) = fails xs + fails ys"
  and fails_Nil [simp]: "fails [] = 0"
  and fails_Cons [simp]: "fails (x # xs) = (if x then 1 else 0) + fails xs"
  by (simp_all add: fails_def)

lemma length_recent: "breaker_ok b \<Longrightarrow> length (recent b) = filled b"
  by (auto simp: breaker_ok_def recent_def)

lemma take_update_last: "i < length w \<Longrightarrow> take (Suc i) (w[i := x]) = take i w @ [x]"
  by (simp add: take_Suc_conv_app_nth)

text \<open>A partial window grows by one sample.\<close>

lemma slide_partial:
  assumes ok: "breaker_ok b" and part: "filled b < length (window b)"
  shows "recent (slide success b) = recent b @ [\<not> success] \<and> breaker_ok (slide success b)"
proof -
  let ?n = "length (window b)"
  have p: "pos b = filled b" using ok part by (simp add: breaker_ok_def)
  have r: "recent b = take (filled b) (window b)" using part by (simp add: recent_def)
  have len: "length (window (slide success b)) = ?n" "filled (slide success b) = filled b + 1"
    "window (slide success b) = (window b)[filled b := \<not> success]" "pos (slide success b) = (filled b + 1) mod ?n"
    "failures (slide success b) = failures b + (if success then 0 else 1)" "b_cfg (slide success b) = b_cfg b"
    using part p by (auto simp: slide_def Let_def)
  have rec: "recent (slide success b) = recent b @ [\<not> success]"
  proof (cases "filled b + 1 = ?n")
    case True
    then have "recent (slide success b) = (window b)[filled b := \<not> success]" using len by (simp add: recent_def)
    also have "\<dots> = take (Suc (filled b)) ((window b)[filled b := \<not> success])" using True by simp
    finally show ?thesis using part r by (simp add: take_update_last del: take_Suc)
  next
    case False
    with len part have "recent (slide success b) = take (Suc (filled b)) ((window b)[filled b := \<not> success])"
      by (simp add: recent_def)
    with part r show ?thesis by (simp add: take_update_last)
  qed
  moreover have "filled b + 1 < ?n \<Longrightarrow> (filled b + 1) mod ?n = filled b + 1" by simp
  moreover have "0 < ?n" using part by linarith
  ultimately show ?thesis using ok part len by (auto simp: breaker_ok_def rec)
qed

text \<open>A full window loses its oldest sample.\<close>

lemma slide_full:
  assumes ok: "breaker_ok b" and full: "filled b = length (window b)"
  shows "recent (slide success b) = tl (recent b) @ [\<not> success] \<and> breaker_ok (slide success b)"
proof -
  let ?n = "length (window b)" and ?w = "window b" and ?i = "pos b"
  have i: "?i < ?n" using ok by (simp add: breaker_ok_def)
  then have split: "drop ?i ?w = ?w ! ?i # drop (Suc ?i) ?w" by (rule Cons_nth_drop_Suc [symmetric])
  have r: "recent b = ?w ! ?i # drop (Suc ?i) ?w @ take ?i ?w" using full split by (simp add: recent_def)
  have st: "length (window (slide success b)) = ?n" "filled (slide success b) = ?n"
    "window (slide success b) = ?w[?i := \<not> success]" "pos (slide success b) = (?i + 1) mod ?n"
    "failures (slide success b) = failures b - (if ?w ! ?i then 1 else 0) + (if success then 0 else 1)"
    "b_cfg (slide success b) = b_cfg b"
    using full by (auto simp: slide_def Let_def)
  have rec: "recent (slide success b) = tl (recent b) @ [\<not> success]"
  proof (cases "?i + 1 = ?n")
    case True
    then have "recent (slide success b) = take (Suc ?i) (?w[?i := \<not> success])" using st by (simp add: recent_def)
    also have "\<dots> = take ?i ?w @ [\<not> success]" by (rule take_update_last [OF i])
    finally show ?thesis using True r by simp
  next
    case False
    with i have "recent (slide success b) = drop (Suc ?i) ?w @ take (Suc ?i) (?w[?i := \<not> success])"
      using st by (simp add: recent_def drop_update_cancel)
    with i r show ?thesis by (simp add: take_update_last)
  qed
  moreover have "(?i + 1) mod ?n < ?n" using i by (intro mod_less_divisor) linarith
  ultimately show ?thesis using ok st r by (auto simp: breaker_ok_def rec)
qed

lemma slide_recent:
  assumes "breaker_ok b"
  shows "recent (slide success b) = last_n (length (window b)) (recent b @ [\<not> success]) \<and> breaker_ok (slide success b)
    \<and> b_state (slide success b) = b_state b \<and> openUntil (slide success b) = openUntil b
    \<and> b_cfg (slide success b) = b_cfg b \<and> length (window (slide success b)) = length (window b)"
proof -
  have "b_state (slide success b) = b_state b \<and> openUntil (slide success b) = openUntil b
    \<and> b_cfg (slide success b) = b_cfg b \<and> length (window (slide success b)) = length (window b)"
    by (simp add: slide_def Let_def)
  moreover have "recent (slide success b) = last_n (length (window b)) (recent b @ [\<not> success]) \<and> breaker_ok (slide success b)"
  proof (cases "filled b < length (window b)")
    case True
    with slide_partial [OF assms] length_recent [OF assms] show ?thesis by (simp add: last_n_def)
  next
    case False
    with assms have full: "filled b = length (window b)" by (simp add: breaker_ok_def)
    have "recent b \<noteq> []" using length_recent [OF assms] full assms by (auto simp: breaker_ok_def)
    moreover from this have "Suc 0 - length (window b) = 0" using length_recent [OF assms] full by (cases "window b") auto
    ultimately show ?thesis
      using slide_full [OF assms full] length_recent [OF assms] full by (simp add: last_n_def drop_Suc)
  qed
  ultimately show ?thesis by blast
qed


section \<open>The breaker as a specification\<close>

text \<open>
  The specification: a state, the last outcomes, and the end of the cool-down. A full sample whose
  failure percentage reaches the threshold opens the circuit.
\<close>

record circuit =
  c_phase :: breakerState
  c_recent :: "bool list"
  c_until :: int

definition circuit_of :: "breaker \<Rightarrow> circuit" where
  "circuit_of b = \<lparr>c_phase = b_state b, c_recent = recent b, c_until = openUntil b\<rparr>"

definition spec_allow :: "int \<Rightarrow> circuit \<Rightarrow> bool \<times> circuit" where
  "spec_allow t c = (if c_phase c = breakerOpen \<and> c_until c \<le> t then (True, c\<lparr>c_phase := breakerHalfOpen\<rparr>)
                     else (c_phase c = breakerClosed, c))"

definition spec_record :: "breakerCfg \<Rightarrow> int \<Rightarrow> bool \<Rightarrow> circuit \<Rightarrow> circuit" where
  "spec_record cfg t success c =
     (let n = nat (max 1 (minRequests cfg)); h = last_n n (c_recent c @ [\<not> success]) in
      if c_phase c = breakerHalfOpen \<and> success then \<lparr>c_phase = breakerClosed, c_recent = [], c_until = c_until c\<rparr>
      else if c_phase c = breakerHalfOpen \<or> length h = n \<and> thresholdPct cfg * int n \<le> 100 * fails h
        then \<lparr>c_phase = breakerOpen, c_recent = [], c_until = t + cooldown cfg\<rparr>
      else c\<lparr>c_recent := h\<rparr>)"

lemma clear_ok: "breaker_ok b \<Longrightarrow> breaker_ok (clearWindow b) \<and> recent (clearWindow b) = []"
  by (auto simp: breaker_ok_def recent_def clearWindow_def)

lemma breaker_ok_frame: "breaker_ok (b\<lparr>b_state := st, openUntil := u\<rparr>) = breaker_ok b"
  "breaker_ok (b\<lparr>b_state := st\<rparr>) = breaker_ok b" "recent (b\<lparr>b_state := st\<rparr>) = recent b"
  by (simp_all add: breaker_ok_def recent_def)

lemma trip_ok: "breaker_ok b \<Longrightarrow> breaker_ok (trip t b) \<and>
    circuit_of (trip t b) = \<lparr>c_phase = breakerOpen, c_recent = [], c_until = t + cooldown (b_cfg b)\<rparr>"
  using clear_ok [of "b\<lparr>b_state := breakerOpen, openUntil := t + cooldown (b_cfg b)\<rparr>"]
  by (simp add: trip_def breaker_ok_frame circuit_of_def) (simp add: clearWindow_def)

lemma reset_ok: "breaker_ok b \<Longrightarrow> breaker_ok (reset b) \<and>
    circuit_of (reset b) = \<lparr>c_phase = breakerClosed, c_recent = [], c_until = openUntil b\<rparr>"
  using clear_ok [of "b\<lparr>b_state := breakerClosed\<rparr>"]
  by (simp add: reset_def breaker_ok_frame circuit_of_def) (simp add: clearWindow_def)

lemma record_refines:
  assumes "breaker_ok b"
  shows "breaker_ok (record_outcome t success b)
    \<and> circuit_of (record_outcome t success b) = spec_record (b_cfg b) t success (circuit_of b)"
proof (cases "b_state b = breakerHalfOpen")
  case True
  with trip_ok [OF assms] reset_ok [OF assms] show ?thesis
    by (simp add: record_outcome_def spec_record_def circuit_of_def Let_def)
next
  case False
  let ?b = "slide success b" and ?n = "length (window b)"
  note sl = slide_recent [OF assms, of success]
  have n: "?n = nat (max 1 (minRequests (b_cfg b)))" and n1: "1 \<le> ?n" using assms by (auto simp: breaker_ok_def)
  have fl: "filled ?b = length (recent ?b)" "failures ?b = fails (recent ?b)" "filled ?b \<le> ?n"
    using sl length_recent [of ?b] by (auto simp: breaker_ok_def)
  have "1 \<le> length (recent ?b)" using sl n1 by (simp add: last_n_def)
  then have full: "minRequests (b_cfg b) \<le> int (filled ?b) \<longleftrightarrow> length (recent ?b) = ?n" using fl n by auto
  show ?thesis
  proof (cases "length (recent ?b) = ?n \<and> thresholdPct (b_cfg b) * int ?n \<le> 100 * fails (recent ?b)")
    case True
    with False full fl sl trip_ok [of ?b t] show ?thesis
      by (simp add: record_outcome_def spec_record_def circuit_of_def Let_def n [symmetric] mult.commute)
  next
    case no: False
    with False full fl sl show ?thesis
      by (auto simp: record_outcome_def spec_record_def circuit_of_def Let_def n [symmetric] mult.commute)
  qed
qed

section \<open>Properties\<close>

text \<open>C19: the circuit breaker measures a rolling rate. The ring buffer of \<^verbatim>\<open>breaker.go\<close> refines the
  specification that keeps the list of the last outcomes: a new breaker is closed with no sample;
  \<^verbatim>\<open>allow\<close> admits every call when closed, one probe after the cool-down when open, and none while a
  probe is out; \<^verbatim>\<open>record\<close> opens the circuit exactly when the window is full and its failures reach
  the configured percentage, or the probe failed, and closes it when the probe succeeds. The
  running failure count is always that of the window.\<close>

theorem breaker_refines:
  assumes "breaker_ok b"
  shows "breaker_ok (newBreaker cfg) \<and> circuit_of (newBreaker cfg) = \<lparr>c_phase = breakerClosed, c_recent = [], c_until = 0\<rparr>
    \<and> breaker_ok (snd (allow t b)) \<and> map_prod id circuit_of (allow t b) = spec_allow t (circuit_of b)
    \<and> breaker_ok (record_outcome t success b)
    \<and> circuit_of (record_outcome t success b) = spec_record (b_cfg b) t success (circuit_of b)"
proof -
  have "breaker_ok (newBreaker cfg)" "circuit_of (newBreaker cfg) = \<lparr>c_phase = breakerClosed, c_recent = [], c_until = 0\<rparr>"
    by (auto simp: newBreaker_def breaker_ok_def circuit_of_def recent_def Let_def max_def)
  moreover have "breaker_ok (snd (allow t b))" "map_prod id circuit_of (allow t b) = spec_allow t (circuit_of b)"
    using assms by (auto simp: allow_def spec_allow_def circuit_of_def breaker_ok_frame split: breakerState.splits)
  ultimately show ?thesis using record_refines [OF assms] by blast
qed

definition flaky :: breaker where
  "flaky = record_outcome 10 False (record_outcome 9 True
     (newBreaker \<lparr>thresholdPct = 50, minRequests = 2, cooldown = 30\<rparr>))"

theorem breaker_refines_witness:
  "b_state flaky = breakerOpen \<and> fst (allow 39 flaky) = False \<and> fst (allow 40 flaky)
   \<and> circuit_of (snd (allow 40 flaky)) = \<lparr>c_phase = breakerHalfOpen, c_recent = [], c_until = 40\<rparr>"
proof -
  let ?cfg = "\<lparr>thresholdPct = 50, minRequests = 2, cooldown = 30\<rparr>"
  let ?b1 = "record_outcome 9 True (newBreaker ?cfg)"
  have "breaker_ok (newBreaker ?cfg)" by (simp add: newBreaker_def breaker_ok_def recent_def Let_def)
  then have "breaker_ok ?b1" using breaker_refines by blast
  then have ok: "breaker_ok flaky" unfolding flaky_def using breaker_refines by blast
  have st: "b_state flaky = breakerOpen" "circuit_of flaky = \<lparr>c_phase = breakerOpen, c_recent = [], c_until = 40\<rparr>"
    by code_simp+
  have "map_prod id circuit_of (allow 40 flaky) = spec_allow 40 (circuit_of flaky)"
    "map_prod id circuit_of (allow 39 flaky) = spec_allow 39 (circuit_of flaky)"
    using breaker_refines [OF ok] by blast+
  with st show ?thesis by (cases "allow 40 flaky"; cases "allow 39 flaky") (simp add: spec_allow_def)
qed


text \<open>The submission dialled: the one POST with its idempotency key, and what it was answered.\<close>

definition dialled :: "world \<Rightarrow> string \<Rightarrow> string \<Rightarrow> err + http_resp \<Rightarrow> bool" where
  "dialled W url key answer \<longleftrightarrow> (\<exists>hs body. answer = send W \<lparr>hr_method = ''POST'', hr_url = url,
     hr_headers = [(''Content-Type'', ''application/json''), (''Idempotency-Key'', key)] @ hs, hr_body = body\<rparr>)"

definition says :: "world \<Rightarrow> string \<Rightarrow> http_resp \<Rightarrow> bool" where
  "says W status resp \<longleftrightarrow> StatusCode resp = 200 \<and> resp_err resp = None \<and> (\<exists>ref. wire_json W (resp_raw resp) = Inr (ref, status))"

lemma classify_outcome:
  "case outcome (classify_submit E W resp res) of
     OutcomeConfirmed \<Rightarrow> says W ''SUCCESS'' resp
   | OutcomeFailed \<Rightarrow> definitiveRejection (StatusCode resp) \<or> says W ''FAILED'' resp
   | OutcomeUnknown \<Rightarrow> \<not> says W ''SUCCESS'' resp \<and> \<not> says W ''FAILED'' resp
   | _ \<Rightarrow> False"
  by (auto simp: classify_submit_def unknown_because_def wire_status_def says_def Let_def
      split: option.splits sum.splits prod.splits)

lemma classify_sent: "NotSent (classify_submit E W resp res) = NotSent res"
  by (auto simp: classify_submit_def unknown_because_def wire_status_def Let_def split: option.splits sum.splits prod.splits)

text \<open>The ways out of a submission.\<close>

lemma submit_cases:
  assumes "cfgFor telco = Inr cfg"
  obtains (unsent) "NotSent (fst (SubmitFulfilment E W cfgFor telco key req a))"
      "outcome (fst (SubmitFulfilment E W cfgFor telco key req a)) = OutcomeFailed"
  | (lost) e res where "dialled W (FulfilmentURL cfg @ ''/v1/telcos/'' @ telco @ ''/fulfilments'') key (Inl e)"
      "fst (SubmitFulfilment E W cfgFor telco key req a) = unknown_because E ''transport_error'' (err_text E e) res" "\<not> NotSent res"
  | (answered) resp res where "dialled W (FulfilmentURL cfg @ ''/v1/telcos/'' @ telco @ ''/fulfilments'') key (Inr resp)"
      "fst (SubmitFulfilment E W cfgFor telco key req a) = classify_submit E W resp res" "\<not> NotSent res"
proof -
  let ?url = "FulfilmentURL cfg @ ''/v1/telcos/'' @ telco @ ''/fulfilments''"
  let ?res = "noResult\<lparr>RequestEvidence := Some (submit_body E req)\<rparr>"
  obtain ok br where al: "allow (now E) (breakerFor telco cfg a) = (ok, br)" by fastforce
  let ?a = "a\<lparr>breakers := (breakers a)(telco \<mapsto> br)\<rparr>"
  obtain au a' where ap: "applyAuth E W telco cfg ?a = (au, a')" by fastforce
  note def = SubmitFulfilment_def assms al ap Let_def
  have ns: "\<not> NotSent ?res" by (simp add: noResult_def)
  show ?thesis
  proof (cases "ok \<and> (\<exists>u. newRequest W ?url = Inr u) \<and> (\<exists>hs. au = Inr hs)")
    case False
    then show ?thesis by (intro unsent) (auto simp: def not_sent_def split: sum.splits)
  next
    case True
    then obtain u hs where t: "ok" "newRequest W ?url = Inr u" "au = Inr hs" by blast
    let ?rq = "\<lparr>hr_method = ''POST'', hr_url = ?url, hr_headers = [(''Content-Type'', ''application/json''),
        (''Idempotency-Key'', key)] @ hs, hr_body = submit_body E req\<rparr>"
    have dl: "dialled W ?url key (send W ?rq)" unfolding dialled_def by blast
    show ?thesis
    proof (cases "send W ?rq")
      case (Inl e)
      with dl t ns show ?thesis by (intro lost [of e ?res]) (simp_all add: def)
    next
      case (Inr resp)
      with dl t ns show ?thesis by (intro answered [of resp ?res]) (simp_all add: def)
    qed
  qed
qed


definition sample_world :: world where
  "sample_world = \<lparr>getenv = (\<lambda>_. ''''), newRequest = (\<lambda>_. Inr ()),
     send = (\<lambda>_. Inr \<lparr>StatusCode = 200, resp_raw = ''ok'', resp_err = None\<rparr>), form_encode = (\<lambda>_. ''''),
     token_json = (\<lambda>_. Inl (Fmt '''')), wire_json = (\<lambda>_. Inr (''ref_1'', ''SUCCESS''))\<rparr>"

definition sample_adapter_cfg :: adapterCfg where
  "sample_adapter_cfg = \<lparr>FulfilmentURL = ''http://sim'', CircuitErrThreshPct = 50, CircuitMinRequests = 1,
     CircuitCooldownSeconds = 30, Auth = None\<rparr>"

definition sample_request :: FulfilmentRequest where
  "sample_request = \<lparr>PlatformRequestID = ''adv_1'', ReqSubscriberID = ''sub_1'', ReqMSISDNToken = ''tok_1'',
     ProductType = ''AIRTIME_ADVANCE'', ReqFaceValue = \<lparr>amount = 500, currency = ''NGN''\<rparr>, OfferSnapshotID = ''off_1''\<rparr>"

definition plain_env :: env where
  "plain_env = \<lparr>now = 1000, tenant = ''MTN_NG'', new_id = (\<lambda>p n. p), sha_hex = id, marshal = (\<lambda>_. ''''),
     rfc3339nano = FormatInt, json_decode = (\<lambda>_. None), jsonb_in = (\<lambda>_. None), err_text = (\<lambda>_. ''error''), quoted = id\<rparr>"

definition fresh_adapter :: adapter where
  "fresh_adapter = \<lparr>breakers = (\<lambda>_. None), tokens = (\<lambda>_. None)\<rparr>"



section \<open>A lost probe\<close>

text \<open>Runs of the adapter: submissions and enquiries, of any telco, at any time and in any world.\<close>

inductive adapter_run :: "adapter \<Rightarrow> adapter \<Rightarrow> bool" where
  idle: "adapter_run a a"
| submitted: "adapter_run a a' \<Longrightarrow> adapter_run a (snd (SubmitFulfilment E W cfgFor telco key req a'))"
| enquired: "adapter_run a a' \<Longrightarrow> adapter_run a (snd (EnquireStatus E W cfgFor telco reqID a'))"

lemma fetch_token_breakers: "breakers (snd (fetch_token E W key au a)) = breakers a"
  by (auto simp: fetch_token_def split: sum.splits)

lemma oauthToken_breakers: "breakers (snd (oauthToken E W telco au a)) = breakers a"
  by (simp add: oauthToken_def Let_def fetch_token_breakers split: option.split prod.split)

lemma applyAuth_breakers: "breakers (snd (applyAuth E W telco cfg a)) = breakers a"
proof (cases "Auth cfg")
  case (Some au)
  obtain r a' where "oauthToken E W telco au a = (r, a')" by fastforce
  with Some oauthToken_breakers [of E W telco au a] show ?thesis
    by (simp add: applyAuth_def Let_def split: sum.split)
qed (simp add: applyAuth_def)

lemma applyAuth_breakers': "applyAuth E W telco cfg a = (r, a') \<Longrightarrow> breakers a' = breakers a"
  using applyAuth_breakers [of E W telco cfg a] by simp

lemma enquiry_breakers: "breakers (snd (EnquireStatus E W cfgFor telco reqID a)) = breakers a"
proof (cases "cfgFor telco")
  case (Inr cfg)
  obtain r a' where ap: "applyAuth E W telco cfg a = (r, a')" by fastforce
  with Inr applyAuth_breakers' [OF ap] show ?thesis
    by (simp add: EnquireStatus_def Let_def split: sum.split)
qed (simp add: EnquireStatus_def)

lemma submit_half_open:
  assumes "breakers a telco = Some b" and "b_state b = breakerHalfOpen"
  shows "breakers (snd (SubmitFulfilment E W cfgFor telco' key req a)) telco = Some b"
proof (cases "telco' = telco")
  case True
  with assms show ?thesis
    by (auto simp: SubmitFulfilment_def breakerFor_def allow_def Let_def split: sum.splits)
next
  case False
  show ?thesis
  proof (cases "cfgFor telco'")
    case (Inr cfg)
    obtain ok br where al: "allow (now E) (breakerFor telco' cfg a) = (ok, br)" by fastforce
    obtain r a' where ap: "applyAuth E W telco' cfg (a\<lparr>breakers := (breakers a)(telco' \<mapsto> br)\<rparr>) = (r, a')" by fastforce
    from False assms Inr al ap applyAuth_breakers' [OF ap] show ?thesis
      by (simp add: SubmitFulfilment_def Let_def split: sum.split)
  qed (simp add: SubmitFulfilment_def assms)
qed

lemma half_open_stays:
  "adapter_run a a' \<Longrightarrow> breakers a telco = Some b \<Longrightarrow> b_state b = breakerHalfOpen \<Longrightarrow> breakers a' telco = Some b"
  by (induction rule: adapter_run.induct) (simp_all add: enquiry_breakers submit_half_open)

text \<open>a probe that is never dialled keeps the circuit broken. When the cool-down of a telco's open
  circuit has elapsed and the one probe fails its outbound authentication, nothing is recorded on
  the breaker; from then on, after any number of further calls and however long one waits, every
  submission for that telco is refused as not sent, although the network is never tried.\<close>

theorem probe_lost:
  assumes "cfgFor telco = Inr cfg" and "breakers a telco = Some b" and "b_state b = breakerOpen" and "openUntil b \<le> now E"
    and "newRequest W (FulfilmentURL cfg @ ''/v1/telcos/'' @ telco @ ''/fulfilments'') = Inr ()"
    and "fst (applyAuth E W telco cfg (a\<lparr>breakers := (breakers a)(telco \<mapsto> b\<lparr>b_state := breakerHalfOpen\<rparr>)\<rparr>)) = Inl e"
    and "adapter_run (snd (SubmitFulfilment E W cfgFor telco key req a)) a'"
  shows "outcome (fst (SubmitFulfilment E' W' cfgFor' telco key' req' a')) = OutcomeFailed
    \<and> NotSent (fst (SubmitFulfilment E' W' cfgFor' telco key' req' a'))"
proof -
  let ?b = "b\<lparr>b_state := breakerHalfOpen\<rparr>"
  have "breakers (snd (SubmitFulfilment E W cfgFor telco key req a)) telco = Some ?b"
    using assms(1-6) applyAuth_breakers [of E W telco cfg "a\<lparr>breakers := (breakers a)(telco \<mapsto> ?b)\<rparr>"]
    by (auto simp: SubmitFulfilment_def breakerFor_def allow_def Let_def split: prod.splits)
  from half_open_stays [OF assms(7) this] have "breakers a' telco = Some ?b" by simp
  then show ?thesis
    by (auto simp: SubmitFulfilment_def breakerFor_def allow_def Let_def not_sent_def split: sum.splits)
qed

definition keyed_cfg :: adapterCfg where
  "keyed_cfg = sample_adapter_cfg\<lparr>Auth := Some \<lparr>Scheme = ''apikey'', Header = ''X-Key'', SecretEnv = ''MTN_KEY'', TokenURL = '''',
     ClientID = '''', ClientSecretEnv = '''', Scope = '''', Audience = ''''\<rparr>\<rparr>"

definition opened_adapter :: adapter where
  "opened_adapter = fresh_adapter\<lparr>breakers := (\<lambda>_. Some (trip 0 (newBreaker \<lparr>thresholdPct = 50, minRequests = 1, cooldown = 30\<rparr>)))\<rparr>"

theorem probe_lost_witness:
  "NotSent (fst (SubmitFulfilment (plain_env\<lparr>now := 9999\<rparr>) (sample_world\<lparr>getenv := (\<lambda>_. ''secret'')\<rparr>) (\<lambda>_. Inr keyed_cfg)
     ''MTN_NG'' ''tik_2'' sample_request
     (snd (SubmitFulfilment plain_env sample_world (\<lambda>_. Inr keyed_cfg) ''MTN_NG'' ''tik_1'' sample_request opened_adapter))))"
proof -
  let ?b = "trip 0 (newBreaker \<lparr>thresholdPct = 50, minRequests = 1, cooldown = 30\<rparr>)"
  have b: "breakers opened_adapter ''MTN_NG'' = Some ?b" by (simp add: opened_adapter_def)
  have "b_state ?b = breakerOpen" "openUntil ?b \<le> now plain_env"
    by (simp_all add: trip_def clearWindow_def plain_env_def newBreaker_def Let_def)
  with probe_lost [where cfgFor = "\<lambda>_. Inr keyed_cfg", OF _ b _ _ _ _ idle, where E = plain_env and W = sample_world
      and cfg = keyed_cfg]
  show ?thesis by (simp add: sample_world_def applyAuth_def keyed_cfg_def)
qed

end
