(* ===== verification/Origination.thy ===== *)
theory Origination
  imports Recovery Treasury RepoEngagement Adapter
begin

text \<open>
  The origination saga of \<^verbatim>\<open>usecase/origination/origination.go\<close>: the offer ladder with its
  disclosures, the lending gates, confirmation in two transactions around the network call, the
  application of a fulfilment outcome with the recording of its response, and replay; the programme
  economics parser, the fee-recognition policy, and the self-exclusion control of
  \<^verbatim>\<open>selfexclusion.go\<close>. An advance in a confirm result is read through the fields that its stored
  response carries.
\<close>

section \<open>Configuration\<close>

record productCfg =
  pc_currency :: string
  DenominationsMinor :: "i64 list"
  FeeBps :: i64
  pc_model :: FeeModel
  OfferExpiryMinutes :: int

record overlaysCfg =
  BlockingFlags :: "string list"
  SimSwapCooloffHours :: int
  CheckAt :: "string list"

record disclosureCfg =
  dc_template :: string
  dc_version :: string
  DefaultLocale :: string
  AllowedChannels :: "string list"
  BodyTemplate :: string
  TotalCostTemplate :: string

record selfExclusionCfg =
  MinExclusionDays :: int
  sx_channels :: "string list"
  RequireOperatorReinstatement :: bool

record Terms =
  FundingModel :: string
  LenderOfRecord :: string
  LossBearer :: string
  SettlementMethod :: string
  TaxTreatment :: string

text \<open>
  The active configuration of a programme or telco, each value an error when it cannot be read or
  decoded; with it the identifier of the version it came from where the code records it, and for
  the economics the scope it was found under.
\<close>

record orig_cfg =
  oc_ledger :: ledger_cfg
  oc_guardrails :: guardrails_cfg
  oc_product :: "string \<Rightarrow> err + productCfg \<times> string"
  oc_disclosure :: "string \<Rightarrow> err + disclosureCfg \<times> string"
  oc_overlays :: "string \<Rightarrow> err + overlaysCfg"
  oc_economics :: "string \<Rightarrow> err + string \<times> (err + Terms) \<times> string"
  oc_nin :: "err + bool option"
  oc_fee :: "string \<Rightarrow> err + string"
  oc_delays :: "string \<Rightarrow> err + int list \<times> int"
  oc_selfexcl :: "string \<Rightarrow> err + selfExclusionCfg"

section \<open>Programme economics and fee policy\<close>

definition validFundingModels :: "string set" where
  "validFundingModels = {''PLATFORM_CAPITAL'', ''TELCO_FRONTED'', ''WAREHOUSE_FUNDER''}"

definition validSettlementMethods :: "string set" where
  "validSettlementMethods = {''NET_OFF_AGAINST_AIRTIME'', ''DIRECT_RECOVERY'', ''WAREHOUSE_SWEEP''}"

definition validTaxTreatments :: "string set" where
  "validTaxTreatments = {''VAT_INCLUSIVE_FEE'', ''VAT_EXCLUSIVE_FEE'', ''VAT_EXEMPT''}"

definition requireParty :: "string \<Rightarrow> err + unit" where
  "requireParty v = (if v = '''' then Inl (Fmt ''party is required'')
     else if length v > 200 then Inl (Fmt ''party exceeds 200 chars'') else Inr ())"

text \<open>The argument is what the strict decoder made of the content.\<close>

definition Parse :: "err + Terms \<Rightarrow> err + Terms" where
  "Parse decoded =
     andThen decoded (\<lambda>t.
     if FundingModel t \<notin> validFundingModels then Inl (Fmt ''funding_model'')
     else andThen (requireParty (LenderOfRecord t)) (\<lambda>_.
     andThen (requireParty (LossBearer t)) (\<lambda>_.
     if SettlementMethod t \<notin> validSettlementMethods then Inl (Fmt ''settlement_method'')
     else if TaxTreatment t \<notin> validTaxTreatments then Inl (Fmt ''tax_treatment'')
     else Inr t)))"

definition resolveEconomics :: "orig_cfg \<Rightarrow> string \<Rightarrow> err + Terms \<times> string" where
  "resolveEconomics C prog =
     (case oc_economics C prog of
        Inl _ \<Rightarrow> Inl (Orig ErrProgrammeEconomicsNotSet)
      | Inr (scope, content, ver) \<Rightarrow>
          if scope \<noteq> ''programme:'' @ prog then Inl (Orig ErrProgrammeEconomicsNotSet)
          else (case Parse content of
            Inl _ \<Rightarrow> Inl (Orig ErrProgrammeEconomicsInvalid)
          | Inr terms \<Rightarrow> Inr (terms, ver)))"

definition feepolicy_Resolve :: "orig_cfg \<Rightarrow> string \<Rightarrow> err + string" where
  "feepolicy_Resolve C prog =
     andThen (oc_fee C prog) (\<lambda>policy.
     if policy \<noteq> FeeRecognitionUpfront \<and> policy \<noteq> FeeRecognitionDeferred then Inl (Fmt ''fee_recognition: unknown policy'')
     else Inr policy)"

section \<open>Lending gates\<close>

definition requireNINVerified :: "orig_cfg \<Rightarrow> bool" where
  "requireNINVerified C = (case oc_nin C of Inl _ \<Rightarrow> True | Inr None \<Rightarrow> True | Inr (Some b) \<Rightarrow> b)"

definition assertNINVerified :: "SubscriberAccount \<Rightarrow> bool \<Rightarrow> err + unit" where
  "assertNINVerified sub require =
     (if require \<and> sub_nin sub \<noteq> Some True then Inl (Orig ErrSubscriberIneligible) else Inr ())"

definition assertNotSelfExcluded :: "env \<Rightarrow> string \<Rightarrow> db \<Rightarrow> err + unit" where
  "assertNotSelfExcluded E sub s =
     (case GetActiveBySubscriber E sub s of None \<Rightarrow> Inr () | Some _ \<Rightarrow> Inl (Orig ErrSubscriberIneligible))"

definition blocks :: "overlaysCfg \<Rightarrow> int \<Rightarrow> OpenFlag \<Rightarrow> bool" where
  "blocks oc t f \<longleftrightarrow> Flag f \<in> set (BlockingFlags oc)
     \<and> \<not> (Flag f = ''SIM_SWAP'' \<and> EffectiveFrom f + SimSwapCooloffHours oc * 3600 * second < t)"

definition checkOverlays :: "env \<Rightarrow> orig_cfg \<Rightarrow> string \<Rightarrow> string \<Rightarrow> string \<Rightarrow> db \<Rightarrow> err + unit" where
  "checkOverlays E C telco sub checkpoint s =
     andThen (oc_overlays C telco) (\<lambda>oc.
     if checkpoint \<notin> set (CheckAt oc) then Inr ()
     else if list_ex (blocks oc (now E)) (ListOpen E sub s) then Inl (Orig ErrOverlayBlocked)
     else Inr ())"

definition requireValidDecision :: "DecisionSnapshot \<Rightarrow> int \<Rightarrow> err + unit" where
  "requireValidDecision dec t =
     (if (case ValidUntil dec of None \<Rightarrow> False | Some u \<Rightarrow> \<not> t < u) then Inl (Orig ErrDecisionUnavailable)
      else if \<not> IsPositive (MaxFaceValue dec) then Inl (Orig ErrDecisionUnavailable)
      else Inr ())"

text \<open>The gates that \<^verbatim>\<open>GetOffers\<close> and \<^verbatim>\<open>Confirm\<close> share, in their order.\<close>

definition lending_gates :: "env \<Rightarrow> orig_cfg \<Rightarrow> string \<Rightarrow> string \<Rightarrow> db \<Rightarrow> err + (Terms \<times> string) \<times> SubscriberAccount" where
  "lending_gates E C prog token s =
     andThen (Programmes_GetStatus E prog s) (\<lambda>status.
     if status \<noteq> ProgrammeActive then Inl ErrProgrammeSuspended
     else andThen (resolveEconomics C prog) (\<lambda>econ.
     andThen (GetLiveByToken E token s) (\<lambda>sub.
     if sub_status sub \<noteq> ''ACTIVE'' then Inl (Orig ErrSubscriberIneligible)
     else andThen (assertNINVerified sub (requireNINVerified C)) (\<lambda>_.
     andThen (assertNotSelfExcluded E (sub_id sub) s) (\<lambda>_.
     Inr (econ, sub))))))"

section \<open>Disclosures and the offer ladder\<close>

text \<open>
  \<^verbatim>\<open>strings.NewReplacer\<close>: one pass, the first pair whose key starts at the position wins.
\<close>

fun replacer :: "(string \<times> string) list \<Rightarrow> string \<Rightarrow> string" where
  "replacer ps [] = []"
| "replacer ps (c # cs) =
     (case List.find (\<lambda>(k, v). k \<noteq> [] \<and> take (length k) (c # cs) = k) ps of
        None \<Rightarrow> c # replacer ps cs
      | Some (k, v) \<Rightarrow> v @ replacer ps (drop (length k - 1) cs))"

definition renderTemplate :: "string \<Rightarrow> Offer \<Rightarrow> string" where
  "renderTemplate tmpl o' = replacer
     [(''{{face}}'', MoneyString (OffFaceValue o')), (''{{fee}}'', MoneyString (OffFee o')),
      (''{{disbursed}}'', MoneyString (OffDisbursed o')), (''{{repayment}}'', MoneyString (Repayment o')),
      (''{{currency}}'', currency (OffFaceValue o'))] tmpl"

definition disclosure_hash :: "env \<Rightarrow> disclosureCfg \<Rightarrow> string \<Rightarrow> Offer \<Rightarrow> string \<Rightarrow> string \<Rightarrow> string" where
  "disclosure_hash E dc locale o' body totalCost = sha_hex E (marshal E (JObj
     [(''template_id'', JStr (dc_template dc)), (''template_version'', JStr (dc_version dc)), (''locale'', JStr locale),
      (''currency'', JStr (currency (OffFaceValue o'))), (''face_value_minor'', JNum (amount (OffFaceValue o'))),
      (''fee_minor'', JNum (amount (OffFee o'))), (''disbursed_minor'', JNum (amount (OffDisbursed o'))),
      (''repayment_minor'', JNum (amount (Repayment o'))), (''rendered_body'', JStr body),
      (''total_cost_text'', JStr totalCost), (''offer_id'', JStr (OfferID o'))]))"

definition buildDisclosureSnapshot :: "env \<Rightarrow> disclosureCfg \<Rightarrow> string \<Rightarrow> string \<Rightarrow> Offer \<Rightarrow> db \<Rightarrow> DisclosureSnapshot \<times> db" where
  "buildDisclosureSnapshot E dc ver locale o' s =
     (let body = renderTemplate (BodyTemplate dc) o';
          totalCost = renderTemplate (TotalCostTemplate dc) o';
          (dsc, s) = NewID E ''dsc'' s in
      (\<lparr>DisclosureSnapshotID = dsc, DscTelcoID = OffTelcoID o', DscProgrammeID = OffProgrammeID o', DscOfferID = OfferID o',
        TemplateID = dc_template dc, TemplateVersion = dc_version dc, Locale = locale, DisclosureConfigVersionID = ver,
        DscCurrency = currency (OffFaceValue o'), DscFaceValue = OffFaceValue o', DscFee = OffFee o',
        DscDisbursed = OffDisbursed o', DscRepayment = Repayment o', RenderedBody = body, TotalCostText = totalCost,
        ContentHash = disclosure_hash E dc locale o' body totalCost, IssuedAt = now E, DscExpiresAt = OffExpiresAt o'\<rparr>, s))"

definition loadDisclosureCfg :: "orig_cfg \<Rightarrow> string \<Rightarrow> err + disclosureCfg \<times> string" where
  "loadDisclosureCfg C prog =
     (case oc_disclosure C prog of Inl _ \<Rightarrow> Inl (Orig ErrDisclosureUnavailable) | Inr v \<Rightarrow> Inr v)"

text \<open>The price of one denomination under the fee model.\<close>

definition price :: "productCfg \<Rightarrow> money \<Rightarrow> err + money \<times> money \<times> money" where
  "price pc face =
     andThen (PercentBps face (FeeBps pc)) (\<lambda>fee.
     case pc_model pc of
       FeeDeductedUpfront \<Rightarrow> andThen (Sub face fee) (\<lambda>disbursed. Inr (fee, disbursed, face))
     | FeeAddedToRepayment \<Rightarrow> andThen (Add face fee) (\<lambda>repayment. Inr (fee, face, repayment))
     | FeeModelOther m \<Rightarrow> Inl (Fmt ''unsupported fee model''))"

fun ladder ::
  "env \<Rightarrow> SubscriberAccount \<Rightarrow> DecisionSnapshot \<Rightarrow> string \<Rightarrow> string \<Rightarrow> productCfg \<Rightarrow> i64 list \<Rightarrow> db \<Rightarrow> err + Offer list \<times> db" where
  "ladder E sub dec prog ver pc [] s = Inr ([], s)"
| "ladder E sub dec prog ver pc (denom # ds) s =
     andThen (NewMoney denom (pc_currency pc)) (\<lambda>face.
     andThen (Cmp face (MaxFaceValue dec)) (\<lambda>c.
     if c > 0 then ladder E sub dec prog ver pc ds s
     else andThen (price pc face) (\<lambda>(fee, disbursed, repayment).
     if \<not> IsPositive disbursed then ladder E sub dec prog ver pc ds s
     else
       let (oid, s) = NewID E ''off'' s in
       andThen (ladder E sub dec prog ver pc ds s) (\<lambda>(out, s).
       Inr (\<lparr>OfferID = oid, OffTelcoID = sub_telco sub, OffProgrammeID = prog, OffSubscriberID = sub_id sub,
             DecisionSnapshotID = DecID dec, OffFaceValue = face, OffFee = fee, OffDisbursed = disbursed,
             Repayment = repayment, OffFeeModel = pc_model pc, ProductConfigVersionID = ver, OffState = OfferGenerated,
             OffExpiresAt = now E + OfferExpiryMinutes pc * 60 * second\<rparr> # out, s)))))"

definition buildLadder ::
  "env \<Rightarrow> SubscriberAccount \<Rightarrow> DecisionSnapshot \<Rightarrow> string \<Rightarrow> string \<Rightarrow> productCfg \<Rightarrow> db \<Rightarrow> err + Offer list \<times> db" where
  "buildLadder E sub dec prog ver pc s = ladder E sub dec prog ver pc (DenominationsMinor pc) s"

section \<open>Serving offers\<close>

type_synonym OfferView = "Offer \<times> DisclosureSnapshot"

fun reserve_views :: "env \<Rightarrow> Offer list \<Rightarrow> db \<Rightarrow> err + OfferView list" where
  "reserve_views E [] s = Inr []"
| "reserve_views E (o' # os) s =
     andThen (DisclosureSnapshots_GetByOffer E (OfferID o') s) (\<lambda>snap.
     andThen (reserve_views E os s) (\<lambda>vs. Inr ((o', snap) # vs)))"

fun mint_views :: "env \<Rightarrow> disclosureCfg \<Rightarrow> string \<Rightarrow> Offer list \<Rightarrow> db \<Rightarrow> err + OfferView list \<times> db" where
  "mint_views E dc ver [] s = Inr ([], s)"
| "mint_views E dc ver (o' # os) s =
     andThen (Offers_Insert E o' s) (\<lambda>s.
     let (snap, s) = buildDisclosureSnapshot E dc ver (DefaultLocale dc) o' s in
     andThen (DisclosureSnapshots_Insert E snap s) (\<lambda>s.
     andThen (mint_views E dc ver os s) (\<lambda>(vs, s). Inr ((o', snap) # vs, s))))"

definition offers_tx ::
  "orig_cfg \<Rightarrow> productCfg \<times> string \<Rightarrow> disclosureCfg \<times> string \<Rightarrow> string \<Rightarrow> string \<Rightarrow> env \<Rightarrow> db \<Rightarrow> err + OfferView list \<times> db" where
  "offers_tx C product disclosure prog token E s =
     (let (pc, ver) = product; (dc, dcVer) = disclosure in
      andThen (lending_gates E C prog token s) (\<lambda>(_, sub).
      andThen (checkOverlays E C (sub_telco sub) (sub_id sub) ''OFFER'' s) (\<lambda>_.
      andThen (Offers_ListValid E (sub_id sub) prog (now E) s) (\<lambda>existing.
      if existing \<noteq> [] then andThen (reserve_views E existing s) (\<lambda>vs. Inr (vs, s))
      else
        andThen (case Decisions_GetCurrent E (sub_id sub) s of
            Inl e \<Rightarrow> Inl (if e = ErrNotFound then Orig ErrDecisionUnavailable else e) | Inr d \<Rightarrow> Inr d) (\<lambda>dec.
        andThen (requireValidDecision dec (now E)) (\<lambda>_.
        andThen (buildLadder E sub dec prog ver pc s) (\<lambda>(built, s).
        mint_views E dc dcVer built s)))))))"

definition GetOffers :: "env \<Rightarrow> orig_cfg \<Rightarrow> ctx \<Rightarrow> string \<Rightarrow> string \<Rightarrow> db \<Rightarrow> (err + OfferView list) \<times> db" where
  "GetOffers E C c prog token s =
     (case oc_product C prog of Inl e \<Rightarrow> (Inl e, s) | Inr product \<Rightarrow>
      (case loadDisclosureCfg C prog of Inl e \<Rightarrow> (Inl e, s) | Inr disclosure \<Rightarrow>
       WithTenantTx E c (offers_tx C product disclosure prog token) s))"

section \<open>Confirm commands and stored responses\<close>

record ConfirmCmd =
  cc_prog :: string
  cc_offer :: string
  cc_token :: string
  cc_idem :: string
  cc_corr :: string
  cc_disclosure :: string
  cc_channel :: string
  cc_session :: string
  cc_accepted :: int
  cc_evidence :: string

text \<open>The instant of Go's zero time.\<close>

definition zero_time :: int where
  "zero_time = - 62135596800 * second"

definition normalizeAcceptedAt :: "int \<Rightarrow> int" where
  "normalizeAcceptedAt t = (if t = zero_time then 0 else t div second)"

definition canonicalJSON :: "env \<Rightarrow> string \<Rightarrow> string" where
  "canonicalJSON E raw =
     (if raw = '''' then '''' else case json_decode E raw of None \<Rightarrow> raw | Some v \<Rightarrow> marshal E v)"

definition confirmRequestHash :: "env \<Rightarrow> ConfirmCmd \<Rightarrow> string" where
  "confirmRequestHash E cmd = sha_hex E (marshal E (JObj
     [(''programme_id'', JStr (cc_prog cmd)), (''offer_id'', JStr (cc_offer cmd)), (''msisdn_token'', JStr (cc_token cmd)),
      (''disclosure_ref'', JStr (cc_disclosure cmd)), (''channel'', JStr (cc_channel cmd)),
      (''session_id'', JStr (cc_session cmd)), (''accepted_at_unix'', JNum (word_of_int (normalizeAcceptedAt (cc_accepted cmd)))),
      (''telco_evidence'', JStr (canonicalJSON E (cc_evidence cmd)))]))"

definition confirmHTTPStatus :: "Advance \<Rightarrow> int" where
  "confirmHTTPStatus a = (case State a of AdvFulfilmentUnknown \<Rightarrow> 202 | AdvFulfilmentFailed \<Rightarrow> 422 | _ \<Rightarrow> 201)"

definition replayHTTPStatus :: "int \<Rightarrow> int" where
  "replayHTTPStatus orig = (if orig = 201 then 200 else orig)"

definition outcomeCommitted :: "AdvanceState \<Rightarrow> bool" where
  "outcomeCommitted st \<longleftrightarrow> st \<notin> {AdvRequested, AdvValidated, AdvExposureReserved, AdvPendingFulfilment}"

fun advance_state_name :: "AdvanceState \<Rightarrow> string" where
  "advance_state_name AdvRequested = ''REQUESTED''"
| "advance_state_name AdvValidated = ''VALIDATED''"
| "advance_state_name AdvExposureReserved = ''EXPOSURE_RESERVED''"
| "advance_state_name AdvPendingFulfilment = ''PENDING_FULFILMENT''"
| "advance_state_name AdvFulfilmentUnknown = ''FULFILMENT_UNKNOWN''"
| "advance_state_name AdvActive = ''ACTIVE''"
| "advance_state_name AdvPartiallyRecovered = ''PARTIALLY_RECOVERED''"
| "advance_state_name AdvClosed = ''CLOSED''"
| "advance_state_name AdvFulfilmentFailed = ''FULFILMENT_FAILED''"
| "advance_state_name AdvDeclined = ''DECLINED''"
| "advance_state_name AdvWrittenOff = ''WRITTEN_OFF''"

record ConfirmView =
  cv_advance :: string
  cv_state :: string
  cv_face :: money
  cv_disb :: money
  cv_out :: money

definition view_of :: "Advance \<Rightarrow> ConfirmView" where
  "view_of a = \<lparr>cv_advance = AdvanceID a, cv_state = advance_state_name (State a), cv_face = FaceValue a,
     cv_disb = Disbursed a, cv_out = Outstanding a\<rparr>"

definition money_fields :: "string \<Rightarrow> string \<Rightarrow> money \<Rightarrow> (string \<times> json) list" where
  "money_fields minor cur m = [(minor, JNum (if IsSet m then amount m else 0)), (cur, JStr (if IsSet m then currency m else ''''))]"

definition encodeConfirmResponse :: "ConfirmView \<Rightarrow> json" where
  "encodeConfirmResponse v = JObj ([(''advance_id'', JStr (cv_advance v)), (''state'', JStr (cv_state v))]
     @ money_fields ''face_minor'' ''face_cur'' (cv_face v) @ money_fields ''disb_minor'' ''disb_cur'' (cv_disb v)
     @ money_fields ''out_minor'' ''out_cur'' (cv_out v))"

definition read_money :: "string \<Rightarrow> string \<Rightarrow> json \<Rightarrow> err + i64 \<times> string" where
  "read_money minor cur b = andThen (field_num minor b) (\<lambda>m. andThen (field_str cur b) (\<lambda>c. Inr (m, c)))"

definition must_money :: "i64 \<times> string \<Rightarrow> err + money" where
  "must_money mc = (if snd mc \<noteq> '''' then MustMoney (fst mc) (snd mc) else Inr unset)"

text \<open>A body that does not decode, or carries no advance id, is not a response; a bad currency panics.\<close>

definition decodeConfirmResponse :: "json \<Rightarrow> err + ConfirmView option" where
  "decodeConfirmResponse b =
     (case andThen (field_str ''advance_id'' b) (\<lambda>aid. andThen (field_str ''state'' b) (\<lambda>st.
           andThen (read_money ''face_minor'' ''face_cur'' b) (\<lambda>f. andThen (read_money ''disb_minor'' ''disb_cur'' b) (\<lambda>d.
           andThen (read_money ''out_minor'' ''out_cur'' b) (\<lambda>ou. Inr (aid, st, f, d, ou)))))) of
        Inl _ \<Rightarrow> Inr None
      | Inr (aid, st, f, d, ou) \<Rightarrow>
          if aid = '''' then Inr None
          else andThen (must_money f) (\<lambda>face. andThen (must_money d) (\<lambda>disb. andThen (must_money ou) (\<lambda>out.
               Inr (Some \<lparr>cv_advance = aid, cv_state = st, cv_face = face, cv_disb = disb, cv_out = out\<rparr>)))))"

definition ConfirmOp :: string where
  "ConfirmOp = ''advance.confirm''"

text \<open>The closure \<^verbatim>\<open>recorded\<close> of \<^verbatim>\<open>replayConfirmAdvance\<close>.\<close>

definition recorded :: "env \<Rightarrow> string \<Rightarrow> string \<Rightarrow> db \<Rightarrow> err + (ConfirmView \<times> int) option" where
  "recorded E telco key s =
     (case Idempotency_Get E telco ConfirmOp key s of
        Inl e \<Rightarrow> if e = ErrNotFound then Inr None else Inl e
      | Inr rec \<Rightarrow>
          if i_status rec = 0 then Inr None
          else andThen (decodeConfirmResponse (i_body rec)) (\<lambda>v.
            case v of None \<Rightarrow> Inl (Orig ErrConfirmReplayUnavailable)
            | Some v \<Rightarrow> Inr (Some (v, replayHTTPStatus (i_status rec)))))"

definition replayConfirmAdvance :: "env \<Rightarrow> string \<Rightarrow> string \<Rightarrow> db \<Rightarrow> err + ConfirmView \<times> int" where
  "replayConfirmAdvance E telco key s =
     andThen (recorded E telco key s) (\<lambda>r.
     case r of Some (v, st) \<Rightarrow> Inr (v, st)
     | None \<Rightarrow>
         andThen (Advances_GetByIdemKey E key s) (\<lambda>adv.
         if \<not> outcomeCommitted (State adv) then Inr (view_of adv, 202)
         else andThen (recorded E telco key s) (\<lambda>r.
           case r of Some (v, st) \<Rightarrow> Inr (v, st) | None \<Rightarrow> Inl (Orig ErrConfirmReplayUnavailable))))"


section \<open>Applying an outcome\<close>

definition currentAttemptState :: "Advance \<Rightarrow> FulfilmentAttemptState" where
  "currentAttemptState adv = (if State adv = AdvFulfilmentUnknown then AttemptUnknown else AttemptSent)"

definition firstEnquiryAt :: "env \<Rightarrow> orig_cfg \<Rightarrow> string \<Rightarrow> err + int" where
  "firstEnquiryAt E C telco =
     andThen (oc_delays C telco) (\<lambda>(delays, _).
     case delays of [] \<Rightarrow> Inl (Panic ''index out of range'') | d # _ \<Rightarrow> Inr (now E + d * second))"

definition emitOutbox :: "env \<Rightarrow> Advance \<Rightarrow> string \<Rightarrow> db \<Rightarrow> err + db" where
  "emitOutbox E adv type s =
     (let (eid, s) = NewID E ''evt'' s in
      Outbox_Append E \<lparr>ob_id = eid, ob_telco = AdvTelcoID adv, ob_agg = AdvanceID adv, ob_type = type,
        ob_payload = JObj [(''advance_id'', JStr (AdvanceID adv)), (''correlation_id'', JStr (AdvCorrelationID adv)),
          (''programme_id'', JStr (AdvProgrammeID adv))], ob_at = now E\<rparr> s)"

text \<open>An attempt that is no longer in the guarded state is left alone.\<close>

definition resolve_attempt ::
  "env \<Rightarrow> string \<Rightarrow> FulfilmentAttemptState \<Rightarrow> FulfilmentAttemptState \<Rightarrow> string \<Rightarrow> string option \<Rightarrow> int option \<Rightarrow> db \<Rightarrow> err + db" where
  "resolve_attempt E att frm to ref resp nxt s =
     (case Attempts_Resolve E att frm to ref resp nxt s of
        Inr s' \<Rightarrow> Inr s' | Inl e \<Rightarrow> if e = ErrNotFound then Inr s else Inl e)"

definition outcome_confirmed :: "env \<Rightarrow> orig_cfg \<Rightarrow> Advance \<Rightarrow> string \<Rightarrow> Result \<Rightarrow> db \<Rightarrow> err + db" where
  "outcome_confirmed E C adv att res s =
     andThen (resolve_attempt E att (currentAttemptState adv) AttemptConfirmed (TelcoRef res) (ResponseEvidence res) None s) (\<lambda>s.
     andThen (Transition E (AdvanceID adv) (Version adv) (State adv) AdvActive s) (\<lambda>s.
     andThen (ConfirmUtilisation E (FundingPoolID adv) (Outstanding adv) s) (\<lambda>s.
     let feeDeferAdj = (if FeeRecognition adv = FeeRecognitionDeferred then Fee adv else zero_of (currency (Fee adv))) in
     andThen (PostEvent E (oc_ledger C)
        (journal_for (AdvanceID adv @ ''/issued'') EventAdvanceIssued (AdvTelcoID adv) (AdvProgrammeID adv) (AdvanceID adv)
           (AdvCorrelationID adv))
        [(''OUTSTANDING'', Outstanding adv), (''DISBURSED'', Disbursed adv), (''FEE'', Fee adv), (''FEE_DEFER_ADJ'', feeDeferAdj)] s) (\<lambda>(_, s).
     emitOutbox E adv ''advance.FulfilmentConfirmed'' s))))"

definition outcome_failed :: "env \<Rightarrow> Advance \<Rightarrow> string \<Rightarrow> Result \<Rightarrow> db \<Rightarrow> err + db" where
  "outcome_failed E adv att res s =
     andThen (resolve_attempt E att (currentAttemptState adv) AttemptFailed (TelcoRef res) (ResponseEvidence res) None s) (\<lambda>s.
     andThen (Transition E (AdvanceID adv) (Version adv) (State adv) AdvFulfilmentFailed s) (\<lambda>s.
     andThen (Release E (FundingPoolID adv) (Outstanding adv) s) (\<lambda>s.
     emitOutbox E adv ''advance.FulfilmentFailed'' s)))"

definition outcome_unknown :: "env \<Rightarrow> orig_cfg \<Rightarrow> Advance \<Rightarrow> string \<Rightarrow> Result \<Rightarrow> db \<Rightarrow> err + db" where
  "outcome_unknown E C adv att res s =
     andThen (firstEnquiryAt E C (AdvTelcoID adv)) (\<lambda>nxt.
     andThen (resolve_attempt E att (currentAttemptState adv) AttemptUnknown '''' (ResponseEvidence res) (Some nxt) s) (\<lambda>s.
     if State adv = AdvPendingFulfilment then
       andThen (Transition E (AdvanceID adv) (Version adv) (State adv) AdvFulfilmentUnknown s) (\<lambda>s.
       emitOutbox E adv ''advance.FulfilmentUnknown'' s)
     else Inr s))"

definition recordConfirmResponse :: "env \<Rightarrow> Advance \<Rightarrow> db \<Rightarrow> err + int \<times> db" where
  "recordConfirmResponse E a s =
     (if IdempotencyKey a = '''' then Inr (confirmHTTPStatus a, s)
      else
        case SetResponseIfAbsent E (AdvTelcoID a) ConfirmOp (IdempotencyKey a) (confirmHTTPStatus a)
               (encodeConfirmResponse (view_of a)) s of
          Inl e \<Rightarrow> if e = ErrNotFound then Inr (confirmHTTPStatus a, s) else Inl e
        | Inr (wrote, s) \<Rightarrow>
            if wrote then Inr (confirmHTTPStatus a, s)
            else andThen (Idempotency_Get E (AdvTelcoID a) ConfirmOp (IdempotencyKey a) s) (\<lambda>rec.
                 if i_status rec = 0 then Inl (Orig ErrConfirmReplayUnavailable) else Inr (i_status rec, s)))"

definition recordedConfirmStatus :: "env \<Rightarrow> Advance \<Rightarrow> db \<Rightarrow> int" where
  "recordedConfirmStatus E a s =
     (if IdempotencyKey a = '''' then 0
      else case Idempotency_Get E (AdvTelcoID a) ConfirmOp (IdempotencyKey a) s of Inl _ \<Rightarrow> 0 | Inr rec \<Rightarrow> i_status rec)"

definition apply_outcome :: "env \<Rightarrow> orig_cfg \<Rightarrow> Advance \<Rightarrow> string \<Rightarrow> Result \<Rightarrow> db \<Rightarrow> err + db" where
  "apply_outcome E C adv att res s =
     (case outcome res of
        OutcomeConfirmed \<Rightarrow> outcome_confirmed E C adv att res s
      | OutcomeFailed \<Rightarrow> outcome_failed E adv att res s
      | OutcomeNotFound \<Rightarrow> outcome_failed E adv att res s
      | OutcomeUnknown \<Rightarrow> outcome_unknown E C adv att res s
      | OtherOutcome x \<Rightarrow> Inl (Fmt ''unrecognised adapter outcome''))"

definition resolveOutcomeTx :: "orig_cfg \<Rightarrow> string \<Rightarrow> string \<Rightarrow> Result \<Rightarrow> env \<Rightarrow> db \<Rightarrow> err + (Advance \<times> int) \<times> db" where
  "resolveOutcomeTx C aid att res E s =
     andThen (Advances_Get E aid s) (\<lambda>adv.
     if State adv \<noteq> AdvPendingFulfilment \<and> State adv \<noteq> AdvFulfilmentUnknown
     then Inr ((adv, recordedConfirmStatus E adv s), s)
     else
       andThen (apply_outcome E C adv att res s) (\<lambda>s.
       andThen (Advances_Get E (AdvanceID adv) s) (\<lambda>out.
       andThen (recordConfirmResponse E out s) (\<lambda>(status, s).
       Inr ((out, status), s)))))"

definition ResolveOutcome :: "env \<Rightarrow> orig_cfg \<Rightarrow> ctx \<Rightarrow> string \<Rightarrow> string \<Rightarrow> Result \<Rightarrow> db \<Rightarrow> (err + Advance) \<times> db" where
  "ResolveOutcome E C c aid att res s =
     (case WithTenantTx E c (resolveOutcomeTx C aid att res) s of
        (Inl e, s) \<Rightarrow> (Inl e, s) | (Inr (adv, _), s) \<Rightarrow> (Inr adv, s))"

section \<open>Confirmation\<close>

datatype offer_gate = AlreadyAccepted ConfirmView int | Acceptable Offer DisclosureSnapshot

definition acceptanceSkew :: int where
  "acceptanceSkew = 120 * second"

text \<open>
  The offer under confirmation. (The code marks an expired offer EXPIRED before it returns the
  error; the rollback undoes that write.)
\<close>

fun is_panic :: "err \<Rightarrow> bool" where
  "is_panic (Panic p) = True"
| "is_panic e = False"

definition check_offer :: "env \<Rightarrow> string \<Rightarrow> ConfirmCmd \<Rightarrow> SubscriberAccount \<Rightarrow> db \<Rightarrow> err + offer_gate" where
  "check_offer E telco cmd sub s =
     (case Offers_GetForUpdate E (cc_offer cmd) s of
        Inl e \<Rightarrow> Inl (if e = ErrNotFound then Orig ErrOfferNotFound else e)
      | Inr offer \<Rightarrow>
          if OffSubscriberID offer \<noteq> sub_id sub then Inl (Orig ErrOfferNotFound)
          else if OffProgrammeID offer \<noteq> cc_prog cmd then Inl (Orig ErrProgrammeMismatch)
          else if OffState offer = OfferAccepted then
            (case replayConfirmAdvance E telco (cc_idem cmd) s of
               Inr (v, st) \<Rightarrow> Inr (AlreadyAccepted v st)
             | Inl e \<Rightarrow> Inl (if e = Orig ErrConfirmReplayUnavailable \<or> is_panic e then e
                            else Orig ErrOfferNotAcceptable))
          else if OffState offer \<noteq> OfferGenerated then Inl (Orig ErrOfferNotAcceptable)
          else if \<not> now E < OffExpiresAt offer then Inl (Orig ErrOfferExpired)
          else
            andThen (Decisions_Get E (DecisionSnapshotID offer) s) (\<lambda>dec.
            andThen (requireValidDecision dec (now E)) (\<lambda>_.
            case DisclosureSnapshots_GetByOffer E (OfferID offer) s of
              Inl e \<Rightarrow> Inl (if e = ErrNotFound then Orig ErrDisclosureMismatch else e)
            | Inr snap \<Rightarrow>
                if DisclosureSnapshotID snap \<noteq> cc_disclosure cmd then Inl (Orig ErrDisclosureMismatch)
                else if cc_accepted cmd < IssuedAt snap - acceptanceSkew \<or> DscExpiresAt snap + acceptanceSkew < cc_accepted cmd
                        \<or> now E + acceptanceSkew < cc_accepted cmd then Inl (Orig ErrDisclosureExpired)
                else Inr (Acceptable offer snap))))"

definition new_advance :: "SubscriberAccount \<Rightarrow> Offer \<Rightarrow> ConfirmCmd \<Rightarrow> string \<Rightarrow> string \<Rightarrow> Advance" where
  "new_advance sub offer cmd aid policy =
     \<lparr>AdvanceID = aid, AdvTelcoID = sub_telco sub, AdvProgrammeID = OffProgrammeID offer, AdvSubscriberID = sub_id sub,
      AdvOfferID = OfferID offer, FundingPoolID = '''', IdempotencyKey = cc_idem cmd, AdvCorrelationID = cc_corr cmd,
      State = AdvRequested, Version = 1, FaceValue = OffFaceValue offer, Fee = OffFee offer, Disbursed = OffDisbursed offer,
      Outstanding = Repayment offer, FeeRecognition = policy, AcceptedAt = zero_time, ActivatedAt = None, ClosedAt = None,
      UpdatedAt = zero_time\<rparr>"

definition consent_terms :: "DisclosureSnapshot \<Rightarrow> Offer \<Rightarrow> Terms \<times> string \<Rightarrow> json" where
  "consent_terms snap offer econ = JObj
     [(''currency'', JStr (DscCurrency snap)), (''decision_snapshot_id'', JStr (DecisionSnapshotID offer)),
      (''disbursed_minor'', JNum (amount (DscDisbursed snap))), (''disclosure_snapshot_id'', JStr (DisclosureSnapshotID snap)),
      (''economic_terms'', JObj [(''funding_model'', JStr (FundingModel (fst econ))),
         (''lender_of_record'', JStr (LenderOfRecord (fst econ))), (''loss_bearer'', JStr (LossBearer (fst econ))),
         (''settlement_method'', JStr (SettlementMethod (fst econ))), (''tax_treatment'', JStr (TaxTreatment (fst econ)))]),
      (''economics_config_version_id'', JStr (snd econ)), (''face_value_minor'', JNum (amount (DscFaceValue snap))),
      (''fee_minor'', JNum (amount (DscFee snap))), (''locale'', JStr (Locale snap)),
      (''product_config'', JStr (ProductConfigVersionID offer)), (''rendered_body'', JStr (RenderedBody snap)),
      (''repayment_minor'', JNum (amount (DscRepayment snap))), (''template_id'', JStr (TemplateID snap)),
      (''template_version'', JStr (TemplateVersion snap)), (''total_cost_text'', JStr (TotalCostText snap))]"

definition wire_evidence :: "string \<Rightarrow> Offer \<Rightarrow> json" where
  "wire_evidence aid offer = JObj [(''currency'', JStr (currency (OffFaceValue offer))),
     (''face_value_minor'', JNum (amount (OffFaceValue offer))), (''offer_snapshot_id'', JStr (OfferID offer)),
     (''platform_request_id'', JStr aid)]"

definition new_attempt :: "string \<Rightarrow> string \<Rightarrow> string \<Rightarrow> FulfilmentAttempt" where
  "new_attempt att aid tik =
     \<lparr>AttemptID = att, AtpAdvanceID = aid, AttemptNo = 1, TelcoIdempotencyKey = tik, AtpState = AttemptSent,
      TelcoReference = '''', SubmittedAt = zero_time, NextEnquiryAt = None, EnquiryCount = 0, ResolvedAt = None\<rparr>"

text \<open>The booking: the advance with its exposure, then the evidence, then the attempt.\<close>

definition book_exposure :: "env \<Rightarrow> orig_cfg \<Rightarrow> Advance \<Rightarrow> Offer \<Rightarrow> db \<Rightarrow> err + string \<times> db" where
  "book_exposure E C adv offer s =
     andThen (Advances_Insert E adv s) (\<lambda>(created, s).
     if \<not> created then Inl (Orig errReplayRace)
     else andThen (Transition E (AdvanceID adv) 1 AdvRequested AdvValidated s) (\<lambda>s.
     andThen (Reserve E (OffProgrammeID offer) (Repayment offer) s) (\<lambda>(pool, s).
     andThen (EvaluateInTx E (oc_guardrails C) (OffProgrammeID offer) pool (OffDisbursed offer) s) (\<lambda>_.
     andThen (ReserveTransition E (AdvanceID adv) 2 pool s) (\<lambda>s.
     Inr (pool, s))))))"

definition book_evidence ::
  "env \<Rightarrow> SubscriberAccount \<Rightarrow> ConfirmCmd \<Rightarrow> Terms \<times> string \<Rightarrow> Offer \<Rightarrow> DisclosureSnapshot \<Rightarrow> string \<Rightarrow> db \<Rightarrow> err + db" where
  "book_evidence E sub cmd econ offer snap aid s =
     andThen (Offers_SetState E (OfferID offer) OfferGenerated OfferAccepted s) (\<lambda>s.
     let (cns, s) = NewID E ''cns'' s in
     Consents_Insert E \<lparr>ConsentID = cns, CnsTelcoID = sub_telco sub, CnsAdvanceID = aid, CnsSubscriberID = sub_id sub,
       CnsDisclosureID = DisclosureSnapshotID snap, DisclosedTerms = consent_terms snap offer econ,
       CnsContentHash = ContentHash snap, CnsChannel = cc_channel cmd, CnsSessionID = cc_session cmd,
       CnsAcceptedAt = cc_accepted cmd, CnsTelcoEvidence = NULLIF_empty (cc_evidence cmd)\<rparr> s)"

definition book_attempt :: "env \<Rightarrow> string \<Rightarrow> Offer \<Rightarrow> db \<Rightarrow> err + FulfilmentAttempt \<times> db" where
  "book_attempt E aid offer s =
     (let (att, s) = NewID E ''att'' s; (tik, s) = NewID E ''tik'' s in
      andThen (Attempts_Insert E (new_attempt att aid tik) (wire_evidence aid offer) s) (\<lambda>s.
      andThen (Transition E aid 3 AdvExposureReserved AdvPendingFulfilment s) (\<lambda>s.
      Inr (new_attempt att aid tik, s))))"

definition book_advance ::
  "env \<Rightarrow> orig_cfg \<Rightarrow> SubscriberAccount \<Rightarrow> ConfirmCmd \<Rightarrow> Terms \<times> string \<Rightarrow> Offer \<Rightarrow> DisclosureSnapshot \<Rightarrow> db
   \<Rightarrow> err + (Advance \<times> FulfilmentAttempt) \<times> db" where
  "book_advance E C sub cmd econ offer snap s =
     (let (aid, s) = NewID E ''adv'' s in
      andThen (feepolicy_Resolve C (OffProgrammeID offer)) (\<lambda>policy.
      let adv = new_advance sub offer cmd aid policy in
      andThen (book_exposure E C adv offer s) (\<lambda>(pool, s).
      andThen (book_evidence E sub cmd econ offer snap aid s) (\<lambda>s.
      andThen (book_attempt E aid offer s) (\<lambda>(att, s).
      Inr ((adv\<lparr>FundingPoolID := pool, State := AdvPendingFulfilment, Version := 4\<rparr>, att), s))))))"

datatype tx1_result = Replayed ConfirmView int | Started Advance FulfilmentAttempt

definition confirm_tx1 :: "orig_cfg \<Rightarrow> string \<Rightarrow> ConfirmCmd \<Rightarrow> string \<Rightarrow> env \<Rightarrow> db \<Rightarrow> err + tx1_result \<times> db" where
  "confirm_tx1 C telco cmd reqHash E s =
     andThen (PutIfAbsent E \<lparr>i_telco = telco, i_op = ConfirmOp, i_key = cc_idem cmd, i_hash = reqHash, i_status = 0,
        i_body = JObj [(''kind'', JStr ''advance.confirm'')], i_terminal = False\<rparr> s) (\<lambda>((rec, stored), s).
     if \<not> stored then
       (if i_hash rec \<noteq> reqHash then Inl (Orig OrigDivergentDuplicate)
        else andThen (replayConfirmAdvance E telco (cc_idem cmd) s) (\<lambda>(v, st). Inr (Replayed v st, s)))
     else
       andThen (lending_gates E C (cc_prog cmd) (cc_token cmd) s) (\<lambda>(econ, sub).
       if HasUncleared E (sub_id sub) s then Inl (Orig ErrRecoveryUnconfirmedHold)
       else andThen (checkOverlays E C (sub_telco sub) (sub_id sub) ''CONFIRM'' s) (\<lambda>_.
       andThen (check_offer E telco cmd sub s) (\<lambda>gate.
       case gate of
         AlreadyAccepted v st \<Rightarrow> Inr (Replayed v st, s)
       | Acceptable offer snap \<Rightarrow>
           andThen (book_advance E C sub cmd econ offer snap s) (\<lambda>((adv, att), s). Inr (Started adv att, s))))))"

record ConfirmResult =
  cr_advance :: ConfirmView
  cr_replayed :: bool
  cr_status :: int

definition recordDivergentDuplicate :: "env \<Rightarrow> string \<Rightarrow> ConfirmCmd \<Rightarrow> string \<Rightarrow> db \<Rightarrow> db" where
  "recordDivergentDuplicate E telco cmd reqHash s =
     snd (WithTenantTx E telco (\<lambda>E s. guardrail_audit E telco ''channel:telco'' ''advance.confirm.divergent_duplicate''
       ''idempotency_key'' (cc_idem cmd)
       (''idempotency key reused with a divergent request (programme='' @ cc_prog cmd @ '' offer='' @ cc_offer cmd
          @ '' hash='' @ reqHash @ '')'') s) s)"

definition recordOutcomeNotCommitted :: "env \<Rightarrow> ctx \<Rightarrow> string \<Rightarrow> string \<Rightarrow> err \<Rightarrow> db \<Rightarrow> db" where
  "recordOutcomeNotCommitted E c telco aid cause s =
     snd (WithTenantTx E c (\<lambda>E s. guardrail_audit E telco ''system'' ''advance.outcome_not_committed'' ''advance'' aid
       (err_text E cause) s) s)"

definition replayByIdemKey :: "env \<Rightarrow> ctx \<Rightarrow> string \<Rightarrow> db \<Rightarrow> (err + ConfirmResult) \<times> db" where
  "replayByIdemKey E c key s =
     (case TenantFrom c of Inl e \<Rightarrow> (Inl e, s) | Inr telco \<Rightarrow>
      (case WithTenantTx E c (\<lambda>E s. andThen (replayConfirmAdvance E telco key s) (\<lambda>r. Inr (r, s))) s of
         (Inl e, s) \<Rightarrow> (Inl e, s)
       | (Inr (v, st), s) \<Rightarrow> (Inr \<lparr>cr_advance = v, cr_replayed = True, cr_status = st\<rparr>, s)))"

definition cmdHasExistingAdvance :: "env \<Rightarrow> ctx \<Rightarrow> ConfirmCmd \<Rightarrow> db \<Rightarrow> bool" where
  "cmdHasExistingAdvance E c cmd s =
     (case WithTenantTx E c (\<lambda>E s. Inr (case Advances_GetByIdemKey E (cc_idem cmd) s of Inl _ \<Rightarrow> False | Inr _ \<Rightarrow> True, s)) s of
        (Inr found, _) \<Rightarrow> found | (Inl _, _) \<Rightarrow> False)"

datatype confirm_step = Finished "err + ConfirmResult" | Dialling Advance FulfilmentAttempt

definition confirm_checks :: "orig_cfg \<Rightarrow> ctx \<Rightarrow> ConfirmCmd \<Rightarrow> err + string" where
  "confirm_checks C c cmd =
     (if cc_idem cmd = '''' \<or> cc_corr cmd = '''' then Inl (Fmt ''idempotency key and correlation id are required'')
      else if cc_disclosure cmd = '''' then Inl (Orig ErrDisclosureRequired)
      else if cc_channel cmd = '''' \<or> cc_session cmd = '''' \<or> cc_accepted cmd = zero_time then Inl (Orig ErrAcceptanceEvidenceMissing)
      else andThen (TenantFrom c) (\<lambda>telco.
      andThen (loadDisclosureCfg C (cc_prog cmd)) (\<lambda>(dc, _).
      if cc_channel cmd \<notin> set (AllowedChannels dc) then Inl (Orig ErrChannelNotAllowed)
      else Inr telco)))"

text \<open>Up to the network call, which happens outside every transaction.\<close>

definition confirm_start :: "env \<Rightarrow> orig_cfg \<Rightarrow> ctx \<Rightarrow> ConfirmCmd \<Rightarrow> db \<Rightarrow> confirm_step \<times> db" where
  "confirm_start E C c cmd s =
     (case confirm_checks C c cmd of Inl e \<Rightarrow> (Finished (Inl e), s) | Inr telco \<Rightarrow>
      let reqHash = confirmRequestHash E cmd in
      (case WithTenantTx E c (confirm_tx1 C telco cmd reqHash) s of
        (Inr (Started adv att), s) \<Rightarrow> (Dialling adv att, s)
      | (Inr (Replayed v st), s) \<Rightarrow> (Finished (Inr \<lparr>cr_advance = v, cr_replayed = True, cr_status = st\<rparr>), s)
      | (Inl e, s) \<Rightarrow>
          (case e of
             Orig OrigDivergentDuplicate \<Rightarrow> (Finished (Inl e), recordDivergentDuplicate E telco cmd reqHash s)
           | BreachError g measured limit \<Rightarrow>
               (Finished (Inl ErrProgrammeSuspended), snd (RecordTrip E telco (cc_prog cmd) g measured limit s))
           | Orig errReplayRace \<Rightarrow> (case replayByIdemKey E c (cc_idem cmd) s of (r, s) \<Rightarrow> (Finished r, s))
           | ErrConcurrentAdvanceBlocked \<Rightarrow>
               (if cmdHasExistingAdvance E c cmd s
               then (case replayByIdemKey E c (cc_idem cmd) s of (r, s) \<Rightarrow> (Finished r, s))
               else (Finished (Inl e), s))
           | _ \<Rightarrow> (Finished (Inl e), s))))"

definition fulfilment_request :: "Advance \<Rightarrow> ConfirmCmd \<Rightarrow> FulfilmentRequest" where
  "fulfilment_request adv cmd =
     \<lparr>PlatformRequestID = AdvanceID adv, ReqSubscriberID = AdvSubscriberID adv, ReqMSISDNToken = cc_token cmd,
      ProductType = ''AIRTIME_ADVANCE'', ReqFaceValue = FaceValue adv, OfferSnapshotID = AdvOfferID adv\<rparr>"

definition confirm_finish ::
  "env \<Rightarrow> orig_cfg \<Rightarrow> ctx \<Rightarrow> Advance \<Rightarrow> FulfilmentAttempt \<Rightarrow> err + Result \<Rightarrow> db \<Rightarrow> (err + ConfirmResult) \<times> db" where
  "confirm_finish E C c adv att answer s =
     (let res = (case answer of Inr res \<Rightarrow> res
         | Inl e \<Rightarrow> noResult\<lparr>outcome := OutcomeUnknown,
             ResponseEvidence := Some (''{\"adapter_fault\":'' @ quoted E (err_text E e) @ ''}'')\<rparr>) in
      case WithTenantTx E c (resolveOutcomeTx C (AdvanceID adv) (AttemptID att) res) s of
        (Inr (final, st), s) \<Rightarrow> (Inr \<lparr>cr_advance = view_of final, cr_replayed = False, cr_status = st\<rparr>, s)
      | (Inl e, s) \<Rightarrow> (Inl e, if is_panic e then s else recordOutcomeNotCommitted E c c (AdvanceID adv) e s))"

text \<open>
  The saga. The client is the interface of the adapter; while the call is out, time passes (the
  second environment) and the rest of the system works on the database.
\<close>

definition Confirm ::
  "env \<Rightarrow> env \<Rightarrow> orig_cfg \<Rightarrow> (string \<Rightarrow> string \<Rightarrow> FulfilmentRequest \<Rightarrow> err + Result) \<Rightarrow> (db \<Rightarrow> db) \<Rightarrow> ctx \<Rightarrow> ConfirmCmd \<Rightarrow> db
   \<Rightarrow> (err + ConfirmResult) \<times> db" where
  "Confirm E E2 C submit others c cmd s =
     (case confirm_start E C c cmd s of
        (Finished r, s) \<Rightarrow> (r, s)
      | (Dialling adv att, s) \<Rightarrow>
          confirm_finish E2 C c adv att (submit (AdvTelcoID adv) (TelcoIdempotencyKey att) (fulfilment_request adv cmd)) (others s))"

definition GetAdvance :: "env \<Rightarrow> ctx \<Rightarrow> string \<Rightarrow> db \<Rightarrow> (err + Advance) \<times> db" where
  "GetAdvance E c aid s = WithTenantTx E c (\<lambda>E s. andThen (Advances_Get E aid s) (\<lambda>a. Inr (a, s))) s"

section \<open>Self-exclusion\<close>

record SelfExclusionResult =
  sr_id :: string
  sr_until :: int
  sr_already :: bool

definition loadSelfExclusionCfg :: "orig_cfg \<Rightarrow> string \<Rightarrow> err + selfExclusionCfg" where
  "loadSelfExclusionCfg C prog =
     andThen (oc_selfexcl C prog) (\<lambda>c.
     if MinExclusionDays c < 1 then Inl (Fmt ''min_exclusion_days not configured'')
     else if sx_channels c = [] then Inl (Fmt ''allowed_channels not configured'')
     else Inr c)"

definition exclude_tx :: "string \<Rightarrow> string \<Rightarrow> string \<Rightarrow> int \<Rightarrow> env \<Rightarrow> db \<Rightarrow> err + SelfExclusionResult \<times> db" where
  "exclude_tx token channel reason minUntil E s =
     andThen (GetLiveByToken E token s) (\<lambda>sub.
     case GetActiveBySubscriber E (sub_id sub) s of
       Some ex \<Rightarrow> Inr (\<lparr>sr_id = ExclusionID ex, sr_until = MinUntil ex, sr_already = True\<rparr>, s)
     | None \<Rightarrow>
         let (xid, s) = NewID E ''sxc'' s in
         andThen (SelfExclusions_Insert E \<lparr>ExclusionID = xid, SxcTelcoID = sub_telco sub, SxcSubscriberID = sub_id sub,
            SxcState = '''', SxcChannel = channel, SxcReason = reason, SxcRequestedAt = zero_time, MinUntil = minUntil\<rparr> s) (\<lambda>s.
         andThen (Subscribers_SetStatus E (sub_id sub) ''ACTIVE'' ''SELF_EXCLUDED'' s) (\<lambda>s.
         andThen (guardrail_audit E (sub_telco sub) (''channel:'' @ channel) ''subscriber.self_excluded''
            ''subscriber_account'' (sub_id sub) reason s) (\<lambda>(_, s).
         Inr (\<lparr>sr_id = xid, sr_until = minUntil, sr_already = False\<rparr>, s)))))"

definition RequestSelfExclusion ::
  "env \<Rightarrow> orig_cfg \<Rightarrow> ctx \<Rightarrow> string \<Rightarrow> string \<Rightarrow> string \<Rightarrow> string \<Rightarrow> db \<Rightarrow> (err + SelfExclusionResult) \<times> db" where
  "RequestSelfExclusion E C c prog token channel reason s =
     (case loadSelfExclusionCfg C prog of Inl e \<Rightarrow> (Inl e, s) | Inr cfg \<Rightarrow>
      if channel \<notin> set (sx_channels cfg) then (Inl (Orig ErrSelfExclusionChannelNotAllowed), s)
      else WithTenantTx E c (exclude_tx token channel reason (now E + MinExclusionDays cfg * day)) s)"

definition reinstate_tx :: "string \<Rightarrow> string \<Rightarrow> env \<Rightarrow> db \<Rightarrow> err + unit \<times> db" where
  "reinstate_tx token channel E s =
     andThen (GetLiveByToken E token s) (\<lambda>sub.
     case GetActiveBySubscriber E (sub_id sub) s of
       None \<Rightarrow> Inl (Orig ErrNotSelfExcluded)
     | Some ex \<Rightarrow>
         if now E < MinUntil ex then Inl (Orig ErrCoolOffNotElapsed)
         else andThen (MarkReinstated E (ExclusionID ex) channel s) (\<lambda>(ok, s).
         if \<not> ok then Inl (Orig ErrCoolOffNotElapsed)
         else andThen (Subscribers_SetStatus E (sub_id sub) ''SELF_EXCLUDED'' ''ACTIVE'' s) (\<lambda>s.
         guardrail_audit E (sub_telco sub) (''channel:'' @ channel) ''subscriber.self_exclusion_reinstated''
           ''subscriber_account'' (sub_id sub) ''cool-off elapsed; subscriber reinstated'' s)))"

definition ReinstateSelfExclusion :: "env \<Rightarrow> orig_cfg \<Rightarrow> ctx \<Rightarrow> string \<Rightarrow> string \<Rightarrow> string \<Rightarrow> db \<Rightarrow> (err + unit) \<times> db" where
  "ReinstateSelfExclusion E C c prog token channel s =
     (case loadSelfExclusionCfg C prog of Inl e \<Rightarrow> (Inl e, s) | Inr cfg \<Rightarrow>
      if RequireOperatorReinstatement cfg then (Inl (Orig ErrOperatorReinstatementRequired), s)
      else WithTenantTx E c (reinstate_tx token channel) s)"

section \<open>The resolver\<close>

text \<open>
  \<^verbatim>\<open>usecase/fulfilmentresolver/resolver.go\<close>: due attempts are claimed in a short transaction, each is
  enquired outside any transaction, and a definitive answer goes through \<^verbatim>\<open>ResolveOutcome\<close>.
\<close>

definition next_delay :: "int list \<Rightarrow> int \<Rightarrow> err + int" where
  "next_delay delays n =
     (let idx = (if n + 1 \<ge> int (length delays) then int (length delays) - 1 else n + 1) in
      if idx < 0 \<or> idx \<ge> int (length delays) then Inl (Panic ''index out of range'') else Inr (delays ! nat idx))"

definition resolveOne ::
  "env \<Rightarrow> orig_cfg \<Rightarrow> (string \<Rightarrow> string \<Rightarrow> err + Result) \<Rightarrow> string \<Rightarrow> int list \<Rightarrow> FulfilmentAttempt \<Rightarrow> db \<Rightarrow> (err + bool) \<times> db" where
  "resolveOne E C enquire telco delays att s =
     (case enquire telco (AtpAdvanceID att) of
        Inl e \<Rightarrow> (Inl e, s)
      | Inr res \<Rightarrow>
          (case outcome res of
             OutcomeUnknown \<Rightarrow>
               WithTenantTx E telco (\<lambda>E s.
                 andThen (next_delay delays (EnquiryCount att)) (\<lambda>d.
                 andThen (RescheduleEnquiry E (AttemptID att) (now E + d * second) s) (\<lambda>s. Inr (False, s)))) s
           | OtherOutcome x \<Rightarrow> (Inl (Fmt ''unrecognised enquiry outcome''), s)
           | _ \<Rightarrow> (case ResolveOutcome E C telco (AtpAdvanceID att) (AttemptID att) res s of
                    (Inl e, s) \<Rightarrow> (Inl e, s) | (Inr _, s) \<Rightarrow> (Inr True, s))))"

text \<open>An attempt whose resolution fails is logged and skipped; a panic ends the run.\<close>

fun resolve_all ::
  "env \<Rightarrow> orig_cfg \<Rightarrow> (string \<Rightarrow> string \<Rightarrow> err + Result) \<Rightarrow> string \<Rightarrow> int list \<Rightarrow> FulfilmentAttempt list \<Rightarrow> nat \<Rightarrow> db \<Rightarrow> (err + nat) \<times> db" where
  "resolve_all E C enquire telco delays [] n s = (Inr n, s)"
| "resolve_all E C enquire telco delays (att # atts) n s =
     (case resolveOne E C enquire telco delays att s of
        (Inl (Panic p), s) \<Rightarrow> (Inl (Panic p), s)
      | (Inl e, s) \<Rightarrow> resolve_all E C enquire telco delays atts n s
      | (Inr ok, s) \<Rightarrow> resolve_all E C enquire telco delays atts (if ok then Suc n else n) s)"

definition RunOnce ::
  "env \<Rightarrow> orig_cfg \<Rightarrow> (string \<Rightarrow> string \<Rightarrow> err + Result) \<Rightarrow> string \<Rightarrow> nat \<Rightarrow> db \<Rightarrow> (err + nat) \<times> db" where
  "RunOnce E C enquire telco limit s =
     (case oc_delays C telco of Inl e \<Rightarrow> (Inl e, s) | Inr (delays, _) \<Rightarrow>
      (case delays of [] \<Rightarrow> (Inl (Panic ''index out of range''), s) | d # _ \<Rightarrow>
       (case WithTenantTx E telco (\<lambda>E s. Inr (DueEnquiries E (now E) (now E - d * second) limit s, s)) s of
          (Inl e, s) \<Rightarrow> (Inl e, s)
        | (Inr claims, s) \<Rightarrow> resolve_all E C enquire telco delays claims 0 s)))"

end
