(* ===== verification/OriginationBook.thy ===== *)
theory OriginationBook
  imports Origination RecoveryBook
begin

text \<open>
  What origination does to the book: booking an advance moves its repayment into the pool's
  reserved amount, a confirmed outcome turns the reservation into utilisation, a failed one
  releases it, an unknown one leaves it. Every step keeps the pools funded and touches the
  repayment of no other advance.
\<close>

section \<open>A book that grows\<close>

definition grows_book :: "db \<Rightarrow> db \<Rightarrow> bool" where
  "grows_book s s' \<longleftrightarrow> (book_ok s \<longrightarrow> book_ok s'
     \<and> (\<forall>aid \<in> a_id ` set (advances s). aid \<in> a_id ` set (advances s') \<and> gross s' aid = gross s aid))"

lemma grows_refl [simp, intro]: "grows_book s s"
  by (simp add: grows_book_def)

lemma grows_trans: "grows_book s t \<Longrightarrow> grows_book t u \<Longrightarrow> grows_book s u"
  by (auto simp: grows_book_def)

lemma same_book_grows: "same_book s s' \<Longrightarrow> grows_book s s'"
  using same_book_keeps [of s s'] by (auto simp: same_book_def grows_book_def keeps_book_def)

lemma same_book_Offers_SetState [book_frame]: "Offers_SetState E i f t s = Inr s' \<Longrightarrow> same_book s s'"
  by (auto simp: Offers_SetState_def Let_def same_book_def schema_ok_def split: if_splits)

lemma same_book_Consents [book_frame]: "Consents_Insert E c s = Inr s' \<Longrightarrow> same_book s s'"
  by (auto dest!: Consents_Insert_Inr simp: same_book_def schema_ok_def)

lemma same_book_Attempts_Insert [book_frame]: "Attempts_Insert E at ev s = Inr s' \<Longrightarrow> same_book s s'"
  by (auto simp: Attempts_Insert_def same_book_def schema_ok_def split: if_splits)

lemma same_book_resolve_attempt [book_frame]: "resolve_attempt E att f t ref resp nxt s = Inr s' \<Longrightarrow> same_book s s'"
  by (auto simp: resolve_attempt_def Attempts_Resolve_def attempt_update_def andThen_Inr_iff same_book_def schema_ok_def
      split: sum.splits if_splits)

lemma same_book_guardrail_audit [book_frame]: "guardrail_audit E t a x y z w s = Inr (u, s') \<Longrightarrow> same_book s s'"
  by (auto dest!: guardrail_audit_Inr simp: same_book_def schema_ok_def)

lemma same_book_emitOutbox [book_frame]: "emitOutbox E adv ty s = Inr s' \<Longrightarrow> same_book s s'"
  by (auto simp: emitOutbox_def NewID_def Let_def dest!: same_book_Outbox) (simp add: same_book_def schema_ok_def)

lemma same_book_trip [book_frame]:
  assumes "trip_tx telco prog g measured limit E s = Inr (u, s')"
  shows "same_book s s'"
proof -
  have f: "s' = s\<lparr>next_id := next_id s', trips := trips s', audit := audit s', programmes := suspend E prog (programmes s)\<rparr>"
    using trip_tx_Inr [OF assms] by blast
  show ?thesis
    using arg_cong [OF f, of pools] arg_cong [OF f, of advances] arg_cong [OF f, of allocs] arg_cong [OF f, of pending]
    by (simp add: same_book_def schema_ok_def)
qed

lemma SetResponseIfAbsent_Inr:
  "SetResponseIfAbsent E t op k st b s = Inr (w, s') \<Longrightarrow>
   s' = s\<lparr>idem := upd_where (\<lambda>r. is_idem E t op k r \<and> i_status r = 0) (\<lambda>r. r\<lparr>i_status := st, i_body := b\<rparr>) (idem s)\<rparr>
   \<and> (\<exists>r \<in> set (idem s). is_idem E t op k r)
   \<and> w = (length (filter (\<lambda>r. is_idem E t op k r \<and> i_status r = 0) (idem s)) = 1)"
proof -
  let ?p = "\<lambda>r. is_idem E t op k r \<and> i_status r = 0"
  assume a: "SetResponseIfAbsent E t op k st b s = Inr (w, s')"
  then obtain rows where rows: "update_rows ?p (write_once st b) (idem s) = Inr rows"
    by (auto simp: SetResponseIfAbsent_def Let_def andThen_Inr_iff)
  have "rows = upd_where ?p (projr \<circ> write_once st b) (idem s)" using rows by (auto simp: res_simps)
  moreover have "\<dots> = upd_where ?p (\<lambda>r. r\<lparr>i_status := st, i_body := b\<rparr>) (idem s)"
    by (rule upd_where_cong_on) (simp add: write_once_def)
  ultimately have r2: "rows = upd_where ?p (\<lambda>r. r\<lparr>i_status := st, i_body := b\<rparr>) (idem s)" by simp
  have ex: "length (filter ?p (idem s)) = 1 \<Longrightarrow> \<exists>r \<in> set (idem s). is_idem E t op k r"
    by (metis (no_types, lifting) filter_empty_conv list.size(3) zero_neq_one)
  show ?thesis
  proof (cases "length (filter ?p (idem s)) = 1")
    case True
    with a rows r2 ex show ?thesis by (simp add: SetResponseIfAbsent_def Let_def)
  next
    case False
    with a rows r2 show ?thesis by (simp add: SetResponseIfAbsent_def Let_def split: if_splits)
  qed
qed

lemma same_book_recordConfirmResponse [book_frame]: "recordConfirmResponse E a s = Inr (st, s') \<Longrightarrow> same_book s s'"
  by (auto simp: recordConfirmResponse_def andThen_Inr_iff same_book_def schema_ok_def split: if_splits sum.splits
      dest!: SetResponseIfAbsent_Inr)

section \<open>Moving one advance\<close>

lemma adv_step:
  assumes upd: "adv_update (adv_at E aid v frm) f s = Inr s1"
    and f: "\<And>q. a_id (f q) = a_id q" "\<And>q. a_out (f q) = a_out q"
    and dst: "distinct (map a_id (advances s))"
  obtains r where "r \<in> set (advances s)" "adv_at E aid v frm r" "advance_checks (f r)"
    "advances s1 = upd_where (adv_at E aid v frm) f (advances s)"
    "pools s1 = pools s" "allocs s1 = allocs s" "pending s1 = pending s"
    "map a_id (advances s1) = map a_id (advances s)"
    "\<And>a. owed s1 a = owed s a" "schema_ok s \<Longrightarrow> schema_ok s1"
    "\<And>pid. lent s1 pid = lent s pid
        + ((if a_pool (f r) = Some pid \<and> lent_state (a_state (f r)) then sint (a_out r) else 0)
         - (if a_pool r = Some pid \<and> lent_state frm then sint (a_out r) else 0))"
    "\<And>pid. held s1 pid = held s pid
        + ((if a_pool (f r) = Some pid \<and> held_state (a_state (f r)) then sint (a_out r) else 0)
         - (if a_pool r = Some pid \<and> held_state frm then sint (a_out r) else 0))"
proof -
  let ?p = "adv_at E aid v frm"
  from upd obtain r where r: "r \<in> set (advances s)" "?p r" by (auto simp: res_simps)
  have key: "?p q \<Longrightarrow> a_id q = a_id r" for q using r by (simp add: adv_at_def)
  have st: "a_state r = frm" using r by (simp add: adv_at_def)
  have s1: "s1 = s\<lparr>advances := upd_where ?p f (advances s)\<rparr>" and chk: "list_all advance_checks (upd_where ?p f (advances s))"
    using upd by (auto simp: res_simps)
  have ids: "map a_id (advances s1) = map a_id (advances s)" by (simp add: s1 map_upd_where_key f(1))
  have ow: "owed s1 a = owed s a" for a
    using owed_update [where s = s and s' = s1 and p = ?p and f = f and r = r and aid = a, OF dst r key f(1)]
    by (simp add: s1 f(2))
  have fr: "advance_checks (f r)" using chk in_upd_where [where p = ?p and f = f, OF r(1,2)] by (simp add: list_all_iff)
  have sch: "schema_ok s \<Longrightarrow> schema_ok s1"
    using chk by (auto simp: schema_ok_def s1 list_all_iff advance_checks_def)
  note eff = adv_update_effects [OF upd r key dst f(1)]
  show ?thesis
    by (rule that [OF r fr]) (use eff ids ow sch in \<open>simp_all add: s1 f(2) st\<close>)
qed

text \<open>A transition inside one class of states leaves the totals alone.\<close>

lemma grows_by:
  assumes "funded s \<Longrightarrow> funded s'" "schema_ok s \<Longrightarrow> schema_ok s'" "allocs s' = allocs s"
    "map a_id (advances s') = map a_id (advances s)" "\<And>a. owed s' a = owed s a"
  shows "grows_book s s'"
proof -
  have "a_id ` set (advances s') = a_id ` set (advances s)" using assms(4) by (metis image_set)
  with assms show ?thesis by (auto simp: grows_book_def book_ok_def gross_def repaid_def)
qed

definition transition_cols :: "env \<Rightarrow> AdvanceState \<Rightarrow> advance_row \<Rightarrow> advance_row" where
  "transition_cols E to r = r\<lparr>a_state := to, a_version := a_version r + 1, a_updated := now E,
     a_activated := (if to = AdvActive then Some (now E) else a_activated r),
     a_closed := (if to \<in> {AdvClosed, AdvFulfilmentFailed, AdvDeclined} then Some (now E) else a_closed r)\<rparr>"

lemma transition_cols_simps [simp]:
  "a_id (transition_cols E to r) = a_id r" "a_out (transition_cols E to r) = a_out r"
  "a_pool (transition_cols E to r) = a_pool r" "a_state (transition_cols E to r) = to"
  "a_telco (transition_cols E to r) = a_telco r" "a_idem (transition_cols E to r) = a_idem r"
  "a_cur (transition_cols E to r) = a_cur r" "a_version (transition_cols E to r) = a_version r + 1"
  "a_sub (transition_cols E to r) = a_sub r" "a_prog (transition_cols E to r) = a_prog r"
  "a_face (transition_cols E to r) = a_face r" "a_disb (transition_cols E to r) = a_disb r"
  "a_offer (transition_cols E to r) = a_offer r" "a_fee (transition_cols E to r) = a_fee r"
  by (simp_all add: transition_cols_def)

lemma Transition_upd:
  "Transition E aid v frm to s = Inr s' \<Longrightarrow>
   CanTransition frm to \<and> adv_update (adv_at E aid v frm) (transition_cols E to) s = Inr s'"
  by (simp add: Transition_def transition_cols_def [abs_def] split: if_splits)

lemma Transition_grows:
  assumes tr: "Transition E aid v frm to s = Inr s'"
    and cls: "held_state frm = held_state to" "lent_state frm = lent_state to"
  shows "grows_book s s'"
proof (cases "distinct (map a_id (advances s))")
  case True
  from Transition_upd [OF tr] have upd: "adv_update (adv_at E aid v frm) (transition_cols E to) s = Inr s'" ..
  obtain r where "pools s' = pools s" "allocs s' = allocs s" "map a_id (advances s') = map a_id (advances s)"
    "\<And>a. owed s' a = owed s a" "schema_ok s \<Longrightarrow> schema_ok s'"
    "\<And>pid. lent s' pid = lent s pid" "\<And>pid. held s' pid = held s pid"
  proof (rule adv_step [OF upd transition_cols_simps(1,2) True], goal_cases)
    case (1 r)
    show ?case
      by (rule 1(1)) (use 1(6-11) 1(12) 1(13) in \<open>simp_all add: cls\<close>)
  qed
  then show ?thesis by (intro grows_by) (simp_all add: funded_def utilised_of_def reserved_of_def)
next
  case False
  then show ?thesis by (simp add: grows_book_def book_ok_def funded_def)
qed

text \<open>
  Settling: the advance leaves the held states and the pool operation takes the amount out of the
  reservation, into utilisation when the advance is lent.
\<close>

context pool_op
begin

lemma settle:
  assumes tr: "Transition E aid v frm to s = Inr s1"
    and op: "opf E pid m s1 = Inr s2"
    and row: "\<And>r. r \<in> set (advances s) \<Longrightarrow> adv_at E aid v frm r \<Longrightarrow>
        a_out r = amount m \<and> pid = (case a_pool r of None \<Rightarrow> '''' | Some x \<Rightarrow> x)"
    and cls: "held_state frm" "\<not> lent_state frm" "\<not> held_state to" "to \<notin> {AdvRequested, AdvValidated, AdvDeclined}"
    and eff: "dr = - 1" "du = (if lent_state to then 1 else 0)"
  shows "grows_book s s2"
proof (cases "funded s")
  case True
  note dst = funded_distinct [OF True]
  from Transition_upd [OF tr] have upd: "adv_update (adv_at E aid v frm) (transition_cols E to) s = Inr s1" ..
  obtain r where
    r: "r \<in> set (advances s)" "adv_at E aid v frm r" "advance_checks (transition_cols E to r)"
    and s1: "pools s1 = pools s" "allocs s1 = allocs s" "pending s1 = pending s" "map a_id (advances s1) = map a_id (advances s)"
    "\<And>a. owed s1 a = owed s a" "schema_ok s \<Longrightarrow> schema_ok s1"
    and mv: "\<And>j. lent s1 j = lent s j + (if a_pool r = Some j \<and> lent_state to then sint (a_out r) else 0)"
    "\<And>j. held s1 j = held s j - (if a_pool r = Some j then sint (a_out r) else 0)"
  proof (rule adv_step [OF upd transition_cols_simps(1,2) conjunct2 [OF dst]], goal_cases)
    case (1 r)
    show ?case
      by (rule 1(1)) (use 1(2-4) 1(6-11) 1(12) 1(13) cls in simp_all)
  qed
  from r(3) cls(4) obtain x where x: "a_pool r = Some x" by (auto simp: advance_checks_def)
  with row [OF r(1,2)] have pid: "pid = x" and out: "a_out r = amount m" by simp_all
  have d1: "distinct (map p_id (pools s1))" using dst s1 by simp
  note tb = tables [OF op]
  have tot: "utilised_of s2 j = lent s2 j \<and> reserved_of s2 j = held s2 j" for j
  proof -
    have "lent s2 j = lent s1 j" "held s2 j = held s1 j" using tb by (simp_all add: lent_def held_def)
    moreover have "utilised_of s1 j = utilised_of s j" "reserved_of s1 j = reserved_of s j"
      using s1 by (simp_all add: utilised_of_def reserved_of_def)
    ultimately show ?thesis
      using True mv [of j] utilised [OF op d1, of j] reserved [OF op d1, of j]
      by (auto simp: funded_def eff x pid out)
  qed
  have "distinct (map p_id (pools s2))" using keeps [OF op d1] by (simp add: pools_ok_def)
  with tot dst s1 tb have f2: "funded s2" by (simp add: funded_def)
  show ?thesis
    by (rule grows_by) (use f2 s1 tb in \<open>simp_all add: owed_def schema_ok_def\<close>)
next
  case False
  then show ?thesis by (simp add: grows_book_def book_ok_def)
qed

end

section \<open>Booking\<close>

lemma Reserve_moves:
  assumes "Reserve E prog amt s = Inr (pid, s')"
  shows "s' = s\<lparr>pools := pools s'\<rparr>
    \<and> (distinct (map p_id (pools s)) \<longrightarrow> pools_ok s'
       \<and> reserved_of s' j = reserved_of s j + (if j = pid then 1 * sint (amount amt) else 0)
       \<and> utilised_of s' j = utilised_of s j + (if j = pid then 0 * sint (amount amt) else 0))"
proof -
  let ?f = "\<lambda>q. andThen (sql_add (p_reserved q) (amount amt)) (\<lambda>v. Inr (q\<lparr>p_reserved := v\<rparr>))"
  from assms obtain r rs rows where c: "reserve_candidates E prog amt s = r # rs" "p_id r = pid"
    and up: "update_rows (pool_visible E pid) ?f (pools s) = Inr rows" "put_pools rows s = Inr s'"
    by (auto simp: Reserve_def andThen_Inr_iff split: list.splits)
  have "r \<in> set (pools s)" "pool_visible E pid r"
    using head_sort_key_least [OF c(1) [unfolded reserve_candidates_def]] c(2) by (simp_all add: pool_visible_def)
  then have "filter (pool_visible E pid) (pools s) \<noteq> []" by (auto simp: filter_empty_conv)
  with up have upd: "pool_update (pool_visible E pid) ?f ErrNotFound s = Inr s'" by (simp add: pool_update_def)
  have "s' = s\<lparr>pools := pools s'\<rparr> \<and> (\<exists>r \<in> set (pools s). pool_visible E pid r)
    \<and> (distinct (map p_id (pools s)) \<longrightarrow> pools_ok s'
       \<and> reserved_of s' j = reserved_of s j + (if j = pid then 1 * sint (amount amt) else 0)
       \<and> utilised_of s' j = utilised_of s j + (if j = pid then 0 * sint (amount amt) else 0))"
    by (rule pool_update_effects [OF upd, where g = "\<lambda>r. r\<lparr>p_reserved := p_reserved r + amount amt\<rparr>"])
       (auto simp: res_simps i64_simps)
  then show ?thesis by blast
qed

definition reserve_cols :: "env \<Rightarrow> string \<Rightarrow> advance_row \<Rightarrow> advance_row" where
  "reserve_cols E pid r = r\<lparr>a_state := AdvExposureReserved, a_pool := Some pid, a_version := a_version r + 1, a_updated := now E\<rparr>"

lemma reserve_cols_simps [simp]:
  "a_id (reserve_cols E pid r) = a_id r" "a_out (reserve_cols E pid r) = a_out r"
  "a_pool (reserve_cols E pid r) = Some pid" "a_state (reserve_cols E pid r) = AdvExposureReserved"
  by (simp_all add: reserve_cols_def)

lemma ReserveTransition_upd:
  "ReserveTransition E aid v pid s = adv_update (adv_at E aid v AdvValidated) (reserve_cols E pid) s"
  by (simp add: ReserveTransition_def reserve_cols_def [abs_def])

lemma reserve_grows:
  assumes res: "Reserve E prog amt s = Inr (pid, s1)" and tr: "ReserveTransition E aid v pid s1 = Inr s2"
    and row: "\<And>r. r \<in> set (advances s) \<Longrightarrow> a_id r = aid \<Longrightarrow> a_out r = amount amt"
  shows "grows_book s s2"
proof (cases "funded s")
  case True
  note dst = funded_distinct [OF True]
  obtain P where P: "s1 = s\<lparr>pools := P\<rparr>" using Reserve_moves [OF res] by metis
  have d1: "distinct (map a_id (advances s1))" using dst by (simp add: P)
  have st: "\<not> held_state AdvValidated" "\<not> lent_state AdvValidated" "\<not> lent_state AdvExposureReserved" "held_state AdvExposureReserved"
    by (simp_all add: held_state_def lent_state_def)
  obtain r where r: "r \<in> set (advances s1)" "adv_at E aid v AdvValidated r"
    and s2: "pools s2 = pools s1" "allocs s2 = allocs s1" "pending s2 = pending s1"
      "map a_id (advances s2) = map a_id (advances s1)" "\<And>a. owed s2 a = owed s1 a" "schema_ok s1 \<Longrightarrow> schema_ok s2"
    and mv: "\<And>j. lent s2 j = lent s1 j" "\<And>j. held s2 j = held s1 j + (if pid = j then sint (a_out r) else 0)"
  proof (rule adv_step [OF tr [unfolded ReserveTransition_upd] reserve_cols_simps(1,2) d1], goal_cases)
    case (1 r)
    show ?case by (rule 1(1)) (use 1(2-4) 1(6-11) 1(12) 1(13) st in simp_all)
  qed
  have out: "a_out r = amount amt" using row r by (simp add: P adv_at_def)
  have tot: "utilised_of s2 j = lent s2 j \<and> reserved_of s2 j = held s2 j" for j
  proof -
    have "utilised_of s2 j = utilised_of s1 j" "reserved_of s2 j = reserved_of s1 j" "lent s1 j = lent s j" "held s1 j = held s j"
      using s2(1) by (simp_all add: utilised_of_def reserved_of_def lent_def held_def P)
    then show ?thesis
      using True mv [of j] Reserve_moves [OF res, of j] dst by (auto simp: funded_def out)
  qed
  have "distinct (map p_id (pools s1))" using Reserve_moves [OF res] dst by (auto simp: pools_ok_def)
  with tot dst s2 have f2: "funded s2" by (simp add: funded_def P)
  show ?thesis
    by (rule grows_by) (use f2 s2 in \<open>simp_all add: P owed_def schema_ok_def\<close>)
next
  case False
  then show ?thesis by (simp add: grows_book_def book_ok_def)
qed

text \<open>The row an insert appends.\<close>

definition advance_row_of :: "env \<Rightarrow> Advance \<Rightarrow> advance_row" where
  "advance_row_of E a = \<lparr>a_id = AdvanceID a, a_telco = AdvTelcoID a, a_prog = AdvProgrammeID a, a_sub = AdvSubscriberID a,
     a_offer = AdvOfferID a, a_pool = None, a_idem = IdempotencyKey a, a_corr = AdvCorrelationID a,
     a_state = State a, a_version = 1, a_face = amount (FaceValue a), a_fee = amount (Fee a),
     a_disb = amount (Disbursed a), a_out = amount (Outstanding a), a_cur = currency (FaceValue a),
     a_accepted = now E, a_activated = None, a_closed = None, a_updated = now E,
     a_feerec = NULLIF_empty (FeeRecognition a), a_bucket = None, a_bucket_asof = None\<rparr>"

lemma Advances_Insert_new:
  assumes "Advances_Insert E a s = Inr (True, s')"
  shows "AdvTelcoID a = tenant E \<and> s' = s\<lparr>advances := advances s @ [advance_row_of E a]\<rparr>
    \<and> list_all advance_checks (advances s') \<and> one_active (advances s')
    \<and> (\<forall>q \<in> set (advances s). a_id q \<noteq> AdvanceID a \<and> a_offer q \<noteq> AdvOfferID a
         \<and> \<not> (a_telco q = AdvTelcoID a \<and> a_idem q = IdempotencyKey a))"
  using assms unfolding Advances_Insert_def advance_row_of_def [symmetric] Let_def
  by (auto simp: andThen_Inr_iff rls_check_Inr put_advances_Inr advance_row_of_def split: if_splits sum.splits)

lemma Advances_Insert_grows:
  assumes "Advances_Insert E a s = Inr (True, s')"
  shows "grows_book s s'"
proof -
  note eff = Advances_Insert_new [OF assms]
  then have s': "s' = s\<lparr>advances := advances s @ [advance_row_of E a]\<rparr>" by blast
  have nn: "schema_ok s \<Longrightarrow> schema_ok s'" using eff by (auto simp: schema_ok_def list_all_iff advance_checks_def)
  have tot: "utilised_of s' j = utilised_of s j" "reserved_of s' j = reserved_of s j" "lent s' j = lent s j" "held s' j = held s j"
    for j by (simp_all add: s' utilised_of_def reserved_of_def lent_def held_def advance_row_of_def)
  have new: "AdvanceID a \<notin> a_id ` set (advances s)" using eff by (metis imageE)
  then have "distinct (map a_id (advances s)) \<Longrightarrow> distinct (map a_id (advances s'))" by (simp add: s' advance_row_of_def)
  with tot have "funded s \<Longrightarrow> funded s'" by (simp add: funded_def) (simp add: s')
  moreover have "owed s' aid = owed s aid" if "aid \<in> a_id ` set (advances s)" for aid
    using that new by (auto simp: s' owed_def advance_row_of_def)
  ultimately show ?thesis
    using nn by (auto simp: grows_book_def book_ok_def gross_def repaid_def s')
qed

lemma book_exposure_steps:
  assumes "book_exposure E C adv offer s = Inr (pool, s')"
  obtains s1 s2 s3 where "Advances_Insert E adv s = Inr (True, s1)"
    "Transition E (AdvanceID adv) 1 AdvRequested AdvValidated s1 = Inr s2"
    "Reserve E (OffProgrammeID offer) (Repayment offer) s2 = Inr (pool, s3)"
    "EvaluateInTx E (oc_guardrails C) (OffProgrammeID offer) pool (OffDisbursed offer) s3 = Inr ()"
    "ReserveTransition E (AdvanceID adv) 2 pool s3 = Inr s'"
proof -
  from assms obtain created s1 s2 s3 where x: "Advances_Insert E adv s = Inr (created, s1)" "\<not> \<not> created"
    "Transition E (AdvanceID adv) 1 AdvRequested AdvValidated s1 = Inr s2"
    "Reserve E (OffProgrammeID offer) (Repayment offer) s2 = Inr (pool, s3)"
    "EvaluateInTx E (oc_guardrails C) (OffProgrammeID offer) pool (OffDisbursed offer) s3 = Inr ()"
    "ReserveTransition E (AdvanceID adv) 2 pool s3 = Inr s'"
    unfolding book_exposure_def run_simps by (metis unit.exhaust)
  from x(2) have "created = True" by simp
  with x(1) have "Advances_Insert E adv s = Inr (True, s1)" by simp
  from that [OF this x(3-6)] show ?thesis .
qed

lemma book_exposure_grows:
  assumes "book_exposure E C adv offer s = Inr (pool, s')" and out: "Outstanding adv = Repayment offer"
  shows "grows_book s s'"
proof -
  obtain s1 s2 s3 where ins: "Advances_Insert E adv s = Inr (True, s1)"
    and tr: "Transition E (AdvanceID adv) 1 AdvRequested AdvValidated s1 = Inr s2"
    and res: "Reserve E (OffProgrammeID offer) (Repayment offer) s2 = Inr (pool, s3)"
    and rt: "ReserveTransition E (AdvanceID adv) 2 pool s3 = Inr s'"
    using book_exposure_steps [OF assms(1)] by metis
  have "a_out r = amount (Repayment offer)" if "r \<in> set (advances s2)" "a_id r = AdvanceID adv" for r
    using that Advances_Insert_new [OF ins] Transition_upd [OF tr]
    by (auto simp: adv_update_Inr set_upd_where advance_row_of_def out)
  from reserve_grows [OF res rt this] have "grows_book s2 s'" .
  moreover have "grows_book s1 s2"
    by (rule Transition_grows [OF tr]) (simp_all add: held_state_def lent_state_def)
  ultimately show ?thesis using Advances_Insert_grows [OF ins] by (blast intro: grows_trans)
qed

lemma book_evidence_same:
  assumes "book_evidence E sub cmd econ offer snap aid s = Inr s'"
  shows "same_book s s'"
proof -
  from assms obtain s1 i s2 c where "Offers_SetState E (OfferID offer) OfferGenerated OfferAccepted s = Inr s1"
    "NewID E ''cns'' s1 = (i, s2)" "Consents_Insert E c s2 = Inr s'"
    unfolding book_evidence_def NewID_def run_simps by blast
  then show ?thesis by (blast intro: same_book_trans dest: book_frame)
qed

lemma book_attempt_steps:
  assumes "book_attempt E aid offer s = Inr (att, s')"
  obtains i s1 j s2 s3 where "NewID E ''att'' s = (i, s1)" "NewID E ''tik'' s1 = (j, s2)" "att = new_attempt i aid j"
    "Attempts_Insert E att (wire_evidence aid offer) s2 = Inr s3"
    "Transition E aid 3 AdvExposureReserved AdvPendingFulfilment s3 = Inr s'"
  using assms unfolding book_attempt_def NewID_def run_simps by blast

lemma book_attempt_grows:
  assumes "book_attempt E aid offer s = Inr (att, s')"
  shows "grows_book s s'"
  using assms
proof (rule book_attempt_steps)
  fix i s1 j s2 s3
  assume n: "NewID E ''att'' s = (i, s1)" "NewID E ''tik'' s1 = (j, s2)"
    and ins: "Attempts_Insert E att (wire_evidence aid offer) s2 = Inr s3"
    and tr: "Transition E aid 3 AdvExposureReserved AdvPendingFulfilment s3 = Inr s'"
  from n ins have "same_book s s3" by (blast intro: same_book_trans dest: book_frame)
  moreover have "grows_book s3 s'" by (rule Transition_grows [OF tr]) (simp_all add: held_state_def lent_state_def)
  ultimately show ?thesis by (blast intro: grows_trans same_book_grows)
qed

lemma book_advance_steps:
  assumes "book_advance E C sub cmd econ offer snap s = Inr ((adv, att), s')"
  obtains aid s1 policy pool s2 s3 where "NewID E ''adv'' s = (aid, s1)"
    "feepolicy_Resolve C (OffProgrammeID offer) = Inr policy"
    "book_exposure E C (new_advance sub offer cmd aid policy) offer s1 = Inr (pool, s2)"
    "book_evidence E sub cmd econ offer snap aid s2 = Inr s3" "book_attempt E aid offer s3 = Inr (att, s')"
    "adv = (new_advance sub offer cmd aid policy)\<lparr>FundingPoolID := pool, State := AdvPendingFulfilment, Version := 4\<rparr>"
  using assms unfolding book_advance_def NewID_def run_simps by metis

lemma book_advance_grows:
  assumes "book_advance E C sub cmd econ offer snap s = Inr ((adv, att), s')"
  shows "grows_book s s'"
  using assms
proof (rule book_advance_steps)
  fix aid s1 policy pool s2 s3
  assume n: "NewID E ''adv'' s = (aid, s1)"
    and x: "book_exposure E C (new_advance sub offer cmd aid policy) offer s1 = Inr (pool, s2)"
    and e: "book_evidence E sub cmd econ offer snap aid s2 = Inr s3" and a: "book_attempt E aid offer s3 = Inr (att, s')"
  have "Outstanding (new_advance sub offer cmd aid policy) = Repayment offer" by (simp add: new_advance_def)
  from book_exposure_grows [OF x this] have "grows_book s1 s2" .
  with same_book_grows [OF same_book_NewID [OF n]] same_book_grows [OF book_evidence_same [OF e]] book_attempt_grows [OF a]
  show ?thesis by (blast intro: grows_trans)
qed

section \<open>Settling\<close>

text \<open>The advance an outcome is applied to is the row the transition finds.\<close>

lemma adv_row_at:
  assumes "Advances_Get E aid s = Inr adv" "distinct (map a_id (advances s))"
    and "r \<in> set (advances s)" "a_id r = AdvanceID adv"
  shows "adv = advance_of r"
proof -
  obtain q where q: "q \<in> set (advances s)" "adv = advance_of q" using Advances_Get_InrD [OF assms(1)] by blast
  then have "q = r" using distinct_key_unique [OF assms(2) q(1) assms(3)] assms(4) by simp
  with q show ?thesis by simp
qed

lemma settle_row:
  assumes "Advances_Get E aid s = Inr adv" "distinct (map a_id (advances s))" "advances t = advances s"
    and "r \<in> set (advances t)" "adv_at E (AdvanceID adv) v frm r"
  shows "a_out r = amount (Outstanding adv) \<and> FundingPoolID adv = (case a_pool r of None \<Rightarrow> '''' | Some x \<Rightarrow> x)"
  using adv_row_at [OF assms(1,2), of r] assms(3-) by (simp add: adv_at_def)

lemma open_fulfilment_class:
  "st = AdvPendingFulfilment \<or> st = AdvFulfilmentUnknown \<Longrightarrow> held_state st \<and> \<not> lent_state st"
  by (auto simp: held_state_def lent_state_def)

lemma outcome_confirmed_steps:
  assumes "outcome_confirmed E C adv att res s = Inr s'"
  obtains s1 s2 s3 j b p s4 where
    "resolve_attempt E att (currentAttemptState adv) AttemptConfirmed (TelcoRef res) (ResponseEvidence res) None s = Inr s1"
    "Transition E (AdvanceID adv) (Version adv) (State adv) AdvActive s1 = Inr s2"
    "ConfirmUtilisation E (FundingPoolID adv) (Outstanding adv) s2 = Inr s3"
    "PostEvent E (oc_ledger C) j b s3 = Inr (p, s4)" "emitOutbox E adv ''advance.FulfilmentConfirmed'' s4 = Inr s'"
  using assms unfolding outcome_confirmed_def run_simps by blast

lemma outcome_failed_steps:
  assumes "outcome_failed E adv att res s = Inr s'"
  obtains s1 s2 s3 where
    "resolve_attempt E att (currentAttemptState adv) AttemptFailed (TelcoRef res) (ResponseEvidence res) None s = Inr s1"
    "Transition E (AdvanceID adv) (Version adv) (State adv) AdvFulfilmentFailed s1 = Inr s2"
    "Release E (FundingPoolID adv) (Outstanding adv) s2 = Inr s3"
    "emitOutbox E adv ''advance.FulfilmentFailed'' s3 = Inr s'"
  using assms unfolding outcome_failed_def run_simps by blast

lemma outcome_unknown_steps:
  assumes "outcome_unknown E C adv att res s = Inr s'"
  obtains nxt s1 where
    "resolve_attempt E att (currentAttemptState adv) AttemptUnknown '''' (ResponseEvidence res) (Some nxt) s = Inr s1"
    "State adv = AdvPendingFulfilment \<Longrightarrow> \<exists>s2. Transition E (AdvanceID adv) (Version adv) (State adv) AdvFulfilmentUnknown s1 = Inr s2
       \<and> emitOutbox E adv ''advance.FulfilmentUnknown'' s2 = Inr s'"
    "State adv \<noteq> AdvPendingFulfilment \<Longrightarrow> s' = s1"
  using assms unfolding outcome_unknown_def by (cases "State adv = AdvPendingFulfilment") (auto simp: andThen_Inr_iff)

lemma resolve_attempt_frame:
  "resolve_attempt E att f t ref resp nxt s = Inr s' \<Longrightarrow> \<exists>A. s' = s\<lparr>attempts := A\<rparr>"
proof -
  assume "resolve_attempt E att f t ref resp nxt s = Inr s'"
  then consider "s' = s" | "Attempts_Resolve E att f t ref resp nxt s = Inr s'"
    unfolding resolve_attempt_def by (auto split: sum.splits if_splits)
  then show ?thesis
  proof cases
    case 1
    then have "s' = s\<lparr>attempts := attempts s\<rparr>" by simp
    then show ?thesis ..
  next
    case 2
    then show ?thesis by (auto simp: Attempts_Resolve_def attempt_update_def andThen_Inr_iff split: if_splits)
  qed
qed

lemma apply_outcome_grows:
  assumes get: "Advances_Get E aid s = Inr adv" and st: "State adv = AdvPendingFulfilment \<or> State adv = AdvFulfilmentUnknown"
    and ok: "apply_outcome E C adv att res s = Inr s'"
  shows "grows_book s s'"
proof (cases "distinct (map a_id (advances s))")
  case dst: True
  note cls = open_fulfilment_class [OF st]
  note row = settle_row [OF get dst]
  have failed: "grows_book s s'" if "outcome_failed E adv att res s = Inr s'"
    using that
  proof (rule outcome_failed_steps)
    fix s1 s2 s3
    assume r: "resolve_attempt E att (currentAttemptState adv) AttemptFailed (TelcoRef res) (ResponseEvidence res) None s = Inr s1"
      and tr: "Transition E (AdvanceID adv) (Version adv) (State adv) AdvFulfilmentFailed s1 = Inr s2"
      and rel: "Release E (FundingPoolID adv) (Outstanding adv) s2 = Inr s3"
      and em: "emitOutbox E adv ''advance.FulfilmentFailed'' s3 = Inr s'"
    have a: "advances s1 = advances s" using resolve_attempt_frame [OF r] by auto
    have "grows_book s1 s3"
      by (rule release.settle [OF tr rel row [OF a]]) (use cls in \<open>simp_all add: held_state_def lent_state_def\<close>)
    with same_book_resolve_attempt [OF r] same_book_emitOutbox [OF em] show ?thesis
      by (blast intro: grows_trans same_book_grows)
  qed
  have confirmed: "grows_book s s'" if "outcome_confirmed E C adv att res s = Inr s'"
    using that
  proof (rule outcome_confirmed_steps)
    fix s1 s2 s3 j b p s4
    assume r: "resolve_attempt E att (currentAttemptState adv) AttemptConfirmed (TelcoRef res) (ResponseEvidence res) None s = Inr s1"
      and tr: "Transition E (AdvanceID adv) (Version adv) (State adv) AdvActive s1 = Inr s2"
      and con: "ConfirmUtilisation E (FundingPoolID adv) (Outstanding adv) s2 = Inr s3"
      and po: "PostEvent E (oc_ledger C) j b s3 = Inr (p, s4)"
      and em: "emitOutbox E adv ''advance.FulfilmentConfirmed'' s4 = Inr s'"
    have a: "advances s1 = advances s" using resolve_attempt_frame [OF r] by auto
    have "grows_book s1 s3"
      by (rule confirm.settle [OF tr con row [OF a]]) (use cls in \<open>simp_all add: held_state_def lent_state_def\<close>)
    with same_book_resolve_attempt [OF r] same_book_PostEvent [OF po] same_book_emitOutbox [OF em] show ?thesis
      by (blast intro: grows_trans same_book_grows)
  qed
  have unknown: "grows_book s s'" if "outcome_unknown E C adv att res s = Inr s'"
    using that
  proof (rule outcome_unknown_steps)
    fix nxt s1
    assume r: "resolve_attempt E att (currentAttemptState adv) AttemptUnknown '''' (ResponseEvidence res) (Some nxt) s = Inr s1"
      and pend: "State adv = AdvPendingFulfilment \<Longrightarrow> \<exists>s2. Transition E (AdvanceID adv) (Version adv) (State adv) AdvFulfilmentUnknown s1 = Inr s2
       \<and> emitOutbox E adv ''advance.FulfilmentUnknown'' s2 = Inr s'" and other: "State adv \<noteq> AdvPendingFulfilment \<Longrightarrow> s' = s1"
    note first = same_book_grows [OF same_book_resolve_attempt [OF r]]
    show ?thesis
    proof (cases "State adv = AdvPendingFulfilment")
      case True
      with pend obtain s2 where tr: "Transition E (AdvanceID adv) (Version adv) (State adv) AdvFulfilmentUnknown s1 = Inr s2"
        and em: "emitOutbox E adv ''advance.FulfilmentUnknown'' s2 = Inr s'" by blast
      have "grows_book s1 s2" by (rule Transition_grows [OF tr]) (simp_all add: True held_state_def lent_state_def)
      with first same_book_emitOutbox [OF em] show ?thesis by (blast intro: grows_trans same_book_grows)
    next
      case False
      with first other show ?thesis by simp
    qed
  qed
  from ok show ?thesis
    by (cases "outcome res") (simp_all add: apply_outcome_def failed confirmed unknown)
next
  case False
  then show ?thesis by (simp add: grows_book_def book_ok_def funded_def)
qed

lemma resolveOutcomeTx_cases:
  assumes "resolveOutcomeTx C aid att res E s = Inr ((out, st), s')"
  obtains (settled) "Advances_Get E aid s = Inr out" "s' = s" "st = recordedConfirmStatus E out s"
      "State out \<noteq> AdvPendingFulfilment" "State out \<noteq> AdvFulfilmentUnknown"
    | (applied) adv s1 where "Advances_Get E aid s = Inr adv" "State adv = AdvPendingFulfilment \<or> State adv = AdvFulfilmentUnknown"
      "apply_outcome E C adv att res s = Inr s1" "Advances_Get E (AdvanceID adv) s1 = Inr out"
      "recordConfirmResponse E out s1 = Inr (st, s')"
proof -
  from assms obtain adv where get: "Advances_Get E aid s = Inr adv" by (auto simp: resolveOutcomeTx_def andThen_Inr_iff)
  show ?thesis
  proof (cases "State adv = AdvPendingFulfilment \<or> State adv = AdvFulfilmentUnknown")
    case True
    with assms get obtain s1 where "apply_outcome E C adv att res s = Inr s1" "Advances_Get E (AdvanceID adv) s1 = Inr out"
      "recordConfirmResponse E out s1 = Inr (st, s')"
      unfolding resolveOutcomeTx_def by (auto simp: andThen_Inr_iff)
    from applied [OF get True this] show ?thesis .
  next
    case False
    with assms get have "out = adv" "s' = s" "st = recordedConfirmStatus E out s" by (auto simp: resolveOutcomeTx_def)
    with settled get False show ?thesis by blast
  qed
qed

lemma resolveOutcomeTx_grows:
  assumes "resolveOutcomeTx C aid att res E s = Inr (r, s')"
  shows "grows_book s s'"
proof -
  obtain out st where r: "r = (out, st)" by (cases r)
  from assms [unfolded r] show ?thesis
  proof (cases rule: resolveOutcomeTx_cases)
    case (applied adv s1)
    from apply_outcome_grows [OF applied(1,2,3)] same_book_recordConfirmResponse [OF applied(5)]
    show ?thesis by (blast intro: grows_trans same_book_grows)
  qed simp
qed

section \<open>The use cases\<close>

lemma grows_tx:
  assumes "\<And>E x s'. body E s = Inr (x, s') \<Longrightarrow> grows_book s s'"
  shows "grows_book s (snd (WithTenantTx E c body s))"
  using assms by (auto simp: WithTenantTx_def split: sum.splits)

lemma confirm_tx1_cases:
  assumes "confirm_tx1 C telco cmd h E s = Inr (r, s')"
  obtains (replay) v st where "r = Replayed v st" "grows_book s s'"
    | (booked) rec s1 econ sub offer snap adv att where "r = Started adv att"
      "PutIfAbsent E \<lparr>i_telco = telco, i_op = ConfirmOp, i_key = cc_idem cmd, i_hash = h, i_status = 0,
        i_body = JObj [(''kind'', JStr ''advance.confirm'')], i_terminal = False\<rparr> s = Inr ((rec, True), s1)"
      "lending_gates E C (cc_prog cmd) (cc_token cmd) s1 = Inr (econ, sub)" "\<not> HasUncleared E (sub_id sub) s1"
      "checkOverlays E C (sub_telco sub) (sub_id sub) ''CONFIRM'' s1 = Inr ()"
      "check_offer E telco cmd sub s1 = Inr (Acceptable offer snap)"
      "book_advance E C sub cmd econ offer snap s1 = Inr ((adv, att), s')"
proof -
  from assms obtain rec stored s1 where put: "PutIfAbsent E \<lparr>i_telco = telco, i_op = ConfirmOp, i_key = cc_idem cmd, i_hash = h, i_status = 0,
        i_body = JObj [(''kind'', JStr ''advance.confirm'')], i_terminal = False\<rparr> s = Inr ((rec, stored), s1)"
    by (auto simp: confirm_tx1_def andThen_Inr_iff)
  have g: "grows_book s s1" by (rule same_book_grows [OF same_book_PutIfAbsent [OF put]])
  show ?thesis
  proof (cases stored)
    case False
    with assms put obtain v st where "r = Replayed v st" "s' = s1"
      by (auto simp: confirm_tx1_def andThen_Inr_iff split: if_splits)
    with replay g show ?thesis by blast
  next
    case True
    with assms put obtain econ sub gate where gs: "lending_gates E C (cc_prog cmd) (cc_token cmd) s1 = Inr (econ, sub)"
      "\<not> HasUncleared E (sub_id sub) s1" "checkOverlays E C (sub_telco sub) (sub_id sub) ''CONFIRM'' s1 = Inr ()"
      "check_offer E telco cmd sub s1 = Inr gate"
      and rest: "(case gate of AlreadyAccepted v st \<Rightarrow> Inr (Replayed v st, s1)
       | Acceptable offer snap \<Rightarrow>
           andThen (book_advance E C sub cmd econ offer snap s1) (\<lambda>((adv, att), s). Inr (Started adv att, s))) = Inr (r, s')"
      unfolding confirm_tx1_def by (auto simp: andThen_Inr_iff split: if_splits)
    show ?thesis
    proof (cases gate)
      case (AlreadyAccepted v st)
      with rest have "r = Replayed v st" "s' = s1" by simp_all
      with g replay show ?thesis by blast
    next
      case (Acceptable offer snap)
      with rest obtain adv att where "r = Started adv att" "book_advance E C sub cmd econ offer snap s1 = Inr ((adv, att), s')"
        by (auto simp: andThen_Inr_iff)
      from booked [OF this(1) _ gs(1-3) _ this(2)] put gs(4) True Acceptable show ?thesis by simp
    qed
  qed
qed

lemma confirm_tx1_grows: "confirm_tx1 C telco cmd h E s = Inr (r, s') \<Longrightarrow> grows_book s s'"
  by (erule confirm_tx1_cases) (blast intro: grows_trans same_book_grows book_advance_grows dest: same_book_PutIfAbsent)+

lemma audit_grows: "grows_book s (snd (WithTenantTx E c (\<lambda>E s. guardrail_audit E t a x y z (w E) s) s))"
  by (rule grows_tx) (blast intro: same_book_grows dest: same_book_guardrail_audit)

lemma trip_grows: "grows_book s (snd (RecordTrip E telco prog g measured limit s))"
  unfolding RecordTrip_def by (rule grows_tx) (blast intro: same_book_grows dest: same_book_trip)

lemma replayByIdemKey_same: "replayByIdemKey E c key s = (r, s') \<Longrightarrow> s' = s"
  by (auto simp: replayByIdemKey_def WithTenantTx_def andThen_def split: sum.splits prod.splits)

lemma confirm_start_grows: "confirm_start E C c cmd s = (r, s') \<Longrightarrow> grows_book s s'"
proof -
  assume run: "confirm_start E C c cmd s = (r, s')"
  show ?thesis
  proof (cases "confirm_checks C c cmd")
    case (Inl e)
    with run show ?thesis by (simp add: confirm_start_def)
  next
    case (Inr telco)
    let ?h = "confirmRequestHash E cmd"
    obtain x s1 where tx: "WithTenantTx E c (confirm_tx1 C telco cmd ?h) s = (x, s1)" by fastforce
    have g1: "grows_book s s1" using grows_tx [of "confirm_tx1 C telco cmd ?h" s E c] confirm_tx1_grows tx by (metis snd_conv)
    have raced: "(case replayByIdemKey E c (cc_idem cmd) s1 of (r, s) \<Rightarrow> (Finished r, s)) = (r, s') \<Longrightarrow> s' = s1"
      by (auto split: prod.splits dest: replayByIdemKey_same)
    show ?thesis
    proof (cases x)
      case (Inr res)
      with run \<open>confirm_checks C c cmd = Inr telco\<close> tx g1 show ?thesis
        by (cases res) (auto simp: confirm_start_def)
    next
      case (Inl e)
      note s1 = this \<open>confirm_checks C c cmd = Inr telco\<close> tx
      show ?thesis
      proof (cases "e = Orig OrigDivergentDuplicate \<or> (\<exists>g m l. e = BreachError g m l)")
        case True
        with run s1 have "s' = recordDivergentDuplicate E telco cmd ?h s1
            \<or> (\<exists>g m l. s' = snd (RecordTrip E telco (cc_prog cmd) g m l s1))"
          by (elim disjE exE) (auto simp: confirm_start_def Let_def intro!: exI)
        with g1 show ?thesis by (auto simp: recordDivergentDuplicate_def intro: grows_trans audit_grows trip_grows)
      next
        case False
        with run s1 raced have "s' = s1"
          by (auto simp: confirm_start_def Let_def split: err.splits orig_err.splits if_splits)
        with g1 show ?thesis by simp
      qed
    qed
  qed
qed

lemma confirm_finish_grows: "confirm_finish E C c adv att answer s = (r, s') \<Longrightarrow> grows_book s s'"
proof -
  assume run: "confirm_finish E C c adv att answer s = (r, s')"
  define res where "res = (case answer of Inr res \<Rightarrow> res
         | Inl e \<Rightarrow> noResult\<lparr>outcome := OutcomeUnknown,
             ResponseEvidence := Some (''{\"adapter_fault\":'' @ quoted E (err_text E e) @ ''}'')\<rparr>)"
  obtain x s1 where tx: "WithTenantTx E c (resolveOutcomeTx C (AdvanceID adv) (AttemptID att) res) s = (x, s1)" by fastforce
  have g1: "grows_book s s1"
    using grows_tx [of "resolveOutcomeTx C (AdvanceID adv) (AttemptID att) res" s E c] resolveOutcomeTx_grows tx
    by (metis snd_conv)
  have "s' = s1 \<or> (\<exists>e. s' = recordOutcomeNotCommitted E c c (AdvanceID adv) e s1)"
    using run tx unfolding confirm_finish_def Let_def res_def [symmetric] by (auto split: sum.splits prod.splits if_splits)
  with g1 show ?thesis by (auto simp: recordOutcomeNotCommitted_def intro: grows_trans audit_grows)
qed

lemma Confirm_grows:
  assumes "\<And>t. grows_book t (others t)"
  shows "grows_book s (snd (Confirm E E2 C submit others c cmd s))"
proof -
  obtain step s1 where st: "confirm_start E C c cmd s = (step, s1)" by fastforce
  note g1 = confirm_start_grows [OF st]
  show ?thesis
  proof (cases step)
    case (Finished r)
    with st g1 show ?thesis by (simp add: Confirm_def)
  next
    case (Dialling adv att)
    obtain r s2 where "confirm_finish E2 C c adv att (submit (AdvTelcoID adv) (TelcoIdempotencyKey att) (fulfilment_request adv cmd))
        (others s1) = (r, s2)" by fastforce
    with Dialling st g1 assms [of s1] confirm_finish_grows show ?thesis
      by (auto simp: Confirm_def intro: grows_trans)
  qed
qed

lemma ResolveOutcome_grows: "ResolveOutcome E C c aid att res s = (r, s') \<Longrightarrow> grows_book s s'"
proof -
  assume "ResolveOutcome E C c aid att res s = (r, s')"
  then have "s' = snd (WithTenantTx E c (resolveOutcomeTx C aid att res) s)"
    by (auto simp: ResolveOutcome_def split: sum.splits prod.splits)
  with grows_tx [of "resolveOutcomeTx C aid att res"] resolveOutcomeTx_grows show ?thesis by metis
qed

lemma resolveOne_grows: "resolveOne E C enquire telco delays att s = (r, s') \<Longrightarrow> grows_book s s'"
proof -
  assume run: "resolveOne E C enquire telco delays att s = (r, s')"
  have resched: "grows_book s (snd (WithTenantTx E telco (\<lambda>E s. andThen (next_delay delays (EnquiryCount att)) (\<lambda>d.
       andThen (RescheduleEnquiry E (AttemptID att) (now E + d * second) s) (\<lambda>s. Inr (False, s)))) s))"
    by (rule grows_tx, rule same_book_grows)
       (auto simp: andThen_Inr_iff RescheduleEnquiry_def attempt_update_def same_book_def schema_ok_def split: if_splits)
  show ?thesis
  proof (cases "enquire telco (AtpAdvanceID att)")
    case (Inl e)
    with run show ?thesis by (simp add: resolveOne_def)
  next
    case (Inr res)
    obtain x s1 where ro: "ResolveOutcome E C telco (AtpAdvanceID att) (AttemptID att) res s = (x, s1)" by fastforce
    note g = ResolveOutcome_grows [OF ro]
    from run Inr ro g resched show ?thesis
      by (cases "outcome res"; cases x) (auto simp: resolveOne_def)
  qed
qed

lemma resolve_all_grows: "grows_book s (snd (resolve_all E C enquire telco delays atts n s))"
proof (induction atts arbitrary: n s)
  case (Cons att atts)
  obtain x s1 where one: "resolveOne E C enquire telco delays att s = (x, s1)" by fastforce
  from resolveOne_grows [OF one] Cons.IH one show ?case
    by (cases x) (auto split: err.splits intro: grows_trans)
qed simp

lemma RunOnce_grows: "grows_book s (snd (RunOnce E C enquire telco limit s))"
  by (auto simp: RunOnce_def WithTenantTx_def resolve_all_grows split: sum.splits prod.splits list.splits)

end
