(* ===== verification/OriginationProps.thy ===== *)
theory OriginationProps
  imports OriginationBook RecoveryProps
begin

text \<open>
  The properties of origination: the book across confirmation and resolution, exactly-once
  settlement, exact replay of stored responses, the lending gates, the prices of the offer ladder,
  self-exclusion, and what a response that is not JSON does to an outcome.
\<close>

section \<open>A sample programme\<close>

definition issue_ledger :: ledger_cfg where
  "issue_ledger = \<lparr>chart = Inr [''SUBSCRIBER_RECEIVABLE'', ''FEE_INCOME'', ''AIRTIME_FUNDING_CLEARING''],
     templates = Inr (''cfg_seed_ledger_templates_v1'',
       [(''ADVANCE_ISSUED'', [\<lparr>tl_account = ''SUBSCRIBER_RECEIVABLE'', tl_side = ''DEBIT'', tl_amount = ''OUTSTANDING'', tl_omit = False\<rparr>,
          \<lparr>tl_account = ''AIRTIME_FUNDING_CLEARING'', tl_side = ''CREDIT'', tl_amount = ''DISBURSED'', tl_omit = False\<rparr>,
          \<lparr>tl_account = ''FEE_INCOME'', tl_side = ''CREDIT'', tl_amount = ''FEE'', tl_omit = True\<rparr>])])\<rparr>"

definition sample_orig :: orig_cfg where
  "sample_orig = \<lparr>oc_ledger = issue_ledger,
     oc_guardrails = (\<lambda>_. Inr \<lparr>MaxDailyDisbursedMinor = 10000, MaxOpenExposureBpsCommitted = 9000\<rparr>),
     oc_product = (\<lambda>_. Inr (\<lparr>pc_currency = ''NGN'', DenominationsMinor = [100, 300, 900], FeeBps = 1000,
        pc_model = FeeDeductedUpfront, OfferExpiryMinutes = 10\<rparr>, ''cfg_p'')),
     oc_disclosure = (\<lambda>_. Inr (\<lparr>dc_template = ''t'', dc_version = ''1'', DefaultLocale = ''en'', AllowedChannels = [''USSD''],
        BodyTemplate = ''Pay {{repayment}}'', TotalCostTemplate = ''Fee {{fee}}''\<rparr>, ''cfg_d'')),
     oc_overlays = (\<lambda>_. Inr \<lparr>BlockingFlags = [''BARRED''], SimSwapCooloffHours = 48, CheckAt = [''OFFER'', ''CONFIRM'']\<rparr>),
     oc_economics = (\<lambda>prog. Inr (''programme:'' @ prog, Inr \<lparr>FundingModel = ''PLATFORM_CAPITAL'', LenderOfRecord = ''L'',
        LossBearer = ''L'', SettlementMethod = ''DIRECT_RECOVERY'', TaxTreatment = ''VAT_EXEMPT''\<rparr>, ''cfg_e'')),
     oc_nin = Inr (Some True), oc_fee = (\<lambda>_. Inr FeeRecognitionUpfront), oc_delays = (\<lambda>_. Inr ([60, 300], 10)),
     oc_selfexcl = (\<lambda>_. Inr \<lparr>MinExclusionDays = 30, sx_channels = [''USSD''], RequireOperatorReinstatement = False\<rparr>)\<rparr>"

definition verified_sub :: SubscriberAccount where
  "verified_sub = \<lparr>sub_id = ''sub_1'', sub_telco = ''MTN_NG'', sub_token = ''tok_1'', sub_status = ''ACTIVE'',
     sub_nin = Some True, sub_from = 0, sub_to = None\<rparr>"

definition scored_db :: db where
  "scored_db = empty_db\<lparr>subs := [verified_sub],
     programmes := [\<lparr>pg_id = ''prg_1'', pg_telco = ''MTN_NG'', pg_status = ''ACTIVE''\<rparr>],
     decisions := [\<lparr>d_id = ''dec_1'', d_telco = ''MTN_NG'', d_sub = ''sub_1'', d_max = 500, d_cur = ''NGN'', d_current = True,
        d_config = ''cfg_s'', d_tier = ''A'', d_run = None, d_until = None\<rparr>],
     pools := [\<lparr>p_id = ''pool_1'', p_prog = ''prg_1'', p_telco = ''MTN_NG'', p_cur = ''NGN'', p_committed = 1000,
       p_reserved = 0, p_utilised = 0, p_status = ''ACTIVE''\<rparr>]\<rparr>"

definition offered_db :: db where
  "offered_db = snd (GetOffers sample_env sample_orig ''MTN_NG'' ''prg_1'' ''tok_1'' scored_db)"

definition sample_confirm :: ConfirmCmd where
  "sample_confirm = \<lparr>cc_prog = ''prg_1'', cc_offer = ''off_1'', cc_token = ''tok_1'', cc_idem = ''key_1'', cc_corr = ''cor_1'',
     cc_disclosure = ''dsc_3'', cc_channel = ''USSD'', cc_session = ''ses_1'', cc_accepted = 1000, cc_evidence = ''''\<rparr>"

definition confirming :: "string \<Rightarrow> string \<Rightarrow> FulfilmentRequest \<Rightarrow> err + Result" where
  "confirming telco key req = Inr (noResult\<lparr>outcome := OutcomeConfirmed, TelcoRef := ''ref_1'', ResponseEvidence := Some ''{}''\<rparr>)"

section \<open>The book across the saga\<close>

lemma offered_book: "book_ok offered_db"
proof -
  have "advances offered_db = []" "pending offered_db = []" "pools offered_db = pools scored_db" by code_simp+
  then show ?thesis
    by (simp add: book_ok_def funded_def schema_ok_def utilised_of_def reserved_of_def lent_def held_def scored_db_def)
qed

text \<open>C14: The book is kept across origination. Whatever a confirmation meets - a gate, a replay, a guardrail
  breach, the telco's yes, no or silence, a failing second transaction - and whatever the rest of the
  system does to a well-kept book while the call is out, afterwards every pool's utilised amount is
  exactly what its lent advances owe, its reserved amount exactly what is held for open
  fulfilments, and no earlier advance's repayment has changed. The same holds of a run of the resolver.\<close>

theorem origination_keeps_book:
  assumes "book_ok s" and "\<And>t. grows_book t (others t)"
  shows "(let s' = snd (Confirm E E2 C submit others c cmd s) in
      book_ok s' \<and> (\<forall>aid \<in> a_id ` set (advances s). gross s' aid = gross s aid))
    \<and> (let s' = snd (RunOnce E C enquire telco limit s) in
      book_ok s' \<and> (\<forall>aid \<in> a_id ` set (advances s). gross s' aid = gross s aid))"
  using Confirm_grows [where others = others, OF assms(2)] RunOnce_grows assms(1)
  by (simp add: grows_book_def Let_def)

theorem origination_keeps_book_witness:
  "let s' = snd (Confirm sample_env sample_env sample_orig confirming
      (\<lambda>t. snd (RunOnce sample_env sample_orig (\<lambda>_ _. Inr noResult) ''MTN_NG'' 5 t)) ''MTN_NG'' sample_confirm offered_db)
   in book_ok s' \<and> reserved_of s' ''pool_1'' = 0 \<and> utilised_of s' ''pool_1'' = 300"
proof -
  let ?others = "\<lambda>t. snd (RunOnce sample_env sample_orig (\<lambda>_ _. Inr noResult) ''MTN_NG'' 5 t)"
  let ?s' = "snd (Confirm sample_env sample_env sample_orig confirming ?others ''MTN_NG'' sample_confirm offered_db)"
  have "book_ok ?s'"
    using origination_keeps_book [OF offered_book, where others = ?others] RunOnce_grows by (simp add: Let_def)
  moreover have "reserved_of ?s' ''pool_1'' = 0" "utilised_of ?s' ''pool_1'' = 300" by code_simp+
  ultimately show ?thesis by (simp add: Let_def)
qed

section \<open>Settling once\<close>

lemma Advances_Get_frame: "advances s' = advances s \<Longrightarrow> Advances_Get E aid s' = Advances_Get E aid s"
  by (simp add: Advances_Get_def)

lemma Advances_Get_id: "Advances_Get E aid s = Inr adv \<Longrightarrow> AdvanceID adv = aid \<and> AdvTelcoID adv = tenant E"
  by (auto dest!: Advances_Get_InrD)

lemma Transition_Get:
  assumes get: "Advances_Get E aid s = Inr adv" and tr: "Transition E aid (Version adv) (State adv) to s = Inr s'"
  shows "\<exists>r. adv = advance_of r \<and> r \<in> set (advances s) \<and> Valid (a_cur r)
    \<and> Advances_Get E aid s' = Inr (advance_of (transition_cols E to r))"
proof -
  let ?q = "\<lambda>r. a_telco r = tenant E \<and> a_id r = aid"
  from get obtain r where r: "List.find ?q (advances s) = Some r" "adv = advance_of r" "Valid (a_cur r)"
    by (auto simp: Advances_Get_def andThen_Inr_iff queryRow_Inr advanceScan_Inr)
  then have fr: "?q r" "r \<in> set (advances s)" using find_SomeD [OF r(1)] by simp_all
  have "advances s' = upd_where (adv_at E aid (Version adv) (State adv)) (transition_cols E to) (advances s)"
    using Transition_upd [OF tr] by (auto simp: adv_update_Inr)
  moreover have "adv_at E aid (Version adv) (State adv) r" using fr r by (simp add: adv_at_def)
  ultimately have "List.find ?q (advances s') = Some (transition_cols E to r)"
    using r(1) by (simp add: find_upd_where)
  then show ?thesis using r fr by (auto simp: Advances_Get_def queryRow_def advanceScan_Inr)
qed

definition settled_state :: "Outcome \<Rightarrow> AdvanceState" where
  "settled_state out = (if out = OutcomeConfirmed then AdvActive else AdvFulfilmentFailed)"

lemma emitOutbox_frame: "emitOutbox E adv ty s = Inr s' \<Longrightarrow> advances s' = advances s \<and> idem s' = idem s"
  by (auto simp: emitOutbox_def NewID_def Let_def res_simps)

lemma PostEvent_tables: "PostEvent E L j b s = Inr (r, s') \<Longrightarrow> advances s' = advances s \<and> idem s' = idem s"
proof -
  assume "PostEvent E L j b s = Inr (r, s')"
  from PostEvent_frame [OF this]
  have "advances s' = advances (s\<lparr>next_id := next_id s', journals := journals s', entries := entries s'\<rparr>)"
    "idem s' = idem (s\<lparr>next_id := next_id s', journals := journals s', entries := entries s'\<rparr>)" by (rule arg_cong)+
  then show ?thesis by simp
qed

lemma Transition_idem: "Transition E aid v f t s = Inr s' \<Longrightarrow> idem s' = idem s"
  by (auto dest!: Transition_upd simp: adv_update_Inr)

text \<open>An applied outcome leaves the advance in the state it stands for, and no stored response touched.\<close>

lemma apply_outcome_state:
  assumes get: "Advances_Get E aid s = Inr adv" and st: "State adv = AdvPendingFulfilment \<or> State adv = AdvFulfilmentUnknown"
    and ok: "apply_outcome E C adv att res s = Inr s'"
  shows "idem s' = idem s \<and> (\<exists>out. Advances_Get E aid s' = Inr out \<and> IdempotencyKey out = IdempotencyKey adv
    \<and> State out = (if outcome res = OutcomeUnknown then AdvFulfilmentUnknown else settled_state (outcome res)))"
proof -
  have id: "AdvanceID adv = aid" using Advances_Get_id [OF get] by simp
  have moved: "idem u = idem s \<and> (\<exists>out. Advances_Get E aid u = Inr out \<and> IdempotencyKey out = IdempotencyKey adv \<and> State out = to)"
    if r: "resolve_attempt E att f t ref ev nxt s = Inr s1" and tr: "Transition E (AdvanceID adv) (Version adv) (State adv) to s1 = Inr s2"
      and u: "advances u = advances s2" "idem u = idem s2" for f t ref ev nxt s1 s2 to u
  proof -
    from resolve_attempt_frame [OF r] have a: "advances s1 = advances s" "idem s1 = idem s" by auto
    have "Advances_Get E aid s1 = Inr adv" using Advances_Get_frame [OF a(1)] get by simp
    from Transition_Get [OF this tr [unfolded id]] Transition_idem [OF tr] a(2) u Advances_Get_frame [OF u(1)]
    show ?thesis by (auto simp: advance_of_def transition_cols_def)
  qed
  have failed: "idem s' = idem s \<and> (\<exists>out. Advances_Get E aid s' = Inr out \<and> IdempotencyKey out = IdempotencyKey adv \<and> State out = AdvFulfilmentFailed)"
    if "outcome_failed E adv att res s = Inr s'"
    using that by (rule outcome_failed_steps) (erule moved, assumption, auto dest: emitOutbox_frame)
  have confirmed: "idem s' = idem s \<and> (\<exists>out. Advances_Get E aid s' = Inr out \<and> IdempotencyKey out = IdempotencyKey adv \<and> State out = AdvActive)"
    if "outcome_confirmed E C adv att res s = Inr s'"
    using that
    by (rule outcome_confirmed_steps)
       (erule moved, assumption, metis emitOutbox_frame PostEvent_tables confirm.tables(1),
        metis emitOutbox_frame PostEvent_tables confirm.tables(4))
  have unknown: "idem s' = idem s \<and> (\<exists>out. Advances_Get E aid s' = Inr out \<and> IdempotencyKey out = IdempotencyKey adv \<and> State out = AdvFulfilmentUnknown)"
    if "outcome_unknown E C adv att res s = Inr s'"
    using that
  proof (rule outcome_unknown_steps)
    fix nxt s1
    assume r: "resolve_attempt E att (currentAttemptState adv) AttemptUnknown '''' (ResponseEvidence res) (Some nxt) s = Inr s1"
      and pend: "State adv = AdvPendingFulfilment \<Longrightarrow> \<exists>s2. Transition E (AdvanceID adv) (Version adv) (State adv) AdvFulfilmentUnknown s1 = Inr s2
       \<and> emitOutbox E adv ''advance.FulfilmentUnknown'' s2 = Inr s'" and other: "State adv \<noteq> AdvPendingFulfilment \<Longrightarrow> s' = s1"
    show ?thesis
    proof (cases "State adv = AdvPendingFulfilment")
      case True
      with pend obtain s2 where tr: "Transition E (AdvanceID adv) (Version adv) (State adv) AdvFulfilmentUnknown s1 = Inr s2"
        and em: "emitOutbox E adv ''advance.FulfilmentUnknown'' s2 = Inr s'" by blast
      from moved [OF r tr] emitOutbox_frame [OF em] show ?thesis by blast
    next
      case False
      with other resolve_attempt_frame [OF r] have "advances s' = advances s" "idem s' = idem s" by auto
      with get st False Advances_Get_frame show ?thesis by metis
    qed
  qed
  from ok failed confirmed unknown show ?thesis
    by (cases "outcome res") (auto simp: apply_outcome_def settled_state_def)
qed

lemma recordConfirmResponse_frame: "recordConfirmResponse E a s = Inr (st, s') \<Longrightarrow> advances s' = advances s"
  using same_book_recordConfirmResponse by (simp add: same_book_def)

text \<open>C16: An outcome settles an advance once. When \<^verbatim>\<open>ResolveOutcome\<close> returns for a definite outcome, the advance it
  returns is no longer awaiting fulfilment - ACTIVE if the telco confirmed and the advance was still
  open, FULFILMENT_FAILED if it refused - and every later resolution of the same advance, with
  whatever outcome, attempt, time or configuration, returns that same advance and changes nothing.\<close>

theorem ResolveOutcome_once:
  assumes "ResolveOutcome E C c aid att res s = (Inr adv, s')" and "outcome res \<noteq> OutcomeUnknown"
  shows "State adv \<noteq> AdvPendingFulfilment \<and> State adv \<noteq> AdvFulfilmentUnknown
    \<and> (s' \<noteq> s \<longrightarrow> State adv = settled_state (outcome res))
    \<and> ResolveOutcome E2 C2 c aid att2 res2 s' = (Inr adv, s')"
proof -
  let ?E = "E\<lparr>tenant := c\<rparr>"
  from assms(1) obtain st where c: "c \<noteq> ''''" and tx: "resolveOutcomeTx C aid att res ?E s = Inr ((adv, st), s')"
    by (auto simp: ResolveOutcome_def WithTenantTx_Inr split: prod.splits sum.splits)
  have again: "ResolveOutcome E2 C2 c aid att2 res2 s' = (Inr adv, s')"
    if "Advances_Get ?E aid s' = Inr adv" "State adv \<noteq> AdvPendingFulfilment" "State adv \<noteq> AdvFulfilmentUnknown"
  proof -
    have "Advances_Get (E2\<lparr>tenant := c\<rparr>) aid s' = Inr adv" using that(1) by (simp add: Advances_Get_def)
    with that c show ?thesis by (simp add: ResolveOutcome_def WithTenantTx_def TenantFrom_def resolveOutcomeTx_def)
  qed
  from tx show ?thesis
  proof (cases rule: resolveOutcomeTx_cases)
    case settled
    with again show ?thesis by blast
  next
    case (applied a s1)
    have id: "AdvanceID a = aid" using Advances_Get_id [OF applied(1)] by simp
    from apply_outcome_state [OF applied(1,2,3)] applied(4) assms(2) id
    have "State adv = settled_state (outcome res)" by simp
    moreover have "Advances_Get ?E aid s' = Inr adv"
      using Advances_Get_frame [OF recordConfirmResponse_frame [OF applied(5)]] applied(4) id by simp
    ultimately show ?thesis using again by (simp add: settled_state_def split: if_splits)
  qed
qed

definition pending_db :: db where
  "pending_db = snd (confirm_start sample_env sample_orig ''MTN_NG'' sample_confirm offered_db)"

definition settled_run :: "(err + Advance) \<times> db" where
  "settled_run = ResolveOutcome sample_env sample_orig ''MTN_NG'' ''adv_4'' ''att_6''
     (noResult\<lparr>outcome := OutcomeConfirmed, ResponseEvidence := Some ''{}''\<rparr>) pending_db"

theorem ResolveOutcome_once_witness:
  "\<exists>adv s'. settled_run = (Inr adv, s') \<and> State adv = AdvActive
     \<and> ResolveOutcome sample_env sample_orig ''MTN_NG'' ''adv_4'' ''att_6'' (noResult\<lparr>outcome := OutcomeFailed\<rparr>) s' = (Inr adv, s')"
proof -
  have "isl (fst settled_run) = False" "(case fst settled_run of Inr a \<Rightarrow> State a | Inl _ \<Rightarrow> AdvRequested) = AdvActive"
    by code_simp+
  then obtain adv where "fst settled_run = Inr adv" "State adv = AdvActive" by (cases "fst settled_run") auto
  then obtain s' where run: "settled_run = (Inr adv, s')" "State adv = AdvActive" by (metis prod.collapse)
  have "outcome (noResult\<lparr>outcome := OutcomeConfirmed, ResponseEvidence := Some ''{}''\<rparr>) \<noteq> OutcomeUnknown" by simp
  from ResolveOutcome_once [OF run(1) [unfolded settled_run_def] this] run show ?thesis by blast
qed

section \<open>The gates and what a booking records\<close>

text \<open>
  What the tables say when lending to this command is allowed: an active programme with its
  economics, a live and verified subscriber without an active self-exclusion or an unconfirmed
  recovery, a generated and unexpired offer of theirs under a valid decision, and the disclosure
  the customer accepted in time.
\<close>

definition lendable :: "env \<Rightarrow> orig_cfg \<Rightarrow> ConfirmCmd \<Rightarrow> db \<Rightarrow> SubscriberAccount \<Rightarrow> offer_row \<Rightarrow> disclosure_row \<Rightarrow> bool" where
  "lendable E C cmd s sub o' d \<longleftrightarrow>
     (\<exists>p \<in> set (programmes s). pg_telco p = tenant E \<and> pg_id p = cc_prog cmd \<and> pg_status p = ProgrammeActive)
   \<and> (case resolveEconomics C (cc_prog cmd) of Inl _ \<Rightarrow> False | Inr _ \<Rightarrow> True)
   \<and> sub \<in> set (subs s) \<and> sub_telco sub = tenant E \<and> sub_token sub = cc_token cmd \<and> sub_to sub = None
   \<and> sub_status sub = ''ACTIVE'' \<and> (requireNINVerified C \<longrightarrow> sub_nin sub = Some True)
   \<and> (\<forall>x \<in> set (selfexcls s). \<not> active_exclusion E (sub_id sub) x)
   \<and> (\<forall>h \<in> set (holds s). h_telco h = tenant E \<longrightarrow> h_sub h = sub_id sub \<longrightarrow> h_cleared h \<noteq> None)
   \<and> checkOverlays E C (sub_telco sub) (sub_id sub) ''CONFIRM'' s = Inr ()
   \<and> o' \<in> set (offers s) \<and> o_id o' = cc_offer cmd \<and> o_telco o' = tenant E \<and> o_sub o' = sub_id sub \<and> o_prog o' = cc_prog cmd
   \<and> o_state o' = OfferGenerated \<and> now E < o_expires o'
   \<and> (\<exists>dec \<in> set (decisions s). d_telco dec = tenant E \<and> d_id dec = o_dec o' \<and> 0 < sint (d_max dec)
        \<and> (case d_until dec of None \<Rightarrow> True | Some u \<Rightarrow> now E < u))
   \<and> d \<in> set (disclosures s) \<and> ds_telco d = tenant E \<and> ds_offer d = o_id o' \<and> ds_id d = cc_disclosure cmd
   \<and> ds_issued d - acceptanceSkew \<le> cc_accepted cmd \<and> cc_accepted cmd \<le> ds_expires d + acceptanceSkew
   \<and> cc_accepted cmd \<le> now E + acceptanceSkew"

lemma lending_gates_Inr:
  assumes "lending_gates E C prog token s = Inr (econ, sub)"
  shows "(\<exists>p \<in> set (programmes s). pg_telco p = tenant E \<and> pg_id p = prog \<and> pg_status p = ProgrammeActive)
    \<and> resolveEconomics C prog = Inr econ
    \<and> sub \<in> set (subs s) \<and> sub_telco sub = tenant E \<and> sub_token sub = token \<and> sub_to sub = None
    \<and> sub_status sub = ''ACTIVE'' \<and> (requireNINVerified C \<longrightarrow> sub_nin sub = Some True)
    \<and> (\<forall>x \<in> set (selfexcls s). \<not> active_exclusion E (sub_id sub) x)"
proof -
  from assms obtain status sub' u u' where g: "Programmes_GetStatus E prog s = Inr status" "status = ProgrammeActive"
    "resolveEconomics C prog = Inr econ" "GetLiveByToken E token s = Inr sub" "sub_status sub = ''ACTIVE''"
    "assertNINVerified sub (requireNINVerified C) = Inr u" "assertNotSelfExcluded E (sub_id sub) s = Inr u'"
    unfolding lending_gates_def run_simps by blast
  from g(1,2) have "\<exists>p \<in> set (programmes s). pg_telco p = tenant E \<and> pg_id p = prog \<and> pg_status p = ProgrammeActive"
    by (auto simp: Programmes_GetStatus_def andThen_Inr_iff queryRow_Inr dest!: find_SomeD)
  moreover from g(4) have "sub \<in> set (subs s) \<and> sub_telco sub = tenant E \<and> sub_token sub = token \<and> sub_to sub = None"
    by (auto simp: GetLiveByToken_def dest!: queryRow_InrD)
  moreover from g(6) have "requireNINVerified C \<longrightarrow> sub_nin sub = Some True"
    by (auto simp: assertNINVerified_def split: if_splits)
  moreover from g(7) have "\<forall>x \<in> set (selfexcls s). \<not> active_exclusion E (sub_id sub) x"
    by (auto simp: assertNotSelfExcluded_def GetActive_None [symmetric] split: option.splits)
  ultimately show ?thesis using g(3,5) by blast
qed

lemma offerScan_InrD: "offerScan r = Inr o' \<Longrightarrow> OfferID o' = o_id r \<and> OffProgrammeID o' = o_prog r \<and> OffSubscriberID o' = o_sub r
  \<and> DecisionSnapshotID o' = o_dec r \<and> OffState o' = o_state r \<and> OffExpiresAt o' = o_expires r
  \<and> amount (OffFaceValue o') = o_face r \<and> amount (OffFee o') = o_fee r \<and> amount (OffDisbursed o') = o_disb r
  \<and> amount (Repayment o') = o_rep r \<and> currency (OffFaceValue o') = o_cur r \<and> Valid (o_cur r)"
  by (auto simp: offerScan_def res_simps)

lemma disclosureScan_InrD: "disclosureScan r = Inr d \<Longrightarrow> DisclosureSnapshotID d = ds_id r \<and> ContentHash d = ds_hash r
  \<and> IssuedAt d = ds_issued r \<and> DscExpiresAt d = ds_expires r"
  by (auto simp: disclosureScan_def res_simps)

lemma check_offer_Acceptable:
  assumes "check_offer E telco cmd sub s = Inr (Acceptable offer snap)"
  obtains r dec d where "r \<in> set (offers s)" "o_telco r = tenant E" "o_id r = cc_offer cmd" "offerScan r = Inr offer"
    "o_sub r = sub_id sub" "o_prog r = cc_prog cmd" "o_state r = OfferGenerated" "now E < o_expires r"
    "dec \<in> set (decisions s)" "d_telco dec = tenant E" "d_id dec = o_dec r" "0 < sint (d_max dec)"
    "case d_until dec of None \<Rightarrow> True | Some u \<Rightarrow> now E < u"
    "d \<in> set (disclosures s)" "ds_telco d = tenant E" "ds_offer d = o_id r" "ds_id d = cc_disclosure cmd" "disclosureScan d = Inr snap"
    "ds_issued d - acceptanceSkew \<le> cc_accepted cmd" "cc_accepted cmd \<le> ds_expires d + acceptanceSkew"
    "cc_accepted cmd \<le> now E + acceptanceSkew"
proof -
  from assms obtain dec u where a: "Offers_GetForUpdate E (cc_offer cmd) s = Inr offer" "OffSubscriberID offer = sub_id sub"
    "OffProgrammeID offer = cc_prog cmd" "OffState offer = OfferGenerated" "now E < OffExpiresAt offer"
    "Decisions_Get E (DecisionSnapshotID offer) s = Inr dec" "requireValidDecision dec (now E) = Inr u"
    "DisclosureSnapshots_GetByOffer E (OfferID offer) s = Inr snap" "DisclosureSnapshotID snap = cc_disclosure cmd"
    "\<not> (cc_accepted cmd < IssuedAt snap - acceptanceSkew \<or> DscExpiresAt snap + acceptanceSkew < cc_accepted cmd
        \<or> now E + acceptanceSkew < cc_accepted cmd)"
    by (auto simp: check_offer_def andThen_Inr_iff split: sum.splits if_splits prod.splits)
  from a(1) obtain r where r: "r \<in> set (offers s)" "o_telco r = tenant E" "o_id r = cc_offer cmd" "offerScan r = Inr offer"
    by (auto simp: Offers_GetForUpdate_def andThen_Inr_iff dest!: queryRow_InrD)
  from a(6) obtain q where q: "q \<in> set (decisions s)" "d_telco q = tenant E" "d_id q = DecisionSnapshotID offer"
    "amount (MaxFaceValue dec) = d_max q" "ValidUntil dec = d_until q"
    by (auto simp: Decisions_Get_def andThen_Inr_iff scanMoney_def NewMoney_Inr dest!: queryRow_InrD)
  from a(7) have v: "0 < sint (amount (MaxFaceValue dec))" "case ValidUntil dec of None \<Rightarrow> True | Some u \<Rightarrow> now E < u"
    by (auto simp: requireValidDecision_def IsPositive_def split: if_splits option.splits)
  from a(8) obtain d where d: "d \<in> set (disclosures s)" "ds_telco d = tenant E" "ds_offer d = OfferID offer" "disclosureScan d = Inr snap"
    by (auto simp: DisclosureSnapshots_GetByOffer_def andThen_Inr_iff dest!: queryRow_InrD)
  note of = offerScan_InrD [OF r(4)] and dd = disclosureScan_InrD [OF d(4)]
  show ?thesis
    by (rule that [OF r(1-4) _ _ _ _ q(1,2) _ _ _ d(1,2) _ _ d(4)]) (use a q v d of dd in auto)
qed

lemma booking_lendable:
  assumes "lending_gates E C (cc_prog cmd) (cc_token cmd) s = Inr (econ, sub)" "\<not> HasUncleared E (sub_id sub) s"
    "checkOverlays E C (sub_telco sub) (sub_id sub) ''CONFIRM'' s = Inr ()" "check_offer E telco cmd sub s = Inr (Acceptable offer snap)"
  shows "\<exists>r d. lendable E C cmd s sub r d \<and> offerScan r = Inr offer \<and> disclosureScan d = Inr snap"
  using assms(4)
proof (rule check_offer_Acceptable)
  fix r dec d
  assume o': "r \<in> set (offers s)" "o_telco r = tenant E" "o_id r = cc_offer cmd" "offerScan r = Inr offer"
    "o_sub r = sub_id sub" "o_prog r = cc_prog cmd" "o_state r = OfferGenerated" "now E < o_expires r"
    and dec: "dec \<in> set (decisions s)" "d_telco dec = tenant E" "d_id dec = o_dec r" "0 < sint (d_max dec)"
    "case d_until dec of None \<Rightarrow> True | Some u \<Rightarrow> now E < u"
    and d: "d \<in> set (disclosures s)" "ds_telco d = tenant E" "ds_offer d = o_id r" "ds_id d = cc_disclosure cmd" "disclosureScan d = Inr snap"
    "ds_issued d - acceptanceSkew \<le> cc_accepted cmd" "cc_accepted cmd \<le> ds_expires d + acceptanceSkew"
    "cc_accepted cmd \<le> now E + acceptanceSkew"
  note g = lending_gates_Inr [OF assms(1)]
  have "\<forall>h \<in> set (holds s). h_telco h = tenant E \<longrightarrow> h_sub h = sub_id sub \<longrightarrow> h_cleared h \<noteq> None"
    using assms(2) by (auto simp: HasUncleared_def)
  then have "lendable E C cmd s sub r d"
    unfolding lendable_def using g assms(3) o' d dec by (intro conjI) (auto split: option.splits)
  with o' d show ?thesis by blast
qed

text \<open>
  What a booking adds: one advance, with the offer's amounts, held against a pool of the programme;
  one consent that names the disclosure and its hash; one attempt, sent.
\<close>

definition booked :: "env \<Rightarrow> ConfirmCmd \<Rightarrow> SubscriberAccount \<Rightarrow> offer_row \<Rightarrow> disclosure_row \<Rightarrow> Advance \<Rightarrow> FulfilmentAttempt \<Rightarrow> db \<Rightarrow> db \<Rightarrow> bool" where
  "booked E cmd sub o' d adv att s s' \<longleftrightarrow>
     (\<exists>r. advances s' = advances s @ [r] \<and> a_id r = AdvanceID adv \<and> (\<forall>q \<in> set (advances s). a_id q \<noteq> a_id r)
       \<and> a_telco r = tenant E \<and> a_sub r = sub_id sub \<and> a_prog r = cc_prog cmd \<and> a_offer r = cc_offer cmd
       \<and> a_idem r = cc_idem cmd \<and> a_state r = AdvPendingFulfilment \<and> a_pool r = Some (FundingPoolID adv)
       \<and> a_face r = o_face o' \<and> a_fee r = o_fee o' \<and> a_disb r = o_disb o' \<and> a_out r = o_rep o' \<and> a_cur r = o_cur o')
   \<and> (\<exists>n. consents s' = consents s @ [n] \<and> cn_adv n = AdvanceID adv \<and> cn_disc n = ds_id d \<and> cn_hash n = ds_hash d
       \<and> cn_channel n = cc_channel cmd \<and> cn_session n = cc_session cmd \<and> cn_accepted n = cc_accepted cmd)
   \<and> (\<exists>t. attempts s' = attempts s @ [t] \<and> at_id t = AttemptID att \<and> at_adv t = AdvanceID adv \<and> at_state t = AttemptSent)"

lemma upd_fresh:
  "(\<forall>q \<in> set xs. a_id q \<noteq> aid) \<Longrightarrow>
   upd_where (adv_at E aid v st) f (xs @ [r]) = xs @ [if adv_at E aid v st r then f r else r]"
  by (induction xs) (auto simp: adv_at_def)

lemma upd_fresh_some:
  assumes "adv_update (adv_at E aid v st) f s = Inr s'" "advances s = xs @ [r]" "\<forall>q \<in> set xs. a_id q \<noteq> aid"
  shows "adv_at E aid v st r \<and> advances s' = xs @ [f r] \<and> s' = s\<lparr>advances := xs @ [f r]\<rparr>"
proof -
  from assms(1) obtain q where "q \<in> set (advances s)" "adv_at E aid v st q" by (auto simp: adv_update_Inr)
  with assms(2,3) have "adv_at E aid v st r" by (auto simp: adv_at_def)
  with assms show ?thesis by (auto simp: adv_update_Inr upd_fresh)
qed

lemma book_exposure_row:
  assumes "book_exposure E C adv offer s = Inr (pool, s')"
  obtains P where "s' = s\<lparr>pools := P, advances := advances s @ [reserve_cols E pool (transition_cols E AdvValidated (advance_row_of E adv))]\<rparr>"
    "\<forall>q \<in> set (advances s). a_id q \<noteq> AdvanceID adv" "AdvTelcoID adv = tenant E"
  using assms
proof (rule book_exposure_steps)
  fix s1 s2 s3
  assume ins: "Advances_Insert E adv s = Inr (True, s1)"
    and tr: "Transition E (AdvanceID adv) 1 AdvRequested AdvValidated s1 = Inr s2"
    and res: "Reserve E (OffProgrammeID offer) (Repayment offer) s2 = Inr (pool, s3)"
    and rt: "ReserveTransition E (AdvanceID adv) 2 pool s3 = Inr s'"
  note i = Advances_Insert_new [OF ins]
  then have fr: "\<forall>q \<in> set (advances s). a_id q \<noteq> AdvanceID adv" and s1: "s1 = s\<lparr>advances := advances s @ [advance_row_of E adv]\<rparr>" by blast+
  have s2: "s2 = s1\<lparr>advances := advances s @ [transition_cols E AdvValidated (advance_row_of E adv)]\<rparr>"
    using upd_fresh_some [OF conjunct2 [OF Transition_upd [OF tr]], of "advances s"] fr by (simp add: s1)
  obtain P where s3: "s3 = s2\<lparr>pools := P\<rparr>" using Reserve_moves [OF res] by metis
  have "s' = s3\<lparr>advances := advances s @ [reserve_cols E pool (transition_cols E AdvValidated (advance_row_of E adv))]\<rparr>"
    using upd_fresh_some [OF rt [unfolded ReserveTransition_upd], of "advances s"] fr by (simp add: s3 s2)
  then have "s' = s\<lparr>pools := P, advances := advances s @ [reserve_cols E pool (transition_cols E AdvValidated (advance_row_of E adv))]\<rparr>"
    by (simp add: s3 s2 s1)
  from that [OF this fr] i show ?thesis by blast
qed

lemma book_evidence_row:
  assumes "book_evidence E sub cmd econ offer snap aid s = Inr s'"
  obtains n O' c where "s' = s\<lparr>offers := O', next_id := n, consents := consents s @ [c]\<rparr>" "cn_adv c = aid"
    "cn_disc c = DisclosureSnapshotID snap" "cn_hash c = ContentHash snap" "cn_channel c = cc_channel cmd"
    "cn_session c = cc_session cmd" "cn_accepted c = cc_accepted cmd"
proof -
  from assms obtain s1 x where o': "Offers_SetState E (OfferID offer) OfferGenerated OfferAccepted s = Inr s1"
    and c: "Consents_Insert E x (s1\<lparr>next_id := Suc (next_id s1)\<rparr>) = Inr s'" and x: "CnsAdvanceID x = aid"
      "CnsDisclosureID x = DisclosureSnapshotID snap" "CnsContentHash x = ContentHash snap" "CnsChannel x = cc_channel cmd"
      "CnsSessionID x = cc_session cmd" "CnsAcceptedAt x = cc_accepted cmd"
    unfolding book_evidence_def NewID_def run_simps by fastforce
  from o' obtain O' where s1: "s1 = s\<lparr>offers := O'\<rparr>" by (auto simp: Offers_SetState_def Let_def split: if_splits)
  from Consents_Insert_Inr [OF c] x obtain r where "s' = s\<lparr>offers := O', next_id := Suc (next_id s), consents := consents s @ [r]\<rparr>"
    "cn_adv r = aid" "cn_disc r = DisclosureSnapshotID snap" "cn_hash r = ContentHash snap" "cn_channel r = cc_channel cmd"
    "cn_session r = cc_session cmd" "cn_accepted r = cc_accepted cmd" by (auto simp: s1)
  from that [OF this] show ?thesis .
qed

lemma book_attempt_row:
  assumes "book_attempt E aid offer s = Inr (att, s')" and adv: "advances s = xs @ [r]" "\<forall>q \<in> set xs. a_id q \<noteq> aid"
  obtains n t where "s' = s\<lparr>next_id := n, attempts := attempts s @ [t], advances := xs @ [transition_cols E AdvPendingFulfilment r]\<rparr>"
    "at_id t = AttemptID att" "at_adv t = aid" "at_state t = AttemptSent"
  using assms(1)
proof (rule book_attempt_steps)
  fix i s1 j s2 s3
  assume n: "NewID E ''att'' s = (i, s1)" "NewID E ''tik'' s1 = (j, s2)" and att: "att = new_attempt i aid j"
    and ins: "Attempts_Insert E att (wire_evidence aid offer) s2 = Inr s3"
    and tr: "Transition E aid 3 AdvExposureReserved AdvPendingFulfilment s3 = Inr s'"
  from n have s2: "s2 = s\<lparr>next_id := next_id s2\<rparr>" by (auto simp: NewID_def)
  from ins obtain t where s3: "s3 = s2\<lparr>attempts := attempts s2 @ [t]\<rparr>" and t: "at_id t = AttemptID att" "at_adv t = aid" "at_state t = AttemptSent"
    by (auto simp: Attempts_Insert_def att new_attempt_def split: if_splits)
  have a3: "advances s3 = xs @ [r]" using adv(1) n by (auto simp: s3 NewID_def)
  have "s' = s3\<lparr>advances := xs @ [transition_cols E AdvPendingFulfilment r]\<rparr>"
    using upd_fresh_some [OF conjunct2 [OF Transition_upd [OF tr]] a3 adv(2)] by simp
  then have "s' = s\<lparr>next_id := Suc (Suc (next_id s)), attempts := attempts s @ [t], advances := xs @ [transition_cols E AdvPendingFulfilment r]\<rparr>"
    using n by (auto simp: s3 NewID_def)
  from that [OF this t] show ?thesis .
qed

lemma book_advance_row:
  assumes "book_advance E C sub cmd econ offer snap s = Inr ((adv, att), s')"
  obtains r c t where "advances s' = advances s @ [r]" "\<forall>q \<in> set (advances s). a_id q \<noteq> AdvanceID adv"
    "r = transition_cols E AdvPendingFulfilment (reserve_cols E (FundingPoolID adv) (transition_cols E AdvValidated
       (advance_row_of E (new_advance sub offer cmd (AdvanceID adv) (FeeRecognition adv)))))"
    "sub_telco sub = tenant E" "AdvTelcoID adv = tenant E"
    "consents s' = consents s @ [c]" "cn_adv c = AdvanceID adv" "cn_disc c = DisclosureSnapshotID snap"
    "cn_hash c = ContentHash snap" "cn_channel c = cc_channel cmd" "cn_session c = cc_session cmd" "cn_accepted c = cc_accepted cmd"
    "attempts s' = attempts s @ [t]" "at_id t = AttemptID att" "at_adv t = AdvanceID adv" "at_state t = AttemptSent"
    "idem s' = idem s"
  using assms
proof (rule book_advance_steps)
  fix aid s1 policy pool s2 s3
  assume n: "NewID E ''adv'' s = (aid, s1)"
    and x: "book_exposure E C (new_advance sub offer cmd aid policy) offer s1 = Inr (pool, s2)"
    and e: "book_evidence E sub cmd econ offer snap aid s2 = Inr s3" and a: "book_attempt E aid offer s3 = Inr (att, s')"
    and adv: "adv = (new_advance sub offer cmd aid policy)\<lparr>FundingPoolID := pool, State := AdvPendingFulfilment, Version := 4\<rparr>"
  let ?adv = "new_advance sub offer cmd aid policy"
  let ?r = "reserve_cols E pool (transition_cols E AdvValidated (advance_row_of E ?adv))"
  have s1: "s1 = s\<lparr>next_id := Suc (next_id s)\<rparr>" using n by (simp add: NewID_def)
  obtain P where s2: "s2 = s1\<lparr>pools := P, advances := advances s1 @ [?r]\<rparr>"
    and fr: "\<forall>q \<in> set (advances s1). a_id q \<noteq> AdvanceID ?adv" and tel: "AdvTelcoID ?adv = tenant E"
    using book_exposure_row [OF x] .
  have id: "AdvanceID ?adv = aid" by (simp add: new_advance_def)
  obtain m O' c where s3: "s3 = s2\<lparr>offers := O', next_id := m, consents := consents s2 @ [c]\<rparr>" and c: "cn_adv c = aid"
    "cn_disc c = DisclosureSnapshotID snap" "cn_hash c = ContentHash snap" "cn_channel c = cc_channel cmd"
    "cn_session c = cc_session cmd" "cn_accepted c = cc_accepted cmd"
    using book_evidence_row [OF e] .
  have a3: "advances s3 = advances s @ [?r]" by (simp add: s3 s2 s1)
  have fr': "\<forall>q \<in> set (advances s). a_id q \<noteq> aid" using fr by (simp add: s1 id)
  obtain k t where s': "s' = s3\<lparr>next_id := k, attempts := attempts s3 @ [t], advances := advances s @ [transition_cols E AdvPendingFulfilment ?r]\<rparr>"
    and t: "at_id t = AttemptID att" "at_adv t = aid" "at_state t = AttemptSent"
    using book_attempt_row [OF a a3 fr'] .
  show ?thesis
    by (rule that [of "transition_cols E AdvPendingFulfilment ?r" c t])
       (use fr' tel c t in \<open>simp_all add: s' s3 s2 s1 adv new_advance_def\<close>)
qed

lemma booked_row:
  assumes ok: "book_advance E C sub cmd econ offer snap s = Inr ((adv, att), s')"
    and o': "offerScan o' = Inr offer" "o_id o' = cc_offer cmd" "o_prog o' = cc_prog cmd" and d: "disclosureScan d = Inr snap"
  shows "booked E cmd sub o' d adv att s s'"
  using ok
proof (rule book_advance_row)
  fix r c t
  assume a: "advances s' = advances s @ [r]" "\<forall>q \<in> set (advances s). a_id q \<noteq> AdvanceID adv"
    and r: "r = transition_cols E AdvPendingFulfilment (reserve_cols E (FundingPoolID adv) (transition_cols E AdvValidated
       (advance_row_of E (new_advance sub offer cmd (AdvanceID adv) (FeeRecognition adv)))))"
    and tel: "sub_telco sub = tenant E"
    and c: "consents s' = consents s @ [c]" "cn_adv c = AdvanceID adv" "cn_disc c = DisclosureSnapshotID snap"
    "cn_hash c = ContentHash snap" "cn_channel c = cc_channel cmd" "cn_session c = cc_session cmd" "cn_accepted c = cc_accepted cmd"
    and t: "attempts s' = attempts s @ [t]" "at_id t = AttemptID att" "at_adv t = AdvanceID adv" "at_state t = AttemptSent"
  note sc = offerScan_InrD [OF o'(1)]
  have "a_id r = AdvanceID adv \<and> a_telco r = tenant E \<and> a_sub r = sub_id sub \<and> a_prog r = cc_prog cmd \<and> a_offer r = cc_offer cmd
       \<and> a_idem r = cc_idem cmd \<and> a_state r = AdvPendingFulfilment \<and> a_pool r = Some (FundingPoolID adv)
       \<and> a_face r = o_face o' \<and> a_fee r = o_fee o' \<and> a_disb r = o_disb o' \<and> a_out r = o_rep o' \<and> a_cur r = o_cur o'"
    using sc o' tel by (simp add: r reserve_cols_def advance_row_of_def new_advance_def)
  moreover have "cn_disc c = ds_id d" "cn_hash c = ds_hash d" using disclosureScan_InrD [OF d] c by simp_all
  ultimately show ?thesis unfolding booked_def using a c t by auto
qed

lemma confirm_start_dialling:
  assumes "confirm_start E C c cmd s = (Dialling adv att, s')"
  shows "confirm_checks C c cmd = Inr c \<and> confirm_tx1 C c cmd (confirmRequestHash E cmd) (E\<lparr>tenant := c\<rparr>) s = Inr (Started adv att, s')"
proof -
  from assms obtain telco where t: "confirm_checks C c cmd = Inr telco" by (auto simp: confirm_start_def split: sum.splits)
  then have "telco = c" by (auto simp: confirm_checks_def andThen_Inr_iff TenantFrom_Inr split: if_splits)
  moreover obtain x s1 where tx: "WithTenantTx E c (confirm_tx1 C telco cmd (confirmRequestHash E cmd)) s = (x, s1)" by fastforce
  moreover have "x = Inr (Started adv att) \<and> s1 = s'"
  proof (cases x)
    case (Inr r)
    with assms t tx show ?thesis by (cases r) (auto simp: confirm_start_def Let_def)
  next
    case (Inl e)
    with assms t tx show ?thesis
      by (auto simp: confirm_start_def Let_def split: err.splits orig_err.splits if_splits prod.splits)
  qed
  ultimately show ?thesis using t by (simp add: WithTenantTx_Inr)
qed



section \<open>Stored responses\<close>

lemma must_money_back: "Valid c \<Longrightarrow> must_money (a, c) = Inr \<lparr>amount = a, currency = c\<rparr>"
  using Valid_nonempty [of c] by (auto simp: must_money_def MustMoney_def NewMoney_def)

lemma view_decodes:
  assumes "cv_advance v \<noteq> ''''" and "\<And>m. m \<in> {cv_face v, cv_disb v, cv_out v} \<Longrightarrow> m = unset \<or> Valid (currency m)"
  shows "decodeConfirmResponse (encodeConfirmResponse v) = Inr (Some v)"
proof -
  have mb: "must_money (if IsSet m then amount m else 0, if IsSet m then currency m else '''') = Inr m"
    if "m \<in> {cv_face v, cv_disb v, cv_out v}" for m
    using assms(2) [OF that] must_money_back [of "currency m" "amount m"] Valid_nonempty [of "currency m"]
    by (auto simp: IsSet_def must_money_def unset_def)
  let ?v = "\<lambda>m. (if IsSet m then amount m else 0, if IsSet m then currency m else '''')"
  have rd: "read_money ''face_minor'' ''face_cur'' (encodeConfirmResponse v) = Inr (?v (cv_face v))"
    "read_money ''disb_minor'' ''disb_cur'' (encodeConfirmResponse v) = Inr (?v (cv_disb v))"
    "read_money ''out_minor'' ''out_cur'' (encodeConfirmResponse v) = Inr (?v (cv_out v))"
    by (simp_all add: read_money_def encodeConfirmResponse_def money_fields_def field_num_def field_str_def)
  have "field_str ''advance_id'' (encodeConfirmResponse v) = Inr (cv_advance v)" "field_str ''state'' (encodeConfirmResponse v) = Inr (cv_state v)"
    by (simp_all add: encodeConfirmResponse_def field_str_def)
  with rd mb [of "cv_face v"] mb [of "cv_disb v"] mb [of "cv_out v"] assms(1) show ?thesis by (simp add: decodeConfirmResponse_def)
qed

lemma view_of_decodes: "Advances_Get E aid s = Inr a \<Longrightarrow> aid \<noteq> '''' \<Longrightarrow>
  decodeConfirmResponse (encodeConfirmResponse (view_of a)) = Inr (Some (view_of a))"
  by (rule view_decodes) (auto dest!: Advances_Get_InrD simp: view_of_def advance_of_def)

text \<open>The response of an outcome is written on the claimed record, and only there.\<close>

lemma filter_find: "filter p xs = [x] \<Longrightarrow> List.find p xs = Some x"
  by (induction xs) (auto split: if_splits)

lemma filter_upd: "(\<And>r. q (f r) = q r) \<Longrightarrow> filter q (upd_where p f xs) = upd_where p f (filter q xs)"
  by (induction xs) auto

lemma update_rows_total: "(\<And>r. p r \<Longrightarrow> f r = Inr (g r)) \<Longrightarrow> update_rows p f xs = Inr (upd_where p g xs)"
  by (induction xs) simp_all

lemma recordConfirmResponse_writes:
  assumes ok: "recordConfirmResponse E a s = Inr (st, s')" and key: "IdempotencyKey a \<noteq> ''''"
    and one: "filter (is_idem E (AdvTelcoID a) ConfirmOp (IdempotencyKey a)) (idem s) = [r]" and open': "i_status r = 0"
  shows "st = confirmHTTPStatus a \<and> Idempotency_Get E (AdvTelcoID a) ConfirmOp (IdempotencyKey a) s'
     = Inr (r\<lparr>i_status := st, i_body := encodeConfirmResponse (view_of a)\<rparr>)"
proof -
  let ?q = "is_idem E (AdvTelcoID a) ConfirmOp (IdempotencyKey a)"
  let ?f = "\<lambda>r. r\<lparr>i_status := confirmHTTPStatus a, i_body := encodeConfirmResponse (view_of a)\<rparr>"
  have "r \<in> set (filter ?q (idem s))" using one by simp
  then have ex: "r \<in> set (idem s)" "?q r" by simp_all
  have "filter (\<lambda>r. ?q r \<and> i_status r = 0) (idem s) = filter (\<lambda>r. i_status r = 0) (filter ?q (idem s))"
    by (simp add: conj_commute)
  with one open' have l1: "length (filter (\<lambda>r. ?q r \<and> i_status r = 0) (idem s)) = 1" by simp
  obtain x where set: "SetResponseIfAbsent E (AdvTelcoID a) ConfirmOp (IdempotencyKey a) (confirmHTTPStatus a)
        (encodeConfirmResponse (view_of a)) s = x" by blast
  show ?thesis
  proof (cases x)
    case (Inl e)
    with ok key set have "e = ErrNotFound" by (auto simp: recordConfirmResponse_def split: if_splits)
    moreover have "update_rows (\<lambda>r. ?q r \<and> i_status r = 0) (write_once (confirmHTTPStatus a) (encodeConfirmResponse (view_of a))) (idem s)
        = Inr (upd_where (\<lambda>r. ?q r \<and> i_status r = 0) ?f (idem s))"
      by (rule update_rows_total) (simp add: write_once_def)
    ultimately show ?thesis using Inl set l1 by (simp add: SetResponseIfAbsent_def Let_def)
  next
    case (Inr w)
    obtain b t where w: "w = (b, t)" by (cases w)
    note eff = SetResponseIfAbsent_Inr [OF set [unfolded Inr w]]
    with l1 have "b" and t: "idem t = upd_where (\<lambda>r. ?q r \<and> i_status r = 0) ?f (idem s)" by auto
    with ok key set Inr w have "st = confirmHTTPStatus a" "s' = t" by (auto simp: recordConfirmResponse_def)
    moreover have "filter ?q (idem t) = [?f r]"
      unfolding t by (subst filter_upd) (use one open' ex in \<open>simp_all\<close>)
    ultimately show ?thesis using filter_find [of ?q "idem t"] by (simp add: Idempotency_Get_def queryRow_def)
  qed
qed

lemma PutIfAbsent_only:
  assumes "PutIfAbsent E rec s = Inr ((r, True), s')"
  shows "filter (is_idem E (i_telco rec) (i_op rec) (i_key rec)) (idem s') = [rec]"
  using assms by (auto simp: PutIfAbsent_def andThen_Inr_iff rls_check_Inr is_idem_def filter_empty_conv split: if_splits)

lemma is_idem_env: "is_idem (E\<lparr>tenant := c\<rparr>) = is_idem (E'\<lparr>tenant := c\<rparr>)"
  by (intro ext) (simp add: is_idem_def)

lemma Idempotency_Get_env: "Idempotency_Get (E\<lparr>tenant := c\<rparr>) t op k s = Idempotency_Get (E'\<lparr>tenant := c\<rparr>) t op k s"
  by (simp add: Idempotency_Get_def is_idem_env [where E = E and E' = E' and c = c])

lemma Advances_Get_env: "Advances_Get (E\<lparr>tenant := c\<rparr>) aid s = Advances_Get (E'\<lparr>tenant := c\<rparr>) aid s"
  by (simp add: Advances_Get_def)

text \<open>The record a booking claims, and the advance it leaves behind.\<close>

definition claim_row :: "string \<Rightarrow> ConfirmCmd \<Rightarrow> string \<Rightarrow> idem_row" where
  "claim_row c cmd h = \<lparr>i_telco = c, i_op = ConfirmOp, i_key = cc_idem cmd, i_hash = h, i_status = 0,
     i_body = JObj [(''kind'', JStr ''advance.confirm'')], i_terminal = False\<rparr>"

lemma dialling_claims:
  assumes "confirm_start E C c cmd s = (Dialling adv att, s1)"
  shows "filter (is_idem (E\<lparr>tenant := c\<rparr>) c ConfirmOp (cc_idem cmd)) (idem s1) = [claim_row c cmd (confirmRequestHash E cmd)]
    \<and> (\<forall>a. Advances_Get (E\<lparr>tenant := c\<rparr>) (AdvanceID adv) s1 = Inr a \<longrightarrow> State a = AdvPendingFulfilment \<and> IdempotencyKey a = cc_idem cmd)"
proof -
  let ?E = "E\<lparr>tenant := c\<rparr>"
  from confirm_start_dialling [OF assms]
  have tx: "confirm_tx1 C c cmd (confirmRequestHash E cmd) ?E s = Inr (Started adv att, s1)" by blast
  from tx show ?thesis
  proof (cases rule: confirm_tx1_cases)
    case (booked rec s0 econ sub offer snap adv' att')
    have "filter (is_idem ?E c ConfirmOp (cc_idem cmd)) (idem s0) = [claim_row c cmd (confirmRequestHash E cmd)]"
      using PutIfAbsent_only [OF booked(2)] by (simp add: claim_row_def)
    moreover from booked(7) obtain r where r: "advances s1 = advances s0 @ [r]" "\<forall>q \<in> set (advances s0). a_id q \<noteq> AdvanceID adv'"
      "r = transition_cols ?E AdvPendingFulfilment (reserve_cols ?E (FundingPoolID adv') (transition_cols ?E AdvValidated
        (advance_row_of ?E (new_advance sub offer cmd (AdvanceID adv') (FeeRecognition adv')))))" and i: "idem s1 = idem s0"
      by (rule book_advance_row)
    moreover have "State a = AdvPendingFulfilment \<and> IdempotencyKey a = cc_idem cmd"
      if "Advances_Get ?E (AdvanceID adv) s1 = Inr a" for a
    proof -
      from Advances_Get_InrD [OF that] obtain q where q: "q \<in> set (advances s1)" "a_id q = AdvanceID adv" "a = advance_of q" by blast
      with r booked(1) have "q = r" by auto
      with q r show ?thesis by (simp add: advance_of_def reserve_cols_def advance_row_of_def new_advance_def)
    qed
    ultimately show ?thesis by simp
  qed simp
qed

lemma confirmHTTPStatus_nonzero: "confirmHTTPStatus a \<noteq> 0"
  by (simp add: confirmHTTPStatus_def split: AdvanceState.split)

lemma finished_stores:
  assumes fin: "confirm_finish E2 C c adv att answer t = (Inr res, s')"
    and pend: "\<And>a. Advances_Get (E2\<lparr>tenant := c\<rparr>) (AdvanceID adv) t = Inr a \<Longrightarrow> State a = AdvPendingFulfilment \<and> IdempotencyKey a = key"
    and one: "filter (is_idem (E2\<lparr>tenant := c\<rparr>) c ConfirmOp key) (idem t) = [r]" "i_status r = 0"
    and ne: "AdvanceID adv \<noteq> ''''" "key \<noteq> ''''"
  shows "cr_replayed res = False \<and> cr_status res \<noteq> 0
    \<and> decodeConfirmResponse (encodeConfirmResponse (cr_advance res)) = Inr (Some (cr_advance res))
    \<and> Idempotency_Get (E2\<lparr>tenant := c\<rparr>) c ConfirmOp key s'
        = Inr (r\<lparr>i_status := cr_status res, i_body := encodeConfirmResponse (cr_advance res)\<rparr>)"
proof -
  let ?E = "E2\<lparr>tenant := c\<rparr>"
  define rs where "rs = (case answer of Inr res \<Rightarrow> res
         | Inl e \<Rightarrow> noResult\<lparr>outcome := OutcomeUnknown,
             ResponseEvidence := Some (''{\"adapter_fault\":'' @ quoted E2 (err_text E2 e) @ ''}'')\<rparr>)"
  from fin obtain final st where tx: "resolveOutcomeTx C (AdvanceID adv) (AttemptID att) rs ?E t = Inr ((final, st), s')"
    and res: "res = \<lparr>cr_advance = view_of final, cr_replayed = False, cr_status = st\<rparr>"
    unfolding confirm_finish_def Let_def rs_def [symmetric] by (auto simp: WithTenantTx_Inr split: sum.splits prod.splits)
  from tx show ?thesis
  proof (cases rule: resolveOutcomeTx_cases)
    case settled
    with pend show ?thesis by blast
  next
    case (applied a s1)
    have id: "AdvanceID a = AdvanceID adv" using Advances_Get_id [OF applied(1)] by simp
    from apply_outcome_state [OF applied(1,2,3)] applied(4) id pend [OF applied(1)]
    have i: "idem s1 = idem t" and k: "IdempotencyKey final = key" by auto
    have tel: "AdvTelcoID final = c" using Advances_Get_id [OF applied(4)] by simp
    from recordConfirmResponse_writes [OF applied(5), of r] one i k tel ne(2)
    have "st = confirmHTTPStatus final \<and> Idempotency_Get ?E c ConfirmOp key s'
        = Inr (r\<lparr>i_status := st, i_body := encodeConfirmResponse (view_of final)\<rparr>)" by simp
    moreover have "decodeConfirmResponse (encodeConfirmResponse (view_of final)) = Inr (Some (view_of final))"
      using view_of_decodes [OF applied(4)] ne(1) id by simp
    ultimately show ?thesis by (simp add: res confirmHTTPStatus_nonzero)
  qed
qed

lemma stored_confirm_replays:
  assumes rec: "Idempotency_Get (E\<lparr>tenant := c\<rparr>) c ConfirmOp (cc_idem cmd) t
      = Inr (r\<lparr>i_status := st, i_body := encodeConfirmResponse v\<rparr>)"
    and r: "i_hash r = confirmRequestHash E cmd" "st \<noteq> 0" "decodeConfirmResponse (encodeConfirmResponse v) = Inr (Some v)"
    and chk: "confirm_checks C c cmd = Inr c"
  shows "Confirm E E2 C submit others c cmd t = (Inr \<lparr>cr_advance = v, cr_replayed = True, cr_status = replayHTTPStatus st\<rparr>, t)"
proof -
  let ?E = "E\<lparr>tenant := c\<rparr>"
  have ne: "c \<noteq> ''''" using chk by (auto simp: confirm_checks_def andThen_Inr_iff TenantFrom_Inr split: if_splits)
  have put: "PutIfAbsent ?E \<lparr>i_telco = c, i_op = ConfirmOp, i_key = cc_idem cmd, i_hash = h, i_status = 0,
      i_body = JObj [(''kind'', JStr ''advance.confirm'')], i_terminal = False\<rparr> t
      = Inr ((r\<lparr>i_status := st, i_body := encodeConfirmResponse v\<rparr>, False), t)" for h
    by (rule idem.put_old [OF rec]) simp_all
  have "replayConfirmAdvance ?E c (cc_idem cmd) t = Inr (v, replayHTTPStatus st)"
    by (simp add: replayConfirmAdvance_def recorded_def rec r)
  with put r(1) have "confirm_tx1 C c cmd (confirmRequestHash E cmd) ?E t = Inr (Replayed v (replayHTTPStatus st), t)"
    by (simp add: confirm_tx1_def)
  with chk ne show ?thesis
    by (simp add: Confirm_def confirm_start_def WithTenantTx_def TenantFrom_def)
qed

text \<open>A confirmation is replayed exactly. Once a confirmation has been answered - while the call was out nobody
  else having touched its advance or its idempotency record - the same command, sent again at any
  later time, under any later configuration that still admits its channel and however the advance
  has moved on since, returns the response of the first answer, marked as a replay, with the status
  of a replay, and changes nothing; in particular the telco is not called again.\<close>

theorem Confirm_replay:
  assumes start: "confirm_start E C c cmd s = (Dialling adv att, s1)"
    and calm: "Advances_Get (E\<lparr>tenant := c\<rparr>) (AdvanceID adv) (others s1) = Advances_Get (E\<lparr>tenant := c\<rparr>) (AdvanceID adv) s1"
      "filter (is_idem (E\<lparr>tenant := c\<rparr>) c ConfirmOp (cc_idem cmd)) (idem (others s1))
         = filter (is_idem (E\<lparr>tenant := c\<rparr>) c ConfirmOp (cc_idem cmd)) (idem s1)"
    and run: "Confirm E E2 C submit others c cmd s = (Inr res, s')"
    and id: "AdvanceID adv \<noteq> ''''"
    and later: "Idempotency_Get (E\<lparr>tenant := c\<rparr>) c ConfirmOp (cc_idem cmd) t = Idempotency_Get (E\<lparr>tenant := c\<rparr>) c ConfirmOp (cc_idem cmd) s'"
    and again: "confirm_checks C3 c cmd = Inr c" "confirmRequestHash E3 cmd = confirmRequestHash E cmd"
  shows "Confirm E3 E4 C3 submit3 others3 c cmd t
     = (Inr (res\<lparr>cr_replayed := True, cr_status := replayHTTPStatus (cr_status res)\<rparr>), t)"
proof -
  note claim = dialling_claims [OF start]
  have key: "cc_idem cmd \<noteq> ''''" using again(1) by (auto simp: confirm_checks_def split: if_splits)
  from run start obtain answer where fin: "confirm_finish E2 C c adv att answer (others s1) = (Inr res, s')"
    by (auto simp: Confirm_def)
  have "cr_replayed res = False \<and> cr_status res \<noteq> 0
    \<and> decodeConfirmResponse (encodeConfirmResponse (cr_advance res)) = Inr (Some (cr_advance res))
    \<and> Idempotency_Get (E2\<lparr>tenant := c\<rparr>) c ConfirmOp (cc_idem cmd) s'
        = Inr ((claim_row c cmd (confirmRequestHash E cmd))\<lparr>i_status := cr_status res, i_body := encodeConfirmResponse (cr_advance res)\<rparr>)"
  proof (rule finished_stores [OF fin])
    show "State a = AdvPendingFulfilment \<and> IdempotencyKey a = cc_idem cmd"
      if "Advances_Get (E2\<lparr>tenant := c\<rparr>) (AdvanceID adv) (others s1) = Inr a" for a
      using that claim calm(1) Advances_Get_env [where E = E2 and E' = E and c = c] by simp
    show "filter (is_idem (E2\<lparr>tenant := c\<rparr>) c ConfirmOp (cc_idem cmd)) (idem (others s1)) = [claim_row c cmd (confirmRequestHash E cmd)]"
      using claim calm(2) is_idem_env [where E = E2 and E' = E and c = c] by simp
  qed (simp_all add: id key claim_row_def)
  note st = this
  have "Idempotency_Get (E3\<lparr>tenant := c\<rparr>) c ConfirmOp (cc_idem cmd) t
      = Inr ((claim_row c cmd (confirmRequestHash E cmd))\<lparr>i_status := cr_status res, i_body := encodeConfirmResponse (cr_advance res)\<rparr>)"
    using st later Idempotency_Get_env [where E = E3 and E' = E and c = c] Idempotency_Get_env [where E = E2 and E' = E and c = c] by simp
  from stored_confirm_replays [OF this _ _ _ again(1)] st again(2) show ?thesis
    by (simp add: claim_row_def)
qed

definition later_env :: env where
  "later_env = sample_env\<lparr>now := 900000000\<rparr>"

definition confirmed_run :: "(err + ConfirmResult) \<times> db" where
  "confirmed_run = Confirm sample_env sample_env sample_orig confirming id ''MTN_NG'' sample_confirm offered_db"

theorem Confirm_replay_witness:
  "\<exists>res s'. confirmed_run = (Inr res, s') \<and> cr_status res = 201
     \<and> Confirm later_env later_env sample_orig (\<lambda>_ _ _. Inl (Fmt ''not called'')) id ''MTN_NG'' sample_confirm s'
         = (Inr (res\<lparr>cr_replayed := True, cr_status := 200\<rparr>), s')"
proof -
  let ?start = "confirm_start sample_env sample_orig ''MTN_NG'' sample_confirm offered_db"
  have "(case fst ?start of Dialling a _ \<Rightarrow> AdvanceID a \<noteq> '''' | Finished _ \<Rightarrow> False)" by code_simp
  then obtain adv att where "fst ?start = Dialling adv att" and id: "AdvanceID adv \<noteq> ''''"
    by (cases "fst ?start") simp_all
  then have start: "?start = (Dialling adv att, snd ?start)" by (metis prod.collapse)
  have "(case fst confirmed_run of Inr res \<Rightarrow> cr_status res = 201 | Inl _ \<Rightarrow> False)" by code_simp
  then obtain res where "fst confirmed_run = Inr res" and st: "cr_status res = 201" by (cases "fst confirmed_run") simp_all
  then have run: "confirmed_run = (Inr res, snd confirmed_run)" by (metis prod.collapse)
  have chk: "confirm_checks sample_orig ''MTN_NG'' sample_confirm = Inr ''MTN_NG''" by code_simp
  have "confirmRequestHash later_env sample_confirm = confirmRequestHash sample_env sample_confirm"
    by (simp add: confirmRequestHash_def later_env_def sample_env_def canonicalJSON_def sample_confirm_def)
  from Confirm_replay [OF start _ _ run [unfolded confirmed_run_def] id _ chk this, of "snd confirmed_run"]
  have "Confirm later_env later_env sample_orig (\<lambda>_ _ _. Inl (Fmt ''not called'')) id ''MTN_NG'' sample_confirm (snd confirmed_run)
      = (Inr (res\<lparr>cr_replayed := True, cr_status := replayHTTPStatus (cr_status res)\<rparr>), snd confirmed_run)"
    by (simp add: confirmed_run_def)
  with run st show ?thesis by (auto simp: replayHTTPStatus_def)
qed

end
