(* ===== verification/OriginationRules.thy ===== *)
theory OriginationRules
  imports OriginationProps
begin

text \<open>
  The rules origination lends by: the prices of the offer ladder, self-exclusion with its cool-off,
  and the limit of outcome settlement, a response that is not JSON.
\<close>

section \<open>The offer ladder\<close>

text \<open>What a denomination would put into the customer's hands, 0 when it has no price.\<close>

definition disbursed_of :: "productCfg \<Rightarrow> i64 \<Rightarrow> int" where
  "disbursed_of pc d = (case price pc \<lparr>amount = d, currency = pc_currency pc\<rparr> of
     Inl _ \<Rightarrow> 0 | Inr (fee, disbursed, repayment) \<Rightarrow> sint (amount disbursed))"

definition priced :: "productCfg \<Rightarrow> DecisionSnapshot \<Rightarrow> Offer \<Rightarrow> bool" where
  "priced pc dec o' \<longleftrightarrow>
     PercentBps (OffFaceValue o') (FeeBps pc) = Inr (OffFee o')
   \<and> currency (OffFaceValue o') = pc_currency pc \<and> sint (amount (OffFaceValue o')) \<le> sint (amount (MaxFaceValue dec))
   \<and> 0 < sint (amount (OffDisbursed o'))
   \<and> (pc_model pc = FeeDeductedUpfront \<longrightarrow> Repayment o' = OffFaceValue o'
        \<and> sint (amount (OffDisbursed o')) + sint (amount (OffFee o')) = sint (amount (OffFaceValue o')))
   \<and> (pc_model pc = FeeAddedToRepayment \<longrightarrow> OffDisbursed o' = OffFaceValue o'
        \<and> sint (amount (Repayment o')) = sint (amount (OffFaceValue o')) + sint (amount (OffFee o')))
   \<and> OffFeeModel o' = pc_model pc \<and> pc_model pc \<in> {FeeDeductedUpfront, FeeAddedToRepayment}
   \<and> OffState o' = OfferGenerated"

lemma price_Inr:
  assumes "price pc face = Inr (fee, disbursed, repayment)"
  shows "PercentBps face (FeeBps pc) = Inr fee
    \<and> (pc_model pc = FeeDeductedUpfront \<longrightarrow> repayment = face \<and> sint (amount disbursed) + sint (amount fee) = sint (amount face))
    \<and> (pc_model pc = FeeAddedToRepayment \<longrightarrow> disbursed = face \<and> sint (amount repayment) = sint (amount face) + sint (amount fee))
    \<and> pc_model pc \<in> {FeeDeductedUpfront, FeeAddedToRepayment}"
  using assms by (cases "pc_model pc") (auto simp: price_def andThen_Inr_iff dest!: Sub_exact Add_exact_eq)

lemma ladder_exact:
  assumes "ladder E sub dec prog ver pc ds s = Inr (os, s')"
  shows "(\<forall>o' \<in> set os. priced pc dec o' \<and> OffExpiresAt o' = now E + OfferExpiryMinutes pc * 60 * second)
    \<and> map (\<lambda>o'. amount (OffFaceValue o')) os
        = filter (\<lambda>d. sint d \<le> sint (amount (MaxFaceValue dec)) \<and> 0 < disbursed_of pc d) ds"
  using assms
proof (induction ds arbitrary: os s)
  case (Cons d ds)
  let ?face = "\<lparr>amount = d, currency = pc_currency pc\<rparr>"
  from Cons.prems obtain c where v: "Valid (pc_currency pc)" and c: "Cmp ?face (MaxFaceValue dec) = Inr c"
    by (auto simp: andThen_Inr_iff NewMoney_Inr)
  from c have cc: "(c > 0) = (sint d > sint (amount (MaxFaceValue dec)))"
    by (auto simp: Cmp_def res_simps split: if_splits)
  show ?case
  proof (cases "c > 0")
    case True
    with Cons v c cc show ?thesis by (auto simp: NewMoney_def)
  next
    case False
    with Cons.prems v c obtain fee disbursed repayment where pr: "price pc ?face = Inr (fee, disbursed, repayment)"
      by (auto simp: NewMoney_def andThen_Inr_iff)
    note p = price_Inr [OF pr]
    have db: "disbursed_of pc d = sint (amount disbursed)" by (simp add: disbursed_of_def pr)
    have set': "IsSet disbursed"
      using pr v by (cases "pc_model pc") (auto simp: price_def andThen_Inr_iff IsSet_def dest: Valid_nonempty dest!: Sub_exact)
    show ?thesis
    proof (cases "IsPositive disbursed")
      case True
      with Cons.prems v c \<open>\<not> c > 0\<close> pr obtain out s2 where rec: "ladder E sub dec prog ver pc ds s2 = Inr (out, s')"
        and os: "\<exists>oid. os = \<lparr>OfferID = oid, OffTelcoID = sub_telco sub, OffProgrammeID = prog, OffSubscriberID = sub_id sub,
             DecisionSnapshotID = DecID dec, OffFaceValue = ?face, OffFee = fee, OffDisbursed = disbursed,
             Repayment = repayment, OffFeeModel = pc_model pc, ProductConfigVersionID = ver, OffState = OfferGenerated,
             OffExpiresAt = now E + OfferExpiryMinutes pc * 60 * second\<rparr> # out"
        by (auto simp: NewMoney_def andThen_Inr_iff NewID_def Let_def)
      from os obtain o' where o': "os = o' # out" "OffFaceValue o' = ?face" "OffFee o' = fee" "OffDisbursed o' = disbursed"
        "Repayment o' = repayment" "OffFeeModel o' = pc_model pc" "OffState o' = OfferGenerated"
        "OffExpiresAt o' = now E + OfferExpiryMinutes pc * 60 * second" by auto
      have pos: "0 < sint (amount disbursed)" using True by (simp add: IsPositive_def)
      have "priced pc dec o'" using p pos cc False by (simp add: priced_def o')
      with Cons.IH [OF rec] pos cc False db o' show ?thesis by simp
    next
      case False
      with Cons.prems v c \<open>\<not> c > 0\<close> pr have "ladder E sub dec prog ver pc ds s = Inr (os, s')" by (simp add: NewMoney_def)
      from Cons.IH [OF this] False set' db show ?thesis by (simp add: IsPositive_def IsSet_def)
    qed
  qed
qed simp


definition sample_product :: productCfg where
  "sample_product = \<lparr>pc_currency = ''NGN'', DenominationsMinor = [100, 300, 900], FeeBps = 1000,
     pc_model = FeeDeductedUpfront, OfferExpiryMinutes = 10\<rparr>"

definition sample_decision :: DecisionSnapshot where
  "sample_decision = \<lparr>DecID = ''dec_1'', DecTelcoID = ''MTN_NG'', DecSubscriberID = ''sub_1'', MaxFaceValue = ngn 500,
     IsCurrent = True, DecConfigVersionID = ''cfg_s'', TierCode = ''A'', ScoringRunID = '''', ValidUntil = None\<rparr>"


section \<open>Self-exclusion\<close>

lemma shut_gates:
  assumes sub: "GetLiveByToken E token s = Inr sub" and ex: "x \<in> set (selfexcls s)" "active_exclusion E (sub_id sub) x"
  shows "lending_gates E C prog token s \<notin> range Inr"
proof
  assume "lending_gates E C prog token s \<in> range Inr"
  then obtain econ sub' where g: "lending_gates E C prog token s = Inr (econ, sub')" by auto
  have "GetLiveByToken E token s = Inr sub'"
    using g by (auto simp: lending_gates_def andThen_Inr_iff split: if_splits)
  with sub have "sub' = sub" by simp
  with lending_gates_Inr [OF g] ex show False by blast
qed

lemma excluded_offers:
  assumes "\<And>C prog. lending_gates (E\<lparr>tenant := c\<rparr>) C prog token s \<notin> range Inr"
  shows "\<exists>e. GetOffers E C c prog token s = (Inl e, s)"
proof -
  have tx: "offers_tx C product disclosure prog token (E\<lparr>tenant := c\<rparr>) s \<notin> range Inr" for product disclosure
    using assms [of C prog] by (auto simp: offers_tx_def andThen_Inr_iff split: prod.splits)
  have "\<exists>e. WithTenantTx E c (offers_tx C product disclosure prog token) s = (Inl e, s)" for product disclosure
    using tx [of product disclosure]
    by (auto simp: WithTenantTx_def TenantFrom_def split: sum.splits)
  then show ?thesis by (auto simp: GetOffers_def split: sum.splits)
qed

lemma gates_frame: "lending_gates E C prog token (s\<lparr>idem := i\<rparr>) = lending_gates E C prog token s"
  by (simp add: lending_gates_def Programmes_GetStatus_def GetLiveByToken_def assertNotSelfExcluded_def GetActiveBySubscriber_def
      cong: if_cong)

lemma excluded_confirm:
  assumes "\<And>C prog. lending_gates (E\<lparr>tenant := c\<rparr>) C prog (cc_token cmd) s \<notin> range Inr"
  shows "confirm_start E C c cmd s \<noteq> (Dialling adv att, s')"
proof
  assume "confirm_start E C c cmd s = (Dialling adv att, s')"
  from confirm_start_dialling [OF this]
  have "confirm_tx1 C c cmd (confirmRequestHash E cmd) (E\<lparr>tenant := c\<rparr>) s = Inr (Started adv att, s')" by blast
  then show False
  proof (cases rule: confirm_tx1_cases)
    case (booked rec s1 econ sub offer snap adv' att')
    have "s1 = s\<lparr>idem := idem s1\<rparr>" using PutIfAbsent_new [OF booked(2)] by blast
    then have "lending_gates (E\<lparr>tenant := c\<rparr>) C (cc_prog cmd) (cc_token cmd) s = Inr (econ, sub)"
      using booked(3) gates_frame by metis
    with assms [of C "cc_prog cmd"] show ?thesis by auto
  qed simp
qed

text \<open>The register after a request: the subscriber behind the token has an active exclusion, the first in the register.\<close>

lemma live_after_status:
  "GetLiveByToken E token s = Inr sub \<Longrightarrow> subs t = upd_where p (\<lambda>r. r\<lparr>sub_status := st\<rparr>) (subs s) \<Longrightarrow>
   \<exists>sub'. GetLiveByToken E token t = Inr sub' \<and> sub_id sub' = sub_id sub"
  by (auto simp: GetLiveByToken_def queryRow_Inr find_upd_where)

lemma find_append_one: "\<forall>q \<in> set xs. \<not> p q \<Longrightarrow> p x \<Longrightarrow> List.find p (xs @ [x]) = Some x"
  by (induction xs) auto

lemma exclude_tx_active:
  assumes "exclude_tx token channel reason until E s = Inr (r, s')"
  obtains sub ex where "GetLiveByToken E token s' = Inr sub" "GetActiveBySubscriber E (sub_id sub) s' = Some ex"
    "MinUntil ex = sr_until r" "sr_already r \<or> sr_until r = until"
proof -
  from assms obtain sub where sub: "GetLiveByToken E token s = Inr sub" by (auto simp: exclude_tx_def andThen_Inr_iff)
  show ?thesis
  proof (cases "GetActiveBySubscriber E (sub_id sub) s")
    case (Some ex)
    with assms sub have "s' = s" "r = \<lparr>sr_id = ExclusionID ex, sr_until = MinUntil ex, sr_already = True\<rparr>"
      by (auto simp: exclude_tx_def)
    with that sub Some show ?thesis by simp
  next
    case None
    let ?e = "\<lparr>ExclusionID = new_id E ''sxc'' (next_id s), SxcTelcoID = sub_telco sub, SxcSubscriberID = sub_id sub,
            SxcState = [], SxcChannel = channel, SxcReason = reason, SxcRequestedAt = zero_time, MinUntil = until\<rparr>"
    from assms sub None obtain s1 s2 u where
      ins: "SelfExclusions_Insert E ?e (s\<lparr>next_id := Suc (next_id s)\<rparr>) = Inr s1"
      and st: "Subscribers_SetStatus E (sub_id sub) ''ACTIVE'' ''SELF_EXCLUDED'' s1 = Inr s2"
      and aud: "guardrail_audit E (sub_telco sub) (''channel:'' @ channel) ''subscriber.self_excluded''
            ''subscriber_account'' (sub_id sub) reason s2 = Inr (u, s')"
      and r: "sr_until r = until"
      unfolding exclude_tx_def by (auto simp: andThen_Inr_iff NewID_def Let_def)
    from SelfExclusions_Insert_Inr [OF ins] obtain x where s1: "s1 = s\<lparr>next_id := Suc (next_id s), selfexcls := selfexcls s @ [x]\<rparr>"
      and x: "sx_telco x = tenant E" "sx_sub x = sub_id sub" "sx_state x = ''ACTIVE''" "sx_until x = until"
      and no: "\<forall>q \<in> set (selfexcls s). sx_sub q = sub_id sub \<longrightarrow> sx_state q \<noteq> ''ACTIVE''" by auto
    obtain a where s': "s' = s2\<lparr>next_id := Suc (next_id s2), audit := audit s2 @ [a]\<rparr>" using guardrail_audit_Inr [OF aud] ..
    from st obtain p where s2: "s2 = s1\<lparr>subs := upd_where p (\<lambda>r. r\<lparr>sub_status := ''SELF_EXCLUDED''\<rparr>) (subs s1)\<rparr>"
      by (auto simp: Subscribers_SetStatus_Inr)
    have "subs s' = upd_where p (\<lambda>r. r\<lparr>sub_status := ''SELF_EXCLUDED''\<rparr>) (subs s)" by (simp add: s' s2 s1)
    from live_after_status [OF sub this] obtain sub' where sub': "GetLiveByToken E token s' = Inr sub'" "sub_id sub' = sub_id sub" by blast
    have "List.find (active_exclusion E (sub_id sub)) (selfexcls s') = Some x"
      unfolding s' s2 s1 by simp (rule find_append_one, use no x in \<open>auto simp: active_exclusion_def\<close>)
    then have "\<exists>ex. GetActiveBySubscriber E (sub_id sub) s' = Some ex \<and> MinUntil ex = until"
      using x by (simp add: GetActiveBySubscriber_def)
    with that sub' r show ?thesis by metis
  qed
qed

lemma GetLive_env: "GetLiveByToken (E\<lparr>tenant := c\<rparr>) token s = GetLiveByToken (E'\<lparr>tenant := c\<rparr>) token s"
  by (simp add: GetLiveByToken_def)

lemma GetActive_env: "GetActiveBySubscriber (E\<lparr>tenant := c\<rparr>) sub s = GetActiveBySubscriber (E'\<lparr>tenant := c\<rparr>) sub s"
  by (simp add: GetActiveBySubscriber_def active_exclusion_def [abs_def])

text \<open>C18: Self-exclusion bites at once and cannot be talked back before its time. After a request that was accepted, and
  until somebody changes the register: no offer is served to the token and no confirmation of it
  reaches the telco, at any time and under any configuration; and before the end of the cool-off a
  reinstatement is refused without effect. A new exclusion's cool-off is the configured number of days.\<close>

theorem self_exclusion_bites:
  assumes run: "RequestSelfExclusion E C c prog token channel reason s = (Inr r, s')"
  shows "(\<exists>e. GetOffers E2 C2 c prog2 token s' = (Inl e, s'))
    \<and> (cc_token cmd = token \<longrightarrow> confirm_start E2 C2 c cmd s' \<noteq> (Dialling adv att, t))
    \<and> (now E2 < sr_until r \<longrightarrow> (\<exists>e. ReinstateSelfExclusion E2 C2 c prog2 token channel2 s' = (Inl e, s')))
    \<and> (\<not> sr_already r \<longrightarrow> (\<exists>cfg. loadSelfExclusionCfg C prog = Inr cfg \<and> sr_until r = now E + MinExclusionDays cfg * day))"
proof -
  let ?E = "E\<lparr>tenant := c\<rparr>" and ?E2 = "E2\<lparr>tenant := c\<rparr>"
  from run obtain cfg where cfg: "loadSelfExclusionCfg C prog = Inr cfg" and c: "c \<noteq> ''''"
    and tx: "exclude_tx token channel reason (now E + MinExclusionDays cfg * day) ?E s = Inr (r, s')"
    by (auto simp: RequestSelfExclusion_def WithTenantTx_Inr split: sum.splits if_splits)
  obtain sub ex where sub: "GetLiveByToken ?E token s' = Inr sub" and ex: "GetActiveBySubscriber ?E (sub_id sub) s' = Some ex"
    and until: "MinUntil ex = sr_until r" and new: "sr_already r \<or> sr_until r = now E + MinExclusionDays cfg * day"
    using exclude_tx_active [OF tx] .
  have sub2: "GetLiveByToken ?E2 token s' = Inr sub" using sub GetLive_env by metis
  have ex2: "GetActiveBySubscriber ?E2 (sub_id sub) s' = Some ex" using ex GetActive_env by metis
  obtain x where "x \<in> set (selfexcls s')" "active_exclusion ?E2 (sub_id sub) x" using GetActive_Some [OF ex2] by blast
  from shut_gates [OF sub2 this] have shut: "lending_gates ?E2 C' prog' token s' \<notin> range Inr" for C' prog' .
  have "now E2 < sr_until r \<longrightarrow> (\<exists>e. ReinstateSelfExclusion E2 C2 c prog2 token channel2 s' = (Inl e, s'))"
    using sub2 ex2 until c
    by (auto simp: ReinstateSelfExclusion_def WithTenantTx_def TenantFrom_def reinstate_tx_def split: sum.splits)
  with excluded_offers [OF shut] excluded_confirm [where E = E2 and c = c and cmd = cmd and s = s'] shut new cfg show ?thesis by auto
qed

definition excluding :: "(err + SelfExclusionResult) \<times> db" where
  "excluding = RequestSelfExclusion sample_env sample_orig ''MTN_NG'' ''prg_1'' ''tok_1'' ''USSD'' ''break'' offered_db"

theorem self_exclusion_bites_witness:
  "\<exists>r s' e. excluding = (Inr r, s') \<and> sr_until r = 1000 + 30 * day
     \<and> GetOffers sample_env sample_orig ''MTN_NG'' ''prg_1'' ''tok_1'' s' = (Inl e, s')"
proof -
  have "(case fst excluding of Inr r \<Rightarrow> sr_until r = 1000 + 30 * day | Inl _ \<Rightarrow> False)" by code_simp
  then obtain r where "fst excluding = Inr r" and u: "sr_until r = 1000 + 30 * day" by (cases "fst excluding") simp_all
  then have run: "excluding = (Inr r, snd excluding)" by (metis prod.collapse)
  from self_exclusion_bites [OF run [unfolded excluding_def], of sample_env sample_orig "''prg_1''"] run u
  show ?thesis unfolding excluding_def by blast
qed

section \<open>A response that is not JSON\<close>

lemma Attempts_Resolve_garbage:
  "jsonb_in E b = None \<Longrightarrow> resolve_attempt E att f t ref (Some b) nxt s = Inl (Pg ''22P02'' ''invalid input syntax for type json'')"
  by (simp add: resolve_attempt_def Attempts_Resolve_def jsonb_param_def)

text \<open>C21: A telco answer whose body is not JSON never settles an advance. The adapter keeps the body of any answer
  it could read as the response evidence, and the attempts table holds evidence as JSONB: when the
  body does not parse - a rejection page, an empty body - the resolution of an open advance fails and
  rolls back, whatever the status code said, so the exposure stays held and a retry with the same
  answer fails the same way.\<close>

theorem unreadable_answer_never_settles:
  assumes "resp_err resp = None" and "jsonb_in E (resp_raw resp) = None"
    and "Advances_Get (E\<lparr>tenant := c\<rparr>) aid s = Inr adv" and "State adv = AdvPendingFulfilment \<or> State adv = AdvFulfilmentUnknown"
  shows "\<exists>e. ResolveOutcome E C c aid att (classify_submit E W resp res) s = (Inl e, s)"
proof -
  let ?E = "E\<lparr>tenant := c\<rparr>" and ?res = "classify_submit E W resp res"
  have ev: "ResponseEvidence ?res = Some (resp_raw resp)"
    using assms(1) by (auto simp: classify_submit_def wire_status_def Let_def split: sum.splits prod.splits)
  have g: "resolve_attempt ?E att f t ref (Some (resp_raw resp)) nxt s = Inl (Pg ''22P02'' ''invalid input syntax for type json'')"
    for f t ref nxt by (rule Attempts_Resolve_garbage) (simp add: assms(2))
  have "apply_outcome ?E C adv att ?res s \<notin> range Inr"
    by (cases "outcome ?res")
       (auto simp: apply_outcome_def outcome_confirmed_def outcome_failed_def outcome_unknown_def ev g andThen_Inr_iff)
  then have "resolveOutcomeTx C aid att ?res ?E s \<notin> range Inr"
    using assms(3,4) by (auto simp: resolveOutcomeTx_def andThen_Inr_iff)
  then show ?thesis
    by (auto simp: ResolveOutcome_def WithTenantTx_def TenantFrom_def split: sum.splits prod.splits)
qed

definition rejection_page :: http_resp where
  "rejection_page = \<lparr>StatusCode = 422, resp_raw = ''<html>'', resp_err = None\<rparr>"

theorem unreadable_answer_never_settles_witness:
  "\<forall>W. \<exists>e. ResolveOutcome sample_env sample_orig ''MTN_NG'' ''adv_4'' ''att_6''
     (classify_submit sample_env W rejection_page noResult) pending_db = (Inl e, pending_db)"
proof
  fix W
  have env: "sample_env\<lparr>tenant := ''MTN_NG''\<rparr> = sample_env" by (simp add: sample_env_def)
  have "(case Advances_Get sample_env ''adv_4'' pending_db of Inr a \<Rightarrow> State a = AdvPendingFulfilment | Inl _ \<Rightarrow> False)" by code_simp
  then obtain adv where a: "Advances_Get (sample_env\<lparr>tenant := ''MTN_NG''\<rparr>) ''adv_4'' pending_db = Inr adv" "State adv = AdvPendingFulfilment"
    unfolding env by (cases "Advances_Get sample_env ''adv_4'' pending_db") simp_all
  have r: "resp_err rejection_page = None" "jsonb_in sample_env (resp_raw rejection_page) = None"
    by (simp_all add: rejection_page_def sample_env_def)
  from unreadable_answer_never_settles [OF r a(1)] a(2)
  show "\<exists>e. ResolveOutcome sample_env sample_orig ''MTN_NG'' ''adv_4'' ''att_6''
     (classify_submit sample_env W rejection_page noResult) pending_db = (Inl e, pending_db)" by blast
qed

end
