(* ===== verification/Scoring.thy ===== *)
theory Scoring
  imports Money
begin

text \<open>
  The credit-decision engine of \<^verbatim>\<open>scoring/engine.go\<close> and the approval-time check of its
  policy, \<^verbatim>\<open>validateScoringPolicy\<close> of \<^verbatim>\<open>usecase/configsvc/validators_m2.go\<close>. Go's \<^verbatim>\<open>int\<close> and
  \<^verbatim>\<open>int64\<close> are 64-bit words; an index outside a slice is a panic. Instants are nanoseconds
  here, the resolution of \<^verbatim>\<open>time.Time\<close>, so that a duration wraps where Go's does; the
  rendering of an instant is a parameter. The lemmas show that a validated policy never
  makes the engine panic, which tier a subscriber gets, and that the arithmetic stays
  inside the 64-bit range.
\<close>

section \<open>Inputs, policies and decisions\<close>

record Features =
  TenureDays :: i64
  ActivityDays30d :: i64
  ActiveDays90d :: i64
  WeeklyRechargeMinor :: "i64 list"
  FeaturesCurrency :: string

record Gates =
  MinTenureDays :: i64
  BlockedStatuses :: "string list"
  RequireActivityDays :: i64

record Staleness =
  AcceptHours :: i64
  DegradeHours :: i64
  DegradeTierCap :: string

record AntiGaming =
  WindowDays :: i64
  WinsorUpperBps :: i64
  SpikeRatioMaxBps :: i64
  MinActiveDays :: i64
  SpikeAction :: string

record Tier =
  TierName :: string
  MaxFaceMinor :: i64
  MinRecharge90dMinor :: i64

record Policy =
  PolGates :: Gates
  PolStaleness :: Staleness
  MissingPolicy :: string
  PolAntiGaming :: AntiGaming
  Tiers :: "Tier list"
  StarterTier :: string
  OneTierUpMax :: i64
  DecisionValidHours :: i64

record Input =
  InFeatures :: Features
  QualityFlags :: "string list"
  FeatureContentHash :: string
  InPolicy :: Policy
  PolicyVersionID :: string
  SubscriberStatus :: string
  PriorTierCode :: string
  FeatureAsOf :: int
  ScoredAt :: int

record Decision =
  Eligible :: bool
  TierCode :: string
  DecMaxFaceMinor :: i64
  DecCurrency :: string
  ReasonCodes :: "string list"
  DecEngineVersion :: string
  DecPolicyVersionID :: string
  FeatureHash :: string
  DecFeatureAsOf :: string
  DecScoredAt :: string
  ValidUntil :: string
  StalenessOutcome :: string
  DecSubscriberStatus :: string
  DecPriorTierCode :: string

definition EngineVersion :: string where
  "EngineVersion = ''bx-score-1.2.0''"

definition maxSafeWeeklyMinor :: int where
  "maxSafeWeeklyMinor = (2 ^ 63 - 1) div 10000"

section \<open>Integer helpers\<close>

definition hasFlag :: "string list \<Rightarrow> string \<Rightarrow> bool" where
  "hasFlag flags want \<longleftrightarrow> want \<in> set flags"

fun tierIndex_from :: "int \<Rightarrow> Tier list \<Rightarrow> string \<Rightarrow> int" where
  "tierIndex_from i [] code = -1"
| "tierIndex_from i (t # ts) code = (if TierName t = code then i else tierIndex_from (i + 1) ts code)"

definition tierIndex :: "Tier list \<Rightarrow> string \<Rightarrow> int" where
  "tierIndex tiers code = tierIndex_from 0 tiers code"

text \<open>\<^verbatim>\<open>tiers[i]\<close>: an index outside the slice panics.\<close>

definition tier_at :: "Tier list \<Rightarrow> int \<Rightarrow> err + Tier" where
  "tier_at tiers i =
     (if 0 \<le> i \<and> i < int (length tiers) then Inr (tiers ! nat i) else Inl (Panic ''index out of range''))"

definition maxOf :: "i64 list \<Rightarrow> i64" where
  "maxOf v = foldl (\<lambda>m x. if sint x > sint m then x else m) (v ! 0) v"

definition percentileValue :: "i64 list \<Rightarrow> i64 \<Rightarrow> i64" where
  "percentileValue v bps =
     (let s = sort_key sint v;
          rank = quo (sint (bps * of_nat (length s) + 9999)) 10000;
          rank = (if rank < 1 then 1 else rank);
          rank = (if rank > int (length s) then int (length s) else rank)
      in s ! nat (rank - 1))"

definition medianValue :: "i64 list \<Rightarrow> i64" where
  "medianValue v = sort_key sint v ! ((length v - 1) div 2)"

text \<open>\<^verbatim>\<open>time.Duration(h) * time.Hour\<close> wraps; \<^verbatim>\<open>Time.Sub\<close> saturates.\<close>

definition hours :: "i64 \<Rightarrow> int" where
  "hours h = sint (h * 3600000000000)"

definition time_sub :: "int \<Rightarrow> int \<Rightarrow> int" where
  "time_sub a b = max (- (2 ^ 63)) (min (2 ^ 63 - 1) (a - b))"

text \<open>The zero value of \<^verbatim>\<open>time.Time\<close>: the first instant of year 1.\<close>

definition is_zero_time :: "int \<Rightarrow> bool" where
  "is_zero_time t \<longleftrightarrow> t = - 62135596800 * 1000000000"

section \<open>The engine\<close>

definition reason :: "string list \<Rightarrow> Decision \<Rightarrow> Decision" where
  "reason codes d = d\<lparr>ReasonCodes := ReasonCodes d @ codes\<rparr>"

definition starter :: "Input \<Rightarrow> Decision \<Rightarrow> string \<Rightarrow> err + Decision" where
  "starter inp d code =
     andThen (tier_at (Tiers (InPolicy inp)) (tierIndex (Tiers (InPolicy inp)) (StarterTier (InPolicy inp)))) (\<lambda>t.
     Inr (reason [code, ''STARTER_POLICY_'' @ TierName t]
       (d\<lparr>Eligible := True, TierCode := TierName t, DecMaxFaceMinor := MaxFaceMinor t\<rparr>)))"

text \<open>Winsorised window and spike detection.\<close>

definition spiky :: "AntiGaming \<Rightarrow> i64 list \<Rightarrow> bool" where
  "spiky ag weekly =
     (let med = medianValue weekly in
      if sint med > 0
      then quo (sint (maxOf weekly * 10000)) (sint med) > sint (SpikeRatioMaxBps ag)
      else sint (maxOf weekly) > 0)"

definition winsorised_total :: "i64 list \<Rightarrow> i64 \<Rightarrow> i64" where
  "winsorised_total weekly capValue =
     foldl (\<lambda>acc w. acc + (if sint w > sint capValue then capValue else w)) 0 weekly"

fun highest_tier :: "i64 \<Rightarrow> int \<Rightarrow> Tier list \<Rightarrow> int \<Rightarrow> int" where
  "highest_tier tot i [] target = target"
| "highest_tier tot i (t # ts) target =
     highest_tier tot (i + 1) ts (if sint tot \<ge> sint (MinRecharge90dMinor t) then i else target)"

definition assign_tier :: "Input \<Rightarrow> i64 \<Rightarrow> Decision \<Rightarrow> err + Decision" where
  "assign_tier inp total90 d =
     (let p = InPolicy inp;
          target = highest_tier total90 0 (Tiers p) (-1) in
      if target < 0 then starter inp d ''BELOW_LOWEST_TIER''
      else
        let prior = tierIndex (Tiers p) (PriorTierCode inp);
            upto = sint (word_of_int prior + OneTierUpMax p);
            capped = (prior \<ge> 0 \<and> target > upto);
            d = (if capped then reason [''TIER_MOVEMENT_CAPPED''] d else d);
            target = (if capped then upto else target);
            d = (if prior \<ge> 0 \<and> target < prior then reason [''TIER_DOWNGRADED''] d else d);
            capIdx = tierIndex (Tiers p) (DegradeTierCap (PolStaleness p));
            stale = (StalenessOutcome d = ''DEGRADED'' \<and> DegradeTierCap (PolStaleness p) \<noteq> ''''
                     \<and> capIdx \<ge> 0 \<and> target > capIdx);
            d = (if stale then reason [''STALE_TIER_CAPPED''] d else d);
            target = (if stale then capIdx else target)
        in andThen (tier_at (Tiers p) target) (\<lambda>t.
           Inr (reason [''RECHARGE_TIER_'' @ TierName t]
             (d\<lparr>Eligible := True, TierCode := TierName t, DecMaxFaceMinor := MaxFaceMinor t\<rparr>))))"

definition score_history :: "Input \<Rightarrow> Decision \<Rightarrow> err + Decision" where
  "score_history inp d =
     (let f = InFeatures inp; ag = PolAntiGaming (InPolicy inp) in
      if sint (TenureDays f) < sint (MinTenureDays (PolGates (InPolicy inp)))
      then starter inp d ''COLD_START_TENURE''
      else
        let d = reason [''TENURE_OK''] d in
        if hasFlag (QualityFlags inp) ''SHORT_HISTORY'' \<or> sint (ActiveDays90d f) < sint (MinActiveDays ag)
        then starter inp d ''COLD_START_THIN_FILE''
        else
          let weekly = WeeklyRechargeMinor f;
              total90 = winsorised_total weekly (percentileValue weekly (WinsorUpperBps ag)) in
          if spiky ag weekly then
            let d = reason [''SPIKE_PATTERN_DETECTED''] d in
            if SpikeAction ag = ''FLAG_ONLY'' then assign_tier inp total90 d
            else if SpikeAction ag = ''CAP_TO_STARTER'' then starter inp d ''SPIKE_CAPPED_TO_STARTER''
            else Inl (Fmt ''anti_gaming.spike_action is not implementable'')
          else assign_tier inp total90 d)"

definition score_gates :: "Input \<Rightarrow> Decision \<Rightarrow> err + Decision" where
  "score_gates inp d =
     (if SubscriberStatus inp \<in> set (BlockedStatuses (PolGates (InPolicy inp)))
      then Inr (reason [''BLOCKED_STATUS_'' @ SubscriberStatus inp] d)
      else if hasFlag (QualityFlags inp) ''MISSING_FIELDS'' then
        (if MissingPolicy (InPolicy inp) = ''REJECT'' then Inr (reason [''MISSING_DATA_REJECTED''] d)
         else if MissingPolicy (InPolicy inp) = ''STARTER'' then starter inp d ''MISSING_DATA_STARTER''
         else Inl (Fmt ''missing_policy is not implementable''))
      else score_history inp d)"

definition score_age :: "Input \<Rightarrow> Decision \<Rightarrow> err + Decision" where
  "score_age inp d =
     (let age = time_sub (ScoredAt inp) (FeatureAsOf inp); st = PolStaleness (InPolicy inp) in
      if age < 0 then Inr ((reason [''FEATURES_FUTURE_DATED_REJECTED''] d)\<lparr>StalenessOutcome := ''REJECTED''\<rparr>)
      else if age > hours (DegradeHours st)
      then Inr ((reason [''FEATURES_STALE_REJECTED''] d)\<lparr>StalenessOutcome := ''REJECTED''\<rparr>)
      else if age > hours (AcceptHours st)
      then score_gates inp (reason [''FEATURES_STALE_DEGRADED''] (d\<lparr>StalenessOutcome := ''DEGRADED''\<rparr>))
      else score_gates inp (d\<lparr>StalenessOutcome := ''FRESH''\<rparr>))"

definition base_decision :: "(int \<Rightarrow> string) \<Rightarrow> Input \<Rightarrow> Decision" where
  "base_decision rfc3339 inp =
     \<lparr>Eligible = False, TierCode = '''', DecMaxFaceMinor = 0, DecCurrency = FeaturesCurrency (InFeatures inp),
      ReasonCodes = [], DecEngineVersion = EngineVersion, DecPolicyVersionID = PolicyVersionID inp,
      FeatureHash = FeatureContentHash inp, DecFeatureAsOf = rfc3339 (FeatureAsOf inp),
      DecScoredAt = rfc3339 (ScoredAt inp),
      ValidUntil = rfc3339 (ScoredAt inp + hours (DecisionValidHours (InPolicy inp))),
      StalenessOutcome = '''', DecSubscriberStatus = SubscriberStatus inp, DecPriorTierCode = PriorTierCode inp\<rparr>"

definition Score :: "(int \<Rightarrow> string) \<Rightarrow> Input \<Rightarrow> err + Decision" where
  "Score rfc3339 inp =
     (if length (WeeklyRechargeMinor (InFeatures inp)) \<noteq> 13
      then Inl (Fmt ''features must carry exactly 13 weekly totals'')
      else if Tiers (InPolicy inp) = [] \<or> PolicyVersionID inp = ''''
      then Inl (Fmt ''policy with tiers and a version id is required'')
      else if is_zero_time (ScoredAt inp) \<or> is_zero_time (FeatureAsOf inp)
      then Inl (Fmt ''scored_at and feature_as_of are required'')
      else if list_ex (\<lambda>w. sint w < 0 \<or> sint w > maxSafeWeeklyMinor) (WeeklyRechargeMinor (InFeatures inp))
      then Inl (Fmt ''weekly_recharge_minor outside engine-safe range'')
      else score_age inp (base_decision rfc3339 inp))"

section \<open>The approval-time check of the policy\<close>

text \<open>
  The document as \<^verbatim>\<open>strictUnmarshal\<close> reads it: every pointer field may be absent. The engine
  reads the same document into its own type, where an absent field is the zero value.
\<close>

record GatesDoc =
  gd_tenure :: "i64 option"
  gd_blocked :: "string list"
  gd_activity :: "i64 option"

record StalenessDoc =
  sd_accept :: "i64 option"
  sd_degrade :: "i64 option"
  sd_cap :: "string option"

record AntiGamingDoc =
  ad_window :: "i64 option"
  ad_winsor :: "i64 option"
  ad_spike :: "i64 option"
  ad_min_active :: "i64 option"
  ad_action :: "string option"

record TierDoc =
  td_code :: "string option"
  td_face :: "i64 option"
  td_recharge :: "i64 option"

record PolicyDoc =
  pd_gates :: "GatesDoc option"
  pd_stale :: "StalenessDoc option"
  pd_missing :: "string option"
  pd_gaming :: "AntiGamingDoc option"
  pd_tiers :: "TierDoc list"
  pd_starter :: "string option"
  pd_up :: "i64 option"
  pd_valid :: "i64 option"

definition or_zero :: "i64 option \<Rightarrow> i64" where
  "or_zero x = (case x of None \<Rightarrow> 0 | Some v \<Rightarrow> v)"

definition or_empty :: "string option \<Rightarrow> string" where
  "or_empty x = (case x of None \<Rightarrow> '''' | Some v \<Rightarrow> v)"

definition tier_of :: "TierDoc \<Rightarrow> Tier" where
  "tier_of t = \<lparr>TierName = or_empty (td_code t), MaxFaceMinor = or_zero (td_face t),
                MinRecharge90dMinor = or_zero (td_recharge t)\<rparr>"

definition policy_of :: "PolicyDoc \<Rightarrow> Policy" where
  "policy_of v =
     \<lparr>PolGates = (case pd_gates v of
          None \<Rightarrow> \<lparr>MinTenureDays = 0, BlockedStatuses = [], RequireActivityDays = 0\<rparr>
        | Some g \<Rightarrow> \<lparr>MinTenureDays = or_zero (gd_tenure g), BlockedStatuses = gd_blocked g,
                     RequireActivityDays = or_zero (gd_activity g)\<rparr>),
      PolStaleness = (case pd_stale v of
          None \<Rightarrow> \<lparr>AcceptHours = 0, DegradeHours = 0, DegradeTierCap = ''''\<rparr>
        | Some t \<Rightarrow> \<lparr>AcceptHours = or_zero (sd_accept t), DegradeHours = or_zero (sd_degrade t),
                     DegradeTierCap = or_empty (sd_cap t)\<rparr>),
      MissingPolicy = or_empty (pd_missing v),
      PolAntiGaming = (case pd_gaming v of
          None \<Rightarrow> \<lparr>WindowDays = 0, WinsorUpperBps = 0, SpikeRatioMaxBps = 0, MinActiveDays = 0, SpikeAction = ''''\<rparr>
        | Some a \<Rightarrow> \<lparr>WindowDays = or_zero (ad_window a), WinsorUpperBps = or_zero (ad_winsor a),
                     SpikeRatioMaxBps = or_zero (ad_spike a), MinActiveDays = or_zero (ad_min_active a),
                     SpikeAction = or_empty (ad_action a)\<rparr>),
      Tiers = map tier_of (pd_tiers v),
      StarterTier = or_empty (pd_starter v),
      OneTierUpMax = or_zero (pd_up v),
      DecisionValidHours = or_zero (pd_valid v)\<rparr>"

text \<open>A required number: absent, or refused by the test.\<close>

definition required :: "i64 option \<Rightarrow> (int \<Rightarrow> bool) \<Rightarrow> bool" where
  "required x ok = (case x of None \<Rightarrow> False | Some w \<Rightarrow> ok (sint w))"

fun validate_tiers :: "bool \<Rightarrow> string set \<Rightarrow> i64 \<Rightarrow> i64 \<Rightarrow> TierDoc list \<Rightarrow> err + string set" where
  "validate_tiers first seen prevFace prevRecharge [] = Inr seen"
| "validate_tiers first seen prevFace prevRecharge (t # ts) =
     (case td_code t of
        None \<Rightarrow> Inl (Fmt ''tiers: code is required'')
      | Some code \<Rightarrow>
          if code = '''' then Inl (Fmt ''tiers: code is required'')
          else if code \<in> seen then Inl (Fmt ''tiers: duplicate code'')
          else if \<not> required (td_face t) (\<lambda>x. x > 0) then Inl (Fmt ''tiers: max_face_minor must be > 0'')
          else if \<not> required (td_recharge t) (\<lambda>x. x \<ge> 0) then Inl (Fmt ''tiers: min_recharge_90d_minor must be >= 0'')
          else if \<not> first \<and> (sint (or_zero (td_face t)) \<le> sint prevFace \<or> sint (or_zero (td_recharge t)) \<le> sint prevRecharge)
          then Inl (Fmt ''tiers: ladder must be strictly ascending'')
          else validate_tiers False (insert code seen) (or_zero (td_face t)) (or_zero (td_recharge t)) ts)"

definition validateScoringPolicy :: "PolicyDoc \<Rightarrow> err + unit" where
  "validateScoringPolicy v =
     (case pd_gates v of None \<Rightarrow> Inl (Fmt ''gates.min_tenure_days'') | Some g \<Rightarrow>
      if \<not> required (gd_tenure g) (\<lambda>x. x \<ge> 0) then Inl (Fmt ''gates.min_tenure_days'')
      else case pd_stale v of None \<Rightarrow> Inl (Fmt ''staleness'') | Some st \<Rightarrow>
      if sd_accept st = None \<or> sd_degrade st = None then Inl (Fmt ''staleness'')
      else if sint (or_zero (sd_accept st)) \<le> 0 \<or> sint (or_zero (sd_degrade st)) < sint (or_zero (sd_accept st))
      then Inl (Fmt ''staleness windows'')
      else if pd_missing v \<noteq> Some ''REJECT'' \<and> pd_missing v \<noteq> Some ''STARTER'' then Inl (Fmt ''missing_policy'')
      else case pd_gaming v of None \<Rightarrow> Inl (Fmt ''anti_gaming is required'') | Some ag \<Rightarrow>
      if \<not> required (ad_window ag) (\<lambda>x. x > 0) then Inl (Fmt ''anti_gaming.window_days'')
      else if \<not> required (ad_winsor ag) (\<lambda>x. 0 < x \<and> x \<le> 9230) then Inl (Fmt ''anti_gaming.winsor_upper_bps'')
      else if \<not> required (ad_spike ag) (\<lambda>x. x \<ge> 10000) then Inl (Fmt ''anti_gaming.spike_ratio_max_bps'')
      else if \<not> required (ad_min_active ag) (\<lambda>x. 0 \<le> x \<and> x \<le> sint (or_zero (ad_window ag)))
      then Inl (Fmt ''anti_gaming.min_active_days'')
      else if ad_action ag \<noteq> Some ''FLAG_ONLY'' \<and> ad_action ag \<noteq> Some ''CAP_TO_STARTER''
      then Inl (Fmt ''anti_gaming.spike_action'')
      else if pd_tiers v = [] then Inl (Fmt ''tiers must be non-empty'')
      else andThen (validate_tiers True {} 0 0 (pd_tiers v)) (\<lambda>seen.
        if pd_starter v = None \<or> or_empty (pd_starter v) \<notin> seen then Inl (Fmt ''starter_tier'')
        else if sd_cap st \<noteq> None \<and> or_empty (sd_cap st) \<notin> seen then Inl (Fmt ''staleness.degrade_tier_cap'')
        else if \<not> required (pd_up v) (\<lambda>x. x \<ge> 1) then Inl (Fmt ''one_tier_up_max'')
        else if \<not> required (pd_valid v) (\<lambda>x. x > 0) then Inl (Fmt ''decision_valid_hours'')
        else Inr ()))"

section \<open>Policies that passed the check\<close>

definition names :: "Tier list \<Rightarrow> string list" where
  "names = map TierName"

definition valid_policy :: "Policy \<Rightarrow> bool" where
  "valid_policy p \<longleftrightarrow>
     Tiers p \<noteq> [] \<and> distinct (names (Tiers p)) \<and> '''' \<notin> set (names (Tiers p)) \<and> StarterTier p \<in> set (names (Tiers p))
     \<and> (DegradeTierCap (PolStaleness p) = '''' \<or> DegradeTierCap (PolStaleness p) \<in> set (names (Tiers p)))
     \<and> list_all (\<lambda>t. 0 < sint (MaxFaceMinor t)) (Tiers p)
     \<and> sorted_wrt (\<lambda>t u. sint (MaxFaceMinor t) < sint (MaxFaceMinor u)
                        \<and> sint (MinRecharge90dMinor t) < sint (MinRecharge90dMinor u)) (Tiers p)
     \<and> 0 < sint (WinsorUpperBps (PolAntiGaming p)) \<and> sint (WinsorUpperBps (PolAntiGaming p)) \<le> 9230
     \<and> MissingPolicy p \<in> {''REJECT'', ''STARTER''}
     \<and> SpikeAction (PolAntiGaming p) \<in> {''FLAG_ONLY'', ''CAP_TO_STARTER''}
     \<and> 1 \<le> sint (OneTierUpMax p)"

lemma requiredE:
  assumes "required x ok"
  obtains w where "x = Some w" "ok (sint w)"
  using assms by (auto simp: required_def split: option.splits)

lemma required_or_zero: "required x ok \<Longrightarrow> ok (sint (or_zero x))"
  by (auto simp: required_def or_zero_def split: option.splits)

text \<open>Each accepted tier is above its predecessor, hence above every earlier one.\<close>

lemma validate_tiers_sound:
  assumes "validate_tiers first seen pf pr ts = Inr seen'"
  shows "seen' = seen \<union> set (names (map tier_of ts))"
    and "distinct (names (map tier_of ts)) \<and> set (names (map tier_of ts)) \<inter> seen = {} \<and> '''' \<notin> set (names (map tier_of ts))"
    and "list_all (\<lambda>t. 0 < sint (MaxFaceMinor t)) (map tier_of ts)"
    and "\<not> first \<Longrightarrow> list_all (\<lambda>u. sint pf < sint (MaxFaceMinor u) \<and> sint pr < sint (MinRecharge90dMinor u)) (map tier_of ts)"
    and "sorted_wrt (\<lambda>t u. sint (MaxFaceMinor t) < sint (MaxFaceMinor u)
            \<and> sint (MinRecharge90dMinor t) < sint (MinRecharge90dMinor u)) (map tier_of ts)"
proof -
  have "seen' = seen \<union> set (names (map tier_of ts))
    \<and> (distinct (names (map tier_of ts)) \<and> set (names (map tier_of ts)) \<inter> seen = {} \<and> '''' \<notin> set (names (map tier_of ts)))
    \<and> list_all (\<lambda>t. 0 < sint (MaxFaceMinor t)) (map tier_of ts)
    \<and> (\<not> first \<longrightarrow> list_all (\<lambda>u. sint pf < sint (MaxFaceMinor u) \<and> sint pr < sint (MinRecharge90dMinor u)) (map tier_of ts))
    \<and> sorted_wrt (\<lambda>t u. sint (MaxFaceMinor t) < sint (MaxFaceMinor u)
            \<and> sint (MinRecharge90dMinor t) < sint (MinRecharge90dMinor u)) (map tier_of ts)"
    using assms
  proof (induction ts arbitrary: first seen pf pr)
    case (Cons t ts)
    from Cons.prems obtain code where c: "td_code t = Some code" "code \<noteq> ''''" "code \<notin> seen"
      and face: "required (td_face t) (\<lambda>x. x > 0)"
      and up: "\<not> first \<Longrightarrow> sint pf < sint (or_zero (td_face t)) \<and> sint pr < sint (or_zero (td_recharge t))"
      and rest: "validate_tiers False (insert code seen) (or_zero (td_face t)) (or_zero (td_recharge t)) ts = Inr seen'"
      by (auto split: option.splits if_splits)
    have t: "TierName (tier_of t) = code" "MaxFaceMinor (tier_of t) = or_zero (td_face t)"
        "MinRecharge90dMinor (tier_of t) = or_zero (td_recharge t)"
      using c by (simp_all add: tier_of_def or_empty_def)
    from Cons.IH [OF rest] c t up required_or_zero [OF face] show ?case
      by (fastforce simp: names_def list_all_iff)
  qed (simp add: names_def)
  then show "seen' = seen \<union> set (names (map tier_of ts))"
    and "distinct (names (map tier_of ts)) \<and> set (names (map tier_of ts)) \<inter> seen = {} \<and> '''' \<notin> set (names (map tier_of ts))"
    and "list_all (\<lambda>t. 0 < sint (MaxFaceMinor t)) (map tier_of ts)"
    and "\<not> first \<Longrightarrow> list_all (\<lambda>u. sint pf < sint (MaxFaceMinor u) \<and> sint pr < sint (MinRecharge90dMinor u)) (map tier_of ts)"
    and "sorted_wrt (\<lambda>t u. sint (MaxFaceMinor t) < sint (MaxFaceMinor u)
            \<and> sint (MinRecharge90dMinor t) < sint (MinRecharge90dMinor u)) (map tier_of ts)"
    by blast+
qed

lemma validated: 
  assumes "validateScoringPolicy v = Inr ()"
  shows "valid_policy (policy_of v)"
proof -
  from assms obtain g st ag seen where parts: "pd_gates v = Some g" "pd_stale v = Some st" "pd_gaming v = Some ag"
    and missing: "pd_missing v = Some ''REJECT'' \<or> pd_missing v = Some ''STARTER''"
    and winsor: "required (ad_winsor ag) (\<lambda>x. 0 < x \<and> x \<le> 9230)"
    and action: "ad_action ag = Some ''FLAG_ONLY'' \<or> ad_action ag = Some ''CAP_TO_STARTER''"
    and tiers: "pd_tiers v \<noteq> []" "validate_tiers True {} 0 0 (pd_tiers v) = Inr seen"
    and seen: "or_empty (pd_starter v) \<in> seen" "sd_cap st = None \<or> or_empty (sd_cap st) \<in> seen"
    and up: "required (pd_up v) (\<lambda>x. x \<ge> 1)"
    unfolding validateScoringPolicy_def
    by (auto simp: andThen_Inr_iff split: option.splits if_splits)
  note t = validate_tiers_sound [OF tiers(2), simplified]
  have "seen = set (names (map tier_of (pd_tiers v)))" by (rule t(1))
  with parts missing action tiers(1) seen t required_or_zero [OF winsor] required_or_zero [OF up] show ?thesis
    by (auto simp: valid_policy_def policy_of_def or_empty_def)
qed

section \<open>Positions in the ladder\<close>

lemma tierIndex_from_cases:
  "tierIndex_from i ts code = -1 \<and> code \<notin> set (names ts)
   \<or> (\<exists>k < length ts. tierIndex_from i ts code = i + int k \<and> TierName (ts ! k) = code)"
proof (induction ts arbitrary: i)
  case (Cons t ts)
  show ?case
  proof (cases "TierName t = code")
    case False
    from Cons.IH [of "i + 1"] show ?thesis
    proof
      assume "\<exists>k<length ts. tierIndex_from (i + 1) ts code = i + 1 + int k \<and> TierName (ts ! k) = code"
      then obtain k where "k < length ts" "tierIndex_from (i + 1) ts code = i + 1 + int k" "TierName (ts ! k) = code"
        by blast
      with False show ?thesis by (intro disjI2 exI [of _ "Suc k"]) simp
    qed (use False in \<open>simp add: names_def\<close>)
  qed (auto intro: exI [of _ 0])
qed (simp add: names_def)

lemma tierIndex_absent: "code \<notin> set (names ts) \<Longrightarrow> tierIndex ts code = -1"
  using tierIndex_from_cases [of 0 ts code] by (auto simp: tierIndex_def names_def)

lemma tierIndex_at:
  assumes "distinct (names ts)" "k < length ts"
  shows "tierIndex ts (TierName (ts ! k)) = int k"
proof -
  have "TierName (ts ! k) \<in> set (names ts)" using assms by (simp add: names_def)
  then obtain j where j: "j < length ts" "tierIndex ts (TierName (ts ! k)) = int j" "TierName (ts ! j) = TierName (ts ! k)"
    using tierIndex_from_cases [of 0 ts "TierName (ts ! k)"] by (auto simp: tierIndex_def)
  with assms have "j = k" using nth_eq_iff_index_eq [of "names ts" j k] by (simp add: names_def)
  with j show ?thesis by simp
qed

lemma tierIndex_range: "- 1 \<le> tierIndex ts code \<and> tierIndex ts code < int (length ts)"
  using tierIndex_from_cases [of 0 ts code] by (auto simp: tierIndex_def)

lemma highest_tier_cases:
  "highest_tier tot i ts tg = tg \<and> (\<forall>k < length ts. \<not> sint (MinRecharge90dMinor (ts ! k)) \<le> sint tot)
   \<or> (\<exists>k < length ts. highest_tier tot i ts tg = i + int k \<and> sint (MinRecharge90dMinor (ts ! k)) \<le> sint tot
        \<and> (\<forall>j < length ts. sint (MinRecharge90dMinor (ts ! j)) \<le> sint tot \<longrightarrow> j \<le> k))"
proof (induction ts arbitrary: i tg)
  case (Cons t ts)
  let ?tg = "if sint tot \<ge> sint (MinRecharge90dMinor t) then i else tg"
  from Cons.IH [of "i + 1" ?tg] show ?case
  proof
    assume none: "highest_tier tot (i + 1) ts ?tg = ?tg \<and> (\<forall>k<length ts. \<not> sint (MinRecharge90dMinor (ts ! k)) \<le> sint tot)"
    then have "\<And>j. j < length (t # ts) \<Longrightarrow> sint (MinRecharge90dMinor ((t # ts) ! j)) \<le> sint tot \<Longrightarrow> j = 0 \<and> sint (MinRecharge90dMinor t) \<le> sint tot"
      by (case_tac j) auto
    with none show ?thesis by (cases "sint tot \<ge> sint (MinRecharge90dMinor t)") (auto intro: exI [of _ 0])
  next
    assume "\<exists>k<length ts. highest_tier tot (i + 1) ts ?tg = i + 1 + int k \<and> sint (MinRecharge90dMinor (ts ! k)) \<le> sint tot
        \<and> (\<forall>j < length ts. sint (MinRecharge90dMinor (ts ! j)) \<le> sint tot \<longrightarrow> j \<le> k)"
    then obtain k where k: "k < length ts" "highest_tier tot (i + 1) ts ?tg = i + 1 + int k"
      "sint (MinRecharge90dMinor (ts ! k)) \<le> sint tot" "\<And>j. j < length ts \<Longrightarrow> sint (MinRecharge90dMinor (ts ! j)) \<le> sint tot \<Longrightarrow> j \<le> k"
      by blast
    have "\<And>j. j < length (t # ts) \<Longrightarrow> sint (MinRecharge90dMinor ((t # ts) ! j)) \<le> sint tot \<Longrightarrow> j \<le> Suc k"
      using k(4) by (case_tac j) auto
    with k show ?thesis by (intro disjI2 exI [of _ "Suc k"]) auto
  qed
qed simp

section \<open>Arithmetic stays in range\<close>

definition safe_weeks :: "i64 list \<Rightarrow> bool" where
  "safe_weeks ws \<longleftrightarrow> length ws = 13 \<and> (\<forall>w \<in> set ws. 0 \<le> sint w \<and> sint w \<le> maxSafeWeeklyMinor)"

lemma sort_key_sint_set [simp]: "set (sort_key sint (ws :: i64 list)) = set ws"
  by simp

lemma percentile_rank:
  assumes "0 < sint bps" "sint bps \<le> 9230" "length ws = 13"
  shows "\<exists>r < 12. percentileValue ws bps = sort_key sint ws ! r"
proof -
  have "sint (bps * 13 + 9999 :: i64) = sint bps * 13 + 9999"
    using assms by (simp add: i64_simps in_i64_def)
  moreover have "quo (sint bps * 13 + 9999) 10000 = (sint bps * 13 + 9999) div 10000"
    using assms by (simp add: quo_nonneg)
  moreover have "1 \<le> (sint bps * 13 + 9999) div 10000" "(sint bps * 13 + 9999) div 10000 \<le> 12"
    using assms by linarith+
  ultimately show ?thesis using assms(3)
    by (intro exI [of _ "nat ((sint bps * 13 + 9999) div 10000 - 1)"]) (simp add: percentileValue_def Let_def nat_less_iff)
qed

lemma percentile_in:
  assumes "0 < sint bps" "sint bps \<le> 9230" "length ws = 13"
  shows "percentileValue ws bps \<in> set ws"
proof -
  from percentile_rank [OF assms] obtain r where r: "r < 12" "percentileValue ws bps = sort_key sint ws ! r" by blast
  have "sort_key sint ws ! r \<in> set (sort_key sint ws)" using r(1) assms(3) by (intro nth_mem) simp
  with r(2) show ?thesis by simp
qed

lemma winsor_fold:
  fixes acc c :: i64
  assumes "\<forall>w \<in> set ws. 0 \<le> sint w \<and> sint w \<le> b" "0 \<le> sint acc" "sint acc + int (length ws) * b < 2 ^ 63"
    "0 \<le> sint c"
  shows "sint (foldl (\<lambda>acc w. acc + (if sint w > sint c then c else w)) acc ws)
         = sint acc + (\<Sum>w\<leftarrow>ws. min (sint w) (sint c))"
  using assms
proof (induction ws arbitrary: acc)
  case (Cons w ws)
  let ?v = "if sint w > sint c then c else w"
  have v: "sint ?v = min (sint w) (sint c)" by simp
  have b: "0 \<le> b" "min (sint w) (sint c) \<le> b" using Cons.prems by auto
  have len: "sint acc + b + int (length ws) * b < 2 ^ 63" using Cons.prems(3) by (simp add: algebra_simps)
  have nn: "0 \<le> int (length ws) * b" using b(1) by simp
  have sum: "sint (acc + ?v) = sint acc + min (sint w) (sint c)"
  proof -
    have "0 \<le> min (sint w) (sint c)" using Cons.prems by simp
    then have "in_i64 (sint acc + sint ?v)" unfolding v in_i64_def using Cons.prems(2) b len nn by linarith
    from sint_add_i64 [OF this] show ?thesis by (simp only: v)
  qed
  have "sint (foldl (\<lambda>acc w. acc + (if sint w > sint c then c else w)) (acc + ?v) ws)
        = sint (acc + ?v) + (\<Sum>w\<leftarrow>ws. min (sint w) (sint c))"
    using Cons.prems b len sum by (intro Cons.IH) auto
  with sum show ?case by simp
qed simp

text \<open>The window's winsorised total is the integer sum, with no wrap-around.\<close>

lemma winsorised_total_exact:
  assumes "safe_weeks ws" "c \<in> set ws"
  shows "sint (winsorised_total ws c) = (\<Sum>w\<leftarrow>ws. min (sint w) (sint c))"
  using winsor_fold [of ws maxSafeWeeklyMinor 0 c] assms
  by (simp add: winsorised_total_def safe_weeks_def maxSafeWeeklyMinor_def)

section \<open>What the engine decides\<close>

lemma tier_at_nth: "k < length ts \<Longrightarrow> tier_at ts (int k) = Inr (ts ! k)"
  by (simp add: tier_at_def)

lemma reason_simps [simp]:
  "Eligible (reason c d) = Eligible d" "TierCode (reason c d) = TierCode d"
  "DecMaxFaceMinor (reason c d) = DecMaxFaceMinor d" "StalenessOutcome (reason c d) = StalenessOutcome d"
  by (simp_all add: reason_def)

definition grants :: "Tier \<Rightarrow> Decision \<Rightarrow> bool" where
  "grants t d \<longleftrightarrow> Eligible d \<and> TierCode d = TierName t \<and> DecMaxFaceMinor d = MaxFaceMinor t"

definition starter_tier :: "Policy \<Rightarrow> Tier" where
  "starter_tier p = Tiers p ! nat (tierIndex (Tiers p) (StarterTier p))"

lemma starter_position:
  assumes "valid_policy p"
  obtains k where "k < length (Tiers p)" "TierName (Tiers p ! k) = StarterTier p" "tierIndex (Tiers p) (StarterTier p) = int k"
proof -
  from assms have "StarterTier p \<in> set (names (Tiers p))" by (simp add: valid_policy_def)
  then show thesis using tierIndex_from_cases [of 0 "Tiers p" "StarterTier p"] that by (auto simp: tierIndex_def)
qed

lemma starter_grants:
  assumes "valid_policy (InPolicy inp)"
  shows "\<exists>d'. starter inp d code = Inr d' \<and> grants (starter_tier (InPolicy inp)) d'"
    and "starter_tier (InPolicy inp) \<in> set (Tiers (InPolicy inp))"
    and "TierName (starter_tier (InPolicy inp)) = StarterTier (InPolicy inp)"
proof -
  obtain k where k: "k < length (Tiers (InPolicy inp))" "TierName (Tiers (InPolicy inp) ! k) = StarterTier (InPolicy inp)"
    "tierIndex (Tiers (InPolicy inp)) (StarterTier (InPolicy inp)) = int k"
    by (rule starter_position [OF assms])
  from k show "\<exists>d'. starter inp d code = Inr d' \<and> grants (starter_tier (InPolicy inp)) d'"
    by (simp add: starter_def tier_at_nth grants_def starter_tier_def)
  from k show "starter_tier (InPolicy inp) \<in> set (Tiers (InPolicy inp))"
    and "TierName (starter_tier (InPolicy inp)) = StarterTier (InPolicy inp)"
    by (simp_all add: starter_tier_def)
qed

text \<open>
  The reference rule of the ladder: the highest tier whose threshold the window clears,
  lowered to the movement limit above the prior tier and, for stale data, to the configured
  cap; the starter tier when no threshold is cleared.
\<close>

definition ladder_caps :: "Policy \<Rightarrow> string \<Rightarrow> bool \<Rightarrow> nat set" where
  "ladder_caps p prior degraded =
     {j + nat (sint (OneTierUpMax p)) |j. j < length (Tiers p) \<and> TierName (Tiers p ! j) = prior}
     \<union> {c. degraded \<and> c < length (Tiers p) \<and> TierName (Tiers p ! c) = DegradeTierCap (PolStaleness p)}"

definition ladder_tier :: "Policy \<Rightarrow> string \<Rightarrow> bool \<Rightarrow> int \<Rightarrow> Tier" where
  "ladder_tier p prior degraded window =
     (let cleared = {k. k < length (Tiers p) \<and> sint (MinRecharge90dMinor (Tiers p ! k)) \<le> window} in
      if cleared = {} then starter_tier p
      else Tiers p ! Min (insert (Max cleared) (ladder_caps p prior degraded)))"

lemma positions:
  assumes "distinct (names ts)"
  shows "{j. j < length ts \<and> TierName (ts ! j) = code}
         = (if tierIndex ts code < 0 then {} else {nat (tierIndex ts code)})"
proof (cases "code \<in> set (names ts)")
  case True
  then obtain k where k: "k < length ts" "code = TierName (ts ! k)" by (auto simp: names_def in_set_conv_nth)
  have "{j. j < length ts \<and> TierName (ts ! j) = code} = {k}"
    using nth_eq_iff_index_eq [OF assms] k by (auto simp: names_def)
  with tierIndex_at [OF assms k(1)] k(2) show ?thesis by simp
next
  case False
  then have "{j. j < length ts \<and> TierName (ts ! j) = code} = {}" by (auto simp: names_def)
  with tierIndex_absent [OF False] show ?thesis by simp
qed

lemma ladder_caps_eq:
  assumes "valid_policy p"
  shows "ladder_caps p prior degraded =
    (let i = tierIndex (Tiers p) prior; c = tierIndex (Tiers p) (DegradeTierCap (PolStaleness p)) in
     (if i < 0 then {} else {nat i + nat (sint (OneTierUpMax p))}) \<union> (if \<not> degraded \<or> c < 0 then {} else {nat c}))"
proof -
  from assms have d: "distinct (names (Tiers p))" by (simp add: valid_policy_def)
  have "{j + nat (sint (OneTierUpMax p)) |j. j < length (Tiers p) \<and> TierName (Tiers p ! j) = prior}
        = (\<lambda>j. j + nat (sint (OneTierUpMax p))) ` {j. j < length (Tiers p) \<and> TierName (Tiers p ! j) = prior}"
    by blast
  moreover have "{c. degraded \<and> c < length (Tiers p) \<and> TierName (Tiers p ! c) = DegradeTierCap (PolStaleness p)}
        = (if degraded then {c. c < length (Tiers p) \<and> TierName (Tiers p ! c) = DegradeTierCap (PolStaleness p)} else {})"
    by simp
  ultimately show ?thesis unfolding ladder_caps_def by (simp only: positions [OF d]) (simp add: Let_def)
qed

lemma cleared_Max:
  assumes "k < length ts" "sint (MinRecharge90dMinor (ts ! k)) \<le> w"
    "\<And>j. j < length ts \<Longrightarrow> sint (MinRecharge90dMinor (ts ! j)) \<le> w \<Longrightarrow> j \<le> k"
  shows "Max {k. k < length ts \<and> sint (MinRecharge90dMinor (ts ! k)) \<le> w} = k"
    and "{k. k < length ts \<and> sint (MinRecharge90dMinor (ts ! k)) \<le> w} \<noteq> {}"
  using assms by (auto intro!: Max_eqI)

lemma assign_tier_exact:
  fixes d :: Decision and tot :: i64
  assumes v: "valid_policy p" and p: "p = InPolicy inp" and up: "sint (OneTierUpMax p) + int (length (Tiers p)) < 2 ^ 63"
  defines "t \<equiv> ladder_tier p (PriorTierCode inp) (StalenessOutcome d = ''DEGRADED'') (sint tot)"
  shows "\<exists>d'. assign_tier inp tot d = Inr d' \<and> grants t d'" and "t \<in> set (Tiers p)"
proof -
  let ?ts = "Tiers p" let ?cap = "DegradeTierCap (PolStaleness p)"
  have "(\<exists>d'. assign_tier inp tot d = Inr d' \<and> grants t d') \<and> t \<in> set (Tiers p)"
    using highest_tier_cases [of tot 0 ?ts "-1"]
  proof
    assume none: "highest_tier tot 0 ?ts (-1) = -1 \<and> (\<forall>k<length ?ts. \<not> sint (MinRecharge90dMinor (?ts ! k)) \<le> sint tot)"
    then have t: "t = starter_tier p" unfolding t_def by (simp add: ladder_tier_def)
    show ?thesis unfolding t using none starter_grants [of inp] v p by (simp add: assign_tier_def)
  next
    assume "\<exists>k<length ?ts. highest_tier tot 0 ?ts (-1) = 0 + int k \<and> sint (MinRecharge90dMinor (?ts ! k)) \<le> sint tot
        \<and> (\<forall>j < length ?ts. sint (MinRecharge90dMinor (?ts ! j)) \<le> sint tot \<longrightarrow> j \<le> k)"
    then obtain k where k: "k < length ?ts" "highest_tier tot 0 ?ts (-1) = int k" "sint (MinRecharge90dMinor (?ts ! k)) \<le> sint tot"
      and top: "\<And>j. j < length ?ts \<Longrightarrow> sint (MinRecharge90dMinor (?ts ! j)) \<le> sint tot \<Longrightarrow> j \<le> k" by auto
    define i where "i = tierIndex ?ts (PriorTierCode inp)"
    define c where "c = tierIndex ?ts ?cap"
    define m where "m = Min (insert k (ladder_caps p (PriorTierCode inp) (StalenessOutcome d = ''DEGRADED'')))"
    note cleared = cleared_Max [OF k(1,3)]
    have t: "t = ?ts ! m"
      unfolding t_def ladder_tier_def m_def Let_def using cleared top by (simp only: if_False)
    have i: "- 1 \<le> i" "i < int (length ?ts)" and c: "- 1 \<le> c" "c < int (length ?ts)"
      unfolding i_def c_def using tierIndex_range by blast+
    have up1: "1 \<le> sint (OneTierUpMax p)" using v by (simp add: valid_policy_def)
    have cap: "?cap = '''' \<Longrightarrow> c = -1" using v tierIndex_absent [of "''''" ?ts] by (simp add: valid_policy_def c_def)
    have upto: "sint (word_of_int i + OneTierUpMax p) = i + sint (OneTierUpMax p)"
    proof -
      have "sint (word_of_int i :: i64) = i" using i up up1 by (intro sint_of_int_i64) (simp add: in_i64_def)
      moreover have "in_i64 (i + sint (OneTierUpMax p))" using i up up1 by (simp add: in_i64_def)
      ultimately show ?thesis by (metis sint_add_i64)
    qed
    have m: "int m = (let a = (if i \<ge> 0 \<and> int k > i + sint (OneTierUpMax p) then i + sint (OneTierUpMax p) else int k) in
        if StalenessOutcome d = ''DEGRADED'' \<and> ?cap \<noteq> '''' \<and> c \<ge> 0 \<and> a > c then c else a)"
      unfolding m_def ladder_caps_eq [OF v] Let_def i_def [symmetric] c_def [symmetric]
      using i c up1 cap by (auto simp: min_def)
    have "m \<le> k" unfolding m_def by (rule Min_le) (auto simp: ladder_caps_eq [OF v] Let_def)
    with k(1) have lt: "m < length ?ts" by simp
    have "\<exists>d'. assign_tier inp tot d = Inr d' \<and> grants (?ts ! m) d'"
      unfolding assign_tier_def Let_def p [symmetric] k(2) i_def [symmetric] c_def [symmetric] upto
      using m [unfolded Let_def] tier_at_nth [OF lt]
      by (auto simp: grants_def split: if_splits)
    with lt t show ?thesis by simp
  qed
  then show "\<exists>d'. assign_tier inp tot d = Inr d' \<and> grants t d'" and "t \<in> set (Tiers p)" by blast+
qed

text \<open>An input that meets the engine's contract.\<close>

definition scorable :: "Input \<Rightarrow> bool" where
  "scorable inp \<longleftrightarrow> safe_weeks (WeeklyRechargeMinor (InFeatures inp)) \<and> PolicyVersionID inp \<noteq> ''''
     \<and> \<not> is_zero_time (ScoredAt inp) \<and> \<not> is_zero_time (FeatureAsOf inp)"

definition data_age :: "Input \<Rightarrow> int" where
  "data_age inp = time_sub (ScoredAt inp) (FeatureAsOf inp)"

definition refused :: "Input \<Rightarrow> bool" where
  "refused inp \<longleftrightarrow> data_age inp < 0 \<or> hours (DegradeHours (PolStaleness (InPolicy inp))) < data_age inp
     \<or> SubscriberStatus inp \<in> set (BlockedStatuses (PolGates (InPolicy inp)))
     \<or> ''MISSING_FIELDS'' \<in> set (QualityFlags inp) \<and> MissingPolicy (InPolicy inp) = ''REJECT''"

definition cold_start :: "Input \<Rightarrow> bool" where
  "cold_start inp \<longleftrightarrow> ''MISSING_FIELDS'' \<in> set (QualityFlags inp) \<or> ''SHORT_HISTORY'' \<in> set (QualityFlags inp)
     \<or> sint (TenureDays (InFeatures inp)) < sint (MinTenureDays (PolGates (InPolicy inp)))
     \<or> sint (ActiveDays90d (InFeatures inp)) < sint (MinActiveDays (PolAntiGaming (InPolicy inp)))
     \<or> spiky (PolAntiGaming (InPolicy inp)) (WeeklyRechargeMinor (InFeatures inp))
       \<and> SpikeAction (PolAntiGaming (InPolicy inp)) = ''CAP_TO_STARTER''"

text \<open>The tier the reference rules give to a subscriber who is not refused.\<close>

definition window_total :: "Input \<Rightarrow> int" where
  "window_total inp =
     (let ws = WeeklyRechargeMinor (InFeatures inp);
          c = percentileValue ws (WinsorUpperBps (PolAntiGaming (InPolicy inp)))
      in \<Sum>w\<leftarrow>ws. min (sint w) (sint c))"

definition awarded_tier :: "Input \<Rightarrow> Tier" where
  "awarded_tier inp =
     (if cold_start inp then starter_tier (InPolicy inp)
      else ladder_tier (InPolicy inp) (PriorTierCode inp)
             (hours (AcceptHours (PolStaleness (InPolicy inp))) < data_age inp) (window_total inp))"

lemma Score_scorable:
  assumes "scorable inp" "Tiers (InPolicy inp) \<noteq> []"
  shows "Score rfc inp = score_age inp (base_decision rfc inp)"
  using assms by (auto simp: Score_def scorable_def safe_weeks_def list_ex_iff not_le)

lemma score_history_exact:
  assumes "valid_policy (InPolicy inp)" "scorable inp"
    and "sint (OneTierUpMax (InPolicy inp)) + int (length (Tiers (InPolicy inp))) < 2 ^ 63"
    and "''MISSING_FIELDS'' \<notin> set (QualityFlags inp)"
    and "StalenessOutcome d = ''DEGRADED'' \<longleftrightarrow> hours (AcceptHours (PolStaleness (InPolicy inp))) < data_age inp"
  shows "\<exists>d'. score_history inp d = Inr d' \<and> grants (awarded_tier inp) d'"
    and "awarded_tier inp \<in> set (Tiers (InPolicy inp))"
proof -
  let ?ws = "WeeklyRechargeMinor (InFeatures inp)"
  let ?c = "percentileValue ?ws (WinsorUpperBps (PolAntiGaming (InPolicy inp)))"
  have ws: "safe_weeks ?ws" using assms(2) by (simp add: scorable_def)
  then have "?c \<in> set ?ws" using assms(1) by (intro percentile_in) (simp_all add: valid_policy_def safe_weeks_def)
  from winsorised_total_exact [OF ws this]
  have tot: "sint (winsorised_total ?ws ?c) = window_total inp" by (simp add: window_total_def Let_def)
  note starter = starter_grants [OF assms(1)]
  have ladder: "\<exists>d'. assign_tier inp (winsorised_total ?ws ?c) e = Inr d' \<and> grants (awarded_tier inp) d'"
    if "\<not> cold_start inp" "StalenessOutcome e = StalenessOutcome d" for e
    using assign_tier_exact(1) [OF assms(1) refl assms(3), where d = e and tot = "winsorised_total ?ws ?c"] that assms(5) tot
    by (simp add: awarded_tier_def)
  have act: "SpikeAction (PolAntiGaming (InPolicy inp)) = ''FLAG_ONLY'' \<or> SpikeAction (PolAntiGaming (InPolicy inp)) = ''CAP_TO_STARTER''"
    using assms(1) by (simp add: valid_policy_def)
  show "\<exists>d'. score_history inp d = Inr d' \<and> grants (awarded_tier inp) d'"
  proof (cases "cold_start inp")
    case True
    with starter(1) assms(4) act show ?thesis
      unfolding score_history_def Let_def hasFlag_def by (auto simp: awarded_tier_def cold_start_def)
  next
    case False
    with ladder assms(4) act show ?thesis
      unfolding score_history_def Let_def hasFlag_def by (auto simp: cold_start_def)
  qed
  show "awarded_tier inp \<in> set (Tiers (InPolicy inp))"
    using starter(2) assign_tier_exact(2) [OF assms(1) refl assms(3), where d = d and tot = "winsorised_total ?ws ?c"] assms(5) tot
    by (simp add: awarded_tier_def)
qed

lemma Score_exact:
  assumes v: "valid_policy (InPolicy inp)" and ok: "scorable inp"
    and up: "sint (OneTierUpMax (InPolicy inp)) + int (length (Tiers (InPolicy inp))) < 2 ^ 63"
  shows "\<exists>d. Score rfc inp = Inr d \<and>
    (if refused inp then \<not> Eligible d \<and> TierCode d = '''' \<and> DecMaxFaceMinor d = 0
     else grants (awarded_tier inp) d \<and> awarded_tier inp \<in> set (Tiers (InPolicy inp)) \<and> 0 < sint (DecMaxFaceMinor d))"
proof -
  have run: "Score rfc inp = score_age inp (base_decision rfc inp)"
    using Score_scorable [OF ok] v by (simp add: valid_policy_def)
  have pos: "t \<in> set (Tiers (InPolicy inp)) \<Longrightarrow> grants t d \<Longrightarrow> 0 < sint (DecMaxFaceMinor d)" for t d
    using v by (simp add: valid_policy_def grants_def list_all_iff)
  note hist = score_history_exact [OF v ok up]
  have gates: "\<exists>d'. score_gates inp d = Inr d' \<and> (if refused inp then \<not> Eligible d' \<and> TierCode d' = '''' \<and> DecMaxFaceMinor d' = 0
     else grants (awarded_tier inp) d' \<and> awarded_tier inp \<in> set (Tiers (InPolicy inp)))"
    if fresh: "\<not> data_age inp < 0" "\<not> hours (DegradeHours (PolStaleness (InPolicy inp))) < data_age inp"
      and d: "\<not> Eligible d" "TierCode d = ''''" "DecMaxFaceMinor d = 0"
        "StalenessOutcome d = ''DEGRADED'' \<longleftrightarrow> hours (AcceptHours (PolStaleness (InPolicy inp))) < data_age inp" for d
  proof (cases "''MISSING_FIELDS'' \<in> set (QualityFlags inp)")
    case True
    then have t: "awarded_tier inp = starter_tier (InPolicy inp)" by (simp add: awarded_tier_def cold_start_def)
    have "MissingPolicy (InPolicy inp) = ''REJECT'' \<or> MissingPolicy (InPolicy inp) = ''STARTER''"
      using v by (simp add: valid_policy_def)
    then show ?thesis using starter_grants [OF v] True fresh d unfolding t
      by (auto simp: score_gates_def refused_def hasFlag_def)
  next
    case False
    with hist [OF False d(4)] fresh d show ?thesis by (auto simp: score_gates_def refused_def hasFlag_def)
  qed
  let ?b = "base_decision rfc inp"
  show ?thesis
  proof (cases "data_age inp < 0 \<or> hours (DegradeHours (PolStaleness (InPolicy inp))) < data_age inp")
    case True
    then show ?thesis unfolding run by (auto simp: score_age_def Let_def data_age_def refused_def base_decision_def)
  next
    case False
    define e where "e = (if hours (AcceptHours (PolStaleness (InPolicy inp))) < data_age inp
      then reason [''FEATURES_STALE_DEGRADED''] (?b\<lparr>StalenessOutcome := ''DEGRADED''\<rparr>) else ?b\<lparr>StalenessOutcome := ''FRESH''\<rparr>)"
    have "score_age inp ?b = score_gates inp e"
      using False by (simp add: score_age_def Let_def data_age_def e_def)
    with gates [of e] False pos show ?thesis unfolding run
      by (auto simp: e_def base_decision_def split: if_splits)
  qed
qed


section \<open>One big week\<close>

definition set_week :: "nat \<Rightarrow> i64 \<Rightarrow> Input \<Rightarrow> Input" where
  "set_week k w inp = inp\<lparr>InFeatures := (InFeatures inp)\<lparr>WeeklyRechargeMinor := (WeeklyRechargeMinor (InFeatures inp))[k := w]\<rparr>\<rparr>"

text \<open>Raising a largest element changes only the last place of the sorted window.\<close>

lemma sort_largest_last:
  fixes ws :: "i64 list"
  assumes "k < length ws" "\<And>x. x \<in> set (take k ws @ drop (Suc k) ws) \<Longrightarrow> sint x \<le> sint w"
  shows "sort_key sint (ws[k := w]) = sort_key sint (take k ws @ drop (Suc k) ws) @ [w]"
proof (rule sort_key_inj_key_eq)
  show "mset (ws[k := w]) = mset (sort_key sint (take k ws @ drop (Suc k) ws) @ [w])"
    using assms(1) by (simp add: upd_conv_take_nth_drop)
  show "inj_on sint (set (ws[k := w]))" by (simp add: inj_on_def sint_eq_i64)
  show "sorted (map sint (sort_key sint (take k ws @ drop (Suc k) ws) @ [w]))"
    using assms(2) by (auto simp: sorted_append)
qed

lemma sorted_prefix_kept:
  fixes ws :: "i64 list"
  assumes "length ws = 13" "k < 13" "\<And>x. x \<in> set ws \<Longrightarrow> sint x \<le> sint (ws ! k)" "sint (ws ! k) \<le> sint w" "r < 12"
  shows "sort_key sint (ws[k := w]) ! r = sort_key sint ws ! r"
    and "sint (sort_key sint ws ! r) \<le> sint (ws ! k)"
proof -
  let ?rest = "take k ws @ drop (Suc k) ws"
  have sub: "set ?rest \<subseteq> set ws" using set_take_subset set_drop_subset by fastforce
  have old: "sort_key sint (ws[k := ws ! k]) = sort_key sint ?rest @ [ws ! k]"
    using assms sub by (intro sort_largest_last) auto
  have new: "sort_key sint (ws[k := w]) = sort_key sint ?rest @ [w]"
    using assms sub by (intro sort_largest_last) (auto intro: order_trans)
  have len: "length ?rest = 12" using assms(1,2) by simp
  show "sort_key sint (ws[k := w]) ! r = sort_key sint ws ! r"
    using old new len assms(5) by (simp add: nth_append)
  have "sort_key sint ws ! r \<in> set ws"
    using assms(1,5) nth_mem [of r "sort_key sint ws"] by simp
  with assms(3) show "sint (sort_key sint ws ! r) \<le> sint (ws ! k)" .
qed

lemma percentile_kept:
  fixes ws :: "i64 list"
  assumes "length ws = 13" "k < 13" "\<And>x. x \<in> set ws \<Longrightarrow> sint x \<le> sint (ws ! k)" "sint (ws ! k) \<le> sint w"
    and "0 < sint bps" "sint bps \<le> 9230"
  shows "percentileValue (ws[k := w]) bps = percentileValue ws bps"
    and "sint (percentileValue ws bps) \<le> sint (ws ! k)"
proof -
  define r where "r = nat (let rank = quo (sint (bps * 13 + 9999 :: i64)) 10000; rank = (if rank < 1 then 1 else rank);
    rank = (if rank > 13 then 13 else rank) in rank - 1)"
  have p: "percentileValue xs bps = sort_key sint xs ! r" if "length xs = 13" for xs
    using that by (simp add: percentileValue_def r_def Let_def)
  have "r < 12"
  proof -
    have "sint (bps * 13 + 9999 :: i64) = sint bps * 13 + 9999" using assms(5,6) by (simp add: i64_simps in_i64_def)
    moreover have "quo (sint bps * 13 + 9999) 10000 = (sint bps * 13 + 9999) div 10000" using assms(5) by (simp add: quo_nonneg)
    moreover have "(sint bps * 13 + 9999) div 10000 \<le> 12" using assms(6) by linarith
    ultimately show ?thesis by (simp add: r_def Let_def nat_less_iff)
  qed
  from sorted_prefix_kept [OF assms(1-4) this] p [of ws] p [of "ws[k := w]"] assms(1)
  show "percentileValue (ws[k := w]) bps = percentileValue ws bps" and "sint (percentileValue ws bps) \<le> sint (ws ! k)"
    by simp_all
qed

lemma window_total_kept:
  assumes "length ws = 13" "k < 13" "\<And>x. x \<in> set ws \<Longrightarrow> sint x \<le> sint (ws ! k)" "sint (ws ! k) \<le> sint w"
    and "0 < sint bps" "sint bps \<le> 9230"
    and "ws = WeeklyRechargeMinor (InFeatures inp)" "bps = WinsorUpperBps (PolAntiGaming (InPolicy inp))"
  shows "window_total (set_week k w inp) = window_total inp"
proof -
  note kept = percentile_kept [OF assms(1-6)]
  let ?c = "sint (percentileValue ws bps)"
  have "map (\<lambda>x. min (sint x) ?c) (ws[k := w]) = (map (\<lambda>x. min (sint x) ?c) ws)[k := min (sint w) ?c]"
    by (simp add: map_update)
  also have "min (sint w) ?c = map (\<lambda>x. min (sint x) ?c) ws ! k" using kept(2) assms(1,2,4) by simp
  finally have "map (\<lambda>x. min (sint x) ?c) (ws[k := w]) = map (\<lambda>x. min (sint x) ?c) ws" by simp
  with kept(1) assms(7,8) show ?thesis by (simp add: window_total_def set_week_def Let_def)
qed

text \<open>C23: One big week cannot buy a tier: under a validated policy whose spike action is
  FLAG_ONLY, raising the largest weekly recharge further (within the engine's range) leaves
  eligibility, tier and limit unchanged.\<close>

theorem one_big_week_buys_nothing:
  assumes "validateScoringPolicy v = Inr ()" "InPolicy inp = policy_of v" "scorable inp"
    and "sint (OneTierUpMax (InPolicy inp)) + int (length (Tiers (InPolicy inp))) < 2 ^ 63"
    and "SpikeAction (PolAntiGaming (InPolicy inp)) = ''FLAG_ONLY''"
    and "k < 13" "\<And>x. x \<in> set (WeeklyRechargeMinor (InFeatures inp)) \<Longrightarrow> sint x \<le> sint (WeeklyRechargeMinor (InFeatures inp) ! k)"
    and "sint (WeeklyRechargeMinor (InFeatures inp) ! k) \<le> sint w" "sint w \<le> maxSafeWeeklyMinor"
  shows "\<exists>d d'. Score rfc inp = Inr d \<and> Score rfc (set_week k w inp) = Inr d' \<and>
    Eligible d' = Eligible d \<and> TierCode d' = TierCode d \<and> DecMaxFaceMinor d' = DecMaxFaceMinor d"
proof -
  have v: "valid_policy (InPolicy inp)" using validated [OF assms(1)] assms(2) by simp
  have len: "length (WeeklyRechargeMinor (InFeatures inp)) = 13" using assms(3) by (simp add: scorable_def safe_weeks_def)
  have p: "InPolicy (set_week k w inp) = InPolicy inp" by (simp add: set_week_def)
  have "WeeklyRechargeMinor (InFeatures inp) ! k \<in> set (WeeklyRechargeMinor (InFeatures inp))"
    using assms(6) len by (intro nth_mem) simp
  then have "0 \<le> sint (WeeklyRechargeMinor (InFeatures inp) ! k)" using assms(3) by (simp add: scorable_def safe_weeks_def)
  then have "0 \<le> sint w" using assms(8) by simp
  then have ok: "scorable (set_week k w inp)"
    using assms(3,9) set_update_subset_insert [of "WeeklyRechargeMinor (InFeatures inp)" k w]
    by (auto simp: scorable_def safe_weeks_def set_week_def)
  have "window_total (set_week k w inp) = window_total inp"
    using window_total_kept [OF len assms(6,7,8) _ _ refl refl] v by (simp add: valid_policy_def)
  then have t: "awarded_tier (set_week k w inp) = awarded_tier inp"
    using assms(5) by (simp add: awarded_tier_def cold_start_def set_week_def data_age_def)
  have r: "refused (set_week k w inp) = refused inp" by (simp add: refused_def set_week_def data_age_def)
  from Score_exact [OF v assms(3,4), of rfc] Score_exact [OF _ ok, of rfc] v assms(4) p
  show ?thesis unfolding t r by (auto simp: grants_def split: if_splits)
qed

section \<open>A sample policy and subscriber\<close>

definition sample_doc :: PolicyDoc where
  "sample_doc =
     \<lparr>pd_gates = Some \<lparr>gd_tenure = Some 30, gd_blocked = [''BARRED''], gd_activity = None\<rparr>,
      pd_stale = Some \<lparr>sd_accept = Some 24, sd_degrade = Some 72, sd_cap = Some ''T1''\<rparr>,
      pd_missing = Some ''REJECT'',
      pd_gaming = Some \<lparr>ad_window = Some 90, ad_winsor = Some 9000, ad_spike = Some 50000, ad_min_active = Some 10,
                        ad_action = Some ''FLAG_ONLY''\<rparr>,
      pd_tiers = [\<lparr>td_code = Some ''T1'', td_face = Some 5000, td_recharge = Some 1000\<rparr>,
                  \<lparr>td_code = Some ''T2'', td_face = Some 20000, td_recharge = Some 10000\<rparr>],
      pd_starter = Some ''T1'', pd_up = Some 1, pd_valid = Some 24\<rparr>"

definition sample_input :: Input where
  "sample_input =
     \<lparr>InFeatures = \<lparr>TenureDays = 400, ActivityDays30d = 20, ActiveDays90d = 60,
        WeeklyRechargeMinor = [900, 800, 1000, 700, 900, 800, 900, 1000, 900, 800, 900, 700, 1100],
        FeaturesCurrency = ''NGN''\<rparr>,
      QualityFlags = [], FeatureContentHash = ''h1'', InPolicy = policy_of sample_doc, PolicyVersionID = ''cfg_1'',
      SubscriberStatus = ''ACTIVE'', PriorTierCode = ''T1'', FeatureAsOf = 0, ScoredAt = 3600000000000\<rparr>"

lemma sample_policy: "validateScoringPolicy sample_doc = Inr ()" "InPolicy sample_input = policy_of sample_doc"
  by code_simp (simp add: sample_input_def)

lemma sample_scorable: "scorable sample_input"
  by code_simp

lemma sample_up: "sint (OneTierUpMax (InPolicy sample_input)) + int (length (Tiers (InPolicy sample_input))) < 2 ^ 63"
  by code_simp


theorem one_big_week_buys_nothing_witness:
  "\<exists>d d'. Score (\<lambda>_. []) sample_input = Inr d \<and> Score (\<lambda>_. []) (set_week 12 900000000 sample_input) = Inr d' \<and>
    TierCode d' = TierCode d \<and> DecMaxFaceMinor d' = DecMaxFaceMinor d"
proof -
  have "SpikeAction (PolAntiGaming (InPolicy sample_input)) = ''FLAG_ONLY''" by code_simp
  moreover have "list_all (\<lambda>x. sint x \<le> sint (WeeklyRechargeMinor (InFeatures sample_input) ! 12)) (WeeklyRechargeMinor (InFeatures sample_input))"
    by code_simp
  moreover have "sint (WeeklyRechargeMinor (InFeatures sample_input) ! 12) \<le> sint (900000000 :: i64)" by code_simp
  moreover have "sint (900000000 :: i64) \<le> maxSafeWeeklyMinor" by code_simp
  ultimately show ?thesis
    using one_big_week_buys_nothing [OF sample_policy sample_scorable sample_up, of 12 900000000 "\<lambda>_. []"]
    by (auto simp: list_all_iff)
qed

text \<open>The movement limit is added in 64-bit arithmetic: the largest value that the check accepts makes the engine panic.\<close>

lemma movement_limit_overflow:
  defines "v \<equiv> sample_doc\<lparr>pd_up := Some 9223372036854775807\<rparr>"
  shows "validateScoringPolicy v = Inr ()"
    and "Score (\<lambda>_. []) (sample_input\<lparr>InPolicy := policy_of v, PriorTierCode := ''T2''\<rparr>) = Inl (Panic ''index out of range'')"
  unfolding v_def by code_simp+

end
