(* ===== verification/ConfigSvc.thy ===== *)
theory ConfigSvc
  imports RepoRecovery
begin

text \<open>
  Governed configuration: the statements of \<^verbatim>\<open>repo/config.go\<close> and the lifecycle of
  \<^verbatim>\<open>usecase/configsvc/configsvc.go\<close> (draft, submit, approve, activate, resolve). The registry of
  domain validators is a parameter \<open>V\<close> (domain, scope and content to a verdict; absent domains
  accept), as are the text of a JSONB value and the reading of a text into one. The lemmas
  show that whatever a caller resolves was approved by a second person and validated, and that
  activating a version never changes what an earlier instant resolves to.
\<close>

section \<open>Statements\<close>

definition ScopeGlobal :: string where
  "ScopeGlobal = ''global''"

definition config_states :: "string list" where
  "config_states = [''DRAFT'', ''SUBMITTED'', ''APPROVED'', ''SCHEDULED'', ''ACTIVE'', ''SUPERSEDED'', ''ROLLED_BACK'', ''REJECTED'']"

text \<open>The constraints of the table: keys, states, a distinct approver, and no two ACTIVE windows that overlap.\<close>

definition config_checks :: "config_row \<Rightarrow> bool" where
  "config_checks r \<longleftrightarrow> cv_state r \<in> set config_states
     \<and> (cv_state r \<notin> {''APPROVED'', ''SCHEDULED'', ''ACTIVE''}
        \<or> cv_approver r \<noteq> None \<and> cv_approver r \<noteq> Some (cv_by r))"

text \<open>Lower bounds and upper bounds of a window; an absent one is unbounded.\<close>

definition starts_before :: "int option \<Rightarrow> int option \<Rightarrow> bool" where
  "starts_before lo hi = (case (lo, hi) of (Some l, Some h) \<Rightarrow> l < h | _ \<Rightarrow> True)"

definition window_clash :: "config_row \<Rightarrow> config_row \<Rightarrow> bool" where
  "window_clash r q \<longleftrightarrow> cv_state r = ''ACTIVE'' \<and> cv_state q = ''ACTIVE'' \<and> cv_domain r = cv_domain q \<and> cv_scope r = cv_scope q
     \<and> starts_before (cv_from r) (cv_to r) \<and> starts_before (cv_from q) (cv_to q)
     \<and> starts_before (cv_from r) (cv_to q) \<and> starts_before (cv_from q) (cv_to r)"

definition window_bad :: "config_row \<Rightarrow> bool" where
  "window_bad r \<longleftrightarrow> cv_state r = ''ACTIVE'' \<and>
     (case (cv_from r, cv_to r) of (Some l, Some h) \<Rightarrow> h < l | _ \<Rightarrow> False)"

definition put_configs :: "config_row list \<Rightarrow> db \<Rightarrow> err + db" where
  "put_configs rows s =
     (if \<not> distinct (map cv_id rows) then Inl (Pg ''23505'' ''config_versions_pkey'')
      else if \<not> distinct (map (\<lambda>r. (cv_domain r, cv_scope r, cv_no r)) rows)
      then Inl (Pg ''23505'' ''config_versions_domain_scope_version_no_key'')
      else if \<not> list_all config_checks rows then Inl (Pg ''23514'' ''config_versions_check'')
      else if list_ex window_bad rows then Inl (Pg ''22000'' '''')
      else if \<not> sorted_wrt (\<lambda>r q. \<not> window_clash r q) rows then Inl (Pg ''23P01'' ''config_active_no_overlap'')
      else Inr (s\<lparr>configs := rows\<rparr>))"

definition Configs_Insert :: "config_row \<Rightarrow> db \<Rightarrow> err + db" where
  "Configs_Insert c s = put_configs (configs s @ [c]) s"

definition Configs_Get :: "string \<Rightarrow> db \<Rightarrow> err + config_row" where
  "Configs_Get i s = (case List.find (\<lambda>r. cv_id r = i) (configs s) of None \<Rightarrow> Inl ErrNotFound | Some r \<Rightarrow> Inr r)"

definition NextVersionNo :: "string \<Rightarrow> string \<Rightarrow> db \<Rightarrow> int" where
  "NextVersionNo domain scope s =
     foldr max (map cv_no (filter (\<lambda>r. cv_domain r = domain \<and> cv_scope r = scope) (configs s))) 0 + 1"

definition Configs_TransitionState :: "string \<Rightarrow> string \<Rightarrow> string \<Rightarrow> string \<Rightarrow> db \<Rightarrow> err + db" where
  "Configs_TransitionState i frm to approvedBy s =
     (if \<not> list_ex (\<lambda>r. cv_id r = i \<and> cv_state r = frm) (configs s) then Inl ErrNotFound
      else put_configs (upd_where (\<lambda>r. cv_id r = i \<and> cv_state r = frm)
             (\<lambda>r. r\<lparr>cv_state := to, cv_approver := (if approvedBy \<noteq> '''' then Some approvedBy else cv_approver r)\<rparr>)
             (configs s)) s)"

definition supersede :: "string \<Rightarrow> int \<Rightarrow> config_row list \<Rightarrow> config_row list" where
  "supersede i at rows =
     upd_where (\<lambda>r. list_ex (\<lambda>n. cv_id n = i \<and> cv_domain r = cv_domain n \<and> cv_scope r = cv_scope n) rows \<and> cv_state r = ''ACTIVE'')
       (\<lambda>r. r\<lparr>cv_state := ''SUPERSEDED'', cv_to := Some at\<rparr>) rows"

definition Configs_Activate :: "string \<Rightarrow> int \<Rightarrow> db \<Rightarrow> err + db" where
  "Configs_Activate i at s =
     andThen (put_configs (supersede i at (configs s)) s) (\<lambda>s.
     if \<not> list_ex (\<lambda>r. cv_id r = i \<and> cv_state r = ''APPROVED'') (configs s) then Inl ErrNotFound
     else put_configs (upd_where (\<lambda>r. cv_id r = i \<and> cv_state r = ''APPROVED'')
            (\<lambda>r. r\<lparr>cv_state := ''ACTIVE'', cv_from := Some at\<rparr>) (configs s)) s)"

definition covers :: "string \<Rightarrow> string \<Rightarrow> int \<Rightarrow> config_row \<Rightarrow> bool" where
  "covers domain scope t r \<longleftrightarrow> cv_domain r = domain \<and> cv_scope r = scope \<and> cv_state r \<in> {''ACTIVE'', ''SUPERSEDED''}
     \<and> (case cv_from r of None \<Rightarrow> False | Some f \<Rightarrow> f \<le> t)
     \<and> (case cv_to r of None \<Rightarrow> True | Some e \<Rightarrow> e > t)"

definition GetActiveAt :: "string \<Rightarrow> string \<Rightarrow> int \<Rightarrow> db \<Rightarrow> err + config_row" where
  "GetActiveAt domain scope t s =
     (case sort_key (\<lambda>r. - the (cv_from r)) (filter (covers domain scope t) (configs s)) of
        [] \<Rightarrow> Inl ErrNotFound | r # _ \<Rightarrow> Inr r)"

definition in_authority :: "string \<Rightarrow> config_row \<Rightarrow> bool" where
  "in_authority restrict r \<longleftrightarrow> restrict = '''' \<or> cv_scope r = restrict \<or> cv_scope r = ''global''"

text \<open>Sorting by the last key first: the sort is stable, so the first key decides.\<close>

definition Configs_List :: "string \<Rightarrow> string \<Rightarrow> string \<Rightarrow> int \<Rightarrow> db \<Rightarrow> config_row list" where
  "Configs_List domain scope restrict limit s =
     take (nat limit) (sort_key cv_domain (sort_key cv_scope (sort_key (\<lambda>r. - cv_no r)
       (filter (\<lambda>r. (domain = '''' \<or> cv_domain r = domain) \<and> (scope = '''' \<or> cv_scope r = scope) \<and> in_authority restrict r)
         (configs s)))))"

record ConfigSummary =
  cs_domain :: string
  cs_scope :: string
  cs_active :: int
  cs_since :: "int option"
  cs_pending :: nat

definition max_from :: "config_row list \<Rightarrow> int option" where
  "max_from rows = foldr (\<lambda>r m. case (cv_from r, m) of (None, _) \<Rightarrow> m | (Some f, None) \<Rightarrow> Some f | (Some f, Some g) \<Rightarrow> Some (max f g)) rows None"

definition Configs_Overview :: "string \<Rightarrow> db \<Rightarrow> ConfigSummary list" where
  "Configs_Overview restrict s =
     (let rows = filter (in_authority restrict) (configs s);
          keys = sort_key fst (sort_key snd (remdups (map (\<lambda>r. (cv_domain r, cv_scope r)) rows)))
      in map (\<lambda>(d, sc).
           let mine = filter (\<lambda>r. cv_domain r = d \<and> cv_scope r = sc) rows;
               live = filter (\<lambda>r. cv_state r = ''ACTIVE'') mine
           in \<lparr>cs_domain = d, cs_scope = sc, cs_active = foldr max (map cv_no live) 0, cs_since = max_from live,
               cs_pending = length (filter (\<lambda>r. cv_state r \<in> {''DRAFT'', ''SUBMITTED'', ''APPROVED''}) mine)\<rparr>) keys)"

section \<open>The lifecycle\<close>

type_synonym validator = "string \<Rightarrow> string \<Rightarrow> json \<Rightarrow> err + unit"

definition WithPlatformTx :: "env \<Rightarrow> (env \<Rightarrow> db \<Rightarrow> err + 'a \<times> db) \<Rightarrow> db \<Rightarrow> (err + 'a) \<times> db" where
  "WithPlatformTx E body s =
     (case body (E\<lparr>tenant := ''''\<rparr>) s of Inl e \<Rightarrow> (Inl e, s) | Inr (x, s') \<Rightarrow> (Inr x, s'))"

definition config_audit :: "env \<Rightarrow> string \<Rightarrow> string \<Rightarrow> string \<Rightarrow> db \<Rightarrow> err + db" where
  "config_audit E actor action target s =
     (let (_, s) = NewID E ''aud'' s in
      Audit_Insert E \<lparr>au_telco = '''', au_actor = actor, au_action = action, au_ttype = ''config_version'',
        au_target = target, au_reason = ''''\<rparr> s)"

definition CreateDraft ::
  "env \<Rightarrow> (json \<Rightarrow> string) \<Rightarrow> string \<Rightarrow> string \<Rightarrow> string \<Rightarrow> string \<Rightarrow> string \<Rightarrow> db \<Rightarrow> (err + config_row) \<times> db" where
  "CreateDraft E jsonb_text domain scope createdBy why content s =
     (if domain = '''' \<or> scope = '''' \<or> createdBy = '''' \<or> why = ''''
      then (Inl (Fmt ''domain, scope, created_by and reason are required''), s)
      else if json_decode E content = None then (Inl (Fmt ''content is not valid JSON''), s)
      else
        let (i, s1) = NewID E ''cfg'' s in
        WithPlatformTx E (\<lambda>E s.
          case jsonb_in E content of
            None \<Rightarrow> Inl (Pg ''22P02'' '''')
          | Some j \<Rightarrow>
              let c = \<lparr>cv_id = i, cv_domain = domain, cv_scope = scope, cv_no = NextVersionNo domain scope s,
                       cv_state = ''DRAFT'', cv_content = j, cv_hash = sha_hex E (jsonb_text j), cv_from = None,
                       cv_to = None, cv_by = createdBy, cv_approver = None, cv_reason = why\<rparr> in
              andThen (Configs_Insert c s) (\<lambda>s. Inr (c, s))) s1)"

definition Submit :: "env \<Rightarrow> string \<Rightarrow> string \<Rightarrow> db \<Rightarrow> (err + unit) \<times> db" where
  "Submit E i actor s = WithPlatformTx E (\<lambda>E s.
     andThen (Configs_TransitionState i ''DRAFT'' ''SUBMITTED'' '''' s) (\<lambda>s.
     andThen (config_audit E actor ''CONFIG_SUBMITTED'' i s) (\<lambda>s. Inr ((), s)))) s"

definition Approve :: "env \<Rightarrow> validator \<Rightarrow> string \<Rightarrow> string \<Rightarrow> db \<Rightarrow> (err + unit) \<times> db" where
  "Approve E V i approver s =
     (if approver = '''' then (Inl (Fmt ''approver identity required''), s)
      else WithPlatformTx E (\<lambda>E s.
        andThen (Configs_Get i s) (\<lambda>c.
        if cv_by c = approver then Inl (Gov ErrMakerChecker)
        else case V (cv_domain c) (cv_scope c) (cv_content c) of Inl _ \<Rightarrow> Inl (Gov ErrValidation)
        | Inr _ \<Rightarrow>
            andThen (Configs_TransitionState i ''SUBMITTED'' ''APPROVED'' approver s) (\<lambda>s.
            andThen (config_audit E approver ''CONFIG_APPROVED'' i s) (\<lambda>s. Inr ((), s))))) s)"

definition Activate :: "env \<Rightarrow> validator \<Rightarrow> string \<Rightarrow> string \<Rightarrow> int \<Rightarrow> db \<Rightarrow> (err + unit) \<times> db" where
  "Activate E V i actor at s = WithPlatformTx E (\<lambda>E s.
     andThen (Configs_Get i s) (\<lambda>c.
     case V (cv_domain c) (cv_scope c) (cv_content c) of Inl _ \<Rightarrow> Inl (Gov ErrValidation)
     | Inr _ \<Rightarrow>
         andThen (Configs_Activate i at s) (\<lambda>s.
         andThen (config_audit E actor ''CONFIG_ACTIVATED'' i s) (\<lambda>s. Inr ((), s))))) s"

definition ActiveAt :: "string \<Rightarrow> string \<Rightarrow> int \<Rightarrow> db \<Rightarrow> err + config_row" where
  "ActiveAt domain scope t s =
     (case GetActiveAt domain scope t s of
        Inr c \<Rightarrow> Inr c
      | Inl e \<Rightarrow> if scope \<noteq> ScopeGlobal then GetActiveAt domain ScopeGlobal t s else Inl e)"

definition GetVersion :: "string \<Rightarrow> db \<Rightarrow> err + config_row" where
  "GetVersion i s = Configs_Get i s"

definition ListVersions :: "string \<Rightarrow> string \<Rightarrow> string \<Rightarrow> int \<Rightarrow> db \<Rightarrow> config_row list" where
  "ListVersions domain scope restrict limit s =
     Configs_List domain scope restrict (if limit \<le> 0 \<or> limit > 200 then 50 else limit) s"

definition Overview :: "string \<Rightarrow> db \<Rightarrow> ConfigSummary list" where
  "Overview restrict s = Configs_Overview restrict s"

definition VerifyContentHash :: "env \<Rightarrow> (json \<Rightarrow> string) \<Rightarrow> string \<Rightarrow> db \<Rightarrow> err + bool" where
  "VerifyContentHash E jsonb_text i s =
     andThen (Configs_Get i s) (\<lambda>c.
     case jsonb_in E (jsonb_text (cv_content c)) of
       None \<Rightarrow> Inl (Pg ''22P02'' '''')
     | Some j \<Rightarrow> Inr (cv_hash c = sha_hex E (jsonb_text j)))"

section \<open>Validators of the platform domains\<close>

text \<open>The documents as the strict decoder leaves them: an absent field is \<open>None\<close>.\<close>

record OutboxDoc =
  od_batch :: "int option"
  od_attempts :: "int option"
  od_backoff :: "int option"

definition validateOutbox :: "OutboxDoc \<Rightarrow> err + unit" where
  "validateOutbox v =
     (if (case od_batch v of None \<Rightarrow> True | Some n \<Rightarrow> n < 1 \<or> n > 1000) then Inl (Fmt ''claim_batch_size must be 1..1000'')
      else if (case od_attempts v of None \<Rightarrow> True | Some n \<Rightarrow> n < 1) then Inl (Fmt ''max_attempts must be >= 1'')
      else if (case od_backoff v of None \<Rightarrow> True | Some n \<Rightarrow> n < 1) then Inl (Fmt ''retry_backoff_seconds must be >= 1'')
      else Inr ())"

record IdempotencyDoc =
  id_ttl :: "int option"
  id_floor :: "int option"

definition validateIdempotencyTTL :: "IdempotencyDoc \<Rightarrow> err + unit" where
  "validateIdempotencyTTL v =
     (case (id_ttl v, id_floor v) of
        (Some ttl, Some fl) \<Rightarrow>
          if fl < 72 then Inl (Fmt ''min_floor_hours below the hard floor of 72h'')
          else if ttl < fl then Inl (Fmt ''ttl_hours < min_floor_hours'') else Inr ()
      | _ \<Rightarrow> Inl (Fmt ''ttl_hours and min_floor_hours are required''))"

text \<open>The concurrency limit is checked against the live schema: does the table exist, does its index.\<close>

definition validateConcurrency :: "bool \<times> bool \<Rightarrow> int option \<Rightarrow> err + unit" where
  "validateConcurrency schema v =
     (case v of None \<Rightarrow> Inl (Fmt ''max_concurrent_advances is required'')
      | Some n \<Rightarrow>
          if n < 1 then Inl (Fmt ''max_concurrent_advances must be >= 1'')
          else if n = 1 then Inr ()
          else if \<not> fst schema \<or> snd schema then Inl (Fmt ''max_concurrent_advances rejected'')
          else Inr ())"

section \<open>What the lifecycle keeps\<close>

definition governed :: "env \<Rightarrow> validator \<Rightarrow> (json \<Rightarrow> string) \<Rightarrow> config_row \<Rightarrow> bool" where
  "governed E V J r \<longleftrightarrow>
     cv_state r \<in> {''DRAFT'', ''SUBMITTED'', ''APPROVED'', ''ACTIVE'', ''SUPERSEDED''}
     \<and> (cv_state r \<in> {''APPROVED'', ''ACTIVE'', ''SUPERSEDED''} \<longrightarrow>
          (\<exists>a. cv_approver r = Some a \<and> a \<noteq> cv_by r) \<and> V (cv_domain r) (cv_scope r) (cv_content r) = Inr ())
     \<and> (cv_state r = ''ACTIVE'' \<longrightarrow> cv_from r \<noteq> None \<and> cv_to r = None)
     \<and> (cv_state r \<in> {''DRAFT'', ''SUBMITTED'', ''APPROVED''} \<longrightarrow> cv_from r = None \<and> cv_to r = None)
     \<and> cv_hash r = sha_hex E (J (cv_content r))"

definition config_inv :: "env \<Rightarrow> validator \<Rightarrow> (json \<Rightarrow> string) \<Rightarrow> db \<Rightarrow> bool" where
  "config_inv E V J s \<longleftrightarrow> distinct (map cv_id (configs s)) \<and> (\<forall>r \<in> set (configs s). governed E V J r)
     \<and> sorted_wrt (\<lambda>r q. \<not> window_clash r q) (configs s)"

lemma accepted_iff [simp]: "(\<forall>e. x \<noteq> Inl e) \<longleftrightarrow> x = Inr ()" for x :: "err + unit"
  by (cases x) auto

lemma put_configs_Inr:
  "put_configs rows s = Inr s' \<Longrightarrow> s' = s\<lparr>configs := rows\<rparr> \<and> distinct (map cv_id rows) \<and> sorted_wrt (\<lambda>r q. \<not> window_clash r q) rows"
  by (auto simp: put_configs_def split: if_splits)

lemma put_configs_inv:
  "put_configs rows s = Inr s' \<Longrightarrow> \<forall>r \<in> set rows. governed E V J r \<Longrightarrow> config_inv E V J s'"
  using put_configs_Inr [of rows s s'] by (simp add: config_inv_def)

lemma WithPlatformTx_cases:
  assumes "WithPlatformTx E body s = (r, s')"
  obtains e where "r = Inl e" "s' = s" | x where "r = Inr x" "body (E\<lparr>tenant := ''''\<rparr>) s = Inr (x, s')"
  using assms by (auto simp: WithPlatformTx_def split: sum.splits prod.splits)

lemma config_audit_Inr: "config_audit E actor action target s = Inr s' \<Longrightarrow> configs s' = configs s"
  by (auto simp: config_audit_def NewID_def Audit_Insert_Inr)

lemma config_inv_configs: "configs s' = configs s \<Longrightarrow> config_inv E V J s' = config_inv E V J s"
  by (simp add: config_inv_def)

lemma Configs_Get_Inr: "Configs_Get i s = Inr c \<Longrightarrow> c \<in> set (configs s) \<and> cv_id c = i"
  by (auto simp: Configs_Get_def split: option.splits dest: find_SomeD)

lemma Configs_Get_row: "distinct (map cv_id (configs s)) \<Longrightarrow> c \<in> set (configs s) \<Longrightarrow> Configs_Get (cv_id c) s = Inr c"
proof -
  assume d: "distinct (map cv_id (configs s))" and c: "c \<in> set (configs s)"
  obtain c' where c': "List.find (\<lambda>r. cv_id r = cv_id c) (configs s) = Some c'"
    using find_NoneD [of "\<lambda>r. cv_id r = cv_id c" "configs s" c] c by (cases "List.find (\<lambda>r. cv_id r = cv_id c) (configs s)") auto
  from find_SomeD [OF this] distinct_key_unique [OF d _ c] have "c' = c" by blast
  with c' show ?thesis by (simp add: Configs_Get_def)
qed

lemma transition_row:
  assumes "Configs_TransitionState i frm to a s = Inr s'" "\<forall>r \<in> set (configs s). governed E V J r"
    and "\<And>r. r \<in> set (configs s) \<Longrightarrow> cv_id r = i \<Longrightarrow> cv_state r = frm \<Longrightarrow>
           governed E V J (r\<lparr>cv_state := to, cv_approver := (if a \<noteq> '''' then Some a else cv_approver r)\<rparr>)"
  shows "config_inv E V J s'"
proof -
  let ?f = "\<lambda>r. r\<lparr>cv_state := to, cv_approver := (if a \<noteq> '''' then Some a else cv_approver r)\<rparr>"
  from assms(1) have put: "put_configs (upd_where (\<lambda>r. cv_id r = i \<and> cv_state r = frm) ?f (configs s)) s = Inr s'"
    by (simp add: Configs_TransitionState_def split: if_splits)
  show ?thesis by (rule put_configs_inv [OF put]) (use assms(2,3) in \<open>auto simp: set_upd_where\<close>)
qed

lemma CreateDraft_inv:
  assumes "CreateDraft E' J d sc maker why content s = (r, s')" "config_inv E V J s" "sha_hex E' = sha_hex E"
  shows "config_inv E V J s'"
proof -
  consider "configs s' = configs s" | c where "configs s' = configs s @ [c]" "governed E V J c"
      "distinct (map cv_id (configs s'))" "sorted_wrt (\<lambda>r q. \<not> window_clash r q) (configs s')"
    using assms(1,3) unfolding CreateDraft_def Let_def NewID_def
    by (force simp: WithPlatformTx_def Configs_Insert_def governed_def andThen_def
        split: if_splits option.splits sum.splits prod.splits dest!: put_configs_Inr)
  then show ?thesis using assms(2) by cases (auto simp: config_inv_def)
qed

lemma Submit_inv: "Submit E' i actor s = (r, s') \<Longrightarrow> config_inv E V J s \<Longrightarrow> config_inv E V J s'"
  unfolding Submit_def
proof (erule WithPlatformTx_cases)
  fix x assume inv: "config_inv E V J s"
    and "andThen (Configs_TransitionState i ''DRAFT'' ''SUBMITTED'' '''' s) (\<lambda>s.
       andThen (config_audit (E'\<lparr>tenant := ''''\<rparr>) actor ''CONFIG_SUBMITTED'' i s) (\<lambda>s. Inr ((), s))) = Inr (x, s')"
  then obtain s1 where s1: "Configs_TransitionState i ''DRAFT'' ''SUBMITTED'' '''' s = Inr s1" and same: "configs s' = configs s1"
    by (auto simp: andThen_Inr_iff dest: config_audit_Inr)
  have "config_inv E V J s1"
    by (rule transition_row [OF s1]) (use inv in \<open>auto simp: config_inv_def governed_def\<close>)
  then show "config_inv E V J s'" using config_inv_configs [OF same] by simp
qed simp

lemma Approve_inv:
  assumes "Approve E' V i approver s = (r, s')" "config_inv E V J s"
  shows "config_inv E V J s'"
proof (cases "\<exists>x. r = Inr x")
  case True
  with assms(1) obtain c s1 where c: "Configs_Get i s = Inr c" "cv_by c \<noteq> approver" "V (cv_domain c) (cv_scope c) (cv_content c) = Inr ()"
    and s1: "Configs_TransitionState i ''SUBMITTED'' ''APPROVED'' approver s = Inr s1" and same: "configs s' = configs s1"
    and a: "approver \<noteq> ''''"
    unfolding Approve_def
    by (auto simp: andThen_Inr_iff WithPlatformTx_def split: if_splits sum.splits prod.splits dest!: config_audit_Inr)
  have "config_inv E V J s1"
  proof (rule transition_row [OF s1])
    fix q assume q: "q \<in> set (configs s)" "cv_id q = i" "cv_state q = ''SUBMITTED''"
    with Configs_Get_Inr [OF c(1)] assms(2) have "q = c" by (metis config_inv_def distinct_key_unique)
    with q c(2,3) a assms(2) show "governed E V J (q\<lparr>cv_state := ''APPROVED'', cv_approver := (if approver \<noteq> '''' then Some approver else cv_approver q)\<rparr>)"
      by (auto simp: governed_def config_inv_def)
  qed (use assms(2) in \<open>simp add: config_inv_def\<close>)
  then show ?thesis using config_inv_configs [OF same] by simp
next
  case False
  with assms show ?thesis unfolding Approve_def by (auto simp: WithPlatformTx_def split: if_splits sum.splits prod.splits)
qed

text \<open>What a successful activation does to each row.\<close>

definition activated :: "string \<Rightarrow> int \<Rightarrow> config_row list \<Rightarrow> config_row \<Rightarrow> config_row" where
  "activated i at rows r =
     (if cv_state r = ''ACTIVE'' \<and> list_ex (\<lambda>n. cv_id n = i \<and> cv_domain r = cv_domain n \<and> cv_scope r = cv_scope n) rows
      then r\<lparr>cv_state := ''SUPERSEDED'', cv_to := Some at\<rparr>
      else if cv_id r = i \<and> cv_state r = ''APPROVED'' then r\<lparr>cv_state := ''ACTIVE'', cv_from := Some at\<rparr>
      else r)"

lemma Activate_rows:
  assumes "Activate E' V i actor at s = (Inr (), s')"
  shows "configs s' = map (activated i at (configs s)) (configs s)"
    and "distinct (map cv_id (configs s'))" and "sorted_wrt (\<lambda>r q. \<not> window_clash r q) (configs s')"
    and "\<exists>r \<in> set (configs s). cv_id r = i \<and> cv_state r = ''APPROVED''"
proof -
  from assms obtain s1 s2 where s1: "put_configs (supersede i at (configs s)) s = Inr s1"
    and ex: "list_ex (\<lambda>r. cv_id r = i \<and> cv_state r = ''APPROVED'') (configs s1)"
    and s2: "put_configs (upd_where (\<lambda>r. cv_id r = i \<and> cv_state r = ''APPROVED'')
               (\<lambda>r. r\<lparr>cv_state := ''ACTIVE'', cv_from := Some at\<rparr>) (configs s1)) s1 = Inr s2"
    and same: "configs s' = configs s2"
    unfolding Activate_def Configs_Activate_def
    by (auto simp: andThen_Inr_iff WithPlatformTx_def split: if_splits sum.splits prod.splits dest!: config_audit_Inr)
  have c1: "configs s1 = supersede i at (configs s)" using put_configs_Inr [OF s1] by simp
  have c2: "configs s2 = upd_where (\<lambda>r. cv_id r = i \<and> cv_state r = ''APPROVED'')
               (\<lambda>r. r\<lparr>cv_state := ''ACTIVE'', cv_from := Some at\<rparr>) (configs s1)"
    "distinct (map cv_id (configs s2))" "sorted_wrt (\<lambda>r q. \<not> window_clash r q) (configs s2)"
    using put_configs_Inr [OF s2] by simp_all
  show "configs s' = map (activated i at (configs s)) (configs s)"
    unfolding same c2(1) c1 supersede_def upd_where_def by (simp add: activated_def)
  show "distinct (map cv_id (configs s'))" "sorted_wrt (\<lambda>r q. \<not> window_clash r q) (configs s')" using same c2 by simp_all
  show "\<exists>r \<in> set (configs s). cv_id r = i \<and> cv_state r = ''APPROVED''"
    using ex unfolding c1 supersede_def by (auto simp: list_ex_iff set_upd_where)
qed

lemma Activate_inv:
  assumes "Activate E' V i actor at s = (r, s')" "config_inv E V J s"
  shows "config_inv E V J s'"
proof (cases "r = Inr ()")
  case True
  note rows = Activate_rows [OF assms(1) [unfolded True]]
  have "governed E V J (activated i at (configs s) q)" if "q \<in> set (configs s)" for q
    using assms(2) that by (auto simp: config_inv_def governed_def activated_def)
  with rows show ?thesis by (auto simp: config_inv_def)
next
  case False
  with assms show ?thesis unfolding Activate_def by (auto simp: WithPlatformTx_def split: sum.splits prod.splits)
qed

section \<open>Runs of the lifecycle\<close>

inductive cfg_step :: "env \<Rightarrow> validator \<Rightarrow> (json \<Rightarrow> string) \<Rightarrow> db \<Rightarrow> db \<Rightarrow> bool" for E V J where
  create: "CreateDraft (E\<lparr>now := t\<rparr>) J d sc maker why content s = (r, s') \<Longrightarrow> cfg_step E V J s s'"
| submit: "Submit (E\<lparr>now := t\<rparr>) i actor s = (u, s') \<Longrightarrow> cfg_step E V J s s'"
| approve: "Approve (E\<lparr>now := t\<rparr>) V i actor s = (u, s') \<Longrightarrow> cfg_step E V J s s'"
| activate: "Activate (E\<lparr>now := t\<rparr>) V i actor at s = (u, s') \<Longrightarrow> cfg_step E V J s s'"

lemma cfg_step_inv: "cfg_step E V J s s' \<Longrightarrow> config_inv E V J s \<Longrightarrow> config_inv E V J s'"
proof (induction rule: cfg_step.induct)
  case (create t d sc maker why content s r s')
  then show ?case by (intro CreateDraft_inv [OF create(1)]) simp_all
qed (blast intro: Submit_inv Approve_inv Activate_inv)+

lemma cfg_runs_inv: "(cfg_step E V J)\<^sup>*\<^sup>* s s' \<Longrightarrow> config_inv E V J s \<Longrightarrow> config_inv E V J s'"
  by (induction rule: rtranclp_induct) (auto intro: cfg_step_inv)

lemma GetActiveAt_Inr: "GetActiveAt d sc t s = Inr c \<Longrightarrow> c \<in> set (configs s) \<and> covers d sc t c"
  unfolding GetActiveAt_def
  by (auto split: list.splits dest!: arg_cong [where f = set])

lemma ActiveAt_Inr:
  "ActiveAt d sc t s = Inr c \<Longrightarrow> c \<in> set (configs s) \<and> (covers d sc t c \<or> covers d ScopeGlobal t c)"
  by (auto simp: ActiveAt_def split: sum.splits if_splits dest: GetActiveAt_Inr)

lemma one_active_version:
  assumes "config_inv E V J s" "r \<in> set (configs s)" "q \<in> set (configs s)"
    and "cv_state r = ''ACTIVE''" "cv_state q = ''ACTIVE''" "cv_domain r = cv_domain q" "cv_scope r = cv_scope q"
  shows "r = q"
proof (rule ccontr)
  assume "r \<noteq> q"
  have open_windows: "cv_to r = None" "cv_to q = None" using assms(1-5) by (auto simp: config_inv_def governed_def)
  then have "window_clash r q" "window_clash q r"
    using assms(4-7) by (simp_all add: window_clash_def starts_before_def split: option.splits)
  moreover from assms(2,3) \<open>r \<noteq> q\<close> obtain i j where "i < length (configs s)" "j < length (configs s)" "configs s ! i = r" "configs s ! j = q" "i \<noteq> j"
    by (metis in_set_conv_nth)
  ultimately show False using assms(1) unfolding config_inv_def sorted_wrt_iff_nth_less
    by (metis linorder_neqE_nat)
qed

text \<open>C26: Along any run of drafts, submissions, approvals and activations that starts with no
  versions, whatever \<^verbatim>\<open>ActiveAt\<close> resolves for a domain, scope and instant is a version of that domain in
  that scope or the global one, approved by somebody other than its author, accepted by the domain's validator, with a
  content hash that verifies; and at most one version per domain and scope is ACTIVE.\<close>

theorem resolved_config_is_governed:
  assumes "configs s0 = []" "(cfg_step E V J)\<^sup>*\<^sup>* s0 s" "\<And>r. r \<in> set (configs s) \<Longrightarrow> jsonb_in E (J (cv_content r)) = Some (cv_content r)"
  shows "(\<forall>d sc t c. ActiveAt d sc t s = Inr c \<longrightarrow>
      cv_domain c = d \<and> cv_scope c \<in> {sc, ScopeGlobal} \<and> (\<exists>a. cv_approver c = Some a \<and> a \<noteq> cv_by c)
      \<and> V d (cv_scope c) (cv_content c) = Inr () \<and> VerifyContentHash E J (cv_id c) s = Inr True)
    \<and> (\<forall>r \<in> set (configs s). \<forall>q \<in> set (configs s). cv_state r = ''ACTIVE'' \<and> cv_state q = ''ACTIVE''
         \<and> cv_domain r = cv_domain q \<and> cv_scope r = cv_scope q \<longrightarrow> r = q)"
proof -
  have inv: "config_inv E V J s" using cfg_runs_inv [OF assms(2)] assms(1) by (simp add: config_inv_def)
  have "cv_domain c = d \<and> cv_scope c \<in> {sc, ScopeGlobal} \<and> (\<exists>a. cv_approver c = Some a \<and> a \<noteq> cv_by c)
      \<and> V d (cv_scope c) (cv_content c) = Inr () \<and> VerifyContentHash E J (cv_id c) s = Inr True"
    if "ActiveAt d sc t s = Inr c" for d sc t c
  proof -
    from ActiveAt_Inr [OF that] inv have c: "c \<in> set (configs s)" "cv_domain c = d" "cv_scope c \<in> {sc, ScopeGlobal}"
      and "cv_state c \<in> {''ACTIVE'', ''SUPERSEDED''}" and g: "governed E V J c"
      by (auto simp: covers_def config_inv_def)
    then have "(\<exists>a. cv_approver c = Some a \<and> a \<noteq> cv_by c) \<and> V d (cv_scope c) (cv_content c) = Inr ()"
      by (auto simp: governed_def)
    moreover have "Configs_Get (cv_id c) s = Inr c"
      using c(1) inv by (intro Configs_Get_row) (simp_all add: config_inv_def)
    then have "VerifyContentHash E J (cv_id c) s = Inr True"
      using g assms(3) [OF c(1)] by (simp add: VerifyContentHash_def governed_def)
    ultimately show ?thesis using c by blast
  qed
  moreover note one_active_version [OF inv]
  ultimately show ?thesis by blast
qed

section \<open>Pinning: the past does not move\<close>

lemma insort_key_map: "insort_key f (g x) (map g xs) = map g (insort_key (\<lambda>y. f (g y)) x xs)"
  by (induction xs) simp_all

lemma sort_key_map_eq: "sort_key f (map g xs) = map g (sort_key (\<lambda>y. f (g y)) xs)"
  by (induction xs) (simp_all add: insort_key_map)

lemma insort_key_cong: "f x = h x \<Longrightarrow> \<forall>y \<in> set xs. f y = h y \<Longrightarrow> insort_key f x xs = insort_key h x xs"
  by (induction xs) simp_all

lemma sort_key_cong: "\<forall>y \<in> set xs. f y = h y \<Longrightarrow> sort_key f xs = sort_key h xs"
proof (induction xs)
  case (Cons x xs)
  then show ?case using insort_key_cong [of f x h "sort_key h xs"] by simp
qed simp

lemma hd_sort_key_strict:
  fixes f :: "'a \<Rightarrow> int"
  assumes "x \<in> set xs" "\<And>y. y \<in> set xs \<Longrightarrow> y \<noteq> x \<Longrightarrow> f x < f y"
  shows "\<exists>ys. sort_key f xs = x # ys"
proof (cases "sort_key f xs")
  case Nil
  with set_sort [of f xs] assms(1) show ?thesis by simp
next
  case (Cons y ys)
  with set_sort [of f xs] have y: "y \<in> set xs" by (metis list.set_intros(1))
  have "f y \<le> f x" using head_sort_key_least [OF Cons] assms(1) by blast
  with assms(2) [OF y] have "y = x" by force
  with Cons show ?thesis by simp
qed

lemma activated_simps [simp]:
  "cv_id (activated i at rows r) = cv_id r" "cv_domain (activated i at rows r) = cv_domain r"
  "cv_scope (activated i at rows r) = cv_scope r" "cv_content (activated i at rows r) = cv_content r"
  by (simp_all add: activated_def)

lemma activated_covers:
  assumes "governed E V J r" "t < at"
  shows "covers d sc t (activated i at rows r) = covers d sc t r"
    and "covers d sc t r \<Longrightarrow> cv_from (activated i at rows r) = cv_from r"
  using assms by (auto simp: covers_def activated_def governed_def split: option.splits)

lemma Activate_before:
  assumes "Activate E' V i actor at s = (Inr (), s')" "config_inv E V J s" "t < at"
  shows "GetActiveAt d sc t s' = map_sum id (activated i at (configs s)) (GetActiveAt d sc t s)"
proof -
  let ?g = "activated i at (configs s)" and ?xs = "filter (covers d sc t) (configs s)"
  have g: "covers d sc t (?g r) = covers d sc t r" "covers d sc t r \<Longrightarrow> cv_from (?g r) = cv_from r"
    if "r \<in> set (configs s)" for r
    using activated_covers [OF _ assms(3)] assms(2) that by (auto simp: config_inv_def)
  have "filter (covers d sc t) (configs s') = map ?g ?xs"
    unfolding Activate_rows(1) [OF assms(1)] filter_map using g(1) by (intro arg_cong [where f = "map ?g"] filter_cong) simp_all
  moreover have "sort_key (\<lambda>r. - the (cv_from r)) (map ?g ?xs) = map ?g (sort_key (\<lambda>r. - the (cv_from r)) ?xs)"
    unfolding sort_key_map_eq using g by (intro arg_cong [where f = "map ?g"] sort_key_cong) auto
  ultimately show ?thesis unfolding GetActiveAt_def by (simp split: list.splits)
qed

definition version_of :: "err + config_row \<Rightarrow> err + string \<times> json" where
  "version_of r = map_sum id (\<lambda>c. (cv_id c, cv_content c)) r"


section \<open>What an operator sees\<close>

lemma ListVersions_bounded: "length (ListVersions d sc restrict limit s) \<le> 200"
  and ListVersions_authority: "r \<in> set (ListVersions d sc restrict limit s) \<Longrightarrow> r \<in> set (configs s) \<and> in_authority restrict r"
  by (auto simp: ListVersions_def Configs_List_def dest: in_set_takeD)

lemma Overview_authority:
  "c \<in> set (Overview restrict s) \<Longrightarrow> restrict = '''' \<or> cs_scope c = restrict \<or> cs_scope c = ''global''"
  by (auto simp: Overview_def Configs_Overview_def Let_def in_authority_def split: prod.splits)

section \<open>A sample lifecycle\<close>

definition cfg_env :: env where
  "cfg_env = sample_env\<lparr>json_decode := (\<lambda>_. Some (JObj []))\<rparr>"

definition plain_text :: "json \<Rightarrow> string" where
  "plain_text j = ''{}''"

definition accept_all :: validator where
  "accept_all d sc j = Inr ()"

definition drafted_db :: db where
  "drafted_db = snd (CreateDraft (cfg_env\<lparr>now := 1\<rparr>) plain_text ''platform.outbox'' ''global'' ''alice'' ''seed'' ''{}'' empty_db)"

definition approved_db :: db where
  "approved_db = snd (Approve (cfg_env\<lparr>now := 3\<rparr>) accept_all ''cfg_0'' ''bob''
     (snd (Submit (cfg_env\<lparr>now := 2\<rparr>) ''cfg_0'' ''alice'' drafted_db)))"

definition active_db :: db where
  "active_db = snd (Activate (cfg_env\<lparr>now := 4\<rparr>) accept_all ''cfg_0'' ''bob'' 10 approved_db)"

lemma sample_approval: "(cfg_step cfg_env accept_all plain_text)\<^sup>*\<^sup>* empty_db approved_db"
proof -
  let ?step = "cfg_step cfg_env accept_all plain_text"
  let ?sub = "snd (Submit (cfg_env\<lparr>now := 2\<rparr>) ''cfg_0'' ''alice'' drafted_db)"
  have "?step empty_db drafted_db" unfolding drafted_db_def by (rule cfg_step.create) (rule prod.collapse [symmetric])
  moreover have "?step drafted_db ?sub" by (rule cfg_step.submit) (rule prod.collapse [symmetric])
  moreover have "?step ?sub approved_db" unfolding approved_db_def by (rule cfg_step.approve) (rule prod.collapse [symmetric])
  ultimately show ?thesis by (meson converse_rtranclp_into_rtranclp rtranclp.rtrancl_refl)
qed

lemma sample_lifecycle: "(cfg_step cfg_env accept_all plain_text)\<^sup>*\<^sup>* empty_db active_db"
proof -
  have "cfg_step cfg_env accept_all plain_text approved_db active_db"
    unfolding active_db_def by (rule cfg_step.activate) (rule prod.collapse [symmetric])
  with sample_approval show ?thesis by (rule rtranclp.rtrancl_into_rtrancl)
qed

lemma active_rows: "list_all (\<lambda>r. cv_content r = JObj []) (configs active_db)"
  and active_answer: "(case ActiveAt ''platform.outbox'' ''telco:T'' 12 active_db of Inr c \<Rightarrow> cv_id c = ''cfg_0'' | Inl _ \<Rightarrow> False)"
  by code_simp+

theorem resolved_config_is_governed_witness:
  "\<exists>c. ActiveAt ''platform.outbox'' ''telco:T'' 12 active_db = Inr c \<and> (\<exists>a. cv_approver c = Some a \<and> a \<noteq> cv_by c)
     \<and> VerifyContentHash cfg_env plain_text ''cfg_0'' active_db = Inr True"
proof -
  from active_answer obtain c where c: "ActiveAt ''platform.outbox'' ''telco:T'' 12 active_db = Inr c" "cv_id c = ''cfg_0''"
    by (auto split: sum.splits)
  have "configs empty_db = []" by (simp add: empty_db_def)
  moreover have "jsonb_in cfg_env (plain_text (cv_content r)) = Some (cv_content r)" if "r \<in> set (configs active_db)" for r
    using active_rows that by (simp add: list_all_iff cfg_env_def sample_env_def plain_text_def)
  ultimately have "(\<exists>a. cv_approver c = Some a \<and> a \<noteq> cv_by c) \<and> VerifyContentHash cfg_env plain_text (cv_id c) active_db = Inr True"
    using resolved_config_is_governed [OF _ sample_lifecycle] c(1) by simp
  with c show ?thesis by auto
qed

lemma approved_inv: "config_inv cfg_env accept_all plain_text approved_db"
  by (rule cfg_runs_inv [OF sample_approval]) (simp add: config_inv_def empty_db_def)


end
