(* ===== verification/Settlement.thy ===== *)
theory Settlement
  imports Ledger ConfigSvc
begin

text \<open>
  Partner settlement: \<^verbatim>\<open>usecase/settlement/settlement.go\<close> over the statements of
  \<^verbatim>\<open>repo/settlement.go\<close>. A statement is computed from the journal entries of a closed period
  under the terms in force at its start, stored line by line, finalised with a hash of its canonical form and
  verified later by computing it again. The decoding of a terms document is a parameter. The lemmas show that the two shares split the
  fee income exactly and that verification accepts exactly the ledgers that give the finalised lines.
\<close>

section \<open>Terms, statements and lines\<close>

record termsCfg =
  Cycle :: string
  TelcoShareBps :: i64
  PlatformShareBps :: i64
  Taxes :: "(string \<times> i64) list"
  ToleranceMinor :: i64

type_synonym line = "string \<times> money"

record Statement =
  StatementID :: string
  StmtTelcoID :: string
  StmtProgrammeID :: string
  PeriodStart :: int
  PeriodEnd :: int
  TermsVersionID :: string
  Lines :: "line list"
  StmtContentHash :: string
  StmtState :: string

section \<open>Statements of the store\<close>

text \<open>Which settlement concept a journal entry contributes to, and how much.\<close>

definition concept_of :: "journal_row \<Rightarrow> entry_row \<Rightarrow> string option" where
  "concept_of j e =
     (if j_type j = ''ADVANCE_ISSUED'' \<and> en_account e = ''AIRTIME_FUNDING_CLEARING'' \<and> sint (en_credit e) > 0 then Some ''DISBURSED''
      else if en_account e = ''FEE_INCOME'' then Some ''FEE_INCOME''
      else if j_type j = ''RECOVERY_APPLIED'' \<and> en_account e = ''TELCO_SETTLEMENT_RECEIVABLE'' \<and> sint (en_debit e) > 0 then Some ''RECOVERED''
      else if j_type j = ''RECOVERY_REVERSED'' \<and> en_account e = ''TELCO_SETTLEMENT_RECEIVABLE'' \<and> sint (en_credit e) > 0 then Some ''REVERSED''
      else if j_type j = ''WRITE_OFF'' \<and> en_account e = ''WRITE_OFF_EXPENSE'' \<and> sint (en_debit e) > 0 then Some ''WRITTEN_OFF''
      else if j_type j = ''WRITEOFF_RECOVERY_INC'' \<and> en_account e = ''WRITEOFF_RECOVERY_INCOME'' \<and> sint (en_credit e) > 0 then Some ''WO_INCOME''
      else None)"

definition concept_amount :: "entry_row \<Rightarrow> int" where
  "concept_amount e =
     (if en_account e = ''FEE_INCOME'' then sint (en_credit e) - sint (en_debit e)
      else max (sint (en_debit e)) (sint (en_credit e)))"

definition in_period :: "env \<Rightarrow> string \<Rightarrow> int \<Rightarrow> int \<Rightarrow> journal_row \<Rightarrow> bool" where
  "in_period E prog from to j \<longleftrightarrow> j_telco j = tenant E \<and> j_prog j = Some prog \<and> from \<le> j_posted j \<and> j_posted j < to"

definition period_rows :: "env \<Rightarrow> string \<Rightarrow> int \<Rightarrow> int \<Rightarrow> db \<Rightarrow> (string \<times> int \<times> string) list" where
  "period_rows E prog from to s =
     concat (map (\<lambda>e. concat (map (\<lambda>j.
         case concept_of j e of None \<Rightarrow> [] | Some c \<Rightarrow> [(c, concept_amount e, en_cur e)])
       (filter (\<lambda>j. j_id j = en_journal e \<and> in_period E prog from to j) (journals s)))) (entries s))"

definition concepts :: "string list" where
  "concepts = [''DISBURSED'', ''FEE_INCOME'', ''RECOVERED'', ''REVERSED'', ''WRITTEN_OFF'', ''WO_INCOME'']"

text \<open>One group of the query: the sum must fit the driver's 64-bit scan; the currency is the least of the group.\<close>

fun scan_groups :: "(string \<times> int \<times> string) list \<Rightarrow> string list \<Rightarrow> (string \<times> money) list \<times> string \<Rightarrow> err + (string \<times> money) list \<times> string" where
  "scan_groups rows [] acc = Inr acc"
| "scan_groups rows (c # cs) acc =
     (case filter (\<lambda>r. fst r = c) rows of
        [] \<Rightarrow> scan_groups rows cs acc
      | r # rs \<Rightarrow>
          let v = (\<Sum>(_, a, _)\<leftarrow>r # rs. a) in
          if \<not> in_i64 v then Inl (Fmt ''cannot scan numeric'')
          else andThen (scanMoney (word_of_int v) (foldr min (map (\<lambda>(_, _, k). k) rs) (snd (snd r)))) (\<lambda>m.
            scan_groups rows cs (fst acc @ [(c, m)], currency m)))"

definition PeriodAggregates :: "env \<Rightarrow> string \<Rightarrow> int \<Rightarrow> int \<Rightarrow> db \<Rightarrow> err + (string \<times> money) list \<times> string" where
  "PeriodAggregates E prog from to s = scan_groups (period_rows E prog from to s) concepts ([], ''NGN'')"

definition newLineID :: "string \<Rightarrow> string \<Rightarrow> string" where
  "newLineID sid code = ''sln_'' @ sid @ ''_'' @ code"

fun insert_lines :: "env \<Rightarrow> string \<Rightarrow> string \<Rightarrow> line list \<Rightarrow> db \<Rightarrow> err + db" where
  "insert_lines E sid telco [] s = Inr s"
| "insert_lines E sid telco (l # ls) s =
     andThen (rls_check E telco) (\<lambda>_.
     if \<exists>r \<in> set (stlines s). sl_id r = newLineID sid (fst l) \<or> sl_stmt r = sid \<and> sl_code r = fst l
     then Inl (Pg ''23505'' ''settlement_lines'')
     else insert_lines E sid telco ls (s\<lparr>stlines := stlines s @
       [\<lparr>sl_id = newLineID sid (fst l), sl_stmt = sid, sl_telco = telco, sl_code = fst l,
         sl_amount = amount (snd l), sl_cur = currency (snd l)\<rparr>]\<rparr>))"

definition InsertStatement :: "env \<Rightarrow> Statement \<Rightarrow> string \<Rightarrow> db \<Rightarrow> err + db" where
  "InsertStatement E st cur s =
     andThen (rls_check E (StmtTelcoID st)) (\<lambda>_.
     if PeriodEnd st \<le> PeriodStart st then Inl (Pg ''23514'' ''settlement_statements_check'')
     else if \<exists>r \<in> set (statements s). st_id r = StatementID st then Inl (Pg ''23505'' ''settlement_statements_pkey'')
     else if \<exists>r \<in> set (statements s). st_telco r = StmtTelcoID st \<and> st_prog r = StmtProgrammeID st
               \<and> st_start r = PeriodStart st \<and> st_end r = PeriodEnd st
     then Inl (Pg ''23505'' ''settlement_statements_telco_id_programme_id_key'')
     else insert_lines E (StatementID st) (StmtTelcoID st) (Lines st) (s\<lparr>statements := statements s @
       [\<lparr>st_id = StatementID st, st_telco = StmtTelcoID st, st_prog = StmtProgrammeID st, st_start = PeriodStart st,
         st_end = PeriodEnd st, st_state = ''DRAFT'', st_cur = cur, st_hash = None, st_terms = TermsVersionID st\<rparr>]\<rparr>))"

fun scan_lines :: "line_row list \<Rightarrow> err + line list" where
  "scan_lines [] = Inr []"
| "scan_lines (r # rs) = andThen (scanMoney (sl_amount r) (sl_cur r)) (\<lambda>m.
     andThen (scan_lines rs) (\<lambda>ls. Inr ((sl_code r, m) # ls)))"

definition stmt_visible :: "env \<Rightarrow> string \<Rightarrow> statement_row \<Rightarrow> bool" where
  "stmt_visible E sid r \<longleftrightarrow> st_telco r = tenant E \<and> st_id r = sid"

definition GetStatement :: "env \<Rightarrow> string \<Rightarrow> db \<Rightarrow> err + Statement" where
  "GetStatement E sid s =
     (case List.find (stmt_visible E sid) (statements s) of
        None \<Rightarrow> Inl ErrNotFound
      | Some r \<Rightarrow>
          andThen (scan_lines (sort_key sl_id (filter (\<lambda>l. sl_telco l = tenant E \<and> sl_stmt l = sid) (stlines s)))) (\<lambda>ls.
          Inr \<lparr>StatementID = st_id r, StmtTelcoID = st_telco r, StmtProgrammeID = st_prog r, PeriodStart = st_start r,
               PeriodEnd = st_end r, TermsVersionID = st_terms r, Lines = ls,
               StmtContentHash = (case st_hash r of None \<Rightarrow> '''' | Some h \<Rightarrow> h), StmtState = st_state r\<rparr>))"

definition FinaliseStatement :: "env \<Rightarrow> string \<Rightarrow> string \<Rightarrow> db \<Rightarrow> err + db" where
  "FinaliseStatement E sid hash s =
     (let p = (\<lambda>r. stmt_visible E sid r \<and> st_state r = ''DRAFT'') in
      if \<not> list_ex p (statements s) then Inl ErrNotFound
      else Inr (s\<lparr>statements := upd_where p (\<lambda>r. r\<lparr>st_state := ''FINAL'', st_hash := Some hash\<rparr>) (statements s)\<rparr>))"

section \<open>The use case\<close>

definition money_value :: "money \<Rightarrow> err + json" where
  "money_value m = andThen (MarshalJSON m) (\<lambda>w.
     Inr (JObj [(''amount_minor'', JNum (AmountMinor w)), (''currency'', JStr (JCurrency w))]))"

fun line_values :: "line list \<Rightarrow> err + json list" where
  "line_values [] = Inr []"
| "line_values (l # ls) = andThen (money_value (snd l)) (\<lambda>m. andThen (line_values ls) (\<lambda>js.
     Inr (JObj [(''code'', JStr (fst l)), (''amount'', m)] # js)))"

definition canonicalHash :: "env \<Rightarrow> Statement \<Rightarrow> err + string" where
  "canonicalHash E st =
     andThen (line_values (sort_key fst (Lines st))) (\<lambda>js.
     Inr (sha_hex E (marshal E (JObj [(''statement_id'', JStr (StatementID st)), (''telco_id'', JStr (StmtTelcoID st)),
       (''programme_id'', JStr (StmtProgrammeID st)), (''period_start'', JStr (rfc3339nano E (PeriodStart st))),
       (''period_end'', JStr (rfc3339nano E (PeriodEnd st))), (''terms_version_id'', JStr (TermsVersionID st)),
       (''lines'', JArr js)]))))"

fun tax_lines :: "money \<Rightarrow> (string \<times> i64) list \<Rightarrow> err + line list" where
  "tax_lines fee [] = Inr []"
| "tax_lines fee (t # ts) = andThen (PercentBps fee (snd t)) (\<lambda>m. andThen (tax_lines fee ts) (\<lambda>ls.
     Inr ((''TAX_'' @ fst t, m) # ls)))"

text \<open>The lines of a period, the same code in generation and verification.\<close>

definition ledger_lines :: "env \<Rightarrow> termsCfg \<Rightarrow> string \<Rightarrow> int \<Rightarrow> int \<Rightarrow> db \<Rightarrow> err + line list \<times> string" where
  "ledger_lines E terms prog from to s =
     andThen (PeriodAggregates E prog from to s) (\<lambda>(agg, cur).
     andThen (ZeroMoney cur) (\<lambda>zero.
     let pick = (\<lambda>k. case map_of agg k of Some m \<Rightarrow> m | None \<Rightarrow> zero);
         feeIncome = pick ''FEE_INCOME'' in
     andThen (PercentBps feeIncome (TelcoShareBps terms)) (\<lambda>telcoShare.
     andThen (Sub feeIncome telcoShare) (\<lambda>platformShare.
     andThen (tax_lines feeIncome (Taxes terms)) (\<lambda>taxes.
     Inr ([(''PRINCIPAL_DISBURSED'', pick ''DISBURSED''), (''FEE_INCOME_TOTAL'', feeIncome),
           (''RECOVERED_TOTAL'', pick ''RECOVERED''), (''RECOVERY_REVERSED_TOTAL'', pick ''REVERSED''),
           (''WRITEOFF_EXPENSE_TOTAL'', pick ''WRITTEN_OFF''), (''WRITEOFF_RECOVERY_INCOME_TOTAL'', pick ''WO_INCOME''),
           (''TELCO_SHARE'', telcoShare), (''PLATFORM_SHARE'', platformShare)] @ taxes, cur))))))"

definition generate_tx :: "termsCfg \<Rightarrow> Statement \<Rightarrow> env \<Rightarrow> db \<Rightarrow> err + Statement \<times> db" where
  "generate_tx terms st E s =
     andThen (ledger_lines E terms (StmtProgrammeID st) (PeriodStart st) (PeriodEnd st) s) (\<lambda>(ls, cur).
     let st = st\<lparr>Lines := ls\<rparr> in
     andThen (canonicalHash E st) (\<lambda>h.
     andThen (InsertStatement E st cur s) (\<lambda>s. Inr (st\<lparr>StmtContentHash := h\<rparr>, s))))"

definition Generate :: "env \<Rightarrow> (json \<Rightarrow> err + termsCfg) \<Rightarrow> string \<Rightarrow> string \<Rightarrow> int \<Rightarrow> int \<Rightarrow> db \<Rightarrow> (err + Statement) \<times> db" where
  "Generate E D telco prog from to s =
     (if \<not> from < to then (Inl (Fmt ''period_end must be after period_start''), s)
      else if now E < to then (Inl (Fmt ''cannot settle an open/future period''), s)
      else case ActiveAt ''settlement.terms'' (''programme:'' @ prog) from s of Inl e \<Rightarrow> (Inl e, s)
      | Inr cv \<Rightarrow>
          (case D (cv_content cv) of Inl e \<Rightarrow> (Inl e, s)
           | Inr terms \<Rightarrow>
               let (sid, s) = NewID E ''stm'' s in
               WithTenantTx E telco (generate_tx terms \<lparr>StatementID = sid, StmtTelcoID = telco, StmtProgrammeID = prog,
                 PeriodStart = from, PeriodEnd = to, TermsVersionID = cv_id cv, Lines = [], StmtContentHash = '''', StmtState = ''DRAFT''\<rparr>) s))"

definition finalise_tx :: "string \<Rightarrow> env \<Rightarrow> db \<Rightarrow> err + unit \<times> db" where
  "finalise_tx sid E s =
     andThen (GetStatement E sid s) (\<lambda>st.
     andThen (canonicalHash E st) (\<lambda>h.
     andThen (FinaliseStatement E sid h s) (\<lambda>s. Inr ((), s))))"

definition Finalise :: "env \<Rightarrow> string \<Rightarrow> string \<Rightarrow> db \<Rightarrow> (err + unit) \<times> db" where
  "Finalise E telco sid s = WithTenantTx E telco (finalise_tx sid) s"

definition verify_tx :: "(json \<Rightarrow> err + termsCfg) \<Rightarrow> string \<Rightarrow> env \<Rightarrow> db \<Rightarrow> err + unit \<times> db" where
  "verify_tx D sid E s =
     andThen (GetStatement E sid s) (\<lambda>st.
     if StmtState st \<noteq> ''FINAL'' \<or> StmtContentHash st = '''' then Inl (Fmt ''statement is not FINAL'')
     else
     andThen (Configs_Get (TermsVersionID st) s) (\<lambda>cv.
     andThen (D (cv_content cv)) (\<lambda>terms.
     andThen (ledger_lines E terms (StmtProgrammeID st) (PeriodStart st) (PeriodEnd st) s) (\<lambda>(ls, cur).
     andThen (canonicalHash E (st\<lparr>Lines := ls\<rparr>)) (\<lambda>h.
     if h \<noteq> StmtContentHash st then Inl ErrNotReproducible else Inr ((), s))))))"

definition VerifyReproducible :: "env \<Rightarrow> (json \<Rightarrow> err + termsCfg) \<Rightarrow> string \<Rightarrow> string \<Rightarrow> db \<Rightarrow> (err + unit) \<times> db" where
  "VerifyReproducible E D telco sid s = WithTenantTx E telco (verify_tx D sid) s"

section \<open>What the ledger gives\<close>

definition group_sum :: "(string \<times> int \<times> string) list \<Rightarrow> string \<Rightarrow> int" where
  "group_sum rows c = (\<Sum>(_, a, _)\<leftarrow>filter (\<lambda>r. fst r = c) rows. a)"

definition group_ok :: "(string \<times> int \<times> string) list \<Rightarrow> (string \<times> money) list \<Rightarrow> string \<Rightarrow> bool" where
  "group_ok rows agg c \<longleftrightarrow> (case map_of agg c of None \<Rightarrow> group_sum rows c = 0 | Some m \<Rightarrow> sint (amount m) = group_sum rows c)"

lemma scan_groups_Inr:
  assumes "scan_groups rows cs acc = Inr (agg, cur)" "distinct cs" "\<forall>p \<in> set (fst acc). fst p \<notin> set cs \<and> Valid (currency (snd p))" "Valid (snd acc)"
  shows "Valid cur \<and> (\<forall>p \<in> set agg. Valid (currency (snd p))) \<and> (\<forall>c \<in> set cs. group_ok rows agg c)
    \<and> (\<exists>new. agg = fst acc @ new \<and> fst ` set new \<subseteq> set cs)"
  using assms
proof (induction cs arbitrary: acc)
  case (Cons c cs)
  let ?g = "filter (\<lambda>r. fst r = c) rows"
  have fresh: "map_of (fst acc) c = None" using Cons.prems(3) by (force simp: map_of_eq_None_iff)
  show ?case
  proof (cases ?g)
    case Nil
    with Cons.prems(1) have run: "scan_groups rows cs acc = Inr (agg, cur)" by simp
    have "distinct cs" "\<forall>p \<in> set (fst acc). fst p \<notin> set cs \<and> Valid (currency (snd p))" using Cons.prems(2,3) by simp_all
    from Cons.IH [OF run this Cons.prems(4)] obtain new where ih: "Valid cur" "\<forall>p \<in> set agg. Valid (currency (snd p))"
      "\<forall>c \<in> set cs. group_ok rows agg c" and new: "agg = fst acc @ new" "fst ` set new \<subseteq> set cs" by blast
    have "map_of new c = None" using new(2) Cons.prems(2) by (force simp: map_of_eq_None_iff)
    with fresh new(1) have "map_of agg c = None" by simp
    then have "group_ok rows agg c" by (simp add: group_ok_def group_sum_def Nil)
    with ih new show ?thesis by auto
  next
    case (Cons r rs)
    define m where "m = \<lparr>amount = word_of_int (group_sum rows c), currency = foldr min (map (\<lambda>(_, _, k). k) rs) (snd (snd r))\<rparr>"
    from Cons.prems(1) Cons have m: "in_i64 (group_sum rows c)" "amount m = word_of_int (group_sum rows c)" "Valid (currency m)"
      and run: "scan_groups rows cs (fst acc @ [(c, m)], currency m) = Inr (agg, cur)"
      by (auto simp: Let_def andThen_Inr_iff scanMoney_Inr group_sum_def m_def split: if_splits)
    have "distinct cs" "\<forall>p \<in> set (fst (fst acc @ [(c, m)], currency m)). fst p \<notin> set cs \<and> Valid (currency (snd p))"
      "Valid (snd (fst acc @ [(c, m)], currency m))"
      using Cons.prems(2,3) m by auto
    from Cons.IH [OF run this] obtain new where ih: "Valid cur" "\<forall>p \<in> set agg. Valid (currency (snd p))"
      "\<forall>c \<in> set cs. group_ok rows agg c" and new: "agg = (fst acc @ [(c, m)]) @ new" "fst ` set new \<subseteq> set cs" by auto
    have "map_of agg c = Some m" using fresh new by (simp add: map_add_def)
    moreover have "sint (amount m) = group_sum rows c" unfolding m(2) by (rule sint_of_int_i64 [OF m(1)])
    ultimately have "group_ok rows agg c" by (simp add: group_ok_def)
    with ih new show ?thesis by auto
  qed
qed auto

lemma PeriodAggregates_Inr:
  assumes "PeriodAggregates E prog from to s = Inr (agg, cur)"
  shows "Valid cur" and "\<And>k m. map_of agg k = Some m \<Longrightarrow> Valid (currency m)"
    and "sint (amount (case map_of agg ''FEE_INCOME'' of Some m \<Rightarrow> m | None \<Rightarrow> \<lparr>amount = 0, currency = cur\<rparr>))
         = group_sum (period_rows E prog from to s) ''FEE_INCOME''"
proof -
  have "distinct concepts" "Valid ''NGN''" by code_simp+
  with scan_groups_Inr [OF assms [unfolded PeriodAggregates_def]]
  have all: "Valid cur" "\<forall>p \<in> set agg. Valid (currency (snd p))" "\<forall>c \<in> set concepts. group_ok (period_rows E prog from to s) agg c"
    by simp_all
  show "Valid cur" by (rule all(1))
  show "\<And>k m. map_of agg k = Some m \<Longrightarrow> Valid (currency m)" using all(2) map_of_SomeD by fastforce
  have "''FEE_INCOME'' \<in> set concepts" by (simp add: concepts_def)
  with all(3) have "group_ok (period_rows E prog from to s) agg ''FEE_INCOME''" by blast
  then show "sint (amount (case map_of agg ''FEE_INCOME'' of Some m \<Rightarrow> m | None \<Rightarrow> \<lparr>amount = 0, currency = cur\<rparr>))
         = group_sum (period_rows E prog from to s) ''FEE_INCOME''"
    by (auto simp: group_ok_def split: option.splits)
qed

lemma PercentBps_set: "PercentBps m bps = Inr r \<Longrightarrow> currency r = currency m \<and> IsSet m"
  by (auto simp: PercentBps_def Let_def split: if_splits)

lemma tax_lines_currency: "tax_lines fee ts = Inr ls \<Longrightarrow> \<forall>l \<in> set ls. currency (snd l) = currency fee"
proof (induction ts arbitrary: ls)
  case (Cons t ts)
  then obtain m ls' where "PercentBps fee (snd t) = Inr m" "tax_lines fee ts = Inr ls'" "ls = (''TAX_'' @ fst t, m) # ls'"
    by (auto simp: andThen_Inr_iff)
  with Cons.IH [of ls'] PercentBps_set [of fee "snd t" m] show ?case by simp
qed simp

lemma ledger_lines_Inr:
  assumes "ledger_lines E terms prog from to s = Inr (ls, cur)"
  obtains agg fee a b taxes where
    "PeriodAggregates E prog from to s = Inr (agg, cur)"
    "fee = (case map_of agg ''FEE_INCOME'' of Some m \<Rightarrow> m | None \<Rightarrow> \<lparr>amount = 0, currency = cur\<rparr>)"
    "PercentBps fee (TelcoShareBps terms) = Inr a" "Sub fee a = Inr b" "tax_lines fee (Taxes terms) = Inr taxes"
    "ls = (let pick = (\<lambda>k. case map_of agg k of Some m \<Rightarrow> m | None \<Rightarrow> \<lparr>amount = 0, currency = cur\<rparr>) in
       [(''PRINCIPAL_DISBURSED'', pick ''DISBURSED''), (''FEE_INCOME_TOTAL'', fee),
           (''RECOVERED_TOTAL'', pick ''RECOVERED''), (''RECOVERY_REVERSED_TOTAL'', pick ''REVERSED''),
           (''WRITEOFF_EXPENSE_TOTAL'', pick ''WRITTEN_OFF''), (''WRITEOFF_RECOVERY_INCOME_TOTAL'', pick ''WO_INCOME''),
           (''TELCO_SHARE'', a), (''PLATFORM_SHARE'', b)] @ taxes)"
proof -
  from assms obtain agg where agg: "PeriodAggregates E prog from to s = Inr (agg, cur)"
    by (auto simp: ledger_lines_def andThen_Inr_iff Let_def)
  with PeriodAggregates_Inr(1) [OF agg] assms that show thesis
    by (auto simp: ledger_lines_def andThen_Inr_iff Let_def)
qed

lemma ledger_lines_valid:
  assumes "ledger_lines E terms prog from to s = Inr (ls, cur)" "l \<in> set ls"
  shows "Valid (currency (snd l))"
proof -
  from assms(1) obtain agg fee a b taxes where agg: "PeriodAggregates E prog from to s = Inr (agg, cur)"
    and fee: "fee = (case map_of agg ''FEE_INCOME'' of Some m \<Rightarrow> m | None \<Rightarrow> \<lparr>amount = 0, currency = cur\<rparr>)"
    and a: "PercentBps fee (TelcoShareBps terms) = Inr a" and b: "Sub fee a = Inr b" and taxes: "tax_lines fee (Taxes terms) = Inr taxes"
    and ls: "ls = (let pick = (\<lambda>k. case map_of agg k of Some m \<Rightarrow> m | None \<Rightarrow> \<lparr>amount = 0, currency = cur\<rparr>) in
       [(''PRINCIPAL_DISBURSED'', pick ''DISBURSED''), (''FEE_INCOME_TOTAL'', fee),
           (''RECOVERED_TOTAL'', pick ''RECOVERED''), (''RECOVERY_REVERSED_TOTAL'', pick ''REVERSED''),
           (''WRITEOFF_EXPENSE_TOTAL'', pick ''WRITTEN_OFF''), (''WRITEOFF_RECOVERY_INCOME_TOTAL'', pick ''WO_INCOME''),
           (''TELCO_SHARE'', a), (''PLATFORM_SHARE'', b)] @ taxes)"
    by (rule ledger_lines_Inr)
  have pick: "Valid (currency (case map_of agg k of Some m \<Rightarrow> m | None \<Rightarrow> \<lparr>amount = 0, currency = cur\<rparr>))" for k
    using PeriodAggregates_Inr(1,2) [OF agg] by (auto split: option.splits)
  then have "Valid (currency fee)" by (simp add: fee)
  moreover have "currency a = currency fee" "currency b = currency fee" using PercentBps_set [OF a] b by (auto simp: Sub_Inr)
  ultimately show ?thesis using assms(2) pick tax_lines_currency [OF taxes] by (auto simp: ls Let_def)
qed

definition draft :: "string \<Rightarrow> string \<Rightarrow> string \<Rightarrow> int \<Rightarrow> int \<Rightarrow> string \<Rightarrow> Statement" where
  "draft sid telco prog from to ver = \<lparr>StatementID = sid, StmtTelcoID = telco, StmtProgrammeID = prog,
     PeriodStart = from, PeriodEnd = to, TermsVersionID = ver, Lines = [], StmtContentHash = '''', StmtState = ''DRAFT''\<rparr>"

lemma Generate_Inr:
  assumes "Generate E D telco prog from to s = (Inr st, s')"
  shows "\<exists>cv terms. ActiveAt ''settlement.terms'' (''programme:'' @ prog) from s = Inr cv \<and> D (cv_content cv) = Inr terms
    \<and> telco \<noteq> '''' \<and> from < to \<and> to \<le> now E
    \<and> generate_tx terms (draft (new_id E ''stm'' (next_id s)) telco prog from to (cv_id cv)) (E\<lparr>tenant := telco\<rparr>)
        (s\<lparr>next_id := Suc (next_id s)\<rparr>) = Inr (st, s')"
  using assms unfolding Generate_def by (auto simp: WithTenantTx_Inr Let_def NewID_def draft_def split: if_splits sum.splits)

lemma generate_tx_Inr:
  "generate_tx terms st0 E s = Inr (st, s') \<longleftrightarrow> (\<exists>ls cur h. ledger_lines E terms (StmtProgrammeID st0) (PeriodStart st0) (PeriodEnd st0) s = Inr (ls, cur)
     \<and> canonicalHash E (st0\<lparr>Lines := ls\<rparr>) = Inr h \<and> InsertStatement E (st0\<lparr>Lines := ls\<rparr>) cur s = Inr s'
     \<and> st = st0\<lparr>Lines := ls, StmtContentHash := h\<rparr>)"
  by (auto simp: generate_tx_def andThen_Inr_iff Let_def)

text \<open>A generated statement takes its fee income from the ledger as the signed net of the
  period, and the telco's and the platform's shares add up to it exactly; the telco's share is the agreed rate
  to within half a minor unit.\<close>

theorem settlement_partition:
  assumes "Generate E D telco prog from to s = (Inr st, s')"
  shows "\<exists>terms fee a b. map_of (Lines st) ''FEE_INCOME_TOTAL'' = Some fee \<and> map_of (Lines st) ''TELCO_SHARE'' = Some a
     \<and> map_of (Lines st) ''PLATFORM_SHARE'' = Some b
     \<and> currency a = currency fee \<and> currency b = currency fee \<and> sint (amount a) + sint (amount b) = sint (amount fee)
     \<and> 2 * \<bar>sint (amount a) * 10000 - sint (amount fee) * sint (TelcoShareBps terms)\<bar> \<le> 10000
     \<and> sint (amount fee) = group_sum (period_rows (E\<lparr>tenant := telco\<rparr>) prog from to s) ''FEE_INCOME''
     \<and> (\<exists>cv. ActiveAt ''settlement.terms'' (''programme:'' @ prog) from s = Inr cv \<and> D (cv_content cv) = Inr terms)"
proof -
  let ?s = "s\<lparr>next_id := Suc (next_id s)\<rparr>"
  from Generate_Inr [OF assms] obtain cv terms where cv: "ActiveAt ''settlement.terms'' (''programme:'' @ prog) from s = Inr cv" "D (cv_content cv) = Inr terms"
    and tx: "generate_tx terms (draft (new_id E ''stm'' (next_id s)) telco prog from to (cv_id cv)) (E\<lparr>tenant := telco\<rparr>) ?s = Inr (st, s')"
    by blast
  then obtain ls cur where ls: "ledger_lines (E\<lparr>tenant := telco\<rparr>) terms prog from to ?s = Inr (ls, cur)" and lines: "Lines st = ls"
    by (auto simp: generate_tx_Inr draft_def)
  have rows: "period_rows F prog from to ?s = period_rows F prog from to s" for F by (simp add: period_rows_def)
  from ls obtain agg fee a b taxes where agg: "PeriodAggregates (E\<lparr>tenant := telco\<rparr>) prog from to ?s = Inr (agg, cur)"
    and fee: "fee = (case map_of agg ''FEE_INCOME'' of Some m \<Rightarrow> m | None \<Rightarrow> \<lparr>amount = 0, currency = cur\<rparr>)"
    and a: "PercentBps fee (TelcoShareBps terms) = Inr a" and b: "Sub fee a = Inr b"
    and eq: "ls = (let pick = (\<lambda>k. case map_of agg k of Some m \<Rightarrow> m | None \<Rightarrow> \<lparr>amount = 0, currency = cur\<rparr>) in
       [(''PRINCIPAL_DISBURSED'', pick ''DISBURSED''), (''FEE_INCOME_TOTAL'', fee),
           (''RECOVERED_TOTAL'', pick ''RECOVERED''), (''RECOVERY_REVERSED_TOTAL'', pick ''REVERSED''),
           (''WRITEOFF_EXPENSE_TOTAL'', pick ''WRITTEN_OFF''), (''WRITEOFF_RECOVERY_INCOME_TOTAL'', pick ''WO_INCOME''),
           (''TELCO_SHARE'', a), (''PLATFORM_SHARE'', b)] @ taxes)"
    by (rule ledger_lines_Inr)
  have "map_of (Lines st) ''FEE_INCOME_TOTAL'' = Some fee" "map_of (Lines st) ''TELCO_SHARE'' = Some a"
    "map_of (Lines st) ''PLATFORM_SHARE'' = Some b"
    unfolding lines eq by (simp_all add: Let_def)
  moreover have "currency a = currency fee" using PercentBps_set [OF a] by simp
  moreover have "currency b = currency fee" "sint (amount a) + sint (amount b) = sint (amount fee)"
    using b by (auto simp: Sub_Inr i64_simps)
  moreover have "2 * \<bar>sint (amount a) * 10000 - sint (amount fee) * sint (TelcoShareBps terms)\<bar> \<le> 10000"
    using half_up_bound [of "sint (amount fee) * sint (TelcoShareBps terms)"] a PercentBps_set [OF a]
    by (auto simp: PercentBps_eq Let_def sint_of_int_i64 split: if_splits)
  moreover have "sint (amount fee) = group_sum (period_rows (E\<lparr>tenant := telco\<rparr>) prog from to s) ''FEE_INCOME''"
    unfolding fee using PeriodAggregates_Inr(3) [OF agg] rows by simp
  ultimately show ?thesis using cv by blast
qed

section \<open>Statements read back\<close>

definition stored_line :: "string \<Rightarrow> string \<Rightarrow> line \<Rightarrow> line_row" where
  "stored_line sid telco l = \<lparr>sl_id = newLineID sid (fst l), sl_stmt = sid, sl_telco = telco, sl_code = fst l,
     sl_amount = amount (snd l), sl_cur = currency (snd l)\<rparr>"

definition read_line :: "line_row \<Rightarrow> line" where
  "read_line r = (sl_code r, \<lparr>amount = sl_amount r, currency = sl_cur r\<rparr>)"

lemma read_stored [simp]: "read_line (stored_line sid telco l) = l"
  by (cases l) (simp add: read_line_def stored_line_def)

lemma insert_lines_Inr:
  "insert_lines E sid telco ls s = Inr s' \<Longrightarrow> s' = s\<lparr>stlines := stlines s @ map (stored_line sid telco) ls\<rparr>
     \<and> distinct (map fst ls) \<and> (\<forall>r \<in> set (stlines s). sl_stmt r = sid \<longrightarrow> sl_code r \<notin> set (map fst ls))"
proof (induction ls arbitrary: s)
  case (Cons l ls)
  let ?s = "s\<lparr>stlines := stlines s @ [stored_line sid telco l]\<rparr>"
  from Cons.prems have new: "\<forall>r \<in> set (stlines s). \<not> (sl_stmt r = sid \<and> sl_code r = fst l)"
    and rest: "insert_lines E sid telco ls ?s = Inr s'"
    by (auto simp: andThen_Inr_iff stored_line_def split: if_splits)
  from Cons.IH [OF rest] have ih: "s' = ?s\<lparr>stlines := stlines ?s @ map (stored_line sid telco) ls\<rparr>" "distinct (map fst ls)"
    "\<forall>r \<in> set (stlines ?s). sl_stmt r = sid \<longrightarrow> sl_code r \<notin> set (map fst ls)" by blast+
  have "fst l \<notin> set (map fst ls)" using ih(3) by (simp add: stored_line_def)
  with ih new show ?case by auto
qed simp

lemma scan_lines_valid: "\<forall>r \<in> set rs. Valid (sl_cur r) \<Longrightarrow> scan_lines rs = Inr (map read_line rs)"
  by (induction rs) (simp_all add: scanMoney_def read_line_def)

lemma canonicalHash_perm:
  assumes "mset ls' = mset ls" "distinct (map fst ls)"
  shows "canonicalHash E (st\<lparr>Lines := ls'\<rparr>) = canonicalHash E (st\<lparr>Lines := ls\<rparr>)"
proof -
  have "inj_on fst (set ls')" using assms mset_eq_setD [OF assms(1)] by (simp add: distinct_map)
  then have "sort_key fst ls' = sort_key fst ls" using assms(1) by (intro sort_key_inj_key_eq) simp_all
  then show ?thesis by (simp add: canonicalHash_def)
qed

lemma GetStatement_inserted:
  assumes "InsertStatement E st cur s = Inr s'" "\<forall>l \<in> set (stlines s). \<exists>r \<in> set (statements s). st_id r = sl_stmt l"
    and "\<forall>l \<in> set (Lines st). Valid (currency (snd l))"
  obtains ls where "GetStatement E (StatementID st) s' = Inr (st\<lparr>Lines := ls, StmtContentHash := '''', StmtState := ''DRAFT''\<rparr>)"
    "mset ls = mset (Lines st)" "distinct (map fst (Lines st))" "journals s' = journals s" "entries s' = entries s" "configs s' = configs s"
proof -
  let ?row = "\<lparr>st_id = StatementID st, st_telco = StmtTelcoID st, st_prog = StmtProgrammeID st, st_start = PeriodStart st,
         st_end = PeriodEnd st, st_state = ''DRAFT'', st_cur = cur, st_hash = None, st_terms = TermsVersionID st\<rparr>"
  from assms(1) have telco: "StmtTelcoID st = tenant E" and fresh: "\<forall>r \<in> set (statements s). st_id r \<noteq> StatementID st"
    and ins: "insert_lines E (StatementID st) (StmtTelcoID st) (Lines st) (s\<lparr>statements := statements s @ [?row]\<rparr>) = Inr s'"
    by (auto simp: InsertStatement_def andThen_Inr_iff rls_check_Inr split: if_splits)
  from insert_lines_Inr [OF ins] have s': "s' = s\<lparr>statements := statements s @ [?row], stlines := stlines s @ map (stored_line (StatementID st) (StmtTelcoID st)) (Lines st)\<rparr>"
    and d: "distinct (map fst (Lines st))" by simp_all
  have "List.find (stmt_visible E (StatementID st)) (statements s @ [?row]) = Some ?row"
  proof -
    have "List.find (stmt_visible E (StatementID st)) rs = None \<Longrightarrow> List.find (stmt_visible E (StatementID st)) (rs @ [?row]) = Some ?row" for rs
      by (induction rs) (auto simp: stmt_visible_def telco split: if_splits)
    moreover have "List.find (stmt_visible E (StatementID st)) (statements s) = None" using fresh by (auto simp: find_None_iff stmt_visible_def)
    ultimately show ?thesis by blast
  qed
  note found = this
  have none: "filter (\<lambda>l. sl_telco l = tenant E \<and> sl_stmt l = StatementID st) (stlines s) = []"
    unfolding filter_empty_conv
  proof (intro ballI notI)
    fix l assume "l \<in> set (stlines s)" "sl_telco l = tenant E \<and> sl_stmt l = StatementID st"
    with fresh assms(2) show False by metis
  qed
  have mine: "filter (\<lambda>l. sl_telco l = tenant E \<and> sl_stmt l = StatementID st) (stlines s')
     = map (stored_line (StatementID st) (StmtTelcoID st)) (Lines st)"
    unfolding s' using none telco by (simp add: filter_map comp_def stored_line_def)
  define rs where "rs = sort_key sl_id (map (stored_line (StatementID st) (StmtTelcoID st)) (Lines st))"
  have scanned: "scan_lines rs = Inr (map read_line rs)"
    using assms(3) by (intro scan_lines_valid) (auto simp: rs_def stored_line_def)
  have "GetStatement E (StatementID st) s' = Inr (st\<lparr>Lines := map read_line rs, StmtContentHash := '''', StmtState := ''DRAFT''\<rparr>)"
    unfolding GetStatement_def mine rs_def [symmetric] scanned using found by (cases st) (simp add: s')
  moreover have "mset (map read_line rs) = mset (Lines st)" by (simp add: rs_def multiset.map_comp comp_def)
  ultimately show thesis by (rule that [OF _ _ d]) (simp_all only: s', simp_all)
qed

text \<open>Later postings: new journals after the period, their entries, nothing else.\<close>

definition ledger_grows :: "int \<Rightarrow> db \<Rightarrow> db \<Rightarrow> bool" where
  "ledger_grows to s s' \<longleftrightarrow> (\<exists>js es. journals s' = journals s @ js \<and> entries s' = entries s @ es
     \<and> (\<forall>j \<in> set js. to \<le> j_posted j) \<and> (\<forall>e \<in> set es. \<forall>j \<in> set (journals s). en_journal e \<noteq> j_id j))"

lemma period_rows_grow:
  assumes "ledger_grows to s s'"
  shows "period_rows E prog from to s' = period_rows E prog from to s"
proof -
  from assms obtain js es where g: "journals s' = journals s @ js" "entries s' = entries s @ es"
    "\<forall>j \<in> set js. to \<le> j_posted j" "\<forall>e \<in> set es. \<forall>j \<in> set (journals s). en_journal e \<noteq> j_id j"
    by (auto simp: ledger_grows_def)
  have late: "filter (\<lambda>j. j_id j = x \<and> in_period E prog from to j) js = []" for x
    using g(3) by (auto simp: filter_empty_conv in_period_def)
  have other: "filter (\<lambda>j. j_id j = en_journal e \<and> in_period E prog from to j) (journals s) = []" if "e \<in> set es" for e
    using g(4) that by (metis (mono_tags, lifting) filter_False)
  have "concat (map (\<lambda>e. concat (map (\<lambda>j. case concept_of j e of None \<Rightarrow> [] | Some c \<Rightarrow> [(c, concept_amount e, en_cur e)])
       (filter (\<lambda>j. j_id j = en_journal e \<and> in_period E prog from to j) (journals s)))) es) = []"
    using other by auto
  then show ?thesis unfolding period_rows_def g(1,2) by (simp add: late)
qed

lemma env_now [simp]:
  "canonicalHash (E\<lparr>now := t\<rparr>) st = canonicalHash E st" "GetStatement (E\<lparr>now := t\<rparr>) sid s = GetStatement E sid s"
  "ledger_lines (E\<lparr>now := t\<rparr>) terms prog from to s = ledger_lines E terms prog from to s"
  by (simp_all add: canonicalHash_def GetStatement_def stmt_visible_def [abs_def] ledger_lines_def PeriodAggregates_def period_rows_def in_period_def split: option.split)

lemma env_swap: "E\<lparr>now := t, tenant := c\<rparr> = E\<lparr>tenant := c, now := t\<rparr>"
  by simp

lemma env_now_tenant [simp]:
  "canonicalHash (E\<lparr>now := t, tenant := c\<rparr>) st = canonicalHash (E\<lparr>tenant := c\<rparr>) st"
  "GetStatement (E\<lparr>now := t, tenant := c\<rparr>) sid s = GetStatement (E\<lparr>tenant := c\<rparr>) sid s"
  "ledger_lines (E\<lparr>now := t, tenant := c\<rparr>) terms prog from to s = ledger_lines (E\<lparr>tenant := c\<rparr>) terms prog from to s"
  "FinaliseStatement (E\<lparr>now := t, tenant := c\<rparr>) sid h s = FinaliseStatement (E\<lparr>tenant := c\<rparr>) sid h s"
  unfolding env_swap env_now by (simp_all add: FinaliseStatement_def stmt_visible_def)

lemma GetStatement_final:
  assumes "GetStatement E sid s = Inr st" "StmtState st = ''DRAFT''" "FinaliseStatement E sid h s = Inr s'"
  shows "GetStatement E sid s' = Inr (st\<lparr>StmtContentHash := h, StmtState := ''FINAL''\<rparr>)"
proof -
  let ?p = "\<lambda>r. stmt_visible E sid r \<and> st_state r = ''DRAFT''" and ?f = "\<lambda>r. r\<lparr>st_state := ''FINAL'', st_hash := Some h\<rparr>"
  have s': "s' = s\<lparr>statements := upd_where ?p ?f (statements s)\<rparr>"
    using assms(3) by (auto simp: FinaliseStatement_def Let_def split: if_splits)
  have vis: "stmt_visible E sid (?f r) = stmt_visible E sid r" for r by (simp add: stmt_visible_def)
  from assms(1,2) obtain r where r: "List.find (stmt_visible E sid) (statements s) = Some r" "st_state r = ''DRAFT''"
    by (auto simp: GetStatement_def andThen_Inr_iff split: option.splits)
  then have "List.find (stmt_visible E sid) (statements s') = Some (?f r)"
    using find_upd_where [of "stmt_visible E sid" ?f ?p "statements s", OF vis] find_SomeD [OF r(1)] by (simp add: s')
  with assms(1) r show ?thesis by (auto simp: GetStatement_def andThen_Inr_iff s')
qed

text \<open>C28: A finalised statement verifies for ever: whatever is posted to the ledger after the
  settled period, as long as the statement's own rows and the content of its pinned terms version stay, recomputing it
  gives the recorded hash, even though the stored lines are read back in another order.\<close>

theorem settlement_reproducible:
  assumes gen: "Generate E D telco prog from to s = (Inr st, s1)"
    and fk: "\<forall>l \<in> set (stlines s). \<exists>r \<in> set (statements s). st_id r = sl_stmt l"
    and fin: "Finalise (E\<lparr>now := t2\<rparr>) telco (StatementID st) s1 = (Inr (), s2)"
    and kept: "GetStatement (E\<lparr>tenant := telco\<rparr>) (StatementID st) s3 = GetStatement (E\<lparr>tenant := telco\<rparr>) (StatementID st) s2"
    and pinned: "Configs_Get (TermsVersionID st) s3 = Inr c3" "\<forall>c \<in> set (configs s). cv_id c = TermsVersionID st \<longrightarrow> cv_content c = cv_content c3"
    and ledger: "ledger_grows to s s3" and sha: "\<And>x. sha_hex E x \<noteq> ''''"
  shows "VerifyReproducible (E\<lparr>now := t3\<rparr>) D telco (StatementID st) s3 = (Inr (), s3)"
proof -
  let ?E = "E\<lparr>tenant := telco\<rparr>" and ?s = "s\<lparr>next_id := Suc (next_id s)\<rparr>"
  from Generate_Inr [OF gen] obtain cv terms where cv: "ActiveAt ''settlement.terms'' (''programme:'' @ prog) from s = Inr cv" "D (cv_content cv) = Inr terms"
    and telco: "telco \<noteq> ''''"
    and tx: "generate_tx terms (draft (new_id E ''stm'' (next_id s)) telco prog from to (cv_id cv)) ?E ?s = Inr (st, s1)" by blast
  define d where "d = draft (new_id E ''stm'' (next_id s)) telco prog from to (cv_id cv)"
  from tx obtain ls cur h where ls: "ledger_lines ?E terms prog from to ?s = Inr (ls, cur)" and h: "canonicalHash ?E (d\<lparr>Lines := ls\<rparr>) = Inr h"
    and ins: "InsertStatement ?E (d\<lparr>Lines := ls\<rparr>) cur ?s = Inr s1" and st: "st = d\<lparr>Lines := ls, StmtContentHash := h\<rparr>"
    by (auto simp: generate_tx_Inr d_def draft_def)
  have fields: "StatementID st = StatementID d" "TermsVersionID st = cv_id cv" by (simp_all add: st d_def draft_def)
  have "\<forall>l \<in> set (Lines (d\<lparr>Lines := ls\<rparr>)). Valid (currency (snd l))" using ledger_lines_valid [OF ls] by simp
  from GetStatement_inserted [OF ins _ this] fk obtain ls' where
    stored: "GetStatement ?E (StatementID d) s1 = Inr (d\<lparr>Lines := ls', StmtContentHash := '''', StmtState := ''DRAFT''\<rparr>)"
    and perm: "mset ls' = mset ls" "distinct (map fst ls)" by auto
  have same_hash: "canonicalHash ?E (x\<lparr>Lines := ls'\<rparr>) = canonicalHash ?E (x\<lparr>Lines := ls\<rparr>)" for x
    by (rule canonicalHash_perm [OF perm])
  have "canonicalHash ?E (d\<lparr>Lines := ls', StmtContentHash := '''', StmtState := ''DRAFT''\<rparr>) = Inr h"
    using same_hash [of d] h by (simp add: canonicalHash_def)
  with fin stored have final: "FinaliseStatement ?E (StatementID d) h s1 = Inr s2"
    by (simp add: Finalise_def WithTenantTx_Inr finalise_tx_def andThen_Inr_iff fields)
  have "GetStatement ?E (StatementID d) s2 = Inr (d\<lparr>Lines := ls', StmtContentHash := h, StmtState := ''FINAL''\<rparr>)"
    using GetStatement_final [OF stored _ final] by simp
  with kept fields have now_stored: "GetStatement ?E (StatementID st) s3 = Inr (d\<lparr>Lines := ls', StmtContentHash := h, StmtState := ''FINAL''\<rparr>)" by simp
  have hne: "h \<noteq> ''''" using h sha by (auto simp: canonicalHash_def andThen_Inr_iff)
  have "cv \<in> set (configs s)" using ActiveAt_Inr [OF cv(1)] by blast
  with pinned(2) fields cv(2) have terms: "D (cv_content c3) = Inr terms" by simp
  have "ledger_grows to ?s s3" using ledger by (simp add: ledger_grows_def)
  from period_rows_grow [OF this] ls have ls3: "ledger_lines ?E terms prog from to s3 = Inr (ls, cur)"
    by (simp add: ledger_lines_def PeriodAggregates_def)
  have "canonicalHash ?E (d\<lparr>Lines := ls, StmtContentHash := h, StmtState := ''FINAL''\<rparr>) = Inr h"
    using h by (simp add: canonicalHash_def)
  then have "verify_tx D (StatementID st) (E\<lparr>now := t3, tenant := telco\<rparr>) s3 = Inr ((), s3)"
    using now_stored hne pinned(1) terms ls3 fields by (simp add: verify_tx_def d_def draft_def)
  with telco show ?thesis by (simp add: VerifyReproducible_def WithTenantTx_def TenantFrom_def)
qed

section \<open>A sample period\<close>

definition stl_env :: env where
  "stl_env = sample_env\<lparr>sha_hex := (\<lambda>x. ''h'' @ x)\<rparr>"

definition sample_terms :: "json \<Rightarrow> err + termsCfg" where
  "sample_terms j = Inr \<lparr>Cycle = ''MONTHLY'', TelcoShareBps = 3333, PlatformShareBps = 6667, Taxes = [(''VAT'', 750)], ToleranceMinor = 0\<rparr>"

definition fee_journal :: "string \<Rightarrow> int \<Rightarrow> journal_row" where
  "fee_journal i t = \<lparr>j_id = i, j_key = i, j_type = ''ADVANCE_ISSUED'', j_telco = ''MTN_NG'', j_prog = Some ''prg_1'', j_adv = None,
     j_corr = '''', j_hash = '''', j_tmpl = None, j_posted = t\<rparr>"

definition fee_entry :: "string \<Rightarrow> entry_row" where
  "fee_entry i = \<lparr>en_id = ''e'' @ i, en_journal = i, en_account = ''FEE_INCOME'', en_debit = 0, en_credit = 1001, en_cur = ''NGN''\<rparr>"

definition period_db :: db where
  "period_db = empty_db\<lparr>configs := [\<lparr>cv_id = ''cfg_t'', cv_domain = ''settlement.terms'', cv_scope = ''programme:prg_1'', cv_no = 1,
       cv_state = ''ACTIVE'', cv_content = JObj [], cv_hash = '''', cv_from = Some 0, cv_to = None, cv_by = ''a'',
       cv_approver = Some ''b'', cv_reason = ''r''\<rparr>],
     journals := [fee_journal ''j1'' 100], entries := [fee_entry ''j1'']\<rparr>"

definition drafted_run :: "(err + Statement) \<times> db" where
  "drafted_run = Generate stl_env sample_terms ''MTN_NG'' ''prg_1'' 0 500 period_db"

definition final_run :: "(err + unit) \<times> db" where
  "final_run = Finalise (stl_env\<lparr>now := 2000\<rparr>) ''MTN_NG'' ''stm_0'' (snd drafted_run)"

definition grown_db :: db where
  "grown_db = (snd final_run)\<lparr>journals := journals (snd final_run) @ [fee_journal ''j2'' 600],
     entries := entries (snd final_run) @ [fee_entry ''j2'']\<rparr>"

lemma sample_settled:
  "case fst drafted_run of Inr st \<Rightarrow> StatementID st = ''stm_0'' \<and> TermsVersionID st = ''cfg_t'' | Inl _ \<Rightarrow> False"
  "fst final_run = Inr ()" "journals (snd final_run) = journals period_db" "entries (snd final_run) = entries period_db"
  "configs grown_db = configs period_db"
  by code_simp+

lemma sample_draft: "\<exists>st. drafted_run = (Inr st, snd drafted_run) \<and> StatementID st = ''stm_0'' \<and> TermsVersionID st = ''cfg_t''"
proof -
  from sample_settled(1) obtain st where "fst drafted_run = Inr st" "StatementID st = ''stm_0'' \<and> TermsVersionID st = ''cfg_t''"
    by (auto split: sum.splits)
  then show ?thesis by (metis prod.collapse)
qed

theorem settlement_partition_witness:
  "\<exists>st s' fee a b. Generate stl_env sample_terms ''MTN_NG'' ''prg_1'' 0 500 period_db = (Inr st, s')
     \<and> map_of (Lines st) ''FEE_INCOME_TOTAL'' = Some fee \<and> map_of (Lines st) ''TELCO_SHARE'' = Some a
     \<and> map_of (Lines st) ''PLATFORM_SHARE'' = Some b \<and> sint (amount a) + sint (amount b) = sint (amount fee)"
proof -
  obtain st where st: "drafted_run = (Inr st, snd drafted_run)" using sample_draft by blast
  then have run: "Generate stl_env sample_terms ''MTN_NG'' ''prg_1'' 0 500 period_db = (Inr st, snd drafted_run)" by (simp only: drafted_run_def)
  from settlement_partition [OF run] run show ?thesis by blast
qed

theorem settlement_reproducible_witness:
  "VerifyReproducible (stl_env\<lparr>now := 3000\<rparr>) sample_terms ''MTN_NG'' ''stm_0'' grown_db = (Inr (), grown_db)"
proof -
  obtain st where st: "drafted_run = (Inr st, snd drafted_run)" "StatementID st = ''stm_0''" "TermsVersionID st = ''cfg_t''"
    using sample_draft by blast
  have gen: "Generate stl_env sample_terms ''MTN_NG'' ''prg_1'' 0 500 period_db = (Inr st, snd drafted_run)"
    using st(1) by (simp only: drafted_run_def)
  have fin: "Finalise (stl_env\<lparr>now := 2000\<rparr>) ''MTN_NG'' (StatementID st) (snd drafted_run) = (Inr (), snd final_run)"
    unfolding st(2) using sample_settled(2) unfolding final_run_def by (metis prod.collapse)
  have fk: "\<forall>l \<in> set (stlines period_db). \<exists>r \<in> set (statements period_db). st_id r = sl_stmt l"
    by (simp add: period_db_def empty_db_def)
  have kept: "GetStatement (stl_env\<lparr>tenant := ''MTN_NG''\<rparr>) (StatementID st) grown_db
      = GetStatement (stl_env\<lparr>tenant := ''MTN_NG''\<rparr>) (StatementID st) (snd final_run)"
    by (simp add: grown_db_def GetStatement_def split: option.split)
  have cfg: "Configs_Get (TermsVersionID st) grown_db = Inr (hd (configs period_db))"
    using st(3) sample_settled(5) by (simp add: Configs_Get_def period_db_def)
  have same: "\<forall>c \<in> set (configs period_db). cv_id c = TermsVersionID st \<longrightarrow> cv_content c = cv_content (hd (configs period_db))"
    by (simp add: period_db_def)
  have grows: "ledger_grows 500 period_db grown_db"
    unfolding ledger_grows_def grown_db_def using sample_settled(3,4)
    by (intro exI [of _ "[fee_journal ''j2'' 600]"] exI [of _ "[fee_entry ''j2'']"]) (simp add: period_db_def fee_journal_def fee_entry_def)
  have "\<And>x. sha_hex stl_env x \<noteq> ''''" by (simp add: stl_env_def)
  from settlement_reproducible [OF gen fk fin kept cfg same grows this] st(2) show ?thesis by simp
qed

end
