(* ===== verification/StatusActions.thy ===== *)
theory StatusActions
  imports OriginationProps ConfigSvc
begin

text \<open>
  Operator status actions: \<^verbatim>\<open>usecase/ops/statusactions.go\<close> over \<^verbatim>\<open>repo/statusactions.go\<close>, with the
  validator of the governed transition set. An operator asks for a status change, a second operator decides, and
  the change is applied by compare-and-set. The lemmas show what operators can do to an account, and that
  operators, customers and configuration changes together keep the self-exclusion register and the
  account statuses in agreement and never reopen a closed account.
\<close>

section \<open>Statements\<close>

record StatusAction =
  ActionID :: string
  ActTelcoID :: string
  ActSubscriberID :: string
  FromStatus :: string
  ToStatus :: string
  ActReason :: string
  ActRequestedBy :: string
  ActApprovedBy :: string
  ActState :: string
  ActRequestedAt :: int
  DecidedAt :: "int option"
  AppliedAt :: "int option"

definition operator_statuses :: "string list" where
  "operator_statuses = [''ACTIVE'', ''BARRED'', ''CLOSED'']"

text \<open>The CHECKs of \<^verbatim>\<open>subscriber_status_actions\<close>, its partial unique index and its trigger.\<close>

definition action_checks :: "action_row \<Rightarrow> bool" where
  "action_checks r \<longleftrightarrow> sa_state r \<in> {''REQUESTED'', ''REJECTED'', ''APPLIED''}
     \<and> sa_from r \<in> set operator_statuses \<and> sa_to r \<in> set operator_statuses \<and> sa_from r \<noteq> sa_to r
     \<and> (sa_state r = ''REQUESTED'' \<or> sa_approver r \<noteq> None \<and> sa_approver r \<noteq> Some (sa_by r))"

definition one_open_action :: "action_row list \<Rightarrow> bool" where
  "one_open_action rows \<longleftrightarrow> distinct (map sa_sub (filter (\<lambda>r. sa_state r = ''REQUESTED'') rows))"

definition put_actions :: "action_row list \<Rightarrow> db \<Rightarrow> err + db" where
  "put_actions rows s =
     (if \<not> list_all action_checks rows then Inl (Pg ''23514'' ''subscriber_status_actions_check'')
      else if \<not> distinct (map sa_id rows) then Inl (Pg ''23505'' ''subscriber_status_actions_pkey'')
      else if \<not> one_open_action rows then Inl (Pg ''23505'' ''status_action_one_open_uq'')
      else Inr (s\<lparr>statusacts := rows\<rparr>))"

definition subscriber_status_action_immutable :: "string \<Rightarrow> action_row \<Rightarrow> bool" where
  "subscriber_status_action_immutable approver old \<longleftrightarrow>
     sa_state old \<notin> {''REJECTED'', ''APPLIED''} \<and> (sa_approver old = None \<or> sa_approver old = Some approver)"

definition StatusActions_Insert :: "env \<Rightarrow> StatusAction \<Rightarrow> db \<Rightarrow> err + db" where
  "StatusActions_Insert E a s =
     (case andThen (rls_check E (ActTelcoID a)) (\<lambda>_.
        put_actions (statusacts s @ [\<lparr>sa_id = ActionID a, sa_telco = ActTelcoID a, sa_sub = ActSubscriberID a,
          sa_from = FromStatus a, sa_to = ToStatus a, sa_reason = ActReason a, sa_by = ActRequestedBy a, sa_approver = None,
          sa_state = ''REQUESTED'', sa_requested = now E, sa_decided = None, sa_applied = None\<rparr>]) s) of
        Inr s' \<Rightarrow> Inr s'
      | Inl e \<Rightarrow> Inl (case e of Pg code name \<Rightarrow>
           if code = ''23505'' \<and> name = ''status_action_one_open_uq'' then Gov ErrOpenActionExists else e | _ \<Rightarrow> e))"

abbreviation action_at :: "env \<Rightarrow> string \<Rightarrow> action_row \<Rightarrow> bool" where
  "action_at E i r \<equiv> sa_telco r = tenant E \<and> sa_id r = i \<and> sa_state r = ''REQUESTED''"

definition ClaimRequestedByID :: "env \<Rightarrow> string \<Rightarrow> db \<Rightarrow> err + StatusAction" where
  "ClaimRequestedByID E i s =
     andThen (queryRow (action_at E i) (statusacts s)) (\<lambda>r.
     Inr \<lparr>ActionID = sa_id r, ActTelcoID = sa_telco r, ActSubscriberID = sa_sub r, FromStatus = sa_from r, ToStatus = sa_to r,
          ActReason = sa_reason r, ActRequestedBy = sa_by r,
          ActApprovedBy = (case sa_approver r of None \<Rightarrow> '''' | Some x \<Rightarrow> x), ActState = sa_state r,
          ActRequestedAt = sa_requested r, DecidedAt = sa_decided r, AppliedAt = sa_applied r\<rparr>)"

definition StatusActions_Decide :: "env \<Rightarrow> string \<Rightarrow> string \<Rightarrow> string \<Rightarrow> db \<Rightarrow> err + db" where
  "StatusActions_Decide E i approvedBy state s =
     (if \<not> list_all (subscriber_status_action_immutable approvedBy) (filter (action_at E i) (statusacts s)) then Inl (Pg ''P0001'' '''')
      else andThen (put_actions (upd_where (action_at E i)
        (\<lambda>r. r\<lparr>sa_state := state, sa_approver := Some approvedBy, sa_decided := Some (now E),
               sa_applied := (if state = ''APPLIED'' then Some (now E) else sa_applied r)\<rparr>) (statusacts s)) s) (\<lambda>s'.
      if filter (action_at E i) (statusacts s) = [] then Inl ErrNotFound else Inr s'))"

definition SetStatusCAS :: "env \<Rightarrow> string \<Rightarrow> string \<Rightarrow> string \<Rightarrow> db \<Rightarrow> err + db" where
  "SetStatusCAS E sid frm to s =
     (let p = (\<lambda>r. sub_telco r = tenant E \<and> sub_id r = sid \<and> sub_status r = frm) in
      if filter p (subs s) = [] then Inl (Gov ErrStatusDrift)
      else Inr (s\<lparr>subs := upd_where p (\<lambda>r. r\<lparr>sub_status := to\<rparr>) (subs s)\<rparr>))"

section \<open>The governed transition set\<close>

text \<open>
  The document as the strict decoder of the validator leaves it, and the list of pairs the consumer's own decoding of
  the same content gives; both decoders are parameters.
\<close>

record TransitionDoc =
  td_from :: "string option"
  td_to :: "string option"

fun check_transitions :: "string list \<Rightarrow> TransitionDoc list \<Rightarrow> err + unit" where
  "check_transitions seen [] = Inr ()"
| "check_transitions seen (tr # trs) =
     (case (td_from tr, td_to tr) of
        (Some frm, Some to) \<Rightarrow>
          if frm = ''SELF_EXCLUDED'' \<or> to = ''SELF_EXCLUDED'' then Inl (Fmt ''SELF_EXCLUDED is not an operator-configurable status'')
          else if frm \<notin> set operator_statuses \<or> to \<notin> set operator_statuses then Inl (Fmt ''statuses must be ACTIVE|BARRED|CLOSED'')
          else if frm = to then Inl (Fmt ''from and to must differ'')
          else if frm = ''CLOSED'' then Inl (Fmt ''CLOSED is terminal'')
          else let key = frm @ ''->'' @ to in
            if key \<in> set seen then Inl (Fmt ''duplicate transition'') else check_transitions (key # seen) trs
      | _ \<Rightarrow> Inl (Fmt ''from and to are required''))"

definition validateOpsStatusActions :: "(json \<Rightarrow> TransitionDoc list option option) \<Rightarrow> json \<Rightarrow> err + unit" where
  "validateOpsStatusActions strict content =
     (case strict content of
        None \<Rightarrow> Inl (Fmt ''parse'')
      | Some None \<Rightarrow> Inl (Fmt ''allowed_transitions is required'')
      | Some (Some trs) \<Rightarrow> check_transitions [] trs)"

definition transitionAllowed :: "env \<Rightarrow> (json \<Rightarrow> (string \<times> string) list option) \<Rightarrow> string \<Rightarrow> string \<Rightarrow> db \<Rightarrow> err + unit" where
  "transitionAllowed E D frm to s =
     (case ActiveAt ''ops.status_actions'' ScopeGlobal (now E) s of
        Inl _ \<Rightarrow> Inl (Gov ErrTransitionNotAllowed)
      | Inr cv \<Rightarrow>
          (case D (cv_content cv) of
             None \<Rightarrow> Inl (Gov ErrTransitionNotAllowed)
           | Some trs \<Rightarrow> orElse (list_ex (\<lambda>tr. fst tr = frm \<and> snd tr = to) trs) (Gov ErrTransitionNotAllowed)))"

section \<open>The use case\<close>

type_synonym transitions_decoder = "json \<Rightarrow> (string \<times> string) list option"

definition status_request_tx :: "transitions_decoder \<Rightarrow> string \<Rightarrow> string \<Rightarrow> string \<Rightarrow> string \<Rightarrow> string \<Rightarrow> env \<Rightarrow> db \<Rightarrow> err + StatusAction \<times> db" where
  "status_request_tx D telco token to why actor E s =
     andThen (GetLiveByToken E token s) (\<lambda>sub.
     andThen (transitionAllowed E D (sub_status sub) to s) (\<lambda>_.
     let (i, s) = NewID E ''ssa'' s;
         a = \<lparr>ActionID = i, ActTelcoID = telco, ActSubscriberID = sub_id sub, FromStatus = sub_status sub, ToStatus = to,
              ActReason = why, ActRequestedBy = actor, ActApprovedBy = '''', ActState = ''REQUESTED'',
              ActRequestedAt = zero_time, DecidedAt = None, AppliedAt = None\<rparr>
     in andThen (StatusActions_Insert E a s) (\<lambda>s.
        andThen (guardrail_audit E telco actor ''subscriber_status.request'' ''subscriber_status_action'' i
          (sub_status sub @ '' -> '' @ to @ '': '' @ why) s) (\<lambda>(_, s). Inr (a, s)))))"

definition RequestStatusAction ::
  "env \<Rightarrow> transitions_decoder \<Rightarrow> string \<Rightarrow> string \<Rightarrow> string \<Rightarrow> string \<Rightarrow> string \<Rightarrow> db \<Rightarrow> (err + StatusAction) \<times> db" where
  "RequestStatusAction E D telco token to why actor s =
     (if why = '''' then (Inl (Fmt ''reason is required''), s)
      else WithTenantTx E telco (status_request_tx D telco token to why actor) s)"

definition status_decide_tx :: "transitions_decoder \<Rightarrow> string \<Rightarrow> string \<Rightarrow> string \<Rightarrow> bool \<Rightarrow> env \<Rightarrow> db \<Rightarrow> err + unit \<times> db" where
  "status_decide_tx D telco i actor approve E s =
     andThen (ClaimRequestedByID E i s) (\<lambda>a.
     if ActRequestedBy a = actor then Inl (Gov ErrSameActor)
     else if \<not> approve then
       andThen (StatusActions_Decide E i actor ''REJECTED'' s) (\<lambda>s.
       guardrail_audit E telco actor ''subscriber_status.reject'' ''subscriber_status_action'' i
         (FromStatus a @ '' -> '' @ ToStatus a @ '' rejected'') s)
     else
       andThen (transitionAllowed E D (FromStatus a) (ToStatus a) s) (\<lambda>_.
       andThen (SetStatusCAS E (ActSubscriberID a) (FromStatus a) (ToStatus a) s) (\<lambda>s.
       andThen (StatusActions_Decide E i actor ''APPLIED'' s) (\<lambda>s.
       guardrail_audit E telco actor ''subscriber_status.apply'' ''subscriber_status_action'' i
         (FromStatus a @ '' -> '' @ ToStatus a @ '' applied'') s))))"

definition DecideStatusAction :: "env \<Rightarrow> transitions_decoder \<Rightarrow> string \<Rightarrow> string \<Rightarrow> string \<Rightarrow> bool \<Rightarrow> db \<Rightarrow> (err + unit) \<times> db" where
  "DecideStatusAction E D telco i actor approve s =
     WithTenantTx E telco (status_decide_tx D telco i actor approve) s"


section \<open>What the statements do\<close>

definition actions_ok :: "db \<Rightarrow> bool" where
  "actions_ok s \<longleftrightarrow> list_all action_checks (statusacts s) \<and> distinct (map sa_id (statusacts s)) \<and> one_open_action (statusacts s)"

abbreviation decided_row :: "env \<Rightarrow> string \<Rightarrow> string \<Rightarrow> action_row \<Rightarrow> action_row" where
  "decided_row E a to r \<equiv> r\<lparr>sa_state := to, sa_approver := Some a, sa_decided := Some (now E),
     sa_applied := (if to = ''APPLIED'' then Some (now E) else sa_applied r)\<rparr>"

abbreviation sub_at :: "env \<Rightarrow> string \<Rightarrow> string \<Rightarrow> SubscriberAccount \<Rightarrow> bool" where
  "sub_at E sid st r \<equiv> sub_telco r = tenant E \<and> sub_id r = sid \<and> sub_status r = st"

lemma put_actions_Inr:
  "put_actions rows s = Inr s' \<longleftrightarrow> s' = s\<lparr>statusacts := rows\<rparr> \<and> list_all action_checks rows \<and> distinct (map sa_id rows) \<and> one_open_action rows"
  by (auto simp: put_actions_def)

lemma put_actions_ok: "put_actions rows s = Inr s' \<Longrightarrow> actions_ok s'"
  by (auto simp: put_actions_Inr actions_ok_def)

lemma StatusActions_Insert_Inr:
  assumes "StatusActions_Insert E a s = Inr s'"
  obtains r where "s' = s\<lparr>statusacts := statusacts s @ [r]\<rparr>" "actions_ok s'" "sa_state r = ''REQUESTED''" "sa_telco r = tenant E"
    "sa_by r = ActRequestedBy a" "sa_sub r = ActSubscriberID a" "sa_from r = FromStatus a" "sa_to r = ToStatus a" "action_checks r"
proof -
  let ?r = "\<lparr>sa_id = ActionID a, sa_telco = ActTelcoID a, sa_sub = ActSubscriberID a,
          sa_from = FromStatus a, sa_to = ToStatus a, sa_reason = ActReason a, sa_by = ActRequestedBy a, sa_approver = None,
          sa_state = ''REQUESTED'', sa_requested = now E, sa_decided = None, sa_applied = None\<rparr>"
  from assms have "ActTelcoID a = tenant E" and put: "put_actions (statusacts s @ [?r]) s = Inr s'"
    unfolding StatusActions_Insert_def by (auto simp: andThen_Inr_iff rls_check_Inr split: sum.splits)
  moreover from put have "s' = s\<lparr>statusacts := statusacts s @ [?r]\<rparr>" "action_checks ?r" by (simp_all add: put_actions_Inr)
  ultimately show ?thesis by (intro that [of ?r] put_actions_ok [OF put]) simp_all
qed

lemma Decide_action_Inr:
  assumes "StatusActions_Decide E i a to s = Inr s'"
  shows "s' = s\<lparr>statusacts := upd_where (action_at E i) (decided_row E a to) (statusacts s)\<rparr> \<and> actions_ok s'
    \<and> (\<exists>r \<in> set (statusacts s). action_at E i r)"
proof -
  from assms have "put_actions (upd_where (action_at E i) (decided_row E a to) (statusacts s)) s = Inr s'"
      and "filter (action_at E i) (statusacts s) \<noteq> []"
    unfolding StatusActions_Decide_def by (auto simp: andThen_Inr_iff split: if_splits)
  then show ?thesis by (auto simp: put_actions_Inr actions_ok_def filter_empty_conv)
qed

lemma SetStatusCAS_Inr [res_simps]:
  "SetStatusCAS E sid frm to s = Inr s' \<longleftrightarrow> (\<exists>r \<in> set (subs s). sub_at E sid frm r)
     \<and> s' = s\<lparr>subs := upd_where (sub_at E sid frm) (\<lambda>r. r\<lparr>sub_status := to\<rparr>) (subs s)\<rparr>"
  by (auto simp: SetStatusCAS_def Let_def filter_empty_conv)

lemma ClaimRequested_Inr:
  assumes "ClaimRequestedByID E i s = Inr a"
  obtains r where "r \<in> set (statusacts s)" "action_at E i r" "ActSubscriberID a = sa_sub r" "FromStatus a = sa_from r"
    "ToStatus a = sa_to r" "ActRequestedBy a = sa_by r"
  using assms by (auto simp: ClaimRequestedByID_def andThen_Inr_iff dest!: queryRow_InrD)

definition action_maker :: "env \<Rightarrow> string \<Rightarrow> db \<Rightarrow> string option" where
  "action_maker E i s = map_option sa_by (List.find (action_at E i) (statusacts s))"

interpretation act: four_eyes StatusActions_Decide action_maker "{''REJECTED'', ''APPLIED''}"
proof
  fix E i a to s s'
  assume dec: "StatusActions_Decide E i a to s = Inr s'" and to: "to \<in> {''REJECTED'', ''APPLIED''}"
  note eff = Decide_action_Inr [OF dec]
  then obtain r where r: "List.find (action_at E i) (statusacts s) = Some r" "r \<in> set (statusacts s)" "action_at E i r"
    using find_matching [of "action_at E i" "statusacts s"] by (auto simp: find_None_iff)
  have "decided_row E a to r \<in> set (statusacts s')" using eff r by (auto simp: set_upd_where)
  then have "action_checks (decided_row E a to r)" using eff by (simp add: actions_ok_def list_all_iff)
  with to r show "\<exists>m. action_maker E i s = Some m \<and> m \<noteq> a" by (auto simp: action_checks_def action_maker_def)
  show "action_maker E i s' = None" using eff to by (auto simp: action_maker_def find_None_iff set_upd_where)
qed

section \<open>What the operations do\<close>

text \<open>A request records an intention; only a decision touches an account.\<close>

lemma RequestStatusAction_effect:
  assumes "RequestStatusAction E D telco token to why actor s = (r, s')"
  shows "subs s' = subs s \<and> configs s' = configs s \<and> selfexcls s' = selfexcls s
    \<and> (s' = s \<or> actions_ok s' \<and> (\<exists>a. statusacts s' = statusacts s @ [a] \<and> sa_state a = ''REQUESTED''))"
proof (cases r)
  case (Inl e)
  with assms show ?thesis by (auto simp: RequestStatusAction_def split: if_splits dest: WithTenantTx_error)
next
  case (Inr a)
  with assms obtain s1 u x i t where ins: "StatusActions_Insert (E\<lparr>tenant := telco\<rparr>) x (s\<lparr>next_id := Suc (next_id s)\<rparr>) = Inr s1"
    and aud: "guardrail_audit (E\<lparr>tenant := telco\<rparr>) telco actor ''subscriber_status.request'' ''subscriber_status_action'' i t s1 = Inr (u, s')"
    unfolding RequestStatusAction_def
    by (auto simp: WithTenantTx_Inr status_request_tx_def NewID_def Let_def andThen_Inr_iff split: if_splits)
  from guardrail_audit_Inr [OF aud] obtain y where s': "s' = s1\<lparr>next_id := Suc (next_id s1), audit := audit s1 @ [y]\<rparr>" by blast
  from ins show ?thesis by (rule StatusActions_Insert_Inr) (auto simp: s' actions_ok_def)
qed

lemma DecideStatusAction_cases:
  assumes "DecideStatusAction E D telco i actor approve s = (u, s')"
  obtains (refused) "s' = s"
    | (rejected) "subs s' = subs s" "configs s' = configs s" "selfexcls s' = selfexcls s" "actions_ok s'"
        "statusacts s' = upd_where (action_at (E\<lparr>tenant := telco\<rparr>) i) (decided_row E actor ''REJECTED'') (statusacts s)"
    | (applied) r where "r \<in> set (statusacts s)" "action_at (E\<lparr>tenant := telco\<rparr>) i r" "sa_by r \<noteq> actor"
        "transitionAllowed (E\<lparr>tenant := telco\<rparr>) D (sa_from r) (sa_to r) s = Inr ()"
        "subs s' = upd_where (sub_at (E\<lparr>tenant := telco\<rparr>) (sa_sub r) (sa_from r)) (\<lambda>q. q\<lparr>sub_status := sa_to r\<rparr>) (subs s)"
        "configs s' = configs s" "selfexcls s' = selfexcls s" "actions_ok s'"
        "statusacts s' = upd_where (action_at (E\<lparr>tenant := telco\<rparr>) i) (decided_row E actor ''APPLIED'') (statusacts s)"
proof (cases u)
  case (Inl e)
  with assms show ?thesis using refused by (auto simp: DecideStatusAction_def dest: WithTenantTx_error)
next
  case (Inr x)
  let ?E = "E\<lparr>tenant := telco\<rparr>"
  have tx: "status_decide_tx D telco i actor approve ?E s = Inr (x, s')"
    using assms by (simp add: DecideStatusAction_def WithTenantTx_Inr Inr)
  then obtain a where a: "ClaimRequestedByID ?E i s = Inr a" and ne: "ActRequestedBy a \<noteq> actor"
    unfolding status_decide_tx_def run_simps by blast
  from a obtain r where r: "r \<in> set (statusacts s)" "action_at ?E i r" "ActSubscriberID a = sa_sub r" "FromStatus a = sa_from r"
    "ToStatus a = sa_to r" "ActRequestedBy a = sa_by r" by (rule ClaimRequested_Inr)
  show ?thesis
  proof (cases approve)
    case False
    with tx a ne obtain s1 t where dec: "StatusActions_Decide ?E i actor ''REJECTED'' s = Inr s1"
      and aud: "guardrail_audit ?E telco actor ''subscriber_status.reject'' ''subscriber_status_action'' i t s1 = Inr (x, s')"
      unfolding status_decide_tx_def by (auto simp: andThen_Inr_iff)
    from guardrail_audit_Inr [OF aud] obtain y where s': "s' = s1\<lparr>next_id := Suc (next_id s1), audit := audit s1 @ [y]\<rparr>" by blast
    note eff = Decide_action_Inr [OF dec]
    then have "actions_ok s'" by (auto simp: s' actions_ok_def)
    with eff show ?thesis by (intro rejected) (simp_all add: s')
  next
    case True
    with tx a ne obtain s1 s2 t where ok: "transitionAllowed ?E D (sa_from r) (sa_to r) s = Inr ()"
      and cas: "SetStatusCAS ?E (sa_sub r) (sa_from r) (sa_to r) s = Inr s1"
      and dec: "StatusActions_Decide ?E i actor ''APPLIED'' s1 = Inr s2"
      and aud: "guardrail_audit ?E telco actor ''subscriber_status.apply'' ''subscriber_status_action'' i t s2 = Inr (x, s')"
      unfolding status_decide_tx_def by (auto simp: andThen_Inr_iff r(3-5))
    from guardrail_audit_Inr [OF aud] obtain y where s': "s' = s2\<lparr>next_id := Suc (next_id s2), audit := audit s2 @ [y]\<rparr>" by blast
    note eff = Decide_action_Inr [OF dec]
    then have "actions_ok s'" by (auto simp: s' actions_ok_def)
    with eff cas ne r(6) show ?thesis by (intro applied [OF r(1,2) _ ok]) (simp_all add: s' SetStatusCAS_Inr)
  qed
qed


section \<open>Operators\<close>

inductive ops_step :: "db \<Rightarrow> db \<Rightarrow> bool" where
  request: "RequestStatusAction E D telco token to why actor s = (r, s') \<Longrightarrow> ops_step s s'"
| decide: "DecideStatusAction E D telco i actor approve s = (u, s') \<Longrightarrow> ops_step s s'"

text \<open>The evidence for a status an operator gave: an applied action under two names.\<close>

definition two_person_change :: "db \<Rightarrow> SubscriberAccount \<Rightarrow> string \<Rightarrow> bool" where
  "two_person_change s q st \<longleftrightarrow> st \<in> set operator_statuses \<and> (\<exists>r \<in> set (statusacts s). sa_telco r = sub_telco q \<and> sa_sub r = sub_id q
     \<and> sa_state r = ''APPLIED'' \<and> sa_to r = st \<and> (\<exists>x. sa_approver r = Some x \<and> x \<noteq> sa_by r))"

lemma two_person_change_mono:
  assumes "two_person_change s q st" "\<And>r. r \<in> set (statusacts s) \<Longrightarrow> sa_state r = ''APPLIED'' \<Longrightarrow> r \<in> set (statusacts s')"
  shows "two_person_change s' q st"
  using assms unfolding two_person_change_def by blast

lemma upd_where_nth: "i < length rs \<Longrightarrow> upd_where p f rs ! i = (if p (rs ! i) then f (rs ! i) else rs ! i)"
  by (simp add: upd_where_def)

text \<open>Every step leaves the applied actions alone and, account by account, changes nothing or applies one action.\<close>

lemma ops_step_effect:
  assumes "ops_step s s'" "actions_ok s"
  shows "actions_ok s' \<and> length (subs s') = length (subs s)
    \<and> (\<forall>r \<in> set (statusacts s). sa_state r = ''APPLIED'' \<longrightarrow> r \<in> set (statusacts s'))
    \<and> (\<forall>i < length (subs s). subs s' ! i = subs s ! i
        \<or> (\<exists>st. subs s' ! i = (subs s ! i)\<lparr>sub_status := st\<rparr> \<and> sub_status (subs s ! i) \<in> set operator_statuses
             \<and> two_person_change s' (subs s ! i) st))"
  using assms
proof cases
  case (request E D telco token to why actor r)
  from RequestStatusAction_effect [OF this] assms(2) show ?thesis by auto
next
  case (decide E D telco i actor approve u)
  then show ?thesis
  proof (cases rule: DecideStatusAction_cases)
    case refused
    with assms(2) show ?thesis by simp
  next
    case rejected
    then show ?thesis by (auto simp: set_upd_where)
  next
    case (applied r)
    let ?E = "E\<lparr>tenant := telco\<rparr>"
    have "action_checks r" using assms(2) applied(1) by (simp add: actions_ok_def list_all_iff)
    then have ends: "sa_from r \<in> set operator_statuses" "sa_to r \<in> set operator_statuses" by (simp_all add: action_checks_def)
    have row: "decided_row E actor ''APPLIED'' r \<in> set (statusacts s')"
      unfolding applied(9) by (rule in_upd_where [OF applied(1)]) (use applied(2) in simp)
    have "two_person_change s' q (sa_to r)" if "sub_at ?E (sa_sub r) (sa_from r) q" for q
      unfolding two_person_change_def using row ends applied(2,3) that by (intro conjI bexI [OF _ row]) auto
    then have "subs s' ! i = subs s ! i
        \<or> (\<exists>st. subs s' ! i = (subs s ! i)\<lparr>sub_status := st\<rparr> \<and> sub_status (subs s ! i) \<in> set operator_statuses
             \<and> two_person_change s' (subs s ! i) st)" if "i < length (subs s)" for i
      using that ends(1) by (auto simp: applied(5) upd_where_nth)
    then show ?thesis using applied(5,8,9) by (auto simp: set_upd_where)
  qed
qed

lemma ops_run_effect:
  assumes "ops_step\<^sup>*\<^sup>* s s'" "actions_ok s"
  shows "actions_ok s' \<and> length (subs s') = length (subs s) \<and> (\<forall>i < length (subs s). subs s' ! i = subs s ! i
    \<or> (\<exists>st. subs s' ! i = (subs s ! i)\<lparr>sub_status := st\<rparr> \<and> sub_status (subs s ! i) \<in> set operator_statuses
             \<and> two_person_change s' (subs s ! i) st))"
  using assms(1)
proof (induction rule: rtranclp_induct)
  case base
  with assms(2) show ?case by simp
next
  case (step s1 s2)
  note last = ops_step_effect [OF step(2)]
  from step.IH have ok: "actions_ok s1" "length (subs s1) = length (subs s)" by auto
  have keep: "two_person_change s2 q st" if "two_person_change s1 q st" for q st
    by (rule two_person_change_mono [OF that]) (use last [OF ok(1)] in blast)
  have same: "two_person_change s2 (q\<lparr>sub_status := st\<rparr>) st' = two_person_change s2 q st'" for q st st'
    by (simp add: two_person_change_def)
  have "subs s2 ! i = subs s ! i \<or> (\<exists>st. subs s2 ! i = (subs s ! i)\<lparr>sub_status := st\<rparr>
      \<and> sub_status (subs s ! i) \<in> set operator_statuses \<and> two_person_change s2 (subs s ! i) st)" if i: "i < length (subs s)" for i
  proof -
    consider "subs s2 ! i = subs s1 ! i" | st where "subs s2 ! i = (subs s1 ! i)\<lparr>sub_status := st\<rparr>"
        "sub_status (subs s1 ! i) \<in> set operator_statuses" "two_person_change s2 (subs s1 ! i) st"
      using last [OF ok(1)] ok(2) i by metis
    then show ?thesis
    proof cases
      case 1
      with step.IH i keep show ?thesis by metis
    next
      case (2 st)
      from step.IH i consider "subs s1 ! i = subs s ! i" | st1 where "subs s1 ! i = (subs s ! i)\<lparr>sub_status := st1\<rparr>"
        "sub_status (subs s ! i) \<in> set operator_statuses" by blast
      then show ?thesis by cases (use 2 same in auto)
    qed
  qed
  with last [OF ok(1)] ok(2) show ?case by simp
qed


section \<open>The customer's own channel\<close>

abbreviation live_sub_at :: "string \<Rightarrow> string \<Rightarrow> string \<Rightarrow> SubscriberAccount \<Rightarrow> bool" where
  "live_sub_at t sid st r \<equiv> sub_telco r = t \<and> sub_id r = sid \<and> sub_status r = st \<and> sub_to r = None"

lemma RequestSelfExclusion_cases:
  assumes "RequestSelfExclusion E C c prog token channel why s = (r, s')"
  obtains (same) "s' = s"
    | (excluded) sid x where "configs s' = configs s" "statusacts s' = statusacts s" "selfexcls s' = selfexcls s @ [x]"
        "sx_telco x = c" "sx_sub x = sid" "sx_state x = ''ACTIVE''" "sx_id x \<notin> sx_id ` set (selfexcls s)"
        "\<forall>y \<in> set (selfexcls s). sx_sub y = sid \<longrightarrow> sx_state y \<noteq> ''ACTIVE''" "\<exists>q \<in> set (subs s). live_sub_at c sid ''ACTIVE'' q"
        "subs s' = upd_where (live_sub_at c sid ''ACTIVE'') (\<lambda>q. q\<lparr>sub_status := ''SELF_EXCLUDED''\<rparr>) (subs s)"
proof (cases r)
  case (Inl e)
  with assms show ?thesis using same
    by (auto simp: RequestSelfExclusion_def split: sum.splits if_splits dest: WithTenantTx_error)
next
  case (Inr res)
  let ?E = "E\<lparr>tenant := c\<rparr>"
  from assms Inr obtain u where tx: "exclude_tx token channel why u ?E s = Inr (res, s')"
    unfolding RequestSelfExclusion_def by (auto simp: WithTenantTx_Inr split: sum.splits if_splits)
  then obtain q where q: "GetLiveByToken ?E token s = Inr q" unfolding exclude_tx_def run_simps by blast
  show ?thesis
  proof (cases "GetActiveBySubscriber ?E (sub_id q) s")
    case (Some ex)
    with tx q show ?thesis by (intro same) (simp add: exclude_tx_def)
  next
    case None
    let ?x = "\<lparr>ExclusionID = new_id E ''sxc'' (next_id s), SxcTelcoID = sub_telco q, SxcSubscriberID = sub_id q,
            SxcState = '''', SxcChannel = channel, SxcReason = why, SxcRequestedAt = zero_time, MinUntil = u\<rparr>"
    from tx q None obtain s1 s2 v t where ins: "SelfExclusions_Insert ?E ?x (s\<lparr>next_id := Suc (next_id s)\<rparr>) = Inr s1"
      and st: "Subscribers_SetStatus ?E (sub_id q) ''ACTIVE'' ''SELF_EXCLUDED'' s1 = Inr s2"
      and aud: "guardrail_audit ?E (sub_telco q) (''channel:'' @ channel) ''subscriber.self_excluded''
            ''subscriber_account'' (sub_id q) t s2 = Inr (v, s')"
      unfolding exclude_tx_def by (auto simp: NewID_def andThen_Inr_iff)
    from guardrail_audit_Inr [OF aud] obtain y where s': "s' = s2\<lparr>next_id := Suc (next_id s2), audit := audit s2 @ [y]\<rparr>" by blast
    from ins have fresh: "\<forall>z \<in> set (selfexcls s). sx_id z \<noteq> new_id E ''sxc'' (next_id s)"
      by (auto simp: SelfExclusions_Insert_def andThen_Inr_iff split: if_splits)
    note eff = SelfExclusions_Insert_Inr [OF ins]
    from eff [THEN conjunct2, THEN conjunct2, THEN conjunct2] obtain x where x: "s1 = (s\<lparr>next_id := Suc (next_id s)\<rparr>)\<lparr>selfexcls := selfexcls (s\<lparr>next_id := Suc (next_id s)\<rparr>) @ [x]\<rparr>"
      "sx_id x = ExclusionID ?x" and xs: "sx_telco x = tenant ?E" "sx_sub x = SxcSubscriberID ?x" "sx_state x = ''ACTIVE''" by (elim exE conjE)
    have "sx_id x \<notin> sx_id ` set (selfexcls s)" using fresh x(2) by (metis SelfExclusion.select_convs(1) imageE)
    moreover have "\<forall>y \<in> set (selfexcls s). sx_sub y = sub_id q \<longrightarrow> sx_state y \<noteq> ''ACTIVE''" using eff by simp
    moreover have "(\<exists>r \<in> set (subs s). live_sub_at c (sub_id q) ''ACTIVE'' r)
        \<and> s2 = s1\<lparr>subs := upd_where (live_sub_at c (sub_id q) ''ACTIVE'') (\<lambda>r. r\<lparr>sub_status := ''SELF_EXCLUDED''\<rparr>) (subs s)\<rparr>"
      using st by (simp add: Subscribers_SetStatus_Inr x(1))
    ultimately show ?thesis using xs by (intro excluded [of x "sub_id q"]) (simp_all add: s' x(1))
  qed
qed

lemma ReinstateSelfExclusion_cases:
  assumes "ReinstateSelfExclusion E C c prog token channel s = (r, s')"
  obtains (same) "s' = s"
    | (reinstated) sid x where "configs s' = configs s" "statusacts s' = statusacts s" "x \<in> set (selfexcls s)" "sx_telco x = c"
        "sx_sub x = sid" "sx_state x = ''ACTIVE''" "\<exists>q \<in> set (subs s). live_sub_at c sid ''SELF_EXCLUDED'' q"
        "selfexcls s' = upd_where (\<lambda>y. sx_telco y = c \<and> sx_id y = sx_id x \<and> sx_state y = ''ACTIVE'' \<and> sx_until y \<le> now E)
           (\<lambda>y. y\<lparr>sx_state := ''REINSTATED'', sx_reinstated := Some (now E), sx_rchannel := Some channel\<rparr>) (selfexcls s)"
        "sx_until x \<le> now E"
        "subs s' = upd_where (live_sub_at c sid ''SELF_EXCLUDED'') (\<lambda>q. q\<lparr>sub_status := ''ACTIVE''\<rparr>) (subs s)"
proof (cases r)
  case (Inl e)
  with assms show ?thesis using same
    by (auto simp: ReinstateSelfExclusion_def split: sum.splits if_splits dest: WithTenantTx_error)
next
  case (Inr res)
  let ?E = "E\<lparr>tenant := c\<rparr>"
  from assms Inr have tx: "reinstate_tx token channel ?E s = Inr (res, s')"
    unfolding ReinstateSelfExclusion_def by (auto simp: WithTenantTx_Inr split: sum.splits if_splits)
  then obtain q where q: "GetLiveByToken ?E token s = Inr q" unfolding reinstate_tx_def run_simps by blast
  from tx q obtain ex where ex: "GetActiveBySubscriber ?E (sub_id q) s = Some ex"
    by (auto simp: reinstate_tx_def split: option.splits)
  from tx q ex obtain s1 s2 t where late: "\<not> now E < MinUntil ex"
    and mark: "MarkReinstated ?E (ExclusionID ex) channel s = Inr (True, s1)"
    and st: "Subscribers_SetStatus ?E (sub_id q) ''SELF_EXCLUDED'' ''ACTIVE'' s1 = Inr s2"
    and aud: "guardrail_audit ?E (sub_telco q) (''channel:'' @ channel) ''subscriber.self_exclusion_reinstated''
           ''subscriber_account'' (sub_id q) t s2 = Inr (res, s')"
    unfolding reinstate_tx_def by (auto simp: andThen_Inr_iff split: if_splits prod.splits)
  from guardrail_audit_Inr [OF aud] obtain y where s': "s' = s2\<lparr>next_id := Suc (next_id s2), audit := audit s2 @ [y]\<rparr>" by blast
  from GetActive_Some [OF ex] obtain x where x: "x \<in> set (selfexcls s)" "active_exclusion ?E (sub_id q) x" "ExclusionID ex = sx_id x"
    "MinUntil ex = sx_until x" by blast
  have s1: "s1 = s\<lparr>selfexcls := upd_where (\<lambda>y. sx_telco y = c \<and> sx_id y = sx_id x \<and> sx_state y = ''ACTIVE'' \<and> sx_until y \<le> now E)
           (\<lambda>y. y\<lparr>sx_state := ''REINSTATED'', sx_reinstated := Some (now E), sx_rchannel := Some channel\<rparr>) (selfexcls s)\<rparr>"
    using mark by (simp add: MarkReinstated_def Let_def x(3))
  have s2: "(\<exists>r \<in> set (subs s). live_sub_at c (sub_id q) ''SELF_EXCLUDED'' r)
      \<and> s2 = s1\<lparr>subs := upd_where (live_sub_at c (sub_id q) ''SELF_EXCLUDED'') (\<lambda>r. r\<lparr>sub_status := ''ACTIVE''\<rparr>) (subs s)\<rparr>"
    using st by (simp add: Subscribers_SetStatus_Inr s1)
  show ?thesis using x(1,2) late
    by (intro reinstated [of x "sub_id q"]) (simp_all add: s' s2 s1 x(4) active_exclusion_def)
qed

section \<open>Operators, customers and configuration together\<close>

inductive account_step :: "env \<Rightarrow> validator \<Rightarrow> (json \<Rightarrow> string) \<Rightarrow> transitions_decoder \<Rightarrow> db \<Rightarrow> db \<Rightarrow> bool" for E V J D where
  request: "RequestStatusAction (E\<lparr>now := t\<rparr>) D telco token to why actor s = (r, s') \<Longrightarrow> account_step E V J D s s'"
| decide: "DecideStatusAction (E\<lparr>now := t\<rparr>) D telco i actor approve s = (u, s') \<Longrightarrow> account_step E V J D s s'"
| exclude: "RequestSelfExclusion (E\<lparr>now := t\<rparr>) C c prog token channel why s = (x, s') \<Longrightarrow> account_step E V J D s s'"
| reinstate: "ReinstateSelfExclusion (E\<lparr>now := t\<rparr>) C c prog token channel s = (u, s') \<Longrightarrow> account_step E V J D s s'"
| config: "cfg_step E V J s s' \<Longrightarrow> account_step E V J D s s'"

text \<open>The register and the statuses say the same: an account is marked exactly while an exclusion of it is active.\<close>

definition excluded_now :: "db \<Rightarrow> string \<Rightarrow> string \<Rightarrow> bool" where
  "excluded_now s t i \<longleftrightarrow> (\<exists>x \<in> set (selfexcls s). sx_telco x = t \<and> sx_sub x = i \<and> sx_state x = ''ACTIVE'')"

definition register_agrees :: "db \<Rightarrow> bool" where
  "register_agrees s \<longleftrightarrow> (\<forall>q \<in> set (subs s). sub_status q = ''SELF_EXCLUDED'' \<longleftrightarrow> excluded_now s (sub_telco q) (sub_id q))"

definition account_keys :: "db \<Rightarrow> bool" where
  "account_keys s \<longleftrightarrow> distinct (map sub_id (subs s)) \<and> distinct (map sx_id (selfexcls s))
     \<and> distinct (map sx_sub (filter (\<lambda>x. sx_state x = ''ACTIVE'') (selfexcls s)))"

definition closed_kept :: "db \<Rightarrow> db \<Rightarrow> bool" where
  "closed_kept s s' \<longleftrightarrow> length (subs s') = length (subs s)
     \<and> (\<forall>i < length (subs s). sub_status (subs s ! i) = ''CLOSED'' \<longrightarrow> subs s' ! i = subs s ! i)"

definition account_inv :: "env \<Rightarrow> validator \<Rightarrow> (json \<Rightarrow> string) \<Rightarrow> db \<Rightarrow> bool" where
  "account_inv E V J s \<longleftrightarrow> config_inv E V J s \<and> actions_ok s \<and> account_keys s \<and> register_agrees s"

text \<open>Decoding without strictness reads what strict decoding accepted, an absent text as the empty one.\<close>

definition decodes_alike :: "(json \<Rightarrow> TransitionDoc list option option) \<Rightarrow> transitions_decoder \<Rightarrow> bool" where
  "decodes_alike strict D \<longleftrightarrow> (\<forall>j trs. strict j = Some (Some trs) \<longrightarrow>
     D j = Some (map (\<lambda>tr. (case td_from tr of None \<Rightarrow> '''' | Some x \<Rightarrow> x, case td_to tr of None \<Rightarrow> '''' | Some x \<Rightarrow> x)) trs))"

lemma check_transitions_ok:
  "check_transitions seen trs = Inr () \<Longrightarrow> tr \<in> set trs \<Longrightarrow>
   \<exists>f t. td_from tr = Some f \<and> td_to tr = Some t \<and> f \<in> {''ACTIVE'', ''BARRED''} \<and> t \<in> set operator_statuses \<and> f \<noteq> t"
proof (induction seen trs rule: check_transitions.induct)
  case (2 seen tr' trs)
  from 2(2) obtain f t where ft: "td_from tr' = Some f" "td_to tr' = Some t" by (auto split: option.splits)
  note body = 2(2) [simplified ft check_transitions.simps option.case prod.case Let_def if_Inl_Inr]
  show ?case
  proof (cases "tr = tr'")
    case True
    with body ft show ?thesis by (auto simp: operator_statuses_def)
  next
    case False
    with 2 ft body show ?thesis by auto
  qed
qed simp

lemma transitionAllowed_validated:
  assumes "transitionAllowed E' D frm to s = Inr ()" "config_inv E V J s" "decodes_alike strict D"
    and "\<And>sc j. V ''ops.status_actions'' sc j = validateOpsStatusActions strict j"
  shows "frm \<in> {''ACTIVE'', ''BARRED''} \<and> to \<in> set operator_statuses"
proof -
  from assms(1) obtain cv where cv: "ActiveAt ''ops.status_actions'' ScopeGlobal (now E') s = Inr cv"
    unfolding transitionAllowed_def by (auto split: sum.splits)
  from ActiveAt_Inr [OF this] have "cv \<in> set (configs s)" "cv_domain cv = ''ops.status_actions''" "config_row.cv_state cv \<in> {''ACTIVE'', ''SUPERSEDED''}"
    by (auto simp: covers_def)
  moreover from this assms(2) have "governed E V J cv" by (simp add: config_inv_def)
  ultimately have "V ''ops.status_actions'' (cv_scope cv) (cv_content cv) = Inr ()" unfolding governed_def by auto
  then have "validateOpsStatusActions strict (cv_content cv) = Inr ()" unfolding assms(4) .
  then obtain trs where trs: "strict (cv_content cv) = Some (Some trs)" "check_transitions [] trs = Inr ()"
    by (auto simp: validateOpsStatusActions_def split: option.splits)
  from assms(3) trs(1) have D: "D (cv_content cv) = Some (map (\<lambda>tr. (case td_from tr of None \<Rightarrow> '''' | Some x \<Rightarrow> x,
      case td_to tr of None \<Rightarrow> '''' | Some x \<Rightarrow> x)) trs)" by (simp add: decodes_alike_def)
  from assms(1) cv D obtain tr where "tr \<in> set trs" "frm = (case td_from tr of None \<Rightarrow> '''' | Some x \<Rightarrow> x)"
      "to = (case td_to tr of None \<Rightarrow> '''' | Some x \<Rightarrow> x)"
    by (auto simp: transitionAllowed_def orElse_Inr list_ex_iff)
  with check_transitions_ok [OF trs(2)] show ?thesis by force
qed


lemma closed_kept_upd:
  "frm \<noteq> ''CLOSED'' \<Longrightarrow> (\<And>q. p q \<Longrightarrow> sub_status q = frm) \<Longrightarrow> subs s' = upd_where p f (subs s) \<Longrightarrow> closed_kept s s'"
  by (auto simp: closed_kept_def upd_where_nth)

lemma closed_kept_same: "subs s' = subs s \<Longrightarrow> closed_kept s s'"
  by (simp add: closed_kept_def)

lemma cfg_step_frame:
  "cfg_step E V J s s' \<Longrightarrow> subs s' = subs s \<and> selfexcls s' = selfexcls s \<and> statusacts s' = statusacts s"
  by (induction rule: cfg_step.induct)
     (auto simp: CreateDraft_def Submit_def Approve_def Activate_def WithPlatformTx_def Configs_Insert_def Configs_TransitionState_def
       Configs_Activate_def NewID_def Let_def config_audit_def Audit_Insert_Inr andThen_Inr_iff
       split: if_splits sum.splits prod.splits option.splits dest!: put_configs_Inr)


text \<open>An update of one account's status, with the register changed for that account only.\<close>

lemma agrees_upd:
  assumes "register_agrees s" "account_keys s" "q0 \<in> set (subs s)" "sub_telco q0 = t" "sub_id q0 = sid" "p q0"
    and p: "\<And>q. p q \<Longrightarrow> sub_telco q = t \<and> sub_id q = sid"
    and upd: "subs s' = upd_where p (\<lambda>q. q\<lparr>sub_status := st\<rparr>) (subs s)"
    and other: "\<And>q. q \<in> set (subs s) \<Longrightarrow> sub_id q \<noteq> sid \<Longrightarrow>
       excluded_now s' (sub_telco q) (sub_id q) \<longleftrightarrow> excluded_now s (sub_telco q) (sub_id q)"
    and own: "(st = ''SELF_EXCLUDED'') \<longleftrightarrow> excluded_now s' t sid"
  shows "register_agrees s'"
  unfolding register_agrees_def
proof
  fix q' assume "q' \<in> set (subs s')"
  then consider q where "q \<in> set (subs s)" "p q" "q' = q\<lparr>sub_status := st\<rparr>" | "q' \<in> set (subs s)" "\<not> p q'"
    by (auto simp: upd set_upd_where)
  then show "sub_status q' = ''SELF_EXCLUDED'' \<longleftrightarrow> excluded_now s' (sub_telco q') (sub_id q')"
  proof cases
    case (1 q)
    then show ?thesis using p [OF 1(2)] own by simp
  next
    case 2
    have "sub_id q' \<noteq> sid"
      using distinct_key_unique [of sub_id "subs s" q' q0] assms(2,3,5,6) 2 by (auto simp: account_keys_def)
    then show ?thesis using other [OF 2(1)] assms(1) 2(1) by (simp add: register_agrees_def)
  qed
qed

lemma account_keys_excl:
  assumes "account_keys s" "subs s' = upd_where p (\<lambda>q. q\<lparr>sub_status := st\<rparr>) (subs s)"
    and "distinct (map sx_id (selfexcls s'))" "distinct (map sx_sub (filter (\<lambda>x. sx_state x = ''ACTIVE'') (selfexcls s')))"
  shows "account_keys s'"
proof -
  have "map sub_id (subs s') = map sub_id (subs s)" unfolding assms(2) by (rule map_upd_where_key) simp
  with assms show ?thesis by (simp add: account_keys_def)
qed

lemma exclude_step:
  assumes "RequestSelfExclusion E' C c prog token channel why s = (r, s')" "account_inv E V J s"
  shows "account_inv E V J s' \<and> closed_kept s s'"
  using assms(1)
proof (cases rule: RequestSelfExclusion_cases)
  case same
  with assms(2) show ?thesis by (simp add: closed_kept_same)
next
  case (excluded sid x)
  from excluded(9) obtain q0 where q0: "q0 \<in> set (subs s)" "live_sub_at c sid ''ACTIVE'' q0" by blast
  have act: "excluded_now s' t i \<longleftrightarrow> t = c \<and> i = sid \<or> excluded_now s t i" for t i
    unfolding excluded(3) excluded_now_def by (auto simp: excluded(4-6))
  have reg: "register_agrees s'"
    by (rule agrees_upd [OF _ _ q0(1) _ _ q0(2) _ excluded(10)], unfold act) (use q0(2) assms(2) in \<open>auto simp: account_inv_def\<close>)
  have keys: "account_keys s'"
  proof (rule account_keys_excl [OF _ excluded(10)], unfold excluded(3))
    show "account_keys s" using assms(2) by (simp add: account_inv_def)
    then show "distinct (map sx_id (selfexcls s @ [x]))" by (simp add: account_keys_def excluded(7))
    have "sid \<notin> sx_sub ` {y \<in> set (selfexcls s). sx_state y = ''ACTIVE''}" using excluded(8) by blast
    with \<open>account_keys s\<close> show "distinct (map sx_sub (filter (\<lambda>x. sx_state x = ''ACTIVE'') (selfexcls s @ [x])))"
      by (simp add: account_keys_def excluded(5,6))
  qed
  have "closed_kept s s'" by (rule closed_kept_upd [OF _ _ excluded(10), of "''ACTIVE''"]) simp_all
  with reg keys assms(2) excluded(1,2) show ?thesis
    by (auto simp: account_inv_def actions_ok_def config_inv_configs [OF excluded(1)])
qed

lemma distinct_filter_upd_off:
  "distinct (map k (filter P rs)) \<Longrightarrow> (\<And>r. \<not> P (f r)) \<Longrightarrow> distinct (map k (filter P (upd_where p f rs)))"
  by (induction rs) (auto simp: upd_where_def split: if_splits)

lemma reinstate_step:
  assumes "ReinstateSelfExclusion E' C c prog token channel s = (r, s')" "account_inv E V J s"
  shows "account_inv E V J s' \<and> closed_kept s s'"
  using assms(1)
proof (cases rule: ReinstateSelfExclusion_cases)
  case same
  with assms(2) show ?thesis by (simp add: closed_kept_same)
next
  case (reinstated sid x)
  let ?p = "\<lambda>y. sx_telco y = c \<and> sx_id y = sx_id x \<and> sx_state y = ''ACTIVE'' \<and> sx_until y \<le> now E'"
  let ?f = "\<lambda>y. y\<lparr>sx_state := ''REINSTATED'', sx_reinstated := Some (now E'), sx_rchannel := Some channel\<rparr>"
  from reinstated(7) obtain q0 where q0: "q0 \<in> set (subs s)" "live_sub_at c sid ''SELF_EXCLUDED'' q0" by blast
  have keys: "account_keys s" using assms(2) by (simp add: account_inv_def)
  have px: "?p y \<longleftrightarrow> y = x" if "y \<in> set (selfexcls s)" for y
    using distinct_key_unique [of sx_id "selfexcls s" y x] keys that reinstated(3-6,9) by (auto simp: account_keys_def)
  have only: "y = x" if "y \<in> set (selfexcls s)" "sx_sub y = sid" "sx_state y = ''ACTIVE''" for y
    using distinct_key_unique [of sx_sub "filter (\<lambda>x. sx_state x = ''ACTIVE'') (selfexcls s)" y x] keys that reinstated(3-6)
    by (auto simp: account_keys_def)
  have act: "excluded_now s' t i \<longleftrightarrow> excluded_now s t i \<and> \<not> (t = c \<and> i = sid)" for t i
    using px only reinstated(4,5) unfolding reinstated(8) excluded_now_def by (auto simp: set_upd_where)
  have reg: "register_agrees s'"
    by (rule agrees_upd [OF _ keys q0(1) _ _ q0(2) _ reinstated(10)]) (use q0(2) assms(2) in \<open>auto simp: account_inv_def act\<close>)
  have keys': "account_keys s'"
    by (rule account_keys_excl [OF keys reinstated(10)])
       (use keys in \<open>auto simp: account_keys_def reinstated(8) intro: distinct_filter_upd_off simp: map_upd_where_key\<close>)
  have "closed_kept s s'" by (rule closed_kept_upd [OF _ _ reinstated(10), of "''SELF_EXCLUDED''"]) simp_all
  with reg keys' assms(2) reinstated(1,2) show ?thesis
    by (auto simp: account_inv_def actions_ok_def config_inv_configs [OF reinstated(1)])
qed


lemma account_inv_frame:
  assumes "account_inv E V J s" "subs s' = subs s" "selfexcls s' = selfexcls s" "configs s' = configs s" "actions_ok s'"
  shows "account_inv E V J s'"
  using assms config_inv_configs [OF assms(4)] by (simp add: account_inv_def account_keys_def register_agrees_def excluded_now_def)

lemma decide_step:
  assumes "DecideStatusAction E' D telco i actor approve s = (u, s')" "account_inv E V J s" "decodes_alike strict D"
    and "\<And>sc j. V ''ops.status_actions'' sc j = validateOpsStatusActions strict j"
  shows "account_inv E V J s' \<and> closed_kept s s'"
  using assms(1)
proof (cases rule: DecideStatusAction_cases)
  case refused
  with assms(2) show ?thesis by (simp add: closed_kept_same)
next
  case rejected
  then show ?thesis using account_inv_frame [OF assms(2)] closed_kept_same by blast
next
  case (applied r)
  let ?p = "sub_at (E'\<lparr>tenant := telco\<rparr>) (sa_sub r) (sa_from r)"
  have cfg: "config_inv E V J s" using assms(2) by (simp add: account_inv_def)
  from transitionAllowed_validated [OF applied(4) cfg assms(3,4)]
  have ends: "sa_from r \<in> {''ACTIVE'', ''BARRED''}" "sa_to r \<in> set operator_statuses" by auto
  have plain: "sa_from r \<noteq> ''SELF_EXCLUDED''" "sa_to r \<noteq> ''SELF_EXCLUDED''" using ends by (auto simp: operator_statuses_def)
  have kept: "closed_kept s s'" by (rule closed_kept_upd [OF _ _ applied(5), of "sa_from r"]) (use ends in auto)
  have ids: "map sub_id (subs s') = map sub_id (subs s)" unfolding applied(5) by (rule map_upd_where_key) simp
  have same: "excluded_now s' t j = excluded_now s t j" for t j by (simp add: excluded_now_def applied(7))
  have old: "sub_status q = ''SELF_EXCLUDED'' \<longleftrightarrow> excluded_now s (sub_telco q) (sub_id q)" if "q \<in> set (subs s)" for q
    using assms(2) that by (simp add: account_inv_def register_agrees_def)
  have "sub_status q' = ''SELF_EXCLUDED'' \<longleftrightarrow> excluded_now s (sub_telco q') (sub_id q')" if "q' \<in> set (subs s')" for q'
  proof -
    from that consider q where "q \<in> set (subs s)" "?p q" "q' = q\<lparr>sub_status := sa_to r\<rparr>" | "q' \<in> set (subs s)"
      unfolding applied(5) set_upd_where by blast
    then show ?thesis
    proof cases
      case (1 q)
      with old [OF 1(1)] plain show ?thesis by simp
    qed (use old in simp)
  qed
  then have "register_agrees s'" by (simp add: register_agrees_def same)
  then show ?thesis
    using assms(2) applied(7,8) config_inv_configs [OF applied(6)] kept ids by (simp add: account_inv_def account_keys_def)
qed

lemma account_step_inv:
  assumes "account_step E V J D s s'" "account_inv E V J s" "decodes_alike strict D"
    and "\<And>sc j. V ''ops.status_actions'' sc j = validateOpsStatusActions strict j"
  shows "account_inv E V J s' \<and> closed_kept s s'"
  using assms(1)
proof cases
  case (request t telco token to why actor r)
  note eff = RequestStatusAction_effect [OF this]
  moreover have "actions_ok s'" using eff assms(2) by (auto simp: account_inv_def)
  ultimately show ?thesis using account_inv_frame [OF assms(2)] closed_kept_same by blast
next
  case (decide t telco i actor approve u)
  from decide_step [OF this assms(2-4)] show ?thesis .
next
  case (exclude t C c prog token channel why x)
  from exclude_step [OF this assms(2)] show ?thesis .
next
  case (reinstate t C c prog token channel u)
  from reinstate_step [OF this assms(2)] show ?thesis .
next
  case config
  from cfg_step_frame [OF this] cfg_step_inv [OF this] assms(2) show ?thesis
    by (simp add: account_inv_def account_keys_def register_agrees_def excluded_now_def actions_ok_def closed_kept_same)
qed

lemma closed_kept_trans: "closed_kept s s1 \<Longrightarrow> closed_kept s1 s2 \<Longrightarrow> closed_kept s s2"
  by (simp add: closed_kept_def)

text \<open>C29: Whatever operators request and decide, an account's record changes at most in its status; where it
  changed, neither the old nor the new status is SELF_EXCLUDED and an applied action to exactly the new status
  names two different people. So no operator can set, lift or override a self-exclusion, and nobody changes a
  status alone.\<close>

theorem operator_status_is_two_person:
  assumes "ops_step\<^sup>*\<^sup>* s s'" "actions_ok s" "i < length (subs s)"
  shows "subs s' ! i = subs s ! i
    \<or> (\<exists>st. subs s' ! i = (subs s ! i)\<lparr>sub_status := st\<rparr> \<and> sub_status (subs s ! i) \<noteq> ''SELF_EXCLUDED'' \<and> st \<noteq> ''SELF_EXCLUDED''
        \<and> (\<exists>r \<in> set (statusacts s'). sa_telco r = sub_telco (subs s ! i) \<and> sa_sub r = sub_id (subs s ! i) \<and> sa_state r = ''APPLIED''
             \<and> sa_to r = st \<and> (\<exists>x. sa_approver r = Some x \<and> x \<noteq> sa_by r)))"
  using ops_run_effect [OF assms(1,2)] assms(3)
  by (fastforce simp: two_person_change_def operator_statuses_def)

text \<open>C30: Through every interleaving of operator actions, customer exclusions and reinstatements and
  configuration changes, where the governed transition set is validated on approval and activation: an account is
  marked SELF_EXCLUDED exactly while the register holds an active exclusion of it, and an account that is CLOSED
  never changes again.\<close>

theorem exclusion_register_agrees:
  assumes "(account_step E V J D)\<^sup>*\<^sup>* s s'" "account_inv E V J s" "decodes_alike strict D"
    and "\<forall>sc j. V ''ops.status_actions'' sc j = validateOpsStatusActions strict j"
  shows "register_agrees s' \<and> (\<forall>i < length (subs s). sub_status (subs s ! i) = ''CLOSED'' \<longrightarrow> subs s' ! i = subs s ! i)"
proof -
  have "account_inv E V J s' \<and> closed_kept s s'"
    using assms(1)
  proof (induction rule: rtranclp_induct)
    case (step s1 s2)
    with account_step_inv [OF step(2) _ assms(3) assms(4) [rule_format]] show ?case by (blast intro: closed_kept_trans)
  qed (simp add: assms(2) closed_kept_same)
  then show ?thesis by (simp add: account_inv_def closed_kept_def)
qed

section \<open>Samples\<close>

definition sample_sub :: "string \<Rightarrow> string \<Rightarrow> string \<Rightarrow> SubscriberAccount" where
  "sample_sub sid token st = \<lparr>sub_id = sid, sub_telco = ''T'', sub_token = token, sub_status = st, sub_nin = Some True, sub_from = 0, sub_to = None\<rparr>"

definition bar_row :: config_row where
  "bar_row = \<lparr>cv_id = ''cfg_s'', cv_domain = ''ops.status_actions'', cv_scope = ''global'', cv_no = 1, cv_state = ''ACTIVE'',
     cv_content = JObj [], cv_hash = ''{}'', cv_from = Some 0, cv_to = None, cv_by = ''seed:builder'',
     cv_approver = Some ''seed:reviewer'', cv_reason = ''seed''\<rparr>"

definition bar_doc :: "json \<Rightarrow> TransitionDoc list option option" where
  "bar_doc j = Some (Some [\<lparr>td_from = Some ''ACTIVE'', td_to = Some ''BARRED''\<rparr>, \<lparr>td_from = Some ''BARRED'', td_to = Some ''CLOSED''\<rparr>])"

definition bar_pairs :: transitions_decoder where
  "bar_pairs j = Some [(''ACTIVE'', ''BARRED''), (''BARRED'', ''CLOSED'')]"

definition bar_validator :: validator where
  "bar_validator d sc j = (if d = ''ops.status_actions'' then validateOpsStatusActions bar_doc j else Inr ())"

definition accounts_db :: db where
  "accounts_db = empty_db\<lparr>subs := [sample_sub ''s1'' ''tok1'' ''ACTIVE'', sample_sub ''s2'' ''tok2'' ''CLOSED''], configs := [bar_row]\<rparr>"

definition barred_db :: db where
  "barred_db = snd (DecideStatusAction (sample_env\<lparr>now := 6\<rparr>) bar_pairs ''T'' ''ssa_0'' ''bob'' True
     (snd (RequestStatusAction (sample_env\<lparr>now := 5\<rparr>) bar_pairs ''T'' ''tok1'' ''BARRED'' ''fraud'' ''alice'' accounts_db)))"

lemma barred_status: "map sub_status (subs barred_db) = [''BARRED'', ''CLOSED'']"
  by code_simp


text \<open>The requested change, applied by a second operator, under the theorem.\<close>

theorem operator_status_is_two_person_witness:
  "sub_status (subs barred_db ! 0) = ''BARRED'' \<and>
   (\<exists>r \<in> set (statusacts barred_db). sa_state r = ''APPLIED'' \<and> sa_to r = ''BARRED'' \<and> (\<exists>x. sa_approver r = Some x \<and> x \<noteq> sa_by r))"
proof -
  let ?req = "snd (RequestStatusAction (sample_env\<lparr>now := 5\<rparr>) bar_pairs ''T'' ''tok1'' ''BARRED'' ''fraud'' ''alice'' accounts_db)"
  have "ops_step accounts_db ?req" by (rule ops_step.request) (rule prod.collapse [symmetric])
  moreover have "ops_step ?req barred_db" unfolding barred_db_def by (rule ops_step.decide) (rule prod.collapse [symmetric])
  ultimately have run: "ops_step\<^sup>*\<^sup>* accounts_db barred_db" by (meson converse_rtranclp_into_rtranclp rtranclp.rtrancl_refl)
  have "actions_ok accounts_db" by (simp add: actions_ok_def accounts_db_def empty_db_def one_open_action_def)
  from operator_status_is_two_person [OF run this, of 0] have "subs barred_db ! 0 = subs accounts_db ! 0
     \<or> (\<exists>r \<in> set (statusacts barred_db). sa_state r = ''APPLIED'' \<and> sa_to r = sub_status (subs barred_db ! 0)
          \<and> (\<exists>x. sa_approver r = Some x \<and> x \<noteq> sa_by r))"
    by (auto simp: accounts_db_def)
  moreover have b: "sub_status (subs barred_db ! 0) = ''BARRED''"
    using barred_status by (cases "subs barred_db") auto
  ultimately show ?thesis by (auto simp: accounts_db_def sample_sub_def)
qed


definition excluded_db :: db where
  "excluded_db = snd (RequestSelfExclusion (sample_env\<lparr>now := 7\<rparr>) sample_orig ''T'' ''prg_1'' ''tok1'' ''USSD'' ''my choice'' accounts_db)"

lemma accounts_inv: "account_inv sample_env bar_validator plain_text accounts_db"
  by (simp add: account_inv_def config_inv_def governed_def accounts_db_def empty_db_def bar_row_def bar_validator_def
      validateOpsStatusActions_def bar_doc_def operator_statuses_def sample_env_def plain_text_def actions_ok_def one_open_action_def
      account_keys_def register_agrees_def excluded_now_def sample_sub_def)

text \<open>A customer excludes herself while an operator tries to bar the account; the run is covered by the theorem.\<close>

theorem exclusion_register_agrees_witness:
  "map sub_status (subs excluded_db) = [''SELF_EXCLUDED'', ''CLOSED''] \<and> excluded_now excluded_db ''T'' ''s1''
   \<and> fst (RequestStatusAction (sample_env\<lparr>now := 8\<rparr>) bar_pairs ''T'' ''tok1'' ''BARRED'' ''fraud'' ''alice'' excluded_db)
       = Inl (Gov ErrTransitionNotAllowed)"
proof -
  have st: "map sub_status (subs excluded_db) = [''SELF_EXCLUDED'', ''CLOSED'']"
    and refused: "fst (RequestStatusAction (sample_env\<lparr>now := 8\<rparr>) bar_pairs ''T'' ''tok1'' ''BARRED'' ''fraud'' ''alice'' excluded_db)
       = Inl (Gov ErrTransitionNotAllowed)"
    and key: "map (\<lambda>q. (sub_telco q, sub_id q)) (subs excluded_db) = [(''T'', ''s1''), (''T'', ''s2'')]"
    by code_simp+
  have "account_step sample_env bar_validator plain_text bar_pairs accounts_db excluded_db"
    unfolding excluded_db_def by (rule account_step.exclude) (rule prod.collapse [symmetric])
  then have run: "(account_step sample_env bar_validator plain_text bar_pairs)\<^sup>*\<^sup>* accounts_db excluded_db" by (rule r_into_rtranclp)
  have "register_agrees excluded_db"
    using exclusion_register_agrees [OF run accounts_inv, of bar_doc]
    by (simp add: decodes_alike_def bar_doc_def bar_pairs_def bar_validator_def)
  with st key have "excluded_now excluded_db ''T'' ''s1''" by (cases "subs excluded_db") (auto simp: register_agrees_def)
  with st refused show ?thesis by simp
qed

end
