(* ===== verification/Recon.thy ===== *)
theory Recon
  imports ConfigSvc
begin

text \<open>
  Reconciliation of platform records with the telco's (\<^verbatim>\<open>usecase/recon/recon.go\<close>): the manifest of a telco source, the
  classification of a window, the completeness floor with its two-person override, the supersession of runs, and
  the two-person resolution of the breaks they leave (\<^verbatim>\<open>repo/ops.go\<close>). The lemmas show what a
  run records of each record and each platform advance, that a truncated feed never replaces a good run, and how the manifest
  depends on the order of the feed.
\<close>

section \<open>Floating point\<close>

text \<open>
  A \<^verbatim>\<open>float64\<close> is an integer mantissa and a power of two. Products are rounded to 53 bits, to nearest with
  ties to even; exponents are not bounded (ratios and record counts are far from both ends).
\<close>

type_synonym f64 = "int \<times> int"

fun bits :: "nat \<Rightarrow> nat" where
  "bits n = (if n = 0 then 0 else Suc (bits (n div 2)))"

declare bits.simps [simp del]

definition f64_round :: "f64 \<Rightarrow> f64" where
  "f64_round x =
     (let (m, e) = x; k = bits (nat \<bar>m\<bar>) - 53 in
      if k = 0 then (m, e)
      else
        let q = \<bar>m\<bar> div 2 ^ k; r = \<bar>m\<bar> mod 2 ^ k;
            q = (if r > 2 ^ (k - 1) \<or> r = 2 ^ (k - 1) \<and> odd q then q + 1 else q)
        in (sgn m * q, e + int k))"

definition f64_of_int :: "int \<Rightarrow> f64" where
  "f64_of_int n = f64_round (n, 0)"

definition f64_mult :: "f64 \<Rightarrow> f64 \<Rightarrow> f64" where
  "f64_mult x y = f64_round (fst x * fst y, snd x + snd y)"

text \<open>\<^verbatim>\<open>int64(math.Ceil(x))\<close>.\<close>

definition f64_ceil :: "f64 \<Rightarrow> int" where
  "f64_ceil x = (let (m, e) = x in if e \<ge> 0 then m * 2 ^ nat e else - ((- m) div 2 ^ nat (- e)))"

text \<open>\<open>0 < x\<close> and \<open>x \<le> 1\<close>.\<close>

definition f64_unit :: "f64 \<Rightarrow> bool" where
  "f64_unit x \<longleftrightarrow> 0 < fst x \<and> (if snd x \<ge> 0 then fst x * 2 ^ nat (snd x) \<le> 1 else fst x \<le> 2 ^ nat (- snd x))"

section \<open>Records\<close>

definition layerFulfilment :: string where
  "layerFulfilment = ''FULFILMENT''"

definition layerRecovery :: string where
  "layerRecovery = ''RECOVERY''"

definition ErrSelfApproveOverride :: err where
  "ErrSelfApproveOverride = Fmt ''recon: completeness override approver must differ from proposer''"

definition ErrNoRejectedRun :: err where
  "ErrNoRejectedRun = Fmt ''recon: no REJECTED run for this window''"

definition ErrOverrideNotPending :: err where
  "ErrOverrideNotPending = Fmt ''recon: completeness override is not pending approval''"

record reconItem =
  matchKey :: string
  itemType :: string
  platformRef :: string
  telcoRef :: string
  it_status :: string
  it_detail :: json

record telcoTransaction =
  PlatformRequestID :: string
  TxReference :: string
  FaceValueMinor :: i64
  TxCurrency :: string
  TxStatus :: string
  CreditedAt :: int

record platformRecord =
  pl_id :: string
  pl_state :: "AdvanceState option"
  pl_face :: i64
  pl_cur :: string
  pl_ref :: string

type_synonym platform_side = "(string \<times> platformRecord) list"

record Summary =
  RunID :: string
  Matched :: int
  MissingPlatform :: int
  MissingTelco :: int
  AmountMismatch :: int
  CurrencyMismatch :: int
  Malformed :: int
  DuplicateTelco :: int
  Contradictory :: int
  TelcoRecords :: int
  PlatformRecords :: int
  SourceHash :: string
  SourceControlTotalMinor :: i64
  PlatformControlTotalMinor :: i64
  SourceRecordCount :: i64
  MatchedControlTotalMinor :: i64
  Rejected :: bool
  CompletenessOverridden :: bool
  PeriodStart :: int
  PeriodEnd :: int
  NothingToReconcile :: bool
  Unchanged :: bool

definition no_summary :: Summary where
  "no_summary = \<lparr>RunID = '''', Matched = 0, MissingPlatform = 0, MissingTelco = 0, AmountMismatch = 0, CurrencyMismatch = 0,
     Malformed = 0, DuplicateTelco = 0, Contradictory = 0, TelcoRecords = 0, PlatformRecords = 0, SourceHash = '''',
     SourceControlTotalMinor = 0, PlatformControlTotalMinor = 0, SourceRecordCount = 0, MatchedControlTotalMinor = 0,
     Rejected = False, CompletenessOverridden = False, PeriodStart = 0, PeriodEnd = 0, NothingToReconcile = False,
     Unchanged = False\<rparr>"

definition BreakCount :: "Summary \<Rightarrow> int" where
  "BreakCount s = MissingPlatform s + MissingTelco s + AmountMismatch s + CurrencyMismatch s + Malformed s
     + DuplicateTelco s + Contradictory s"

record toleranceCfg =
  AmountToleranceMinor :: i64
  AutoResolve :: bool
  MaxAmountMinor :: i64
  MinCompletenessRatio :: f64
  ReconLagSeconds :: int
  RereconcileLookbackSeconds :: int

text \<open>
  What reconciliation takes from outside: the decoded tolerance, the URL of the adapter configuration, the HTTP client, the
  decoded telco log, and the sort of the manifest (Go's \<^verbatim>\<open>sort.Slice\<close> promises no order between equal keys).
\<close>

record recon_env =
  rc_tol :: "json \<Rightarrow> toleranceCfg option"
  rc_url :: "json \<Rightarrow> string option"
  rc_get :: "string \<Rightarrow> (int \<times> string option) option"
  rc_decode :: "string \<Rightarrow> telcoTransaction list option"
  rc_sort :: "telcoTransaction list \<Rightarrow> telcoTransaction list"

definition source_key :: "telcoTransaction \<Rightarrow> string list" where
  "source_key r = [PlatformRequestID r, TxReference r]"

definition sorts :: "(telcoTransaction list \<Rightarrow> telcoTransaction list) \<Rightarrow> bool" where
  "sorts f \<longleftrightarrow> (\<forall>rs. mset (f rs) = mset rs \<and> sorted (map source_key (f rs)))"

section \<open>The source manifest\<close>

definition addChecked :: "i64 \<Rightarrow> i64 \<Rightarrow> i64 option" where
  "addChecked a b =
     (let s = a + b in
      if 0 < sint a \<and> 0 < sint b \<and> sint s < 0 \<or> sint a < 0 \<and> sint b < 0 \<and> 0 < sint s then None else Some s)"

definition credibleAmount :: "i64 \<Rightarrow> i64 \<Rightarrow> bool" where
  "credibleAmount minor ceiling \<longleftrightarrow> 0 \<le> sint minor \<and> sint minor \<le> sint ceiling"

definition isISOCurrency :: "string \<Rightarrow> bool" where
  "isISOCurrency c \<longleftrightarrow> length c = 3 \<and> list_all (\<lambda>x. CHR ''A'' \<le> x \<and> x \<le> CHR ''Z'') c"

definition abs64 :: "i64 \<Rightarrow> i64" where
  "abs64 v = (if sint v < 0 then - v else v)"

definition canonical_record :: "telcoTransaction \<Rightarrow> json" where
  "canonical_record r = JObj [(''id'', JStr (PlatformRequestID r)), (''ref'', JStr (TxReference r)),
     (''amount_minor'', JNum (FaceValueMinor r)), (''currency'', JStr (TxCurrency r)), (''status'', JStr (TxStatus r))]"

fun control_sum :: "i64 \<Rightarrow> i64 \<Rightarrow> telcoTransaction list \<Rightarrow> i64 option" where
  "control_sum maxAmt acc [] = Some acc"
| "control_sum maxAmt acc (r # rs) =
     (if TxStatus r = ''SUCCESS'' \<and> credibleAmount (FaceValueMinor r) maxAmt
      then case addChecked acc (FaceValueMinor r) of None \<Rightarrow> None | Some a \<Rightarrow> control_sum maxAmt a rs
      else control_sum maxAmt acc rs)"

definition sourceManifest :: "env \<Rightarrow> recon_env \<Rightarrow> telcoTransaction list \<Rightarrow> i64 \<Rightarrow> err + i64 \<times> i64 \<times> string" where
  "sourceManifest E R recs maxAmt =
     (let ordered = rc_sort R recs in
      case control_sum maxAmt 0 ordered of
        None \<Rightarrow> Inl (Fmt ''source control total overflows int64'')
      | Some t \<Rightarrow> Inr (word_of_nat (length ordered), t, sha_hex E (marshal E (JArr (map canonical_record ordered)))))"

section \<open>The platform side\<close>

definition put_platform :: "platformRecord \<Rightarrow> platform_side \<Rightarrow> platform_side" where
  "put_platform p m =
     (if pl_id p \<in> fst ` set m then map (\<lambda>(k, v). if k = pl_id p then (k, p) else (k, v)) m else m @ [(pl_id p, p)])"

record layerSpec =
  ls_name :: string
  ls_fetch :: "env \<Rightarrow> string \<Rightarrow> int \<Rightarrow> int \<Rightarrow> db \<Rightarrow> err + platform_side"

definition in_window :: "int \<Rightarrow> int \<Rightarrow> int \<Rightarrow> bool" where
  "in_window a b t \<longleftrightarrow> a \<le> t \<and> t < b"

definition fulfilment_rows :: "env \<Rightarrow> string \<Rightarrow> int \<Rightarrow> int \<Rightarrow> db \<Rightarrow> platformRecord list" where
  "fulfilment_rows E prog ps pe s =
     concat (map (\<lambda>a.
       let row = (\<lambda>ref. \<lparr>pl_id = a_id a, pl_state = Some (a_state a), pl_face = a_face a, pl_cur = a_cur a, pl_ref = ref\<rparr>) in
       case filter (\<lambda>f. at_adv f = a_id a \<and> at_state f = AttemptConfirmed) (attempts s) of
         [] \<Rightarrow> [row '''']
       | fs \<Rightarrow> map (\<lambda>f. row (case at_ref f of None \<Rightarrow> '''' | Some x \<Rightarrow> x)) fs)
       (filter (\<lambda>a. a_telco a = tenant E \<and> a_prog a = prog \<and> a_state a \<in> {AdvActive, AdvPartiallyRecovered, AdvClosed}
          \<and> (case a_activated a of None \<Rightarrow> False | Some t \<Rightarrow> in_window ps pe t)) (advances s)))"

definition fulfilmentSpec :: layerSpec where
  "fulfilmentSpec = \<lparr>ls_name = layerFulfilment,
     ls_fetch = (\<lambda>E prog ps pe s. Inr (fold put_platform (fulfilment_rows E prog ps pe s) []))\<rparr>"

section \<open>The classification of a window\<close>

record classification =
  cl_items :: "reconItem list"
  cl_seen :: "string list"
  cl_sum :: Summary
  cl_matched :: i64

definition telco_detail :: "telcoTransaction \<Rightarrow> (string \<times> json) list" where
  "telco_detail tr = [(''telco_amount_minor'', JNum (FaceValueMinor tr)), (''telco_currency'', JStr (TxCurrency tr))]"

definition writeItem :: "string \<Rightarrow> string \<Rightarrow> string \<Rightarrow> string \<Rightarrow> string \<Rightarrow> (string \<times> json) list \<Rightarrow> classification \<Rightarrow> classification" where
  "writeItem key typ pref tref status d c =
     c\<lparr>cl_items := cl_items c @ [\<lparr>matchKey = key, itemType = typ, platformRef = pref, telcoRef = tref, it_status = status, it_detail = JObj d\<rparr>]\<rparr>"

definition bump :: "(Summary \<Rightarrow> Summary) \<Rightarrow> classification \<Rightarrow> classification" where
  "bump f c = c\<lparr>cl_sum := f (cl_sum c)\<rparr>"

text \<open>The switch over the first success record of a key.\<close>

definition classify_first :: "string \<Rightarrow> toleranceCfg \<Rightarrow> platform_side \<Rightarrow> telcoTransaction \<Rightarrow> classification \<Rightarrow> classification" where
  "classify_first layer tol plat tr c =
     (let key = PlatformRequestID tr in
      case map_of plat key of
        None \<Rightarrow> writeItem key layer key (TxReference tr) ''BREAK_MISSING_PLATFORM'' (telco_detail tr)
          (bump (\<lambda>u. u\<lparr>MissingPlatform := MissingPlatform u + 1\<rparr>) c)
      | Some p \<Rightarrow>
          let both = [(''platform_minor'', JNum (pl_face p)), (''platform_currency'', JStr (pl_cur p)),
                      (''telco_minor'', JNum (FaceValueMinor tr)), (''telco_currency'', JStr (TxCurrency tr))] in
          if \<not> isISOCurrency (TxCurrency tr) \<or> \<not> credibleAmount (FaceValueMinor tr) (MaxAmountMinor tol)
          then writeItem key layer (pl_id p) (TxReference tr) ''BREAK_MALFORMED_TELCO_RECORD'' both
            (bump (\<lambda>u. u\<lparr>Malformed := Malformed u + 1\<rparr>) c)
          else if pl_cur p \<noteq> TxCurrency tr
          then writeItem key layer (pl_id p) (TxReference tr) ''BREAK_CURRENCY_MISMATCH'' both
            (bump (\<lambda>u. u\<lparr>CurrencyMismatch := CurrencyMismatch u + 1\<rparr>) c)
          else if sint (abs64 (pl_face p - FaceValueMinor tr)) > sint (AmountToleranceMinor tol)
          then writeItem key layer (pl_id p) (TxReference tr) ''BREAK_AMOUNT_MISMATCH''
            [(''platform_minor'', JNum (pl_face p)), (''telco_minor'', JNum (FaceValueMinor tr)), (''currency'', JStr (pl_cur p))]
            (bump (\<lambda>u. u\<lparr>AmountMismatch := AmountMismatch u + 1\<rparr>) c)
          else writeItem key layer (pl_id p) (TxReference tr) ''MATCHED''
            [(''amount_minor'', JNum (pl_face p)), (''currency'', JStr (pl_cur p))]
            (bump (\<lambda>u. u\<lparr>Matched := Matched u + 1\<rparr>) c\<lparr>cl_matched := cl_matched c + pl_face p\<rparr>))"

fun classify :: "string \<Rightarrow> toleranceCfg \<Rightarrow> platform_side \<Rightarrow> string list \<Rightarrow> telcoTransaction list \<Rightarrow> classification \<Rightarrow> classification" where
  "classify layer tol plat hasFailed [] c = c"
| "classify layer tol plat hasFailed (tr # trs) c =
     classify layer tol plat hasFailed trs
       (let key = PlatformRequestID tr in
        if TxStatus tr \<noteq> ''SUCCESS'' then c
        else if key \<in> set (cl_seen c)
        then writeItem key layer key (TxReference tr) ''BREAK_DUPLICATE_TELCO_RECORD'' (telco_detail tr)
          (bump (\<lambda>u. u\<lparr>DuplicateTelco := DuplicateTelco u + 1\<rparr>) c)
        else
          let c = c\<lparr>cl_seen := key # cl_seen c\<rparr> in
          if key \<in> set hasFailed
          then writeItem key layer (case map_of plat key of None \<Rightarrow> key | Some p \<Rightarrow> pl_id p) (TxReference tr)
            ''BREAK_CONTRADICTORY_TELCO_STATUS''
            (telco_detail tr @ [(''note'', JStr ''same key reported both FAILED and SUCCESS in this window'')])
            (bump (\<lambda>u. u\<lparr>Contradictory := Contradictory u + 1\<rparr>) c)
          else classify_first layer tol plat tr c)"

fun missing_telco :: "string \<Rightarrow> platform_side \<Rightarrow> classification \<Rightarrow> classification" where
  "missing_telco layer [] c = c"
| "missing_telco layer ((k, p) # ps) c =
     missing_telco layer ps
       (if k \<in> set (cl_seen c) then c
        else writeItem k layer (pl_id p) (pl_ref p) ''BREAK_MISSING_TELCO'' [(''platform_minor'', JNum (pl_face p))]
          (bump (\<lambda>u. u\<lparr>MissingTelco := MissingTelco u + 1\<rparr>) c))"

definition failed_keys :: "telcoTransaction list \<Rightarrow> string list" where
  "failed_keys trs = map PlatformRequestID (filter (\<lambda>tr. TxStatus tr = ''FAILED'') trs)"

definition classify_window :: "string \<Rightarrow> toleranceCfg \<Rightarrow> platform_side \<Rightarrow> telcoTransaction list \<Rightarrow> Summary \<Rightarrow> classification" where
  "classify_window layer tol plat windowed u =
     missing_telco layer plat (classify layer tol plat (failed_keys windowed) windowed
       \<lparr>cl_items = [], cl_seen = [], cl_sum = u, cl_matched = 0\<rparr>)"

definition platform_sum :: "platform_side \<Rightarrow> i64" where
  "platform_sum plat = sum_list (map (pl_face \<circ> snd) plat)"


section \<open>Runs, items and overrides\<close>

text \<open>The CHECKs of \<^verbatim>\<open>recon_runs\<close> and its one ACTIVE run per scope and period (migrations 0035, 0037).\<close>

definition run_checks :: "run_row \<Rightarrow> bool" where
  "run_checks r \<longleftrightarrow> rr_layer r \<in> {''FULFILMENT'', ''RECOVERY'', ''SETTLEMENT'', ''BUREAU''} \<and> 0 \<le> sint (rr_src_count r)
     \<and> 0 \<le> sint (rr_plat_count r) \<and> 0 \<le> sint (rr_matched r) \<and> 0 \<le> sint (rr_breaks r)
     \<and> rr_state r \<in> {''ACTIVE'', ''SUPERSEDED'', ''REJECTED''} \<and> rr_start r \<le> rr_end r
     \<and> (rr_state r = ''SUPERSEDED'' \<longleftrightarrow> rr_successor r \<noteq> None)"

definition run_scope :: "run_row \<Rightarrow> string \<times> string \<times> string \<times> int" where
  "run_scope r = (rr_telco r, rr_prog r, rr_layer r, rr_start r)"

definition put_runs :: "run_row list \<Rightarrow> db \<Rightarrow> err + db" where
  "put_runs rows s =
     (if \<not> list_all run_checks rows then Inl (Pg ''23514'' ''recon_runs_check'')
      else if \<not> distinct (map rr_id rows) then Inl (Pg ''23505'' ''recon_runs_pkey'')
      else if \<not> distinct (map run_scope (filter (\<lambda>r. rr_state r = ''ACTIVE'') rows)) then Inl (Pg ''23505'' ''recon_runs_active_uq'')
      else Inr (s\<lparr>recon_runs := rows\<rparr>))"

definition active_at :: "env \<Rightarrow> string \<times> string \<times> string \<times> int \<Rightarrow> run_row \<Rightarrow> bool" where
  "active_at E sc r \<longleftrightarrow> rr_telco r = tenant E \<and> run_scope r = sc \<and> rr_state r = ''ACTIVE''"

definition insert_run :: "env \<Rightarrow> run_row \<Rightarrow> db \<Rightarrow> err + db" where
  "insert_run E r s = andThen (rls_check E (rr_telco r)) (\<lambda>_. put_runs (recon_runs s @ [r]) s)"

definition supersede_run :: "env \<Rightarrow> string \<times> string \<times> string \<times> int \<Rightarrow> string \<Rightarrow> db \<Rightarrow> err + db" where
  "supersede_run E sc runID s =
     put_runs (upd_where (active_at E sc) (\<lambda>r. r\<lparr>rr_state := ''SUPERSEDED'', rr_successor := Some runID\<rparr>) (recon_runs s)) s"

text \<open>The constraints of \<^verbatim>\<open>recon_items\<close> (migrations 0004, 0038, 0036 and 0041): one item per run and key, duplicates aside.\<close>

definition item_statuses :: "string list" where
  "item_statuses = [''MATCHED'', ''BREAK_MISSING_PLATFORM'', ''BREAK_MISSING_TELCO'', ''BREAK_AMOUNT_MISMATCH'',
     ''BREAK_CURRENCY_MISMATCH'', ''BREAK_MALFORMED_TELCO_RECORD'', ''BREAK_DUPLICATE_TELCO_RECORD'',
     ''BREAK_CONTRADICTORY_TELCO_STATUS'']"

definition item_checks :: "item_row \<Rightarrow> bool" where
  "item_checks r \<longleftrightarrow> ri_type r \<in> {''FULFILMENT'', ''RECOVERY''} \<and> ri_status r \<in> set item_statuses
     \<and> (ri_resolved r = None \<or> ri_proposer r \<noteq> None \<and> ri_resolver r \<noteq> None \<and> ri_resolver r \<noteq> ri_proposer r)"

definition canonical_item :: "item_row \<Rightarrow> bool" where
  "canonical_item r \<longleftrightarrow> ri_status r \<noteq> ''BREAK_DUPLICATE_TELCO_RECORD''"

definition put_items :: "item_row list \<Rightarrow> db \<Rightarrow> err + db" where
  "put_items rows s =
     (if \<not> list_all item_checks rows then Inl (Pg ''23514'' ''recon_items_check'')
      else if \<not> distinct (map ri_id rows) then Inl (Pg ''23505'' ''recon_items_pkey'')
      else if \<not> distinct (map (\<lambda>r. (ri_run r, ri_key r)) (filter canonical_item rows)) then Inl (Pg ''23505'' ''recon_items_canonical_uq'')
      else Inr (s\<lparr>recon_items := rows\<rparr>))"

fun insert_items :: "env \<Rightarrow> string \<Rightarrow> string \<Rightarrow> reconItem list \<Rightarrow> db \<Rightarrow> err + db" where
  "insert_items E runID telco [] s = Inr s"
| "insert_items E runID telco (it # its) s =
     (let (i, s) = NewID E ''rci'' s;
          r = \<lparr>ri_id = i, ri_run = runID, ri_telco = telco, ri_type = itemType it, ri_platform = NULLIF_empty (platformRef it),
               ri_ref = NULLIF_empty (telcoRef it), ri_status = it_status it, ri_detail = it_detail it, ri_key = matchKey it,
               ri_created = now E, ri_assigned = None, ri_proposer = None, ri_prop_reason = None, ri_resolved = None,
               ri_resolver = None, ri_resolution = None\<rparr>
      in andThen (rls_check E telco) (\<lambda>_.
         andThen (put_items (recon_items s @ [r]) s) (\<lambda>s. insert_items E runID telco its s)))"

text \<open>The constraints of \<^verbatim>\<open>recon_completeness_overrides\<close> (migration 0040): four eyes and one live override per window.\<close>

definition override_checks :: "override_row \<Rightarrow> bool" where
  "override_checks r \<longleftrightarrow> ov_layer r \<in> {''FULFILMENT'', ''RECOVERY'', ''SETTLEMENT'', ''BUREAU''} \<and> 0 \<le> sint (ov_count r)
     \<and> ov_state r \<in> {''PENDING'', ''APPROVED'', ''CONSUMED'', ''DECLINED''}
     \<and> (ov_approver r = None \<or> ov_approver r \<noteq> Some (ov_by r))
     \<and> (ov_state r \<in> {''PENDING'', ''DECLINED''} \<or> ov_approver r \<noteq> None)
     \<and> (ov_state r \<noteq> ''CONSUMED'' \<or> ov_consumer r \<noteq> None)"

definition override_scope :: "override_row \<Rightarrow> string \<times> string \<times> string \<times> int" where
  "override_scope r = (ov_telco r, ov_prog r, ov_layer r, ov_start r)"

definition put_overrides :: "override_row list \<Rightarrow> db \<Rightarrow> err + db" where
  "put_overrides rows s =
     (if \<not> list_all override_checks rows then Inl (Pg ''23514'' ''recon_completeness_overrides_check'')
      else if \<not> distinct (map ov_id rows) then Inl (Pg ''23505'' ''recon_completeness_overrides_pkey'')
      else if \<not> distinct (map override_scope (filter (\<lambda>r. ov_state r \<in> {''PENDING'', ''APPROVED''}) rows))
      then Inl (Pg ''23505'' ''recon_completeness_overrides_live_uq'')
      else Inr (s\<lparr>overrides := rows\<rparr>))"

definition override_update :: "env \<Rightarrow> string \<Rightarrow> string \<Rightarrow> (override_row \<Rightarrow> override_row) \<Rightarrow> db \<Rightarrow> err + bool \<times> db" where
  "override_update E i st f s =
     (let p = (\<lambda>r. ov_telco r = tenant E \<and> ov_id r = i \<and> ov_state r = st) in
      andThen (put_overrides (upd_where p f (overrides s)) s) (\<lambda>s'. Inr (length (filter p (overrides s)) = 1, s')))"

section \<open>A run\<close>

definition run_header ::
  "env \<Rightarrow> string \<Rightarrow> string \<Rightarrow> string \<Rightarrow> string \<Rightarrow> int \<Rightarrow> int \<Rightarrow> i64 \<times> i64 \<times> string \<Rightarrow> platform_side \<Rightarrow> i64 \<Rightarrow> int \<Rightarrow> int \<Rightarrow> string \<Rightarrow> run_row" where
  "run_header E runID telco prog layer ps pe man plat matched m b st =
     \<lparr>rr_id = runID, rr_telco = telco, rr_prog = prog, rr_layer = layer, rr_start = ps, rr_end = pe,
      rr_src_count = fst man, rr_src_sum = fst (snd man), rr_src_hash = snd (snd man),
      rr_plat_count = word_of_nat (length plat), rr_plat_sum = platform_sum plat, rr_matched_sum = Some matched,
      rr_matched = word_of_int m, rr_breaks = word_of_int b, rr_state = st, rr_successor = None, rr_created = now E\<rparr>"

text \<open>
  The completeness gate against the ACTIVE run of the same period: \<open>None\<close> rejects, the empty id passes,
  \<open>Some i\<close> passes by consuming the approved override \<open>i\<close>.
\<close>

definition completeness :: "env \<Rightarrow> string \<times> string \<times> string \<times> int \<Rightarrow> f64 \<Rightarrow> i64 \<Rightarrow> db \<Rightarrow> string option" where
  "completeness E sc ratio srcCount s =
     (case List.find (active_at E sc) (recon_runs s) of
        None \<Rightarrow> Some ''''
      | Some prior \<Rightarrow>
          if sint srcCount < f64_ceil (f64_mult (f64_of_int (sint (rr_src_count prior))) ratio)
          then map_option ov_id (List.find (\<lambda>v. ov_telco v = tenant E \<and> override_scope v = sc \<and> ov_state v = ''APPROVED''
                 \<and> ov_baseline v = rr_id prior \<and> sint (ov_count v) \<le> sint srcCount) (overrides s))
          else Some '''')"

definition consume_override :: "env \<Rightarrow> string \<Rightarrow> string \<Rightarrow> db \<Rightarrow> err + db" where
  "consume_override E i runID s =
     (if i = '''' then Inr s
      else andThen (override_update E i ''APPROVED'' (\<lambda>v. v\<lparr>ov_state := ''CONSUMED'', ov_consumer := Some runID\<rparr>) s) (\<lambda>(ok, s).
        if \<not> ok then Inl (Fmt ''completeness override was consumed concurrently'') else Inr s))"

text \<open>The end of a run: the gate, then the header, the override and the items, or a rejected header alone.\<close>

definition commit_run ::
  "string \<times> string \<times> string \<times> int \<Rightarrow> string \<Rightarrow> toleranceCfg \<Rightarrow> i64 \<times> i64 \<times> string \<Rightarrow> (int \<Rightarrow> int \<Rightarrow> string \<Rightarrow> run_row) \<Rightarrow> Summary \<Rightarrow> reconItem list
    \<Rightarrow> env \<Rightarrow> db \<Rightarrow> err + Summary \<times> db" where
  "commit_run sc runID tol man header u items E s =
     (case completeness E sc (MinCompletenessRatio tol) (fst man) s of
        None \<Rightarrow> andThen (insert_run E (header 0 0 ''REJECTED'') s) (\<lambda>s. Inr (u\<lparr>Rejected := True\<rparr>, s))
      | Some v \<Rightarrow>
          andThen (supersede_run E sc runID s) (\<lambda>s.
          andThen (insert_run E (header (Matched u) (BreakCount u) ''ACTIVE'') s) (\<lambda>s.
          andThen (consume_override E v runID s) (\<lambda>s.
          andThen (insert_items E runID (fst sc) items s) (\<lambda>s.
          Inr (u\<lparr>CompletenessOverridden := v \<noteq> ''''\<rparr>, s))))))"

definition reconcile_tx ::
  "recon_env \<Rightarrow> layerSpec \<Rightarrow> string \<Rightarrow> string \<Rightarrow> int \<Rightarrow> int \<Rightarrow> telcoTransaction list \<Rightarrow> toleranceCfg \<Rightarrow> string \<Rightarrow> env \<Rightarrow> db \<Rightarrow> err + Summary \<times> db" where
  "reconcile_tx R spec telco prog ps pe recs tol runID E s =
     (let windowed = filter (\<lambda>tr. in_window ps pe (CreditedAt tr)) recs in
      andThen (sourceManifest E R windowed (MaxAmountMinor tol)) (\<lambda>man.
      andThen (ls_fetch spec E prog ps pe s) (\<lambda>plat.
      let c = classify_window (ls_name spec) tol plat windowed
                (no_summary\<lparr>RunID := runID, TelcoRecords := int (length recs), PeriodStart := ps, PeriodEnd := pe,
                   SourceControlTotalMinor := fst (snd man), SourceHash := snd (snd man), SourceRecordCount := fst man,
                   PlatformRecords := int (length plat)\<rparr>)
      in commit_run (telco, prog, ls_name spec, ps) runID tol man
           (run_header E runID telco prog (ls_name spec) ps pe man plat (cl_matched c))
           ((cl_sum c)\<lparr>PlatformControlTotalMinor := platform_sum plat, MatchedControlTotalMinor := cl_matched c\<rparr>) (cl_items c) E s)))"

definition reconcileLayer ::
  "env \<Rightarrow> recon_env \<Rightarrow> layerSpec \<Rightarrow> string \<Rightarrow> string \<Rightarrow> int \<Rightarrow> int \<Rightarrow> telcoTransaction list \<Rightarrow> toleranceCfg \<Rightarrow> db \<Rightarrow> (err + Summary) \<times> db" where
  "reconcileLayer E R spec telco prog ps pe recs tol s =
     (let (runID, s) = NewID E ''run'' s in WithTenantTx E telco (reconcile_tx R spec telco prog ps pe recs tol runID) s)"


section \<open>The service\<close>

definition fetchTelcoRecords :: "env \<Rightarrow> recon_env \<Rightarrow> string \<Rightarrow> db \<Rightarrow> err + telcoTransaction list" where
  "fetchTelcoRecords E R telco s =
     andThen (ActiveAt ''telco.adapter'' (''telco:'' @ telco) (now E) s) (\<lambda>cv.
     case rc_url R (cv_content cv) of
       None \<Rightarrow> Inl (Fmt ''telco.adapter content'')
     | Some url \<Rightarrow>
         (case rc_get R (url @ ''/sim/transactions'') of
            None \<Rightarrow> Inl (Fmt ''fetch telco records'')
          | Some (code, body) \<Rightarrow>
              (case body of
                 None \<Rightarrow> Inl (Fmt ''read telco records'')
               | Some raw \<Rightarrow>
                   if code \<noteq> 200 then Inl (Fmt ''telco records endpoint'')
                   else (case rc_decode R (take 16777216 raw) of None \<Rightarrow> Inl (Fmt ''decode telco records'') | Some out \<Rightarrow> Inr out))))"

definition loadForRecon :: "env \<Rightarrow> recon_env \<Rightarrow> string \<Rightarrow> string \<Rightarrow> db \<Rightarrow> err + toleranceCfg \<times> telcoTransaction list" where
  "loadForRecon E R telco prog s =
     andThen (ActiveAt ''recon.tolerance'' (''programme:'' @ prog) (now E) s) (\<lambda>cv.
     case rc_tol R (cv_content cv) of
       None \<Rightarrow> Inl (Fmt ''recon.tolerance content'')
     | Some tol \<Rightarrow>
         if sint (MaxAmountMinor tol) \<le> 0 then Inl (Fmt ''recon.tolerance has no max_amount_minor'')
         else if \<not> f64_unit (MinCompletenessRatio tol) then Inl (Fmt ''recon.tolerance min_completeness_ratio must be in (0,1]'')
         else if ReconLagSeconds tol < 0 then Inl (Fmt ''recon.tolerance recon_lag_seconds must be >= 0'')
         else if RereconcileLookbackSeconds tol \<le> 0 then Inl (Fmt ''recon.tolerance rereconcile_lookback_seconds must be > 0'')
         else andThen (fetchTelcoRecords E R telco s) (\<lambda>recs. Inr (tol, recs)))"

text \<open>The watermark: the latest end of an ACTIVE run, the epoch without one.\<close>

definition watermark :: "env \<Rightarrow> string \<Rightarrow> string \<Rightarrow> string \<Rightarrow> db \<Rightarrow> int" where
  "watermark E telco prog layer s =
     (case map rr_end (filter (\<lambda>r. rr_telco r = tenant E \<and> rr_telco r = telco \<and> rr_prog r = prog \<and> rr_layer r = layer
         \<and> rr_state r = ''ACTIVE'') (recon_runs s)) of [] \<Rightarrow> 0 | e # es \<Rightarrow> foldr max es e)"

definition RunFulfilment :: "env \<Rightarrow> recon_env \<Rightarrow> string \<Rightarrow> string \<Rightarrow> db \<Rightarrow> (err + Summary) \<times> db" where
  "RunFulfilment E R telco prog s =
     (case loadForRecon E R telco prog s of
        Inl e \<Rightarrow> (Inl e, snd (NewID E ''run'' s))
      | Inr (tol, recs) \<Rightarrow>
          let cutoff = now E - ReconLagSeconds tol * second in
          (case WithTenantTx E telco (\<lambda>E s. Inr (watermark E telco prog layerFulfilment s, s)) s of
             (Inl e, s) \<Rightarrow> (Inl e, s)
           | (Inr ps, s) \<Rightarrow>
               if \<not> ps < cutoff
               then let (i, s) = NewID E ''run'' s in
                    (Inr (no_summary\<lparr>RunID := i, PeriodStart := ps, PeriodEnd := cutoff, NothingToReconcile := True\<rparr>), s)
               else reconcileLayer E R fulfilmentSpec telco prog ps cutoff recs tol s))"

definition ReconcilePeriod :: "env \<Rightarrow> recon_env \<Rightarrow> string \<Rightarrow> string \<Rightarrow> int \<Rightarrow> int \<Rightarrow> db \<Rightarrow> (err + Summary) \<times> db" where
  "ReconcilePeriod E R telco prog ps pe s =
     (if \<not> ps < pe then (Inl (Fmt ''recon period end must be after start''), s)
      else case loadForRecon E R telco prog s of
        Inl e \<Rightarrow> (Inl e, snd (NewID E ''run'' s))
      | Inr (tol, recs) \<Rightarrow> reconcileLayer E R fulfilmentSpec telco prog ps pe recs tol s)"

text \<open>The re-sweep: an unchanged source skips its window, an error ends the sweep with what it has.\<close>

fun resweep ::
  "env \<Rightarrow> recon_env \<Rightarrow> string \<Rightarrow> string \<Rightarrow> toleranceCfg \<Rightarrow> telcoTransaction list \<Rightarrow> (int \<times> int \<times> string) list \<Rightarrow> Summary list \<Rightarrow> db
    \<Rightarrow> (Summary list \<times> err option) \<times> db" where
  "resweep E R telco prog tol recs [] out s = ((out, None), s)"
| "resweep E R telco prog tol recs ((ps, pe, h0) # periods) out s =
     (case sourceManifest E R (filter (\<lambda>tr. in_window ps pe (CreditedAt tr)) recs) (MaxAmountMinor tol) of
        Inl e \<Rightarrow> ((out, Some e), s)
      | Inr (_, _, h) \<Rightarrow>
          if h = h0
          then resweep E R telco prog tol recs periods (out @ [no_summary\<lparr>PeriodStart := ps, PeriodEnd := pe, Unchanged := True\<rparr>]) s
          else (case reconcileLayer E R fulfilmentSpec telco prog ps pe recs tol s of
                  (Inl e, s) \<Rightarrow> ((out, Some e), s)
                | (Inr u, s) \<Rightarrow> resweep E R telco prog tol recs periods (out @ [u]) s))"

definition recent_periods :: "env \<Rightarrow> string \<Rightarrow> string \<Rightarrow> int \<Rightarrow> db \<Rightarrow> (int \<times> int \<times> string) list" where
  "recent_periods E telco prog horizon s =
     map (\<lambda>r. (rr_start r, rr_end r, rr_src_hash r)) (sort_key rr_start
       (filter (\<lambda>r. rr_telco r = tenant E \<and> rr_telco r = telco \<and> rr_prog r = prog \<and> rr_layer r = layerFulfilment
          \<and> rr_state r = ''ACTIVE'' \<and> rr_end r \<ge> horizon) (recon_runs s)))"

definition ReconcileRecentPeriods :: "env \<Rightarrow> recon_env \<Rightarrow> string \<Rightarrow> string \<Rightarrow> db \<Rightarrow> (Summary list \<times> err option) \<times> db" where
  "ReconcileRecentPeriods E R telco prog s =
     (case loadForRecon E R telco prog s of
        Inl e \<Rightarrow> (([], Some e), s)
      | Inr (tol, recs) \<Rightarrow>
          let horizon = now E - RereconcileLookbackSeconds tol * second in
          (case WithTenantTx E telco (\<lambda>E s. Inr (recent_periods E telco prog horizon s, s)) s of
             (Inl e, s) \<Rightarrow> (([], Some e), s)
           | (Inr periods, s) \<Rightarrow> resweep E R telco prog tol recs periods [] s))"

section \<open>The completeness override\<close>

definition latest_rejected :: "env \<Rightarrow> string \<times> string \<times> string \<times> int \<Rightarrow> db \<Rightarrow> run_row option" where
  "latest_rejected E sc s =
     (case sort_key (\<lambda>r. - rr_created r) (filter (\<lambda>r. rr_telco r = tenant E \<and> run_scope r = sc \<and> rr_state r = ''REJECTED'') (recon_runs s)) of
        [] \<Rightarrow> None | r # _ \<Rightarrow> Some r)"

definition propose_tx :: "string \<Rightarrow> string \<Rightarrow> string \<Rightarrow> int \<Rightarrow> string \<Rightarrow> string \<Rightarrow> string \<Rightarrow> env \<Rightarrow> db \<Rightarrow> err + unit \<times> db" where
  "propose_tx telco prog layer ps actor why i E s =
     (let sc = (telco, prog, layer, ps) in
      case List.find (active_at E sc) (recon_runs s) of
        None \<Rightarrow> Inl (Fmt ''no ACTIVE run for this window'')
      | Some a \<Rightarrow>
          (case latest_rejected E sc s of
             None \<Rightarrow> Inl ErrNoRejectedRun
           | Some rej \<Rightarrow>
               andThen (rls_check E telco) (\<lambda>_.
               andThen (put_overrides (overrides s @ [\<lparr>ov_id = i, ov_telco = telco, ov_prog = prog, ov_layer = layer, ov_start = ps,
                 ov_end = rr_end a, ov_rejected = rr_id rej, ov_baseline = rr_id a, ov_count = rr_src_count rej,
                 ov_state = ''PENDING'', ov_by = actor, ov_reason = why, ov_approver = None, ov_consumer = None\<rparr>]) s) (\<lambda>s.
               Inr ((), s)))))"

definition ProposeCompletenessOverride ::
  "env \<Rightarrow> string \<Rightarrow> string \<Rightarrow> string \<Rightarrow> int \<Rightarrow> string \<Rightarrow> string \<Rightarrow> db \<Rightarrow> (err + string) \<times> db" where
  "ProposeCompletenessOverride E telco prog layer ps actor why s =
     (if why = '''' then (Inl (Fmt ''completeness override requires a reason''), s)
      else if layer \<noteq> layerFulfilment \<and> layer \<noteq> layerRecovery then (Inl (Fmt ''completeness override: unknown layer''), s)
      else
        let (i, s) = NewID E ''rco'' s in
        (case WithTenantTx E telco (propose_tx telco prog layer ps actor why i) s of
           (Inl e, s) \<Rightarrow> (Inl e, s) | (Inr _, s) \<Rightarrow> (Inr i, s)))"

definition ApproveCompletenessOverride :: "env \<Rightarrow> string \<Rightarrow> string \<Rightarrow> string \<Rightarrow> db \<Rightarrow> (err + unit) \<times> db" where
  "ApproveCompletenessOverride E telco i approver s =
     WithTenantTx E telco (\<lambda>E s.
       case override_update E i ''PENDING'' (\<lambda>v. v\<lparr>ov_state := ''APPROVED'', ov_approver := Some approver\<rparr>) s of
         Inl e \<Rightarrow> if (case e of Pg code _ \<Rightarrow> code = ''23514'' | _ \<Rightarrow> False) then Inl ErrSelfApproveOverride else Inl e
       | Inr (ok, s) \<Rightarrow> if \<not> ok then Inl ErrOverrideNotPending else Inr ((), s)) s"

section \<open>The breaks workflow\<close>

definition ErrSelfApproveResolution :: err where
  "ErrSelfApproveResolution = Fmt ''repo: break resolution approver must differ from proposer''"

definition ErrNoProposedResolution :: err where
  "ErrNoProposedResolution = Fmt ''repo: break has no proposed resolution to approve''"

definition open_break :: "env \<Rightarrow> string \<Rightarrow> item_row \<Rightarrow> bool" where
  "open_break E i r \<longleftrightarrow> ri_telco r = tenant E \<and> ri_id r = i \<and> take 5 (ri_status r) = ''BREAK'' \<and> 5 < length (ri_status r) \<and> ri_resolved r = None"

definition break_update :: "(item_row \<Rightarrow> bool) \<Rightarrow> (item_row \<Rightarrow> item_row) \<Rightarrow> err \<Rightarrow> db \<Rightarrow> err + db" where
  "break_update p f none s =
     andThen (put_items (upd_where p f (recon_items s)) s) (\<lambda>s'. if filter p (recon_items s) = [] then Inl none else Inr s')"

definition break_effect :: "env \<Rightarrow> string \<Rightarrow> string \<Rightarrow> string \<Rightarrow> string \<Rightarrow> db \<Rightarrow> err + db" where
  "break_effect E i action actor why s =
     (if action = ''ASSIGN'' then break_update (open_break E i) (\<lambda>r. r\<lparr>ri_assigned := Some actor\<rparr>) ErrNotFound s
      else if action = ''PROPOSE_RESOLVE''
      then break_update (\<lambda>r. open_break E i r \<and> ri_proposer r = None)
        (\<lambda>r. r\<lparr>ri_proposer := Some actor, ri_prop_reason := Some why\<rparr>) ErrNotFound s
      else if action = ''APPROVE_RESOLVE''
      then (case break_update (\<lambda>r. open_break E i r \<and> ri_proposer r \<noteq> None)
              (\<lambda>r. r\<lparr>ri_resolved := Some (now E), ri_resolver := Some actor, ri_resolution := Some why\<rparr>) ErrNoProposedResolution s of
              Inl e \<Rightarrow> if (case e of Pg code _ \<Rightarrow> code = ''23514'' | _ \<Rightarrow> False) then Inl ErrSelfApproveResolution else Inl e
            | Inr s \<Rightarrow> Inr s)
      else if action = ''RESOLVE'' then Inl (Fmt ''single-actor RESOLVE is not permitted'')
      else if action \<in> {''ESCALATE'', ''NOTE''} then Inr s
      else Inl (Fmt ''unknown break action''))"

definition Breaks_Action :: "env \<Rightarrow> string \<Rightarrow> string \<Rightarrow> string \<Rightarrow> string \<Rightarrow> string \<Rightarrow> db \<Rightarrow> err + db" where
  "Breaks_Action E telco i action actor why s =
     (if actor = '''' \<or> why = '''' then Inl (Fmt ''actor and reason are required for break actions'')
      else andThen (break_effect E i action actor why s) (\<lambda>s.
           andThen (rls_check E telco) (\<lambda>_.
           Inr (s\<lparr>break_actions := break_actions s @ [\<lparr>ba_telco = telco, ba_item = i, ba_action = action, ba_actor = actor, ba_reason = why\<rparr>]\<rparr>))))"

definition BreakAction :: "env \<Rightarrow> string \<Rightarrow> string \<Rightarrow> string \<Rightarrow> string \<Rightarrow> string \<Rightarrow> db \<Rightarrow> (err + unit) \<times> db" where
  "BreakAction E telco i action actor why s =
     WithTenantTx E telco (\<lambda>E s.
       andThen (Breaks_Action E telco i action actor why s) (\<lambda>s.
       let (_, s) = NewID E ''aud'' s in
       andThen (Audit_Insert E \<lparr>au_telco = telco, au_actor = actor, au_action = ''break.'' @ action, au_ttype = ''recon_item'',
         au_target = i, au_reason = why\<rparr> s) (\<lambda>s. Inr ((), s)))) s"


section \<open>What a window's items say\<close>

definition success_of :: "telcoTransaction list \<Rightarrow> telcoTransaction list" where
  "success_of trs = filter (\<lambda>tr. TxStatus tr = ''SUCCESS'') trs"

text \<open>The rule for a match, over integers: the first success record of the key, no failure of the key, a credible amount in an ISO
  currency, the platform's currency, and a difference within the tolerance.\<close>

definition agrees :: "toleranceCfg \<Rightarrow> platform_side \<Rightarrow> telcoTransaction list \<Rightarrow> string \<Rightarrow> bool" where
  "agrees tol plat trs k \<longleftrightarrow> k \<notin> set (failed_keys trs) \<and>
     (case (map_of plat k, List.find (\<lambda>tr. PlatformRequestID tr = k) (success_of trs)) of
        (Some p, Some tr) \<Rightarrow> isISOCurrency (TxCurrency tr) \<and> credibleAmount (FaceValueMinor tr) (MaxAmountMinor tol)
          \<and> pl_cur p = TxCurrency tr \<and> \<bar>sint (pl_face p) - sint (FaceValueMinor tr)\<bar> \<le> sint (AmountToleranceMinor tol)
      | _ \<Rightarrow> False)"

definition canonical :: "reconItem list \<Rightarrow> reconItem list" where
  "canonical its = filter (\<lambda>it. it_status it \<noteq> ''BREAK_DUPLICATE_TELCO_RECORD'') its"

definition matched :: "reconItem list \<Rightarrow> reconItem list" where
  "matched its = filter (\<lambda>it. it_status it = ''MATCHED'') its"

definition breaks :: "reconItem list \<Rightarrow> reconItem list" where
  "breaks its = filter (\<lambda>it. it_status it \<noteq> ''MATCHED'') its"

lemma item_lists [simp]:
  "canonical [] = []" "matched [] = []" "breaks [] = []"
  "canonical (xs @ ys) = canonical xs @ canonical ys" "matched (xs @ ys) = matched xs @ matched ys"
  "breaks (xs @ ys) = breaks xs @ breaks ys"
  by (simp_all add: canonical_def matched_def breaks_def)

text \<open>The agreement of amounts as the code tests it, for amounts that are not negative.\<close>

lemma abs64_diff:
  assumes "0 \<le> sint a" "0 \<le> sint b"
  shows "sint (abs64 (a - b)) = \<bar>sint a - sint b\<bar>"
proof -
  have "in_i64 (sint a - sint b)" "in_i64 (- (sint a - sint b))"
    using assms sint_bounds [of a] sint_bounds [of b] by (auto simp: in_i64_def)
  then show ?thesis
    by (simp add: abs64_def i64_simps)
qed

text \<open>One step of the loop.\<close>

definition grade :: "toleranceCfg \<Rightarrow> platform_side \<Rightarrow> telcoTransaction \<Rightarrow> bool" where
  "grade tol plat tr \<longleftrightarrow> (case map_of plat (PlatformRequestID tr) of None \<Rightarrow> False | Some p \<Rightarrow>
     isISOCurrency (TxCurrency tr) \<and> credibleAmount (FaceValueMinor tr) (MaxAmountMinor tol) \<and> pl_cur p = TxCurrency tr
     \<and> \<not> sint (abs64 (pl_face p - FaceValueMinor tr)) > sint (AmountToleranceMinor tol))"

definition adds :: "string \<Rightarrow> platform_side \<Rightarrow> classification \<Rightarrow> classification \<Rightarrow> reconItem \<Rightarrow> bool" where
  "adds layer plat c c' it \<longleftrightarrow> cl_items c' = cl_items c @ [it] \<and> itemType it = layer \<and> it_status it \<in> set item_statuses
     \<and> Matched (cl_sum c') = Matched (cl_sum c) + (if it_status it = ''MATCHED'' then 1 else 0)
     \<and> BreakCount (cl_sum c') = BreakCount (cl_sum c) + (if it_status it = ''MATCHED'' then 0 else 1)
     \<and> cl_matched c' = cl_matched c + (if it_status it = ''MATCHED'' then pl_face (the (map_of plat (matchKey it))) else 0)"

lemma classify_first_eff:
  fixes layer tol plat tr c
  defines "it \<equiv> last (cl_items (classify_first layer tol plat tr c))"
  shows "adds layer plat c (classify_first layer tol plat tr c) it \<and> matchKey it = PlatformRequestID tr
    \<and> cl_seen (classify_first layer tol plat tr c) = cl_seen c
    \<and> it_status it \<noteq> ''BREAK_DUPLICATE_TELCO_RECORD'' \<and> (it_status it = ''MATCHED'' \<longleftrightarrow> grade tol plat tr)"
  unfolding it_def
  by (cases "map_of plat (PlatformRequestID tr)")
    (auto simp: adds_def classify_first_def writeItem_def bump_def BreakCount_def Let_def item_statuses_def grade_def)

definition classify_step :: "string \<Rightarrow> toleranceCfg \<Rightarrow> platform_side \<Rightarrow> string list \<Rightarrow> telcoTransaction \<Rightarrow> classification \<Rightarrow> classification" where
  "classify_step layer tol plat failed tr c = classify layer tol plat failed [tr] c"

lemma classify_Cons:
  "classify layer tol plat failed (tr # trs) c = classify layer tol plat failed trs (classify_step layer tol plat failed tr c)"
  by (simp add: classify_step_def)

lemma classify_step_skip: "TxStatus tr \<noteq> ''SUCCESS'' \<Longrightarrow> classify_step layer tol plat failed tr c = c"
  by (simp add: classify_step_def)

lemma classify_step_eff:
  fixes layer tol plat failed tr c
  defines "c' \<equiv> classify_step layer tol plat failed tr c"
  defines "it \<equiv> last (cl_items c')"
  assumes "TxStatus tr = ''SUCCESS''"
  shows "adds layer plat c c' it \<and> matchKey it = PlatformRequestID tr
    \<and> set (cl_seen c') = insert (PlatformRequestID tr) (set (cl_seen c))
    \<and> (it_status it \<noteq> ''BREAK_DUPLICATE_TELCO_RECORD'' \<longleftrightarrow> PlatformRequestID tr \<notin> set (cl_seen c))
    \<and> (it_status it = ''MATCHED'' \<longleftrightarrow> PlatformRequestID tr \<notin> set (cl_seen c) \<and> PlatformRequestID tr \<notin> set failed \<and> grade tol plat tr)"
proof -
  let ?k = "PlatformRequestID tr" and ?c = "c\<lparr>cl_seen := PlatformRequestID tr # cl_seen c\<rparr>"
  consider "?k \<in> set (cl_seen c)" | "?k \<notin> set (cl_seen c)" "?k \<in> set failed" | "?k \<notin> set (cl_seen c)" "?k \<notin> set failed" by blast
  then show ?thesis
  proof cases
    case 3
    then have "c' = classify_first layer tol plat tr ?c"
      using assms(3) by (simp add: c'_def classify_step_def Let_def)
    with 3 classify_first_eff [of layer plat ?c tol tr] show ?thesis
      by (simp add: it_def adds_def)
  qed (use assms(3) in \<open>auto simp: it_def c'_def classify_step_def adds_def writeItem_def bump_def BreakCount_def Let_def item_statuses_def\<close>)
qed


lemma classify_append: "classify layer tol plat failed (xs @ ys) c = classify layer tol plat failed ys (classify layer tol plat failed xs c)"
  by (induction xs arbitrary: c) simp_all

definition first_success :: "telcoTransaction list \<Rightarrow> string \<Rightarrow> telcoTransaction option" where
  "first_success trs k = List.find (\<lambda>tr. PlatformRequestID tr = k) (success_of trs)"

definition well_kept :: "string \<Rightarrow> platform_side \<Rightarrow> Summary \<Rightarrow> classification \<Rightarrow> bool" where
  "well_kept layer plat u c \<longleftrightarrow> distinct (map matchKey (canonical (cl_items c)))
     \<and> (\<forall>it \<in> set (cl_items c). itemType it = layer \<and> it_status it \<in> set item_statuses)
     \<and> Matched (cl_sum c) = Matched u + int (length (matched (cl_items c)))
     \<and> BreakCount (cl_sum c) = BreakCount u + int (length (breaks (cl_items c)))
     \<and> cl_matched c = sum_list (map (\<lambda>it. pl_face (the (map_of plat (matchKey it)))) (matched (cl_items c)))"

lemma well_kept_adds:
  assumes "well_kept layer plat u c" "adds layer plat c c' it"
    "it_status it \<noteq> ''BREAK_DUPLICATE_TELCO_RECORD'' \<longrightarrow> matchKey it \<notin> matchKey ` set (canonical (cl_items c))"
  shows "well_kept layer plat u c'"
  using assms by (auto simp: well_kept_def adds_def canonical_def matched_def breaks_def)

definition sound :: "string \<Rightarrow> toleranceCfg \<Rightarrow> platform_side \<Rightarrow> string list \<Rightarrow> Summary \<Rightarrow> telcoTransaction list \<Rightarrow> classification \<Rightarrow> bool" where
  "sound layer tol plat failed u trs c \<longleftrightarrow> well_kept layer plat u c \<and> length (cl_items c) = length (success_of trs)
     \<and> set (cl_seen c) = PlatformRequestID ` set (success_of trs)
     \<and> matchKey ` set (canonical (cl_items c)) = set (cl_seen c)
     \<and> (\<forall>it \<in> set (canonical (cl_items c)). \<exists>tr. first_success trs (matchKey it) = Some tr
          \<and> (it_status it = ''MATCHED'' \<longleftrightarrow> matchKey it \<notin> set failed \<and> grade tol plat tr))"

lemma find_append: "List.find p (xs @ ys) = (case List.find p xs of None \<Rightarrow> List.find p ys | Some x \<Rightarrow> Some x)"
  by (induction xs) simp_all

lemma first_success_old: "k \<in> PlatformRequestID ` set (success_of trs) \<Longrightarrow> first_success (trs @ [tr]) k = first_success trs k"
  by (auto simp: first_success_def success_of_def find_None_iff find_append split: option.splits)

lemma first_success_new:
  "TxStatus tr = ''SUCCESS'' \<Longrightarrow> PlatformRequestID tr \<notin> PlatformRequestID ` set (success_of trs) \<Longrightarrow>
     first_success (trs @ [tr]) (PlatformRequestID tr) = Some tr"
proof -
  assume "TxStatus tr = ''SUCCESS''" "PlatformRequestID tr \<notin> PlatformRequestID ` set (success_of trs)"
  moreover from this have "List.find (\<lambda>t. PlatformRequestID t = PlatformRequestID tr) (success_of trs) = None"
    unfolding find_None_iff by (metis imageI)
  ultimately show ?thesis by (simp add: first_success_def success_of_def find_append)
qed

lemma sound_step:
  assumes "sound layer tol plat failed u trs c"
  shows "sound layer tol plat failed u (trs @ [tr]) (classify_step layer tol plat failed tr c)"
proof (cases "TxStatus tr = ''SUCCESS''")
  case False
  with assms show ?thesis by (simp add: classify_step_skip sound_def success_of_def first_success_def)
next
  case True
  let ?c' = "classify_step layer tol plat failed tr c"
  define it where "it = last (cl_items ?c')"
  note eff = classify_step_eff [OF True, of layer plat c tol failed, folded it_def]
  have items: "cl_items ?c' = cl_items c @ [it]" using eff by (simp add: adds_def)
  have seen: "set (cl_seen c) = PlatformRequestID ` set (success_of trs)" "matchKey ` set (canonical (cl_items c)) = set (cl_seen c)"
    using assms by (simp_all add: sound_def)
  have "well_kept layer plat u c" using assms by (simp add: sound_def)
  moreover have "adds layer plat c ?c' it" using eff by blast
  moreover have "it_status it \<noteq> ''BREAK_DUPLICATE_TELCO_RECORD'' \<longrightarrow> matchKey it \<notin> matchKey ` set (canonical (cl_items c))"
    using eff unfolding seen(2) by simp
  ultimately have "well_kept layer plat u ?c'" by (rule well_kept_adds)
  moreover have "\<exists>tr'. first_success (trs @ [tr]) (matchKey i) = Some tr'
      \<and> (it_status i = ''MATCHED'' \<longleftrightarrow> matchKey i \<notin> set failed \<and> grade tol plat tr')"
    if i: "i \<in> set (canonical (cl_items ?c'))" for i
  proof (cases "i \<in> set (canonical (cl_items c))")
    case True
    then have "matchKey i \<in> PlatformRequestID ` set (success_of trs)" using seen by blast
    with True assms show ?thesis unfolding sound_def by (simp only: first_success_old)
  next
    case False
    with i items have "i = it" "it_status it \<noteq> ''BREAK_DUPLICATE_TELCO_RECORD''" by (auto simp: canonical_def split: if_splits)
    moreover from this have "PlatformRequestID tr \<notin> set (cl_seen c)" using eff by simp
    moreover from this have "first_success (trs @ [tr]) (PlatformRequestID tr) = Some tr"
      using first_success_new [OF True] seen(1) by simp
    ultimately show ?thesis using eff by simp
  qed
  moreover have "length (cl_items ?c') = length (success_of (trs @ [tr]))"
    using assms True items by (simp add: sound_def success_of_def)
  moreover have "set (cl_seen ?c') = PlatformRequestID ` set (success_of (trs @ [tr]))"
    using True eff seen(1) by (simp add: success_of_def)
  moreover have "matchKey ` set (canonical (cl_items ?c')) = set (cl_seen ?c')"
    using eff seen(2) by (auto simp: items canonical_def)
  ultimately show ?thesis unfolding sound_def by blast
qed

lemma sound_classify:
  "sound layer tol plat failed u trs (classify layer tol plat failed trs \<lparr>cl_items = [], cl_seen = [], cl_sum = u, cl_matched = 0\<rparr>)"
proof (induction trs rule: rev_induct)
  case Nil
  then show ?case by (simp add: sound_def well_kept_def success_of_def)
next
  case (snoc tr trs)
  from sound_step [OF this] show ?case by (simp add: classify_append classify_step_def)
qed


lemma missing_telco_eff:
  assumes "distinct (map fst ps)" "well_kept layer plat u c"
    "\<forall>k \<in> fst ` set ps. k \<notin> set (cl_seen c) \<longrightarrow> k \<notin> matchKey ` set (canonical (cl_items c))"
  shows "\<exists>new. cl_items (missing_telco layer ps c) = cl_items c @ new \<and> well_kept layer plat u (missing_telco layer ps c)
    \<and> map matchKey new = filter (\<lambda>k. k \<notin> set (cl_seen c)) (map fst ps) \<and> (\<forall>it \<in> set new. it_status it = ''BREAK_MISSING_TELCO'')"
  using assms
proof (induction ps arbitrary: c)
  case Nil
  then show ?case by simp
next
  case (Cons q ps)
  obtain k p where q: "q = (k, p)" by (cases q)
  show ?case
  proof (cases "k \<in> set (cl_seen c)")
    case True
    with Cons.prems q Cons.IH [of c] show ?thesis by simp
  next
    case False
    define c' where "c' = writeItem k layer (pl_id p) (pl_ref p) ''BREAK_MISSING_TELCO'' [(''platform_minor'', JNum (pl_face p))]
      (bump (\<lambda>u. u\<lparr>MissingTelco := MissingTelco u + 1\<rparr>) c)"
    define it where "it = last (cl_items c')"
    have new: "cl_items c' = cl_items c @ [it]" "matchKey it = k" "it_status it = ''BREAK_MISSING_TELCO''" "cl_seen c' = cl_seen c"
      "adds layer plat c c' it"
      by (simp_all add: it_def c'_def writeItem_def bump_def adds_def BreakCount_def item_statuses_def)
    have "well_kept layer plat u c'"
      using Cons.prems(2,3) new(2) False q by (intro well_kept_adds [OF _ new(5)]) auto
    moreover have can: "canonical (cl_items c') = canonical (cl_items c) @ [it]"
      using new by (simp add: canonical_def)
    moreover have fresh: "\<forall>j \<in> fst ` set ps. j \<notin> set (cl_seen c') \<longrightarrow> j \<notin> matchKey ` set (canonical (cl_items c'))"
      using Cons.prems(1,3) q new(2,4) unfolding can by (auto simp: image_iff)
    ultimately obtain rest where "cl_items (missing_telco layer ps c') = cl_items c' @ rest" "well_kept layer plat u (missing_telco layer ps c')"
      "map matchKey rest = filter (\<lambda>k. k \<notin> set (cl_seen c')) (map fst ps)" "\<forall>it \<in> set rest. it_status it = ''BREAK_MISSING_TELCO''"
      using Cons.IH [OF _ _ fresh] Cons.prems(1) q by auto
    with new False q show ?thesis
      by (intro exI [of _ "it # rest"]) (simp add: c'_def)
  qed
qed


lemma grade_agrees:
  assumes "\<forall>p \<in> snd ` set plat. 0 \<le> sint (pl_face p)" "first_success trs k = Some tr"
  shows "k \<notin> set (failed_keys trs) \<and> grade tol plat tr \<longleftrightarrow> agrees tol plat trs k"
proof -
  have k: "PlatformRequestID tr = k" using assms(2) by (auto simp: first_success_def dest: find_SomeD)
  show ?thesis
  proof (cases "map_of plat k")
    case None
    then show ?thesis by (simp add: agrees_def grade_def k)
  next
    case (Some p)
    then have "0 \<le> sint (pl_face p)" using assms(1) by (force dest: map_of_SomeD)
    then have "credibleAmount (FaceValueMinor tr) (MaxAmountMinor tol) \<Longrightarrow>
        sint (abs64 (pl_face p - FaceValueMinor tr)) = \<bar>sint (pl_face p) - sint (FaceValueMinor tr)\<bar>"
      by (intro abs64_diff) (simp_all add: credibleAmount_def)
    with Some assms(2) show ?thesis by (auto simp: agrees_def grade_def k first_success_def)
  qed
qed

text \<open>C36: The items of a window account for everything on both sides once: every success record of the telco gets
  one item and so does every platform record without one; apart from repeated telco records, each key has exactly one item; an
  item is MATCHED exactly when the key's first success record agrees with the platform record in currency and, to within the tolerance, in
  amount, and no failure was reported for it; and the summary's counts and matched total are those of the items.\<close>

theorem window_partition:
  fixes layer tol plat trs u
  assumes "distinct (map fst plat)" "\<forall>p \<in> snd ` set plat. 0 \<le> sint (pl_face p)"
  defines "c \<equiv> classify_window layer tol plat trs u"
  shows "length (cl_items c) = length (success_of trs) + length (filter (\<lambda>k. k \<notin> PlatformRequestID ` set (success_of trs)) (map fst plat))
    \<and> distinct (map matchKey (canonical (cl_items c)))
    \<and> matchKey ` set (canonical (cl_items c)) = PlatformRequestID ` set (success_of trs) \<union> fst ` set plat
    \<and> (\<forall>it \<in> set (canonical (cl_items c)). it_status it = ''MATCHED'' \<longleftrightarrow> agrees tol plat trs (matchKey it))
    \<and> Matched (cl_sum c) = Matched u + int (length (matched (cl_items c)))
    \<and> BreakCount (cl_sum c) = BreakCount u + int (length (breaks (cl_items c)))
    \<and> cl_matched c = sum_list (map (\<lambda>it. pl_face (the (map_of plat (matchKey it)))) (matched (cl_items c)))"
proof -
  define c0 where "c0 = classify layer tol plat (failed_keys trs) trs \<lparr>cl_items = [], cl_seen = [], cl_sum = u, cl_matched = 0\<rparr>"
  let ?keys = "PlatformRequestID ` set (success_of trs)"
  have sound: "sound layer tol plat (failed_keys trs) u trs c0" unfolding c0_def by (rule sound_classify)
  then have seen: "set (cl_seen c0) = ?keys" "matchKey ` set (canonical (cl_items c0)) = ?keys" "well_kept layer plat u c0"
    and len: "length (cl_items c0) = length (success_of trs)" by (simp_all add: sound_def)
  obtain new where new: "cl_items c = cl_items c0 @ new" "well_kept layer plat u c"
    "map matchKey new = filter (\<lambda>k. k \<notin> ?keys) (map fst plat)" "\<forall>it \<in> set new. it_status it = ''BREAK_MISSING_TELCO''"
    using missing_telco_eff [OF assms(1) seen(3)] seen(1,2) by (auto simp: c_def classify_window_def c0_def [symmetric])
  have can: "canonical new = new" using new(4) by (auto simp: canonical_def intro!: filter_True)
  have "matchKey ` set new = fst ` set plat - ?keys"
    using arg_cong [OF new(3), of set] by auto
  then have keys: "matchKey ` set (canonical (cl_items c)) = ?keys \<union> fst ` set plat"
    unfolding new(1) using seen(2) can by (auto simp: image_Un)
  have agree: "it_status it = ''MATCHED'' \<longleftrightarrow> agrees tol plat trs (matchKey it)" if it: "it \<in> set (canonical (cl_items c))" for it
  proof (cases "it \<in> set (canonical (cl_items c0))")
    case True
    with sound obtain tr where "first_success trs (matchKey it) = Some tr"
      "it_status it = ''MATCHED'' \<longleftrightarrow> matchKey it \<notin> set (failed_keys trs) \<and> grade tol plat tr"
      unfolding sound_def by blast
    with grade_agrees [OF assms(2)] show ?thesis by simp
  next
    case False
    with it new(1) can have n: "it \<in> set new" by simp
    then have "matchKey it \<in> set (filter (\<lambda>k. k \<notin> ?keys) (map fst plat))"
      unfolding new(3) [symmetric] by simp
    then have "first_success trs (matchKey it) = None"
      by (force simp: first_success_def find_None_iff)
    then have "\<not> agrees tol plat trs (matchKey it)"
      by (auto simp: agrees_def first_success_def split: option.splits)
    with n new(4) show ?thesis by simp
  qed
  have "length new = length (filter (\<lambda>k. k \<notin> ?keys) (map fst plat))" using arg_cong [OF new(3), of length] by simp
  with new(1) len keys agree new(2) show ?thesis by (auto simp: well_kept_def)
qed


section \<open>The completeness floor\<close>

lemma bits_upper: "n < 2 ^ bits n"
proof (induction n rule: bits.induct)
  case (1 n)
  then show ?case by (cases "n = 0") (auto simp: bits.simps [of n])
qed

lemma bits_lower: "0 < n \<Longrightarrow> 2 ^ (bits n - 1) \<le> n"
proof (induction n rule: bits.induct)
  case (1 n)
  show ?case
  proof (cases "n div 2 = 0")
    case True
    with 1(2) show ?thesis by (simp add: bits.simps [of n] bits.simps [of 0])
  next
    case False
    with 1 have "2 * 2 ^ (bits (n div 2) - 1) \<le> n" by linarith
    moreover have "bits (n div 2) = Suc (bits (n div 2) - 1)" using False by (subst (1 2) bits.simps) simp
    ultimately show ?thesis using 1(2) by (simp add: bits.simps [of n]) (metis power_Suc)
  qed
qed

lemma bits_le: "n < 2 ^ k \<Longrightarrow> bits n \<le> k"
proof (cases "n = 0")
  case False
  assume "n < 2 ^ k"
  with bits_lower [of n] False have "(2 :: nat) ^ (bits n - 1) < 2 ^ k" by linarith
  then show ?thesis by (simp add: power_strict_increasing_iff)
qed (simp add: bits.simps)

lemma ceil_div_le: "0 < w \<Longrightarrow> p \<le> n * w \<Longrightarrow> - ((- p) div w) \<le> (n :: int)"
  by (metis minus_mult_left neg_le_iff_le nonzero_mult_div_cancel_right order_less_irrefl zdiv_mono1 add.inverse_inverse)

lemma ceil_div_pos: "0 < (w :: int) \<Longrightarrow> 0 < p \<Longrightarrow> 1 \<le> - ((- p) div w)"
  using div_neg_pos_less0 [of "- p" w] by linarith

lemma rounded_up_le:
  fixes p N :: int
  assumes "0 \<le> p" "p \<le> N * 2 ^ k"
  shows "(if p mod 2 ^ k > 2 ^ (k - 1) \<or> p mod 2 ^ k = 2 ^ (k - 1) \<and> odd (p div 2 ^ k) then p div 2 ^ k + 1 else p div 2 ^ k) \<le> N"
proof (cases "p mod 2 ^ k = 0")
  case True
  then have "p div 2 ^ k * 2 ^ k \<le> N * 2 ^ k" using assms(2) minus_mod_eq_div_mult [of p "2 ^ k"] by linarith
  then have "p div 2 ^ k \<le> N" by simp
  with True show ?thesis by (simp add: not_less)
next
  case False
  then have "0 < p mod 2 ^ k" by (metis linorder_not_le order_antisym pos_mod_sign zero_less_numeral zero_less_power)
  then have "p div 2 ^ k * 2 ^ k < N * 2 ^ k" using assms(2) minus_mod_eq_div_mult [of p "2 ^ k"] by linarith
  then have "p div 2 ^ k < N" by simp
  then show ?thesis by simp
qed


text \<open>Below \<open>2\<^sup>5\<^sup>3\<close> records the rounded floor of a non-empty prior run lies between one record and the prior count.\<close>

lemma floor_bounds:
  assumes "f64_unit r" "1 \<le> n" "n < 2 ^ 53"
  shows "1 \<le> f64_ceil (f64_mult (f64_of_int n) r) \<and> f64_ceil (f64_mult (f64_of_int n) r) \<le> n"
proof -
  obtain m e where r: "r = (m, e)" by (cases r)
  define p where "p = n * m"
  have m: "1 \<le> m" "0 < p" using assms r by (simp_all add: f64_unit_def p_def)
  have "bits (nat n) \<le> 53" using assms(2,3) by (intro bits_le) (simp add: nat_less_iff)
  then have n: "f64_of_int n = (n, 0)" using assms(2) by (simp add: f64_of_int_def f64_round_def)
  have prod: "f64_mult (f64_of_int n) r = f64_round (p, e)" by (simp add: n r f64_mult_def p_def)
  define k where "k = bits (nat p) - 53"
  show ?thesis
  proof (cases "e \<ge> 0")
    case True
    then have "m * 2 ^ nat e \<le> 1" using assms(1) r by (simp add: f64_unit_def)
    moreover have "m \<le> m * 2 ^ nat e" using m by (simp add: mult_le_cancel_left1)
    ultimately have one: "m = 1" using m by linarith
    with \<open>m * 2 ^ nat e \<le> 1\<close> have "(2 :: int) ^ nat e \<le> 2 ^ 0" by simp
    then have "nat e = 0" by (metis le_zero_eq one_less_numeral_iff power_increasing_iff semiring_norm(76))
    with True one have "m = 1" "e = 0" by simp_all
    then have "p = n" by (simp add: p_def)
    then have "f64_round (p, e) = (n, 0)" using n \<open>e = 0\<close> by (simp add: f64_of_int_def)
    then show ?thesis using assms(2) by (simp add: prod f64_ceil_def)
  next
    case False
    define w where "w = nat (- e)"
    have w: "0 < w" "e = - int w" using False by (simp_all add: w_def)
    have "m \<le> 2 ^ w" using assms(1) r False by (simp add: f64_unit_def w_def)
    then have pw: "p \<le> n * 2 ^ w" using assms(2) by (simp add: p_def mult_le_cancel_left)
    show ?thesis
    proof (cases "k = 0")
      case True
      then have "f64_round (p, e) = (p, e)" using m by (simp add: f64_round_def k_def)
      then have "f64_ceil (f64_mult (f64_of_int n) r) = - ((- p) div 2 ^ w)" using w by (simp add: prod f64_ceil_def)
      with ceil_div_le [OF _ pw] ceil_div_pos [OF _ m(2), of "2 ^ w"] show ?thesis by simp
    next
      case False
      define q where "q = (if p mod 2 ^ k > 2 ^ (k - 1) \<or> p mod 2 ^ k = 2 ^ (k - 1) \<and> odd (p div 2 ^ k) then p div 2 ^ k + 1 else p div 2 ^ k)"
      have rnd: "f64_round (p, e) = (q, int k - int w)"
        using False m w by (auto simp: f64_round_def k_def q_def Let_def)
      have low: "2 ^ (52 + k) \<le> p"
        using bits_lower [of "nat p"] m(2) False by (simp add: k_def)
      have "p div 2 ^ k \<ge> 2 ^ (52 + k) div 2 ^ k" using low by (intro zdiv_mono1) simp_all
      then have q1: "1 \<le> q" by (simp add: q_def power_add)
      have kw: "k \<le> w"
      proof (rule ccontr)
        assume "\<not> k \<le> w"
        then have "n * 2 ^ w \<le> n * 2 ^ (k - 1)" using assms(2) by (intro mult_left_mono power_increasing) simp_all
        also have "\<dots> < 2 ^ 53 * 2 ^ (k - 1)" using assms(3) by (intro mult_strict_right_mono) simp_all
        finally have "n * 2 ^ w < 2 ^ (53 + (k - 1))" by (simp only: power_add)
        moreover have "53 + (k - 1) = 52 + k" using False by simp
        ultimately show False using pw low by (simp only:)
      qed
      then have "n * 2 ^ w = n * 2 ^ (w - k) * 2 ^ k" by (simp flip: power_add)
      then have "q \<le> n * 2 ^ (w - k)" unfolding q_def using m pw by (intro rounded_up_le) linarith+
      moreover have "f64_ceil (f64_mult (f64_of_int n) r) = - ((- q) div 2 ^ (w - k))"
        unfolding prod rnd f64_ceil_def using kw by (cases "k = w") (simp_all add: nat_diff_distrib)
      ultimately show ?thesis using ceil_div_le [of "2 ^ (w - k)" q n] ceil_div_pos [of "2 ^ (w - k)" q] q1 by simp
    qed
  qed
qed


section \<open>What a run leaves\<close>

lemma put_runs_Inr: "put_runs rows s = Inr s' \<longleftrightarrow> s' = s\<lparr>recon_runs := rows\<rparr> \<and> list_all run_checks rows \<and> distinct (map rr_id rows)
    \<and> distinct (map run_scope (filter (\<lambda>r. rr_state r = ''ACTIVE'') rows))"
  by (auto simp: put_runs_def)

lemma put_items_Inr: "put_items rows s = Inr s' \<longleftrightarrow> s' = s\<lparr>recon_items := rows\<rparr> \<and> list_all item_checks rows \<and> distinct (map ri_id rows)
    \<and> distinct (map (\<lambda>r. (ri_run r, ri_key r)) (filter canonical_item rows))"
  by (auto simp: put_items_def)

lemma put_overrides_Inr: "put_overrides rows s = Inr s' \<longleftrightarrow> s' = s\<lparr>overrides := rows\<rparr> \<and> list_all override_checks rows \<and> distinct (map ov_id rows)
    \<and> distinct (map override_scope (filter (\<lambda>r. ov_state r \<in> {''PENDING'', ''APPROVED''}) rows))"
  by (auto simp: put_overrides_def)

lemmas put_rows_Inr = put_runs_Inr put_items_Inr put_overrides_Inr

definition item_face :: "item_row \<Rightarrow> string \<times> string \<times> string" where
  "item_face r = (ri_run r, ri_status r, ri_key r)"

lemma insert_items_Inr:
  "insert_items E runID telco its s = Inr s' \<Longrightarrow>
     \<exists>new n. s' = s\<lparr>next_id := n, recon_items := recon_items s @ new\<rparr> \<and> map item_face new = map (\<lambda>it. (runID, it_status it, matchKey it)) its"
proof (induction its arbitrary: s)
  case Nil
  then show ?case by (intro exI [of _ "[]"] exI [of _ "next_id s"]) simp
next
  case (Cons it its)
  let ?r = "\<lparr>ri_id = fst (NewID E ''rci'' s), ri_run = runID, ri_telco = telco, ri_type = itemType it, ri_platform = NULLIF_empty (platformRef it),
               ri_ref = NULLIF_empty (telcoRef it), ri_status = it_status it, ri_detail = it_detail it, ri_key = matchKey it,
               ri_created = now E, ri_assigned = None, ri_proposer = None, ri_prop_reason = None, ri_resolved = None,
               ri_resolver = None, ri_resolution = None\<rparr>"
  from Cons(2) have "insert_items E runID telco its (s\<lparr>next_id := Suc (next_id s), recon_items := recon_items s @ [?r]\<rparr>) = Inr s'"
    by (auto simp: NewID_def andThen_Inr_iff put_items_Inr)
  from Cons(1) [OF this] obtain new n where "s' = s\<lparr>next_id := n, recon_items := recon_items s @ (?r # new)\<rparr>"
    "map item_face new = map (\<lambda>it. (runID, it_status it, matchKey it)) its" by auto
  then show ?case by (intro exI [of _ "?r # new"] exI [of _ n]) (simp add: item_face_def [of ?r])
qed

definition consumed :: "string \<Rightarrow> override_row \<Rightarrow> override_row" where
  "consumed runID v = v\<lparr>ov_state := ''CONSUMED'', ov_consumer := Some runID\<rparr>"

lemma consume_override_Inr:
  assumes "consume_override E i runID s = Inr s'"
  shows "s' = s\<lparr>overrides := (if i = '''' then overrides s else upd_where (\<lambda>v. ov_telco v = tenant E \<and> ov_id v = i \<and> ov_state v = ''APPROVED'')
      (consumed runID) (overrides s))\<rparr>
    \<and> (i \<noteq> '''' \<longrightarrow> list_all override_checks (overrides s') \<and> distinct (map ov_id (overrides s')))"
  using assms by (auto simp: consume_override_def override_update_def Let_def andThen_Inr_iff put_overrides_Inr consumed_def [abs_def] split: if_splits)

definition superseded :: "string \<Rightarrow> run_row \<Rightarrow> run_row" where
  "superseded runID r = r\<lparr>rr_state := ''SUPERSEDED'', rr_successor := Some runID\<rparr>"

text \<open>The two ways a run commits.\<close>

definition rejects :: "string \<times> string \<times> string \<times> int \<Rightarrow> string \<Rightarrow> db \<Rightarrow> db \<Rightarrow> bool" where
  "rejects sc runID s s' \<longleftrightarrow> (\<exists>row. rr_id row = runID \<and> run_scope row = sc \<and> rr_state row = ''REJECTED'' \<and> rr_successor row = None
     \<and> rr_matched row = 0 \<and> rr_breaks row = 0
     \<and> s' = s\<lparr>recon_runs := recon_runs s @ [row]\<rparr>)"

definition accepts :: "env \<Rightarrow> string \<times> string \<times> string \<times> int \<Rightarrow> f64 \<Rightarrow> string \<Rightarrow> string \<Rightarrow> db \<Rightarrow> db \<Rightarrow> bool" where
  "accepts E sc rho runID i s s' \<longleftrightarrow> (\<exists>row new n. rr_id row = runID \<and> run_scope row = sc \<and> rr_state row = ''ACTIVE'' \<and> rr_successor row = None
     \<and> completeness E sc rho (rr_src_count row) s = Some i
     \<and> (\<forall>it \<in> set new. ri_run it = runID)
     \<and> rr_matched row = word_of_nat (length (filter (\<lambda>it. ri_status it = ''MATCHED'') new))
     \<and> rr_breaks row = word_of_nat (length (filter (\<lambda>it. ri_status it \<noteq> ''MATCHED'') new))
     \<and> s' = s\<lparr>next_id := n, recon_runs := upd_where (active_at E sc) (superseded runID) (recon_runs s) @ [row],
          overrides := (if i = '''' then overrides s else upd_where (\<lambda>v. ov_telco v = tenant E \<and> ov_id v = i \<and> ov_state v = ''APPROVED'')
             (consumed runID) (overrides s)), recon_items := recon_items s @ new\<rparr>)"

definition runs_ok :: "run_row list \<Rightarrow> bool" where
  "runs_ok rows \<longleftrightarrow> list_all run_checks rows \<and> distinct (map rr_id rows)
     \<and> distinct (map run_scope (filter (\<lambda>r. rr_state r = ''ACTIVE'') rows))"

lemma filter_face:
  assumes "map item_face new = map (\<lambda>it. (runID, it_status it, matchKey it)) its"
  shows "length (filter (\<lambda>r. P (ri_status r)) new) = length (filter (\<lambda>it. P (it_status it)) its)"
proof -
  have "map ri_status new = map it_status its"
    using arg_cong [OF assms, of "map (fst \<circ> snd)"] by (simp add: item_face_def comp_def)
  from arg_cong [OF this, of "\<lambda>xs. length (filter P xs)"] show ?thesis by (simp add: filter_map comp_def)
qed

lemma commit_run_Inr:
  assumes run: "commit_run sc runID tol man header u items E s = Inr (u', s')"
    and head: "\<And>m b st. rr_id (header m b st) = runID \<and> run_scope (header m b st) = sc \<and> rr_state (header m b st) = st
      \<and> rr_successor (header m b st) = None \<and> rr_src_count (header m b st) = fst man
      \<and> rr_matched (header m b st) = word_of_int m \<and> rr_breaks (header m b st) = word_of_int b"
    and u: "Matched u = int (length (matched items))" "BreakCount u = int (length (breaks items))"
  shows "runs_ok (recon_runs s') \<and> fst sc = tenant E
    \<and> (rejects sc runID s s' \<or> (\<exists>i. accepts E sc (MinCompletenessRatio tol) runID i s s'
         \<and> (i \<noteq> '''' \<longrightarrow> list_all override_checks (overrides s') \<and> distinct (map ov_id (overrides s')))))"
proof -
  have telco: "rr_telco (header m b st) = fst sc" for m b st using head [of m b st] by (auto simp: run_scope_def)
  show ?thesis
  proof (cases "completeness E sc (MinCompletenessRatio tol) (fst man) s")
    case None
    with run have "insert_run E (header 0 0 ''REJECTED'') s = Inr s'"
      by (auto simp: commit_run_def andThen_Inr_iff)
    then have "rejects sc runID s s'" "runs_ok (recon_runs s')" "fst sc = tenant E"
      using head [of 0 0 "''REJECTED''"] telco by (auto simp: andThen_Inr_iff insert_run_def put_runs_Inr runs_ok_def rejects_def rls_check_Inr)
    then show ?thesis by blast
  next
    case (Some i)
    let ?row = "header (Matched u) (BreakCount u) ''ACTIVE''"
    from Some run obtain s1 s2 s3 where s1: "supersede_run E sc runID s = Inr s1" and s2: "insert_run E ?row s1 = Inr s2"
      and s3: "consume_override E i runID s2 = Inr s3" and s4: "insert_items E runID (fst sc) items s3 = Inr s'"
      by (auto simp: commit_run_def andThen_Inr_iff)
    obtain new n where new: "s' = s3\<lparr>next_id := n, recon_items := recon_items s3 @ new\<rparr>"
      "map item_face new = map (\<lambda>it. (runID, it_status it, matchKey it)) items" using insert_items_Inr [OF s4] by blast
    note ov = consume_override_Inr [OF s3]
    have eq1: "s1 = s\<lparr>recon_runs := upd_where (active_at E sc) (superseded runID) (recon_runs s)\<rparr>"
      using s1 by (simp add: supersede_run_def put_runs_Inr superseded_def [abs_def])
    have eq2: "s2 = s1\<lparr>recon_runs := recon_runs s1 @ [?row]\<rparr>" "runs_ok (recon_runs s2)" "fst sc = tenant E"
      using s2 telco by (auto simp: insert_run_def andThen_Inr_iff put_runs_Inr runs_ok_def rls_check_Inr)
    have "rr_matched ?row = word_of_nat (length (filter (\<lambda>it. ri_status it = ''MATCHED'') new))"
      "rr_breaks ?row = word_of_nat (length (filter (\<lambda>it. ri_status it \<noteq> ''MATCHED'') new))"
      using head [of "Matched u" "BreakCount u" "''ACTIVE''"] u filter_face [OF new(2), of "\<lambda>x. x = ''MATCHED''"]
        filter_face [OF new(2), of "\<lambda>x. x \<noteq> ''MATCHED''"] by (simp_all add: matched_def breaks_def)
    moreover have "\<forall>it \<in> set new. ri_run it = runID"
    proof
      fix it assume "it \<in> set new"
      then have "item_face it \<in> set (map (\<lambda>it. (runID, it_status it, matchKey it)) items)" by (metis new(2) imageI set_map)
      then show "ri_run it = runID" by (auto simp: item_face_def)
    qed
    ultimately have "accepts E sc (MinCompletenessRatio tol) runID i s s'"
      unfolding accepts_def using head [of "Matched u" "BreakCount u" "''ACTIVE''"] Some eq1 eq2(1) ov new(1)
      by (intro exI [of _ ?row] exI [of _ new] exI [of _ n]) simp
    then show ?thesis using eq2 ov new(1) by (intro conjI disjI2 exI [of _ i]) auto
  qed
qed


text \<open>The platform side is a Go map.\<close>

definition is_map :: "layerSpec \<Rightarrow> bool" where
  "is_map spec \<longleftrightarrow> (\<forall>E prog ps pe s plat. ls_fetch spec E prog ps pe s = Inr plat \<longrightarrow> distinct (map fst plat))"

lemma put_platform_distinct: "distinct (map fst m) \<Longrightarrow> distinct (map fst (put_platform p m))"
proof -
  assume d: "distinct (map fst m)"
  have "map fst (map (\<lambda>(k, v). if k = pl_id p then (k, p) else (k, v)) m) = map fst m" by (induction m) auto
  with d show "distinct (map fst (put_platform p m))" unfolding put_platform_def by (auto simp del: map_map)
qed

lemma fold_put_distinct: "distinct (map fst m) \<Longrightarrow> distinct (map fst (fold put_platform rows m))"
  by (induction rows arbitrary: m) (simp_all add: put_platform_distinct)

lemma fulfilment_is_map: "is_map fulfilmentSpec"
  by (auto simp: is_map_def fulfilmentSpec_def intro: fold_put_distinct)

lemma window_counts:
  assumes "distinct (map fst plat)"
  shows "well_kept layer plat u (classify_window layer tol plat trs u)"
proof -
  define c0 where "c0 = classify layer tol plat (failed_keys trs) trs \<lparr>cl_items = [], cl_seen = [], cl_sum = u, cl_matched = 0\<rparr>"
  have "sound layer tol plat (failed_keys trs) u trs c0" unfolding c0_def by (rule sound_classify)
  then have "well_kept layer plat u c0" "matchKey ` set (canonical (cl_items c0)) = set (cl_seen c0)" by (simp_all add: sound_def)
  with missing_telco_eff [OF assms, of layer plat u c0] show ?thesis by (auto simp: classify_window_def c0_def)
qed

lemma andThen_InrE:
  assumes "andThen r f = Inr y"
  obtains x where "r = Inr x" "f x = Inr y"
  using assms by (auto simp: andThen_Inr_iff)

lemma reconcile_tx_Inr:
  assumes run: "reconcile_tx R spec telco prog ps pe recs tol runID E s = Inr (u, s')" and map: "is_map spec"
  shows "runs_ok (recon_runs s') \<and> (rejects (telco, prog, ls_name spec, ps) runID s s'
    \<or> (\<exists>i. accepts E (telco, prog, ls_name spec, ps) (MinCompletenessRatio tol) runID i s s'
         \<and> (i \<noteq> '''' \<longrightarrow> list_all override_checks (overrides s') \<and> distinct (map ov_id (overrides s')))))"
proof -
  define windowed where "windowed = filter (\<lambda>tr. in_window ps pe (CreditedAt tr)) recs"
  from run obtain man plat where plat: "ls_fetch spec E prog ps pe s = Inr plat"
    and commit: "let c = classify_window (ls_name spec) tol plat windowed
                (no_summary\<lparr>RunID := runID, TelcoRecords := int (length recs), PeriodStart := ps, PeriodEnd := pe,
                   SourceControlTotalMinor := fst (snd man), SourceHash := snd (snd man), SourceRecordCount := fst man,
                   PlatformRecords := int (length plat)\<rparr>)
      in commit_run (telco, prog, ls_name spec, ps) runID tol man
           (run_header E runID telco prog (ls_name spec) ps pe man plat (cl_matched c))
           ((cl_sum c)\<lparr>PlatformControlTotalMinor := platform_sum plat, MatchedControlTotalMinor := cl_matched c\<rparr>) (cl_items c) E s = Inr (u, s')"
    unfolding reconcile_tx_def windowed_def [symmetric] Let_def by (elim andThen_InrE) blast
  define u0 where "u0 = no_summary\<lparr>RunID := runID, TelcoRecords := int (length recs), PeriodStart := ps, PeriodEnd := pe,
                   SourceControlTotalMinor := fst (snd man), SourceHash := snd (snd man), SourceRecordCount := fst man,
                   PlatformRecords := int (length plat)\<rparr>"
  define c where "c = classify_window (ls_name spec) tol plat windowed u0"
  have commit: "commit_run (telco, prog, ls_name spec, ps) runID tol man
           (run_header E runID telco prog (ls_name spec) ps pe man plat (cl_matched c))
           ((cl_sum c)\<lparr>PlatformControlTotalMinor := platform_sum plat, MatchedControlTotalMinor := cl_matched c\<rparr>) (cl_items c) E s = Inr (u, s')"
    using commit unfolding c_def u0_def Let_def .
  have u0: "Matched u0 = 0" "BreakCount u0 = 0" by (simp_all add: u0_def no_summary_def BreakCount_def)
  have "distinct (map fst plat)" using map plat by (auto simp: is_map_def)
  then have "well_kept (ls_name spec) plat u0 c" unfolding c_def by (rule window_counts)
  with u0 have "Matched (cl_sum c) = int (length (matched (cl_items c)))" "BreakCount (cl_sum c) = int (length (breaks (cl_items c)))"
    by (simp_all add: well_kept_def)
  with commit_run_Inr [OF commit] show ?thesis by (auto simp: run_header_def run_scope_def BreakCount_def)
qed

section \<open>Runs of the workflow\<close>

inductive recon_step :: "f64 set \<Rightarrow> db \<Rightarrow> db \<Rightarrow> bool" for Rho where
  reconcile: "is_map spec \<Longrightarrow> MinCompletenessRatio tol \<in> Rho \<Longrightarrow> reconcileLayer E R spec telco prog ps pe recs tol s = (r, s') \<Longrightarrow> recon_step Rho s s'"
| propose: "\<forall>p n. new_id E p n \<noteq> '''' \<Longrightarrow> ProposeCompletenessOverride E telco prog layer ps actor why s = (r', s') \<Longrightarrow> recon_step Rho s s'"
| approve: "ApproveCompletenessOverride E telco i actor s = (r'', s') \<Longrightarrow> recon_step Rho s s'"
| break: "BreakAction E telco i action actor why s = (r''', s') \<Longrightarrow> recon_step Rho s s'"

text \<open>What replaced a superseded run: a source above its completeness floor, or two people.\<close>

definition floor_met :: "f64 set \<Rightarrow> run_row \<Rightarrow> run_row \<Rightarrow> bool" where
  "floor_met Rho r q \<longleftrightarrow> (\<exists>rho \<in> Rho. f64_ceil (f64_mult (f64_of_int (sint (rr_src_count r))) rho) \<le> sint (rr_src_count q))"

definition overridden :: "override_row list \<Rightarrow> run_row \<Rightarrow> run_row \<Rightarrow> bool" where
  "overridden vs r q \<longleftrightarrow> (\<exists>v \<in> set vs. ov_state v = ''CONSUMED'' \<and> ov_baseline v = rr_id r \<and> ov_consumer v = Some (rr_id q)
     \<and> sint (ov_count v) \<le> sint (rr_src_count q) \<and> (\<exists>a. ov_approver v = Some a \<and> a \<noteq> ov_by v))"

definition justified :: "f64 set \<Rightarrow> run_row list \<Rightarrow> override_row list \<Rightarrow> run_row \<Rightarrow> bool" where
  "justified Rho rows vs r \<longleftrightarrow> (\<exists>q \<in> set rows. rr_successor r = Some (rr_id q) \<and> run_scope q = run_scope r
     \<and> rr_state q \<noteq> ''REJECTED'' \<and> (floor_met Rho r q \<or> overridden vs r q))"

definition counted :: "item_row list \<Rightarrow> run_row \<Rightarrow> bool" where
  "counted its r \<longleftrightarrow> rr_matched r = word_of_nat (length (filter (\<lambda>it. ri_run it = rr_id r \<and> ri_status it = ''MATCHED'') its))
     \<and> rr_breaks r = word_of_nat (length (filter (\<lambda>it. ri_run it = rr_id r \<and> ri_status it \<noteq> ''MATCHED'') its))"

definition overrides_ok :: "override_row list \<Rightarrow> bool" where
  "overrides_ok vs \<longleftrightarrow> list_all override_checks vs \<and> distinct (map ov_id vs) \<and> '''' \<notin> ov_id ` set vs"

definition recon_inv :: "f64 set \<Rightarrow> db \<Rightarrow> bool" where
  "recon_inv Rho s \<longleftrightarrow> runs_ok (recon_runs s) \<and> overrides_ok (overrides s) \<and> ri_run ` set (recon_items s) \<subseteq> rr_id ` set (recon_runs s)
     \<and> (\<forall>r \<in> set (recon_runs s). counted (recon_items s) r \<and> (rr_state r = ''SUPERSEDED'' \<longrightarrow> justified Rho (recon_runs s) (overrides s) r))"


lemma justified_mono:
  assumes "justified Rho rows vs r"
    and "\<And>q. q \<in> set rows \<Longrightarrow> \<exists>q' \<in> set rows'. rr_id q' = rr_id q \<and> run_scope q' = run_scope q \<and> rr_src_count q' = rr_src_count q
        \<and> (rr_state q \<noteq> ''REJECTED'' \<longrightarrow> rr_state q' \<noteq> ''REJECTED'')"
    and vs: "\<And>v. v \<in> set vs \<Longrightarrow> ov_state v = ''CONSUMED'' \<Longrightarrow> v \<in> set vs'"
  shows "justified Rho rows' vs' r"
proof -
  obtain q where q: "q \<in> set rows" "rr_successor r = Some (rr_id q)" "run_scope q = run_scope r" "rr_state q \<noteq> ''REJECTED''"
    "floor_met Rho r q \<or> overridden vs r q" using assms(1) unfolding justified_def by blast
  obtain q' where q': "q' \<in> set rows'" "rr_id q' = rr_id q" "run_scope q' = run_scope q" "rr_src_count q' = rr_src_count q" "rr_state q' \<noteq> ''REJECTED''"
    using assms(2) [OF q(1)] q(4) by blast
  have "floor_met Rho r q' \<or> overridden vs' r q'"
    using q(5) vs unfolding floor_met_def overridden_def q'(2,4) by blast
  with q q' show ?thesis unfolding justified_def by (metis)
qed

lemma counted_other: "(\<forall>it \<in> set new. ri_run it \<noteq> rr_id r) \<Longrightarrow> counted its r \<Longrightarrow> counted (its @ new) r"
  by (auto simp: counted_def filter_empty_conv)

lemma counted_fresh: "rr_id r \<notin> ri_run ` set its \<Longrightarrow> counted (its @ new) r \<longleftrightarrow> counted new r"
proof -
  assume fresh: "rr_id r \<notin> ri_run ` set its"
  then have "filter (\<lambda>it. ri_run it = rr_id r \<and> P it) its = []" for P unfolding filter_empty_conv by (metis imageI)
  then show ?thesis by (simp add: counted_def)
qed

lemma counted_faces: "map item_face its = map item_face its' \<Longrightarrow> counted its r \<longleftrightarrow> counted its' r"
proof -
  assume "map item_face its = map item_face its'"
  from arg_cong [OF this, of "\<lambda>xs. length (filter (\<lambda>(i, st, k). i = rr_id r \<and> P st) xs)" for P]
  have "length (filter (\<lambda>it. ri_run it = rr_id r \<and> P (ri_status it)) its) = length (filter (\<lambda>it. ri_run it = rr_id r \<and> P (ri_status it)) its')" for P
    by (simp add: filter_map comp_def item_face_def)
  from this [of "\<lambda>x. x = ''MATCHED''"] this [of "\<lambda>x. x \<noteq> ''MATCHED''"] show ?thesis by (simp add: counted_def)
qed

lemma rejects_inv:
  assumes inv: "recon_inv Rho s" and rej: "rejects sc runID s s'" and ok: "runs_ok (recon_runs s')"
  shows "recon_inv Rho s'"
proof -
  obtain row where row: "rr_id row = runID" "rr_state row = ''REJECTED''" "rr_matched row = 0" "rr_breaks row = 0"
    and s': "s' = s\<lparr>recon_runs := recon_runs s @ [row]\<rparr>" using rej unfolding rejects_def by blast
  have fresh: "runID \<notin> rr_id ` set (recon_runs s)" using ok row(1) by (auto simp: s' runs_ok_def)
  have items: "ri_run ` set (recon_items s) \<subseteq> rr_id ` set (recon_runs s)" using inv by (simp add: recon_inv_def)
  have "rr_id row \<notin> ri_run ` set (recon_items s)" using fresh items row(1) by blast
  then have "counted (recon_items s @ []) row \<longleftrightarrow> counted [] row" by (rule counted_fresh)
  moreover have "counted [] row" using row(3,4) by (simp add: counted_def)
  ultimately have "counted (recon_items s) row" by simp
  moreover have "justified Rho (recon_runs s') (overrides s') r" if "r \<in> set (recon_runs s)" "rr_state r = ''SUPERSEDED''" for r
  proof (rule justified_mono [of Rho "recon_runs s" "overrides s"])
    show "justified Rho (recon_runs s) (overrides s) r" using inv that by (simp add: recon_inv_def)
    fix q assume "q \<in> set (recon_runs s)"
    then show "\<exists>q' \<in> set (recon_runs s'). rr_id q' = rr_id q \<and> run_scope q' = run_scope q \<and> rr_src_count q' = rr_src_count q
        \<and> (rr_state q \<noteq> ''REJECTED'' \<longrightarrow> rr_state q' \<noteq> ''REJECTED'')"
      by (intro bexI [of _ q]) (simp_all add: s')
  qed (simp add: s')
  ultimately show ?thesis
    using inv ok row(2) items by (auto simp: recon_inv_def s')
qed


lemma superseded_simps [simp]:
  "rr_id (superseded i r) = rr_id r" "run_scope (superseded i r) = run_scope r" "rr_src_count (superseded i r) = rr_src_count r"
  "rr_state (superseded i r) = ''SUPERSEDED''" "rr_successor (superseded i r) = Some i" "counted its (superseded i r) = counted its r"
  by (simp_all add: superseded_def run_scope_def counted_def)

lemma active_unique:
  assumes "runs_ok rows" "r \<in> set rows" "q \<in> set rows" "active_at E sc r" "active_at E sc q"
  shows "r = q"
proof -
  have d: "distinct (map run_scope (filter (\<lambda>r. rr_state r = ''ACTIVE'') rows))" using assms(1) by (simp add: runs_ok_def)
  show ?thesis by (rule distinct_key_unique [OF d]) (use assms(2-5) in \<open>simp_all add: active_at_def\<close>)
qed

text \<open>Why a run that was accepted may replace the active one.\<close>

lemma accepted_replaces:
  assumes ok: "runs_ok rows" "overrides_ok (overrides s)" "rows = recon_runs s"
    and comp: "completeness E sc rho n s = Some i" and r: "r \<in> set rows" "active_at E sc r"
    and vs: "vs = (if i = '''' then overrides s else upd_where (\<lambda>v. ov_telco v = tenant E \<and> ov_id v = i \<and> ov_state v = ''APPROVED'') (consumed (rr_id q)) (overrides s))"
    and chk: "i \<noteq> '''' \<longrightarrow> list_all override_checks vs" and q: "rr_src_count q = n" "rho \<in> Rho"
  shows "floor_met Rho r q \<or> overridden vs r q"
proof -
  obtain prior where prior: "List.find (active_at E sc) (recon_runs s) = Some prior"
    using r ok(3) by (metis find_None_iff2 find_NoneD not_Some_eq)
  then have "prior = r" using active_unique [OF ok(1) _ r(1) _ r(2)] find_SomeD [OF prior] ok(3) by blast
  with comp prior have gate: "(if sint n < f64_ceil (f64_mult (f64_of_int (sint (rr_src_count r))) rho)
          then map_option ov_id (List.find (\<lambda>v. ov_telco v = tenant E \<and> override_scope v = sc \<and> ov_state v = ''APPROVED''
                 \<and> ov_baseline v = rr_id r \<and> sint (ov_count v) \<le> sint n) (overrides s))
          else Some '''') = Some i" by (simp add: completeness_def)
  show ?thesis
  proof (cases "sint n < f64_ceil (f64_mult (f64_of_int (sint (rr_src_count r))) rho)")
    case False
    then show ?thesis using q unfolding floor_met_def by (intro disjI1 bexI [of _ rho]) simp_all
  next
    case True
    with gate obtain v where v: "v \<in> set (overrides s)" "ov_telco v = tenant E" "ov_state v = ''APPROVED''" "ov_baseline v = rr_id r"
      "sint (ov_count v) \<le> sint n" "ov_id v = i" by (auto dest!: find_SomeD)
    then have "i \<noteq> ''''" using ok(2) unfolding overrides_ok_def by (metis imageI)
    with vs v have w: "consumed (rr_id q) v \<in> set vs" by (auto simp: set_upd_where)
    with chk \<open>i \<noteq> ''''\<close> have "override_checks (consumed (rr_id q) v)" by (simp add: list_all_iff)
    then have "\<exists>a. ov_approver v = Some a \<and> a \<noteq> ov_by v" by (auto simp: override_checks_def consumed_def)
    with w v q show ?thesis unfolding overridden_def
      by (intro disjI2 bexI [OF _ w]) (simp add: consumed_def)
  qed
qed

lemma accepts_inv:
  assumes inv: "recon_inv Rho s" and acc: "accepts E sc rho runID i s s'" and ok: "runs_ok (recon_runs s')" and rho: "rho \<in> Rho"
    and chk: "i \<noteq> '''' \<longrightarrow> list_all override_checks (overrides s') \<and> distinct (map ov_id (overrides s'))"
  shows "recon_inv Rho s'"
proof -
  let ?p = "\<lambda>v. ov_telco v = tenant E \<and> ov_id v = i \<and> ov_state v = ''APPROVED''"
  obtain row new n where row: "rr_id row = runID" "run_scope row = sc" "rr_state row = ''ACTIVE''"
    and comp: "completeness E sc rho (rr_src_count row) s = Some i" and new: "\<forall>it \<in> set new. ri_run it = runID"
    and cnt: "rr_matched row = word_of_nat (length (filter (\<lambda>it. ri_status it = ''MATCHED'') new))"
      "rr_breaks row = word_of_nat (length (filter (\<lambda>it. ri_status it \<noteq> ''MATCHED'') new))"
    and upd: "s' = s\<lparr>next_id := n, recon_runs := upd_where (active_at E sc) (superseded runID) (recon_runs s) @ [row],
          overrides := (if i = '''' then overrides s else upd_where ?p (consumed runID) (overrides s)), recon_items := recon_items s @ new\<rparr>"
    using acc unfolding accepts_def by blast
  have s': "recon_runs s' = upd_where (active_at E sc) (superseded runID) (recon_runs s) @ [row]"
      "overrides s' = (if i = '''' then overrides s else upd_where ?p (consumed runID) (overrides s))" "recon_items s' = recon_items s @ new"
    by (simp_all add: upd)
  have old: "runs_ok (recon_runs s)" "overrides_ok (overrides s)" "ri_run ` set (recon_items s) \<subseteq> rr_id ` set (recon_runs s)"
    "\<And>r. r \<in> set (recon_runs s) \<Longrightarrow> counted (recon_items s) r"
    "\<And>r. r \<in> set (recon_runs s) \<Longrightarrow> rr_state r = ''SUPERSEDED'' \<Longrightarrow> justified Rho (recon_runs s) (overrides s) r"
    using inv by (simp_all add: recon_inv_def)
  have ids: "rr_id ` set (upd_where (active_at E sc) (superseded runID) (recon_runs s)) = rr_id ` set (recon_runs s)"
    by (metis map_upd_where_key set_map superseded_simps(1))
  have "distinct (map rr_id (recon_runs s'))" using ok by (simp add: runs_ok_def)
  then have fresh: "runID \<notin> rr_id ` set (recon_runs s)" using row(1) ids s'(1) by auto
  have keep: "\<exists>q' \<in> set (recon_runs s'). rr_id q' = rr_id q \<and> run_scope q' = run_scope q \<and> rr_src_count q' = rr_src_count q
        \<and> (rr_state q \<noteq> ''REJECTED'' \<longrightarrow> rr_state q' \<noteq> ''REJECTED'')" if "q \<in> set (recon_runs s)" for q
    using that by (intro bexI [of _ "if active_at E sc q then superseded runID q else q"]) (auto simp: s'(1) set_upd_where)
  have vs: "v \<in> set (overrides s')" if "v \<in> set (overrides s)" "ov_state v = ''CONSUMED''" for v
    using that by (auto simp: s'(2) set_upd_where)
  have vok: "overrides_ok (overrides s')"
    using old(2) chk by (auto simp: s'(2) overrides_ok_def set_upd_where consumed_def)
  have "counted (recon_items s') r \<and> (rr_state r = ''SUPERSEDED'' \<longrightarrow> justified Rho (recon_runs s') (overrides s') r)"
    if r: "r \<in> set (recon_runs s')" for r
  proof -
    consider (new) "r = row" | (kept) "r \<in> set (recon_runs s)" "\<not> active_at E sc r"
      | (replaced) p where "p \<in> set (recon_runs s)" "active_at E sc p" "r = superseded runID p"
      using r by (auto simp: s'(1) set_upd_where)
    then show ?thesis
    proof cases
      case new
      have "rr_id row \<notin> ri_run ` set (recon_items s)" using fresh old(3) row(1) by blast
      then have "counted (recon_items s') row \<longleftrightarrow> counted new row" unfolding s'(3) by (rule counted_fresh)
      moreover have "filter (\<lambda>it. ri_run it = rr_id row \<and> P it) new = filter P new" for P
        using \<open>\<forall>it \<in> set new. ri_run it = runID\<close> row(1) by (auto intro: filter_cong)
      ultimately show ?thesis using cnt row(3) new by (simp add: counted_def)
    next
      case kept
      have "rr_id r \<noteq> runID" using kept(1) fresh by blast
      then have "\<forall>it \<in> set new. ri_run it \<noteq> rr_id r" using new by simp
      then have "counted (recon_items s') r" unfolding s'(3) using old(4) [OF kept(1)] by (rule counted_other)
      moreover have "justified Rho (recon_runs s') (overrides s') r" if "rr_state r = ''SUPERSEDED''"
        by (rule justified_mono [OF old(5) [OF kept(1) that] keep vs])
      ultimately show ?thesis by blast
    next
      case replaced
      have "rr_id p \<noteq> runID" using replaced(1) fresh by blast
      then have "\<forall>it \<in> set new. ri_run it \<noteq> rr_id p" using new by simp
      then have "counted (recon_items s') p" unfolding s'(3) using old(4) [OF replaced(1)] by (rule counted_other)
      then have "counted (recon_items s') r" by (simp add: replaced(3))
      moreover have "floor_met Rho p row \<or> overridden (overrides s') p row"
        using accepted_replaces [OF old(1,2) refl comp replaced(1,2) _ _ refl rho] s'(2) chk row(1) by auto
      then have "floor_met Rho r row \<or> overridden (overrides s') r row"
        by (simp add: replaced(3) floor_met_def overridden_def)
      then have "justified Rho (recon_runs s') (overrides s') r"
        unfolding justified_def using row replaced s'(1) by (intro bexI [of _ row]) (auto simp: active_at_def)
      ultimately show ?thesis by blast
    qed
  qed
  moreover have "ri_run ` set (recon_items s') \<subseteq> rr_id ` set (recon_runs s')"
    using old(3) new ids row(1) unfolding s'(1,3) by auto
  ultimately show ?thesis using ok vok by (simp add: recon_inv_def)
qed


lemma inv_frame:
  assumes "recon_inv Rho s" "recon_runs s' = recon_runs s" "map item_face (recon_items s') = map item_face (recon_items s)"
    "overrides_ok (overrides s')" "\<And>v. v \<in> set (overrides s) \<Longrightarrow> ov_state v = ''CONSUMED'' \<Longrightarrow> v \<in> set (overrides s')"
  shows "recon_inv Rho s'"
proof -
  have "justified Rho (recon_runs s) (overrides s') r" if "justified Rho (recon_runs s) (overrides s) r" for r
    by (rule justified_mono [OF that _ assms(5)]) blast+
  moreover have "ri_run ` set (recon_items s') = ri_run ` set (recon_items s)"
    using arg_cong [OF assms(3), of "\<lambda>xs. fst ` set xs"] by (simp add: image_image item_face_def)
  ultimately show ?thesis
    using assms(1,2,4) counted_faces [OF assms(3)] by (simp add: recon_inv_def)
qed

lemma inv_next_id [simp]: "recon_inv Rho (s\<lparr>next_id := n\<rparr>) = recon_inv Rho s"
  by (simp add: recon_inv_def)

lemma reconcileLayer_inv:
  assumes "recon_inv Rho s" "is_map spec" "MinCompletenessRatio tol \<in> Rho" "reconcileLayer E R spec telco prog ps pe recs tol s = (r, s')"
  shows "recon_inv Rho s'"
proof -
  obtain runID where run: "WithTenantTx E telco (reconcile_tx R spec telco prog ps pe recs tol runID) (s\<lparr>next_id := Suc (next_id s)\<rparr>) = (r, s')"
    using assms(4) by (auto simp: reconcileLayer_def NewID_def)
  have inv: "recon_inv Rho (s\<lparr>next_id := Suc (next_id s)\<rparr>)" using assms(1) by simp
  show ?thesis
  proof (cases r)
    case (Inl e)
    with run inv show ?thesis by (metis WithTenantTx_error)
  next
    case (Inr u)
    with run have tx: "reconcile_tx R spec telco prog ps pe recs tol runID (E\<lparr>tenant := telco\<rparr>) (s\<lparr>next_id := Suc (next_id s)\<rparr>) = Inr (u, s')"
      by (simp add: WithTenantTx_Inr)
    from reconcile_tx_Inr [OF tx assms(2)] rejects_inv [OF inv] accepts_inv [OF inv _ _ assms(3)] show ?thesis by blast
  qed
qed

lemma overrides_append:
  assumes "recon_inv Rho s" "put_overrides (overrides s @ [v]) s = Inr s'" "ov_id v \<noteq> ''''"
  shows "recon_inv Rho s'"
  using assms by (intro inv_frame [OF assms(1)]) (auto simp: put_overrides_Inr overrides_ok_def recon_inv_def)

lemma propose_inv:
  assumes "recon_inv Rho s" "\<forall>p n. new_id E p n \<noteq> ''''" "ProposeCompletenessOverride E telco prog layer ps actor why s = (r, s')"
  shows "recon_inv Rho s'"
proof -
  let ?i = "new_id E ''rco'' (next_id s)" and ?s = "s\<lparr>next_id := Suc (next_id s)\<rparr>"
  have inv: "recon_inv Rho ?s" using assms(1) by simp
  have "s' = s \<or> s' = snd (WithTenantTx E telco (propose_tx telco prog layer ps actor why ?i) ?s)"
    using assms(3) by (auto simp: ProposeCompletenessOverride_def NewID_def split: if_splits prod.splits sum.splits)
  moreover have "recon_inv Rho (snd (WithTenantTx E telco (propose_tx telco prog layer ps actor why ?i) ?s))"
  proof (cases "WithTenantTx E telco (propose_tx telco prog layer ps actor why ?i) ?s")
    case (Pair x s2)
    show ?thesis
    proof (cases x)
      case (Inl e)
      with Pair inv show ?thesis by (metis WithTenantTx_error snd_conv)
    next
      case (Inr u)
      with Pair obtain v where "put_overrides (overrides ?s @ [v]) ?s = Inr s2" "ov_id v = ?i"
        by (auto simp: WithTenantTx_Inr propose_tx_def Let_def andThen_Inr_iff split: option.splits)
      with overrides_append [OF inv] assms(2) Pair show ?thesis by simp
    qed
  qed
  ultimately show ?thesis using assms(1) by blast
qed

lemma approve_inv:
  assumes "recon_inv Rho s" "ApproveCompletenessOverride E telco i actor s = (r, s')"
  shows "recon_inv Rho s'"
proof (cases r)
  case (Inl e)
  have "s' = s" by (rule WithTenantTx_error [OF assms(2) [unfolded Inl ApproveCompletenessOverride_def]])
  with assms(1) show ?thesis by simp
next
  case (Inr u)
  let ?p = "\<lambda>v. ov_telco v = telco \<and> ov_id v = i \<and> ov_state v = ''PENDING''" and ?f = "\<lambda>v. v\<lparr>ov_state := ''APPROVED'', ov_approver := Some actor\<rparr>"
  from Inr assms(2) have "put_overrides (upd_where ?p ?f (overrides s)) s = Inr s'"
    by (auto simp: ApproveCompletenessOverride_def WithTenantTx_Inr override_update_def Let_def andThen_Inr_iff split: sum.splits if_splits)
  then show ?thesis
    using assms(1) by (intro inv_frame [OF assms(1)]) (auto simp: put_overrides_Inr overrides_ok_def recon_inv_def set_upd_where)
qed

lemma break_effect_faces:
  assumes "break_effect E i action actor why s = Inr s'"
  shows "recon_runs s' = recon_runs s \<and> overrides s' = overrides s \<and> map item_face (recon_items s') = map item_face (recon_items s)"
  using assms
  by (auto simp: break_effect_def break_update_def andThen_Inr_iff put_items_Inr item_face_def intro!: map_upd_where_key split: if_splits sum.splits)

lemma break_inv:
  assumes "recon_inv Rho s" "BreakAction E telco i action actor why s = (r, s')"
  shows "recon_inv Rho s'"
proof (cases r)
  case (Inl e)
  have "s' = s" by (rule WithTenantTx_error [OF assms(2) [unfolded Inl BreakAction_def]])
  with assms(1) show ?thesis by simp
next
  case (Inr u)
  let ?E = "E\<lparr>tenant := telco\<rparr>"
  from Inr assms(2) obtain s1 where s1: "break_effect ?E i action actor why s = Inr s1"
    and s': "recon_runs s' = recon_runs s1" "recon_items s' = recon_items s1" "overrides s' = overrides s1"
    by (auto simp: BreakAction_def WithTenantTx_Inr Breaks_Action_def NewID_def andThen_Inr_iff Audit_Insert_Inr split: if_splits)
  note s1 = break_effect_faces [OF s1]
  show ?thesis
    using assms(1) s' s1 by (intro inv_frame [OF assms(1)]) (simp_all add: recon_inv_def)
qed

lemma recon_step_inv: "recon_step Rho s s' \<Longrightarrow> recon_inv Rho s \<Longrightarrow> recon_inv Rho s'"
  by (induction rule: recon_step.induct) (metis reconcileLayer_inv propose_inv approve_inv break_inv)+


text \<open>C5: From empty tables, along any run of reconciliations, re-reconciliations, override proposals and approvals and break actions, a
  run that was replaced names a successor of the same scope and period whose source reached the completeness floor of the
  replaced one, or which consumed an override that names the replaced run, admits that many records and carries two different names;
  so an empty feed never replaces a run with records unless two people said so. At most one run per scope and period
  is ACTIVE, and every header's counts are those of its items.\<close>

theorem truncated_feed_never_supersedes:
  assumes "(recon_step Rho)\<^sup>*\<^sup>* s0 s" "\<forall>rho \<in> Rho. f64_unit rho"
    and "recon_runs s0 = []" "recon_items s0 = []" "overrides s0 = []"
  shows "(\<forall>r \<in> set (recon_runs s). rr_state r = ''SUPERSEDED'' \<longrightarrow> (\<exists>q \<in> set (recon_runs s).
        rr_successor r = Some (rr_id q) \<and> run_scope q = run_scope r \<and> rr_state q \<noteq> ''REJECTED''
        \<and> (floor_met Rho r q \<or> overridden (overrides s) r q)
        \<and> (1 \<le> sint (rr_src_count r) \<and> sint (rr_src_count r) < 2 ^ 53 \<longrightarrow> 1 \<le> sint (rr_src_count q) \<or> overridden (overrides s) r q)))
    \<and> (\<forall>r \<in> set (recon_runs s). \<forall>q \<in> set (recon_runs s). rr_state r = ''ACTIVE'' \<and> rr_state q = ''ACTIVE'' \<and> run_scope r = run_scope q \<longrightarrow> r = q)
    \<and> (\<forall>r \<in> set (recon_runs s). counted (recon_items s) r)"
proof -
  have "recon_inv Rho s0" using assms(3-5) by (simp add: recon_inv_def runs_ok_def overrides_ok_def)
  from assms(1) this have inv: "recon_inv Rho s" by (induction rule: rtranclp_induct) (auto intro: recon_step_inv)
  have "r = q" if "r \<in> set (recon_runs s)" "q \<in> set (recon_runs s)" "rr_state r = ''ACTIVE''" "rr_state q = ''ACTIVE''" "run_scope r = run_scope q" for r q
  proof -
    have d: "distinct (map run_scope (filter (\<lambda>r. rr_state r = ''ACTIVE'') (recon_runs s)))" using inv by (simp add: recon_inv_def runs_ok_def)
    show ?thesis by (rule distinct_key_unique [OF d]) (use that in simp_all)
  qed
  moreover have "1 \<le> sint (rr_src_count q)" if "floor_met Rho r q" "1 \<le> sint (rr_src_count r)" "sint (rr_src_count r) < 2 ^ 53" for r q
    using that assms(2) floor_bounds by (fastforce simp: floor_met_def)
  moreover have "\<And>r. r \<in> set (recon_runs s) \<Longrightarrow> counted (recon_items s) r"
    "\<And>r. r \<in> set (recon_runs s) \<Longrightarrow> rr_state r = ''SUPERSEDED'' \<Longrightarrow> justified Rho (recon_runs s) (overrides s) r"
    using inv by (simp_all add: recon_inv_def)
  ultimately show ?thesis unfolding justified_def by meson
qed


section \<open>The manifest\<close>

definition credit_sum :: "i64 \<Rightarrow> telcoTransaction list \<Rightarrow> int" where
  "credit_sum maxAmt rs = sum_list (map (\<lambda>r. sint (FaceValueMinor r)) (filter (\<lambda>r. TxStatus r = ''SUCCESS'' \<and> credibleAmount (FaceValueMinor r) maxAmt) rs))"

lemma credit_sum_nonneg: "0 \<le> credit_sum maxAmt rs"
  unfolding credit_sum_def by (intro sum_list_nonneg) (auto simp: credibleAmount_def)

lemma addChecked_nonneg:
  assumes "0 \<le> sint a" "0 \<le> sint b"
  shows "addChecked a b = (if sint a + sint b < 2 ^ 63 then Some (a + b) else None)"
proof (cases "sint a + sint b < 2 ^ 63")
  case True
  then have "sint (a + b) = sint a + sint b" using assms by (intro sint_add_i64) (simp add: in_i64_def)
  with True assms show ?thesis by (simp add: addChecked_def)
next
  case False
  then have "0 < sint a" "0 < sint b" using assms sint_bounds [of a] sint_bounds [of b] by (simp_all add: not_less)
  moreover have "sint (a + b) < 0"
    unfolding word_of_int_sint_add using False sint_bounds [of a] sint_bounds [of b] by (subst sint_of_int_hi) simp_all
  ultimately show ?thesis using False by (simp add: addChecked_def)
qed

lemma control_sum_exact:
  "0 \<le> sint acc \<Longrightarrow> control_sum maxAmt acc rs =
     (if sint acc + credit_sum maxAmt rs < 2 ^ 63 then Some (word_of_int (sint acc + credit_sum maxAmt rs)) else None)"
proof (induction rs arbitrary: acc)
  case Nil
  then show ?case using sint_bounds [of acc] by (simp add: credit_sum_def)
next
  case (Cons r rs)
  show ?case
  proof (cases "TxStatus r = ''SUCCESS'' \<and> credibleAmount (FaceValueMinor r) maxAmt")
    case False
    then have "credit_sum maxAmt (r # rs) = credit_sum maxAmt rs" by (auto simp: credit_sum_def)
    with False Cons show ?thesis by auto
  next
    case True
    then have cs: "credit_sum maxAmt (r # rs) = sint (FaceValueMinor r) + credit_sum maxAmt rs" by (simp add: credit_sum_def)
    have amt: "0 \<le> sint (FaceValueMinor r)" using True by (simp add: credibleAmount_def)
    show ?thesis
    proof (cases "sint acc + sint (FaceValueMinor r) < 2 ^ 63")
      case fits: True
      then have "sint (acc + FaceValueMinor r) = sint acc + sint (FaceValueMinor r)"
        using amt Cons(2) by (intro sint_add_i64) (simp add: in_i64_def)
      with fits True amt Cons(2) Cons(1) [of "acc + FaceValueMinor r"] show ?thesis
        by (simp add: addChecked_nonneg cs add.assoc)
    next
      case False
      then have "\<not> sint acc + (sint (FaceValueMinor r) + credit_sum maxAmt rs) < 2 ^ 63" using credit_sum_nonneg [of maxAmt rs] by linarith
      with False True amt Cons(2) show ?thesis by (simp add: addChecked_nonneg cs)
    qed
  qed
qed

lemma credit_sum_mset: "mset rs = mset rs' \<Longrightarrow> credit_sum maxAmt rs = credit_sum maxAmt rs'"
proof -
  assume "mset rs = mset rs'"
  then have "image_mset f (filter_mset P (mset rs)) = image_mset f (filter_mset P (mset rs'))" for f :: "telcoTransaction \<Rightarrow> int" and P by simp
  then show ?thesis by (simp add: credit_sum_def flip: sum_mset_sum_list mset_filter)
qed

lemma sorted_unique:
  assumes "mset xs = mset ys" "sorted (map k xs)" "sorted (map k ys)" "inj_on k (set xs)"
  shows "xs = ys"
proof -
  have "map k xs = map k ys" using assms(1-3) by (metis mset_map properties_for_sort)
  moreover have "set ys = set xs" using assms(1) by (metis set_mset_mset)
  ultimately show ?thesis using assms(4) by (metis Un_absorb map_inj_on)
qed



section \<open>Two people\<close>

definition break_maker :: "env \<Rightarrow> string \<Rightarrow> db \<Rightarrow> string option" where
  "break_maker E i s = (case List.find (\<lambda>r. open_break E i r \<and> ri_proposer r \<noteq> None) (recon_items s) of None \<Rightarrow> None | Some r \<Rightarrow> ri_proposer r)"

interpretation brk: four_eyes "\<lambda>E i a why. break_effect E i ''APPROVE_RESOLVE'' a why" break_maker UNIV
proof
  fix E i a and why :: string and s s'
  let ?p = "\<lambda>r. open_break E i r \<and> ri_proposer r \<noteq> None" and ?f = "\<lambda>r. r\<lparr>ri_resolved := Some (now E), ri_resolver := Some a, ri_resolution := Some why\<rparr>"
  assume "break_effect E i ''APPROVE_RESOLVE'' a why s = Inr s'"
  then have rows: "recon_items s' = upd_where ?p ?f (recon_items s)" and ok: "list_all item_checks (recon_items s')"
    and some: "filter ?p (recon_items s) \<noteq> []"
    by (auto simp: break_effect_def break_update_def andThen_Inr_iff put_items_Inr split: sum.splits if_splits)
  obtain r where r: "List.find ?p (recon_items s) = Some r"
    using some find_matching [of ?p "recon_items s"] by (auto simp: find_None_iff filter_empty_conv)
  then have "?f r \<in> set (recon_items s')" using find_SomeD [OF r] by (auto simp: rows set_upd_where)
  with ok have "item_checks (?f r)" by (simp add: list_all_iff)
  then have "ri_proposer r \<noteq> None" "ri_proposer r \<noteq> Some a" by (auto simp: item_checks_def)
  then show "\<exists>m. break_maker E i s = Some m \<and> m \<noteq> a" using r by (auto simp: break_maker_def)
  have "List.find ?p (recon_items s') = None"
    unfolding find_None_iff rows using upd_where_settled [of ?p ?f] by (auto simp: open_break_def)
  then show "break_maker E i s' = None" by (simp add: break_maker_def)
qed

definition override_maker :: "env \<Rightarrow> string \<Rightarrow> db \<Rightarrow> string option" where
  "override_maker E i s = map_option ov_by (List.find (\<lambda>v. ov_telco v = tenant E \<and> ov_id v = i \<and> ov_state v = ''PENDING'') (overrides s))"

definition override_decide :: "env \<Rightarrow> string \<Rightarrow> string \<Rightarrow> string \<Rightarrow> db \<Rightarrow> err + db" where
  "override_decide E i a to s = andThen (override_update E i ''PENDING'' (\<lambda>v. v\<lparr>ov_state := to, ov_approver := Some a\<rparr>) s)
     (\<lambda>(ok, s). if \<not> ok then Inl ErrOverrideNotPending else Inr s)"

interpretation ovr: four_eyes override_decide override_maker "{''APPROVED''}"
proof
  fix E :: env and i a to :: string and s s' :: db
  let ?p = "\<lambda>v. ov_telco v = tenant E \<and> ov_id v = i \<and> ov_state v = ''PENDING''" and ?f = "\<lambda>v. v\<lparr>ov_state := to, ov_approver := Some a\<rparr>"
  assume dec: "override_decide E i a to s = Inr s'" and to: "to \<in> {''APPROVED''}"
  then have rows: "overrides s' = upd_where ?p ?f (overrides s)" and ok: "list_all override_checks (overrides s')"
    and one: "length (filter ?p (overrides s)) = 1"
    by (auto simp: override_decide_def override_update_def Let_def andThen_Inr_iff put_overrides_Inr split: if_splits)
  have "filter ?p (overrides s) \<noteq> []" using one by auto
  then obtain v where v: "List.find ?p (overrides s) = Some v"
    using find_matching [of ?p "overrides s"] by (auto simp: find_None_iff filter_empty_conv)
  then have "?f v \<in> set (overrides s')" using find_SomeD [OF v] by (auto simp: rows set_upd_where)
  with ok have "override_checks (?f v)" by (simp add: list_all_iff)
  then have "ov_by v \<noteq> a" by (auto simp: override_checks_def)
  then show "\<exists>m. override_maker E i s = Some m \<and> m \<noteq> a" using v by (simp add: override_maker_def)
  have "List.find ?p (overrides s') = None"
    unfolding find_None_iff rows using upd_where_settled [of ?p ?f] to by auto
  then show "override_maker E i s' = None" by (simp add: override_maker_def)
qed

lemma override_self_refused:
  assumes "override_maker (E\<lparr>tenant := telco\<rparr>) i s = Some actor"
  shows "fst (ApproveCompletenessOverride E telco i actor s) \<notin> range Inr"
proof
  assume "fst (ApproveCompletenessOverride E telco i actor s) \<in> range Inr"
  then have "override_decide (E\<lparr>tenant := telco\<rparr>) i actor ''APPROVED'' s \<in> range Inr"
    by (auto simp: ApproveCompletenessOverride_def WithTenantTx_def override_decide_def TenantFrom_Inr split: sum.splits prod.splits if_splits)
  with ovr.self_refused [OF assms] show False by blast
qed


section \<open>Samples\<close>

definition sample_tol :: toleranceCfg where
  "sample_tol = \<lparr>AmountToleranceMinor = 0, AutoResolve = False, MaxAmountMinor = 1000000, MinCompletenessRatio = (1, - 1),
     ReconLagSeconds = 0, RereconcileLookbackSeconds = 86400\<rparr>"

definition sample_recon :: recon_env where
  "sample_recon = \<lparr>rc_tol = (\<lambda>_. Some sample_tol), rc_url = (\<lambda>_. Some ''http://sim''), rc_get = (\<lambda>_. None), rc_decode = (\<lambda>_. None),
     rc_sort = sort_key source_key\<rparr>"

definition telco_record :: "string \<Rightarrow> i64 \<Rightarrow> string \<Rightarrow> telcoTransaction" where
  "telco_record k amt st = \<lparr>PlatformRequestID = k, TxReference = ''ref'', FaceValueMinor = amt, TxCurrency = ''NGN'', TxStatus = st, CreditedAt = 10\<rparr>"

definition platform_record :: "string \<Rightarrow> i64 \<Rightarrow> string \<times> platformRecord" where
  "platform_record k amt = (k, \<lparr>pl_id = k, pl_state = None, pl_face = amt, pl_cur = ''NGN'', pl_ref = ''''\<rparr>)"

definition sample_window :: "telcoTransaction list" where
  "sample_window = [telco_record ''a'' 100 ''SUCCESS'', telco_record ''a'' 100 ''SUCCESS'', telco_record ''c'' 5 ''SUCCESS'', telco_record ''b'' 7 ''FAILED'']"

definition sample_platform :: platform_side where
  "sample_platform = [platform_record ''a'' 100, platform_record ''b'' 200]"

definition sample_class :: classification where
  "sample_class = classify_window ''FULFILMENT'' sample_tol sample_platform sample_window no_summary"

theorem window_partition_witness:
  "map (\<lambda>it. (matchKey it, it_status it)) (cl_items sample_class) = [(''a'', ''MATCHED''), (''a'', ''BREAK_DUPLICATE_TELCO_RECORD''),
     (''c'', ''BREAK_MISSING_PLATFORM''), (''b'', ''BREAK_MISSING_TELCO'')]
   \<and> Matched (cl_sum sample_class) = 1 \<and> BreakCount (cl_sum sample_class) = 3 \<and> cl_matched sample_class = 100"
proof -
  have items: "map (\<lambda>it. (matchKey it, it_status it)) (cl_items sample_class) = [(''a'', ''MATCHED''), (''a'', ''BREAK_DUPLICATE_TELCO_RECORD''),
     (''c'', ''BREAK_MISSING_PLATFORM''), (''b'', ''BREAK_MISSING_TELCO'')]" by code_simp
  have "distinct (map fst sample_platform)" "\<forall>p \<in> snd ` set sample_platform. 0 \<le> sint (pl_face p)"
    by (simp_all add: sample_platform_def platform_record_def)
  note win = window_partition [OF this, of "''FULFILMENT''" sample_tol sample_window no_summary, folded sample_class_def]
  have "length (matched (cl_items sample_class)) = 1" "length (breaks (cl_items sample_class)) = 3"
    "map (\<lambda>it. pl_face (the (map_of sample_platform (matchKey it)))) (matched (cl_items sample_class)) = [100]" by code_simp+
  with win items show ?thesis by (simp add: no_summary_def BreakCount_def)
qed

lemma sample_sorts: "sorts (rc_sort sample_recon)"
  by (simp add: sorts_def sample_recon_def)


text \<open>Two records with one id and reference: the order of the feed changes the manifest.\<close>

definition tie_env :: env where
  "tie_env = sample_env\<lparr>marshal := (\<lambda>j. case j of JArr xs \<Rightarrow> concat (map (\<lambda>x. case jget ''amount_minor'' x of Some (JNum n) \<Rightarrow> FormatInt (sint n) | _ \<Rightarrow> '''') xs) | _ \<Rightarrow> '''')\<rparr>"

lemma tied_records_change_the_manifest:
  "sourceManifest tie_env sample_recon [telco_record ''a'' 5 ''SUCCESS'', telco_record ''a'' 7 ''SUCCESS''] 1000
     \<noteq> sourceManifest tie_env sample_recon [telco_record ''a'' 7 ''SUCCESS'', telco_record ''a'' 5 ''SUCCESS''] 1000"
  by code_simp

definition first_run :: db where
  "first_run = snd (reconcileLayer sample_env sample_recon fulfilmentSpec ''T'' ''P'' 0 100 [telco_record ''a'' 100 ''SUCCESS''] sample_tol empty_db)"

definition second_run :: db where
  "second_run = snd (reconcileLayer sample_env sample_recon fulfilmentSpec ''T'' ''P'' 0 100
     [telco_record ''a'' 100 ''SUCCESS'', telco_record ''b'' 50 ''SUCCESS''] sample_tol first_run)"

definition empty_rerun :: db where
  "empty_rerun = snd (reconcileLayer sample_env sample_recon fulfilmentSpec ''T'' ''P'' 0 100 [] sample_tol second_run)"

theorem truncated_feed_never_supersedes_witness:
  "map (\<lambda>r. (rr_id r, rr_state r)) (recon_runs empty_rerun) = [(''run_0'', ''SUPERSEDED''), (''run_2'', ''ACTIVE''), (''run_5'', ''REJECTED'')]
   \<and> (\<exists>q \<in> set (recon_runs empty_rerun). floor_met {(1, - 1)} (hd (recon_runs empty_rerun)) q \<or> overridden (overrides empty_rerun) (hd (recon_runs empty_rerun)) q)"
proof -
  have st: "map (\<lambda>r. (rr_id r, rr_state r)) (recon_runs empty_rerun) = [(''run_0'', ''SUPERSEDED''), (''run_2'', ''ACTIVE''), (''run_5'', ''REJECTED'')]"
    by code_simp
  have step: "recon_step {(1, - 1)} s (snd (reconcileLayer sample_env sample_recon fulfilmentSpec ''T'' ''P'' 0 100 recs sample_tol s))" for recs s
    by (rule recon_step.reconcile [OF fulfilment_is_map _ prod.collapse [symmetric]]) (simp add: sample_tol_def)
  have "recon_step {(1, - 1)} empty_db first_run" "recon_step {(1, - 1)} first_run second_run" "recon_step {(1, - 1)} second_run empty_rerun"
    unfolding first_run_def second_run_def empty_rerun_def by (rule step)+
  then have run: "(recon_step {(1, - 1)})\<^sup>*\<^sup>* empty_db empty_rerun"
    by (meson converse_rtranclp_into_rtranclp rtranclp.rtrancl_refl)
  have "\<forall>rho \<in> {(1, - 1)}. f64_unit rho" by (simp add: f64_unit_def)
  from truncated_feed_never_supersedes [OF run this]
  have "\<forall>r \<in> set (recon_runs empty_rerun). rr_state r = ''SUPERSEDED'' \<longrightarrow>
      (\<exists>q \<in> set (recon_runs empty_rerun). floor_met {(1, - 1)} r q \<or> overridden (overrides empty_rerun) r q)" by (auto simp: empty_db_def)
  moreover have "hd (recon_runs empty_rerun) \<in> set (recon_runs empty_rerun)" "rr_state (hd (recon_runs empty_rerun)) = ''SUPERSEDED''"
    using st by (cases "recon_runs empty_rerun"; simp)+
  ultimately show ?thesis using st by blast
qed

end
