(* ===== verification/RechargeHold.thy ===== *)
theory RechargeHold
  imports RecoveryProps Treasury
begin

text \<open>
  Recharges over the blast-radius clamps: the statements of \<^verbatim>\<open>repo/heldrecharge.go\<close> on the hold queue and the daily
  reservation, and the release workflow of \<^verbatim>\<open>usecase/rechargehold/rechargehold.go\<close>. A release is three
  transactions (claim, ingest, finalise), so its lemmas are about every interleaving of those with the rest
  of the system: what a release books, how many people it takes, and what the daily counter counts.
\<close>

section \<open>The hold queue\<close>

definition HeldReasonPerEventClamp :: string where
  "HeldReasonPerEventClamp = ''PER_EVENT_CLAMP''"

definition HeldReasonDailyCeiling :: string where
  "HeldReasonDailyCeiling = ''DAILY_CEILING''"

record HeldEvent =
  he_telco :: string
  he_source :: string
  he_token :: string
  he_amount :: i64
  he_cur :: string
  he_occurred :: int
  he_reason :: string

record HeldRow =
  hr_id :: string
  hr_telco :: string
  hr_source :: string
  hr_token :: string
  hr_amount :: i64
  hr_cur :: string
  hr_occurred :: int
  hr_reason :: string
  hr_status :: string
  hr_by :: string
  hr_approver :: string

text \<open>The CHECKs and keys of \<^verbatim>\<open>held_recharge_events\<close> and its trigger (migrations 0052 and 0079).\<close>

definition held_checks :: "held_row \<Rightarrow> bool" where
  "held_checks r \<longleftrightarrow> 0 < sint (hl_amount r) \<and> hl_reason r \<in> {HeldReasonPerEventClamp, HeldReasonDailyCeiling}
     \<and> hl_status r \<in> {''HELD'', ''RELEASE_IN_PROGRESS'', ''RELEASED'', ''REJECTED''}
     \<and> (hl_approver r = None \<or> hl_by r = None \<or> hl_approver r \<noteq> hl_by r)"

definition put_helds :: "held_row list \<Rightarrow> db \<Rightarrow> err + db" where
  "put_helds rows s =
     (if \<not> list_all held_checks rows then Inl (Pg ''23514'' ''held_recharge_events_check'')
      else if \<not> distinct (map hl_id rows) then Inl (Pg ''23505'' ''held_recharge_events_pkey'')
      else if \<not> distinct (map (\<lambda>r. (hl_telco r, hl_source r)) rows)
      then Inl (Pg ''23505'' ''held_recharge_events_telco_id_source_event_id_key'')
      else Inr (s\<lparr>helds := rows\<rparr>))"

definition held_recharge_immutable :: "held_row \<Rightarrow> held_row \<Rightarrow> bool" where
  "held_recharge_immutable old new \<longleftrightarrow> hl_status old \<notin> {''RELEASED'', ''REJECTED''}
     \<and> (hl_status old = ''RELEASE_IN_PROGRESS'' \<longrightarrow> hl_status new \<in> {''RELEASE_IN_PROGRESS'', ''RELEASED''})
     \<and> (hl_by old \<noteq> None \<longrightarrow> hl_by new = hl_by old)
     \<and> (hl_approver new \<noteq> None \<longrightarrow> hl_by old \<noteq> None)"

text \<open>An UPDATE of the rows that match, and whether exactly one did.\<close>

definition held_update :: "env \<Rightarrow> (held_row \<Rightarrow> bool) \<Rightarrow> (held_row \<Rightarrow> held_row) \<Rightarrow> db \<Rightarrow> err + bool \<times> db" where
  "held_update E p f s =
     (let q = (\<lambda>r. hl_telco r = tenant E \<and> p r) in
      if \<not> list_all (\<lambda>r. held_recharge_immutable r (f r)) (filter q (helds s)) then Inl (Pg ''P0001'' '''')
      else andThen (put_helds (upd_where q f (helds s)) s) (\<lambda>s'. Inr (length (filter q (helds s)) = 1, s')))"

definition Hold :: "env \<Rightarrow> HeldEvent \<Rightarrow> db \<Rightarrow> err + bool \<times> db" where
  "Hold E e s =
     (let (i, s) = NewID E ''hld'' s;
          r = \<lparr>hl_id = i, hl_telco = he_telco e, hl_source = he_source e, hl_token = he_token e, hl_amount = he_amount e,
               hl_cur = he_cur e, hl_occurred = he_occurred e, hl_reason = he_reason e, hl_status = ''HELD'', hl_by = None,
               hl_approver = None, hl_held = now E, hl_resolved = None\<rparr>
      in andThen (rls_check E (he_telco e)) (\<lambda>_.
         if \<not> held_checks r then Inl (Pg ''23514'' ''held_recharge_events_check'')
         else if \<exists>q \<in> set (helds s). hl_telco q = he_telco e \<and> hl_source q = he_source e then Inr (False, s)
         else andThen (put_helds (helds s @ [r]) s) (\<lambda>s. Inr (True, s))))"

definition held_view :: "held_row \<Rightarrow> HeldRow" where
  "held_view r = \<lparr>hr_id = hl_id r, hr_telco = hl_telco r, hr_source = hl_source r, hr_token = hl_token r,
     hr_amount = hl_amount r, hr_cur = hl_cur r, hr_occurred = hl_occurred r, hr_reason = hl_reason r,
     hr_status = hl_status r, hr_by = (case hl_by r of None \<Rightarrow> '''' | Some x \<Rightarrow> x),
     hr_approver = (case hl_approver r of None \<Rightarrow> '''' | Some x \<Rightarrow> x)\<rparr>"

definition Held_Get :: "env \<Rightarrow> string \<Rightarrow> db \<Rightarrow> err + HeldRow" where
  "Held_Get E i s = andThen (queryRow (\<lambda>r. hl_telco r = tenant E \<and> hl_id r = i) (helds s)) (\<lambda>r. Inr (held_view r))"

definition Held_ListOpen :: "env \<Rightarrow> int \<Rightarrow> db \<Rightarrow> HeldRow list" where
  "Held_ListOpen E limit s =
     map held_view (take (nat limit) (sort_key (\<lambda>r. - hl_held r)
       (filter (\<lambda>r. hl_telco r = tenant E \<and> hl_status r = ''HELD'') (helds s))))"

definition Held_RequestRelease :: "env \<Rightarrow> string \<Rightarrow> string \<Rightarrow> db \<Rightarrow> err + bool \<times> db" where
  "Held_RequestRelease E i maker s =
     held_update E (\<lambda>r. hl_id r = i \<and> hl_status r = ''HELD'' \<and> hl_by r = None) (\<lambda>r. r\<lparr>hl_by := Some maker\<rparr>) s"

definition ClaimForRelease :: "env \<Rightarrow> string \<Rightarrow> string \<Rightarrow> db \<Rightarrow> err + bool \<times> db" where
  "ClaimForRelease E i approver s =
     held_update E (\<lambda>r. hl_id r = i \<and> hl_status r = ''HELD'' \<and> hl_by r \<noteq> None \<and> hl_by r \<noteq> Some approver)
       (\<lambda>r. r\<lparr>hl_approver := Some approver, hl_status := ''RELEASE_IN_PROGRESS''\<rparr>) s"

definition FinaliseReleased :: "env \<Rightarrow> string \<Rightarrow> string \<Rightarrow> db \<Rightarrow> err + bool \<times> db" where
  "FinaliseReleased E i approver s =
     held_update E (\<lambda>r. hl_id r = i \<and> hl_status r = ''RELEASE_IN_PROGRESS'' \<and> hl_approver r = Some approver)
       (\<lambda>r. r\<lparr>hl_status := ''RELEASED'', hl_resolved := Some (now E)\<rparr>) s"

definition MarkRejected :: "env \<Rightarrow> string \<Rightarrow> db \<Rightarrow> err + bool \<times> db" where
  "MarkRejected E i s =
     held_update E (\<lambda>r. hl_id r = i \<and> hl_status r = ''HELD'')
       (\<lambda>r. r\<lparr>hl_status := ''REJECTED'', hl_resolved := Some (now E)\<rparr>) s"

definition DispositionBySourceEvent :: "env \<Rightarrow> string \<Rightarrow> string \<Rightarrow> db \<Rightarrow> string option" where
  "DispositionBySourceEvent E telco src s =
     map_option hl_status (List.find (\<lambda>r. hl_telco r = tenant E \<and> hl_telco r = telco \<and> hl_source r = src) (helds s))"

section \<open>The daily reservation\<close>

definition utc_date :: "int \<Rightarrow> int" where
  "utc_date t = t div day"

definition put_dailies :: "daily_row list \<Rightarrow> db \<Rightarrow> err + db" where
  "put_dailies rows s =
     (if \<not> list_all (\<lambda>r. 0 \<le> sint (dr_reserved r)) rows then Inl (Pg ''23514'' ''recharge_daily_reservation_reserved_minor_check'')
      else Inr (s\<lparr>dailies := rows\<rparr>))"

abbreviation claim_of :: "env \<Rightarrow> string \<Rightarrow> string \<Rightarrow> reserved_row \<Rightarrow> bool" where
  "claim_of E telco src r \<equiv> rv_telco r = tenant E \<and> rv_telco r = telco \<and> rv_source r = src"

abbreviation daily_of :: "env \<Rightarrow> string \<Rightarrow> int \<Rightarrow> daily_row \<Rightarrow> bool" where
  "daily_of E telco d r \<equiv> dr_telco r = tenant E \<and> dr_telco r = telco \<and> dr_day r = d"

text \<open>The conditional UPSERT of the counter: \<open>None\<close> when its condition excludes the row.\<close>

definition reserve_counter :: "env \<Rightarrow> string \<Rightarrow> int \<Rightarrow> i64 \<Rightarrow> i64 \<Rightarrow> db \<Rightarrow> err + db option" where
  "reserve_counter E telco d amt ceiling s =
     (if sint amt < 0 then Inl (Pg ''23514'' ''recharge_daily_reservation_reserved_minor_check'')
      else case List.find (daily_of E telco d) (dailies s) of
        None \<Rightarrow> andThen (put_dailies (dailies s @ [\<lparr>dr_telco = telco, dr_day = d, dr_reserved = amt\<rparr>]) s) (\<lambda>s. Inr (Some s))
      | Some r \<Rightarrow>
          andThen (sql_add (dr_reserved r) amt) (\<lambda>new.
          if sint new \<le> sint ceiling
          then andThen (put_dailies (upd_where (daily_of E telco d) (\<lambda>r. r\<lparr>dr_reserved := new\<rparr>) (dailies s)) s) (\<lambda>s. Inr (Some s))
          else Inr None))"

definition ReserveDaily :: "env \<Rightarrow> string \<Rightarrow> string \<Rightarrow> i64 \<Rightarrow> i64 \<Rightarrow> db \<Rightarrow> err + (int \<times> bool \<times> bool) \<times> db" where
  "ReserveDaily E telco src amt ceiling s =
     andThen (rls_check E telco) (\<lambda>_.
     case List.find (claim_of E telco src) (reserveds s) of
       Some r \<Rightarrow> Inr ((rv_day r, True, False), s)
     | None \<Rightarrow>
         let d = utc_date (now E);
             s1 = s\<lparr>reserveds := reserveds s @ [\<lparr>rv_telco = telco, rv_source = src, rv_day = d, rv_amount = amt\<rparr>]\<rparr>
         in andThen (reserve_counter E telco d amt ceiling s1) (\<lambda>r.
            case r of
              None \<Rightarrow> Inr ((0, False, False), s1\<lparr>reserveds := filter (\<lambda>r. \<not> claim_of E telco src r) (reserveds s1)\<rparr>)
            | Some s2 \<Rightarrow> Inr ((d, True, True), s2)))"

definition ReleaseDaily :: "env \<Rightarrow> string \<Rightarrow> int \<Rightarrow> i64 \<Rightarrow> string \<Rightarrow> db \<Rightarrow> err + db" where
  "ReleaseDaily E telco d amt src s =
     andThen (case List.find (daily_of E telco d) (dailies s) of
         None \<Rightarrow> Inr s
       | Some r \<Rightarrow> andThen (sql_sub (dr_reserved r) amt) (\<lambda>new.
           put_dailies (upd_where (daily_of E telco d) (\<lambda>r. r\<lparr>dr_reserved := new\<rparr>) (dailies s)) s)) (\<lambda>s.
     Inr (s\<lparr>reserveds := filter (\<lambda>r. \<not> claim_of E telco src r) (reserveds s)\<rparr>))"

section \<open>The release workflow\<close>

definition CorrelationFrom :: "env \<Rightarrow> string \<Rightarrow> db \<Rightarrow> string \<times> db" where
  "CorrelationFrom E corr s = (if corr \<noteq> '''' then (corr, s) else NewID E ''cor'' s)"

definition correlationOr :: "env \<Rightarrow> string \<Rightarrow> string \<Rightarrow> db \<Rightarrow> string \<times> db" where
  "correlationOr E corr fallback s =
     (let (c, s) = CorrelationFrom E corr s in (if c \<noteq> '''' then c else take 64 fallback, s))"

definition Hold_ListOpen :: "env \<Rightarrow> string \<Rightarrow> int \<Rightarrow> db \<Rightarrow> (err + HeldRow list) \<times> db" where
  "Hold_ListOpen E telco limit s =
     WithTenantTx E telco (\<lambda>E s. Inr (Held_ListOpen E (if limit \<le> 0 \<or> limit > 500 then 100 else limit) s, s)) s"

definition RequestRelease :: "env \<Rightarrow> string \<Rightarrow> string \<Rightarrow> string \<Rightarrow> string \<Rightarrow> db \<Rightarrow> (err + unit) \<times> db" where
  "RequestRelease E telco i actor why s =
     (if actor = '''' \<or> why = '''' then (Inl (Fmt ''actor and reason are required''), s)
      else WithTenantTx E telco (\<lambda>E s.
        andThen (Held_RequestRelease E i actor s) (\<lambda>(ok, s).
        if \<not> ok then Inl (Gov ErrNotActionable)
        else guardrail_audit E telco actor ''recharge_hold.release_requested'' ''held_recharge'' i why s)) s)"

text \<open>Step 1: read the hold and claim it, before any ingest.\<close>

definition claim_tx :: "string \<Rightarrow> string \<Rightarrow> env \<Rightarrow> db \<Rightarrow> err + HeldRow \<times> db" where
  "claim_tx i approver E s =
     (case Held_Get E i s of
        Inl _ \<Rightarrow> Inl (Gov ErrNotActionable)
      | Inr r \<Rightarrow>
          if hr_status r = ''RELEASED'' then Inr (r, s)
          else if hr_status r = ''RELEASE_IN_PROGRESS''
          then (if hr_approver r \<noteq> approver then Inl (Gov ErrNotActionable) else Inr (r, s))
          else if hr_status r \<noteq> ''HELD'' then Inl (Gov ErrNotActionable)
          else if hr_by r = '''' then Inl (Gov ErrNotActionable)
          else if hr_by r = approver then Inl (Gov ErrSameActor)
          else andThen (ClaimForRelease E i approver s) (\<lambda>(ok, s).
            if \<not> ok then Inl (Gov ErrNotActionable) else Inr (r, s)))"

definition approve_claim :: "env \<Rightarrow> string \<Rightarrow> string \<Rightarrow> string \<Rightarrow> db \<Rightarrow> (err + HeldRow) \<times> db" where
  "approve_claim E telco i approver s =
     (if approver = '''' then (Inl (Fmt ''approver is required''), s) else WithTenantTx E telco (claim_tx i approver) s)"

text \<open>Step 2: the held event goes to the recovery core.\<close>

definition approve_ingest :: "env \<Rightarrow> recovery_cfg \<Rightarrow> string \<Rightarrow> string \<Rightarrow> string \<Rightarrow> HeldRow \<Rightarrow> db \<Rightarrow> (err + IngestResult) \<times> db" where
  "approve_ingest E C telco corr i row s =
     (case NewMoney (hr_amount row) (hr_cur row) of
        Inl e \<Rightarrow> (Inl e, s)
      | Inr amt \<Rightarrow>
          let (c, s) = correlationOr E corr (''rel-'' @ i) s in
          Ingest E C telco \<lparr>ic_source = hr_source row, ic_token = hr_token row, ic_amount = amt,
            ic_occurred = hr_occurred row, ic_corr = c\<rparr> s)"

text \<open>Step 3: the hold closes.\<close>

definition finalise_tx :: "string \<Rightarrow> string \<Rightarrow> string \<Rightarrow> IngestResult \<Rightarrow> env \<Rightarrow> db \<Rightarrow> err + unit \<times> db" where
  "finalise_tx telco i approver res E s =
     andThen (FinaliseReleased E i approver s) (\<lambda>(ok, s).
     if \<not> ok then andThen (Held_Get E i s) (\<lambda>cur. if hr_status cur = ''RELEASED'' then Inr ((), s) else Inl (Gov ErrNotActionable))
     else guardrail_audit E telco approver ''recharge_hold.released'' ''held_recharge'' i
       (''maker-checker release; recovery '' @ ir_event res) s)"

definition approve_finalise :: "env \<Rightarrow> string \<Rightarrow> string \<Rightarrow> string \<Rightarrow> IngestResult \<Rightarrow> db \<Rightarrow> (err + unit) \<times> db" where
  "approve_finalise E telco i approver res s = WithTenantTx E telco (finalise_tx telco i approver res) s"

text \<open>The three steps of one approval; \<open>others1\<close> and \<open>others2\<close> are what the rest of the system does between them.\<close>

definition ApproveRelease ::
  "env \<Rightarrow> recovery_cfg \<Rightarrow> (db \<Rightarrow> db) \<Rightarrow> (db \<Rightarrow> db) \<Rightarrow> string \<Rightarrow> string \<Rightarrow> string \<Rightarrow> string \<Rightarrow> db \<Rightarrow> (err + IngestResult) \<times> db" where
  "ApproveRelease E C others1 others2 telco corr i approver s =
     (case approve_claim E telco i approver s of
        (Inl e, s1) \<Rightarrow> (Inl e, s1)
      | (Inr row, s1) \<Rightarrow>
          (case approve_ingest E C telco corr i row (others1 s1) of
             (Inl e, s2) \<Rightarrow> (Inl e, s2)
           | (Inr res, s2) \<Rightarrow>
               (case approve_finalise E telco i approver res (others2 s2) of
                  (Inl e, s3) \<Rightarrow> (Inl e, s3)
                | (Inr _, s3) \<Rightarrow> (Inr res, s3))))"

definition Hold_Reject :: "env \<Rightarrow> string \<Rightarrow> string \<Rightarrow> string \<Rightarrow> string \<Rightarrow> db \<Rightarrow> (err + unit) \<times> db" where
  "Hold_Reject E telco i actor why s =
     (if actor = '''' \<or> why = '''' then (Inl (Fmt ''actor and reason are required''), s)
      else WithTenantTx E telco (\<lambda>E s.
        andThen (MarkRejected E i s) (\<lambda>(ok, s).
        if \<not> ok then Inl (Gov ErrNotActionable)
        else guardrail_audit E telco actor ''recharge_hold.rejected'' ''held_recharge'' i why s)) s)"


section \<open>The recovery core leaves the recharge tables alone\<close>

definition edge :: "db \<Rightarrow> held_row list \<times> reserved_row list \<times> daily_row list" where
  "edge s = (helds s, reserveds s, dailies s)"

named_theorems edge_frame

lemma edge_PostEvent [edge_frame]: "PostEvent E C j b s = Inr (r, s') \<Longrightarrow> edge s' = edge s"
  using arg_cong [OF PostEvent_frame, of E C j b s r s' edge] by (simp add: edge_def)

lemma edge_SetState [edge_frame]: "RecoveryEvents_SetState E rid f t s = Inr s' \<Longrightarrow> edge s' = edge s"
  and edge_Suspense [edge_frame]: "Suspense_Insert E telco rid m x s = Inr s' \<Longrightarrow> edge s' = edge s"
  and edge_Outbox [edge_frame]: "Outbox_Append E ob s = Inr s' \<Longrightarrow> edge s' = edge s"
  and edge_Audit [edge_frame]: "Audit_Insert E au s = Inr s' \<Longrightarrow> edge s' = edge s"
  and edge_SetParkReason [edge_frame]: "SetParkReason E p x s = Inr s' \<Longrightarrow> edge s' = edge s"
  and edge_MarkApplied [edge_frame]: "MarkApplied E p s = Inr s' \<Longrightarrow> edge s' = edge s"
  by (auto simp: res_simps edge_def)

lemma edge_SetResponse [edge_frame]: "SetResponse E t op k st b s = Inr s' \<Longrightarrow> edge s' = edge s"
  by (auto simp: edge_def dest!: SetResponse_Inr)

lemma edge_PutIfAbsent [edge_frame]: "PutIfAbsent E rec s = Inr (r, s') \<Longrightarrow> edge s' = edge s"
  by (auto simp: PutIfAbsent_def res_simps edge_def split: if_splits)

lemma edge_Holds [edge_frame]: "RecoveryHolds_Insert E t sub aid rid s = Inr s' \<Longrightarrow> edge s' = edge s"
  by (auto simp: RecoveryHolds_Insert_def NewID_def res_simps edge_def split: if_splits)

lemma edge_EventInsert [edge_frame]: "RecoveryEvents_Insert E e s = Inr (c, s') \<Longrightarrow> edge s' = edge s"
  by (auto simp: RecoveryEvents_Insert_def res_simps edge_def split: if_splits)

lemma edge_insert_alloc [edge_frame]: "insert_alloc E evt aid c m s = Inr s' \<Longrightarrow> edge s' = edge s"
  by (auto simp: insert_alloc_def NewID_def res_simps edge_def)

lemma edge_adv_update: "adv_update p f s = Inr s' \<Longrightarrow> edge s' = edge s"
  by (auto simp: adv_update_Inr edge_def)

lemma edge_ApplyRecovery [edge_frame]: "ApplyRecovery E aid v frm to m s = Inr s' \<Longrightarrow> edge s' = edge s"
  by (auto simp: ApplyRecovery_def split: if_splits dest: edge_adv_update)

lemma edge_ApplyReversal [edge_frame]: "ApplyReversal E aid v frm to m s = Inr s' \<Longrightarrow> edge s' = edge s"
  by (auto simp: ApplyReversal_def split: if_splits dest: edge_adv_update)

lemma edge_pool_update: "pool_update p f none s = Inr s' \<Longrightarrow> edge s' = edge s"
  by (auto simp: pool_update_def andThen_Inr_iff put_pools_Inr edge_def split: if_splits)

lemma edge_ReduceUtilisation [edge_frame]: "ReduceUtilisation E pid m s = Inr s' \<Longrightarrow> edge s' = edge s"
  by (auto simp: ReduceUtilisation_def split: if_splits option.splits dest: edge_pool_update)

lemma edge_ReAddUtilisation [edge_frame]: "ReAddUtilisation E pid m s = Inr s' \<Longrightarrow> edge s' = edge s"
  by (auto simp: ReAddUtilisation_def split: if_splits option.splits dest: edge_pool_update)

lemma edge_allocate_loop [edge_frame]:
  "allocate_loop E evt adv gr recovered ws rem fee s = Inr (x, s') \<Longrightarrow> edge s' = edge s"
proof (induction ws arbitrary: rem fee s)
  case (Cons w ws)
  from Cons(2) show ?case
    by (auto simp: andThen_Inr_iff split: if_splits option.splits AllocationComponent.splits
        dest!: Cons(1) edge_insert_alloc)
qed simp

lemma edge_unallocate_loop [edge_frame]:
  "unallocate_loop E evt aid per ws rem fee s = Inr (x, s') \<Longrightarrow> edge s' = edge s"
proof (induction ws arbitrary: rem fee s)
  case (Cons w ws)
  from Cons(2) show ?case
    by (auto simp: andThen_Inr_iff split: if_splits option.splits dest!: Cons(1) edge_insert_alloc)
qed simp

lemma edge_allocate [edge_frame]: "allocate E C evt adv m s = Inr (fee, s') \<Longrightarrow> edge s' = edge s"
  by (auto simp: allocate_def Let_def andThen_Inr_iff split: if_splits dest: edge_allocate_loop)

lemma edge_apply_book [edge_frame]: "apply_book E telco sub evt adv m s = Inr (c, s') \<Longrightarrow> edge s' = edge s"
  by (auto simp: apply_book_def Let_def andThen_Inr_iff split: if_splits
      dest!: edge_ApplyRecovery edge_ReduceUtilisation edge_Holds)

lemma edge_apply_journals [edge_frame]:
  "apply_journals E C telco evt adv cmd applied ex fee s = Inr s' \<Longrightarrow> edge s' = edge s"
  by (auto simp: apply_journals_def Let_def andThen_Inr_iff split: if_splits dest!: edge_PostEvent edge_Suspense)

lemma edge_reverse_book [edge_frame]:
  "reverse_book E C orig amt corr rsid adv fee s = Inr (r, s') \<Longrightarrow> edge s' = edge s"
  by (auto simp: reverse_book_def Let_def andThen_Inr_iff dest!: edge_ApplyReversal edge_ReAddUtilisation edge_PostEvent)

lemma edge_reverse_fresh [edge_frame]:
  "reverse_fresh E C telco orig amt corr rsid s = Inr (r, s') \<Longrightarrow> edge s' = edge s"
  by (erule reverse_fresh_steps) (auto split: if_splits dest!: edge_unallocate_loop edge_reverse_book edge_SetState edge_SetResponse)

lemma edge_applyReversal [edge_frame]: "applyReversal E C c orig amt corr rsid s = Inr (r, s') \<Longrightarrow> edge s' = edge s"
  by (auto simp: applyReversal_def reverse_claim_def Let_def andThen_Inr_iff split: if_splits option.splits
      dest!: edge_PutIfAbsent edge_reverse_fresh)

lemma edge_guarded [edge_frame]: "applyReversalGuarded E C c orig amt corr rsid s = Inr (g, s') \<Longrightarrow> edge s' = edge s"
  by (cases "applyReversal E C c orig amt corr rsid s")
     (auto simp: applyReversalGuarded_def split: option.splits prod.splits dest!: edge_applyReversal)

lemma edge_applyParked [edge_frame]: "applyParkedIfAny E C c cmd s = Inr s' \<Longrightarrow> edge s' = edge s"
proof (cases "FindParkedForOriginal E (ic_source cmd) s")
  case (Inr parked)
  assume "applyParkedIfAny E C c cmd s = Inr s'"
  with Inr obtain orig g s1 where "applyReversalGuarded E C c orig (PrvAmount parked) (ic_corr cmd) (ReversalSourceEventID parked) s = Inr (g, s1)"
    "(case g of Collision reason \<Rightarrow> SetParkReason E (PendingReversalID parked) reason s1
      | Applied _ \<Rightarrow> MarkApplied E (PendingReversalID parked) s1) = Inr s'"
    unfolding applyParkedIfAny_def by (auto simp: andThen_Inr_iff)
  then show ?thesis by (cases g) (auto dest!: edge_guarded edge_SetParkReason edge_MarkApplied)
qed (auto simp: applyParkedIfAny_def split: if_splits)

lemma edge_apply_matched [edge_frame]: "apply_matched E C c telco sub evt adv cmd s = Inr (r, s') \<Longrightarrow> edge s' = edge s"
proof -
  assume "apply_matched E C c telco sub evt adv cmd s = Inr (r, s')"
  then obtain m ex fee s1 cl s2 s3 s4 ob s5 where "allocate E C (RecoveryEventID evt) adv m s = Inr (fee, s1)"
    "apply_book E telco sub evt adv m s1 = Inr (cl, s2)" "apply_journals E C telco evt adv cmd m ex fee s2 = Inr s3"
    "RecoveryEvents_SetState E (RecoveryEventID evt) RecoveryPending RecoveryAllocated s3 = Inr s4"
    "Outbox_Append E ob (s4\<lparr>next_id := Suc (next_id s4)\<rparr>) = Inr s5" "applyParkedIfAny E C c cmd s5 = Inr s'"
    unfolding apply_matched_def NewID_def run_simps by blast
  from \<open>allocate E C _ adv m s = _\<close> \<open>apply_book E telco sub evt adv m s1 = _\<close> \<open>apply_journals E C telco evt adv cmd m ex fee s2 = _\<close>
    \<open>RecoveryEvents_SetState E _ _ _ s3 = _\<close> \<open>Outbox_Append E ob _ = _\<close> \<open>applyParkedIfAny E C c cmd s5 = _\<close>
  show ?thesis by (auto dest!: edge_allocate edge_apply_book edge_apply_journals edge_SetState edge_Outbox edge_applyParked simp: edge_def)
qed


lemma edge_next_id [simp]: "edge (s\<lparr>next_id := n\<rparr>) = edge s"
  by (simp add: edge_def)

lemma edge_writeoffIncome [edge_frame]: "writeoffIncome E C evt wo cmd s = Inr (r, s') \<Longrightarrow> edge s' = edge s"
  and edge_quarantine [edge_frame]: "quarantine E C evt m why corr s = Inr (r, s') \<Longrightarrow> edge s' = edge s"
  by (auto simp: writeoffIncome_def quarantine_def andThen_Inr_iff
      dest!: edge_insert_alloc edge_PostEvent edge_SetState edge_Suspense)

lemma edge_classify [edge_frame]: "classifyAndApply E C c telco cmd s = Inr (r, s') \<Longrightarrow> edge s' = edge s"
  unfolding classifyAndApply_def NewID_def Let_def prod.case andThen_Inr_iff split_paired_Ex
proof (elim exE conjE)
  fix sub created s1
  assume ins: "RecoveryEvents_Insert E \<lparr>RecoveryEventID = new_id E ''rcv'' (next_id s), EvtTelcoID = telco, SourceEventID = ic_source cmd,
      EvtSubscriberID = sub, EvtMSISDNToken = ic_token cmd, EvtAmount = ic_amount cmd, EvtState = RecoveryPending,
      OccurredAt = ic_occurred cmd\<rparr> (s\<lparr>next_id := Suc (next_id s)\<rparr>) = Inr (created, s1)"
  have "edge s1 = edge s" using edge_EventInsert [OF ins] by simp
  moreover assume "(if \<not> created then andThen (RecoveryEvents_GetBySource E (ic_source cmd) s1) (\<lambda>ex.
       Inr (no_result\<lparr>ir_event := RecoveryEventID ex, ir_state := state_name (EvtState ex), ir_replayed := True\<rparr>, s1))
     else if sub = '''' then
       andThen (RecoveryEvents_SetState E (new_id E ''rcv'' (next_id s)) RecoveryPending RecoveryUnmatched s1) (\<lambda>s1.
       Inr (no_result\<lparr>ir_event := new_id E ''rcv'' (next_id s), ir_state := state_name RecoveryUnmatched\<rparr>, s1))
     else (case FindOpenBySubscriber E sub s1 of
          Inl e \<Rightarrow>
            if e \<noteq> ErrNotFound then Inl e
            else (case FindWrittenOffBySubscriber E sub s1 of
                    Inl e' \<Rightarrow> if e' \<noteq> ErrNotFound then Inl e'
                             else quarantine E C \<lparr>RecoveryEventID = new_id E ''rcv'' (next_id s), EvtTelcoID = telco, SourceEventID = ic_source cmd,
      EvtSubscriberID = sub, EvtMSISDNToken = ic_token cmd, EvtAmount = ic_amount cmd, EvtState = RecoveryPending,
      OccurredAt = ic_occurred cmd\<rparr> (ic_amount cmd) ''NO_OPEN_ADVANCE'' (ic_corr cmd) s1
                  | Inr wo \<Rightarrow> writeoffIncome E C \<lparr>RecoveryEventID = new_id E ''rcv'' (next_id s), EvtTelcoID = telco, SourceEventID = ic_source cmd,
      EvtSubscriberID = sub, EvtMSISDNToken = ic_token cmd, EvtAmount = ic_amount cmd, EvtState = RecoveryPending,
      OccurredAt = ic_occurred cmd\<rparr> wo cmd s1)
        | Inr adv \<Rightarrow> apply_matched E C c telco sub \<lparr>RecoveryEventID = new_id E ''rcv'' (next_id s), EvtTelcoID = telco, SourceEventID = ic_source cmd,
      EvtSubscriberID = sub, EvtMSISDNToken = ic_token cmd, EvtAmount = ic_amount cmd, EvtState = RecoveryPending,
      OccurredAt = ic_occurred cmd\<rparr> adv cmd s1)) = Inr (r, s')"
  then have "edge s' = edge s1"
    by (auto simp: andThen_Inr_iff split: if_splits sum.split_asm
        dest!: edge_SetState edge_apply_matched edge_writeoffIncome edge_quarantine)
  ultimately show ?thesis by simp
qed

lemma edge_ingest_tx: "ingest_tx C c telco cmd E s = Inr (r, s') \<Longrightarrow> edge s' = edge s"
proof -
  let ?put = "PutIfAbsent E \<lparr>i_telco = telco, i_op = ''recovery.ingest'', i_key = ic_source cmd,
      i_hash = recoverySourceHash E telco cmd, i_status = 0, i_body = JObj [], i_terminal = False\<rparr> s"
  assume run: "ingest_tx C c telco cmd E s = Inr (r, s')"
  then obtain rec stored s1 where put: "?put = Inr ((rec, stored), s1)"
    unfolding ingest_tx_def Let_def andThen_Inr_iff by auto
  note e1 = edge_PutIfAbsent [OF put]
  show ?thesis
  proof (cases stored)
    case False
    with run put e1 show ?thesis by (auto simp: ingest_tx_def Let_def andThen_Inr_iff split: if_splits)
  next
    case True
    with run put obtain res s2 where "classifyAndApply E C c telco cmd s1 = Inr (res, s2)"
      "SetResponse E telco ''recovery.ingest'' (ic_source cmd) 200 (encodeIngestResult res) s2 = Inr s'"
      unfolding ingest_tx_def Let_def by (auto simp: andThen_Inr_iff)
    with e1 show ?thesis by (auto dest!: edge_classify edge_SetResponse)
  qed
qed

lemma edge_Ingest: "Ingest E C c cmd s = (r, s') \<Longrightarrow> edge s' = edge s"
proof -
  assume run: "Ingest E C c cmd s = (r, s')"
  have tx: "edge (snd (WithTenantTx E c (ingest_tx C c t cmd) s)) = edge s" for t
    by (auto simp: WithTenantTx_def split: sum.splits prod.splits dest: edge_ingest_tx)
  have aud: "edge (recordDivergentRecovery E t cmd h u) = edge u" for t h u
    by (auto simp: recordDivergentRecovery_def WithTenantTx_def audit_tx_def NewID_def andThen_Inr_iff
        split: sum.splits prod.splits dest!: edge_Audit)
  show ?thesis
    using run tx unfolding Ingest_def
    by (auto simp: aud split: if_splits sum.splits prod.splits) (metis snd_conv)+
qed


section \<open>What the statements on a hold do\<close>

abbreviation claimed :: "held_row \<Rightarrow> bool" where
  "claimed r \<equiv> hl_status r \<in> {''RELEASE_IN_PROGRESS'', ''RELEASED''}"

definition two_names :: "held_row \<Rightarrow> bool" where
  "two_names r \<longleftrightarrow> (\<exists>m a. hl_by r = Some m \<and> hl_approver r = Some a \<and> m \<noteq> a)"

definition helds_ok :: "held_row list \<Rightarrow> bool" where
  "helds_ok rows \<longleftrightarrow> list_all held_checks rows \<and> distinct (map hl_id rows) \<and> distinct (map (\<lambda>r. (hl_telco r, hl_source r)) rows)
     \<and> (\<forall>r \<in> set rows. claimed r \<longrightarrow> two_names r)"

text \<open>The columns that say which recharge a hold is about.\<close>

definition evidence :: "held_row \<Rightarrow> string \<times> string \<times> string \<times> string \<times> i64 \<times> string \<times> int" where
  "evidence r = (hl_id r, hl_telco r, hl_source r, hl_token r, hl_amount r, hl_cur r, hl_occurred r)"

lemma put_helds_Inr:
  "put_helds rows s = Inr s' \<longleftrightarrow> s' = s\<lparr>helds := rows\<rparr> \<and> list_all held_checks rows \<and> distinct (map hl_id rows)
     \<and> distinct (map (\<lambda>r. (hl_telco r, hl_source r)) rows)"
  by (auto simp: put_helds_def)

lemma held_update_Inr:
  assumes "held_update E p f s = Inr (ok, s')"
  shows "s' = s\<lparr>helds := upd_where (\<lambda>r. hl_telco r = tenant E \<and> p r) f (helds s)\<rparr>"
    and "list_all held_checks (helds s')" "distinct (map hl_id (helds s'))" "distinct (map (\<lambda>r. (hl_telco r, hl_source r)) (helds s'))"
    and "\<And>r. r \<in> set (helds s) \<Longrightarrow> hl_telco r = tenant E \<Longrightarrow> p r \<Longrightarrow> held_recharge_immutable r (f r)"
    and "ok \<longleftrightarrow> length (filter (\<lambda>r. hl_telco r = tenant E \<and> p r) (helds s)) = 1"
proof -
  let ?q = "\<lambda>r. hl_telco r = tenant E \<and> p r"
  from assms have "put_helds (upd_where ?q f (helds s)) s = Inr s'" "list_all (\<lambda>r. held_recharge_immutable r (f r)) (filter ?q (helds s))"
    and ok: "ok \<longleftrightarrow> length (filter ?q (helds s)) = 1"
    by (auto simp: held_update_def Let_def andThen_Inr_iff split: if_splits)
  then show "s' = s\<lparr>helds := upd_where ?q f (helds s)\<rparr>" "list_all held_checks (helds s')" "distinct (map hl_id (helds s'))"
    "distinct (map (\<lambda>r. (hl_telco r, hl_source r)) (helds s'))" "ok \<longleftrightarrow> length (filter ?q (helds s)) = 1"
    and "\<And>r. r \<in> set (helds s) \<Longrightarrow> hl_telco r = tenant E \<Longrightarrow> p r \<Longrightarrow> held_recharge_immutable r (f r)"
    by (auto simp: put_helds_Inr list_all_iff)
qed

text \<open>What every step of the system leaves of a hold: its evidence, and a claim or rejection once made.\<close>

definition hold_kept :: "held_row list \<Rightarrow> held_row list \<Rightarrow> bool" where
  "hold_kept rows rows' \<longleftrightarrow> (\<forall>r \<in> set rows. \<exists>r' \<in> set rows'. evidence r' = evidence r \<and> (claimed r \<longrightarrow> claimed r')
     \<and> (hl_status r = ''REJECTED'' \<longrightarrow> hl_status r' = ''REJECTED''))"

lemma hold_kept_refl [simp]: "hold_kept rows rows"
  by (auto simp: hold_kept_def)

lemma hold_keptD:
  assumes "hold_kept rows rows'" "r \<in> set rows"
  obtains r' where "r' \<in> set rows'" "evidence r' = evidence r" "claimed r \<longrightarrow> claimed r'"
    "hl_status r = ''REJECTED'' \<longrightarrow> hl_status r' = ''REJECTED''"
  using assms unfolding hold_kept_def by blast

lemma hold_kept_trans: "hold_kept a b \<Longrightarrow> hold_kept b c \<Longrightarrow> hold_kept a c"
  unfolding hold_kept_def [of a c]
proof
  fix r assume ab: "hold_kept a b" and bc: "hold_kept b c" and r: "r \<in> set a"
  obtain q where q: "q \<in> set b" "evidence q = evidence r" "claimed r \<longrightarrow> claimed q"
    "hl_status r = ''REJECTED'' \<longrightarrow> hl_status q = ''REJECTED''" by (rule hold_keptD [OF ab r])
  obtain q' where "q' \<in> set c" "evidence q' = evidence q" "claimed q \<longrightarrow> claimed q'"
    "hl_status q = ''REJECTED'' \<longrightarrow> hl_status q' = ''REJECTED''" by (rule hold_keptD [OF bc q(1)])
  with q(2-4)
  show "\<exists>r' \<in> set c. evidence r' = evidence r \<and> (claimed r \<longrightarrow> claimed r') \<and> (hl_status r = ''REJECTED'' \<longrightarrow> hl_status r' = ''REJECTED'')"
    by (intro bexI [of _ q']) auto
qed

lemma hold_kept_append: "hold_kept rows (rows @ new)"
  by (auto simp: hold_kept_def)

lemma held_update_ok:
  assumes upd: "held_update E p f s = Inr (ok, s')" and inv: "helds_ok (helds s)"
    and ev: "\<And>r. evidence (f r) = evidence r"
    and fwd: "\<And>r. r \<in> set (helds s) \<Longrightarrow> p r \<Longrightarrow> claimed (f r) \<Longrightarrow> two_names (f r)"
  shows "helds_ok (helds s') \<and> hold_kept (helds s) (helds s')"
proof -
  note eff = held_update_Inr [OF upd]
  let ?q = "\<lambda>r. hl_telco r = tenant E \<and> p r"
  have imm: "held_recharge_immutable r (f r)" if "r \<in> set (helds s)" "?q r" for r using eff(5) that by blast
  have "\<exists>r' \<in> set (helds s'). evidence r' = evidence r \<and> (claimed r \<longrightarrow> claimed r') \<and> (hl_status r = ''REJECTED'' \<longrightarrow> hl_status r' = ''REJECTED'')"
    if r: "r \<in> set (helds s)" for r
  proof (cases "?q r")
    case True
    then have "f r \<in> set (helds s')" using r eff(1) by (auto simp: set_upd_where)
    moreover have "claimed r \<longrightarrow> claimed (f r)" "hl_status r \<noteq> ''REJECTED''"
      using imm [OF r True] by (auto simp: held_recharge_immutable_def)
    ultimately show ?thesis using ev by blast
  next
    case False
    then have "r \<in> set (helds s')" using r eff(1) by (auto simp: set_upd_where)
    then show ?thesis by blast
  qed
  moreover have "two_names r" if "r \<in> set (helds s')" "claimed r" for r
    using that fwd inv eff(1) by (auto simp: set_upd_where helds_ok_def)
  ultimately show ?thesis using eff(2-4) by (simp add: helds_ok_def hold_kept_def)
qed

lemma Hold_ok:
  assumes "Hold E e s = Inr (b, s')" "helds_ok (helds s)"
  shows "helds_ok (helds s') \<and> hold_kept (helds s) (helds s')"
proof -
  consider "helds s' = helds s" | r where "put_helds (helds s @ [r]) (s\<lparr>next_id := Suc (next_id s)\<rparr>) = Inr s'" "hl_status r = ''HELD''"
    using assms(1) unfolding Hold_def Let_def NewID_def by (auto simp: andThen_Inr_iff split: if_splits)
  then show ?thesis
    by cases (use assms(2) in \<open>auto simp: put_helds_Inr helds_ok_def hold_kept_append\<close>)
qed


lemma Held_Get_Inr: "Held_Get E i s = Inr v \<Longrightarrow> \<exists>r \<in> set (helds s). hl_telco r = tenant E \<and> hl_id r = i \<and> v = held_view r"
  by (auto simp: Held_Get_def andThen_Inr_iff dest!: queryRow_InrD)

lemma tenant_tx_audit:
  assumes "WithTenantTx E t (\<lambda>E s. andThen (F E s) (\<lambda>(ok, s).
      if \<not> ok then Inl x else guardrail_audit E t actor action ty i why s)) s = (r, s')"
  obtains "s' = s" | s1 where "F (E\<lparr>tenant := t\<rparr>) s = Inr (True, s1)" "edge s' = edge s1"
proof -
  consider e where "r = Inl e" | u s1 where "F (E\<lparr>tenant := t\<rparr>) s = Inr (True, s1)"
      "guardrail_audit (E\<lparr>tenant := t\<rparr>) t actor action ty i why s1 = Inr (u, s')"
    using assms by (cases r) (auto simp: WithTenantTx_Inr andThen_Inr_iff split: if_splits)
  then show ?thesis
  proof cases
    case 1
    with assms that(1) show ?thesis by (auto dest: WithTenantTx_error)
  next
    case (2 u s1)
    from guardrail_audit_Inr [OF 2(2)] have "edge s' = edge s1" by (auto simp: edge_def)
    with 2(1) that(2) show ?thesis by blast
  qed
qed

lemma RequestRelease_ok:
  assumes "RequestRelease E t i actor why s = (r, s')" "helds_ok (helds s)"
  shows "helds_ok (helds s') \<and> hold_kept (helds s) (helds s')"
proof (cases "actor = '''' \<or> why = ''''")
  case True
  with assms show ?thesis by (auto simp: RequestRelease_def)
next
  case False
  with assms(1) have "WithTenantTx E t (\<lambda>E s. andThen (Held_RequestRelease E i actor s) (\<lambda>(ok, s). if \<not> ok then Inl (Gov ErrNotActionable)
        else guardrail_audit E t actor ''recharge_hold.release_requested'' ''held_recharge'' i why s)) s = (r, s')"
    by (simp add: RequestRelease_def)
  then show ?thesis
  proof (rule tenant_tx_audit)
    fix s1 assume upd: "Held_RequestRelease (E\<lparr>tenant := t\<rparr>) i actor s = Inr (True, s1)" and e: "edge s' = edge s1"
    from upd have "helds_ok (helds s1) \<and> hold_kept (helds s) (helds s1)"
      unfolding Held_RequestRelease_def by (rule held_update_ok) (use assms(2) in \<open>auto simp: evidence_def\<close>)
    with e show ?thesis by (simp add: edge_def)
  qed (use assms(2) in simp)
qed

lemma Hold_Reject_ok:
  assumes "Hold_Reject E t i actor why s = (r, s')" "helds_ok (helds s)"
  shows "helds_ok (helds s') \<and> hold_kept (helds s) (helds s')"
proof (cases "actor = '''' \<or> why = ''''")
  case True
  with assms show ?thesis by (auto simp: Hold_Reject_def)
next
  case False
  with assms(1) have "WithTenantTx E t (\<lambda>E s. andThen (MarkRejected E i s) (\<lambda>(ok, s). if \<not> ok then Inl (Gov ErrNotActionable)
        else guardrail_audit E t actor ''recharge_hold.rejected'' ''held_recharge'' i why s)) s = (r, s')"
    by (simp add: Hold_Reject_def)
  then show ?thesis
  proof (rule tenant_tx_audit)
    fix s1 assume upd: "MarkRejected (E\<lparr>tenant := t\<rparr>) i s = Inr (True, s1)" and e: "edge s' = edge s1"
    from upd have "helds_ok (helds s1) \<and> hold_kept (helds s) (helds s1)"
      unfolding MarkRejected_def by (rule held_update_ok) (use assms(2) in \<open>auto simp: evidence_def\<close>)
    with e show ?thesis by (simp add: edge_def)
  qed (use assms(2) in simp)
qed

text \<open>The claim: afterwards the hold is claimed, and what the caller holds of it is its evidence.\<close>

definition covers_hold :: "held_row list \<Rightarrow> string \<Rightarrow> string \<Rightarrow> HeldRow \<Rightarrow> bool" where
  "covers_hold rows t i v \<longleftrightarrow> (\<exists>r \<in> set rows. claimed r \<and> two_names r
     \<and> evidence r = (i, t, hr_source v, hr_token v, hr_amount v, hr_cur v, hr_occurred v))"

lemma covers_hold_mono:
  assumes "covers_hold rows t i v" "hold_kept rows rows'" "helds_ok rows'"
  shows "covers_hold rows' t i v"
proof -
  from assms(1) obtain r where r: "r \<in> set rows" "claimed r"
    "evidence r = (i, t, hr_source v, hr_token v, hr_amount v, hr_cur v, hr_occurred v)" unfolding covers_hold_def by blast
  obtain q where q: "q \<in> set rows'" "evidence q = evidence r" "claimed r \<longrightarrow> claimed q" by (rule hold_keptD [OF assms(2) r(1)])
  have "claimed q" using q(3) r(2) by (rule mp)
  moreover have "two_names q" using assms(3) q(1) \<open>claimed q\<close> unfolding helds_ok_def by blast
  ultimately show ?thesis using q(1,2) r(3) unfolding covers_hold_def by (intro bexI [of _ q] conjI) simp_all
qed

lemma approve_claim_ok:
  assumes run: "approve_claim E t i a s = (Inr v, s')" and inv: "helds_ok (helds s)"
  shows "helds_ok (helds s') \<and> hold_kept (helds s) (helds s') \<and> covers_hold (helds s') t i v"
proof -
  let ?E = "E\<lparr>tenant := t\<rparr>"
  from run have tx: "claim_tx i a ?E s = Inr (v, s')" by (auto simp: approve_claim_def WithTenantTx_Inr split: if_splits)
  then obtain v' where "Held_Get ?E i s = Inr v'" by (auto simp: claim_tx_def split: sum.splits)
  with tx Held_Get_Inr [OF this] obtain r where r: "r \<in> set (helds s)" "hl_telco r = t" "hl_id r = i" and v: "v = held_view r"
    and get: "Held_Get ?E i s = Inr (held_view r)"
    by (auto simp: claim_tx_def andThen_Inr_iff split: if_splits)
  have ev: "evidence r = (i, t, hr_source v, hr_token v, hr_amount v, hr_cur v, hr_occurred v)"
    using r by (simp add: v held_view_def evidence_def)
  show ?thesis
  proof (cases "claimed r")
    case True
    then have "s' = s" using tx get by (auto simp: claim_tx_def held_view_def split: if_splits)
    then show ?thesis using inv r True ev by (auto simp: covers_hold_def helds_ok_def)
  next
    case False
    with tx get have cl: "ClaimForRelease ?E i a s = Inr (True, s')"
      by (auto simp: claim_tx_def held_view_def andThen_Inr_iff split: if_splits)
    then have ok: "helds_ok (helds s') \<and> hold_kept (helds s) (helds s')"
      unfolding ClaimForRelease_def by (rule held_update_ok) (use inv in \<open>auto simp: evidence_def two_names_def\<close>)
    note eff = held_update_Inr [OF cl [unfolded ClaimForRelease_def]]
    let ?q = "\<lambda>r. hl_telco r = t \<and> hl_id r = i \<and> hl_status r = ''HELD'' \<and> hl_by r \<noteq> None \<and> hl_by r \<noteq> Some a"
    from eff(6) have "filter ?q (helds s) \<noteq> []" by auto
    then obtain q where q: "q \<in> set (helds s)" "?q q" by (auto simp: filter_empty_conv)
    have "q = r" using distinct_key_unique [of hl_id "helds s" q r] inv q r by (auto simp: helds_ok_def)
    let ?r = "r\<lparr>hl_approver := Some a, hl_status := ''RELEASE_IN_PROGRESS''\<rparr>"
    have new: "?r \<in> set (helds s')" using q \<open>q = r\<close> eff(1) by (auto simp: set_upd_where)
    moreover have "two_names ?r" using new ok by (simp add: helds_ok_def)
    moreover have "evidence ?r = evidence r" by (simp add: evidence_def)
    ultimately show ?thesis using ok ev unfolding covers_hold_def by (intro conjI bexI [of _ ?r]) simp_all
  qed
qed

lemma approve_finalise_ok:
  assumes "approve_finalise E t i a res s = (r, s')" "helds_ok (helds s)"
  shows "helds_ok (helds s') \<and> hold_kept (helds s) (helds s')"
proof (cases r)
  case (Inl e)
  with assms show ?thesis by (auto simp: approve_finalise_def dest: WithTenantTx_error)
next
  case (Inr u)
  with assms(1) have "finalise_tx t i a res (E\<lparr>tenant := t\<rparr>) s = Inr (u, s')" by (auto simp: approve_finalise_def WithTenantTx_Inr)
  then obtain ok s1 where fin: "FinaliseReleased (E\<lparr>tenant := t\<rparr>) i a s = Inr (ok, s1)" and "edge s' = edge s1"
    by (auto simp: finalise_tx_def andThen_Inr_iff edge_def split: if_splits dest!: guardrail_audit_Inr)
  moreover have "helds_ok (helds s1) \<and> hold_kept (helds s) (helds s1)"
    using fin unfolding FinaliseReleased_def
    by (rule held_update_ok) (use assms(2) in \<open>auto simp: evidence_def two_names_def helds_ok_def\<close>)
  ultimately show ?thesis by (simp add: edge_def)
qed


text \<open>The claim as a two-person decision.\<close>

definition release_maker :: "env \<Rightarrow> string \<Rightarrow> db \<Rightarrow> string option" where
  "release_maker E i s = Option.bind (List.find (\<lambda>r. hl_telco r = tenant E \<and> hl_id r = i \<and> hl_status r = ''HELD'') (helds s)) hl_by"

definition claim_decision :: "env \<Rightarrow> string \<Rightarrow> string \<Rightarrow> string \<Rightarrow> db \<Rightarrow> err + db" where
  "claim_decision E i a to s =
     andThen (ClaimForRelease E i a s) (\<lambda>(ok, s). if ok then Inr s else Inl (Gov ErrNotActionable))"

lemma find_unique:
  assumes "distinct (map k rs)" "x \<in> set rs" "p x" "\<And>y. p y \<Longrightarrow> k y = k x"
  shows "List.find p rs = Some x"
proof -
  obtain y where y: "List.find p rs = Some y" using assms(2,3) find_NoneD [of p rs x] by (cases "List.find p rs") auto
  with find_SomeD [OF this] distinct_key_unique [OF assms(1), of y x] assms(2-4) have "y = x" by blast
  with y show ?thesis by simp
qed

interpretation claim: four_eyes claim_decision release_maker "{''RELEASE_IN_PROGRESS''}"
proof
  fix E i a to s s'
  assume "claim_decision E i a to s = Inr s'"
  then have cl: "ClaimForRelease E i a s = Inr (True, s')"
    by (auto simp: claim_decision_def andThen_Inr_iff split: if_splits)
  note eff = held_update_Inr [OF cl [unfolded ClaimForRelease_def]]
  let ?q = "\<lambda>r. hl_telco r = tenant E \<and> hl_id r = i \<and> hl_status r = ''HELD'' \<and> hl_by r \<noteq> None \<and> hl_by r \<noteq> Some a"
  let ?f = "\<lambda>r. r\<lparr>hl_approver := Some a, hl_status := ''RELEASE_IN_PROGRESS''\<rparr>"
  from eff(6) have "filter ?q (helds s) \<noteq> []" by auto
  then obtain r where r: "r \<in> set (helds s)" "?q r" by (auto simp: filter_empty_conv)
  have ids: "distinct (map hl_id (helds s))"
    using eff(3) eff(1) map_upd_where_key [of hl_id ?f ?q "helds s"] by simp
  have "List.find (\<lambda>r. hl_telco r = tenant E \<and> hl_id r = i \<and> hl_status r = ''HELD'') (helds s) = Some r"
    by (rule find_unique [OF ids r(1)]) (use r(2) in auto)
  with r(2) show "\<exists>m. release_maker E i s = Some m \<and> m \<noteq> a" by (auto simp: release_maker_def)
  have "\<not> (hl_telco y = tenant E \<and> hl_id y = i \<and> hl_status y = ''HELD'')" if "y \<in> set (helds s')" for y
  proof
    assume y: "hl_telco y = tenant E \<and> hl_id y = i \<and> hl_status y = ''HELD''"
    have "?f r \<in> set (helds s')" using r eff(1) by (auto simp: set_upd_where)
    with distinct_key_unique [OF eff(3) that this] y r(2) show False by auto
  qed
  then have "List.find (\<lambda>r. hl_telco r = tenant E \<and> hl_id r = i \<and> hl_status r = ''HELD'') (helds s') = None"
    by (auto simp: find_None_iff)
  then show "release_maker E i s' = None" by (simp add: release_maker_def)
qed

section \<open>Every interleaving\<close>

text \<open>
  The system state: the database, the approvals between their steps, and the ingests that approvals made. Any
  other part of the system may change the rest of the database at any time.
\<close>

record hold_sys =
  hs_db :: db
  hs_flight :: "(string \<times> string \<times> string \<times> HeldRow) list"
  hs_booked :: "(string \<times> string \<times> HeldRow) list"

inductive hold_step :: "recovery_cfg \<Rightarrow> hold_sys \<Rightarrow> hold_sys \<Rightarrow> bool" for C where
  hold: "WithTenantTx E t (\<lambda>E s. Hold E e s) (hs_db \<sigma>) = (r, s') \<Longrightarrow> hold_step C \<sigma> (\<sigma>\<lparr>hs_db := s'\<rparr>)"
| request: "RequestRelease E t i actor why (hs_db \<sigma>) = (u, s') \<Longrightarrow> hold_step C \<sigma> (\<sigma>\<lparr>hs_db := s'\<rparr>)"
| reject: "Hold_Reject E t i actor why (hs_db \<sigma>) = (u, s') \<Longrightarrow> hold_step C \<sigma> (\<sigma>\<lparr>hs_db := s'\<rparr>)"
| claim: "approve_claim E t i a (hs_db \<sigma>) = (Inr v, s') \<Longrightarrow>
    hold_step C \<sigma> (\<sigma>\<lparr>hs_db := s', hs_flight := (t, i, a, v) # hs_flight \<sigma>\<rparr>)"
| ingest: "(t, i, a, v) \<in> set (hs_flight \<sigma>) \<Longrightarrow> approve_ingest E C t corr i v (hs_db \<sigma>) = (res, s') \<Longrightarrow>
    hold_step C \<sigma> (\<sigma>\<lparr>hs_db := s', hs_booked := (t, i, v) # hs_booked \<sigma>\<rparr>)"
| finalise: "(t, i, a, v) \<in> set (hs_flight \<sigma>) \<Longrightarrow> approve_finalise E t i a res (hs_db \<sigma>) = (u, s') \<Longrightarrow>
    hold_step C \<sigma> (\<sigma>\<lparr>hs_db := s'\<rparr>)"
| other: "helds s' = helds (hs_db \<sigma>) \<Longrightarrow> hold_step C \<sigma> (\<sigma>\<lparr>hs_db := s'\<rparr>)"

definition hold_inv :: "hold_sys \<Rightarrow> bool" where
  "hold_inv \<sigma> \<longleftrightarrow> helds_ok (helds (hs_db \<sigma>))
     \<and> (\<forall>(t, i, a, v) \<in> set (hs_flight \<sigma>). covers_hold (helds (hs_db \<sigma>)) t i v)
     \<and> (\<forall>(t, i, v) \<in> set (hs_booked \<sigma>). covers_hold (helds (hs_db \<sigma>)) t i v)"

lemma hold_inv_db:
  assumes "hold_inv \<sigma>" "helds_ok (helds s') \<and> hold_kept (helds (hs_db \<sigma>)) (helds s')"
  shows "hold_inv (\<sigma>\<lparr>hs_db := s'\<rparr>)"
  using assms covers_hold_mono [of "helds (hs_db \<sigma>)" _ _ _ "helds s'"] unfolding hold_inv_def by auto

lemma hold_tx_ok:
  assumes "WithTenantTx E t (\<lambda>E s. Hold E e s) s = (r, s')" "helds_ok (helds s)"
  shows "helds_ok (helds s') \<and> hold_kept (helds s) (helds s')"
  using assms by (cases r) (auto simp: WithTenantTx_Inr dest: WithTenantTx_error Hold_ok)

lemma approve_ingest_edge: "approve_ingest E C t corr i v s = (r, s') \<Longrightarrow> edge s' = edge s"
  by (auto simp: approve_ingest_def correlationOr_def CorrelationFrom_def NewID_def split: sum.splits if_splits dest: edge_Ingest)

text \<open>The ambient correlation id is generated when absent, so the release-scoped one is never used.\<close>

lemma correlationOr_ambient:
  "(\<And>n. new_id E ''cor'' n \<noteq> '''') \<Longrightarrow> correlationOr E corr fallback s = CorrelationFrom E corr s"
  by (auto simp: correlationOr_def CorrelationFrom_def NewID_def)

lemma hold_step_inv:
  assumes "hold_step C \<sigma> \<tau>" "hold_inv \<sigma>"
  shows "hold_inv \<tau> \<and> hold_kept (helds (hs_db \<sigma>)) (helds (hs_db \<tau>))"
proof -
  have ok: "helds_ok (helds (hs_db \<sigma>))" using assms(2) by (simp add: hold_inv_def)
  show ?thesis
    using assms(1)
  proof cases
    case (hold E t e r s')
    from hold_tx_ok [OF hold(2) ok] hold(1) hold_inv_db [OF assms(2)] show ?thesis by simp
  next
    case (request E t i actor why u s')
    from RequestRelease_ok [OF request(2) ok] request(1) hold_inv_db [OF assms(2)] show ?thesis by simp
  next
    case (reject E t i actor why u s')
    from Hold_Reject_ok [OF reject(2) ok] reject(1) hold_inv_db [OF assms(2)] show ?thesis by simp
  next
    case (claim E t i a v s')
    note c = approve_claim_ok [OF claim(2) ok]
    with hold_inv_db [OF assms(2)] have "hold_inv (\<sigma>\<lparr>hs_db := s'\<rparr>)" by blast
    with c claim(1) show ?thesis by (auto simp: hold_inv_def)
  next
    case (ingest t i a v E corr res s')
    have same: "helds s' = helds (hs_db \<sigma>)" using approve_ingest_edge [OF ingest(3)] by (simp add: edge_def)
    with assms(2) ingest(1,2) show ?thesis by (auto simp: hold_inv_def)
  next
    case (finalise t i a v E res u s')
    from approve_finalise_ok [OF finalise(3) ok] finalise(1) hold_inv_db [OF assms(2)] show ?thesis by simp
  next
    case (other s')
    with assms(2) show ?thesis by (simp add: hold_inv_def)
  qed
qed



section \<open>The daily counter\<close>

definition counter_of :: "db \<Rightarrow> string \<Rightarrow> int \<Rightarrow> int" where
  "counter_of s t d = (\<Sum>r\<leftarrow>filter (\<lambda>r. dr_telco r = t \<and> dr_day r = d) (dailies s). sint (dr_reserved r))"

definition claims_of :: "db \<Rightarrow> string \<Rightarrow> int \<Rightarrow> int" where
  "claims_of s t d = (\<Sum>r\<leftarrow>filter (\<lambda>r. rv_telco r = t \<and> rv_day r = d) (reserveds s). sint (rv_amount r))"

text \<open>
  Deliveries between their transactions hold the capacity they took freshly (telco, day, amount, event);
  the ceiling a delivery reads may change, up to \<open>K\<close> for a telco.
\<close>

record reserve_sys =
  rs_db :: db
  rs_fresh :: "(string \<times> int \<times> i64 \<times> string) list"

inductive reserve_step :: "(string \<Rightarrow> int) \<Rightarrow> reserve_sys \<Rightarrow> reserve_sys \<Rightarrow> bool" for K where
  reserve: "0 < sint amt \<Longrightarrow> sint amt \<le> K t \<Longrightarrow> sint ceiling \<le> K t \<Longrightarrow>
    WithTenantTx E t (\<lambda>E s. ReserveDaily E t src amt ceiling s) (rs_db \<sigma>) = (Inr (d, ok, fresh), s') \<Longrightarrow>
    reserve_step K \<sigma> (\<sigma>\<lparr>rs_db := s', rs_fresh := (if fresh then [(t, d, amt, src)] else []) @ rs_fresh \<sigma>\<rparr>)"
| release: "(t, d, amt, src) \<in> set (rs_fresh \<sigma>) \<Longrightarrow>
    WithTenantTx E t (\<lambda>E s. andThen (ReleaseDaily E t d amt src s) (\<lambda>s. Inr ((), s))) (rs_db \<sigma>) = (Inr (), s') \<Longrightarrow>
    reserve_step K \<sigma> (\<sigma>\<lparr>rs_db := s', rs_fresh := filter (\<lambda>x. x \<noteq> (t, d, amt, src)) (rs_fresh \<sigma>)\<rparr>)"
| keep: "x \<in> set (rs_fresh \<sigma>) \<Longrightarrow> reserve_step K \<sigma> (\<sigma>\<lparr>rs_fresh := filter (\<lambda>y. y \<noteq> x) (rs_fresh \<sigma>)\<rparr>)"
| other: "dailies s' = dailies (rs_db \<sigma>) \<Longrightarrow> reserveds s' = reserveds (rs_db \<sigma>) \<Longrightarrow> reserve_step K \<sigma> (\<sigma>\<lparr>rs_db := s'\<rparr>)"

definition reserve_inv :: "(string \<Rightarrow> int) \<Rightarrow> reserve_sys \<Rightarrow> bool" where
  "reserve_inv K \<sigma> \<longleftrightarrow> (let s = rs_db \<sigma> in
     distinct (map (\<lambda>r. (rv_telco r, rv_source r)) (reserveds s)) \<and> distinct (map (\<lambda>r. (dr_telco r, dr_day r)) (dailies s))
     \<and> (\<forall>r \<in> set (reserveds s). 0 < sint (rv_amount r))
     \<and> (\<forall>t d. counter_of s t d = claims_of s t d \<and> (claims_of s t d = 0 \<or> claims_of s t d \<le> K t))
     \<and> (\<forall>(t, d, amt, src) \<in> set (rs_fresh \<sigma>). \<lparr>rv_telco = t, rv_source = src, rv_day = d, rv_amount = amt\<rparr> \<in> set (reserveds s)))"


lemma filter_key_find:
  "distinct (map k rs) \<Longrightarrow> filter (\<lambda>r. k r = x) rs = (case List.find (\<lambda>r. k r = x) rs of None \<Rightarrow> [] | Some r \<Rightarrow> [r])"
  by (induction rs) (auto simp: filter_empty_conv image_iff split: option.splits dest!: find_SomeD)

lemma counter_find:
  assumes "distinct (map (\<lambda>r. (dr_telco r, dr_day r)) (dailies s))"
  shows "counter_of s t d = (case List.find (\<lambda>r. dr_telco r = t \<and> dr_day r = d) (dailies s) of None \<Rightarrow> 0 | Some r \<Rightarrow> sint (dr_reserved r))"
  using filter_key_find [OF assms, of "(t, d)"] by (simp add: counter_of_def split: option.splits)

lemma counter_set:
  assumes keys: "distinct (map (\<lambda>r. (dr_telco r, dr_day r)) (dailies s))" and f: "List.find (daily_of E t d) (dailies s) = Some r"
    and s': "dailies s' = upd_where (daily_of E t d) (\<lambda>r. r\<lparr>dr_reserved := new\<rparr>) (dailies s)" and t: "tenant E = t"
  shows "counter_of s' t' d' = (if t' = t \<and> d' = d then sint new else counter_of s t' d')"
    "distinct (map (\<lambda>r. (dr_telco r, dr_day r)) (dailies s'))"
proof -
  let ?k = "\<lambda>r. (dr_telco r, dr_day r)"
  have map: "map ?k (dailies s') = map ?k (dailies s)" unfolding s' by (rule map_upd_where_key) simp
  then show keys': "distinct (map ?k (dailies s'))" using keys by simp
  have f': "List.find (\<lambda>r. dr_telco r = t' \<and> dr_day r = d') (upd_where (daily_of E t d) (\<lambda>r. r\<lparr>dr_reserved := new\<rparr>) rs) =
      map_option (\<lambda>r. if t' = t \<and> d' = d then r\<lparr>dr_reserved := new\<rparr> else r) (List.find (\<lambda>r. dr_telco r = t' \<and> dr_day r = d') rs)" for rs
    using t by (induction rs) auto
  show "counter_of s' t' d' = (if t' = t \<and> d' = d then sint new else counter_of s t' d')"
    unfolding counter_find [OF keys'] counter_find [OF keys] unfolding s' f' using f t by (auto split: option.splits)
qed

lemma reserve_counter_Some:
  assumes run: "reserve_counter E t d amt ceiling s = Inr (Some s')" and t: "tenant E = t"
    and keys: "distinct (map (\<lambda>r. (dr_telco r, dr_day r)) (dailies s))"
  shows "reserveds s' = reserveds s \<and> distinct (map (\<lambda>r. (dr_telco r, dr_day r)) (dailies s'))
    \<and> (\<forall>t' d'. counter_of s' t' d' = counter_of s t' d' + (if t' = t \<and> d' = d then sint amt else 0))
    \<and> (counter_of s t d = 0 \<or> counter_of s' t d \<le> sint ceiling)"
proof (cases "List.find (daily_of E t d) (dailies s)")
  case None
  with run have s': "s' = s\<lparr>dailies := dailies s @ [\<lparr>dr_telco = t, dr_day = d, dr_reserved = amt\<rparr>]\<rparr>"
    by (auto simp: reserve_counter_def put_dailies_def andThen_Inr_iff split: if_splits)
  moreover have "(t, d) \<notin> set (map (\<lambda>r. (dr_telco r, dr_day r)) (dailies s))" using None t by (auto simp: find_None_iff)
  moreover have "counter_of s t d = 0" using None t by (simp add: counter_find [OF keys])
  ultimately show ?thesis using keys by (auto simp: counter_of_def)
next
  case (Some r)
  then have rt: "counter_of s t d = sint (dr_reserved r)" using t by (simp add: counter_find [OF keys])
  from run Some obtain new where new: "sql_add (dr_reserved r) amt = Inr new" "sint new \<le> sint ceiling"
    and s': "s' = s\<lparr>dailies := upd_where (daily_of E t d) (\<lambda>r. r\<lparr>dr_reserved := new\<rparr>) (dailies s)\<rparr>"
    by (auto simp: reserve_counter_def put_dailies_def andThen_Inr_iff split: if_splits)
  have v: "sint new = sint (dr_reserved r) + sint amt" using new(1) by (auto simp: sql_add_Inr i64_simps)
  have d': "dailies s' = upd_where (daily_of E t d) (\<lambda>r. r\<lparr>dr_reserved := new\<rparr>) (dailies s)" by (simp add: s')
  note c = counter_set [OF keys Some d' t]
  have "reserveds s' = reserveds s" by (simp add: s')
  with c rt v new(2) show ?thesis by (auto simp del: c(1) simp: c(1))
qed

lemma filter_claim_append:
  "List.find p rs = None \<Longrightarrow> p x \<Longrightarrow> filter (\<lambda>r. \<not> p r) (rs @ [x]) = rs"
  by (auto simp: find_None_iff filter_id_conv)

lemma ReserveDaily_Inr:
  assumes run: "ReserveDaily E t src amt ceiling s = Inr ((d, ok, fresh), s')"
    and keys: "distinct (map (\<lambda>r. (dr_telco r, dr_day r)) (dailies s))"
  shows "tenant E = t"
    and "\<not> fresh \<Longrightarrow> dailies s' = dailies s \<and> reserveds s' = reserveds s"
    and "fresh \<Longrightarrow> reserveds s' = reserveds s @ [\<lparr>rv_telco = t, rv_source = src, rv_day = d, rv_amount = amt\<rparr>]
      \<and> (t, src) \<notin> (\<lambda>r. (rv_telco r, rv_source r)) ` set (reserveds s)
      \<and> distinct (map (\<lambda>r. (dr_telco r, dr_day r)) (dailies s'))
      \<and> (\<forall>t' d'. counter_of s' t' d' = counter_of s t' d' + (if t' = t \<and> d' = d then sint amt else 0))
      \<and> (counter_of s t d = 0 \<or> counter_of s' t d \<le> sint ceiling)"
proof -
  from run show t: "tenant E = t" by (auto simp: ReserveDaily_def andThen_Inr_iff rls_check_Inr)
  let ?x = "\<lparr>rv_telco = t, rv_source = src, rv_day = utc_date (now E), rv_amount = amt\<rparr>"
  let ?s1 = "s\<lparr>reserveds := reserveds s @ [?x]\<rparr>"
  show "dailies s' = dailies s \<and> reserveds s' = reserveds s" if "\<not> fresh"
  proof (cases "List.find (claim_of E t src) (reserveds s)")
    case None
    with run that have "s' = ?s1\<lparr>reserveds := filter (\<lambda>r. \<not> claim_of E t src r) (reserveds ?s1)\<rparr>"
      by (auto simp: ReserveDaily_def Let_def andThen_Inr_iff split: option.splits)
    then show ?thesis using filter_claim_append [OF None, of ?x] t by simp
  qed (use run that in \<open>auto simp: ReserveDaily_def andThen_Inr_iff\<close>)
  show "reserveds s' = reserveds s @ [\<lparr>rv_telco = t, rv_source = src, rv_day = d, rv_amount = amt\<rparr>]
      \<and> (t, src) \<notin> (\<lambda>r. (rv_telco r, rv_source r)) ` set (reserveds s)
      \<and> distinct (map (\<lambda>r. (dr_telco r, dr_day r)) (dailies s'))
      \<and> (\<forall>t' d'. counter_of s' t' d' = counter_of s t' d' + (if t' = t \<and> d' = d then sint amt else 0))
      \<and> (counter_of s t d = 0 \<or> counter_of s' t d \<le> sint ceiling)" if fresh
  proof -
    from run that have none: "List.find (claim_of E t src) (reserveds s) = None" and d: "d = utc_date (now E)"
      and cnt: "reserve_counter E t d amt ceiling ?s1 = Inr (Some s')"
      by (auto simp: ReserveDaily_def Let_def andThen_Inr_iff split: option.splits)
    have "counter_of ?s1 t' d' = counter_of s t' d'" for t' d' by (simp add: counter_of_def)
    moreover have "(t, src) \<notin> (\<lambda>r. (rv_telco r, rv_source r)) ` set (reserveds s)" using none t by (auto simp: find_None_iff)
    moreover note reserve_counter_Some [OF cnt t]
    ultimately show ?thesis using keys d by auto
  qed
qed


text \<open>Dropping one claim lowers the sum of its day by its amount.\<close>

lemma sum_drop_key:
  assumes "distinct (map k rs)" "x \<in> set rs" "\<And>r. r \<in> set rs \<Longrightarrow> p r \<longleftrightarrow> k r = k x"
  shows "(\<Sum>r\<leftarrow>filter g (filter (\<lambda>r. \<not> p r) rs). w r) = (\<Sum>r\<leftarrow>filter g rs. w r) - (if g x then w x else (0 :: int))"
  using assms
proof (induction rs)
  case (Cons r rs)
  show ?case
  proof (cases "r = x")
    case True
    then have "filter (\<lambda>r. \<not> p r) rs = rs" using Cons.prems by (auto simp: filter_id_conv image_iff)
    then show ?thesis using True Cons.prems(3) [of r] by simp
  next
    case False
    with Cons.prems have "x \<in> set rs" "k r \<noteq> k x" by (auto simp: image_iff)
    with Cons.IH Cons.prems show ?thesis by simp
  qed
qed simp

lemma ReleaseDaily_Inr:
  assumes run: "ReleaseDaily E t d amt src s = Inr s'" and t: "tenant E = t"
    and keys: "distinct (map (\<lambda>r. (dr_telco r, dr_day r)) (dailies s))" "distinct (map (\<lambda>r. (rv_telco r, rv_source r)) (reserveds s))"
    and x: "\<lparr>rv_telco = t, rv_source = src, rv_day = d, rv_amount = amt\<rparr> \<in> set (reserveds s)"
    and pos: "\<forall>r \<in> set (reserveds s). 0 < sint (rv_amount r)" and eq: "counter_of s t d = claims_of s t d"
  shows "distinct (map (\<lambda>r. (dr_telco r, dr_day r)) (dailies s'))"
    and "reserveds s' = filter (\<lambda>r. (rv_telco r, rv_source r) \<noteq> (t, src)) (reserveds s)"
    and "counter_of s' t' d' = counter_of s t' d' - (if t' = t \<and> d' = d then sint amt else 0)"
    and "claims_of s' t' d' = claims_of s t' d' - (if t' = t \<and> d' = d then sint amt else 0)"
proof -
  let ?x = "\<lparr>rv_telco = t, rv_source = src, rv_day = d, rv_amount = amt\<rparr>"
  let ?p = "\<lambda>r. (rv_telco r, rv_source r) = (t, src)"
  note drop = sum_drop_key [OF keys(2) x, of ?p "\<lambda>r. sint (rv_amount r)" "\<lambda>r. rv_telco r = t' \<and> rv_day r = d'" for t' d', simplified]
  have "0 \<le> (\<Sum>r\<leftarrow>filter (\<lambda>r. rv_telco r = t \<and> rv_day r = d) (filter (\<lambda>r. \<not> ?p r) (reserveds s)). sint (rv_amount r))"
    using pos by (intro sum_list_nonneg) auto
  moreover have "0 < sint amt" using pos x by force
  ultimately have "0 < claims_of s t d" using drop [of t d] by (simp add: claims_of_def)
  then have "counter_of s t d \<noteq> 0" using eq by simp
  then obtain r where r: "List.find (daily_of E t d) (dailies s) = Some r"
    using t by (auto simp: counter_find [OF keys(1)] split: option.splits)
  from run r obtain new s1 where new: "sql_sub (dr_reserved r) amt = Inr new"
    and s1: "s1 = s\<lparr>dailies := upd_where (daily_of E t d) (\<lambda>r. r\<lparr>dr_reserved := new\<rparr>) (dailies s)\<rparr>"
    and s': "s' = s1\<lparr>reserveds := filter (\<lambda>r. \<not> claim_of E t src r) (reserveds s1)\<rparr>"
    by (auto simp: ReleaseDaily_def put_dailies_def andThen_Inr_iff split: if_splits)
  have v: "sint new = sint (dr_reserved r) - sint amt" using new by (auto simp: sql_sub_Inr i64_simps)
  have d': "dailies s' = upd_where (daily_of E t d) (\<lambda>r. r\<lparr>dr_reserved := new\<rparr>) (dailies s)" by (simp add: s' s1)
  note c = counter_set [OF keys(1) r d' t]
  show "distinct (map (\<lambda>r. (dr_telco r, dr_day r)) (dailies s'))" by (rule c(2))
  show rs: "reserveds s' = filter (\<lambda>r. (rv_telco r, rv_source r) \<noteq> (t, src)) (reserveds s)"
    using t by (auto simp: s' s1 intro: filter_cong)
  show "counter_of s' t' d' = counter_of s t' d' - (if t' = t \<and> d' = d then sint amt else 0)"
    unfolding c(1) using r t by (auto simp: counter_find [OF keys(1)] v)
  show "claims_of s' t' d' = claims_of s t' d' - (if t' = t \<and> d' = d then sint amt else 0)"
    unfolding claims_of_def rs using drop [of t' d'] by auto
qed


lemma reserve_step_inv:
  assumes "reserve_step K \<sigma> \<tau>" "reserve_inv K \<sigma>"
  shows "reserve_inv K \<tau>"
  using assms(1)
proof cases
  case (reserve amt t ceiling E src d ok fresh s')
  from reserve(5) have run: "ReserveDaily (E\<lparr>tenant := t\<rparr>) t src amt ceiling (rs_db \<sigma>) = Inr ((d, ok, fresh), s')"
    by (auto simp: WithTenantTx_Inr)
  have keys: "distinct (map (\<lambda>r. (dr_telco r, dr_day r)) (dailies (rs_db \<sigma>)))" using assms(2) by (simp add: reserve_inv_def Let_def)
  note eff = ReserveDaily_Inr [OF run keys]
  show ?thesis
  proof (cases fresh)
    case False
    then show ?thesis using eff(2) assms(2) reserve(1) by (simp add: reserve_inv_def Let_def counter_of_def claims_of_def)
  next
    case True
    note new = eff(3) [OF True]
    have cl: "claims_of s' t' d' = claims_of (rs_db \<sigma>) t' d' + (if t' = t \<and> d' = d then sint amt else 0)" for t' d'
      using new by (simp add: claims_of_def)
    have "counter_of s' t' d' = claims_of s' t' d' \<and> (claims_of s' t' d' = 0 \<or> claims_of s' t' d' \<le> K t')" for t' d'
    proof (cases "t' = t \<and> d' = d")
      case True
      have "counter_of (rs_db \<sigma>) t d = claims_of (rs_db \<sigma>) t d" using assms(2) by (simp add: reserve_inv_def Let_def)
      then show ?thesis using new True reserve(2-4) cl [of t d] by auto
    next
      case False
      then show ?thesis using new cl [of t' d'] assms(2) by (auto simp: reserve_inv_def Let_def)
    qed
    with new assms(2) reserve(1,2) True show ?thesis by (auto simp: reserve_inv_def Let_def)
  qed
next
  case (release t d amt src E s')
  from release(3) have run: "ReleaseDaily (E\<lparr>tenant := t\<rparr>) t d amt src (rs_db \<sigma>) = Inr s'"
    by (auto simp: WithTenantTx_Inr andThen_Inr_iff)
  have x: "\<lparr>rv_telco = t, rv_source = src, rv_day = d, rv_amount = amt\<rparr> \<in> set (reserveds (rs_db \<sigma>))"
    using assms(2) release(2) by (auto simp: reserve_inv_def Let_def)
  have inv: "distinct (map (\<lambda>r. (dr_telco r, dr_day r)) (dailies (rs_db \<sigma>)))" "distinct (map (\<lambda>r. (rv_telco r, rv_source r)) (reserveds (rs_db \<sigma>)))"
    "\<forall>r \<in> set (reserveds (rs_db \<sigma>)). 0 < sint (rv_amount r)" "\<And>t d. counter_of (rs_db \<sigma>) t d = claims_of (rs_db \<sigma>) t d"
    "\<And>t d. claims_of (rs_db \<sigma>) t d = 0 \<or> claims_of (rs_db \<sigma>) t d \<le> K t"
    using assms(2) by (auto simp: reserve_inv_def Let_def)
  note eff = ReleaseDaily_Inr [OF run _ inv(1,2) x inv(3,4), simplified]
  have amt: "0 < sint amt" using inv(3) x by force
  have nn: "0 \<le> claims_of s' t d"
    unfolding claims_of_def eff(2) using inv(3) by (intro sum_list_nonneg) auto
  have "counter_of s' t' d' = claims_of s' t' d' \<and> (claims_of s' t' d' = 0 \<or> claims_of s' t' d' \<le> K t')" for t' d'
    using inv(4,5) [of t' d'] eff(3,4) [of t' d'] nn amt by (auto split: if_splits)
  moreover have kept: "\<lparr>rv_telco = t', rv_source = src', rv_day = d', rv_amount = amt'\<rparr> \<in> set (reserveds s')"
    if f: "(t', d', amt', src') \<in> set (rs_fresh \<sigma>)" and ne: "(t', d', amt', src') \<noteq> (t, d, amt, src)" for t' d' amt' src'
  proof -
    have y: "\<lparr>rv_telco = t', rv_source = src', rv_day = d', rv_amount = amt'\<rparr> \<in> set (reserveds (rs_db \<sigma>))"
      using assms(2) f by (auto simp: reserve_inv_def Let_def)
    moreover have "(t', src') \<noteq> (t, src)" using distinct_key_unique [OF inv(2) x y] ne by auto
    ultimately show ?thesis unfolding eff(2) by simp
  qed
  moreover have "distinct (map (\<lambda>r. (rv_telco r, rv_source r)) (reserveds s'))"
    unfolding eff(2) using inv(2) by (rule distinct_map_filter)
  moreover have "\<forall>(t', d', amt', src') \<in> set (rs_fresh \<tau>). \<lparr>rv_telco = t', rv_source = src', rv_day = d', rv_amount = amt'\<rparr> \<in> set (reserveds s')"
    using kept release(1) by fastforce
  moreover have "rs_db \<tau> = s'" using release(1) by simp
  moreover have "\<forall>r \<in> set (reserveds s'). 0 < sint (rv_amount r)" unfolding eff(2) using inv(3) by simp
  ultimately show ?thesis using eff(1) unfolding reserve_inv_def Let_def by blast
next
  case (keep x)
  with assms(2) show ?thesis by (auto simp: reserve_inv_def Let_def)
next
  case (other s')
  with assms(2) show ?thesis by (simp add: reserve_inv_def Let_def counter_of_def claims_of_def)
qed

text \<open>C32: Through every interleaving of deliveries that reserve, deliveries that give back what they took freshly and
  any other traffic, starting from an empty counter: the counter of a telco's day is exactly the sum of the
  claims of that day, each event has at most one claim, and the counter never exceeds the largest ceiling and
  amount that any delivery was admitted under.\<close>

theorem daily_counter_exact:
  assumes "(reserve_step K)\<^sup>*\<^sup>* \<sigma> \<tau>" "dailies (rs_db \<sigma>) = []" "reserveds (rs_db \<sigma>) = []" "rs_fresh \<sigma> = []" "\<forall>t. 0 \<le> K t"
  shows "(\<forall>t d. counter_of (rs_db \<tau>) t d = claims_of (rs_db \<tau>) t d \<and> counter_of (rs_db \<tau>) t d \<le> K t)
    \<and> distinct (map (\<lambda>r. (rv_telco r, rv_source r)) (reserveds (rs_db \<tau>)))"
proof -
  have "reserve_inv K \<tau>"
    using assms(1)
  proof (induction rule: rtranclp_induct)
    case base
    show ?case using assms(2-4) by (simp add: reserve_inv_def Let_def counter_of_def claims_of_def)
  next
    case (step \<rho> \<tau>)
    then show ?case using reserve_step_inv by blast
  qed
  then show ?thesis using assms(5) unfolding reserve_inv_def Let_def by (metis order_refl)
qed


section \<open>Samples\<close>

definition big_recharge :: HeldEvent where
  "big_recharge = \<lparr>he_telco = ''T'', he_source = ''wh:e1'', he_token = ''tok'', he_amount = 5000, he_cur = ''NGN'', he_occurred = 0,
     he_reason = HeldReasonPerEventClamp\<rparr>"

definition held_db :: db where
  "held_db = snd (WithTenantTx sample_env ''T'' (\<lambda>E s. Hold E big_recharge s) empty_db)"

definition requested_db :: db where
  "requested_db = snd (RequestRelease sample_env ''T'' ''hld_0'' ''alice'' ''checked with the telco'' held_db)"

definition claimed_db :: db where
  "claimed_db = snd (approve_claim sample_env ''T'' ''hld_0'' ''bob'' requested_db)"

definition parked_view :: HeldRow where
  "parked_view = \<lparr>hr_id = ''hld_0'', hr_telco = ''T'', hr_source = ''wh:e1'', hr_token = ''tok'', hr_amount = 5000, hr_cur = ''NGN'',
     hr_occurred = 0, hr_reason = HeldReasonPerEventClamp, hr_status = ''HELD'', hr_by = ''alice'', hr_approver = ''''\<rparr>"

definition released_db :: db where
  "released_db = snd (approve_ingest sample_env sample_cfg ''T'' '''' ''hld_0'' parked_view claimed_db)"


lemma sample_claim: "fst (approve_claim sample_env ''T'' ''hld_0'' ''bob'' requested_db) = Inr parked_view"
  and sample_booked: "map e_source (events released_db) = [''wh:e1'']"
  and sample_hold: "map (\<lambda>r. (hl_id r, hl_status r, hl_by r, hl_approver r)) (helds released_db)
    = [(''hld_0'', ''RELEASE_IN_PROGRESS'', Some ''alice'', Some ''bob'')]"
  by code_simp+


definition counted_db :: db where
  "counted_db = snd (WithTenantTx sample_env ''T'' (\<lambda>E s. ReserveDaily E ''T'' ''wh:a'' 300 1000 s) empty_db)"

lemma sample_reserve: "fst (WithTenantTx sample_env ''T'' (\<lambda>E s. ReserveDaily E ''T'' ''wh:a'' 300 1000 s) empty_db) = Inr (0, True, True)"
  and sample_over: "fst (WithTenantTx sample_env ''T'' (\<lambda>E s. ReserveDaily E ''T'' ''wh:b'' 701 1000 s) counted_db) = Inr (0, False, False)"
  and sample_counter: "counter_of counted_db ''T'' 0 = 300"
  by code_simp+

theorem daily_counter_exact_witness:
  "claims_of counted_db ''T'' 0 = 300 \<and> counter_of counted_db ''T'' 0 \<le> 1000
   \<and> fst (WithTenantTx sample_env ''T'' (\<lambda>E s. ReserveDaily E ''T'' ''wh:b'' 701 1000 s) counted_db) = Inr (0, False, False)"
proof -
  define s0 where "s0 = \<lparr>rs_db = empty_db, rs_fresh = []\<rparr>"
  have "WithTenantTx sample_env ''T'' (\<lambda>E s. ReserveDaily E ''T'' ''wh:a'' 300 1000 s) (rs_db s0) = (Inr (0, True, True), counted_db)"
    using sample_reserve by (simp add: s0_def counted_db_def prod_eq_iff)
  then have "reserve_step (\<lambda>_. 1000) s0 (s0\<lparr>rs_db := counted_db, rs_fresh := [(''T'', 0, 300, ''wh:a'')] @ rs_fresh s0\<rparr>)"
    using reserve_step.reserve [of 300 "\<lambda>_. 1000" "''T''" 1000] by fastforce
  then have "(reserve_step (\<lambda>_. 1000))\<^sup>*\<^sup>* s0 (s0\<lparr>rs_db := counted_db, rs_fresh := [(''T'', 0, 300, ''wh:a'')] @ rs_fresh s0\<rparr>)" ..
  moreover have "dailies (rs_db s0) = []" "reserveds (rs_db s0) = []" "rs_fresh s0 = []" by (simp_all add: s0_def empty_db_def)
  moreover have "\<forall>t :: string. 0 \<le> (1000 :: int)" by simp
  ultimately have "\<forall>t d. counter_of (rs_db (s0\<lparr>rs_db := counted_db, rs_fresh := [(''T'', 0, 300, ''wh:a'')] @ rs_fresh s0\<rparr>)) t d = claims_of counted_db t d
      \<and> counter_of counted_db t d \<le> 1000"
    using daily_counter_exact by fastforce
  then have "counter_of counted_db ''T'' 0 = claims_of counted_db ''T'' 0 \<and> counter_of counted_db ''T'' 0 \<le> 1000" by simp metis
  with sample_counter sample_over show ?thesis by simp
qed

end
