(* ===== verification/RechargeWebhook.thy ===== *)
theory RechargeWebhook
  imports RechargeHold ConfigSvc
begin

text \<open>
  The inbound recharge webhook: signatures and payloads of \<^verbatim>\<open>rechargewebhook\<close>, the registries of
  \<^verbatim>\<open>repo/webhookcreds.go\<close> and \<^verbatim>\<open>repo/reconarming.go\<close>, the validator of its governed configuration and the handler of
  \<^verbatim>\<open>handler/recharge_webhook.go\<close>, from the authentication chain to the response. Texts are byte lists. The MAC, the
  process environment and the two JSON decodings are parameters. The lemmas show which signature is accepted, what
  a request must carry before money can move, and that an event in the hold workflow is never booked by a delivery.
\<close>

section \<open>Signatures\<close>

definition canonicalDomain :: string where
  "canonicalDomain = ''bridgextra.recharge_webhook.v1''"

definition newline :: char where
  "newline = char_of (10 :: nat)"

definition CanonicalString :: "string \<Rightarrow> string \<Rightarrow> string \<Rightarrow> string" where
  "CanonicalString keyID timestamp rawBody = canonicalDomain @ [newline] @ keyID @ [newline] @ timestamp @ [newline] @ rawBody"

definition nibble :: "nat \<Rightarrow> char" where
  "nibble n = (if n < 10 then char_of (48 + n) else char_of (87 + n))"

definition is_hex :: "char \<Rightarrow> bool" where
  "is_hex c \<longleftrightarrow> (let n = (of_char c :: nat) in 48 \<le> n \<and> n \<le> 57 \<or> 97 \<le> n \<and> n \<le> 102)"

definition unnibble :: "char \<Rightarrow> nat" where
  "unnibble c = (let n = of_char c in if n \<le> 57 then n - 48 else n - 87)"

definition EncodeToString :: "string \<Rightarrow> string" where
  "EncodeToString bs = concat (map (\<lambda>b. [nibble (of_char b div 16), nibble (of_char b mod 16)]) bs)"

fun DecodeString :: "string \<Rightarrow> string" where
  "DecodeString (a # b # cs) = char_of (16 * unnibble a + unnibble b) # DecodeString cs"
| "DecodeString _ = []"

definition hexSig :: "string \<Rightarrow> bool" where
  "hexSig h \<longleftrightarrow> length h = 64 \<and> list_all is_hex h"

definition DecodeSig :: "string \<Rightarrow> err + string" where
  "DecodeSig header = (if \<not> hexSig header then Inl (Fmt ''signature must be 64 lowercase hex characters'') else Inr (DecodeString header))"

definition is_digit :: "char \<Rightarrow> bool" where
  "is_digit c \<longleftrightarrow> (let n = (of_char c :: nat) in 48 \<le> n \<and> n \<le> 57)"

definition digits_value :: "string \<Rightarrow> int" where
  "digits_value ds = foldl (\<lambda>v c. 10 * v + (of_char c - 48)) 0 ds"

text \<open>\<^verbatim>\<open>strconv.ParseInt(s, 10, 64)\<close>: an optional sign, digits, and the 64-bit range.\<close>

definition ParseInt :: "string \<Rightarrow> i64 option" where
  "ParseInt t =
     (let (neg, ds) = (case t of c # cs \<Rightarrow> if c = CHR ''-'' then (True, cs) else if c = CHR ''+'' then (False, cs) else (False, t)
                       | [] \<Rightarrow> (False, []));
          v = (if neg then - digits_value ds else digits_value ds)
      in if ds = [] \<or> \<not> list_all is_digit ds \<or> \<not> in_i64 v then None else Some (word_of_int v))"

definition tsSeconds :: "string \<Rightarrow> bool" where
  "tsSeconds h \<longleftrightarrow> (let ds = (case h of c # cs \<Rightarrow> if c = CHR ''-'' then cs else h | [] \<Rightarrow> []) in
     1 \<le> length ds \<and> length ds \<le> 19 \<and> list_all is_digit ds)"

definition ParseTimestamp :: "string \<Rightarrow> err + int" where
  "ParseTimestamp header =
     (if \<not> tsSeconds header then Inl (Fmt ''timestamp must be integer epoch seconds'')
      else case ParseInt header of None \<Rightarrow> Inl (Fmt ''value out of range'') | Some n \<Rightarrow> Inr (sint n * second))"

definition ErrBadSignature :: err where
  "ErrBadSignature = Fmt ''rechargewebhook: signature verification failed''"

text \<open>The MAC: a secret and a message to 32 bytes.\<close>

type_synonym mac = "string \<Rightarrow> string \<Rightarrow> string"

definition Verify :: "mac \<Rightarrow> string \<Rightarrow> string \<Rightarrow> string \<Rightarrow> string \<Rightarrow> string \<Rightarrow> err + unit" where
  "Verify hmac secret keyID timestamp rawBody sigHeader =
     (case DecodeSig sigHeader of
        Inl _ \<Rightarrow> Inl ErrBadSignature
      | Inr decoded \<Rightarrow> if hmac secret (CanonicalString keyID timestamp rawBody) \<noteq> decoded then Inl ErrBadSignature else Inr ())"

definition Sign :: "mac \<Rightarrow> string \<Rightarrow> string \<Rightarrow> string \<Rightarrow> string \<Rightarrow> string" where
  "Sign hmac secret keyID timestamp rawBody = EncodeToString (hmac secret (CanonicalString keyID timestamp rawBody))"

section \<open>Payloads\<close>

record RechargeEvent =
  EventID :: string
  ev_token :: string
  ev_amount :: i64
  ev_currency :: string
  ev_occurred :: int

text \<open>The payload as the strict decoder leaves it: the amount is the text of a JSON number, an absent time the zero time.\<close>

record WireEvent =
  we_id :: string
  we_token :: string
  we_amount :: string
  we_currency :: string
  we_occurred :: "int option"

text \<open>\<^verbatim>\<open>strings.TrimSpace(s) == ""\<close>: nothing but Unicode white space, in UTF-8.\<close>

fun blank_bytes :: "nat list \<Rightarrow> bool" where
  "blank_bytes [] = True"
| "blank_bytes (b # bs) =
     (if b \<in> {9, 10, 11, 12, 13, 32} then blank_bytes bs
      else (case bs of
        c # cs \<Rightarrow>
          if b = 194 \<and> c \<in> {133, 160} then blank_bytes cs
          else (case cs of
            d # ds \<Rightarrow>
              if (b, c, d) = (225, 154, 128) \<or> b = 226 \<and> c = 128 \<and> (128 \<le> d \<and> d \<le> 138 \<or> d \<in> {168, 169, 175})
                 \<or> (b, c, d) = (226, 129, 159) \<or> (b, c, d) = (227, 128, 128)
              then blank_bytes ds else False
          | [] \<Rightarrow> False)
      | [] \<Rightarrow> False))"

definition Map :: "(string \<Rightarrow> WireEvent option) \<Rightarrow> string \<Rightarrow> err + RechargeEvent" where
  "Map wire rawBody =
     (case wire rawBody of
        None \<Rightarrow> Inl (Fmt ''recharge payload'')
      | Some w \<Rightarrow>
          if blank_bytes (map of_char (we_id w)) then Inl (Fmt ''event_id is required'')
          else if we_token w = '''' then Inl (Fmt ''msisdn_token is required'')
          else case ParseInt (we_amount w) of
            None \<Rightarrow> Inl (Fmt ''amount_minor must be an integer in minor units'')
          | Some amt \<Rightarrow>
              if sint amt \<le> 0 then Inl (Fmt ''amount_minor must be > 0'')
              else if length (we_currency w) \<noteq> 3 then Inl (Fmt ''currency must be a 3-letter code'')
              else case we_occurred w of
                None \<Rightarrow> Inl (Fmt ''occurred_at is required'')
              | Some t \<Rightarrow> Inr \<lparr>EventID = we_id w, ev_token = we_token w, ev_amount = amt, ev_currency = we_currency w, ev_occurred = t\<rparr>)"


section \<open>Registries read before a tenant is known\<close>

record wcred_row =
  wc_key :: string
  wc_telco :: string
  wc_secret :: string
  wc_label :: string
  wc_status :: string

record arming_row =
  ar_telco :: string
  ar_layer :: string
  ar_last :: "int option"
  ar_fresh :: int

record armreq_row =
  aq_id :: string
  aq_telco :: string
  aq_layer :: string
  aq_state :: string
  aq_by :: string
  aq_approver :: "string option"
  aq_reason :: string
  aq_fresh :: int
  aq_reversal :: string
  aq_basis :: string

record registry =
  wcreds :: "wcred_row list"
  telcos :: "(string \<times> string) list"
  armings :: "arming_row list"
  synthetic :: "string list"
  armreqs :: "armreq_row list"

record WebhookCredential =
  KeyID :: string
  CredTelcoID :: string
  SecretEnv :: string

definition ResolveByKeyID :: "registry \<Rightarrow> string \<Rightarrow> err + WebhookCredential" where
  "ResolveByKeyID R k =
     (case List.find (\<lambda>w. wc_key w = k \<and> wc_status w = ''ACTIVE'' \<and> (\<exists>t \<in> set (telcos R). fst t = wc_telco w \<and> snd t = ''ACTIVE'')) (wcreds R) of
        None \<Rightarrow> Inl ErrNotFound
      | Some w \<Rightarrow> Inr \<lparr>KeyID = wc_key w, CredTelcoID = wc_telco w, SecretEnv = wc_secret w\<rparr>)"

definition Creds_Create :: "string \<Rightarrow> string \<Rightarrow> string \<Rightarrow> string \<Rightarrow> registry \<Rightarrow> err + registry" where
  "Creds_Create k telco secretEnv label R =
     (if k \<in> wc_key ` set (wcreds R) then Inl (Pg ''23505'' ''telco_webhook_credentials_pkey'')
      else if secretEnv \<in> wc_secret ` set (wcreds R) then Inl (Pg ''23505'' ''telco_webhook_credentials_secret_env_uq'')
      else Inr (R\<lparr>wcreds := wcreds R @ [\<lparr>wc_key = k, wc_telco = telco, wc_secret = secretEnv, wc_label = label, wc_status = ''ACTIVE''\<rparr>]\<rparr>))"

text \<open>The trigger of migration 0074 freezes a revoked credential.\<close>

definition Creds_Revoke :: "string \<Rightarrow> registry \<Rightarrow> err + registry" where
  "Creds_Revoke k R =
     (if \<exists>w \<in> set (wcreds R). wc_key w = k \<and> wc_status w = ''REVOKED'' then Inl (Pg ''P0001'' '''')
      else Inr (R\<lparr>wcreds := upd_where (\<lambda>w. wc_key w = k) (\<lambda>w. w\<lparr>wc_status := ''REVOKED''\<rparr>) (wcreds R)\<rparr>))"

definition ReconLayerRecovery :: string where
  "ReconLayerRecovery = ''RECOVERY''"

definition IsLayerLive :: "int \<Rightarrow> string \<Rightarrow> string \<Rightarrow> registry \<Rightarrow> bool" where
  "IsLayerLive t telco layer R \<longleftrightarrow> (\<exists>a \<in> set (armings R). ar_telco a = telco \<and> ar_layer a = layer
     \<and> (case ar_last a of None \<Rightarrow> False | Some l \<Rightarrow> l \<ge> t - ar_fresh a * second))"

definition IsLayerArmed :: "string \<Rightarrow> string \<Rightarrow> registry \<Rightarrow> bool" where
  "IsLayerArmed telco layer R \<longleftrightarrow> (\<exists>a \<in> set (armings R). ar_telco a = telco \<and> ar_layer a = layer)"

definition arming_ok :: "int \<Rightarrow> bool" where
  "arming_ok secs \<longleftrightarrow> 3600 \<le> secs \<and> secs \<le> 604800"

definition AdvanceFreshness :: "int \<Rightarrow> string \<Rightarrow> string \<Rightarrow> int \<Rightarrow> registry \<Rightarrow> err + bool \<times> registry" where
  "AdvanceFreshness t telco layer secs R =
     (let p = (\<lambda>a. ar_telco a = telco \<and> ar_layer a = layer) in
      if filter p (armings R) \<noteq> [] \<and> \<not> arming_ok secs then Inl (Pg ''23514'' ''recon_layer_arming_arm_freshness_max_seconds_check'')
      else Inr (length (filter p (armings R)) = 1,
        R\<lparr>armings := upd_where p (\<lambda>a. a\<lparr>ar_last := Some t, ar_fresh := secs\<rparr>) (armings R)\<rparr>))"

text \<open>Arming never makes a layer live: the first confirmed reconciliation does. The default window is two days.\<close>

definition SetLiveArmed :: "string \<Rightarrow> string \<Rightarrow> int \<Rightarrow> registry \<Rightarrow> err + registry" where
  "SetLiveArmed telco layer secs R =
     (if \<not> arming_ok secs then Inl (Pg ''23514'' ''recon_layer_arming_arm_freshness_max_seconds_check'')
      else if IsLayerArmed telco layer R then Inr R
      else Inr (R\<lparr>armings := armings R @ [\<lparr>ar_telco = telco, ar_layer = layer, ar_last = None, ar_fresh = secs\<rparr>]\<rparr>))"

definition SetLive :: "string \<Rightarrow> string \<Rightarrow> registry \<Rightarrow> err + registry" where
  "SetLive telco layer R = SetLiveArmed telco layer 172800 R"

definition SetDown :: "string \<Rightarrow> string \<Rightarrow> registry \<Rightarrow> registry" where
  "SetDown telco layer R = R\<lparr>armings := filter (\<lambda>a. \<not> (ar_telco a = telco \<and> ar_layer a = layer)) (armings R)\<rparr>"

section \<open>The governed feed\<close>

record RechargeFeedDoc =
  fd_enabled :: "bool option"
  fd_transport :: "string option"
  fd_auth :: "string option"
  fd_key :: "string option"
  fd_sig :: "string option"
  fd_ts :: "string option"
  fd_window :: "int option"
  fd_skew :: "int option"
  fd_body :: "int option"
  fd_cur :: "string option"
  fd_event :: "int option"
  fd_day :: "int option"
  fd_backdate :: "int option"
  fd_future :: "int option"
  fd_silence :: "int option"

text \<open>A required integer within bounds.\<close>

definition within :: "int \<Rightarrow> int \<Rightarrow> int option \<Rightarrow> bool" where
  "within lo hi v \<longleftrightarrow> (case v of None \<Rightarrow> False | Some n \<Rightarrow> lo \<le> n \<and> n \<le> hi)"

definition isISO4217 :: "string \<Rightarrow> bool" where
  "isISO4217 c \<longleftrightarrow> length c = 3 \<and> list_all (\<lambda>r. CHR ''A'' \<le> r \<and> r \<le> CHR ''Z'') c"

definition validateRechargeFeed :: "RechargeFeedDoc \<Rightarrow> err + unit" where
  "validateRechargeFeed v =
     (if fd_enabled v = None then Inl (Fmt ''enabled required'')
      else if fd_transport v \<noteq> Some ''webhook_push'' then Inl (Fmt ''transport must be webhook_push'')
      else if fd_auth v \<noteq> Some ''hmac_sha256'' then Inl (Fmt ''auth must be hmac_sha256'')
      else if list_ex (\<lambda>h. h = None \<or> h = Some '''') [fd_key v, fd_sig v, fd_ts v] then Inl (Fmt ''header name is required'')
      else if \<not> within 30 300 (fd_window v) then Inl (Fmt ''replay_window_seconds must be 30..300'')
      else if \<not> within 0 300 (fd_skew v) then Inl (Fmt ''future_skew_seconds must be 0..300'')
      else if \<not> within 1024 10485760 (fd_body v) then Inl (Fmt ''max_body_bytes must be 1024..10485760'')
      else if (case fd_cur v of None \<Rightarrow> True | Some c \<Rightarrow> \<not> isISO4217 c) then Inl (Fmt ''expected_currency must be a 3-letter ISO-4217 code'')
      else if \<not> within 1 922000000000000 (fd_event v) then Inl (Fmt ''per_event_amount_max_minor must be in (0, 922e12]'')
      else if \<not> within 1 922000000000000 (fd_day v) then Inl (Fmt ''per_telco_daily_ceiling_minor must be in (0, 922e12]'')
      else if the (fd_day v) < the (fd_event v) then Inl (Fmt ''per_telco_daily_ceiling_minor must be >= per_event_amount_max_minor'')
      else if \<not> within 0 7776000 (fd_backdate v) then Inl (Fmt ''recovery_max_backdate_seconds must be 0..7776000'')
      else if \<not> within 0 300 (fd_future v) then Inl (Fmt ''recovery_max_future_skew_seconds must be 0..300'')
      else if (case fd_silence v of None \<Rightarrow> False | Some n \<Rightarrow> n < 300 \<or> n > 86400) then Inl (Fmt ''silence_alarm_seconds, when set, must be 300..86400'')
      else Inr ())"

record feedCfg =
  fc_enabled :: bool
  fc_transport :: string
  fc_auth :: string
  KeyIDHeader :: string
  SignatureHeader :: string
  TimestampHeader :: string
  ReplayWindowSeconds :: int
  FutureSkewSeconds :: int
  MaxBodyBytes :: int
  ExpectedCurrency :: string
  PerEventAmountMaxMinor :: i64
  PerTelcoDailyCeilingMinor :: i64
  RecoveryMaxBackdateSeconds :: int
  RecoveryMaxFutureSkewSeconds :: int

section \<open>The authentication chain\<close>

text \<open>
  What the handler takes from outside the repository: the MAC, the process environment, the decoding of a feed
  configuration and of a payload.
\<close>

record webhook_env =
  wh_mac :: mac
  wh_getenv :: "string \<Rightarrow> string"
  wh_feed :: "json \<Rightarrow> feedCfg option"
  wh_wire :: "string \<Rightarrow> WireEvent option"

text \<open>A request: headers, the telco of the path, the announced length, the body (absent when reading it fails) and the peer.\<close>

record HttpRequest =
  rq_header :: "string \<Rightarrow> string"
  rq_telco :: string
  rq_length :: int
  rq_body :: "string option"
  rq_addr :: string

type_synonym response = "int \<times> json"

definition writeErr :: "int \<Rightarrow> string \<Rightarrow> string \<Rightarrow> response" where
  "writeErr status code msg = (status, JObj [(''error_code'', JStr code), (''message'', JStr msg), (''retryable'', JBool False)])"

definition writeJSON :: "int \<Rightarrow> (string \<times> json) list \<Rightarrow> response" where
  "writeJSON status kvs = (status, JObj kvs)"

definition unauthenticated :: response where
  "unauthenticated = writeErr 401 ''AUTH_INVALID_CLIENT'' ''unauthenticated''"

text \<open>An audit row outside any tenant; its own failure is ignored.\<close>

definition auditPlatform :: "env \<Rightarrow> string \<Rightarrow> string \<Rightarrow> string \<Rightarrow> string \<Rightarrow> db \<Rightarrow> db" where
  "auditPlatform E action actor target reason s =
     (let (_, s) = NewID E ''aud'' s in
      case Audit_Insert E \<lparr>au_telco = '''', au_actor = actor, au_action = action, au_ttype = ''recharge_webhook'',
             au_target = target, au_reason = reason\<rparr> s of Inl _ \<Rightarrow> s | Inr s' \<Rightarrow> s')"

record verifiedWebhook =
  decodedMAC :: string
  rawBody :: string
  vw_cfg :: feedCfg

definition readFeed :: "env \<Rightarrow> webhook_env \<Rightarrow> string \<Rightarrow> db \<Rightarrow> feedCfg option" where
  "readFeed E W scope s =
     (case ActiveAt ''telco.recharge_feed'' scope (now E) s of Inl _ \<Rightarrow> None | Inr cv \<Rightarrow> wh_feed W (cv_content cv))"

text \<open>The checks after the kill-switch: secret, size, MAC, timestamp, freshness.\<close>

definition verify_request :: "env \<Rightarrow> webhook_env \<Rightarrow> WebhookCredential \<Rightarrow> string \<Rightarrow> feedCfg \<Rightarrow> HttpRequest \<Rightarrow> response + verifiedWebhook" where
  "verify_request E W cred keyID cfg r =
     (let secret = wh_getenv W (SecretEnv cred) in
      if secret = '''' then Inl unauthenticated
      else if rq_length r < 0 \<or> rq_length r > MaxBodyBytes cfg then Inl (writeErr 413 ''RECHARGE_BODY_TOO_LARGE'' ''missing or oversized body'')
      else case rq_body r of
        None \<Rightarrow> Inl (writeErr 413 ''RECHARGE_BODY_TOO_LARGE'' ''body too large'')
      | Some b \<Rightarrow>
          if int (length b) > MaxBodyBytes cfg then Inl (writeErr 413 ''RECHARGE_BODY_TOO_LARGE'' ''body too large'')
          else
            let tsHeader = rq_header r (TimestampHeader cfg); sigHeader = rq_header r (SignatureHeader cfg) in
            (case Verify (wh_mac W) secret keyID tsHeader b sigHeader of
               Inl _ \<Rightarrow> Inl unauthenticated
             | Inr _ \<Rightarrow>
                 (case ParseTimestamp tsHeader of
                    Inl _ \<Rightarrow> Inl unauthenticated
                  | Inr ts \<Rightarrow>
                      let delta = now E - ts in
                      if delta > ReplayWindowSeconds cfg * second \<or> delta < - (FutureSkewSeconds cfg * second)
                      then Inl (writeErr 401 ''RECHARGE_STALE'' ''timestamp outside the accepted window'')
                      else case DecodeSig sigHeader of
                        Inl _ \<Rightarrow> Inl unauthenticated
                      | Inr decoded \<Rightarrow> Inr \<lparr>decodedMAC = decoded, rawBody = b, vw_cfg = cfg\<rparr>)))"

definition webhookAuth ::
  "env \<Rightarrow> webhook_env \<Rightarrow> registry \<Rightarrow> HttpRequest \<Rightarrow> db \<Rightarrow> (response + string \<times> verifiedWebhook) \<times> db" where
  "webhookAuth E W R r s =
     (case readFeed E W ScopeGlobal s of
        None \<Rightarrow> (Inl (writeErr 503 ''SYSTEM_TEMPORARILY_UNAVAILABLE'' ''feed unavailable''), s)
      | Some gcfg \<Rightarrow>
          let keyID = rq_header r (KeyIDHeader gcfg) in
          (case ResolveByKeyID R keyID of
             Inl _ \<Rightarrow> (Inl unauthenticated, s)
           | Inr cred \<Rightarrow>
               let telco = CredTelcoID cred; scope = ''telco:'' @ telco in
               if rq_telco r \<noteq> '''' \<and> rq_telco r \<noteq> telco
               then (Inl (writeErr 403 ''TENANT_CONTEXT_MISMATCH'' ''tenant context mismatch''),
                     auditPlatform E ''TENANT_CONTEXT_MISMATCH'' (''credential:'' @ KeyID cred) (rq_telco r) ''path telco does not match credential'' s)
               else (case ActiveAt ''telco.recharge_feed'' scope (now E) s of
                 Inl _ \<Rightarrow> (Inl (writeErr 403 ''RECHARGE_FEED_DISABLED'' ''feed not enabled''),
                            auditPlatform E ''RECHARGE_FEED_DENIED'' scope telco ''no telco-scope feed config'' s)
               | Inr tcv \<Rightarrow>
                   if cv_scope tcv \<noteq> scope then (Inl (writeErr 403 ''RECHARGE_FEED_DISABLED'' ''feed not enabled''),
                            auditPlatform E ''RECHARGE_FEED_DENIED'' scope telco ''no telco-scope feed config'' s)
                   else (case wh_feed W (cv_content tcv) of
                     None \<Rightarrow> (Inl (writeErr 503 ''SYSTEM_TEMPORARILY_UNAVAILABLE'' ''feed unavailable''), s)
                   | Some tcfg \<Rightarrow>
                       if \<not> fc_enabled gcfg \<or> \<not> fc_enabled tcfg
                       then (Inl (writeErr 403 ''RECHARGE_FEED_DISABLED'' ''feed not enabled''),
                             auditPlatform E ''RECHARGE_FEED_DENIED'' scope telco ''feed disabled'' s)
                       else if fc_transport tcfg \<noteq> ''webhook_push'' \<or> fc_auth tcfg \<noteq> ''hmac_sha256''
                       then (Inl (writeErr 503 ''SYSTEM_TEMPORARILY_UNAVAILABLE'' ''feed transport/auth mismatch''), s)
                       else if \<not> IsLayerLive (now E) telco ReconLayerRecovery R
                       then (Inl (writeErr 403 ''RECHARGE_RECON_NOT_LIVE'' ''recovery reconciliation is not live for this telco''),
                             auditPlatform E ''RECHARGE_FEED_DENIED'' scope telco ''recovery recon layer not live'' s)
                       else (case verify_request E W cred keyID tcfg r of Inl resp \<Rightarrow> (Inl resp, s) | Inr v \<Rightarrow> (Inr (telco, v), s))))))"


section \<open>The delivery\<close>

text \<open>What the first transaction leaves in the handler's variables.\<close>

record admission =
  heldReason :: string
  priorDisposition :: string
  reservedDay :: int
  ad_reserved :: bool
  reservedFresh :: bool

definition no_admission :: admission where
  "no_admission = \<lparr>heldReason = '''', priorDisposition = '''', reservedDay = 0, ad_reserved = False, reservedFresh = False\<rparr>"

definition admit_tx :: "string \<Rightarrow> string \<Rightarrow> RechargeEvent \<Rightarrow> verifiedWebhook \<Rightarrow> env \<Rightarrow> db \<Rightarrow> err + admission \<times> db" where
  "admit_tx telco src ev v E s =
     (case DispositionBySourceEvent E telco src s of
        Some st \<Rightarrow> Inr (no_admission\<lparr>priorDisposition := st\<rparr>, s)
      | None \<Rightarrow>
          andThen (PutIfAbsent E \<lparr>i_telco = telco, i_op = ''recharge.webhook'', i_key = ''wh:'' @ EncodeToString (decodedMAC v),
              i_hash = src, i_status = 0, i_body = JObj [], i_terminal = False\<rparr> s) (\<lambda>(_, s).
          andThen (if sint (ev_amount ev) > sint (PerEventAmountMaxMinor (vw_cfg v))
                   then Inr (no_admission\<lparr>heldReason := HeldReasonPerEventClamp\<rparr>, s)
                   else andThen (ReserveDaily E telco src (ev_amount ev) (PerTelcoDailyCeilingMinor (vw_cfg v)) s) (\<lambda>((d, ok, fresh), s).
                     Inr (if ok then no_admission\<lparr>reservedDay := d, ad_reserved := True, reservedFresh := fresh\<rparr>
                          else no_admission\<lparr>heldReason := HeldReasonDailyCeiling\<rparr>, s))) (\<lambda>(a, s).
          if heldReason a \<noteq> '''' then
            andThen (Hold E \<lparr>he_telco = telco, he_source = src, he_token = ev_token ev, he_amount = ev_amount ev,
              he_cur = ev_currency ev, he_occurred = ev_occurred ev, he_reason = heldReason a\<rparr> s) (\<lambda>(_, s). Inr (a, s))
          else Inr (a, s))))"

text \<open>The event of a verified request: mapping, currency, the occurred-at clamp and the amount.\<close>

definition webhook_event :: "env \<Rightarrow> webhook_env \<Rightarrow> string \<Rightarrow> verifiedWebhook \<Rightarrow> db \<Rightarrow> (response + RechargeEvent \<times> money) \<times> db" where
  "webhook_event E W telco v s =
     (case Map (wh_wire W) (rawBody v) of
        Inl _ \<Rightarrow> (Inl (writeErr 422 ''RECHARGE_INVALID_EVENT'' ''invalid recharge event''), s)
      | Inr ev \<Rightarrow>
          if ev_currency ev \<noteq> ExpectedCurrency (vw_cfg v)
          then (Inl (writeErr 422 ''RECHARGE_INVALID_EVENT'' ''unexpected currency''), s)
          else
            let age = now E - ev_occurred ev in
            if age > RecoveryMaxBackdateSeconds (vw_cfg v) * second \<or> age < - (RecoveryMaxFutureSkewSeconds (vw_cfg v) * second)
            then (Inl (writeErr 422 ''RECHARGE_OCCURRED_AT_OUT_OF_RANGE'' ''recharge occurred_at is outside the accepted range''),
                  auditPlatform E ''RECHARGE_FEED_DENIED'' (''telco:'' @ telco) telco ''occurred_at outside clamp range'' s)
            else case NewMoney (ev_amount ev) (ev_currency ev) of
              Inl _ \<Rightarrow> (Inl (writeErr 422 ''RECHARGE_INVALID_EVENT'' ''unsupported currency''), s)
            | Inr amt \<Rightarrow> (Inr (ev, amt), s))"

text \<open>The booking of an admitted event and the return of a fresh reservation that it did not use.\<close>

definition webhook_book ::
  "env \<Rightarrow> recovery_cfg \<Rightarrow> string \<Rightarrow> string \<Rightarrow> string \<Rightarrow> RechargeEvent \<Rightarrow> money \<Rightarrow> db \<Rightarrow> (err + IngestResult) \<times> db" where
  "webhook_book E C telco corr src ev amt s =
     (let (c, s) = CorrelationFrom E corr s in
      Ingest E C telco \<lparr>ic_source = src, ic_token = ev_token ev, ic_amount = amt, ic_occurred = ev_occurred ev, ic_corr = c\<rparr> s)"

definition webhook_release :: "env \<Rightarrow> string \<Rightarrow> string \<Rightarrow> RechargeEvent \<Rightarrow> admission \<Rightarrow> err + IngestResult \<Rightarrow> db \<Rightarrow> db" where
  "webhook_release E telco src ev a out s =
     (if ad_reserved a \<and> reservedFresh a \<and> (case out of Inl _ \<Rightarrow> True | Inr _ \<Rightarrow> False)
      then snd (WithTenantTx E telco (\<lambda>E s. andThen (ReleaseDaily E telco (reservedDay a) (ev_amount ev) src s) (\<lambda>s. Inr ((), s))) s)
      else s)"

definition webhook_answer :: "err + IngestResult \<Rightarrow> response" where
  "webhook_answer out =
     (case out of
        Inl e \<Rightarrow> if e = ErrDivergentRecovery then writeErr 409 ''DIVERGENT_DUPLICATE'' ''source event id reused with a different payload''
                 else writeErr 503 ''SYSTEM_TEMPORARILY_UNAVAILABLE'' ''temporary error''
      | Inr res \<Rightarrow> writeJSON 200 [(''recovery_event_id'', JStr (ir_event res)), (''state'', JStr (ir_state res)),
          (''advance_closed'', JBool (ir_closed res)), (''replayed'', JBool (ir_replayed res))])"

text \<open>The handler; \<open>others1\<close> and \<open>others2\<close> are what the rest of the system does between its transactions.\<close>

definition webhook_ingest ::
  "env \<Rightarrow> webhook_env \<Rightarrow> recovery_cfg \<Rightarrow> (db \<Rightarrow> db) \<Rightarrow> (db \<Rightarrow> db) \<Rightarrow> string \<Rightarrow> string \<Rightarrow> verifiedWebhook \<Rightarrow> db \<Rightarrow> response \<times> db" where
  "webhook_ingest E W C others1 others2 telco corr v s =
     (if telco = '''' then (writeErr 500 ''SYSTEM_TEMPORARILY_UNAVAILABLE'' ''internal error'', s)
      else (case webhook_event E W telco v s of
        (Inl resp, s) \<Rightarrow> (resp, s)
      | (Inr (ev, amt), s) \<Rightarrow>
          let src = ''wh:'' @ EventID ev in
          (case WithTenantTx E telco (admit_tx telco src ev v) s of
             (Inl _, s) \<Rightarrow> (writeErr 503 ''SYSTEM_TEMPORARILY_UNAVAILABLE'' ''temporary error'', s)
           | (Inr a, s) \<Rightarrow>
               if priorDisposition a \<noteq> '''' then
                 (writeJSON (if priorDisposition a = ''RELEASED'' then 200 else 202)
                    [(''status'', JStr (priorDisposition a)), (''source_event_id'', JStr src)], s)
               else if heldReason a \<noteq> '''' then
                 (writeJSON 202 [(''status'', JStr ''HELD''), (''reason'', JStr (heldReason a))],
                  auditPlatform E ''RECHARGE_EVENT_HELD'' (''telco:'' @ telco) telco (heldReason a) s)
               else
                 (case webhook_book E C telco corr src ev amt (others1 s) of
                    (out, s) \<Rightarrow> (webhook_answer out, webhook_release E telco src ev a out (others2 s))))))"

definition recharge_webhook ::
  "env \<Rightarrow> webhook_env \<Rightarrow> recovery_cfg \<Rightarrow> registry \<Rightarrow> (db \<Rightarrow> db) \<Rightarrow> (db \<Rightarrow> db) \<Rightarrow> string \<Rightarrow> HttpRequest \<Rightarrow> db \<Rightarrow> response \<times> db" where
  "recharge_webhook E W C R others1 others2 corr r s =
     (case webhookAuth E W R r s of
        (Inl resp, s) \<Rightarrow> (resp, s)
      | (Inr (telco, v), s) \<Rightarrow> webhook_ingest E W C others1 others2 telco corr v s)"


section \<open>Which signature is accepted\<close>

lemma high_nibble [simp]: "of_char c div (16 :: nat) < 16"
  by (intro less_mult_imp_div_less) (use nat_of_char_less_256 [of c] in linarith)

lemma unnibble_nibble [simp]: "n < 16 \<Longrightarrow> unnibble (nibble n) = n"
  by (auto simp: unnibble_def nibble_def Let_def)

lemma is_hex_nibble [simp]: "n < 16 \<Longrightarrow> is_hex (nibble n)"
  by (auto simp: is_hex_def nibble_def Let_def)

lemma is_hex_cases:
  assumes "is_hex c"
  obtains n where "n < 16" "c = nibble n"
proof
  show "unnibble c < 16"
    using assms by (auto simp: is_hex_def unnibble_def Let_def)
  have "(of_char c :: nat) = of_char (nibble (unnibble c))"
    using assms by (auto simp: is_hex_def unnibble_def nibble_def Let_def)
  then show "c = nibble (unnibble c)"
    by (simp only: of_char_eq_iff)
qed

lemma length_Encode [simp]: "length (EncodeToString bs) = 2 * length bs"
  by (induction bs) (simp_all add: EncodeToString_def)

lemma is_hex_Encode: "list_all is_hex (EncodeToString bs)"
  by (induction bs) (simp_all add: EncodeToString_def)

lemma Decode_Encode [simp]: "DecodeString (EncodeToString bs) = bs"
  by (induction bs) (simp_all add: EncodeToString_def)

lemma Encode_Decode:
  "list_all is_hex h \<Longrightarrow> even (length h) \<Longrightarrow> EncodeToString (DecodeString h) = h"
proof (induction h rule: DecodeString.induct)
  case (1 a b cs)
  obtain m n where "m < 16" "a = nibble m" "n < 16" "b = nibble n"
    using 1(2) by (auto elim!: is_hex_cases)
  then show ?case
    using 1 by (simp add: EncodeToString_def)
qed (simp_all add: EncodeToString_def)

lemma DecodeSig_iff: "DecodeSig h = Inr d \<longleftrightarrow> length d = 32 \<and> h = EncodeToString d"
proof
  assume "DecodeSig h = Inr d"
  then have h: "length h = 64" "list_all is_hex h" "d = DecodeString h"
    by (auto simp: DecodeSig_def hexSig_def split: if_splits)
  then have e: "h = EncodeToString d"
    by (simp add: Encode_Decode)
  with h(1) have "2 * length d = 64"
    by (metis length_Encode)
  with e show "length d = 32 \<and> h = EncodeToString d"
    by simp
next
  assume "length d = 32 \<and> h = EncodeToString d"
  then show "DecodeSig h = Inr d"
    by (simp add: DecodeSig_def hexSig_def is_hex_Encode)
qed

lemma Verify_mac:
  "Verify hmac secret k t b h = Inr () \<longleftrightarrow> length (hmac secret (CanonicalString k t b)) = 32 \<and> h = Sign hmac secret k t b"
proof -
  have "Verify hmac secret k t b h = Inr () \<longleftrightarrow> DecodeSig h = Inr (hmac secret (CanonicalString k t b))"
    by (auto simp: Verify_def split: sum.splits if_splits)
  then show ?thesis
    by (simp add: DecodeSig_iff Sign_def)
qed

lemma line_unique:
  assumes "x @ newline # u = y @ newline # w" "newline \<notin> set x" "newline \<notin> set y"
  shows "x = y \<and> u = w"
  using assms
proof (induction x arbitrary: y)
  case Nil
  then show ?case by (cases y) auto
next
  case (Cons a x)
  then show ?case by (cases y) auto
qed

lemma CanonicalString_inject:
  assumes "CanonicalString k t b = CanonicalString k' t' b'"
    and "newline \<notin> set k" "newline \<notin> set t" "newline \<notin> set k'" "newline \<notin> set t'"
  shows "k = k' \<and> t = t' \<and> b = b'"
  using assms by (auto simp: CanonicalString_def dest!: line_unique)

text \<open>C33: A signature header is accepted exactly when it is the one \<^verbatim>\<open>Sign\<close> makes with the same secret, key,
  timestamp and body, in that one spelling; every other header gets the one verification error. A signature made for
  one request is accepted for another only if the MAC itself collides on the two canonical strings: no two requests share one.\<close>

theorem Verify_iff_Sign:
  assumes "\<And>m. length (hmac secret m) = 32" "newline \<notin> set (keyID @ ts @ keyID' @ ts')"
  shows "Verify hmac secret keyID ts body h = (if h = Sign hmac secret keyID ts body then Inr () else Inl ErrBadSignature)
    \<and> (Verify hmac secret keyID' ts' body' (Sign hmac secret keyID ts body) = Inr () \<longleftrightarrow>
        (keyID', ts', body') = (keyID, ts, body)
        \<or> CanonicalString keyID' ts' body' \<noteq> CanonicalString keyID ts body
          \<and> hmac secret (CanonicalString keyID' ts' body') = hmac secret (CanonicalString keyID ts body))"
proof
  show "Verify hmac secret keyID ts body h = (if h = Sign hmac secret keyID ts body then Inr () else Inl ErrBadSignature)"
    using Verify_mac [of hmac secret keyID ts body h] assms(1)
    by (auto simp: Verify_def split: sum.splits if_splits)
  have "Sign hmac secret keyID ts body = Sign hmac secret keyID' ts' body' \<longleftrightarrow>
      hmac secret (CanonicalString keyID' ts' body') = hmac secret (CanonicalString keyID ts body)"
    unfolding Sign_def by (metis Decode_Encode)
  moreover have "CanonicalString keyID' ts' body' = CanonicalString keyID ts body \<Longrightarrow> (keyID', ts', body') = (keyID, ts, body)"
    using CanonicalString_inject [of keyID' ts' body' keyID ts body] assms(2) by simp
  ultimately show "Verify hmac secret keyID' ts' body' (Sign hmac secret keyID ts body) = Inr () \<longleftrightarrow>
        (keyID', ts', body') = (keyID, ts, body)
        \<or> CanonicalString keyID' ts' body' \<noteq> CanonicalString keyID ts body
          \<and> hmac secret (CanonicalString keyID' ts' body') = hmac secret (CanonicalString keyID ts body)"
    using Verify_mac [of hmac secret keyID' ts' body' "Sign hmac secret keyID ts body"] assms(1) by auto
qed

section \<open>What a request must carry\<close>

text \<open>The states that differ from \<open>s\<close> in nothing but the audit trail.\<close>

definition only_audits :: "db \<Rightarrow> db \<Rightarrow> bool" where
  "only_audits s s' \<longleftrightarrow> (\<exists>rows n. s' = s\<lparr>next_id := n, audit := audit s @ rows\<rparr>)"

lemma only_audits_refl [simp]: "only_audits s s"
  unfolding only_audits_def by (intro exI [of _ "[]"] exI [of _ "next_id s"]) simp

lemma only_audits_auditPlatform [simp]: "only_audits s (auditPlatform E act actor target why s)"
  by (auto simp: auditPlatform_def NewID_def Audit_Insert_def only_audits_def)

definition authentic :: "env \<Rightarrow> webhook_env \<Rightarrow> registry \<Rightarrow> HttpRequest \<Rightarrow> db \<Rightarrow> string \<Rightarrow> verifiedWebhook \<Rightarrow> bool" where
  "authentic E W R r s telco v \<longleftrightarrow>
     (\<exists>w \<in> set (wcreds R). wc_status w = ''ACTIVE'' \<and> wc_telco w = telco \<and> (telco, ''ACTIVE'') \<in> set (telcos R)
        \<and> rq_telco r \<in> {'''', telco}
        \<and> rq_header r (SignatureHeader (vw_cfg v))
            = Sign (wh_mac W) (wh_getenv W (wc_secret w)) (wc_key w) (rq_header r (TimestampHeader (vw_cfg v))) (rawBody v)
        \<and> wh_getenv W (wc_secret w) \<noteq> '''')
     \<and> (\<exists>g. readFeed E W ScopeGlobal s = Some g \<and> fc_enabled g)
     \<and> (\<exists>c \<in> set (configs s). covers ''telco.recharge_feed'' (''telco:'' @ telco) (now E) c \<and> wh_feed W (cv_content c) = Some (vw_cfg v))
     \<and> fc_enabled (vw_cfg v) \<and> IsLayerLive (now E) telco ReconLayerRecovery R
     \<and> rq_body r = Some (rawBody v) \<and> int (length (rawBody v)) \<le> MaxBodyBytes (vw_cfg v)
     \<and> (\<exists>ts. ParseTimestamp (rq_header r (TimestampHeader (vw_cfg v))) = Inr ts
          \<and> now E - ts \<le> ReplayWindowSeconds (vw_cfg v) * second \<and> ts - now E \<le> FutureSkewSeconds (vw_cfg v) * second)"

lemma verify_request_Inr:
  assumes "verify_request E W cred keyID cfg r = Inr v"
  shows "vw_cfg v = cfg \<and> wh_getenv W (SecretEnv cred) \<noteq> '''' \<and> rq_body r = Some (rawBody v) \<and> int (length (rawBody v)) \<le> MaxBodyBytes cfg
     \<and> rq_header r (SignatureHeader cfg) = Sign (wh_mac W) (wh_getenv W (SecretEnv cred)) keyID (rq_header r (TimestampHeader cfg)) (rawBody v)
     \<and> (\<exists>ts. ParseTimestamp (rq_header r (TimestampHeader cfg)) = Inr ts
          \<and> now E - ts \<le> ReplayWindowSeconds cfg * second \<and> ts - now E \<le> FutureSkewSeconds cfg * second)"
  using assms by (auto simp: verify_request_def Let_def Verify_mac split: if_splits option.splits sum.splits)

lemma ResolveByKeyID_Inr:
  assumes "ResolveByKeyID R k = Inr cred"
  shows "\<exists>w \<in> set (wcreds R). wc_status w = ''ACTIVE'' \<and> wc_key w = k \<and> wc_telco w = CredTelcoID cred
     \<and> wc_secret w = SecretEnv cred \<and> (CredTelcoID cred, ''ACTIVE'') \<in> set (telcos R)"
  using assms by (auto simp: ResolveByKeyID_def find_Some_iff split: option.splits)


lemma feed_of_scope:
  assumes "ActiveAt d (''telco:'' @ telco) t s = Inr c" "config_row.cv_scope c = ''telco:'' @ telco"
  shows "c \<in> set (configs s) \<and> covers d (''telco:'' @ telco) t c"
  using ActiveAt_Inr [OF assms(1)] assms(2) by (auto simp: covers_def ScopeGlobal_def)

lemma webhookAuth_Inr:
  assumes "webhookAuth E W R r s = (Inr (telco, v), s')"
  shows "s' = s \<and> authentic E W R r s telco v"
proof -
  from assms obtain gcfg cred c where s': "s' = s" and g: "readFeed E W ScopeGlobal s = Some gcfg" "fc_enabled gcfg"
    and cred: "ResolveByKeyID R (rq_header r (KeyIDHeader gcfg)) = Inr cred" "CredTelcoID cred = telco" "rq_telco r \<in> {'''', telco}"
    and c: "ActiveAt ''telco.recharge_feed'' (''telco:'' @ telco) (now E) s = Inr c" "config_row.cv_scope c = ''telco:'' @ telco"
    and live: "IsLayerLive (now E) telco ReconLayerRecovery R"
    and v: "\<exists>cfg. wh_feed W (cv_content c) = Some cfg \<and> fc_enabled cfg
        \<and> verify_request E W cred (rq_header r (KeyIDHeader gcfg)) cfg r = Inr v"
    by (auto simp: webhookAuth_def Let_def split: option.splits sum.splits if_splits)
  from v obtain cfg where cfg: "wh_feed W (cv_content c) = Some cfg" "fc_enabled cfg"
    and v: "verify_request E W cred (rq_header r (KeyIDHeader gcfg)) cfg r = Inr v" by blast
  note vr = verify_request_Inr [OF v]
  obtain w where "w \<in> set (wcreds R)" "wc_status w = ''ACTIVE''" "wc_telco w = telco" "(telco, ''ACTIVE'') \<in> set (telcos R)"
    "wc_key w = rq_header r (KeyIDHeader gcfg)" "wc_secret w = SecretEnv cred"
    using ResolveByKeyID_Inr [OF cred(1)] cred(2) by blast
  then have "authentic E W R r s telco v"
    unfolding authentic_def using vr g cfg(1,2) live cred(3) feed_of_scope [OF c] by metis
  with s' show ?thesis by blast
qed

lemma verify_request_Inl: "verify_request E W cred k cfg r = Inl resp \<Longrightarrow> fst resp \<in> {401, 413}"
  by (auto simp: verify_request_def Let_def unauthenticated_def writeErr_def split: option.splits sum.splits if_splits)

lemma webhookAuth_cases:
  "case webhookAuth E W R r s of (x, s') \<Rightarrow> only_audits s s' \<and> (\<forall>resp. x = Inl resp \<longrightarrow> fst resp \<in> {401, 403, 413, 503})"
  unfolding webhookAuth_def Let_def
  by (simp add: unauthenticated_def writeErr_def split: option.split sum.split) (use verify_request_Inl in fastforce)

lemma webhookAuth_Inl:
  "webhookAuth E W R r s = (Inl resp, s') \<Longrightarrow> only_audits s s' \<and> fst resp \<in> {401, 403, 413, 503}"
  using webhookAuth_cases [of s E W R r] by (cases resp) simp

text \<open>C34: Whatever request arrives, the authentication chain either answers with a client or availability error, having
  written at most audit rows, or it passes the request on with the tenant of an ACTIVE credential of an ACTIVE telco
  whose secret signed this body, key and timestamp, the timestamp inside the replay window, the body inside the size limit, the feed
  enabled in the global scope and by a configuration of the telco's own scope, and the recovery reconciliation live.\<close>

theorem webhook_authenticates:
  "case webhookAuth E W R r s of
     (Inl resp, s') \<Rightarrow> only_audits s s' \<and> fst resp \<in> {401, 403, 413, 503}
   | (Inr (telco, v), s') \<Rightarrow> s' = s \<and> authentic E W R r s telco v"
  using webhookAuth_Inr webhookAuth_Inl by (auto split: prod.splits sum.splits)

lemma Map_Inr:
  "Map wire b = Inr ev \<Longrightarrow> 0 < sint (ev_amount ev) \<and> length (ev_currency ev) = 3 \<and> ev_token ev \<noteq> ''''"
  by (auto simp: Map_def split: option.splits if_splits)

lemma webhook_event_frame: "webhook_event E W telco v s = (x, s') \<Longrightarrow> only_audits s s' \<and> (\<forall>y. x = Inr y \<longrightarrow> s' = s)"
  by (auto simp: webhook_event_def Let_def split: sum.splits if_splits)

lemma webhook_event_Inl: "webhook_event E W telco v s = (Inl resp, s') \<Longrightarrow> fst resp = 422"
  by (auto simp: webhook_event_def Let_def writeErr_def split: sum.splits if_splits)

lemma webhook_event_Map: "webhook_event E W telco v s = (Inr (ev, amt), s') \<Longrightarrow> Map (wh_wire W) (rawBody v) = Inr ev"
  by (auto simp: webhook_event_def Let_def split: sum.splits if_splits)

lemma held_disposition:
  assumes "helds_ok (helds s)" "q \<in> set (helds s)" "hl_telco q = telco" "hl_source q = src" "tenant E = telco"
  shows "DispositionBySourceEvent E telco src s = Some (hl_status q)"
proof -
  have "List.find (\<lambda>r. hl_telco r = tenant E \<and> hl_telco r = telco \<and> hl_source r = src) (helds s) = Some q"
    using assms by (intro find_unique [where k = "\<lambda>r. (hl_telco r, hl_source r)"]) (simp_all add: helds_ok_def)
  then show ?thesis
    by (simp add: DispositionBySourceEvent_def)
qed


lemma admit_held:
  "DispositionBySourceEvent E telco src s = Some st \<Longrightarrow>
     admit_tx telco src ev v E s = Inr (no_admission\<lparr>priorDisposition := st\<rparr>, s)"
  by (simp add: admit_tx_def)

text \<open>C35: A recharge that already sits in the hold workflow is never booked by a delivery. Whatever the retry carries, at
  whatever status the hold is and whatever runs beside it, the answer is a refusal of the payload or the status of the
  hold, \<^verbatim>\<open>200\<close> only for a released one, and nothing but the audit trail changes.\<close>

theorem held_event_replays_disposition:
  assumes "helds_ok (helds s)" "q \<in> set (helds s)" "hl_telco q = telco" "telco \<noteq> ''''"
    and "Map (wh_wire W) (rawBody v) = Inr ev" "hl_source q = ''wh:'' @ EventID ev"
    and "webhook_ingest E W C others1 others2 telco corr v s = (resp, s')"
  shows "only_audits s s' \<and> (fst resp = 422 \<or> s' = s \<and>
    resp = ((if hl_status q = ''RELEASED'' then 200 else 202),
            JObj [(''status'', JStr (hl_status q)), (''source_event_id'', JStr (hl_source q))]))"
proof (cases "webhook_event E W telco v s")
  case (Pair x s1)
  show ?thesis
  proof (cases x)
    case (Inl rsp)
    with Pair assms(4,7) have "resp = rsp" "s' = s1"
      by (simp_all add: webhook_ingest_def)
    with Inl Pair show ?thesis
      using webhook_event_frame webhook_event_Inl by blast
  next
    case (Inr y)
    obtain e amt where y: "y = (e, amt)" by (cases y)
    have e: "e = ev" "s1 = s"
      using webhook_event_Map [of E W telco v s e amt s1] webhook_event_frame [OF Pair] Pair Inr y assms(5) by simp_all
    have "hl_status q \<noteq> ''''"
      using assms(1,2) by (auto simp: helds_ok_def list_all_iff held_checks_def)
    moreover have "WithTenantTx E telco (admit_tx telco (hl_source q) ev v) s = (Inr (no_admission\<lparr>priorDisposition := hl_status q\<rparr>), s)"
      using assms(1-4) by (simp add: WithTenantTx_Inr admit_held held_disposition)
    ultimately show ?thesis
      using Pair Inr y e assms(4,6,7) by (auto simp: webhook_ingest_def writeJSON_def Let_def)
  qed
qed


section \<open>Samples\<close>

definition sample_mac :: mac where
  "sample_mac k m = take 32 (rev (k @ m) @ replicate 32 CHR ''0'')"

definition sample_feed :: feedCfg where
  "sample_feed = \<lparr>fc_enabled = True, fc_transport = ''webhook_push'', fc_auth = ''hmac_sha256'', KeyIDHeader = ''X-Key'',
     SignatureHeader = ''X-Sig'', TimestampHeader = ''X-Ts'', ReplayWindowSeconds = 300, FutureSkewSeconds = 60,
     MaxBodyBytes = 4096, ExpectedCurrency = ''NGN'', PerEventAmountMaxMinor = 1000, PerTelcoDailyCeilingMinor = 1000,
     RecoveryMaxBackdateSeconds = 86400, RecoveryMaxFutureSkewSeconds = 60\<rparr>"

definition sample_webhook :: webhook_env where
  "sample_webhook = \<lparr>wh_mac = sample_mac, wh_getenv = (\<lambda>_. ''secret''), wh_feed = (\<lambda>_. Some sample_feed),
     wh_wire = (\<lambda>b. Some \<lparr>we_id = ''e1'', we_token = ''tok'', we_amount = b, we_currency = ''NGN'', we_occurred = Some 0\<rparr>)\<rparr>"

definition sample_delivery :: "string \<Rightarrow> verifiedWebhook" where
  "sample_delivery b = \<lparr>decodedMAC = b, rawBody = b, vw_cfg = sample_feed\<rparr>"

theorem Verify_iff_Sign_witness:
  "Verify sample_mac ''secret'' ''k1'' ''17'' ''body'' (Sign sample_mac ''secret'' ''k1'' ''17'' ''body'') = Inr ()
   \<and> Verify sample_mac ''secret'' ''k1'' ''18'' ''body'' (Sign sample_mac ''secret'' ''k1'' ''17'' ''body'') = Inl ErrBadSignature"
proof -
  have len: "\<And>m. length (sample_mac ''secret'' m) = 32"
    by (simp add: sample_mac_def)
  have "newline \<notin> set (''k1'' @ ''17'' @ ''k1'' @ ''18'')"
    by code_simp
  note sig = Verify_iff_Sign [of sample_mac "''secret''" "''k1''" "''17''" "''k1''" "''18''", OF len this]
  have "sample_mac ''secret'' (CanonicalString ''k1'' ''18'' ''body'') \<noteq> sample_mac ''secret'' (CanonicalString ''k1'' ''17'' ''body'')"
    by code_simp
  then have "Verify sample_mac ''secret'' ''k1'' ''18'' ''body'' (Sign sample_mac ''secret'' ''k1'' ''17'' ''body'') \<noteq> Inr ()"
    using sig [of "''body''" _ "''body''"] by (metis prod.inject)
  then have "Verify sample_mac ''secret'' ''k1'' ''18'' ''body'' (Sign sample_mac ''secret'' ''k1'' ''17'' ''body'') = Inl ErrBadSignature"
    by (auto simp: Verify_def split: sum.splits if_splits)
  with sig show ?thesis by simp
qed

theorem held_event_replays_disposition_witness:
  "webhook_ingest sample_env sample_webhook sample_cfg id id ''T'' ''cor'' (sample_delivery ''5000'') held_db
   = ((202, JObj [(''status'', JStr ''HELD''), (''source_event_id'', JStr ''wh:e1'')]), held_db)"
proof -
  let ?run = "webhook_ingest sample_env sample_webhook sample_cfg id id ''T'' ''cor'' (sample_delivery ''5000'') held_db"
  obtain q where q: "helds held_db = [q]" and row: "hl_telco q = ''T''" "hl_source q = ''wh:e1''" "hl_status q = ''HELD''"
  proof -
    have "map (\<lambda>q. (hl_telco q, hl_source q, hl_status q)) (helds held_db) = [(''T'', ''wh:e1'', ''HELD'')]"
      by code_simp
    then show thesis using that by auto
  qed
  have "list_all held_checks (helds held_db)"
    by code_simp
  then have ok: "helds_ok (helds held_db)"
    using q row by (simp add: helds_ok_def)
  have code: "fst (fst ?run) = 202"
    by code_simp
  obtain ev where ev: "Map (wh_wire sample_webhook) (rawBody (sample_delivery ''5000'')) = Inr ev" "EventID ev = ''e1''"
  proof -
    have "case Map (wh_wire sample_webhook) (rawBody (sample_delivery ''5000'')) of Inl _ \<Rightarrow> False | Inr ev \<Rightarrow> EventID ev = ''e1''"
      by code_simp
    then show thesis using that by (auto split: sum.splits)
  qed
  obtain resp s' where run: "?run = (resp, s')" by (cases ?run)
  have "fst resp \<noteq> 422" using code run by simp
  with held_event_replays_disposition [OF ok _ row(1) _ ev(1) _ run] q row ev(2) run
  show ?thesis by simp
qed

text \<open>Two deliveries of one event id with different amounts: the first reserves 100 and pauses, the second finds the reservation and
  books 200, the first is then refused as divergent and returns the reservation of the booked event.\<close>

definition race :: "response \<times> db" where
  "race = webhook_ingest amount_env sample_webhook sample_cfg
     (\<lambda>s. snd (webhook_ingest amount_env sample_webhook sample_cfg id id ''T'' ''cor2'' (sample_delivery ''200'') s)) id
     ''T'' ''cor1'' (sample_delivery ''100'') empty_db"

lemma divergent_retry_frees_booked_capacity:
  "(case race of (resp, s) \<Rightarrow> (fst resp, map (\<lambda>e. (e_source e, e_amount e)) (events s), counter_of s ''T'' 0))
     = (409, [(''wh:e1'', 200)], 0)"
  by code_simp

end
