(* ===== verification/ReconRecovery.thy ===== *)
theory ReconRecovery
  imports Recon RechargeWebhook
begin

text \<open>
  The recovery layer of reconciliation: the end-of-day feed and its authentication (\<^verbatim>\<open>recoveryfeed/recoveryfeed.go\<close>), the
  daily control that compares it with the booked webhook recoveries (\<^verbatim>\<open>usecase/recon/recon_recovery.go\<close>), the publishers that
  renew the freshness of the money gate (\<^verbatim>\<open>recon_recovery.go\<close> and \<^verbatim>\<open>recon_recovery_fenced_publisher.go\<close>) and the two-person arming of
  that gate (\<^verbatim>\<open>usecase/recon/recon_arming.go\<close>). The gate itself is \<^const>\<open>IsLayerLive\<close>, which the webhook asks before it books.

  The state is the pair of the registry (read before a tenant is known) and the tables. JSON decodings, the MAC, the
  HTTP client, the process environment, time zones and the spelling of dates are parameters; a zone that
  passes the check against daylight saving is used at its one offset. The lemmas show what a feed must carry to be
  used, which days a control visits, and what evidence stands behind an open gate.
\<close>

section \<open>The feed\<close>

definition ErrFeedUnauthenticated :: err where
  "ErrFeedUnauthenticated = Fmt ''recoveryfeed: day envelope failed authentication/integrity check''"

definition signDomain :: string where
  "signDomain = ''bridgextra.recovery_eod.v1''"

record FeedRow =
  MSISDNToken :: string
  RecoveryDeductedMinor :: i64
  FeedCurrency :: string
  ClosingBalanceMinor :: "i64 option"

record DayEnvelope =
  BusinessDate :: string
  EnvRows :: "FeedRow list"
  RecordCount :: int
  EnvTotalMinor :: i64
  ContentHash :: string

record canonicalRow =
  cn_token :: string
  cn_minor :: i64
  cn_currency :: string

record wireEnvelope =
  wn_date :: string
  wn_count :: int
  wn_total :: i64
  wn_hash :: string
  wn_signature :: string
  wn_rows :: "FeedRow list"

text \<open>The governed documents as their decoders leave them, absent fields zero.\<close>

record recovery_raw = toleranceCfg +
  raw_confirmation :: f64
  raw_zone :: string
  raw_fresh :: int

record recovery_feed_doc =
  fd_source :: string
  fd_url :: string
  fd_auth :: "(string \<times> string) option"

record eod_row =
  eo_telco :: string
  eo_date :: string
  eo_row :: FeedRow

text \<open>
  What the layer takes from outside. \<open>rv_source\<close> and \<open>rv_window\<close> decode one field each, for a proposal to arm; \<open>rv_policy\<close> reads the two fields of the governed document the way the publication
  statement casts them, NULL where absent; \<open>rv_zone\<close> gives a zone's offset at the two probed instants; \<open>rv_eod\<close> is the
  table of the synthetic feed, which this code only reads.
\<close>

record recovery_env =
  rv_recon :: recon_env
  rv_cfg :: "json \<Rightarrow> recovery_raw option"
  rv_feed :: "json \<Rightarrow> recovery_feed_doc option"
  rv_policy :: "json \<Rightarrow> f64 option \<times> int option"
  rv_source :: "json \<Rightarrow> string option"
  rv_window :: "json \<Rightarrow> int option"
  rv_zone :: "string \<Rightarrow> (int \<times> int) option"
  rv_parse :: "string \<Rightarrow> int option"
  rv_format :: "int \<Rightarrow> string"
  rv_eod :: "eod_row list"
  rv_getenv :: "string \<Rightarrow> string"
  rv_http :: "string \<Rightarrow> (int \<times> string option) option"
  rv_wire :: "string \<Rightarrow> wireEnvelope option"
  rv_hmac :: mac
  rv_sort :: "canonicalRow list \<Rightarrow> canonicalRow list"

definition canonical_row :: "FeedRow \<Rightarrow> canonicalRow" where
  "canonical_row r = \<lparr>cn_token = MSISDNToken r, cn_minor = RecoveryDeductedMinor r, cn_currency = FeedCurrency r\<rparr>"

definition canonical_json :: "canonicalRow \<Rightarrow> json" where
  "canonical_json c = JObj [(''t'', JStr (cn_token c)), (''m'', JNum (cn_minor c)), (''c'', JStr (cn_currency c))]"

definition CanonicalHash :: "env \<Rightarrow> recovery_env \<Rightarrow> FeedRow list \<Rightarrow> string" where
  "CanonicalHash E V rows = sha_hex E (marshal E (JArr (map canonical_json (rv_sort V (map canonical_row rows)))))"

fun total_loop :: "i64 \<Rightarrow> FeedRow list \<Rightarrow> err + i64" where
  "total_loop t [] = Inr t"
| "total_loop t (r # rs) =
     (let s = t + RecoveryDeductedMinor r in
      if 0 < sint (RecoveryDeductedMinor r) \<and> sint s < sint t then Inl (Fmt ''recoveryfeed: day total overflows int64'')
      else total_loop s rs)"

definition TotalMinor :: "FeedRow list \<Rightarrow> err + i64" where
  "TotalMinor rows = total_loop 0 rows"

definition signingString :: "string \<Rightarrow> int \<Rightarrow> i64 \<Rightarrow> string \<Rightarrow> string" where
  "signingString date n t h = signDomain @ [newline] @ date @ [newline] @ FormatInt n @ [newline] @ FormatInt (sint t) @ [newline] @ h"

definition feed_Sign :: "mac \<Rightarrow> string \<Rightarrow> string \<Rightarrow> int \<Rightarrow> i64 \<Rightarrow> string \<Rightarrow> string" where
  "feed_Sign hmac secret date n t h = EncodeToString (hmac secret (signingString date n t h))"

text \<open>\<^verbatim>\<open>hex.DecodeString\<close>: pairs of digits of either case.\<close>

definition hex_digit :: "char \<Rightarrow> nat option" where
  "hex_digit c = (let n = of_char c in
     if 48 \<le> n \<and> n \<le> 57 then Some (n - 48) else if 97 \<le> n \<and> n \<le> 102 then Some (n - 87)
     else if 65 \<le> n \<and> n \<le> 70 then Some (n - 55) else None)"

fun hex_bytes :: "string \<Rightarrow> string option" where
  "hex_bytes [] = Some []"
| "hex_bytes [_] = None"
| "hex_bytes (a # b # cs) =
     (case (hex_digit a, hex_digit b, hex_bytes cs) of
        (Some x, Some y, Some bs) \<Rightarrow> Some (char_of (16 * x + y) # bs)
      | _ \<Rightarrow> None)"

datatype feed_adapter = MockAdapter | HTTPAdapter string string string

definition mock_FetchDay :: "env \<Rightarrow> recovery_env \<Rightarrow> string \<Rightarrow> string \<Rightarrow> db \<Rightarrow> err + DayEnvelope" where
  "mock_FetchDay E V telco date s =
     andThen (fst (WithTenantTx E telco (\<lambda>E s. Inr (map eo_row (sort_key (\<lambda>r. MSISDNToken (eo_row r))
                (filter (\<lambda>r. eo_telco r = tenant E \<and> eo_date r = date) (rv_eod V))), s)) s)) (\<lambda>rows.
     andThen (TotalMinor rows) (\<lambda>t.
     Inr \<lparr>BusinessDate = date, EnvRows = rows, RecordCount = int (length rows), EnvTotalMinor = t, ContentHash = CanonicalHash E V rows\<rparr>))"

definition check_envelope :: "env \<Rightarrow> recovery_env \<Rightarrow> string \<Rightarrow> string \<Rightarrow> wireEnvelope \<Rightarrow> err + DayEnvelope" where
  "check_envelope E V secret date w =
     (let rows = wn_rows w in
      andThen (TotalMinor rows) (\<lambda>t.
      if wn_count w \<noteq> int (length rows) \<or> wn_total w \<noteq> t \<or> wn_hash w \<noteq> CanonicalHash E V rows \<or> wn_date w \<noteq> date
      then Inl ErrFeedUnauthenticated
      else case hex_bytes (wn_signature w) of
        None \<Rightarrow> Inl ErrFeedUnauthenticated
      | Some want \<Rightarrow>
          if length want \<noteq> 32 \<or> rv_hmac V secret (signingString date (wn_count w) (wn_total w) (wn_hash w)) \<noteq> want
          then Inl ErrFeedUnauthenticated
          else Inr \<lparr>BusinessDate = date, EnvRows = rows, RecordCount = int (length rows), EnvTotalMinor = t, ContentHash = wn_hash w\<rparr>))"

fun LimitReader :: "int \<Rightarrow> string \<Rightarrow> string" where
  "LimitReader n [] = []"
| "LimitReader n (c # cs) = (if n \<le> 0 then [] else c # LimitReader (n - 1) cs)"

definition http_FetchDay :: "env \<Rightarrow> recovery_env \<Rightarrow> string \<Rightarrow> string \<Rightarrow> string \<Rightarrow> err + DayEnvelope" where
  "http_FetchDay E V url secretEnv date =
     (let secret = rv_getenv V secretEnv in
      if secret = '''' then Inl (Fmt ''recoveryfeed: secret env is empty (fail-closed)'')
      else case rv_http V (url @ ''?business_date='' @ date) of
        None \<Rightarrow> Inl (Fmt ''recoveryfeed: fetch'')
      | Some (code, None) \<Rightarrow> Inl (Fmt ''recoveryfeed: read'')
      | Some (code, Some raw) \<Rightarrow>
          if code \<noteq> 200 then Inl (Fmt ''recoveryfeed: feed endpoint'')
          else case rv_wire V (LimitReader 67108864 raw) of
            None \<Rightarrow> Inl (Fmt ''recoveryfeed: malformed envelope'')
          | Some w \<Rightarrow> check_envelope E V secret date w)"

fun FetchDay :: "env \<Rightarrow> recovery_env \<Rightarrow> feed_adapter \<Rightarrow> string \<Rightarrow> string \<Rightarrow> db \<Rightarrow> err + DayEnvelope" where
  "FetchDay E V MockAdapter telco date s = mock_FetchDay E V telco date s"
| "FetchDay E V (HTTPAdapter url secretEnv _) telco date s = http_FetchDay E V url secretEnv date"

section \<open>The platform side\<close>

definition recoveryProgrammeSentinel :: string where
  "recoveryProgrammeSentinel = ''__RECOVERY__''"

record recoveryCfg = toleranceCfg +
  MinConfirmationRatio :: f64
  ArmFreshnessMaxSeconds :: int
  BusinessTimezone :: string
  zone_offset :: int
  CfgVersionID :: string

definition subject_key :: "event_row \<Rightarrow> string" where
  "subject_key e = (case e_token e of
     None \<Rightarrow> ''__notoken__|'' @ e_id e
   | Some t \<Rightarrow> if t = '''' then ''__notoken__|'' @ e_id e else t)"

definition day_events :: "env \<Rightarrow> int \<Rightarrow> int \<Rightarrow> db \<Rightarrow> event_row list" where
  "day_events E ps pe s = filter (\<lambda>e. e_telco e = tenant E \<and> take 3 (e_source e) = ''wh:'' \<and> in_window ps pe (e_occurred e)) (events s)"

text \<open>The amount of an event less what reversals took back: the negative allocations.\<close>

definition event_net :: "env \<Rightarrow> db \<Rightarrow> event_row \<Rightarrow> int" where
  "event_net E s e = sint (e_amount e)
     + sum_amounts (filter (\<lambda>a. adv_visible E s (al_adv a) \<and> al_event a = e_id e \<and> sint (al_amount a) < 0) (allocs s))"

fun net_rows :: "env \<Rightarrow> db \<Rightarrow> event_row list \<Rightarrow> string list \<Rightarrow> err + platform_side" where
  "net_rows E s evs [] = Inr []"
| "net_rows E s evs (k # ks) =
     (let mine = filter (\<lambda>e. subject_key e = k) evs in
      andThen (scan_int64 (\<Sum>e\<leftarrow>mine. event_net E s e)) (\<lambda>net.
      andThen (net_rows E s evs ks) (\<lambda>rest.
      Inr ((k, \<lparr>pl_id = k, pl_state = None, pl_face = net,
        pl_cur = (if card (set (map e_cur mine)) > 1 then ''MIX'' else Min (set (map e_cur mine))), pl_ref = ''''\<rparr>) # rest))))"

definition recoverySpec :: layerSpec where
  "recoverySpec = \<lparr>ls_name = layerRecovery,
     ls_fetch = (\<lambda>E _ ps pe s. net_rows E s (day_events E ps pe s) (remdups (map subject_key (day_events E ps pe s))))\<rparr>"

section \<open>Business days\<close>

definition one_day :: int where
  "one_day = 86400 * second"

definition businessDayWindow :: "recovery_env \<Rightarrow> int \<Rightarrow> string \<Rightarrow> err + int \<times> int" where
  "businessDayWindow V off date =
     (case rv_parse V date of
        None \<Rightarrow> Inl (Fmt ''business_date must be YYYY-MM-DD'')
      | Some d \<Rightarrow> Inr (d * one_day - off, (d + 1) * one_day - off))"

fun settled_from :: "recovery_env \<Rightarrow> int \<Rightarrow> int \<Rightarrow> nat \<Rightarrow> int \<Rightarrow> string option" where
  "settled_from V off cutoff 0 d = None"
| "settled_from V off cutoff (Suc n) d =
     (if (d + 1) * one_day - off \<le> cutoff then Some (rv_format V d) else settled_from V off cutoff n (d - 1))"

definition lastSettledBusinessDay :: "recovery_env \<Rightarrow> int \<Rightarrow> int \<Rightarrow> string option" where
  "lastSettledBusinessDay V off cutoff = settled_from V off cutoff 4 ((cutoff + off) div one_day)"

function day_loop :: "recovery_env \<Rightarrow> int \<Rightarrow> int \<Rightarrow> string list" where
  "day_loop V cur end_day = (if cur > end_day then [] else rv_format V cur # day_loop V (cur + 1) end_day)"
  by auto
termination by (relation "measure (\<lambda>(V, cur, end_day). nat (end_day + 1 - cur))") auto

declare day_loop.simps [simp del]

definition businessDayStrings :: "recovery_env \<Rightarrow> int \<Rightarrow> int \<Rightarrow> string \<Rightarrow> string list" where
  "businessDayStrings V off start toDate =
     (case rv_parse V toDate of None \<Rightarrow> [] | Some end_day \<Rightarrow> day_loop V ((start + off) div one_day) end_day)"

section \<open>One day\<close>

definition mapFeedToTelco :: "DayEnvelope \<Rightarrow> string \<Rightarrow> int \<Rightarrow> telcoTransaction list" where
  "mapFeedToTelco f date start =
     map (\<lambda>r. \<lparr>PlatformRequestID = MSISDNToken r, TxReference = date, FaceValueMinor = RecoveryDeductedMinor r,
       TxCurrency = FeedCurrency r, TxStatus = ''SUCCESS'', CreditedAt = start\<rparr>) (EnvRows f)"

definition feed_matched :: "env \<Rightarrow> int \<Rightarrow> event_row \<Rightarrow> db \<Rightarrow> bool" where
  "feed_matched E ps e s \<longleftrightarrow> (\<exists>i \<in> set (recon_items s). \<exists>r \<in> set (recon_runs s). ri_telco i = tenant E \<and> rr_telco r = tenant E
     \<and> rr_id r = ri_run i \<and> rr_layer r = ''RECOVERY'' \<and> rr_state r = ''ACTIVE'' \<and> rr_start r = ps
     \<and> ri_status i = ''MATCHED'' \<and> Some (ri_key i) = e_token e)"

definition ClearMatched :: "env \<Rightarrow> int \<Rightarrow> int \<Rightarrow> db \<Rightarrow> err + nat \<times> db" where
  "ClearMatched E ps pe s =
     (let p = (\<lambda>h. h_telco h = tenant E \<and> h_cleared h = None
            \<and> (\<exists>e \<in> set (events s). e_telco e = tenant E \<and> e_id e = h_event h \<and> in_window ps pe (e_occurred e) \<and> feed_matched E ps e s))
      in Inr (length (filter p (holds s)), s\<lparr>holds := upd_where p (\<lambda>h. h\<lparr>h_cleared := Some (now E)\<rparr>) (holds s)\<rparr>))"

definition clearRecoveryHolds :: "env \<Rightarrow> string \<Rightarrow> int \<Rightarrow> int \<Rightarrow> db \<Rightarrow> (err + nat) \<times> db" where
  "clearRecoveryHolds E telco ps pe s = WithTenantTx E telco (\<lambda>E. ClearMatched E ps pe) s"

definition reconcileRecoveryDayWith ::
  "env \<Rightarrow> recovery_env \<Rightarrow> recoveryCfg \<Rightarrow> feed_adapter \<Rightarrow> string \<Rightarrow> string \<Rightarrow> db \<Rightarrow> (err + Summary) \<times> db" where
  "reconcileRecoveryDayWith E V cfg adapter telco date s =
     (case businessDayWindow V (zone_offset cfg) date of
        Inl e \<Rightarrow> (Inl e, s)
      | Inr (ps, pe) \<Rightarrow>
          (case FetchDay E V adapter telco date s of
             Inl e \<Rightarrow> (Inl e, s)
           | Inr f \<Rightarrow>
               (case reconcileLayer E (rv_recon V) recoverySpec telco recoveryProgrammeSentinel ps pe (mapFeedToTelco f date ps)
                       (toleranceCfg.truncate cfg) s of
                  (Inl e, s) \<Rightarrow> (Inl e, s)
                | (Inr u, s) \<Rightarrow>
                    if \<not> Rejected u \<and> \<not> NothingToReconcile u
                    then (case clearRecoveryHolds E telco ps pe s of (Inl e, s) \<Rightarrow> (Inl e, s) | (Inr _, s) \<Rightarrow> (Inr u, s))
                    else (Inr u, s))))"

definition confirmationHolds :: "i64 \<Rightarrow> i64 \<Rightarrow> i64 \<Rightarrow> i64 \<Rightarrow> f64 \<Rightarrow> bool" where
  "confirmationHolds platCount srcCount matchedTotal plat ratio \<longleftrightarrow>
     (if platCount = 0 then srcCount = 0
      else f64_ceil (f64_mult ratio (f64_of_int (sint plat))) \<le> sint matchedTotal)"

definition dayConfirmed :: "Summary \<Rightarrow> f64 \<Rightarrow> bool" where
  "dayConfirmed u ratio \<longleftrightarrow> \<not> Rejected u \<and> \<not> NothingToReconcile u
     \<and> confirmationHolds (word_of_int (PlatformRecords u)) (SourceRecordCount u) (MatchedControlTotalMinor u)
         (PlatformControlTotalMinor u) ratio"

definition put_quals :: "qual_row list \<Rightarrow> db \<Rightarrow> err + db" where
  "put_quals rows s =
     (if \<not> distinct (map qu_id rows) then Inl (Pg ''23505'' ''recon_recovery_qualifications_pkey'')
      else if \<not> distinct (map qu_run rows) then Inl (Pg ''23505'' ''recon_recovery_qualifications_run_id_key'')
      else Inr (s\<lparr>quals := rows\<rparr>))"

definition writeQualification :: "env \<Rightarrow> string \<Rightarrow> string \<Rightarrow> recoveryCfg \<Rightarrow> db \<Rightarrow> (err + string \<times> int) \<times> db" where
  "writeQualification E telco runID cfg s =
     (let (i, s) = NewID E ''qual'' s in
      WithTenantTx E telco (\<lambda>E s.
        andThen (rls_check E telco) (\<lambda>_.
        andThen (put_quals (quals s @ [\<lparr>qu_id = i, qu_run = runID, qu_telco = telco, qu_ratio = MinConfirmationRatio cfg,
           qu_window = ArmFreshnessMaxSeconds cfg, qu_config = CfgVersionID cfg, qu_created = now E\<rparr>]) s) (\<lambda>s.
        Inr ((i, now E), s)))) s)"

section \<open>Configuration\<close>

definition buildFeedAdapter :: "env \<Rightarrow> recovery_env \<Rightarrow> registry \<Rightarrow> string \<Rightarrow> db \<Rightarrow> err + feed_adapter" where
  "buildFeedAdapter E V R telco s =
     andThen (ActiveAt ''telco.recovery_feed'' (''telco:'' @ telco) (now E) s) (\<lambda>cv.
     case rv_feed V (cv_content cv) of
       None \<Rightarrow> Inl (Fmt ''telco.recovery_feed content'')
     | Some d \<Rightarrow>
         if fd_source d = ''mock'' then
           (if telco \<notin> fst ` set (telcos R) then Inl (Fmt ''is_synthetic lookup'')
            else if telco \<notin> set (synthetic R) then Inl (Fmt ''source=mock is not permitted on non-synthetic telco'')
            else Inr MockAdapter)
         else if fd_source d = ''https'' then
           (case fd_auth d of
              None \<Rightarrow> Inl (Fmt ''source=https requires envelope_auth.secret_env'')
            | Some (secretEnv, field) \<Rightarrow>
                if secretEnv = '''' then Inl (Fmt ''source=https requires envelope_auth.secret_env'')
                else Inr (HTTPAdapter (fd_url d) secretEnv field))
         else Inl (Fmt ''unknown source''))"

definition check_recovery :: "recovery_env \<Rightarrow> recovery_raw \<Rightarrow> err + int" where
  "check_recovery V raw =
     (if sint (MaxAmountMinor raw) \<le> 0 \<or> sint (MaxAmountMinor raw) > 1000000000000000
      then Inl (Fmt ''recon.recovery max_amount_minor out of range'')
      else if AutoResolve raw then Inl (Fmt ''recon.recovery auto_resolve must be false'')
      else if \<not> f64_unit (MinCompletenessRatio raw) then Inl (Fmt ''recon.recovery min_completeness_ratio must be in (0,1]'')
      else if \<not> f64_unit (raw_confirmation raw) then Inl (Fmt ''recon.recovery min_confirmation_ratio must be in (0,1]'')
      else if ReconLagSeconds raw < 0 then Inl (Fmt ''recon.recovery recon_lag_seconds must be >= 0'')
      else if RereconcileLookbackSeconds raw \<le> 0 then Inl (Fmt ''recon.recovery rereconcile_lookback_seconds must be > 0'')
      else if raw_fresh raw < 3600 \<or> raw_fresh raw > 604800 then Inl (Fmt ''recon.recovery arm_freshness_max_seconds must be 3600..604800'')
      else case rv_zone V (raw_zone raw) of
        None \<Rightarrow> Inl (Fmt ''recon.recovery business_timezone not loadable'')
      | Some (jan, jul) \<Rightarrow> if jan \<noteq> jul then Inl (Fmt ''recon.recovery business_timezone observes DST'') else Inr jan)"

definition loadForRecovery :: "env \<Rightarrow> recovery_env \<Rightarrow> registry \<Rightarrow> string \<Rightarrow> db \<Rightarrow> err + recoveryCfg \<times> feed_adapter" where
  "loadForRecovery E V R telco s =
     andThen (ActiveAt ''recon.recovery'' (''telco:'' @ telco) (now E) s) (\<lambda>cv.
     case rv_cfg V (cv_content cv) of
       None \<Rightarrow> Inl (Fmt ''recon.recovery content'')
     | Some raw \<Rightarrow>
         andThen (check_recovery V raw) (\<lambda>off.
         andThen (buildFeedAdapter E V R telco s) (\<lambda>adapter.
         Inr (toleranceCfg.extend (toleranceCfg.truncate raw)
           \<lparr>MinConfirmationRatio = raw_confirmation raw, ArmFreshnessMaxSeconds = raw_fresh raw,
            BusinessTimezone = raw_zone raw, zone_offset = off, CfgVersionID = cv_id cv\<rparr>, adapter))))"

definition ReconcileRecoveryDay :: "env \<Rightarrow> recovery_env \<Rightarrow> registry \<Rightarrow> string \<Rightarrow> string \<Rightarrow> db \<Rightarrow> (err + Summary) \<times> db" where
  "ReconcileRecoveryDay E V R telco date s =
     (case loadForRecovery E V R telco s of
        Inl e \<Rightarrow> (Inl e, snd (NewID E ''run'' s))
      | Inr (cfg, adapter) \<Rightarrow> reconcileRecoveryDayWith E V cfg adapter telco date s)"

section \<open>The control\<close>

definition active_recovery :: "string \<Rightarrow> int \<Rightarrow> env \<Rightarrow> db \<Rightarrow> run_row option" where
  "active_recovery telco ps E s = List.find (active_at E (telco, recoveryProgrammeSentinel, layerRecovery, ps)) (recon_runs s)"

definition recoveryPlatformFingerprint :: "env \<Rightarrow> string \<Rightarrow> int \<Rightarrow> int \<Rightarrow> db \<Rightarrow> err + i64 \<times> i64" where
  "recoveryPlatformFingerprint E telco ps pe s =
     fst (WithTenantTx E telco (\<lambda>E s. andThen (ls_fetch recoverySpec E '''' ps pe s) (\<lambda>plat.
       Inr ((word_of_nat (length plat), platform_sum plat), s))) s)"

definition recoveryDayUnchanged :: "env \<Rightarrow> recovery_env \<Rightarrow> recoveryCfg \<Rightarrow> feed_adapter \<Rightarrow> string \<Rightarrow> string \<Rightarrow> db \<Rightarrow> err + bool" where
  "recoveryDayUnchanged E V cfg adapter telco date s =
     andThen (businessDayWindow V (zone_offset cfg) date) (\<lambda>(ps, pe).
     andThen (fst (WithTenantTx E telco (\<lambda>E s. Inr (active_recovery telco ps E s, s)) s)) (\<lambda>r.
     case r of
       None \<Rightarrow> Inr False
     | Some r \<Rightarrow>
         andThen (FetchDay E V adapter telco date s) (\<lambda>f.
         andThen (sourceManifest E (rv_recon V) (mapFeedToTelco f date ps) (MaxAmountMinor cfg)) (\<lambda>man.
         andThen (recoveryPlatformFingerprint E telco ps pe s) (\<lambda>(pc, pt).
         Inr (snd (snd man) = rr_src_hash r \<and> pc = rr_plat_count r \<and> pt = rr_plat_sum r))))))"

record RecoveryEvidence =
  QualificationID :: string
  EvRunID :: string
  EvidenceAt :: int
  EvArmFreshnessMaxSeconds :: int

record RecoveryControlResult =
  Summaries :: "Summary list"
  QualifiedEvidence :: "RecoveryEvidence option"

text \<open>The sweep: every day but the newest may be skipped as unchanged; the newest decides the evidence.\<close>

fun sweep_days ::
  "env \<Rightarrow> recovery_env \<Rightarrow> recoveryCfg \<Rightarrow> feed_adapter \<Rightarrow> string \<Rightarrow> string list \<Rightarrow> Summary list \<Rightarrow> db
    \<Rightarrow> (RecoveryControlResult \<times> err option) \<times> db" where
  "sweep_days E V cfg adapter telco [] out s = ((\<lparr>Summaries = out, QualifiedEvidence = None\<rparr>, None), s)"
| "sweep_days E V cfg adapter telco (d # ds) out s =
     (let failed = (\<lambda>out e s. ((\<lparr>Summaries = out, QualifiedEvidence = None\<rparr>, Some e), s)) in
      case (if ds = [] then Inr False else recoveryDayUnchanged E V cfg adapter telco d s) of
        Inl e \<Rightarrow> failed out e s
      | Inr True \<Rightarrow> sweep_days E V cfg adapter telco ds (out @ [no_summary\<lparr>Unchanged := True\<rparr>]) s
      | Inr False \<Rightarrow>
          (case reconcileRecoveryDayWith E V cfg adapter telco d s of
             (Inl e, s) \<Rightarrow> failed out e s
           | (Inr u, s) \<Rightarrow>
               if ds \<noteq> [] then sweep_days E V cfg adapter telco ds (out @ [u]) s
               else if \<not> dayConfirmed u (MinConfirmationRatio cfg) then ((\<lparr>Summaries = out @ [u], QualifiedEvidence = None\<rparr>, None), s)
               else (case writeQualification E telco (RunID u) cfg s of
                       (Inl e, s) \<Rightarrow> failed (out @ [u]) e s
                     | (Inr (i, t), s) \<Rightarrow>
                         ((\<lparr>Summaries = out @ [u], QualifiedEvidence = Some \<lparr>QualificationID = i, EvRunID = RunID u, EvidenceAt = t,
                             EvArmFreshnessMaxSeconds = ArmFreshnessMaxSeconds cfg\<rparr>\<rparr>, None), s))))"

definition RunRecoveryControl :: "env \<Rightarrow> recovery_env \<Rightarrow> registry \<Rightarrow> string \<Rightarrow> db \<Rightarrow> (RecoveryControlResult \<times> err option) \<times> db" where
  "RunRecoveryControl E V R telco s =
     (let nothing = \<lparr>Summaries = [], QualifiedEvidence = None\<rparr> in
      case loadForRecovery E V R telco s of
        Inl e \<Rightarrow> ((nothing, Some e), s)
      | Inr (cfg, adapter) \<Rightarrow>
          if \<not> IsLayerArmed telco ReconLayerRecovery R then ((nothing, None), s)
          else
            let nowLag = now E - ReconLagSeconds cfg * second in
            (case lastSettledBusinessDay V (zone_offset cfg) nowLag of
               None \<Rightarrow> ((nothing, None), s)
             | Some dLast \<Rightarrow>
                 sweep_days E V cfg adapter telco
                   (businessDayStrings V (zone_offset cfg) (nowLag - RereconcileLookbackSeconds cfg * second) dLast) [] s))"

section \<open>The publishers\<close>

definition LegacyRecoveryPublisher :: "env \<Rightarrow> string \<Rightarrow> RecoveryEvidence \<Rightarrow> registry \<Rightarrow> err + registry" where
  "LegacyRecoveryPublisher E telco ev R =
     andThen (AdvanceFreshness (now E) telco ReconLayerRecovery (EvArmFreshnessMaxSeconds ev) R) (\<lambda>(_, R). Inr R)"

definition RunRecovery :: "env \<Rightarrow> recovery_env \<Rightarrow> string \<Rightarrow> registry \<times> db \<Rightarrow> (Summary list \<times> err option) \<times> registry \<times> db" where
  "RunRecovery E V telco = (\<lambda>(R, s).
     case RunRecoveryControl E V R telco s of
       ((res, Some e), s) \<Rightarrow> ((Summaries res, Some e), R, s)
     | ((res, None), s) \<Rightarrow>
         (case QualifiedEvidence res of
            None \<Rightarrow> ((Summaries res, None), R, s)
          | Some ev \<Rightarrow>
              (case LegacyRecoveryPublisher E telco ev R of
                 Inl e \<Rightarrow> ((Summaries res, Some e), R, s)
               | Inr R' \<Rightarrow> ((Summaries res, None), R', s))))"

text \<open>The qualification and its run, both visible to the tenant.\<close>

definition evidence_rows :: "env \<Rightarrow> RecoveryEvidence \<Rightarrow> db \<Rightarrow> (qual_row \<times> run_row) option" where
  "evidence_rows E ev s =
     (case List.find (\<lambda>q. qu_telco q = tenant E \<and> qu_id q = QualificationID ev \<and> qu_run q = EvRunID ev) (quals s) of
        None \<Rightarrow> None
      | Some q \<Rightarrow> map_option (Pair q) (List.find (\<lambda>r. rr_telco r = tenant E \<and> rr_id r = qu_run q) (recon_runs s)))"

definition bind_check :: "env \<Rightarrow> string \<Rightarrow> RecoveryEvidence \<Rightarrow> db \<Rightarrow> err + unit" where
  "bind_check E telco ev s =
     (case evidence_rows E ev s of
        None \<Rightarrow> Inl (Fmt ''evidence binding failed: no qualification/run pair'')
      | Some (q, r) \<Rightarrow>
          if rr_telco r \<noteq> telco \<or> rr_layer r \<noteq> layerRecovery \<or> rr_state r \<noteq> ''ACTIVE'' then Inl (Fmt ''evidence binding failed: scope'')
          else if rr_matched_sum r = None then Inl (Fmt ''evidence binding failed: no persisted control totals'')
          else Inr ())"

text \<open>The configuration of the publication statement: the tenant's version before the global one, the latest first.\<close>

definition governing :: "string \<Rightarrow> int \<Rightarrow> db \<Rightarrow> config_row option" where
  "governing telco t s =
     (case sort_key (\<lambda>r. [if cv_scope r = ''telco:'' @ telco then 0 else 1, - the (cv_from r)])
             (filter (\<lambda>r. covers ''recon.recovery'' (''telco:'' @ telco) t r \<or> covers ''recon.recovery'' ScopeGlobal t r) (configs s)) of
        [] \<Rightarrow> None | r # _ \<Rightarrow> Some r)"

definition decision :: "env \<Rightarrow> recovery_env \<Rightarrow> int \<Rightarrow> string \<Rightarrow> RecoveryEvidence \<Rightarrow> registry \<Rightarrow> db \<Rightarrow> err + (int \<times> int \<times> bool) option" where
  "decision E V t telco ev R s =
     (case (List.find (\<lambda>a. ar_telco a = telco \<and> ar_layer a = layerRecovery) (armings R), evidence_rows E ev s, governing telco t s) of
        (Some a, Some (q, r), Some c) \<Rightarrow>
          (case (rv_policy V (cv_content c), rr_matched_sum r) of
             ((Some ratio, Some window), Some matchedTotal) \<Rightarrow>
               let need = f64_ceil (f64_mult ratio (f64_of_int (sint (rr_plat_sum r)))) in
               if rr_telco r \<noteq> telco \<or> rr_layer r \<noteq> layerRecovery \<or> rr_state r \<noteq> ''ACTIVE'' \<or> \<not> f64_unit ratio \<or> window < 3600 \<or> 604800 < window
               then Inr None
               else if rr_plat_count r \<noteq> 0 \<and> \<not> in_i64 need then Inl (Pg ''22003'' '''')
               else if (if rr_plat_count r = 0 then rr_src_count r \<noteq> 0 else sint matchedTotal < need) then Inr None
               else Inr (Some (qu_created q, window, case ar_last a of None \<Rightarrow> True | Some l \<Rightarrow> l < qu_created q))
           | _ \<Rightarrow> Inr None)
      | _ \<Rightarrow> Inr None)"

definition publish_statement :: "env \<Rightarrow> recovery_env \<Rightarrow> int \<Rightarrow> string \<Rightarrow> RecoveryEvidence \<Rightarrow> registry \<Rightarrow> db \<Rightarrow> err + bool \<times> registry" where
  "publish_statement E V t telco ev R s =
     andThen (decision E V t telco ev R s) (\<lambda>d.
     case d of
       None \<Rightarrow> Inl (Fmt ''re-verification failed'')
     | Some (qt, window, newer) \<Rightarrow>
         Inr (newer, R\<lparr>armings := upd_where (\<lambda>a. ar_telco a = telco \<and> ar_layer a = layerRecovery)
           (\<lambda>a. if newer then a\<lparr>ar_last := Some qt, ar_fresh := window\<rparr> else a) (armings R)\<rparr>))"

text \<open>
  The fenced publisher. \<open>waiting\<close> is what other transactions commit before the arming row is locked, \<open>locked\<close> what they commit to the
  tables between the lock and the publication statement, which runs at the instant \<open>t\<close>.
\<close>

definition Publish ::
  "env \<Rightarrow> recovery_env \<Rightarrow> (registry \<times> db \<Rightarrow> registry \<times> db) \<Rightarrow> (db \<Rightarrow> db) \<Rightarrow> int \<Rightarrow> string \<Rightarrow> RecoveryEvidence \<Rightarrow> registry \<times> db
    \<Rightarrow> (err + bool) \<times> registry \<times> db" where
  "Publish E V waiting locked t telco ev = (\<lambda>(R, s).
     let E = E\<lparr>tenant := telco\<rparr> in
     if telco = '''' then (Inl (Fmt ''no tenant context''), R, s)
     else case bind_check E telco ev s of
       Inl e \<Rightarrow> (Inl e, R, s)
     | Inr _ \<Rightarrow>
         (case waiting (R, s) of (R, s) \<Rightarrow>
            if \<not> IsLayerArmed telco layerRecovery R then (Inl (Fmt ''disarmed mid-publish, refusing''), R, s)
            else
              let s = locked s in
              (case publish_statement E V t telco ev R s of
                 Inl e \<Rightarrow> (Inl e, R, s)
               | Inr (advanced, R') \<Rightarrow> (Inr advanced, R', s))))"

section \<open>Arming\<close>

definition ErrArmTelcoNotActive :: err where
  "ErrArmTelcoNotActive = Fmt ''recon: telco is not ACTIVE - cannot arm''"

definition ErrArmFeedMissing :: err where
  "ErrArmFeedMissing = Fmt ''recon: telco.recovery_feed is not configured for this telco - cannot arm''"

definition ErrArmMockOnReal :: err where
  "ErrArmMockOnReal = Fmt ''recon: a mock recovery feed may not arm a non-synthetic telco''"

definition ErrArmBasisRequired :: err where
  "ErrArmBasisRequired = Fmt ''recon: arm requires confirmed_feed_reversal_basis and confirmed_business_date_basis''"

definition ErrArmAlreadyPending :: err where
  "ErrArmAlreadyPending = Fmt ''recon: an arm request is already PENDING for this telco/layer''"

definition ErrArmSelfApprove :: err where
  "ErrArmSelfApprove = Fmt ''recon: an arm request checker must differ from its proposer (two-person rule)''"

definition ErrArmNotPending :: err where
  "ErrArmNotPending = Fmt ''recon: arm request is not PENDING''"

record ArmProposal =
  ap_telco :: string
  ap_by :: string
  ap_reason :: string
  ap_reversal :: string
  ap_basis :: string

definition armreq_checks :: "armreq_row \<Rightarrow> bool" where
  "armreq_checks r \<longleftrightarrow> aq_state r \<in> {''PENDING'', ''APPROVED'', ''REJECTED''} \<and> 3600 \<le> aq_fresh r \<and> aq_fresh r \<le> 604800
     \<and> aq_reversal r \<in> {''GROSS'', ''NET_SAME_DAY''} \<and> (aq_approver r = None \<or> aq_approver r \<noteq> Some (aq_by r))"

definition put_armreqs :: "armreq_row list \<Rightarrow> registry \<Rightarrow> err + registry" where
  "put_armreqs rows R =
     (if \<not> list_all armreq_checks rows then Inl (Pg ''23514'' ''recon_layer_arming_requests_check'')
      else if \<not> distinct (map aq_id rows) then Inl (Pg ''23505'' ''recon_layer_arming_requests_pkey'')
      else if \<not> distinct (map (\<lambda>r. (aq_telco r, aq_layer r)) (filter (\<lambda>r. aq_state r = ''PENDING'') rows))
      then Inl (Pg ''23505'' ''recon_arm_requests_one_pending_uq'')
      else Inr (R\<lparr>armreqs := rows\<rparr>))"

definition arm_window :: "env \<Rightarrow> recovery_env \<Rightarrow> registry \<Rightarrow> ArmProposal \<Rightarrow> db \<Rightarrow> err + int" where
  "arm_window E V R p s =
     (if ap_reason p = '''' then Inl (Fmt ''arm proposal requires a reason'')
      else if ap_reversal p \<noteq> ''GROSS'' \<and> ap_reversal p \<noteq> ''NET_SAME_DAY'' then Inl ErrArmBasisRequired
      else if ap_basis p = '''' then Inl ErrArmBasisRequired
      else case map_of (telcos R) (ap_telco p) of
        None \<Rightarrow> Inl (Fmt ''telco not found'')
      | Some st \<Rightarrow>
          if st \<noteq> ''ACTIVE'' then Inl ErrArmTelcoNotActive
          else case ActiveAt ''telco.recovery_feed'' (''telco:'' @ ap_telco p) (now E) s of
            Inl _ \<Rightarrow> Inl ErrArmFeedMissing
          | Inr cv \<Rightarrow>
              (case rv_source V (cv_content cv) of
                 None \<Rightarrow> Inl (Fmt ''telco.recovery_feed content'')
               | Some source \<Rightarrow>
                   if source = ''mock'' \<and> ap_telco p \<notin> set (synthetic R) then Inl ErrArmMockOnReal
                   else andThen (ActiveAt ''recon.recovery'' (''telco:'' @ ap_telco p) (now E) s) (\<lambda>cv.
                     case rv_window V (cv_content cv) of
                       None \<Rightarrow> Inl (Fmt ''recon.recovery content'')
                     | Some secs \<Rightarrow>
                         if secs < 3600 \<or> secs > 604800
                         then Inl (Fmt ''recon.recovery arm_freshness_max_seconds out of range'') else Inr secs)))"

definition ProposeArmRecovery :: "env \<Rightarrow> recovery_env \<Rightarrow> ArmProposal \<Rightarrow> registry \<times> db \<Rightarrow> (err + string) \<times> registry \<times> db" where
  "ProposeArmRecovery E V p = (\<lambda>(R, s).
     case arm_window E V R p s of
       Inl e \<Rightarrow> (Inl e, R, s)
     | Inr secs \<Rightarrow>
         let (i, s) = NewID E ''rar'' s in
         (case put_armreqs (armreqs R @ [\<lparr>aq_id = i, aq_telco = ap_telco p, aq_layer = ReconLayerRecovery, aq_state = ''PENDING'',
                  aq_by = ap_by p, aq_approver = None, aq_reason = ap_reason p, aq_fresh = secs, aq_reversal = ap_reversal p,
                  aq_basis = ap_basis p\<rparr>]) R of
            Inl e \<Rightarrow> (Inl (case e of Pg code _ \<Rightarrow> if code = ''23505'' then ErrArmAlreadyPending else e | _ \<Rightarrow> e), R, s)
          | Inr R' \<Rightarrow> (Inr i, R', s)))"

definition approve_arm_tx :: "string \<Rightarrow> string \<Rightarrow> registry \<Rightarrow> err + registry" where
  "approve_arm_tx i actor R =
     (let p = (\<lambda>r. aq_id r = i \<and> aq_state r = ''PENDING'') in
      case List.find p (armreqs R) of
        None \<Rightarrow> Inl ErrArmNotPending
      | Some r \<Rightarrow>
          (case put_armreqs (upd_where p (\<lambda>r. r\<lparr>aq_state := ''APPROVED'', aq_approver := Some actor\<rparr>) (armreqs R)) R of
             Inl e \<Rightarrow> Inl (case e of Pg code _ \<Rightarrow> if code = ''23514'' then ErrArmSelfApprove else e | _ \<Rightarrow> e)
           | Inr R \<Rightarrow> SetLiveArmed (aq_telco r) (aq_layer r) (aq_fresh r) R))"

definition ApproveArmRecovery :: "string \<Rightarrow> string \<Rightarrow> registry \<Rightarrow> (err + unit) \<times> registry" where
  "ApproveArmRecovery i actor R = (case approve_arm_tx i actor R of Inl e \<Rightarrow> (Inl e, R) | Inr R' \<Rightarrow> (Inr (), R'))"

text \<open>Disarming runs on the worker's connection, whose role is not subject to row-level security.\<close>

definition DisarmRecovery :: "env \<Rightarrow> string \<Rightarrow> string \<Rightarrow> string \<Rightarrow> registry \<times> db \<Rightarrow> (err + unit) \<times> registry \<times> db" where
  "DisarmRecovery E telco actor reason = (\<lambda>(R, s).
     if actor = '''' \<or> reason = '''' then (Inl (Fmt ''recovery disarm requires an actor and a reason''), R, s)
     else let (_, s) = NewID E ''aud'' s in
       (Inr (), SetDown telco ReconLayerRecovery R,
        s\<lparr>audit := audit s @ [\<lparr>au_telco = telco, au_actor = actor, au_action = ''recon.recovery.disarmed'', au_ttype = ''recon_layer'',
          au_target = ''recovery:'' @ telco, au_reason = reason\<rparr>]\<rparr>))"

section \<open>What a run leaves behind\<close>

text \<open>The parts of a summary the classification does not touch.\<close>

definition fixed_part :: "Summary \<Rightarrow> string \<times> int \<times> i64 \<times> bool \<times> bool" where
  "fixed_part u = (RunID u, PlatformRecords u, SourceRecordCount u, Rejected u, NothingToReconcile u)"

lemma fixed_part_write [simp]:
  "cl_sum (writeItem k l p t st d c) = cl_sum c" "cl_sum (bump f c) = f (cl_sum c)"
  by (simp_all add: writeItem_def bump_def)

lemma fixed_part_first: "fixed_part (cl_sum (classify_first layer tol plat tr c)) = fixed_part (cl_sum c)"
  by (auto simp: classify_first_def Let_def fixed_part_def split: option.splits)

lemma fixed_part_classify: "fixed_part (cl_sum (classify layer tol plat failed trs c)) = fixed_part (cl_sum c)"
proof (induction trs arbitrary: c)
  case (Cons tr trs)
  show ?case by (simp only: classify.simps Cons.IH) (auto simp: Let_def fixed_part_first, simp_all add: fixed_part_def)
qed simp

lemma fixed_part_missing: "fixed_part (cl_sum (missing_telco layer plat c)) = fixed_part (cl_sum c)"
proof (induction plat arbitrary: c)
  case (Cons kp plat)
  obtain k p where "kp = (k, p)" by fastforce
  then show ?case by (simp only: missing_telco.simps Cons.IH) (simp add: fixed_part_def)
qed simp

lemma fixed_part_window: "fixed_part (cl_sum (classify_window layer tol plat trs u)) = fixed_part u"
  by (simp add: classify_window_def fixed_part_missing fixed_part_classify)

text \<open>The row behind an accepted run carries the totals of its summary.\<close>

definition header_of :: "string \<Rightarrow> string \<Rightarrow> Summary \<Rightarrow> run_row \<Rightarrow> bool" where
  "header_of telco layer u r \<longleftrightarrow> rr_id r = RunID u \<and> rr_telco r = telco \<and> rr_layer r = layer \<and> rr_state r = ''ACTIVE''
     \<and> rr_plat_count r = word_of_int (PlatformRecords u) \<and> rr_src_count r = SourceRecordCount u
     \<and> rr_matched_sum r = Some (MatchedControlTotalMinor u) \<and> rr_plat_sum r = PlatformControlTotalMinor u"

lemma commit_run_header:
  assumes run: "commit_run sc runID tol man header u items E s = Inr (u', s')" and "\<not> Rejected u'"
    and head: "\<And>m b. header_of telco layer u (header m b ''ACTIVE'')"
  shows "\<exists>r \<in> set (recon_runs s'). header_of telco layer u' r"
proof -
  obtain v where v: "completeness E sc (MinCompletenessRatio tol) (fst man) s = Some v"
    using assms(1,2) by (auto simp: commit_run_def andThen_Inr_iff split: option.splits)
  with run obtain s1 s2 s3 where s2: "insert_run E (header (Matched u) (BreakCount u) ''ACTIVE'') s1 = Inr s2"
    and s3: "consume_override E v runID s2 = Inr s3" and s4: "insert_items E runID (fst sc) items s3 = Inr s'"
    and u': "u' = u\<lparr>CompletenessOverridden := v \<noteq> ''''\<rparr>"
    by (auto simp: commit_run_def andThen_Inr_iff)
  from s2 have "header (Matched u) (BreakCount u) ''ACTIVE'' \<in> set (recon_runs s2)"
    by (auto simp: insert_run_def andThen_Inr_iff put_runs_Inr)
  moreover have "recon_runs s3 = recon_runs s2"
    using consume_override_Inr [OF s3] by auto
  moreover have "recon_runs s' = recon_runs s3" using insert_items_Inr [OF s4] by auto
  ultimately show ?thesis using head u' by (intro bexI [of _ "header (Matched u) (BreakCount u) ''ACTIVE''"]) (simp_all add: header_of_def)
qed

text \<open>What every transaction keeps of the runs: their numbers, and that they were not rejected.\<close>

definition run_facts :: "run_row \<Rightarrow> string \<times> string \<times> string \<times> i64 \<times> i64 \<times> i64 option \<times> i64" where
  "run_facts r = (rr_id r, rr_telco r, rr_layer r, rr_plat_count r, rr_src_count r, rr_matched_sum r, rr_plat_sum r)"

definition keeps_runs :: "db \<Rightarrow> db \<Rightarrow> bool" where
  "keeps_runs s s' \<longleftrightarrow> (\<forall>r \<in> set (recon_runs s). \<exists>r' \<in> set (recon_runs s').
     run_facts r' = run_facts r \<and> (rr_state r \<noteq> ''REJECTED'' \<longrightarrow> rr_state r' \<noteq> ''REJECTED''))"

lemma keeps_runs_same: "recon_runs s' = recon_runs s \<Longrightarrow> keeps_runs s s'"
  by (auto simp: keeps_runs_def)

lemma keeps_runs_trans: "keeps_runs s s1 \<Longrightarrow> keeps_runs s1 s2 \<Longrightarrow> keeps_runs s s2"
  unfolding keeps_runs_def by metis

lemma run_facts_superseded [simp]: "run_facts (superseded i r) = run_facts r"
  by (simp add: run_facts_def superseded_def)

lemma reconcile_tx_keeps:
  assumes "reconcile_tx R spec telco prog ps pe recs tol runID E s = Inr (u, s')" "is_map spec"
  shows "keeps_runs s s' \<and> quals s' = quals s"
proof -
  let ?sc = "(telco, prog, ls_name spec, ps)"
  consider (no) "rejects ?sc runID s s'" | (yes) i where "accepts E ?sc (MinCompletenessRatio tol) runID i s s'"
    using reconcile_tx_Inr [OF assms] by blast
  then show ?thesis
  proof cases
    case no
    then obtain row where s': "s' = s\<lparr>recon_runs := recon_runs s @ [row]\<rparr>" unfolding rejects_def by blast
    show ?thesis by (auto simp: s' keeps_runs_def)
  next
    case yes
    then obtain row new n vs where upd: "s' = s\<lparr>next_id := n, recon_runs := upd_where (active_at E ?sc) (superseded runID) (recon_runs s) @ [row],
        overrides := vs, recon_items := recon_items s @ new\<rparr>" unfolding accepts_def by blast
    then have rows: "recon_runs s' = upd_where (active_at E ?sc) (superseded runID) (recon_runs s) @ [row]" "quals s' = quals s" by simp_all
    have "\<exists>r' \<in> set (recon_runs s'). run_facts r' = run_facts r \<and> (rr_state r \<noteq> ''REJECTED'' \<longrightarrow> rr_state r' \<noteq> ''REJECTED'')"
      if "r \<in> set (recon_runs s)" for r
      using that by (intro bexI [of _ "if active_at E ?sc r then superseded runID r else r"]) (auto simp: rows(1) set_upd_where)
    with rows(2) show ?thesis by (simp add: keeps_runs_def)
  qed
qed

lemma reconcile_tx_header:
  assumes "reconcile_tx R spec telco prog ps pe recs tol runID E s = Inr (u, s')" "\<not> Rejected u"
  shows "\<exists>r \<in> set (recon_runs s'). header_of telco (ls_name spec) u r"
proof -
  define windowed where "windowed = filter (\<lambda>tr. in_window ps pe (CreditedAt tr)) recs"
  from assms(1) obtain man plat where commit: "let c = classify_window (ls_name spec) tol plat windowed
                (no_summary\<lparr>RunID := runID, TelcoRecords := int (length recs), PeriodStart := ps, PeriodEnd := pe,
                   SourceControlTotalMinor := fst (snd man), SourceHash := snd (snd man), SourceRecordCount := fst man,
                   PlatformRecords := int (length plat)\<rparr>)
      in commit_run (telco, prog, ls_name spec, ps) runID tol man
           (run_header E runID telco prog (ls_name spec) ps pe man plat (cl_matched c))
           ((cl_sum c)\<lparr>PlatformControlTotalMinor := platform_sum plat, MatchedControlTotalMinor := cl_matched c\<rparr>) (cl_items c) E s = Inr (u, s')"
    unfolding reconcile_tx_def windowed_def [symmetric] by (auto simp: Let_def andThen_Inr_iff)
  define u0 where "u0 = no_summary\<lparr>RunID := runID, TelcoRecords := int (length recs), PeriodStart := ps, PeriodEnd := pe,
                   SourceControlTotalMinor := fst (snd man), SourceHash := snd (snd man), SourceRecordCount := fst man,
                   PlatformRecords := int (length plat)\<rparr>"
  define c where "c = classify_window (ls_name spec) tol plat windowed u0"
  note run = commit [unfolded Let_def, folded u0_def, folded c_def]
  have "fixed_part (cl_sum c) = fixed_part u0" by (simp add: c_def fixed_part_window)
  then have "RunID (cl_sum c) = runID" "PlatformRecords (cl_sum c) = int (length plat)" "SourceRecordCount (cl_sum c) = fst man"
    by (simp_all add: fixed_part_def u0_def)
  then show ?thesis
    by (intro commit_run_header [OF run assms(2)]) (simp add: header_of_def run_header_def)
qed

lemma reconcileLayer_effect:
  assumes "reconcileLayer E R spec telco prog ps pe recs tol s = (res, s')" "is_map spec"
  shows "keeps_runs s s' \<and> quals s' = quals s
    \<and> (\<forall>u. res = Inr u \<longrightarrow> \<not> Rejected u \<longrightarrow> (\<exists>r \<in> set (recon_runs s'). header_of telco (ls_name spec) u r))"
proof -
  obtain runID where run: "WithTenantTx E telco (reconcile_tx R spec telco prog ps pe recs tol runID) (s\<lparr>next_id := Suc (next_id s)\<rparr>) = (res, s')"
    using assms(1) by (auto simp: reconcileLayer_def NewID_def)
  show ?thesis
  proof (cases res)
    case (Inl e)
    have "s' = s\<lparr>next_id := Suc (next_id s)\<rparr>" by (rule WithTenantTx_error [OF run [unfolded Inl]])
    with Inl show ?thesis by (simp add: keeps_runs_same)
  next
    case (Inr u)
    with run have tx: "reconcile_tx R spec telco prog ps pe recs tol runID (E\<lparr>tenant := telco\<rparr>) (s\<lparr>next_id := Suc (next_id s)\<rparr>) = Inr (u, s')"
      by (simp add: WithTenantTx_Inr)
    have "keeps_runs s (s\<lparr>next_id := Suc (next_id s)\<rparr>)" by (rule keeps_runs_same) simp
    with reconcile_tx_keeps [OF tx assms(2)] reconcile_tx_header [OF tx] keeps_runs_trans Inr show ?thesis by auto
  qed
qed

lemma net_rows_keys: "net_rows E s evs ks = Inr m \<Longrightarrow> map fst m = ks"
  by (induction ks arbitrary: m) (auto simp: Let_def andThen_Inr_iff)

lemma recovery_is_map: "is_map recoverySpec"
  by (auto simp: is_map_def recoverySpec_def dest: net_rows_keys)

section \<open>Evidence\<close>

definition confirms :: "run_row \<Rightarrow> f64 \<Rightarrow> bool" where
  "confirms r ratio \<longleftrightarrow> (\<exists>m. rr_matched_sum r = Some m
     \<and> confirmationHolds (rr_plat_count r) (rr_src_count r) m (rr_plat_sum r) ratio)"

definition qualifies :: "db \<Rightarrow> qual_row \<Rightarrow> bool" where
  "qualifies s q \<longleftrightarrow> f64_unit (qu_ratio q) \<and> (\<exists>r \<in> set (recon_runs s). rr_id r = qu_run q \<and> rr_telco r = qu_telco q
     \<and> rr_layer r = layerRecovery \<and> rr_state r \<noteq> ''REJECTED'' \<and> confirms r (qu_ratio q))"

definition gains :: "db \<Rightarrow> db \<Rightarrow> bool" where
  "gains s s' \<longleftrightarrow> keeps_runs s s' \<and> set (quals s) \<subseteq> set (quals s') \<and> (\<forall>q \<in> set (quals s') - set (quals s). qualifies s' q)"

lemma confirms_facts: "run_facts r = run_facts r' \<Longrightarrow> confirms r ratio = confirms r' ratio"
  by (simp add: run_facts_def confirms_def)

lemma qualifies_mono:
  assumes "keeps_runs s s'" "qualifies s q"
  shows "qualifies s' q"
proof -
  obtain r where r: "r \<in> set (recon_runs s)" "rr_id r = qu_run q" "rr_telco r = qu_telco q" "rr_layer r = layerRecovery"
    "rr_state r \<noteq> ''REJECTED''" "confirms r (qu_ratio q)" using assms(2) unfolding qualifies_def by blast
  with assms(1) obtain r' where r': "r' \<in> set (recon_runs s')" "run_facts r' = run_facts r" "rr_state r' \<noteq> ''REJECTED''"
    unfolding keeps_runs_def by blast
  then have "confirms r' (qu_ratio q)" using r(6) confirms_facts by blast
  moreover have "rr_id r' = rr_id r" "rr_telco r' = rr_telco r" "rr_layer r' = rr_layer r" using r'(2) by (simp_all add: run_facts_def)
  ultimately show ?thesis using assms(2) r r' unfolding qualifies_def by (intro conjI bexI [of _ r']) simp_all
qed

lemma gains_trans: "gains s s1 \<Longrightarrow> gains s1 s2 \<Longrightarrow> gains s s2"
  unfolding gains_def using keeps_runs_trans qualifies_mono by (metis Diff_iff subset_eq)

lemma gains_keeps: "keeps_runs s s' \<Longrightarrow> quals s' = quals s \<Longrightarrow> gains s s'"
  by (simp add: gains_def)

lemma gains_refl: "gains s s"
  by (simp add: gains_keeps keeps_runs_same)

lemma clearRecoveryHolds_frame:
  "clearRecoveryHolds E telco ps pe s = (res, s') \<Longrightarrow> recon_runs s' = recon_runs s \<and> quals s' = quals s"
  by (auto simp: clearRecoveryHolds_def WithTenantTx_def TenantFrom_def ClearMatched_def Let_def split: sum.splits if_splits)

lemma reconcileRecoveryDayWith_effect:
  assumes "reconcileRecoveryDayWith E V cfg adapter telco d s = (res, s')"
  shows "gains s s' \<and> (\<forall>u. res = Inr u \<longrightarrow> \<not> Rejected u \<longrightarrow> (\<exists>r \<in> set (recon_runs s'). header_of telco layerRecovery u r))"
proof (cases "\<exists>ps pe f. businessDayWindow V (zone_offset cfg) d = Inr (ps, pe) \<and> FetchDay E V adapter telco d s = Inr f")
  case False
  then have "s' = s \<and> (\<exists>e. res = Inl e)"
    using assms by (auto simp: reconcileRecoveryDayWith_def split: sum.splits prod.splits)
  then show ?thesis using gains_refl by blast
next
  case True
  then obtain ps pe f where w: "businessDayWindow V (zone_offset cfg) d = Inr (ps, pe)" and f: "FetchDay E V adapter telco d s = Inr f" by blast
  obtain r1 s1 where run: "reconcileLayer E (rv_recon V) recoverySpec telco recoveryProgrammeSentinel ps pe (mapFeedToTelco f d ps)
      (toleranceCfg.truncate cfg) s = (r1, s1)" by fastforce
  have eff: "gains s s1" "\<And>u. r1 = Inr u \<Longrightarrow> \<not> Rejected u \<Longrightarrow> \<exists>r \<in> set (recon_runs s1). header_of telco layerRecovery u r"
    using reconcileLayer_effect [OF run recovery_is_map] gains_keeps by (simp_all add: recoverySpec_def)
  obtain r2 s2 where clear: "clearRecoveryHolds E telco ps pe s1 = (r2, s2)" by fastforce
  have fr: "recon_runs s2 = recon_runs s1" "quals s2 = quals s1" using clearRecoveryHolds_frame [OF clear] by simp_all
  then have "gains s s2" using gains_trans [OF eff(1)] gains_keeps keeps_runs_same by blast
  moreover have "(res, s') = (r1, s1) \<or> s' = s2 \<and> (res = r1 \<or> (\<exists>e. res = Inl e))"
    using assms w f run clear by (auto simp: reconcileRecoveryDayWith_def split: sum.splits if_splits)
  ultimately show ?thesis using eff fr by auto
qed

lemma writeQualification_effect:
  assumes "writeQualification E telco runID cfg s = (res, s')" "f64_unit (MinConfirmationRatio cfg)"
    and "\<exists>r \<in> set (recon_runs s). rr_id r = runID \<and> rr_telco r = telco \<and> rr_layer r = layerRecovery
      \<and> rr_state r \<noteq> ''REJECTED'' \<and> confirms r (MinConfirmationRatio cfg)"
  shows "gains s s' \<and> (\<forall>i t. res = Inr (i, t) \<longrightarrow> t = now E \<and> (\<exists>q \<in> set (quals s'). qu_telco q = telco \<and> qu_id q = i
    \<and> qu_run q = runID \<and> qu_created q = now E))"
proof -
  let ?q = "\<lparr>qu_id = new_id E ''qual'' (next_id s), qu_run = runID, qu_telco = telco, qu_ratio = MinConfirmationRatio cfg,
           qu_window = ArmFreshnessMaxSeconds cfg, qu_config = CfgVersionID cfg, qu_created = now E\<rparr>"
  have "recon_runs s' = recon_runs s \<and> (quals s' = quals s \<and> (\<exists>e. res = Inl e)
      \<or> quals s' = quals s @ [?q] \<and> res = Inr (qu_id ?q, now E))"
    using assms(1) by (auto simp: writeQualification_def NewID_def WithTenantTx_def TenantFrom_def put_quals_def rls_check_def andThen_Inr_iff
        andThen_def split: sum.splits if_splits)
  moreover have "qualifies s' ?q" if "recon_runs s' = recon_runs s"
    using assms(2,3) that by (simp add: qualifies_def)
  ultimately show ?thesis by (auto simp: gains_def keeps_runs_same)
qed

lemma dayConfirmed_confirms:
  assumes "dayConfirmed u ratio" "header_of telco layerRecovery u r"
  shows "rr_id r = RunID u \<and> rr_telco r = telco \<and> rr_layer r = layerRecovery \<and> rr_state r \<noteq> ''REJECTED'' \<and> confirms r ratio"
  using assms by (simp add: dayConfirmed_def header_of_def confirms_def)

definition backed :: "env \<Rightarrow> string \<Rightarrow> int \<Rightarrow> RecoveryControlResult \<Rightarrow> db \<Rightarrow> bool" where
  "backed E telco secs res s \<longleftrightarrow> (\<forall>ev. QualifiedEvidence res = Some ev \<longrightarrow> EvArmFreshnessMaxSeconds ev = secs
     \<and> (\<exists>q \<in> set (quals s). qu_telco q = telco \<and> qu_id q = QualificationID ev \<and> qu_run q = EvRunID ev \<and> qu_created q = now E))"

lemma backed_none [simp]: "backed E telco secs \<lparr>Summaries = out, QualifiedEvidence = None\<rparr> s"
  by (simp add: backed_def)

lemma sweep_last_effect:
  assumes "sweep_days E V cfg adapter telco [d] out s = ((res, err), s')" "f64_unit (MinConfirmationRatio cfg)"
  shows "gains s s' \<and> backed E telco (ArmFreshnessMaxSeconds cfg) res s'"
proof -
  obtain r1 s1 where day: "reconcileRecoveryDayWith E V cfg adapter telco d s = (r1, s1)" by fastforce
  note eff = reconcileRecoveryDayWith_effect [OF day]
  show ?thesis
  proof (cases "\<exists>u. r1 = Inr u \<and> dayConfirmed u (MinConfirmationRatio cfg)")
    case False
    then have "s' = s1 \<and> QualifiedEvidence res = None"
      using assms(1) day by (auto split: sum.splits if_splits)
    with eff show ?thesis by (simp add: backed_def)
  next
    case True
    then obtain u where u: "r1 = Inr u" "dayConfirmed u (MinConfirmationRatio cfg)" by blast
    obtain r2 s2 where wq: "writeQualification E telco (RunID u) cfg s1 = (r2, s2)" by fastforce
    have "\<not> Rejected u" using u(2) by (simp add: dayConfirmed_def)
    then obtain r where "r \<in> set (recon_runs s1)" "header_of telco layerRecovery u r" using eff u(1) by blast
    with dayConfirmed_confirms [OF u(2)] have "\<exists>r \<in> set (recon_runs s1). rr_id r = RunID u \<and> rr_telco r = telco \<and> rr_layer r = layerRecovery
      \<and> rr_state r \<noteq> ''REJECTED'' \<and> confirms r (MinConfirmationRatio cfg)" by blast
    note q = writeQualification_effect [OF wq assms(2) this]
    have out: "s' = s2" "QualifiedEvidence res = (case r2 of Inl e \<Rightarrow> None
        | Inr (i, t) \<Rightarrow> Some \<lparr>QualificationID = i, EvRunID = RunID u, EvidenceAt = t, EvArmFreshnessMaxSeconds = ArmFreshnessMaxSeconds cfg\<rparr>)"
      using assms(1) day u wq by (auto split: sum.splits prod.splits)
    have "gains s s'" using gains_trans [of s s1 s2] eff q out(1) by blast
    then show ?thesis using q out by (auto simp: backed_def split: sum.splits)
  qed
qed

lemma sweep_days_effect:
  assumes "f64_unit (MinConfirmationRatio cfg)"
  shows "sweep_days E V cfg adapter telco ds out s = ((res, err), s') \<Longrightarrow> gains s s' \<and> backed E telco (ArmFreshnessMaxSeconds cfg) res s'"
proof (induction ds arbitrary: out s)
  case Nil
  then show ?case by (auto simp: gains_refl)
next
  case (Cons d ds)
  show ?case
  proof (cases "ds = []")
    case True
    with Cons(2) assms sweep_last_effect show ?thesis by blast
  next
    case False
    obtain r1 s1 where day: "reconcileRecoveryDayWith E V cfg adapter telco d s = (r1, s1)" by fastforce
    have g: "gains s s1" using reconcileRecoveryDayWith_effect [OF day] by blast
    have "(s' = s \<or> s' = s1) \<and> QualifiedEvidence res = None
        \<or> (\<exists>out. sweep_days E V cfg adapter telco ds out s = ((res, err), s'))
        \<or> (\<exists>out. sweep_days E V cfg adapter telco ds out s1 = ((res, err), s'))"
      using Cons(2) False day by (auto split: sum.splits bool.splits)
    then show ?thesis
    proof (elim disjE exE)
      assume "(s' = s \<or> s' = s1) \<and> QualifiedEvidence res = None"
      then show ?thesis using g gains_refl by (auto simp: backed_def)
    next
      fix out1 assume "sweep_days E V cfg adapter telco ds out1 s = ((res, err), s')"
      then show ?thesis by (rule Cons.IH)
    next
      fix out1 assume "sweep_days E V cfg adapter telco ds out1 s1 = ((res, err), s')"
      then show ?thesis using Cons.IH gains_trans [OF g] by blast
    qed
  qed
qed

lemma check_recovery_Inr: "check_recovery V raw = Inr off \<Longrightarrow> f64_unit (raw_confirmation raw) \<and> arming_ok (raw_fresh raw)"
  by (simp add: check_recovery_def arming_ok_def split: if_splits)

lemma loadForRecovery_Inr:
  assumes "loadForRecovery E V R telco s = Inr (cfg, adapter)"
  shows "f64_unit (MinConfirmationRatio cfg) \<and> arming_ok (ArmFreshnessMaxSeconds cfg)"
proof -
  obtain raw off zone i where "check_recovery V raw = Inr off"
    and cfg: "cfg = toleranceCfg.extend (toleranceCfg.truncate raw) \<lparr>MinConfirmationRatio = raw_confirmation raw,
      ArmFreshnessMaxSeconds = raw_fresh raw, BusinessTimezone = zone, zone_offset = off, CfgVersionID = i\<rparr>"
    using assms by (auto simp: loadForRecovery_def andThen_Inr_iff split: option.splits)
  then have "f64_unit (raw_confirmation raw)" "arming_ok (raw_fresh raw)" by (simp_all add: check_recovery_Inr)
  then show ?thesis unfolding cfg by (simp add: toleranceCfg.defs)
qed

lemma RunRecoveryControl_effect:
  assumes "RunRecoveryControl E V R telco s = ((res, err), s')"
  shows "gains s s' \<and> (\<exists>secs. arming_ok secs \<and> backed E telco secs res s')"
proof (cases "\<exists>cfg adapter days. loadForRecovery E V R telco s = Inr (cfg, adapter) \<and> sweep_days E V cfg adapter telco days [] s = ((res, err), s')")
  case True
  then show ?thesis using loadForRecovery_Inr sweep_days_effect by blast
next
  case False
  then have "s' = s \<and> QualifiedEvidence res = None"
    using assms by (auto simp: RunRecoveryControl_def Let_def split: sum.splits option.splits if_splits)
  moreover have "arming_ok 3600" by (simp add: arming_ok_def)
  ultimately show ?thesis using gains_refl by (auto simp: backed_def)
qed

section \<open>The fenced publisher\<close>

text \<open>The configuration the publication statement picks is the one the configuration service resolves.\<close>

lemma sort_key_two_classes:
  fixes k :: "'a \<Rightarrow> int"
  shows "sort_key (\<lambda>r. [if p r then 0 else 1, k r]) xs = sort_key k (filter p xs) @ sort_key k (filter (\<lambda>r. \<not> p r) xs)"
proof (rule properties_for_sort_key)
  show "mset (sort_key k (filter p xs) @ sort_key k (filter (\<lambda>r. \<not> p r) xs)) = mset xs"
    by (simp add: multiset_partition [symmetric])
  fix a
  have stable: "filter (\<lambda>x. k a = k x) (sort_key k ys) = filter (\<lambda>x. k a = k x) ys" for ys
    using sort_key_stable [of k "k a" ys] by (simp add: eq_commute)
  let ?g = "\<lambda>r. [if p r then 0 else 1, k r]" and ?A = "sort_key k (filter p xs)" and ?B = "sort_key k (filter (\<lambda>r. \<not> p r) xs)"
  have all: "filter p ?A = ?A" "filter p ?B = []" "filter (\<lambda>r. \<not> p r) ?A = []" "filter (\<lambda>r. \<not> p r) ?B = ?B"
    by (simp_all add: filter_id_conv filter_empty_conv)
  show "filter (\<lambda>x. ?g a = ?g x) (?A @ ?B) = filter (\<lambda>x. ?g a = ?g x) xs"
  proof (cases "p a")
    case True
    then have "filter (\<lambda>x. ?g a = ?g x) ys = filter (\<lambda>x. k a = k x) (filter p ys)" for ys by (auto intro: filter_cong)
    then show ?thesis by (simp only: filter_append all append_Nil2 stable)
  next
    case False
    then have "filter (\<lambda>x. ?g a = ?g x) ys = filter (\<lambda>x. k a = k x) (filter (\<lambda>r. \<not> p r) ys)" for ys by (auto intro: filter_cong)
    then show ?thesis by (simp only: filter_append all append_Nil stable)
  qed
next
  show "sorted (map (\<lambda>r. [if p r then 0 else 1, k r]) (sort_key k (filter p xs) @ sort_key k (filter (\<lambda>r. \<not> p r) xs)))"
    using sorted_sort_key [of k "filter p xs"] sorted_sort_key [of k "filter (\<lambda>r. \<not> p r) xs"]
    by (auto simp: sorted_append sorted_map elim!: sorted_wrt_mono_rel [rotated])
qed

lemma governing_ActiveAt:
  "governing telco t s = (case ActiveAt ''recon.recovery'' (''telco:'' @ telco) t s of Inl _ \<Rightarrow> None | Inr c \<Rightarrow> Some c)"
proof -
  let ?p = "\<lambda>r. cv_scope r = ''telco:'' @ telco"
  let ?both = "filter (\<lambda>r. covers ''recon.recovery'' (''telco:'' @ telco) t r \<or> covers ''recon.recovery'' ScopeGlobal t r) (configs s)"
  have "ScopeGlobal \<noteq> ''telco:'' @ telco" by (simp add: ScopeGlobal_def)
  then have own: "filter ?p ?both = filter (covers ''recon.recovery'' (''telco:'' @ telco) t) (configs s)"
    and glob: "filter (\<lambda>r. \<not> ?p r) ?both = filter (covers ''recon.recovery'' ScopeGlobal t) (configs s)"
    by (auto simp: covers_def intro!: filter_cong)
  show ?thesis using \<open>ScopeGlobal \<noteq> _\<close>
    unfolding governing_def sort_key_two_classes own glob by (auto simp: ActiveAt_def GetActiveAt_def split: list.splits)
qed

lemma evidence_rows_Some:
  "evidence_rows E ev s = Some (q, r) \<Longrightarrow> q \<in> set (quals s) \<and> r \<in> set (recon_runs s) \<and> qu_telco q = tenant E \<and> qu_id q = QualificationID ev
     \<and> qu_run q = EvRunID ev \<and> rr_telco r = tenant E \<and> rr_id r = qu_run q"
  by (auto simp: evidence_rows_def split: option.splits dest!: find_SomeD)

lemma decision_Some:
  assumes "decision E V t telco ev R s = Inr (Some (qt, window, newer))"
  shows "\<exists>a q r c ratio. List.find (\<lambda>a. ar_telco a = telco \<and> ar_layer a = layerRecovery) (armings R) = Some a
    \<and> evidence_rows E ev s = Some (q, r) \<and> ActiveAt ''recon.recovery'' (''telco:'' @ telco) t s = Inr c
    \<and> rv_policy V (cv_content c) = (Some ratio, Some window) \<and> rr_layer r = layerRecovery \<and> rr_state r = ''ACTIVE''
    \<and> f64_unit ratio \<and> arming_ok window \<and> confirms r ratio \<and> qt = qu_created q
    \<and> newer = (case ar_last a of None \<Rightarrow> True | Some l \<Rightarrow> l < qu_created q)"
proof -
  from assms obtain a q r c ratio m where sel: "List.find (\<lambda>a. ar_telco a = telco \<and> ar_layer a = layerRecovery) (armings R) = Some a"
      "evidence_rows E ev s = Some (q, r)" "governing telco t s = Some c" "rv_policy V (cv_content c) = (Some ratio, Some window)"
      "rr_matched_sum r = Some m"
    and ok: "rr_layer r = layerRecovery" "rr_state r = ''ACTIVE''" "f64_unit ratio" "3600 \<le> window" "window \<le> 604800"
      "if rr_plat_count r = 0 then rr_src_count r = 0 else f64_ceil (f64_mult ratio (f64_of_int (sint (rr_plat_sum r)))) \<le> sint m"
      "qt = qu_created q" "newer = (case ar_last a of None \<Rightarrow> True | Some l \<Rightarrow> l < qu_created q)"
    unfolding decision_def
    by (auto simp: Let_def not_less split: option.splits if_splits prod.splits)
  have "ActiveAt ''recon.recovery'' (''telco:'' @ telco) t s = Inr c" using sel(3) by (simp add: governing_ActiveAt split: sum.splits)
  moreover have "confirms r ratio" using sel(5) ok(6) by (simp add: confirms_def confirmationHolds_def)
  ultimately show ?thesis using sel(1,2,4) ok(1-5,7,8) unfolding arming_ok_def by blast
qed

lemma publish_statement_Inr:
  assumes "publish_statement E V t telco ev R s = Inr (adv, R')"
  shows "\<exists>qt window. decision E V t telco ev R s = Inr (Some (qt, window, adv))
    \<and> R' = R\<lparr>armings := upd_where (\<lambda>a. ar_telco a = telco \<and> ar_layer a = layerRecovery)
           (\<lambda>a. if adv then a\<lparr>ar_last := Some qt, ar_fresh := window\<rparr> else a) (armings R)\<rparr>"
  using assms by (auto simp: publish_statement_def andThen_Inr_iff split: option.splits)

lemma evidence_rows_key: "evidence_rows E (ev\<lparr>EvidenceAt := x, EvArmFreshnessMaxSeconds := y\<rparr>) s = evidence_rows E ev s"
  by (simp add: evidence_rows_def)

lemma decision_key: "decision E V t telco (ev\<lparr>EvidenceAt := x, EvArmFreshnessMaxSeconds := y\<rparr>) R s = decision E V t telco ev R s"
  unfolding decision_def evidence_rows_key ..

lemma Publish_key: "Publish E V waiting locked t telco (ev\<lparr>EvidenceAt := x, EvArmFreshnessMaxSeconds := y\<rparr>) = Publish E V waiting locked t telco ev"
  unfolding Publish_def bind_check_def evidence_rows_key publish_statement_def decision_key ..

lemma Publish_Inr:
  assumes "Publish E V waiting locked t telco ev (R, s) = (Inr adv, R', s')"
  shows "s' = locked (snd (waiting (R, s))) \<and> publish_statement (E\<lparr>tenant := telco\<rparr>) V t telco ev (fst (waiting (R, s))) s' = Inr (adv, R')"
  using assms by (auto simp: Publish_def Let_def split: if_splits sum.splits prod.splits)

lemma Publish_Inl:
  assumes "Publish E V waiting locked t telco ev (R, s) = (Inl e, R', s')"
  shows "R' = R \<or> R' = fst (waiting (R, s))"
  using assms by (auto simp: Publish_def Let_def split: if_splits sum.splits prod.splits)

text \<open>C38: Whatever other transactions commit while it waits, the fenced publisher renews the gate only when, at the instant of its one
  publication statement, the named qualification belongs to a run of the recovery layer that is ACTIVE and whose stored totals
  reach the confirmation ratio of the configuration governing at that instant; it stamps the qualification's own time and that configuration's
  window, and only if that time is newer than what is there. A refusal changes nothing, and neither the time nor the
  window the caller claims has any influence.\<close>

theorem publish_is_fenced:
  assumes "distinct (map (\<lambda>a. (ar_telco a, ar_layer a)) (armings (fst (waiting (R, s)))))"
  shows "(case Publish E V waiting locked t telco ev (R, s) of
      (Inl e, R', s') \<Rightarrow> R' = R \<or> R' = fst (waiting (R, s))
    | (Inr adv, R', s') \<Rightarrow> s' = locked (snd (waiting (R, s)))
        \<and> (\<exists>q \<in> set (quals s'). \<exists>r \<in> set (recon_runs s'). \<exists>a \<in> set (armings (fst (waiting (R, s)))). \<exists>c ratio window.
             qu_id q = QualificationID ev \<and> qu_run q = EvRunID ev \<and> rr_id r = EvRunID ev
             \<and> rr_telco r = telco \<and> rr_layer r = layerRecovery \<and> rr_state r = ''ACTIVE''
             \<and> ActiveAt ''recon.recovery'' (''telco:'' @ telco) t s' = Inr c \<and> rv_policy V (cv_content c) = (Some ratio, Some window)
             \<and> f64_unit ratio \<and> arming_ok window \<and> confirms r ratio
             \<and> ar_telco a = telco \<and> ar_layer a = layerRecovery
             \<and> (adv \<longleftrightarrow> (case ar_last a of None \<Rightarrow> True | Some l \<Rightarrow> l < qu_created q))
             \<and> R' = (fst (waiting (R, s)))\<lparr>armings := upd_where (\<lambda>b. b = a)
                 (\<lambda>b. if adv then b\<lparr>ar_last := Some (qu_created q), ar_fresh := window\<rparr> else b) (armings (fst (waiting (R, s))))\<rparr>))
    \<and> Publish E V waiting locked t telco (ev\<lparr>EvidenceAt := x, EvArmFreshnessMaxSeconds := y\<rparr>) (R, s)
        = Publish E V waiting locked t telco ev (R, s)"
proof -
  obtain res R' s' where pub: "Publish E V waiting locked t telco ev (R, s) = (res, R', s')" by (cases "Publish E V waiting locked t telco ev (R, s)")
  let ?R = "fst (waiting (R, s))"
  have "\<exists>q \<in> set (quals s'). \<exists>r \<in> set (recon_runs s'). \<exists>a \<in> set (armings ?R). \<exists>c ratio window.
             qu_id q = QualificationID ev \<and> qu_run q = EvRunID ev \<and> rr_id r = EvRunID ev
             \<and> rr_telco r = telco \<and> rr_layer r = layerRecovery \<and> rr_state r = ''ACTIVE''
             \<and> ActiveAt ''recon.recovery'' (''telco:'' @ telco) t s' = Inr c \<and> rv_policy V (cv_content c) = (Some ratio, Some window)
             \<and> f64_unit ratio \<and> arming_ok window \<and> confirms r ratio \<and> ar_telco a = telco \<and> ar_layer a = layerRecovery
             \<and> (adv \<longleftrightarrow> (case ar_last a of None \<Rightarrow> True | Some l \<Rightarrow> l < qu_created q))
             \<and> R' = ?R\<lparr>armings := upd_where (\<lambda>b. b = a)
                 (\<lambda>b. if adv then b\<lparr>ar_last := Some (qu_created q), ar_fresh := window\<rparr> else b) (armings ?R)\<rparr>" if "res = Inr adv" for adv
  proof -
    let ?E = "E\<lparr>tenant := telco\<rparr>"
    note st = Publish_Inr [OF pub [unfolded that]]
    obtain qt window where d: "decision ?E V t telco ev ?R s' = Inr (Some (qt, window, adv))"
      and R': "R' = ?R\<lparr>armings := upd_where (\<lambda>a. ar_telco a = telco \<and> ar_layer a = layerRecovery)
           (\<lambda>a. if adv then a\<lparr>ar_last := Some qt, ar_fresh := window\<rparr> else a) (armings ?R)\<rparr>"
      using publish_statement_Inr st by blast
    obtain a q r c ratio where a: "List.find (\<lambda>a. ar_telco a = telco \<and> ar_layer a = layerRecovery) (armings ?R) = Some a"
      and ev: "evidence_rows ?E ev s' = Some (q, r)"
      and rest: "ActiveAt ''recon.recovery'' (''telco:'' @ telco) t s' = Inr c" "rv_policy V (cv_content c) = (Some ratio, Some window)"
        "rr_layer r = layerRecovery" "rr_state r = ''ACTIVE''" "f64_unit ratio" "arming_ok window" "confirms r ratio"
        "qt = qu_created q" "adv = (case ar_last a of None \<Rightarrow> True | Some l \<Rightarrow> l < qu_created q)"
      using decision_Some [OF d] by blast
    have mem: "a \<in> set (armings ?R)" "ar_telco a = telco" "ar_layer a = layerRecovery" using find_SomeD [OF a] by simp_all
    have one: "ar_telco b = telco \<and> ar_layer b = layerRecovery \<longleftrightarrow> b = a" if "b \<in> set (armings ?R)" for b
      using distinct_key_unique [OF assms that mem(1)] mem by auto
    have key: "upd_where (\<lambda>a. ar_telco a = telco \<and> ar_layer a = layerRecovery) f (armings ?R) = upd_where (\<lambda>b. b = a) f (armings ?R)" for f
      using one by (auto simp: upd_where_def)
    have "R' = ?R\<lparr>armings := upd_where (\<lambda>b. b = a)
        (\<lambda>b. if adv then b\<lparr>ar_last := Some (qu_created q), ar_fresh := window\<rparr> else b) (armings ?R)\<rparr>"
      unfolding R' key rest(8) ..
    with evidence_rows_Some [OF ev] rest mem show ?thesis
      by (intro bexI [of _ q] bexI [of _ r] bexI [of _ a] exI [of _ c] exI [of _ ratio] exI [of _ window] conjI) simp_all
  qed
  with pub Publish_Inr Publish_Inl show ?thesis unfolding Publish_key by (cases res) auto
qed

section \<open>The gate\<close>

text \<open>
  Everything that acts on the gate, in any order: proposals, approvals and disarming, the control with and without the
  legacy publisher, the publication statement of the fenced publisher, reconciliations of any layer, and any other
  transaction of the platform, which leaves runs, qualifications and arming alone. A refused call is a step as well.
\<close>

inductive gate_step :: "registry \<times> db \<Rightarrow> registry \<times> db \<Rightarrow> bool" where
  propose: "ProposeArmRecovery E V p st = (res, st') \<Longrightarrow> gate_step st st'"
| approve: "ApproveArmRecovery i actor R = (res, R') \<Longrightarrow> gate_step (R, s) (R', s)"
| disarm: "DisarmRecovery E telco actor reason st = (res, st') \<Longrightarrow> gate_step st st'"
| run: "RunRecovery E V telco st = (res, st') \<Longrightarrow> gate_step st st'"
| control: "RunRecoveryControl E V R telco s = (res, s') \<Longrightarrow> gate_step (R, s) (R, s')"
| publish: "publish_statement (E\<lparr>tenant := telco\<rparr>) V t telco ev R s = Inr (adv, R') \<Longrightarrow> gate_step (R, s) (R', s)"
| reconcile: "reconcileLayer E C spec telco prog ps pe recs tol s = (res, s') \<Longrightarrow> is_map spec \<Longrightarrow> gate_step (R, s) (R, s')"
| elsewhere: "recon_runs s' = recon_runs s \<Longrightarrow> quals s' = quals s \<Longrightarrow> armings R' = armings R \<Longrightarrow> armreqs R' = armreqs R
    \<Longrightarrow> gate_step (R, s) (R', s')"

definition two_person_armed :: "registry \<Rightarrow> string \<Rightarrow> string \<Rightarrow> bool" where
  "two_person_armed R telco layer \<longleftrightarrow> (\<exists>q \<in> set (armreqs R). aq_telco q = telco \<and> aq_layer q = layer \<and> aq_state q = ''APPROVED''
     \<and> (\<exists>p. aq_approver q = Some p \<and> p \<noteq> aq_by q))"

definition stamped :: "db \<Rightarrow> arming_row \<Rightarrow> bool" where
  "stamped s a \<longleftrightarrow> (\<forall>t. ar_last a = Some t \<longrightarrow> (\<exists>q \<in> set (quals s). qu_telco q = ar_telco a \<and> qu_created q = t))"

definition gate_inv :: "registry \<times> db \<Rightarrow> bool" where
  "gate_inv = (\<lambda>(R, s). (\<forall>q \<in> set (quals s). qualifies s q) \<and> (\<forall>a \<in> set (armings R). arming_ok (ar_fresh a)
     \<and> two_person_armed R (ar_telco a) (ar_layer a) \<and> stamped s a))"

lemma stamped_gains: "gains s s' \<Longrightarrow> stamped s a \<Longrightarrow> stamped s' a"
  by (auto simp: gains_def stamped_def)

lemma gate_inv_db:
  assumes "gate_inv (R, s)" "gains s s'"
  shows "gate_inv (R, s')"
proof -
  have "qualifies s' q" if "q \<in> set (quals s')" for q
    using assms that qualifies_mono unfolding gains_def gate_inv_def by (cases "q \<in> set (quals s)") auto
  then show ?thesis using assms stamped_gains by (auto simp: gate_inv_def)
qed

lemma gate_inv_registry:
  assumes "gate_inv (R, s)" "armings R' = armings R" "\<And>telco layer. two_person_armed R telco layer \<Longrightarrow> two_person_armed R' telco layer"
  shows "gate_inv (R', s)"
  using assms by (auto simp: gate_inv_def)

lemma put_armreqs_Inr: "put_armreqs rows R = Inr R' \<Longrightarrow> R' = R\<lparr>armreqs := rows\<rparr> \<and> list_all armreq_checks rows"
  by (auto simp: put_armreqs_def split: if_splits)

lemma propose_gate:
  assumes "gate_inv st" "ProposeArmRecovery E V p st = (res, st')"
  shows "gate_inv st'"
proof -
  obtain R s where st: "st = (R, s)" by fastforce
  obtain R' s' where st': "st' = (R', s')" by fastforce
  have upd: "armings R' = armings R" "set (armreqs R) \<subseteq> set (armreqs R')" "recon_runs s' = recon_runs s" "quals s' = quals s"
    using assms(2) unfolding st st'
    by (auto simp: ProposeArmRecovery_def NewID_def split: sum.splits dest!: put_armreqs_Inr)
  then have "gains s s'" by (intro gains_keeps keeps_runs_same)
  with assms(1) st have "gate_inv (R, s')" by (simp add: gate_inv_db)
  then show ?thesis unfolding st' by (rule gate_inv_registry [OF _ upd(1)]) (use upd(2) in \<open>auto simp: two_person_armed_def\<close>)
qed

lemma two_person_same: "armreqs R' = armreqs R \<Longrightarrow> two_person_armed R' = two_person_armed R"
  by (intro ext) (simp add: two_person_armed_def)

lemma approve_gate:
  assumes inv: "gate_inv (R, s)" and run: "ApproveArmRecovery i actor R = (res, R')"
  shows "gate_inv (R', s)"
proof (cases "approve_arm_tx i actor R")
  case (Inl e)
  with assms show ?thesis by (simp add: ApproveArmRecovery_def)
next
  case (Inr R2)
  let ?p = "\<lambda>r. aq_id r = i \<and> aq_state r = ''PENDING''" and ?f = "\<lambda>r. r\<lparr>aq_state := ''APPROVED'', aq_approver := Some actor\<rparr>"
  from Inr run have R': "R' = R2" by (simp add: ApproveArmRecovery_def)
  from Inr obtain r R1 where r: "List.find ?p (armreqs R) = Some r" and R1: "put_armreqs (upd_where ?p ?f (armreqs R)) R = Inr R1"
    and live: "SetLiveArmed (aq_telco r) (aq_layer r) (aq_fresh r) R1 = Inr R2"
    by (auto simp: approve_arm_tx_def Let_def split: option.splits sum.splits)
  have rows: "R1 = R\<lparr>armreqs := upd_where ?p ?f (armreqs R)\<rparr>" "list_all armreq_checks (upd_where ?p ?f (armreqs R))"
    using put_armreqs_Inr [OF R1] by simp_all
  have mem: "r \<in> set (armreqs R)" "?p r" using find_SomeD [OF r] by simp_all
  then have new: "?f r \<in> set (upd_where ?p ?f (armreqs R))" by (auto simp: set_upd_where)
  with rows(2) have "armreq_checks (?f r)" by (simp add: list_all_iff)
  then have "two_person_armed R1 (aq_telco r) (aq_layer r)"
    using new unfolding two_person_armed_def rows(1) by (intro bexI [of _ "?f r"]) (simp_all add: armreq_checks_def)
  moreover have "two_person_armed R1 telco layer" if "two_person_armed R telco layer" for telco layer
    using that unfolding two_person_armed_def rows(1) by (auto simp: set_upd_where)
  then have "gate_inv (R1, s)" using gate_inv_registry [OF inv, of R1] rows(1) by simp
  moreover have "R2 = R1 \<or> arming_ok (aq_fresh r) \<and> R2 = R1\<lparr>armings := armings R1 @ [\<lparr>ar_telco = aq_telco r, ar_layer = aq_layer r,
      ar_last = None, ar_fresh = aq_fresh r\<rparr>]\<rparr>"
    using live by (auto simp: SetLiveArmed_def split: if_splits)
  moreover from this have "two_person_armed R2 = two_person_armed R1" by (intro two_person_same) auto
  ultimately show ?thesis unfolding R' by (auto simp: gate_inv_def stamped_def)
qed

lemma disarm_gate:
  assumes "gate_inv st" "DisarmRecovery E telco actor reason st = (res, st')"
  shows "gate_inv st'"
proof -
  obtain R s where st: "st = (R, s)" by fastforce
  show ?thesis
  proof (cases "actor = '''' \<or> reason = ''''")
    case True
    with assms st show ?thesis by (auto simp: DisarmRecovery_def)
  next
    case False
    define s1 where "s1 = snd st'"
    with assms(2) st False have "recon_runs s1 = recon_runs s" "quals s1 = quals s" "st' = (SetDown telco ReconLayerRecovery R, s1)"
      by (auto simp: DisarmRecovery_def NewID_def)
    moreover from this have "gate_inv (R, s1)" using assms(1) st gate_inv_db [of R s s1] gains_keeps [of s s1] keeps_runs_same [of s1 s] by simp
    moreover have "two_person_armed (SetDown telco ReconLayerRecovery R) = two_person_armed R" by (intro two_person_same) (simp add: SetDown_def)
    ultimately show ?thesis by (auto simp: gate_inv_def SetDown_def)
  qed
qed

lemma run_gate:
  assumes inv: "gate_inv st" and run: "RunRecovery E V telco st = (res, st')"
  shows "gate_inv st'"
proof -
  obtain R s where st: "st = (R, s)" by fastforce
  obtain cres e s1 where ctl: "RunRecoveryControl E V R telco s = ((cres, e), s1)" by (metis prod.collapse)
  obtain secs where g: "gains s s1" and secs: "arming_ok secs" "backed E telco secs cres s1"
    using RunRecoveryControl_effect [OF ctl] by blast
  have inv1: "gate_inv (R, s1)" using inv g st gate_inv_db by blast
  show ?thesis
  proof (cases "st' = (R, s1)")
    case True
    with inv1 show ?thesis by simp
  next
    case False
    then obtain ev R' where ev: "QualifiedEvidence cres = Some ev" and pub: "LegacyRecoveryPublisher E telco ev R = Inr R'" and st': "st' = (R', s1)"
      using run st ctl by (auto simp: RunRecovery_def split: option.splits sum.splits)
    let ?p = "\<lambda>a. ar_telco a = telco \<and> ar_layer a = ReconLayerRecovery"
    from secs ev obtain q where q: "q \<in> set (quals s1)" "qu_telco q = telco" "qu_created q = now E" "EvArmFreshnessMaxSeconds ev = secs"
      unfolding backed_def by blast
    with pub have R': "R' = R\<lparr>armings := upd_where ?p (\<lambda>a. a\<lparr>ar_last := Some (now E), ar_fresh := secs\<rparr>) (armings R)\<rparr>"
      by (auto simp: LegacyRecoveryPublisher_def AdvanceFreshness_def Let_def andThen_Inr_iff split: if_splits)
    then have same: "two_person_armed R' = two_person_armed R" by (intro two_person_same) simp
    have "stamped s1 (a\<lparr>ar_last := Some (now E), ar_fresh := secs\<rparr>)" if "?p a" for a
      using q that by (auto simp: stamped_def)
    then show ?thesis using inv1 secs(1) unfolding st' gate_inv_def prod.case same by (auto simp: R' set_upd_where)
  qed
qed

lemma publish_gate:
  assumes inv: "gate_inv (R, s)" and pub: "publish_statement (E\<lparr>tenant := telco\<rparr>) V t telco ev R s = Inr (adv, R')"
  shows "gate_inv (R', s)"
proof -
  let ?p = "\<lambda>a. ar_telco a = telco \<and> ar_layer a = layerRecovery"
  obtain qt window where d: "decision (E\<lparr>tenant := telco\<rparr>) V t telco ev R s = Inr (Some (qt, window, adv))"
    and R': "R' = R\<lparr>armings := upd_where ?p (\<lambda>a. if adv then a\<lparr>ar_last := Some qt, ar_fresh := window\<rparr> else a) (armings R)\<rparr>"
    using publish_statement_Inr [OF pub] by blast
  obtain q r where ev: "evidence_rows (E\<lparr>tenant := telco\<rparr>) ev s = Some (q, r)" and w: "arming_ok window" "qt = qu_created q"
    using decision_Some [OF d] by blast
  have "stamped s (a\<lparr>ar_last := Some qt, ar_fresh := window\<rparr>)" if "?p a" for a
    using evidence_rows_Some [OF ev] w(2) that by (auto simp: stamped_def)
  moreover from R' have "two_person_armed R' = two_person_armed R" by (intro two_person_same) simp
  ultimately show ?thesis using inv w(1) unfolding gate_inv_def prod.case by (auto simp: R' set_upd_where)
qed

lemma gate_step_inv: "gate_step st st' \<Longrightarrow> gate_inv st \<Longrightarrow> gate_inv st'"
proof (induction rule: gate_step.induct)
  case (control E V R telco s res s')
  then show ?case using gate_inv_db RunRecoveryControl_effect by (metis prod.collapse)
next
  case (reconcile E C spec telco prog ps pe recs tol s res s' R)
  then show ?case using gate_inv_db reconcileLayer_effect gains_keeps by blast
next
  case (elsewhere s' s R' R)
  then have "gains s s'" by (intro gains_keeps keeps_runs_same)
  then have "gate_inv (R, s')" using elsewhere gate_inv_db by blast
  then show ?case by (rule gate_inv_registry [OF _ elsewhere(3)]) (simp add: two_person_same [OF elsewhere(4)])
qed (blast intro: propose_gate approve_gate disarm_gate run_gate publish_gate)+

lemma gate_inv_reachable:
  assumes "gate_step\<^sup>*\<^sup>* (R0, s0) st" "armings R0 = []" "quals s0 = []"
  shows "gate_inv st"
proof -
  have "gate_inv (R0, s0)" using assms(2,3) by (simp add: gate_inv_def)
  with assms(1) show ?thesis by (induction rule: rtranclp_induct) (auto intro: gate_step_inv)
qed

text \<open>What stands behind an open gate.\<close>

lemma live_gate:
  assumes "gate_inv (R, s)" "IsLayerLive t telco layer R"
  shows "two_person_armed R telco layer \<and> (\<exists>q \<in> set (quals s). qu_telco q = telco \<and> t - 604800 * second \<le> qu_created q \<and> qualifies s q)"
proof -
  obtain a l where a: "a \<in> set (armings R)" "ar_telco a = telco" "ar_layer a = layer" "ar_last a = Some l" "l \<ge> t - ar_fresh a * second"
    using assms(2) by (auto simp: IsLayerLive_def split: option.splits)
  then have ok: "arming_ok (ar_fresh a)" "two_person_armed R telco layer" "stamped s a" using assms(1) by (auto simp: gate_inv_def)
  from ok(3) a obtain q where q: "q \<in> set (quals s)" "qu_telco q = telco" "qu_created q = l" unfolding stamped_def by blast
  have "ar_fresh a * second \<le> 604800 * second" using ok(1) by (simp add: arming_ok_def second_def)
  then show ?thesis using q a ok(2) assms(1) by (auto simp: gate_inv_def intro!: bexI [of _ q])
qed


section \<open>Days\<close>

lemma day_loop_upto: "day_loop V a b = map (rv_format V) [a..b]"
proof (induction V a b rule: day_loop.induct)
  case (1 V a b)
  then show ?case by (subst day_loop.simps) (simp add: upto.simps [of a b])
qed

lemma one_day_pos: "0 < one_day"
  by (simp add: one_day_def second_def)

lemma day_of_iff: "(x + off) div one_day = d \<longleftrightarrow> in_window (d * one_day - off) ((d + 1) * one_day - off) x"
proof
  assume "(x + off) div one_day = d"
  moreover have "(x + off) div one_day * one_day + (x + off) mod one_day = x + off" "0 \<le> (x + off) mod one_day" "(x + off) mod one_day < one_day"
    using one_day_pos by simp_all
  ultimately show "in_window (d * one_day - off) ((d + 1) * one_day - off) x" by (auto simp: in_window_def algebra_simps)
next
  assume "in_window (d * one_day - off) ((d + 1) * one_day - off) x"
  then have "x + off = d * one_day + (x + off - d * one_day)" "0 \<le> x + off - d * one_day" "x + off - d * one_day < one_day"
    by (auto simp: in_window_def algebra_simps)
  then show "(x + off) div one_day = d" by (intro int_div_pos_eq [of _ "one_day" _ "x + off - d * one_day"]) (simp_all add: mult.commute)
qed

lemma settled_day:
  "lastSettledBusinessDay V off cutoff = Some (rv_format V ((cutoff + off) div one_day - 1))"
proof -
  have "in_window ((cutoff + off) div one_day * one_day - off) (((cutoff + off) div one_day + 1) * one_day - off) cutoff"
    using day_of_iff by blast
  then show ?thesis by (auto simp: lastSettledBusinessDay_def in_window_def numeral_eq_Suc)
qed

text \<open>C40: The two loops over business days end and agree: the newest day of a control is the last one whose window has closed at the cutoff,
  and the days swept are all days from the one the lookback starts in up to it, oldest first, so that every instant of the lookback
  before the end of the newest day lies in the window of exactly one swept day.\<close>

theorem control_sweeps_settled_days:
  assumes "first = (cutoff - back + off) div one_day" "newest = (cutoff + off) div one_day - 1"
    and "\<forall>d. d = newest \<or> first \<le> d \<and> d \<le> newest \<longrightarrow> rv_parse V (rv_format V d) = Some d"
  shows "lastSettledBusinessDay V off cutoff = Some (rv_format V newest)
    \<and> (newest + 1) * one_day - off \<le> cutoff \<and> cutoff < (newest + 2) * one_day - off
    \<and> businessDayStrings V off (cutoff - back) (rv_format V newest) = map (rv_format V) [first..newest]
    \<and> (\<forall>x. cutoff - back \<le> x \<and> x < (newest + 1) * one_day - off \<longrightarrow>
        (\<exists>!d. d \<in> {first..newest} \<and> (\<exists>ps pe. businessDayWindow V off (rv_format V d) = Inr (ps, pe) \<and> in_window ps pe x)))"
proof -
  have win: "(\<exists>ps pe. businessDayWindow V off (rv_format V d) = Inr (ps, pe) \<and> in_window ps pe x) \<longleftrightarrow> (x + off) div one_day = d"
    if "d \<in> {first..newest}" for d x
    using assms(3) that by (simp add: businessDayWindow_def day_of_iff)
  have "\<exists>!d. d \<in> {first..newest} \<and> (\<exists>ps pe. businessDayWindow V off (rv_format V d) = Inr (ps, pe) \<and> in_window ps pe x)"
    if "cutoff - back \<le> x" "x < (newest + 1) * one_day - off" for x
  proof -
    have "first \<le> (x + off) div one_day" unfolding assms(1) using that(1) one_day_pos by (intro zdiv_mono1) simp_all
    moreover have "(x + off) div one_day * one_day < (newest + 1) * one_day" using that(2) day_of_iff [of x off] by (force simp: in_window_def)
    then have "(x + off) div one_day < newest + 1" using one_day_pos by (simp only: mult_less_cancel_right_pos)
    ultimately have "(x + off) div one_day \<in> {first..newest}" by simp
    note win' = win [OF this, of x]
    show ?thesis
    proof (rule ex1I [of _ "(x + off) div one_day"])
      fix d assume d: "d \<in> {first..newest} \<and> (\<exists>ps pe. businessDayWindow V off (rv_format V d) = Inr (ps, pe) \<and> in_window ps pe x)"
      with win [of d x] show "d = (x + off) div one_day" by simp
    qed (use \<open>_ \<in> {first..newest}\<close> win' in simp)
  qed
  moreover have "in_window ((newest + 1) * one_day - off) ((newest + 2) * one_day - off) cutoff"
    using day_of_iff [of cutoff off "newest + 1"] assms(2) by (simp add: add.commute)
  moreover have "businessDayStrings V off (cutoff - back) (rv_format V newest) = map (rv_format V) [first..newest]"
    using assms(1,3) by (simp add: businessDayStrings_def day_loop_upto)
  ultimately show ?thesis using settled_day [of V off cutoff] assms(2) by (auto simp: in_window_def)
qed

text \<open>A lookback that starts after midnight sweeps no day at all, the newest included.\<close>

lemma short_lookback_sweeps_nothing:
  assumes "rv_parse V (rv_format V newest) = Some newest" "newest < (start + off) div one_day"
  shows "businessDayStrings V off start (rv_format V newest) = []"
  using assms by (simp add: businessDayStrings_def day_loop_upto)

text \<open>The marker of mixed currencies has the shape of a currency code.\<close>

lemma mixed_marker_is_iso: "isISOCurrency ''MIX''"
  by code_simp

section \<open>The authentication of a day\<close>

lemma hex_digit_nibble: "n < 16 \<Longrightarrow> hex_digit (nibble n) = Some n"
  by (auto simp: hex_digit_def nibble_def Let_def)

lemma hex_bytes_Encode: "hex_bytes (EncodeToString bs) = Some bs"
proof (induction bs)
  case (Cons b bs)
  have "of_char b div 16 < (16 :: nat)" "of_char b mod 16 < (16 :: nat)" by simp_all
  moreover have "char_of (16 * (of_char b div 16) + of_char b mod 16 :: nat) = b" by simp
  ultimately show ?case using Cons by (simp add: EncodeToString_def hex_digit_nibble)
qed (simp add: EncodeToString_def)

lemma signingString_inject:
  assumes "signingString d n t h = signingString d' n' t' h'" "newline \<notin> set d" "newline \<notin> set d'"
  shows "(d, n, t, h) = (d', n', t', h')"
proof -
  have "newline = CHR 10" by code_simp
  then have nl: "newline \<notin> set (FormatInt i)" for i using Formatted_no_nl [of i] by simp
  have "d @ newline # FormatInt n @ newline # FormatInt (sint t) @ newline # h = d' @ newline # FormatInt n' @ newline # FormatInt (sint t') @ newline # h'"
    using assms(1) by (simp add: signingString_def)
  with assms(2,3) nl have "d = d'" "FormatInt n = FormatInt n'" "FormatInt (sint t) = FormatInt (sint t')" "h = h'"
    by (metis line_unique)+
  then show ?thesis using FormatInt_inj sint_eq_i64 by (auto dest: injD)
qed

lemma total_loop_exact:
  assumes "\<forall>r \<in> set rs. 0 \<le> sint (RecoveryDeductedMinor r)" "0 \<le> sint t" "total_loop t rs = Inr u"
  shows "sint u = sint t + (\<Sum>r\<leftarrow>rs. sint (RecoveryDeductedMinor r))"
  using assms
proof (induction rs arbitrary: t)
  case (Cons r rs)
  let ?m = "RecoveryDeductedMinor r"
  have guard: "\<not> (0 < sint ?m \<and> sint (t + ?m) < sint t)" and rest: "total_loop (t + ?m) rs = Inr u"
    using Cons.prems(3) by (auto simp: Let_def split: if_splits)
  have m: "0 \<le> sint ?m" using Cons.prems(1) by simp
  have "sint t + sint ?m < 2 ^ 63"
  proof (rule ccontr)
    assume over: "\<not> sint t + sint ?m < 2 ^ 63"
    then have "sint (t + ?m) < 0"
      unfolding word_of_int_sint_add using sint_bounds [of t] sint_bounds [of ?m] by (subst sint_of_int_hi) simp_all
    with guard m over sint_bounds [of t] Cons.prems(2) show False by auto
  qed
  with m Cons.prems(2) have "sint (t + ?m) = sint t + sint ?m" by (intro sint_add_i64) (simp add: in_i64_def)
  with Cons.IH [OF _ _ rest] Cons.prems show ?case by simp
qed simp

lemma check_envelope_Inr:
  "check_envelope E V secret date w = Inr f \<longleftrightarrow> TotalMinor (wn_rows w) = Inr (wn_total w) \<and> wn_count w = int (length (wn_rows w))
     \<and> wn_hash w = CanonicalHash E V (wn_rows w) \<and> wn_date w = date
     \<and> (\<exists>want. hex_bytes (wn_signature w) = Some want \<and> length want = 32
          \<and> rv_hmac V secret (signingString date (wn_count w) (wn_total w) (wn_hash w)) = want)
     \<and> \<lparr>BusinessDate = date, EnvRows = wn_rows w, RecordCount = int (length (wn_rows w)), EnvTotalMinor = wn_total w, ContentHash = wn_hash w\<rparr> = f"
  unfolding check_envelope_def Let_def
  by (cases "TotalMinor (wn_rows w)"; cases "hex_bytes (wn_signature w)") auto

lemma http_FetchDay_Inr:
  "http_FetchDay E V url k date = Inr f \<longleftrightarrow> rv_getenv V k \<noteq> '''' \<and> (\<exists>raw w. rv_http V (url @ ''?business_date='' @ date) = Some (200, Some raw)
     \<and> rv_wire V (LimitReader 67108864 raw) = Some w \<and> check_envelope E V (rv_getenv V k) date w = Inr f)"
  unfolding http_FetchDay_def Let_def by (auto split: option.splits)

text \<open>
  The interface of the feed: whatever its source, a day comes with the manifest of its own rows. The control needs no more: the rows
  all fall into the day's window, and their total is exact.
\<close>

locale feed_source =
  fixes E :: env and V :: recovery_env and fetch :: "string \<Rightarrow> string \<Rightarrow> db \<Rightarrow> err + DayEnvelope"
  assumes manifest: "fetch telco date s = Inr f \<Longrightarrow> BusinessDate f = date \<and> RecordCount f = int (length (EnvRows f))
    \<and> TotalMinor (EnvRows f) = Inr (EnvTotalMinor f) \<and> ContentHash f = CanonicalHash E V (EnvRows f)"
begin

lemma exact_total:
  assumes "fetch telco date s = Inr f" "\<forall>r \<in> set (EnvRows f). 0 \<le> sint (RecoveryDeductedMinor r)"
  shows "sint (EnvTotalMinor f) = (\<Sum>r\<leftarrow>EnvRows f. sint (RecoveryDeductedMinor r))"
  using total_loop_exact [OF assms(2), of 0 "EnvTotalMinor f"] manifest [OF assms(1)] by (simp add: TotalMinor_def)

lemma day_in_window:
  assumes "fetch telco date s = Inr f" "businessDayWindow V off date = Inr (ps, pe)"
  shows "filter (\<lambda>tr. in_window ps pe (CreditedAt tr)) (mapFeedToTelco f date ps) = mapFeedToTelco f date ps
    \<and> int (length (mapFeedToTelco f date ps)) = RecordCount f"
  using manifest [OF assms(1)] assms(2) one_day_pos
  by (auto simp: mapFeedToTelco_def businessDayWindow_def in_window_def filter_id_conv algebra_simps split: option.splits)

end

interpretation mock: feed_source E V "mock_FetchDay E V" for E V
proof
  fix telco date s f
  assume "mock_FetchDay E V telco date s = Inr f"
  then obtain rows t where "TotalMinor rows = Inr t"
    and f: "\<lparr>BusinessDate = date, EnvRows = rows, RecordCount = int (length rows), EnvTotalMinor = t, ContentHash = CanonicalHash E V rows\<rparr> = f"
    unfolding mock_FetchDay_def andThen_Inr_iff by blast
  then show "BusinessDate f = date \<and> RecordCount f = int (length (EnvRows f)) \<and> TotalMinor (EnvRows f) = Inr (EnvTotalMinor f)
      \<and> ContentHash f = CanonicalHash E V (EnvRows f)" unfolding f [symmetric] by simp
qed

interpretation https: feed_source E V "\<lambda>telco date s. http_FetchDay E V url k date" for E V url k
proof
  fix telco date and s :: db and f
  assume "http_FetchDay E V url k date = Inr f"
  then obtain w where w: "check_envelope E V (rv_getenv V k) date w = Inr f" unfolding http_FetchDay_Inr by blast
  have f: "\<lparr>BusinessDate = date, EnvRows = wn_rows w, RecordCount = int (length (wn_rows w)), EnvTotalMinor = wn_total w, ContentHash = wn_hash w\<rparr> = f"
    using w unfolding check_envelope_Inr by blast
  from w show "BusinessDate f = date \<and> RecordCount f = int (length (EnvRows f)) \<and> TotalMinor (EnvRows f) = Inr (EnvTotalMinor f)
      \<and> ContentHash f = CanonicalHash E V (EnvRows f)" unfolding check_envelope_Inr f [symmetric] by simp
qed


section \<open>Samples\<close>

text \<open>
  A telco with a signed feed of one deduction, ten business days after the epoch in a zone one hour ahead. Documents carry no
  content here; the decoders return fixed ones.
\<close>

definition sample_row :: FeedRow where
  "sample_row = \<lparr>MSISDNToken = ''tok'', RecoveryDeductedMinor = 40, FeedCurrency = ''NGN'', ClosingBalanceMinor = None\<rparr>"

definition sample_raw :: recovery_raw where
  "sample_raw = \<lparr>AmountToleranceMinor = 0, AutoResolve = False, MaxAmountMinor = 1000000, MinCompletenessRatio = (1, - 1),
     ReconLagSeconds = 0, RereconcileLookbackSeconds = 86400, raw_confirmation = (1, 0), raw_zone = ''Lagos'', raw_fresh = 172800\<rparr>"

definition sample_signed :: "string \<Rightarrow> wireEnvelope" where
  "sample_signed date = \<lparr>wn_date = date, wn_count = 1, wn_total = 40, wn_hash = '''',
     wn_signature = feed_Sign sample_mac ''secret'' date 1 40 '''', wn_rows = [sample_row]\<rparr>"

definition sample_recovery :: recovery_env where
  "sample_recovery = \<lparr>rv_recon = sample_recon, rv_cfg = (\<lambda>_. Some sample_raw),
     rv_feed = (\<lambda>_. Some \<lparr>fd_source = ''https'', fd_url = ''u'', fd_auth = Some (''K'', ''sig'')\<rparr>),
     rv_policy = (\<lambda>_. (Some (1, 0), Some 172800)), rv_source = (\<lambda>_. Some ''https''), rv_window = (\<lambda>_. Some 172800),
     rv_zone = (\<lambda>_. Some (3600000000, 3600000000)), rv_parse = (\<lambda>d. if d = [] then None else Some (int (length d) - 1)),
     rv_format = (\<lambda>d. replicate (Suc (nat d)) CHR ''x''), rv_eod = [], rv_getenv = (\<lambda>_. ''secret''),
     rv_http = (\<lambda>url. Some (200, Some (drop 16 url))), rv_wire = (\<lambda>raw. Some (sample_signed raw)), rv_hmac = sample_mac, rv_sort = id\<rparr>"

theorem control_sweeps_settled_days_witness:
  "lastSettledBusinessDay sample_recovery 3600000000 864000000000 = Some (rv_format sample_recovery 9)
   \<and> businessDayStrings sample_recovery 3600000000 691200000000 (rv_format sample_recovery 9) = map (rv_format sample_recovery) [8, 9]"
proof -
  have "\<forall>d. d = 9 \<or> 8 \<le> d \<and> d \<le> (9 :: int) \<longrightarrow> rv_parse sample_recovery (rv_format sample_recovery d) = Some d"
    by (auto simp: sample_recovery_def)
  from control_sweeps_settled_days [OF _ _ this, of 864000000000 172800000000 3600000000]
  show ?thesis by (simp add: one_day_def second_def upto.simps)
qed


text \<open>Two people arm the telco, then the control meets one booked recovery that the feed confirms.\<close>

definition synthetic_feed :: recovery_env where
  "synthetic_feed = sample_recovery\<lparr>rv_feed := (\<lambda>_. Some \<lparr>fd_source = ''mock'', fd_url = '''', fd_auth = None\<rparr>), rv_source := (\<lambda>_. Some ''mock''),
     rv_eod := [\<lparr>eo_telco = ''T'', eo_date = replicate 10 CHR ''x'', eo_row = sample_row\<rparr>]\<rparr>"

definition sample_config :: "string \<Rightarrow> string \<Rightarrow> config_row" where
  "sample_config domain scope = \<lparr>cv_id = domain @ scope, cv_domain = domain, cv_scope = scope, cv_no = 1, cv_state = ''ACTIVE'',
     cv_content = JObj [], cv_hash = '''', cv_from = Some 0, cv_to = None, cv_by = ''alice'', cv_approver = Some ''bob'', cv_reason = ''seed''\<rparr>"

definition unarmed :: "registry \<times> db" where
  "unarmed = (\<lparr>wcreds = [\<lparr>wc_key = ''k1'', wc_telco = ''T'', wc_secret = ''S'', wc_label = '''', wc_status = ''ACTIVE''\<rparr>],
       telcos = [(''T'', ''ACTIVE'')], armings = [], synthetic = [''T''], armreqs = []\<rparr>,
     empty_db\<lparr>configs := [sample_config ''recon.recovery'' ''global'', sample_config ''telco.recovery_feed'' ''telco:T'',
         sample_config ''telco.recharge_feed'' ''global'', sample_config ''telco.recharge_feed'' ''telco:T''],
       events := [\<lparr>e_id = ''ev'', e_telco = ''T'', e_source = ''wh:1'', e_sub = None, e_token = Some ''tok'', e_amount = 40, e_cur = ''NGN'',
         e_state = RecoveryAllocated, e_occurred = 777600000000\<rparr>]\<rparr>)"

definition day_ten :: env where
  "day_ten = sample_env\<lparr>now := 864000000000\<rparr>"

definition proposed :: "registry \<times> db" where
  "proposed = snd (ProposeArmRecovery day_ten synthetic_feed
     \<lparr>ap_telco = ''T'', ap_by = ''alice'', ap_reason = ''go live'', ap_reversal = ''GROSS'', ap_basis = ''lagos''\<rparr> unarmed)"

definition armed :: "registry \<times> db" where
  "armed = (snd (ApproveArmRecovery ''rar_0'' ''bob'' (fst proposed)), snd proposed)"

definition reconciled :: "registry \<times> db" where
  "reconciled = snd (RunRecovery day_ten synthetic_feed ''T'' armed)"

definition controlled :: "registry \<times> db" where
  "controlled = (fst armed, snd (RunRecoveryControl day_ten synthetic_feed (fst armed) ''T'' (snd armed)))"

definition sample_evidence :: RecoveryEvidence where
  "sample_evidence = \<lparr>QualificationID = ''qual_3'', EvRunID = ''run_1'', EvidenceAt = 0, EvArmFreshnessMaxSeconds = 0\<rparr>"

lemma sample_gate: "gate_step\<^sup>*\<^sup>* unarmed reconciled"
proof -
  have "gate_step unarmed proposed" unfolding proposed_def by (rule gate_step.propose [OF prod.collapse [symmetric]])
  moreover have "gate_step (fst proposed, snd proposed) armed" unfolding armed_def by (rule gate_step.approve [OF prod.collapse [symmetric]])
  then have "gate_step proposed armed" by simp
  moreover have "gate_step armed reconciled" unfolding reconciled_def by (rule gate_step.run [OF prod.collapse [symmetric]])
  ultimately show ?thesis by (meson converse_rtranclp_into_rtranclp rtranclp.rtrancl_refl)
qed

lemma sample_reconciled: "case reconciled of (R, s) \<Rightarrow> IsLayerLive 864001000000 ''T'' ReconLayerRecovery R
    \<and> map_sum id (\<lambda>c. (CredTelcoID c, SecretEnv c)) (ResolveByKeyID R ''k1'') = Inr (''T'', ''S'')
    \<and> map_sum id cv_scope (ActiveAt ''telco.recharge_feed'' ScopeGlobal 864001000000 s) = Inr ScopeGlobal
    \<and> map_sum id cv_scope (ActiveAt ''telco.recharge_feed'' ''telco:T'' 864001000000 s) = Inr ''telco:T''"
  by code_simp

lemma sample_published: "case controlled of (R, s) \<Rightarrow> distinct (map (\<lambda>a. (ar_telco a, ar_layer a)) (armings R))
    \<and> fst (Publish day_ten synthetic_feed id id 864001000000 ''T'' sample_evidence (R, s)) = Inr True"
  by code_simp

theorem publish_is_fenced_witness:
  "\<exists>R' s'. Publish day_ten synthetic_feed id id 864001000000 ''T'' sample_evidence controlled = (Inr True, R', s')
     \<and> (\<exists>q \<in> set (quals s'). \<exists>r \<in> set (recon_runs s'). rr_id r = qu_run q \<and> rr_state r = ''ACTIVE'' \<and> (\<exists>ratio. confirms r ratio))"
proof -
  obtain R s where st: "controlled = (R, s)" by fastforce
  then obtain R' s' where pub: "Publish day_ten synthetic_feed id id 864001000000 ''T'' sample_evidence (R, s) = (Inr True, R', s')"
    using sample_published by (cases "Publish day_ten synthetic_feed id id 864001000000 ''T'' sample_evidence (R, s)") auto
  have "distinct (map (\<lambda>a. (ar_telco a, ar_layer a)) (armings (fst (id (R, s)))))" using sample_published unfolding st by simp
  note fenced = publish_is_fenced [where waiting = id and R = R and s = s and E = day_ten and V = synthetic_feed and locked = id
      and t = 864001000000 and telco = "''T''" and ev = sample_evidence and x = 0 and y = 0, OF this, THEN conjunct1, unfolded pub prod.case sum.case]
  have "\<exists>q \<in> set (quals s'). \<exists>r \<in> set (recon_runs s'). rr_id r = qu_run q \<and> rr_state r = ''ACTIVE'' \<and> (\<exists>ratio. confirms r ratio)"
    using fenced [THEN conjunct2] by metis
  with pub st show ?thesis by auto
qed

end
