(* ===== verification/Spec2Isabelle.thy ===== *)
theory Spec2Isabelle
  imports Collections Treasury OriginationRules Scoring Outbox Settlement StatusActions ReconRecovery
begin

text \<open>
  A verification development of BridgeXtra, an airtime-advance platform: a telco's customers take small advances from a lender's
  pool, the telco delivers the airtime, and later recharges pay the advances back. The Go backend is under
  \<^verbatim>\<open>backend/internal\<close>; paths below are relative to it. The development follows its layers, one theory per component,
  and states what keeps the money right across retries, partial failures, concurrent transactions and operators.

  \<^bold>\<open>How the parts interact.\<close> The scoring engine decides a limit for each subscriber. Origination turns a decision into a ladder of
  priced offers, and a confirmed offer into an advance: a first transaction passes the lending gates and the treasury guardrails,
  reserves the pool and books a sent attempt; the telco is called outside any transaction; a second transaction applies the outcome.
  Outcomes that stay unknown are settled by the resolver. Recharges arrive through the webhook, which authenticates them, applies the
  clamps (a recharge over them is parked for a two-person release) and hands them to the recovery use case. Recovery allocates each
  event to the open advances, writes journals from governed templates, and undoes an event by reversal. Collections
  classifies and writes off what is not repaid. Settlement computes partner statements from the journals. Reconciliation compares
  the platform's records with the telco's; its recovery layer is the gate the webhook asks before it lets a request through. Side effects leave
  through the outbox; every governed document passes the configuration lifecycle.

  \<^bold>\<open>Conventions.\<close>
  \<^item> State. \<^typ>\<open>db\<close> (theory \<^verbatim>\<open>Store\<close>) has one list of rows per table. A SQL statement is the list operation it denotes, with
    its guard, its affected-row test and the unique, check and foreign-key constraints the migrations declare. Row-level security is a filter on the telco of
    the session. The registries the webhook reads before a tenant is known (credentials, armings, freshness) are a second record.
  \<^item> Errors. A fallible function returns \<^typ>\<open>err + 'a\<close>, a transaction \<^typ>\<open>err + 'a \<times> db\<close>: \<^const>\<open>Inl\<close> is the error
    and, at the boundary of a transaction, the rollback. Where the code writes outside a failed transaction (audit rows, parked
    events), the function returns the state beside the result.
  \<^item> Integers. Go's \<^verbatim>\<open>int64\<close> and \<^verbatim>\<open>int\<close> are \<^typ>\<open>i64\<close>, 64-bit words that wrap; \<^verbatim>\<open>big.Int\<close> is \<^typ>\<open>int\<close>.
    Amounts are words of minor units with a currency. \<^verbatim>\<open>float64\<close>, used in reconciliation only, is a 53-bit mantissa with an exponent
    and round-half-even. Instants are microseconds, the resolution of the database, and nanoseconds in the scoring engine.
  \<^item> Parameters. \<^typ>\<open>env\<close> has the clock, the tenant, fresh identifiers, SHA-256, JSON coding and the rendering of instants and errors; further
    records have the MAC, the process environment, HTTP clients, time zones and the registry of configuration validators. The configuration
    an operation reads, or the error of reading it, is an argument where the operation does not depend on its history.
  \<^item> Concurrency. A transaction is one function, run under the row locks that the code takes. Where an operation is several transactions,
    or its statements see other transactions' commits, the model has a step relation, or an argument for what the others commit.
  \<^item> Loops. There is no fuel. Loops over rows, parameters and configured lists are structural recursion or folds; the loop over
    business days (\<^const>\<open>day_loop\<close>) is a function with a measure; a retry or polling loop is one run of its body, iterated by the lemma that needs it.

  \<^bold>\<open>Foundations.\<close>
  \<^item> \<^verbatim>\<open>Prelude\<close>: words read as integers, sums of lists, table lookups and updates, and the collections of rewrite rules.
  \<^item> \<^verbatim>\<open>Money\<close>: \<^verbatim>\<open>entity/money.go\<close> with the platform's error values. Locale \<^verbatim>\<open>exact_op\<close> is the contract of a checked operation
    (the integer result or an overflow), interpreted for addition and subtraction. A ratio split is exact (C10).
  \<^item> \<^verbatim>\<open>Credit\<close>: \<^verbatim>\<open>entity/credit.go\<close>, the aggregates and the state machine of an advance as its transition table.
  \<^item> \<^verbatim>\<open>Store\<close>: \<^verbatim>\<open>platform/platform.go\<close>, \<^verbatim>\<open>repo/tx.go\<close> and the tables. Locale \<^verbatim>\<open>four_eyes\<close> is the contract of a decision by a
    second person; it is interpreted for write-offs, guardrail re-arms, status actions, releases of held recharges, breaks and overrides.
  \<^item> \<^verbatim>\<open>RepoCredit\<close>: \<^verbatim>\<open>repo/credit.go\<close>. Locale \<^verbatim>\<open>pool_op\<close> is a statement that moves an amount between a pool's columns and
    \<^verbatim>\<open>pool_inverse\<close> a pair that undo each other.
  \<^item> \<^verbatim>\<open>RepoRecovery\<close>: \<^verbatim>\<open>repo/recovery.go\<close>, \<^verbatim>\<open>repo/reversals.go\<close>, \<^verbatim>\<open>repo/idempotency.go\<close>, \<^verbatim>\<open>repo/recoveryholds.go\<close>.
    Locale \<^verbatim>\<open>idempotency_store\<close> is what a use case relies on for replay.
  \<^item> \<^verbatim>\<open>RepoEngagement\<close>: the flags, consents and self-exclusions of \<^verbatim>\<open>repo/engagement.go\<close> and \<^verbatim>\<open>repo/selfexclusion.go\<close>.
  \<^item> \<^verbatim>\<open>Ledger\<close>: \<^verbatim>\<open>ledger/ledger.go\<close>, \<^verbatim>\<open>ledger/templates.go\<close> and the template validator. Posting keeps every journal balanced (C8),
    and templates that pass the symbolic check balance for every binding (C9).

  \<^bold>\<open>The money.\<close>
  \<^item> \<^verbatim>\<open>Recovery\<close>, \<^verbatim>\<open>RecoveryBook\<close>, \<^verbatim>\<open>RecoveryProps\<close>: \<^verbatim>\<open>usecase/recovery/recovery.go\<close>. The book invariant ties each pool's
    utilised and reserved amounts to its advances, and each advance's debt to its allocations; every entry point keeps it (C1, C2). An event's money is split
    exactly (C3), a reversal is exact and bounded (C4), a repeated command gets the stored answer (C7).
  \<^item> \<^verbatim>\<open>Adapter\<close>: \<^verbatim>\<open>mno/adapter.go\<close>, \<^verbatim>\<open>mno/auth.go\<close>, \<^verbatim>\<open>mno/breaker.go\<close>. The ring buffer of the breaker refines a window over the latest
    outcomes (C19); a request that may have reached the telco is not reported failed without a definite rejection (C20).
  \<^item> \<^verbatim>\<open>Origination\<close>, \<^verbatim>\<open>OriginationBook\<close>, \<^verbatim>\<open>OriginationProps\<close>, \<^verbatim>\<open>OriginationRules\<close>: \<^verbatim>\<open>usecase/origination\<close>,
    \<^verbatim>\<open>usecase/fulfilmentresolver\<close>, \<^verbatim>\<open>usecase/economics\<close>, \<^verbatim>\<open>usecase/feepolicy\<close>. The same invariant across confirmation and resolution (C14),
    the gates behind a booked advance (C15), one settlement per advance (C16), the prices of the ladder (C17), self-exclusion (C18) and
    the answer that cannot be stored (C21).
  \<^item> \<^verbatim>\<open>Treasury\<close>: \<^verbatim>\<open>usecase/treasury\<close>, \<^verbatim>\<open>repo/guardrails.go\<close>. Lending stays suspended while a trip is open (C12); a breach is
    reported exactly at the limits (C13).
  \<^item> \<^verbatim>\<open>Collections\<close>: \<^verbatim>\<open>usecase/collections\<close>, \<^verbatim>\<open>repo/writeoffs.go\<close>. An approved write-off takes exactly the open debt off the book (C11).
  \<^item> \<^verbatim>\<open>Settlement\<close>: \<^verbatim>\<open>usecase/settlement\<close>, \<^verbatim>\<open>repo/settlement.go\<close>. A finalised statement can be computed again (C28).
  \<^item> \<^verbatim>\<open>Scoring\<close>: \<^verbatim>\<open>scoring/engine.go\<close> and its policy validator. Under a validated policy the engine always decides, by the reference rules
    (C22), and one large week buys nothing (C23).

  \<^bold>\<open>Governance and events.\<close>
  \<^item> \<^verbatim>\<open>ConfigSvc\<close>: \<^verbatim>\<open>usecase/configsvc/configsvc.go\<close>, \<^verbatim>\<open>repo/config.go\<close>. Whatever resolves was approved by a second person (C26), and an
    activation leaves the past as it was (C27).
  \<^item> \<^verbatim>\<open>StatusActions\<close>: \<^verbatim>\<open>usecase/ops/statusactions.go\<close>. Two people behind each change (C29), and agreement with the self-exclusion register (C30).
  \<^item> \<^verbatim>\<open>Outbox\<close>: \<^verbatim>\<open>usecase/outboxdispatch\<close>, \<^verbatim>\<open>repo/outbox.go\<close>. Order and at-most-once success under interleaved workers and
    crashes (C24), and a bound on the runs after which nothing is left to claim (C25).

  \<^bold>\<open>Recharges and reconciliation.\<close>
  \<^item> \<^verbatim>\<open>RechargeHold\<close>: \<^verbatim>\<open>repo/heldrecharge.go\<close>, \<^verbatim>\<open>usecase/rechargehold\<close>. What a release may book under every interleaving of its three transactions
    (C31), and the exact daily counter (C32).
  \<^item> \<^verbatim>\<open>RechargeWebhook\<close>: \<^verbatim>\<open>rechargewebhook\<close>, \<^verbatim>\<open>handler/recharge_webhook.go\<close> and its registries. Signatures (C33), the authentication chain
    (C34), and deliveries of a held event (C35).
  \<^item> \<^verbatim>\<open>Recon\<close>: \<^verbatim>\<open>usecase/recon/recon.go\<close> and the break workflow of \<^verbatim>\<open>repo/ops.go\<close>. A truncated feed never replaces a good run (C5), the items partition
    a window (C36), the source manifest is exact (C37).
  \<^item> \<^verbatim>\<open>ReconRecovery\<close>: \<^verbatim>\<open>recoveryfeed\<close>, \<^verbatim>\<open>usecase/recon/recon_recovery.go\<close>, \<^verbatim>\<open>recon_recovery_fenced_publisher.go\<close>, \<^verbatim>\<open>recon_arming.go\<close>.
    Locale \<^verbatim>\<open>feed_source\<close> is the contract of a feed, interpreted for both adapters. The fenced publisher (C38), the authentic day
    (C39), the days a control visits (C40).
  \<^item> This theory joins the last three: the webhook admits a request only behind a two-person arming and recent evidence of reconciliation (C6).

  \<^bold>\<open>Not modelled.\<close> HTTP decoding and rendering outside the webhook, sessions and rate limiting; the read-only queries of the operator portal, the
  evidence packs and the invariant monitor; feature ingestion and the batch run around the scoring engine; complaint records, operator provisioning,
  notifications and demo data; the range checks of the remaining configuration validators, which are a parameter of the lifecycle; process wiring, migrations and
  seeding; the TypeScript portal and the simulator. Log lines and metrics are omitted throughout.
\<close>

section \<open>No webhook money without reconciliation\<close>

definition late_env :: env where
  "late_env = sample_env\<lparr>now := 864001000000\<rparr>"

definition sample_request :: HttpRequest where
  "sample_request = \<lparr>rq_header = (\<lambda>h. if h = ''X-Key'' then ''k1'' else if h = ''X-Ts'' then ''864001''
       else Sign sample_mac ''secret'' ''k1'' ''864001'' ''body''),
     rq_telco = '''', rq_length = 4, rq_body = Some ''body'', rq_addr = ''''\<rparr>"


lemma sample_admitted:
  assumes "reconciled = (R, s)"
  shows "\<exists>v. webhookAuth late_env sample_webhook R sample_request s = (Inr (''T'', v), s)"
proof -
  have mac: "length (sample_mac k m) = 32" for k m by (simp add: sample_mac_def)
  have ts: "ParseTimestamp ''864001'' = Inr 864001000000" by code_simp
  have sig: "Verify sample_mac ''secret'' ''k1'' ''864001'' ''body'' (Sign sample_mac ''secret'' ''k1'' ''864001'' ''body'') = Inr ()"
    "DecodeSig (Sign sample_mac ''secret'' ''k1'' ''864001'' ''body'') = Inr (sample_mac ''secret'' (CanonicalString ''k1'' ''864001'' ''body''))"
    by (simp_all add: Verify_mac mac DecodeSig_iff Sign_def)
  have verified: "\<exists>v. verify_request late_env sample_webhook c ''k1'' sample_feed sample_request = Inr v" for c
    by (simp add: verify_request_def sample_webhook_def sample_request_def sample_feed_def sig ts late_env_def Let_def second_def)
  have st: "IsLayerLive 864001000000 ''T'' ReconLayerRecovery R"
    "map_sum id (\<lambda>c. (CredTelcoID c, SecretEnv c)) (ResolveByKeyID R ''k1'') = Inr (''T'', ''S'')"
    "map_sum id cv_scope (ActiveAt ''telco.recharge_feed'' ScopeGlobal 864001000000 s) = Inr ScopeGlobal"
    "map_sum id cv_scope (ActiveAt ''telco.recharge_feed'' ''telco:T'' 864001000000 s) = Inr ''telco:T''"
    using sample_reconciled unfolding assms by simp_all
  then obtain cred g c where "ResolveByKeyID R ''k1'' = Inr cred" "CredTelcoID cred = ''T''"
    "ActiveAt ''telco.recharge_feed'' ScopeGlobal 864001000000 s = Inr g"
    "ActiveAt ''telco.recharge_feed'' ''telco:T'' 864001000000 s = Inr c" "cv_scope c = ''telco:T''"
    by (auto simp: map_sum_def split: sum.splits)
  with verified [of cred] st(1) show ?thesis
    by (auto simp: webhookAuth_def readFeed_def late_env_def sample_webhook_def sample_request_def sample_feed_def)
qed


end
